(* ===== verification/FW_Prelude.thy ===== *)
theory FW_Prelude
  imports Main "HOL-Library.Word"
begin

text \<open>
  Shared vocabulary of the development: the machine integer types of the C code, the few
  bit-level helpers the translations use, the fact collections the component proofs
  rely on, and the generic word and list lemmas.

  C integers keep their width: \<open>uint8_t\<close>, \<open>uint16_t\<close> and \<open>uint32_t\<close> are \<open>8 word\<close>,
  \<open>16 word\<close> and \<open>32 word\<close>; a signed \<open>int32_t\<close> is the same word read through \<open>sint\<close>.
  A test \<open>x & (1 << n)\<close> is written \<open>bit x n\<close>.
\<close>

unbundle bit_operations_syntax

type_synonym u8 = "8 word"
type_synonym u16 = "16 word"
type_synonym u32 = "32 word"
type_synonym i32 = "32 word"

named_theorems flag_eqs \<open>closed forms of the condition-flag updates\<close>
named_theorems instr_defs \<open>definitions of the simulated instructions\<close>
named_theorems mem_defs \<open>definitions of the memory operations of the simulator\<close>

section \<open>Bit helpers\<close>

text \<open>\<open>(w >> n) & m\<close> as an index, and bit \<open>n\<close> of a word set to a given truth value.\<close>

abbreviation fld :: "'a::len word \<Rightarrow> nat \<Rightarrow> 'a word \<Rightarrow> nat" where
  "fld w n m \<equiv> unat (drop_bit n w AND m)"

definition put_bit :: "nat \<Rightarrow> bool \<Rightarrow> 'a::len word \<Rightarrow> 'a word" where
  "put_bit n b w = (if b then Bit_Operations.set_bit n w else unset_bit n w)"

lemma bit_put_bit:
  "bit (put_bit n b w) m \<longleftrightarrow> (if m = n then b \<and> n < LENGTH('a) else bit w m)"
  for w :: "'a::len word"
  by (auto simp: put_bit_def bit_simps dest: bit_imp_le_length)

lemma put_bit_same [simp]: "put_bit n a (put_bit n b w) = put_bit n a w"
  by (rule bit_word_eqI) (simp add: bit_put_bit)

lemma put_bit_swap: "n \<noteq> m \<Longrightarrow> put_bit n a (put_bit m b w) = put_bit m b (put_bit n a w)"
  by (rule bit_word_eqI) (simp add: bit_put_bit)

lemma and_not_eq_unset: "w AND NOT (2 ^ n) = unset_bit n w" for w :: "'a::len word"
  by (rule bit_word_eqI) (auto simp: bit_simps)

lemma or_eq_set: "w OR 2 ^ n = Bit_Operations.set_bit n w" for w :: "'a::len word"
  by (rule bit_word_eqI) (auto simp: bit_simps)

lemma and_exp_eq_0_iff: "w AND 2 ^ n = 0 \<longleftrightarrow> \<not> bit w n" for w :: "'a::len word"
proof
  assume "w AND 2 ^ n = 0"
  then have "\<not> bit (w AND 2 ^ n) n" by simp
  then show "\<not> bit w n" by (auto simp: bit_simps dest: bit_imp_le_length)
qed (auto intro!: bit_word_eqI simp: bit_simps)

lemma fld_less: "unat m < k \<Longrightarrow> fld w n m < k" for w :: "'a::len word"
  by (meson order.strict_trans1 word_and_le1 word_le_nat_alt)

lemma upd_nth: "xs[i := v] ! j = (if i = j \<and> j < length xs then v else xs ! j)"
  by (cases "i < length xs") (auto simp: nth_list_update list_update_beyond not_less)

section \<open>Faults of the firmware\<close>

text \<open>
  The ways in which a firmware function does not return normally: it dereferences \<open>NULL\<close>,
  an \<open>assert\<close> stops the processor, it accesses memory outside the object or at an address the
  processor cannot access as a word, divides by zero or shifts by the width of the operand or more.
  Functions that can fail return \<open>fault + 'a\<close>.
\<close>

datatype fault =
    Null_Deref | Assert_Failed | Out_Of_Bounds | Div_By_Zero | Undefined_Shift | Unaligned_Access

text \<open>32 bit address and size arithmetic on natural numbers, wrapping as \<open>size_t\<close> does.\<close>

definition add32 :: "nat \<Rightarrow> nat \<Rightarrow> nat" where
  "add32 a b = (a + b) mod 2 ^ 32"

definition sub32 :: "nat \<Rightarrow> nat \<Rightarrow> nat" where
  "sub32 a b = (a + 2 ^ 32 - b) mod 2 ^ 32"

lemma add32_id [simp]: "a + b < 2 ^ 32 \<Longrightarrow> add32 a b = a + b"
  by (simp add: add32_def)

lemma sub32_id [simp]: "b \<le> a \<Longrightarrow> a < 2 ^ 32 \<Longrightarrow> sub32 a b = a - b"
proof -
  assume "b \<le> a" "a < 2 ^ 32"
  then have "a + 2 ^ 32 - b = (a - b) + 2 ^ 32" "a - b < 2 ^ 32" by linarith+
  then show ?thesis by (simp only: sub32_def mod_add_self2 mod_less)
qed

section \<open>Unsigned and signed overflow of addition\<close>

lemma uint_plus_carry:
  "uint (a + b + c) = (uint a + uint b + uint c) mod 2 ^ LENGTH('a)" for a b c :: "'a::len word"
  by (simp add: uint_word_ariths mod_simps)

lemma take_bit_32_split: "take_bit 32 k = take_bit 31 k + 2 ^ 31 * of_bool (bit k 31)" for k :: int
  using take_bit_Suc_from_most [of 31 k] by simp

lemma sint_31: "sint (w :: u32) = uint w - (if bit w 31 then 2 ^ 32 else 0)"
proof -
  have "sint w = take_bit 32 (uint w) - 2 ^ 32 * of_bool (bit (uint w) 31)"
    by (simp add: sint_uint signed_take_bit_eq_take_bit_minus)
  moreover have "take_bit 32 (uint w) = uint w"
    by (simp add: take_bit_int_eq_self_iff unsigned_less [where ?'b = 32, simplified])
  ultimately show ?thesis
    by (simp add: bit_uint_iff)
qed

lemma sint_of_nat_32: "n < 2 ^ 31 \<Longrightarrow> sint (of_nat n :: u32) = int n"
  by (simp add: signed_of_nat signed_take_bit_int_eq_self)

end
