(* ===== verification/Sim_Mcu.thy ===== *)
theory Sim_Mcu
  imports FW_Prelude
begin

text \<open>
  The simulated microcontroller of \<^verbatim>\<open>src/tools/simulator\<close>: the machine state
  (\<^verbatim>\<open>core/mcu.h\<close>, \<^verbatim>\<open>cortex-m0p/mcu.h\<close>), the register file, run control, the peripherals
  (\<^verbatim>\<open>peripherals/*.c\<close>) and the memory dispatch (\<^verbatim>\<open>core/mcu.c\<close>).

  \<^item> \<open>struct mcu_cortex_m0p\<close> embeds \<open>struct mcu\<close>; both are the one record \<open>mcu\<close>.
  \<^item> \<open>reg_t\<close> values are natural numbers, the register file is indexed by them.
  \<^item> A \<open>bool\<close> function with an out parameter returns an \<open>option\<close> (\<open>None\<close> for \<open>false\<close>); a
    \<open>bool\<close> function that changes the machine returns the pair of result and new machine.
  \<^item> \<open>undef\<close> is a latch: it is set where the C code leaves its defined behaviour (an index
    past the register file, a shift by 32 or more, a walk past the end of a table). What such an
    access does to memory is not modelled: a statement about the state is meant for machines
    whose latch is not set. Left shifts of \<open>int\<close> into the sign bit (\<open>1 << 31\<close> in the flag
    updates) or of negative values (\<open>(~0) << n\<close> in B and ASR), which ISO C leaves undefined, have
    the two's complement result that GCC and Clang give them.
  \<^item> \<open>exited\<close> holds the status passed to \<open>exit\<close>; \<open>console\<close> collects the characters the
    UART prints; \<open>did_halt\<close> collects the calls made to the registered halt callbacks.
    Diagnostics printed with \<open>printf\<close> are not modelled; a failing \<open>malloc\<close> of the host is
    not modelled.
  \<^item> The host is little endian, as the \<open>uint16_t*\<close> views of the memory arrays assume.
\<close>

section \<open>Constants and types\<close>

abbreviation REG_SP :: nat where "REG_SP \<equiv> 13"
abbreviation REG_LR :: nat where "REG_LR \<equiv> 14"
abbreviation REG_PC :: nat where "REG_PC \<equiv> 15"
abbreviation REG_XPSR :: nat where "REG_XPSR \<equiv> 16"
abbreviation REG_CONTROL :: nat where "REG_CONTROL \<equiv> 17"
abbreviation REG_MSP :: nat where "REG_MSP \<equiv> 18"
abbreviation REG_PSP :: nat where "REG_PSP \<equiv> 19"
abbreviation reg_count :: nat where "reg_count \<equiv> 20"
abbreviation reg_gdb_count :: nat where "reg_gdb_count \<equiv> 17"
abbreviation REG_APSR :: nat where "REG_APSR \<equiv> 25"
abbreviation REG_IPSR :: nat where "REG_IPSR \<equiv> 26"
abbreviation REG_EPSR :: nat where "REG_EPSR \<equiv> 27"

text \<open>The enumerators continue from \<open>HALT_SLEEP = -1\<close>, so \<open>HALT_HARD_FAULT\<close> is 0.\<close>

definition HALT_STOPPED :: int where "HALT_STOPPED = 0"
definition HALT_SLEEP :: int where "HALT_SLEEP = -1"
definition HALT_HARD_FAULT :: int where "HALT_HARD_FAULT = HALT_SLEEP + 1"
definition HALT_UNKOWN_INSTRUCTION :: int where "HALT_UNKOWN_INSTRUCTION = HALT_HARD_FAULT + 1"
definition HAL_TRAP :: int where "HAL_TRAP = 5"

datatype mcu_state_t = mcu_halted | mcu_running

datatype processor_mode_t = processor_thread_mode | processor_handler_mode

datatype mem_class_t = mem_class_ram | mem_class_flash | mem_class_io | mem_class_other

record unittest_dev =
  current_test :: i32
  total_tests :: i32
  tests_skipped :: i32
  tests_failed :: i32
  desc :: "u8 list option"
  status :: u32
  status_desc :: "u8 list option"

text \<open>
  The four function pointers of \<open>struct mem_dev\<close> and the device's own fields are the
  \<open>backend\<close>: every device of the simulator sets all four pointers when it is created.
\<close>

datatype backend =
    Ram "nat \<Rightarrow> u8"
  | Flash "nat \<Rightarrow> u8"
  | Uart
  | Unittest unittest_dev

record mem_dev =
  mem_class :: mem_class_t
  mem_type :: u16
  offset :: u32
  mem_length :: u32
  backend :: backend

record mcu =
  regs :: "nat \<Rightarrow> u32"
  processor_mode :: processor_mode_t
  mem_devs :: "mem_dev list"
  run_state :: mcu_state_t
  halt_reason :: int
  callbacks :: "nat list"
  unlocked :: bool
  idle_active :: bool
  did_halt :: "(nat \<times> int) list"
  console :: "u8 list"
  exited :: "int option"
  undef :: bool

section \<open>Run control (core/mcu.c)\<close>

definition mcu_init :: "mcu \<Rightarrow> bool \<times> mcu" where
  "mcu_init m = (True, m\<lparr>idle_active := False\<rparr>)"

definition mcu_is_unlocked :: "mcu \<Rightarrow> bool" where
  "mcu_is_unlocked m = unlocked m"

definition mcu_unlock :: "mcu \<Rightarrow> bool \<times> mcu" where
  "mcu_unlock m = (True, m\<lparr>unlocked := True\<rparr>)"

definition mcu_lock :: "mcu \<Rightarrow> bool \<times> mcu" where
  "mcu_lock m = (True, m\<lparr>unlocked := False\<rparr>)"

definition mcu_is_halted :: "mcu \<Rightarrow> bool" where
  "mcu_is_halted m \<longleftrightarrow> run_state m = mcu_halted"

definition mcu_halt_reason :: "mcu \<Rightarrow> int" where
  "mcu_halt_reason m = halt_reason m"

definition mcu_halt :: "int \<Rightarrow> mcu \<Rightarrow> mcu" where
  "mcu_halt reason m =
     (if mcu_is_halted m then m
      else m\<lparr>run_state := mcu_halted, halt_reason := reason, idle_active := False,
             did_halt := did_halt m @ map (\<lambda>cb. (cb, reason)) (callbacks m)\<rparr>)"

definition mcu_resume :: "mcu \<Rightarrow> mcu" where
  "mcu_resume m =
     (if \<not> mcu_is_halted m then m else m\<lparr>run_state := mcu_running, idle_active := True\<rparr>)"

definition mcu_add_callbacks :: "nat \<Rightarrow> mcu \<Rightarrow> mcu" where
  "mcu_add_callbacks cb m = m\<lparr>callbacks := cb # callbacks m\<rparr>"

definition mcu_add_mem_dev :: "u32 \<Rightarrow> mem_dev \<Rightarrow> mcu \<Rightarrow> bool \<times> mcu" where
  "mcu_add_mem_dev off dev m = (True, m\<lparr>mem_devs := dev\<lparr>offset := off\<rparr> # mem_devs m\<rparr>)"

section \<open>The register file (cortex-m0p/mcu.c)\<close>

definition mcu_read_reg :: "nat \<Rightarrow> mcu \<Rightarrow> u32" where
  "mcu_read_reg reg m =
     (if reg = REG_SP then
        (if bit (regs m reg) 1 then regs m REG_PSP else regs m REG_MSP)
      else if reg = REG_APSR then regs m REG_XPSR AND 0xF0000000
      else if reg = REG_IPSR then regs m REG_XPSR AND 0x1F
      else if reg = REG_EPSR then regs m REG_XPSR AND 0x1000000
      else regs m reg)"

definition set_reg :: "nat \<Rightarrow> u32 \<Rightarrow> mcu \<Rightarrow> mcu" where
  "set_reg reg v m = m\<lparr>regs := (regs m)(reg := v)\<rparr>"

definition set_undef :: "mcu \<Rightarrow> mcu" where
  "set_undef m = m\<lparr>undef := True\<rparr>"

definition mcu_write_reg :: "nat \<Rightarrow> u32 \<Rightarrow> mcu \<Rightarrow> mcu" where
  "mcu_write_reg reg v m =
     (let v = (if reg = REG_PC then v AND NOT 1 else v);
          reg = (if reg = REG_SP
                 then (if bit (regs m reg) 1 then REG_PSP else REG_MSP) else reg);
          xpsr = regs m REG_XPSR
      in if reg = REG_APSR
         then set_reg REG_XPSR ((xpsr AND NOT 0xF0000000) OR (v AND 0xF0000000)) m
         else if reg = REG_IPSR
         then set_reg REG_XPSR ((xpsr AND NOT 0x1F) OR (v AND 0x1F)) m
         else if reg = REG_EPSR
         then set_reg REG_XPSR ((xpsr AND NOT 0x1000000) OR (v AND 0x1000000)) m
         else if reg < reg_count then set_reg reg v m
         else set_undef m)"

section \<open>Memory arrays\<close>

text \<open>
  RAM and flash are arrays of \<open>uint32_t\<close>; the 16 bit accessors view the same storage as
  \<open>uint16_t\<close>. The storage is modelled byte by byte, in the order of the host.
\<close>

definition rd16 :: "(nat \<Rightarrow> u8) \<Rightarrow> nat \<Rightarrow> u16" where
  "rd16 f i = ucast (f i) OR push_bit 8 (ucast (f (i + 1)))"

definition rd32 :: "(nat \<Rightarrow> u8) \<Rightarrow> nat \<Rightarrow> u32" where
  "rd32 f i = ucast (rd16 f i) OR push_bit 16 (ucast (rd16 f (i + 2)))"

definition wr16 :: "nat \<Rightarrow> u16 \<Rightarrow> (nat \<Rightarrow> u8) \<Rightarrow> nat \<Rightarrow> u8" where
  "wr16 i v f = f(i := ucast v, i + 1 := ucast (drop_bit 8 v))"

definition wr32 :: "nat \<Rightarrow> u32 \<Rightarrow> (nat \<Rightarrow> u8) \<Rightarrow> nat \<Rightarrow> u8" where
  "wr32 i v f = wr16 (i + 2) (ucast (drop_bit 16 v)) (wr16 i (ucast v) f)"

text \<open>Byte index of the 16 bit element \<open>addr >> 1\<close> and of the 32 bit element \<open>addr >> 2\<close>.\<close>

definition idx16 :: "u32 \<Rightarrow> nat" where "idx16 addr = 2 * unat (drop_bit 1 addr)"
definition idx32 :: "u32 \<Rightarrow> nat" where "idx32 addr = 4 * unat (drop_bit 2 addr)"

section \<open>Device reads\<close>

definition ram_dev_read16 :: "(nat \<Rightarrow> u8) \<Rightarrow> u32 \<Rightarrow> u16 option" where
  "ram_dev_read16 f addr = Some (rd16 f (idx16 addr))"

definition ram_dev_read32 :: "(nat \<Rightarrow> u8) \<Rightarrow> u32 \<Rightarrow> u32 option" where
  "ram_dev_read32 f addr = Some (rd32 f (idx32 addr))"

definition flash_dev_read16 :: "(nat \<Rightarrow> u8) \<Rightarrow> u32 \<Rightarrow> u16 option" where
  "flash_dev_read16 f addr = Some (rd16 f (idx16 addr))"

definition flash_dev_read32 :: "(nat \<Rightarrow> u8) \<Rightarrow> u32 \<Rightarrow> u32 option" where
  "flash_dev_read32 f addr = Some (rd32 f (idx32 addr))"

definition uart_dev_read16 :: "u32 \<Rightarrow> u16 option" where
  "uart_dev_read16 addr = None"

definition uart_dev_read32 :: "u32 \<Rightarrow> u32 option" where
  "uart_dev_read32 addr = None"

definition unittest_dev_read32 :: "unittest_dev \<Rightarrow> u32 \<Rightarrow> u32 option" where
  "unittest_dev_read32 u addr =
     (if addr = 0x0 then Some (current_test u)
      else if addr = 0x4 then Some (total_tests u)
      else None)"

text \<open>\<open>mcu_emu_fetch16\<close>, on the 32 bit reader of the device it is installed in.\<close>

definition mcu_emu_fetch16 :: "(u32 \<Rightarrow> u32 option) \<Rightarrow> u32 \<Rightarrow> u16 option" where
  "mcu_emu_fetch16 fetch32 addr =
     (case fetch32 (addr AND NOT 2) of
        None \<Rightarrow> None
      | Some v \<Rightarrow> Some (if bit addr 1 then ucast (v AND 0xFFFF)
                        else ucast (drop_bit 16 v AND 0xFFFF)))"

definition dev_fetch16 :: "mem_dev \<Rightarrow> u32 \<Rightarrow> u16 option" where
  "dev_fetch16 dev addr =
     (case backend dev of
        Ram f \<Rightarrow> ram_dev_read16 f addr
      | Flash f \<Rightarrow> flash_dev_read16 f addr
      | Uart \<Rightarrow> uart_dev_read16 addr
      | Unittest u \<Rightarrow> mcu_emu_fetch16 (unittest_dev_read32 u) addr)"

definition dev_fetch32 :: "mem_dev \<Rightarrow> u32 \<Rightarrow> u32 option" where
  "dev_fetch32 dev addr =
     (case backend dev of
        Ram f \<Rightarrow> ram_dev_read32 f addr
      | Flash f \<Rightarrow> flash_dev_read32 f addr
      | Uart \<Rightarrow> uart_dev_read32 addr
      | Unittest u \<Rightarrow> unittest_dev_read32 u addr)"

text \<open>
  The loop of \<open>DECLARE_MEM_OP\<close>: the first device of the list whose window holds the
  address. The end of the window, \<open>offset + length\<close>, is computed in 32 bits.
\<close>

definition in_window :: "mem_dev \<Rightarrow> u32 \<Rightarrow> bool" where
  "in_window dev addr \<longleftrightarrow> offset dev \<le> addr \<and> addr < offset dev + mem_length dev"

fun find_dev :: "mem_dev list \<Rightarrow> u32 \<Rightarrow> nat option" where
  "find_dev [] addr = None"
| "find_dev (d # ds) addr =
     (if in_window d addr then Some 0 else map_option Suc (find_dev ds addr))"

definition mcu_fetch16 :: "u32 \<Rightarrow> mcu \<Rightarrow> u16 option" where
  "mcu_fetch16 addr m =
     (case find_dev (mem_devs m) addr of
        None \<Rightarrow> None
      | Some i \<Rightarrow> dev_fetch16 (mem_devs m ! i) (addr - offset (mem_devs m ! i)))"

definition mcu_fetch32 :: "u32 \<Rightarrow> mcu \<Rightarrow> u32 option" where
  "mcu_fetch32 addr m =
     (case find_dev (mem_devs m) addr of
        None \<Rightarrow> None
      | Some i \<Rightarrow> dev_fetch32 (mem_devs m ! i) (addr - offset (mem_devs m ! i)))"

definition mcu_util_fetch8 :: "u32 \<Rightarrow> mcu \<Rightarrow> u8 option" where
  "mcu_util_fetch8 addr m =
     (case mcu_fetch16 (addr AND NOT 1) m of
        None \<Rightarrow> None
      | Some v \<Rightarrow> Some (if bit addr 0 then ucast (drop_bit 8 v AND 0xFF)
                        else ucast (v AND 0xFF)))"

section \<open>Reset and exceptions (cortex-m0p/mcu.c)\<close>

definition mcu_reset :: "mcu \<Rightarrow> bool \<times> mcu" where
  "mcu_reset m =
     (case mcu_fetch32 0x0 m of
        None \<Rightarrow> (False, m)
      | Some sp \<Rightarrow>
         (let m = mcu_write_reg REG_SP sp m
          in case mcu_fetch32 0x4 m of
               None \<Rightarrow> (False, m)
             | Some pc \<Rightarrow>
                 if \<not> bit pc 0 then (False, m)
                 else (let m = mcu_write_reg REG_PC (pc + 2) m;
                           m = m\<lparr>processor_mode := processor_thread_mode\<rparr>
                       in (True, mcu_write_reg REG_EPSR (push_bit 24 1) m))))"

definition mcu_do_irq :: "int \<Rightarrow> mcu \<Rightarrow> bool \<times> mcu" where
  "mcu_do_irq irq m = (False, m)"

definition mcu_do_exception :: "int \<Rightarrow> mcu \<Rightarrow> bool \<times> mcu" where
  "mcu_do_exception exc m = (if exc = 1 then mcu_reset m else mcu_do_irq (exc - 16) m)"

definition mcu_do_fault :: "mcu \<Rightarrow> bool \<times> mcu" where
  "mcu_do_fault m = mcu_do_exception 3 m"

section \<open>Device writes\<close>

definition set_backend :: "nat \<Rightarrow> backend \<Rightarrow> mcu \<Rightarrow> mcu" where
  "set_backend i b m = m\<lparr>mem_devs := (mem_devs m)[i := (mem_devs m ! i)\<lparr>backend := b\<rparr>]\<rparr>"

definition ram_dev_write16 :: "nat \<Rightarrow> (nat \<Rightarrow> u8) \<Rightarrow> u32 \<Rightarrow> u16 \<Rightarrow> mcu \<Rightarrow> bool \<times> mcu" where
  "ram_dev_write16 i f addr v m = (True, set_backend i (Ram (wr16 (idx16 addr) v f)) m)"

definition ram_dev_write32 :: "nat \<Rightarrow> (nat \<Rightarrow> u8) \<Rightarrow> u32 \<Rightarrow> u32 \<Rightarrow> mcu \<Rightarrow> bool \<times> mcu" where
  "ram_dev_write32 i f addr v m = (True, set_backend i (Ram (wr32 (idx32 addr) v f)) m)"

definition flash_dev_write16 :: "nat \<Rightarrow> (nat \<Rightarrow> u8) \<Rightarrow> u32 \<Rightarrow> u16 \<Rightarrow> mcu \<Rightarrow> bool \<times> mcu" where
  "flash_dev_write16 i f addr v m =
     (if \<not> mcu_is_unlocked m then (False, m)
      else (True, set_backend i (Flash (wr16 (idx16 addr) v f)) m))"

definition flash_dev_write32 :: "nat \<Rightarrow> (nat \<Rightarrow> u8) \<Rightarrow> u32 \<Rightarrow> u32 \<Rightarrow> mcu \<Rightarrow> bool \<times> mcu" where
  "flash_dev_write32 i f addr v m =
     (if \<not> mcu_is_unlocked m then (False, m)
      else (True, set_backend i (Flash (wr32 (idx32 addr) v f)) m))"

definition uart_dev_write16 :: "u32 \<Rightarrow> u16 \<Rightarrow> mcu \<Rightarrow> bool \<times> mcu" where
  "uart_dev_write16 addr v m = (True, m)"

definition uart_dev_write32 :: "u32 \<Rightarrow> u32 \<Rightarrow> mcu \<Rightarrow> bool \<times> mcu" where
  "uart_dev_write32 addr v m =
     (if addr = 0x0 then (True, m\<lparr>console := console m @ [ucast (v AND 0xFF)]\<rparr>) else (True, m))"

text \<open>The unit test device. \<open>unittest_update_progress\<close> only prints and has no model.\<close>

abbreviation STATUS_SKIPPED :: u32 where "STATUS_SKIPPED \<equiv> 0x24924924"
abbreviation STATUS_PASSED :: u32 where "STATUS_PASSED \<equiv> 0xBEEFBEEF"
abbreviation STATUS_FAILED :: u32 where "STATUS_FAILED \<equiv> 0xDEADBEEF"

fun unittest_fetch_loop :: "nat \<Rightarrow> u32 \<Rightarrow> mcu \<Rightarrow> u8 list option" where
  "unittest_fetch_loop 0 addr m = Some []"
| "unittest_fetch_loop (Suc n) addr m =
     (case mcu_util_fetch8 addr m of
        None \<Rightarrow> None
      | Some c \<Rightarrow> if c = 0 then Some []
                   else map_option (Cons c) (unittest_fetch_loop n (addr + 1) m))"

definition unittest_fetch_str :: "u32 \<Rightarrow> mcu \<Rightarrow> u8 list option" where
  "unittest_fetch_str addr m = (if addr = 0 then None else unittest_fetch_loop 1024 addr m)"

definition unittest_done :: "unittest_dev \<Rightarrow> mcu \<Rightarrow> mcu" where
  "unittest_done u m = m\<lparr>exited := Some (if 0 <s tests_failed u then -1 else 0)\<rparr>"

definition unittest_finish_test :: "u32 \<Rightarrow> unittest_dev \<Rightarrow> unittest_dev" where
  "unittest_finish_test temp u =
     (let u = u\<lparr>current_test := current_test u + 1\<rparr>
      in if temp = STATUS_SKIPPED then u\<lparr>tests_skipped := tests_skipped u + 1\<rparr>
         else if temp = STATUS_FAILED then u\<lparr>tests_failed := tests_failed u + 1\<rparr>
         else u)"

definition unittest_dev_write32 :: "nat \<Rightarrow> unittest_dev \<Rightarrow> u32 \<Rightarrow> u32 \<Rightarrow> mcu \<Rightarrow> bool \<times> mcu" where
  "unittest_dev_write32 i u addr temp m =
     (if addr = 0x0 then (False, m)
      else if addr = 0x4 then
        (let u = u\<lparr>total_tests := temp, current_test := 0, tests_failed := 0, tests_skipped := 0\<rparr>
         in (True, snd (mcu_reset (set_backend i (Unittest u) m))))
      else if addr = 0x8 then
        (True, set_backend i (Unittest (u\<lparr>desc := unittest_fetch_str temp m\<rparr>)) m)
      else if addr = 0x12 then
        (let u = u\<lparr>status := temp\<rparr>
         in if temp = STATUS_SKIPPED \<or> temp = STATUS_PASSED \<or> temp = STATUS_FAILED
            then (let u = unittest_finish_test temp u
                  in if current_test u <s total_tests u
                     then (True, snd (mcu_reset
                             (set_backend i (Unittest (u\<lparr>desc := None\<rparr>)) m)))
                     else (True, unittest_done u (set_backend i (Unittest u) m)))
            else (True, set_backend i (Unittest u) m))
      else if addr = 0x16 then
        (True, set_backend i (Unittest (u\<lparr>status_desc := unittest_fetch_str temp m\<rparr>)) m)
      else (False, m))"

text \<open>\<open>mcu_emu_write16\<close>, on the 32 bit accessors of the device it is installed in.\<close>

definition mcu_emu_write16 ::
  "(u32 \<Rightarrow> u32 option) \<Rightarrow> (u32 \<Rightarrow> u32 \<Rightarrow> mcu \<Rightarrow> bool \<times> mcu) \<Rightarrow> u32 \<Rightarrow> u16 \<Rightarrow> mcu \<Rightarrow> bool \<times> mcu" where
  "mcu_emu_write16 fetch32 write32 addr vin m =
     (case fetch32 (addr AND NOT 2) of
        None \<Rightarrow> (False, m)
      | Some v \<Rightarrow>
         (let v = (if bit addr 1 then (v AND NOT 0xFFFF) OR (ucast vin AND 0xFFFF)
                   else (v AND 0xFFFF) OR (push_bit 16 (ucast vin) AND NOT 0xFFFF))
          in write32 (addr AND NOT 2) v m))"

definition dev_write16 :: "nat \<Rightarrow> u32 \<Rightarrow> u16 \<Rightarrow> mcu \<Rightarrow> bool \<times> mcu" where
  "dev_write16 i addr v m =
     (case backend (mem_devs m ! i) of
        Ram f \<Rightarrow> ram_dev_write16 i f addr v m
      | Flash f \<Rightarrow> flash_dev_write16 i f addr v m
      | Uart \<Rightarrow> uart_dev_write16 addr v m
      | Unittest u \<Rightarrow>
          mcu_emu_write16 (unittest_dev_read32 u) (unittest_dev_write32 i u) addr v m)"

definition dev_write32 :: "nat \<Rightarrow> u32 \<Rightarrow> u32 \<Rightarrow> mcu \<Rightarrow> bool \<times> mcu" where
  "dev_write32 i addr v m =
     (case backend (mem_devs m ! i) of
        Ram f \<Rightarrow> ram_dev_write32 i f addr v m
      | Flash f \<Rightarrow> flash_dev_write32 i f addr v m
      | Uart \<Rightarrow> uart_dev_write32 addr v m
      | Unittest u \<Rightarrow> unittest_dev_write32 i u addr v m)"

definition mcu_write16 :: "u32 \<Rightarrow> u16 \<Rightarrow> mcu \<Rightarrow> bool \<times> mcu" where
  "mcu_write16 addr v m =
     (case find_dev (mem_devs m) addr of
        None \<Rightarrow> (False, m)
      | Some i \<Rightarrow> dev_write16 i (addr - offset (mem_devs m ! i)) v m)"

definition mcu_write32 :: "u32 \<Rightarrow> u32 \<Rightarrow> mcu \<Rightarrow> bool \<times> mcu" where
  "mcu_write32 addr v m =
     (case find_dev (mem_devs m) addr of
        None \<Rightarrow> (False, m)
      | Some i \<Rightarrow> dev_write32 i (addr - offset (mem_devs m ! i)) v m)"

definition mcu_util_write8 :: "u32 \<Rightarrow> u8 \<Rightarrow> mcu \<Rightarrow> bool \<times> mcu" where
  "mcu_util_write8 addr vin m =
     (case mcu_fetch16 (addr AND NOT 1) m of
        None \<Rightarrow> (False, m)
      | Some v \<Rightarrow>
         (let v = (if bit addr 0 then (v AND 0x00FF) OR push_bit 8 (ucast vin)
                   else (v AND 0xFF00) OR ucast vin)
          in mcu_write16 (addr AND NOT 1) v m))"

section \<open>Construction\<close>

text \<open>
  The \<open>*_dev_create\<close> functions: \<open>None\<close> is the failed assertion on the size. The fresh RAM is
  whatever \<open>malloc\<close> returns (\<open>ram0\<close>); the flash is filled with \<open>0xDE\<close>.
\<close>

definition flash_dev_create :: "u32 \<Rightarrow> mem_dev option" where
  "flash_dev_create sz =
     (if sz AND 0x3FF = 0
      then Some \<lparr>mem_class = mem_class_flash, mem_type = 1, offset = 0, mem_length = sz,
                 backend = Flash (\<lambda>_. 0xDE)\<rparr>
      else None)"

definition ram_dev_create :: "u32 \<Rightarrow> (nat \<Rightarrow> u8) \<Rightarrow> mem_dev option" where
  "ram_dev_create sz ram0 =
     (if sz AND 0x3FF = 0
      then Some \<lparr>mem_class = mem_class_ram, mem_type = 1, offset = 0, mem_length = sz,
                 backend = Ram ram0\<rparr>
      else None)"

definition uart_dev_create :: mem_dev where
  "uart_dev_create =
     \<lparr>mem_class = mem_class_io, mem_type = 1, offset = 0, mem_length = 0x40, backend = Uart\<rparr>"

definition unittest_dev_create :: mem_dev where
  "unittest_dev_create =
     \<lparr>mem_class = mem_class_io, mem_type = 0xFF, offset = 0, mem_length = 0x20,
      backend = Unittest \<lparr>current_test = -1, total_tests = 0, tests_skipped = 0,
        tests_failed = 0, desc = None, status = 0, status_desc = None\<rparr>\<rparr>"

text \<open>\<open>calloc\<close> zeroes the structure: all registers are 0, the machine is halted and locked.\<close>

definition mcu_zero :: mcu where
  "mcu_zero =
     \<lparr>regs = (\<lambda>_. 0), processor_mode = processor_thread_mode, mem_devs = [],
      run_state = mcu_halted, halt_reason = 0, callbacks = [], unlocked = False,
      idle_active = False, did_halt = [], console = [], exited = None, undef = False\<rparr>"

definition mcu_cortex_m0p_create :: "u32 \<Rightarrow> (nat \<Rightarrow> u8) \<Rightarrow> mcu option" where
  "mcu_cortex_m0p_create ramsize ram0 =
     (let m = snd (mcu_init mcu_zero)
      in case flash_dev_create (32 * 1024) of
           None \<Rightarrow> None
         | Some flash \<Rightarrow>
            (let m = snd (mcu_add_mem_dev 0x0 flash m)
             in case ram_dev_create ramsize ram0 of
                  None \<Rightarrow> None
                | Some ram \<Rightarrow>
                    (let m = snd (mcu_add_mem_dev 0x10000000 ram m);
                         m = snd (mcu_add_mem_dev 0xE0000000 uart_dev_create m)
                     in Some (snd (mcu_add_mem_dev 0xEE000000 unittest_dev_create m)))))"

lemmas [mem_defs] =
  ram_dev_read16_def ram_dev_read32_def flash_dev_read16_def flash_dev_read32_def
  uart_dev_read16_def uart_dev_read32_def dev_fetch16_def dev_fetch32_def
  mcu_fetch16_def mcu_fetch32_def
  ram_dev_write16_def ram_dev_write32_def flash_dev_write16_def flash_dev_write32_def
  uart_dev_write16_def uart_dev_write32_def dev_write16_def dev_write32_def
  mcu_write16_def mcu_write32_def mcu_is_unlocked_def

text \<open>The machine with 1 KiB of zeroed RAM, on which the examples of the development run.\<close>

definition demo_mcu :: mcu where
  "demo_mcu = mcu_zero\<lparr>mem_devs :=
     [unittest_dev_create\<lparr>offset := 0xEE000000\<rparr>, uart_dev_create\<lparr>offset := 0xE0000000\<rparr>,
      \<lparr>mem_class = mem_class_ram, mem_type = 1, offset = 0x10000000, mem_length = 0x400,
       backend = Ram (\<lambda>_. 0)\<rparr>,
      \<lparr>mem_class = mem_class_flash, mem_type = 1, offset = 0, mem_length = 0x8000,
       backend = Flash (\<lambda>_. 0xDE)\<rparr>]\<rparr>"

lemma demo_create: "mcu_cortex_m0p_create 0x400 (\<lambda>_. 0) = Some demo_mcu"
  by (simp add: mcu_cortex_m0p_create_def flash_dev_create_def ram_dev_create_def mcu_add_mem_dev_def
      mcu_init_def demo_mcu_def mcu_zero_def Let_def)

lemma demo_regs: "regs demo_mcu = (\<lambda>_. 0)" "unlocked demo_mcu = False" "undef demo_mcu = False"
  "run_state demo_mcu = mcu_halted" "idle_active demo_mcu = False"
  by (simp_all add: demo_mcu_def mcu_zero_def)

end
