(* ===== verification/Sim_Instr.thy ===== *)
theory Sim_Instr
  imports Sim_Mcu
begin

text \<open>
  The instruction set of the simulator, \<^verbatim>\<open>src/tools/simulator/cortex-m0p/mcu.c\<close>: the
  condition flags, one definition per entry of the two instruction tables, in the order of
  the tables, the tables themselves and the fetch-decode-execute step.

  An \<open>impl\<close> block takes the instruction word and the machine and returns its \<open>bool\<close> and
  the new machine. Operands are cut out of the instruction with \<open>fld\<close> (a register number)
  and \<open>imm\<close> (a 32 bit immediate). The tracing macros expand to nothing.
\<close>

abbreviation imm :: "'a::len word \<Rightarrow> nat \<Rightarrow> 'a word \<Rightarrow> u32" where
  "imm w n m \<equiv> ucast (drop_bit n w AND m)"

type_synonym impl16 = "u16 \<Rightarrow> mcu \<Rightarrow> bool \<times> mcu"
type_synonym impl32 = "u32 \<Rightarrow> mcu \<Rightarrow> bool \<times> mcu"

section \<open>Condition flags\<close>

abbreviation CPSR_N :: u32 where "CPSR_N \<equiv> push_bit 31 1"
abbreviation CPSR_Z :: u32 where "CPSR_Z \<equiv> push_bit 30 1"
abbreviation CPSR_C :: u32 where "CPSR_C \<equiv> push_bit 29 1"
abbreviation CPSR_V :: u32 where "CPSR_V \<equiv> push_bit 28 1"

definition mcu_update_nflag :: "u32 \<Rightarrow> mcu \<Rightarrow> mcu" where
  "mcu_update_nflag c m =
     (let cpsr = mcu_read_reg REG_APSR m;
          cpsr = (if bit c 31 then cpsr OR CPSR_N else cpsr AND NOT CPSR_N)
      in mcu_write_reg REG_APSR cpsr m)"

definition mcu_update_zflag :: "u32 \<Rightarrow> mcu \<Rightarrow> mcu" where
  "mcu_update_zflag c m =
     (let cpsr = mcu_read_reg REG_APSR m;
          cpsr = (if c = 0 then cpsr OR CPSR_Z else cpsr AND NOT CPSR_Z)
      in mcu_write_reg REG_APSR cpsr m)"

definition mcu_update_cflag_bit :: "u32 \<Rightarrow> mcu \<Rightarrow> mcu" where
  "mcu_update_cflag_bit val m =
     (let cpsr = mcu_read_reg REG_APSR m;
          cpsr = (if val \<noteq> 0 then cpsr OR CPSR_C else cpsr AND NOT CPSR_C)
      in mcu_write_reg REG_APSR cpsr m)"

definition mcu_update_cflag :: "u32 \<Rightarrow> u32 \<Rightarrow> u32 \<Rightarrow> mcu \<Rightarrow> mcu" where
  "mcu_update_cflag a b c m =
     (let temp = (a AND 0x7FFFFFFF) + (b AND 0x7FFFFFFF) + c;
          temp = drop_bit 31 temp + drop_bit 31 a + drop_bit 31 b
      in mcu_update_cflag_bit (temp AND 2) m)"

definition mcu_update_vflag_bit :: "u32 \<Rightarrow> mcu \<Rightarrow> mcu" where
  "mcu_update_vflag_bit val m =
     (let cpsr = mcu_read_reg REG_APSR m;
          cpsr = (if val \<noteq> 0 then cpsr OR CPSR_V else cpsr AND NOT CPSR_V)
      in mcu_write_reg REG_APSR cpsr m)"

definition mcu_update_vflag :: "u32 \<Rightarrow> u32 \<Rightarrow> u32 \<Rightarrow> mcu \<Rightarrow> mcu" where
  "mcu_update_vflag a b c m =
     (let temp1 = (a AND 0x7FFFFFFF) + (b AND 0x7FFFFFFF) + c;
          temp1 = drop_bit 31 temp1;
          temp2 = (temp1 AND 1) + (drop_bit 31 a AND 1) + (drop_bit 31 b AND 1);
          temp2 = drop_bit 1 temp2;
          temp1 = (temp1 XOR temp2) AND 1
      in mcu_update_vflag_bit temp1 m)"

definition mcu_fetch_error :: "u32 \<Rightarrow> mcu \<Rightarrow> mcu" where
  "mcu_fetch_error addr m = mcu_halt HALT_HARD_FAULT m"

definition mcu_write_error :: "u32 \<Rightarrow> mcu \<Rightarrow> mcu" where
  "mcu_write_error addr m = mcu_halt HALT_HARD_FAULT m"

section \<open>16 bit instructions: arithmetic\<close>

definition instr_ADD1 :: impl16 where [instr_defs]:
  "instr_ADD1 instr m =
     (let dest = fld instr 0 7; src = fld instr 3 7; b = imm instr 6 7;
          a = mcu_read_reg src m; c = a + b;
          m = mcu_write_reg dest c m;
          m = mcu_update_nflag c m; m = mcu_update_zflag c m;
          m = mcu_update_cflag a b 0 m; m = mcu_update_vflag a b 0 m
      in (True, m))"

definition instr_ADD2 :: impl16 where [instr_defs]:
  "instr_ADD2 instr m =
     (let reg = fld instr 8 7; b = imm instr 0 0xFF;
          a = mcu_read_reg reg m; c = a + b;
          m = mcu_write_reg reg c m;
          m = mcu_update_nflag c m; m = mcu_update_zflag c m;
          m = mcu_update_cflag a b 0 m; m = mcu_update_vflag a b 0 m
      in (True, m))"

definition instr_ADD3 :: impl16 where [instr_defs]:
  "instr_ADD3 instr m =
     (let dest = fld instr 0 7; src = fld instr 3 7; src2 = fld instr 6 7;
          a = mcu_read_reg src m; b = mcu_read_reg src2 m; c = a + b;
          m = mcu_write_reg dest c m;
          m = mcu_update_nflag c m; m = mcu_update_zflag c m;
          m = mcu_update_cflag a b 0 m; m = mcu_update_vflag a b 0 m
      in (True, m))"

definition instr_ADD4 :: impl16 where [instr_defs]:
  "instr_ADD4 instr m =
     (let reg = unat ((drop_bit 0 instr AND 7) OR (drop_bit 4 instr AND 8));
          src2 = fld instr 3 0xF;
          a = mcu_read_reg reg m; b = mcu_read_reg src2 m; c = a + b
      in if reg = REG_PC
         then if \<not> bit c 0 then (False, m)
              else (let c = c AND NOT 1; c = c + 2 in (True, mcu_write_reg reg c m))
         else (True, mcu_write_reg reg c m))"

definition instr_ADD5 :: impl16 where [instr_defs]:
  "instr_ADD5 instr m =
     (let dest = fld instr 8 7; im = push_bit 2 (imm instr 0 0xFF);
          a = mcu_read_reg REG_PC m; c = (a AND NOT 3) + im
      in (True, mcu_write_reg dest c m))"

definition instr_ADD6 :: impl16 where [instr_defs]:
  "instr_ADD6 instr m =
     (let dest = fld instr 8 7; im = push_bit 2 (imm instr 0 0xFF);
          a = mcu_read_reg REG_SP m; c = a + im
      in (True, mcu_write_reg dest c m))"

definition instr_ADD7 :: impl16 where [instr_defs]:
  "instr_ADD7 instr m =
     (let im = push_bit 2 (imm instr 0 0x7F);
          a = mcu_read_reg REG_SP m; c = a + im
      in (True, mcu_write_reg REG_SP c m))"

definition instr_AND :: impl16 where [instr_defs]:
  "instr_AND instr m =
     (let reg = fld instr 0 7; src2 = fld instr 3 7;
          a = mcu_read_reg reg m; b = mcu_read_reg src2 m; c = a AND b;
          m = mcu_write_reg reg c m; m = mcu_update_nflag c m; m = mcu_update_zflag c m
      in (True, m))"

definition instr_ASR1 :: impl16 where [instr_defs]:
  "instr_ASR1 instr m =
     (let dest = fld instr 0 7; src = fld instr 3 7; shift = fld instr 6 0x1F;
          a = mcu_read_reg src m;
          (a, m) =
            (if shift = 0
             then if bit a 31 then (NOT 0, mcu_update_cflag_bit 1 m)
                  else (0, mcu_update_cflag_bit 0 m)
             else (let m = mcu_update_cflag_bit (a AND push_bit (shift - 1) 1) m;
                       b = bit a 31;
                       a = drop_bit shift a
                   in (if b then a OR push_bit (32 - shift) (NOT 0) else a, m)));
          m = mcu_write_reg dest a m; m = mcu_update_nflag a m; m = mcu_update_zflag a m
      in (True, m))"

definition instr_ASR2 :: impl16 where [instr_defs]:
  "instr_ASR2 instr m =
     (let reg = fld instr 0 7; shift_reg = fld instr 3 7;
          a = mcu_read_reg reg m; shift = unat (mcu_read_reg shift_reg m AND 0xFF);
          (a, m) =
            (if shift = 0 then (a, m)
             else if shift < 32
             then (let m = mcu_update_cflag_bit (a AND push_bit (shift - 1) 1) m;
                       b = bit a 31;
                       a = drop_bit shift a
                   in (if b then a OR push_bit (32 - shift) (NOT 0) else a, m))
             else if bit a 31 then (NOT 0, mcu_update_cflag_bit 1 m)
             else (0, mcu_update_cflag_bit 0 m));
          m = mcu_write_reg reg a m; m = mcu_update_nflag a m; m = mcu_update_zflag a m
      in (True, m))"

section \<open>16 bit instructions: branches\<close>

text \<open>The condition of the conditional branch, \<open>cpsr & CPSR_x\<close> per case of the switch.\<close>

definition branch_cond :: "nat \<Rightarrow> u32 \<Rightarrow> bool" where
  "branch_cond op cpsr =
     (let n = bit cpsr 31; z = bit cpsr 30; c = bit cpsr 29; v = bit cpsr 28
      in if op = 0x0 then z
         else if op = 0x1 then \<not> z
         else if op = 0x2 then c
         else if op = 0x3 then \<not> c
         else if op = 0x4 then n
         else if op = 0x5 then \<not> n
         else if op = 0x6 then v
         else if op = 0x7 then \<not> v
         else if op = 0x8 then c \<and> \<not> z
         else if op = 0x9 then z \<or> \<not> c
         else if op = 0xA then (n \<and> v) \<or> (\<not> n \<and> \<not> v)
         else if op = 0xB then (\<not> n \<and> v) \<or> (\<not> v \<and> n)
         else if op = 0xC then \<not> z \<and> ((n \<and> v) \<or> (\<not> n \<and> \<not> v))
         else (n \<and> v) \<or> (\<not> n \<and> \<not> v) \<or> z)"

definition instr_B1 :: impl16 where [instr_defs]:
  "instr_B1 instr m =
     (let op = fld instr 8 0xF; new_pc = imm instr 0 0xFF;
          new_pc = (if bit new_pc 7 then new_pc OR push_bit 8 (NOT 0) else new_pc);
          new_pc = push_bit 1 new_pc + mcu_read_reg REG_PC m + 2;
          cpsr = mcu_read_reg REG_APSR m
      in if op = 0xE \<or> op = 0xF then (False, m)
         else if branch_cond op cpsr then (True, mcu_write_reg REG_PC new_pc m)
         else (True, m))"

definition instr_B2 :: impl16 where [instr_defs]:
  "instr_B2 instr m =
     (let new_pc = imm instr 0 0x7FF;
          new_pc = (if bit new_pc 10 then new_pc OR push_bit 11 (NOT 0) else new_pc);
          new_pc = push_bit 1 new_pc + mcu_read_reg REG_PC m + 2
      in (True, mcu_write_reg REG_PC new_pc m))"

definition instr_BIC :: impl16 where [instr_defs]:
  "instr_BIC instr m =
     (let reg = fld instr 0 7; src2 = fld instr 3 7;
          a = mcu_read_reg reg m; b = mcu_read_reg src2 m; c = a AND NOT b;
          m = mcu_write_reg reg c m; m = mcu_update_nflag c m; m = mcu_update_zflag c m
      in (True, m))"

definition instr_BKPT :: impl16 where [instr_defs]:
  "instr_BKPT instr m = (True, mcu_halt HAL_TRAP m)"

definition instr_BL_hi :: impl16 where [instr_defs]:
  "instr_BL_hi instr m =
     (let a = imm instr 0 0x7FF;
          a = (if bit a 10 then a OR NOT 0x7FF else a);
          a = push_bit 12 a + mcu_read_reg REG_PC m
      in (True, mcu_write_reg REG_LR a m))"

definition instr_BL_lo :: impl16 where [instr_defs]:
  "instr_BL_lo instr m =
     (let a = push_bit 1 (imm instr 0 0x7FF);
          a = a + mcu_read_reg REG_LR m + 2;
          m = mcu_write_reg REG_LR ((mcu_read_reg REG_PC m - 2) OR 1) m
      in (True, mcu_write_reg REG_PC a m))"

definition instr_BLX1_arm :: impl16 where [instr_defs]:
  "instr_BLX1_arm instr m = (False, m)"

definition instr_BLX2 :: impl16 where [instr_defs]:
  "instr_BLX2 instr m =
     (let src = fld instr 3 0xF; new_pc = mcu_read_reg src m + 2
      in if bit new_pc 0
         then (let m = mcu_write_reg REG_LR ((mcu_read_reg REG_PC m - 2) OR 1) m
               in (True, mcu_write_reg REG_PC (new_pc AND NOT 1) m))
         else (False, m))"

definition instr_BX :: impl16 where [instr_defs]:
  "instr_BX instr m =
     (let src = fld instr 3 0xF; new_pc = mcu_read_reg src m + 2
      in if bit new_pc 0 then (True, mcu_write_reg REG_PC (new_pc AND NOT 1) m)
         else (False, m))"

section \<open>16 bit instructions: comparison and copy\<close>

definition instr_CMN :: impl16 where [instr_defs]:
  "instr_CMN instr m =
     (let src1 = fld instr 0 0xF; src2 = fld instr 3 0xF;
          a = mcu_read_reg src1 m; b = mcu_read_reg src2 m; c = a + b;
          m = mcu_update_nflag c m; m = mcu_update_zflag c m;
          m = mcu_update_cflag a b 0 m; m = mcu_update_vflag a b 0 m
      in (True, m))"

definition instr_CMP1 :: impl16 where [instr_defs]:
  "instr_CMP1 instr m =
     (let src = fld instr 8 7; im = imm instr 0 0xFF;
          a = mcu_read_reg src m; c = a - im;
          m = mcu_update_nflag c m; m = mcu_update_zflag c m;
          m = mcu_update_cflag a (NOT im) 1 m; m = mcu_update_vflag a (NOT im) 1 m
      in (True, m))"

definition instr_CMP2 :: impl16 where [instr_defs]:
  "instr_CMP2 instr m =
     (let src1 = fld instr 0 7; src2 = fld instr 3 7;
          a = mcu_read_reg src1 m; b = mcu_read_reg src2 m; c = a - b;
          m = mcu_update_nflag c m; m = mcu_update_zflag c m;
          m = mcu_update_cflag a (NOT b) 1 m; m = mcu_update_vflag a (NOT b) 1 m
      in (True, m))"

definition instr_CMP3 :: impl16 where [instr_defs]:
  "instr_CMP3 instr m =
     (if fld instr 6 3 = 0 then (False, m)
      else (let src1 = unat ((drop_bit 0 instr AND 7) OR (drop_bit 4 instr AND 8));
                src2 = fld instr 3 0xF
            in if src1 = 0xF then (False, m)
               else (let a = mcu_read_reg src1 m; b = mcu_read_reg src2 m; c = a - b;
                         m = mcu_update_nflag c m; m = mcu_update_zflag c m;
                         m = mcu_update_cflag a (NOT b) 1 m;
                         m = mcu_update_vflag a (NOT b) 1 m
                     in (True, m))))"

definition instr_CPY :: impl16 where [instr_defs]:
  "instr_CPY instr m =
     (let src = fld instr 3 7; dest = fld instr 0 7; val = mcu_read_reg src m
      in (True, mcu_write_reg dest val m))"

definition instr_EOR :: impl16 where [instr_defs]:
  "instr_EOR instr m =
     (let reg = fld instr 0 7; src2 = fld instr 3 7;
          a = mcu_read_reg reg m; b = mcu_read_reg src2 m; c = a XOR b;
          m = mcu_write_reg reg c m; m = mcu_update_nflag c m; m = mcu_update_zflag c m
      in (True, m))"

section \<open>16 bit instructions: loads\<close>

text \<open>The loop variable \<open>reg\<close> of the multi-register instructions runs over the low registers.\<close>

definition low_regs :: "nat list" where
  "low_regs = [0..<8]"

text \<open>The register loop of LDMIA: load the listed registers upwards from \<open>sp\<close>.\<close>

fun ldmia_loop :: "nat list \<Rightarrow> u16 \<Rightarrow> u32 \<Rightarrow> mcu \<Rightarrow> bool \<times> u32 \<times> mcu" where
  "ldmia_loop [] instr sp m = (True, sp, m)"
| "ldmia_loop (reg # rs) instr sp m =
     (if bit instr reg
      then case mcu_fetch32 sp m of
             None \<Rightarrow> (False, sp, mcu_fetch_error sp m)
           | Some val \<Rightarrow> ldmia_loop rs instr (sp + 4) (mcu_write_reg reg val m)
      else ldmia_loop rs instr sp m)"

definition instr_LDMIA :: impl16 where [instr_defs]:
  "instr_LDMIA instr m =
     (let reg = fld instr 8 7; sp = mcu_read_reg reg m
      in case ldmia_loop low_regs instr sp m of
           (ok, sp, m) \<Rightarrow> if ok then (True, mcu_write_reg reg sp m) else (False, m))"

definition ldr_at :: "u32 \<Rightarrow> nat \<Rightarrow> mcu \<Rightarrow> bool \<times> mcu" where
  "ldr_at addr dest m =
     (case mcu_fetch32 addr m of
        None \<Rightarrow> (False, mcu_fetch_error addr m)
      | Some val \<Rightarrow> (True, mcu_write_reg dest val m))"

definition instr_LDR1 :: impl16 where [instr_defs]:
  "instr_LDR1 instr m =
     (let src = fld instr 3 7; dest = fld instr 0 7; im = push_bit 2 (imm instr 6 0x1F);
          addr = mcu_read_reg src m + im
      in ldr_at addr dest m)"

definition instr_LDR2 :: impl16 where [instr_defs]:
  "instr_LDR2 instr m =
     (let src1 = fld instr 3 7; src2 = fld instr 6 7; dest = fld instr 0 7;
          addr = mcu_read_reg src1 m + mcu_read_reg src2 m
      in ldr_at addr dest m)"

definition instr_LDR3 :: impl16 where [instr_defs]:
  "instr_LDR3 instr m =
     (let im = push_bit 2 (imm instr 0 0xFF); dest = fld instr 8 7;
          addr = (mcu_read_reg REG_PC m AND NOT 3) + im
      in ldr_at addr dest m)"

definition instr_LDR4 :: impl16 where [instr_defs]:
  "instr_LDR4 instr m =
     (let im = push_bit 2 (imm instr 0 0xFF); dest = fld instr 8 7;
          addr = mcu_read_reg REG_SP m + im
      in ldr_at addr dest m)"

definition ldrb_at :: "u32 \<Rightarrow> nat \<Rightarrow> mcu \<Rightarrow> bool \<times> mcu" where
  "ldrb_at addr dest m =
     (case mcu_fetch16 (addr AND NOT 1) m of
        None \<Rightarrow> (False, mcu_fetch_error (addr AND NOT 1) m)
      | Some val \<Rightarrow>
          (let val = (if bit addr 0 then drop_bit 8 val else val)
           in (True, mcu_write_reg dest (ucast (val AND 0xFF)) m)))"

definition instr_LDRB1 :: impl16 where [instr_defs]:
  "instr_LDRB1 instr m =
     (let im = imm instr 6 0x1F; dest = fld instr 0 7; src = fld instr 3 7;
          addr = mcu_read_reg src m + im
      in ldrb_at addr dest m)"

definition instr_LDRB2 :: impl16 where [instr_defs]:
  "instr_LDRB2 instr m =
     (let dest = fld instr 0 7; src1 = fld instr 3 7; src2 = fld instr 6 7;
          addr = mcu_read_reg src1 m + mcu_read_reg src2 m
      in ldrb_at addr dest m)"

definition ldrh_at :: "u32 \<Rightarrow> nat \<Rightarrow> mcu \<Rightarrow> bool \<times> mcu" where
  "ldrh_at addr dest m =
     (case mcu_fetch16 addr m of
        None \<Rightarrow> (False, mcu_fetch_error addr m)
      | Some val \<Rightarrow> (True, mcu_write_reg dest (ucast val) m))"

definition instr_LDRH1 :: impl16 where [instr_defs]:
  "instr_LDRH1 instr m =
     (let im = push_bit 1 (imm instr 6 0x1F); dest = fld instr 0 7; src = fld instr 3 7;
          addr = mcu_read_reg src m + im
      in ldrh_at addr dest m)"

definition instr_LDRH2 :: impl16 where [instr_defs]:
  "instr_LDRH2 instr m =
     (let dest = fld instr 0 7; src1 = fld instr 3 7; src2 = fld instr 6 7;
          addr = mcu_read_reg src1 m + mcu_read_reg src2 m
      in ldrh_at addr dest m)"

text \<open>\<open>val\<close> is a \<open>uint16_t\<close> in the two sign-extending loads.\<close>

definition instr_LDRSB :: impl16 where [instr_defs]:
  "instr_LDRSB instr m =
     (let dest = fld instr 0 7; src1 = fld instr 3 7; src2 = fld instr 6 7;
          addr = mcu_read_reg src1 m + mcu_read_reg src2 m
      in case mcu_fetch16 (addr AND NOT 1) m of
           None \<Rightarrow> (False, mcu_fetch_error addr m)
         | Some val \<Rightarrow>
             (let val = (if bit addr 0 then drop_bit 8 val else val);
                  val = val AND 0xFF;
                  val = (if bit val 7 then val OR push_bit 8 (NOT 0) else val)
              in (True, mcu_write_reg dest (ucast val) m)))"

definition instr_LDRSH :: impl16 where [instr_defs]:
  "instr_LDRSH instr m =
     (let dest = fld instr 0 7; src1 = fld instr 3 7; src2 = fld instr 6 7;
          addr = mcu_read_reg src1 m + mcu_read_reg src2 m
      in case mcu_fetch16 addr m of
           None \<Rightarrow> (False, mcu_fetch_error addr m)
         | Some val \<Rightarrow>
             (let val = val AND 0xFFFF;
                  val = (if bit val 15 then ucast (ucast val OR (push_bit 16 (NOT 0) :: u32)) else val)
              in (True, mcu_write_reg dest (ucast val) m)))"

end
