(* ===== verification/Sim_Exec.thy ===== *)
theory Sim_Exec
  imports Sim_Instr
begin

text \<open>
  The second half of the instruction set of
  \<^verbatim>\<open>src/tools/simulator/cortex-m0p/mcu.c\<close> (shifts, moves, stack, stores, subtraction,
  extension, the 32 bit instructions), the two instruction tables and
  \<open>mcu_instr_step\<close>, with the run loop of \<^verbatim>\<open>core/mcu.c\<close> on top of it.
\<close>

section \<open>16 bit instructions: shifts\<close>

definition instr_LSL1 :: impl16 where [instr_defs]:
  "instr_LSL1 instr m =
     (let dest = fld instr 0 7; src = fld instr 3 7; im = fld instr 6 0x1F;
          a = mcu_read_reg src m;
          (a, m) = (if im \<noteq> 0
                    then (push_bit im a, mcu_update_cflag_bit (a AND push_bit (32 - im) 1) m)
                    else (a, m));
          m = mcu_write_reg dest a m; m = mcu_update_nflag a m; m = mcu_update_zflag a m
      in (True, m))"

text \<open>With \<open>shift = 0\<close> the first branch evaluates \<open>1 << 32\<close>, which C leaves undefined.\<close>

definition instr_LSL2 :: impl16 where [instr_defs]:
  "instr_LSL2 instr m =
     (let reg = fld instr 0 7; src = fld instr 3 7;
          a = mcu_read_reg reg m; shift = unat (mcu_read_reg src m AND 0xFF);
          (a, m) =
            (if shift < 32
             then (push_bit shift a,
                   if shift = 0 then set_undef m
                   else mcu_update_cflag_bit (a AND push_bit (32 - shift) 1) m)
             else if shift = 32 then (0, mcu_update_cflag_bit (a AND 1) m)
             else (0, mcu_update_cflag_bit 0 m));
          m = mcu_write_reg reg a m; m = mcu_update_nflag a m; m = mcu_update_zflag a m
      in (True, m))"

definition instr_LSR1 :: impl16 where [instr_defs]:
  "instr_LSR1 instr m =
     (let dest = fld instr 0 7; src = fld instr 3 7; im = fld instr 6 0x1F;
          a = mcu_read_reg src m;
          (a, m) = (if im = 0
                    then (0, mcu_update_cflag_bit (a AND 0x80000000) m)
                    else (drop_bit im a, mcu_update_cflag_bit (a AND push_bit (im - 1) 1) m));
          m = mcu_write_reg dest a m; m = mcu_update_nflag a m; m = mcu_update_zflag a m
      in (True, m))"

text \<open>With \<open>shift = 0\<close> the first branch shifts by \<open>0 - 1\<close>, which C leaves undefined.\<close>

definition instr_LSR2 :: impl16 where [instr_defs]:
  "instr_LSR2 instr m =
     (let reg = fld instr 0 7; src = fld instr 3 7;
          a = mcu_read_reg reg m; shift = unat (mcu_read_reg src m AND 0xFF);
          (a, m) =
            (if shift < 32
             then (drop_bit shift a,
                   if shift = 0 then set_undef m
                   else mcu_update_cflag_bit (a AND push_bit (shift - 1) 1) m)
             else if shift = 32 then (0, mcu_update_cflag_bit (a AND 0x80000000) m)
             else (0, mcu_update_cflag_bit 0 m));
          m = mcu_write_reg reg a m; m = mcu_update_nflag a m; m = mcu_update_zflag a m
      in (True, m))"

section \<open>16 bit instructions: moves and logic\<close>

definition instr_MOV1 :: impl16 where [instr_defs]:
  "instr_MOV1 instr m =
     (let dest = fld instr 8 7; im = imm instr 0 0xFF;
          m = mcu_write_reg dest im m; m = mcu_update_nflag im m; m = mcu_update_zflag im m
      in (True, m))"

definition instr_MOV2 :: impl16 where [instr_defs]:
  "instr_MOV2 instr m =
     (let dest = fld instr 0 7; src = fld instr 3 7; a = mcu_read_reg src m;
          m = mcu_write_reg dest a m; m = mcu_update_nflag a m; m = mcu_update_zflag a m;
          m = mcu_update_cflag_bit 0 m; m = mcu_update_vflag_bit 0 m
      in (True, m))"

definition instr_MOV3 :: impl16 where [instr_defs]:
  "instr_MOV3 instr m =
     (let dest = unat ((drop_bit 0 instr AND 7) OR (drop_bit 4 instr AND 8));
          src = fld instr 3 0xF; a = mcu_read_reg src m;
          a = (if dest = REG_PC then (a AND NOT 1) + 2 else a)
      in (True, mcu_write_reg dest a m))"

definition instr_MUL :: impl16 where [instr_defs]:
  "instr_MUL instr m =
     (let reg = fld instr 0 7; src2 = fld instr 3 7;
          a = mcu_read_reg reg m; b = mcu_read_reg src2 m; c = a * b;
          m = mcu_write_reg reg c m; m = mcu_update_nflag c m; m = mcu_update_zflag c m
      in (True, m))"

definition instr_MVN :: impl16 where [instr_defs]:
  "instr_MVN instr m =
     (let dest = fld instr 0 7; src = fld instr 3 7; a = mcu_read_reg src m; c = NOT a;
          m = mcu_write_reg dest c m; m = mcu_update_nflag c m; m = mcu_update_zflag c m
      in (True, m))"

definition instr_NEG :: impl16 where [instr_defs]:
  "instr_NEG instr m =
     (let dest = fld instr 0 7; src = fld instr 3 7; a = mcu_read_reg src m; c = 0 - a;
          m = mcu_write_reg dest c m; m = mcu_update_nflag c m; m = mcu_update_zflag c m;
          m = mcu_update_cflag 0 (NOT a) 1 m; m = mcu_update_vflag 0 (NOT a) 1 m
      in (True, m))"

definition instr_ORR :: impl16 where [instr_defs]:
  "instr_ORR instr m =
     (let reg = fld instr 0 7; src2 = fld instr 3 7;
          a = mcu_read_reg reg m; b = mcu_read_reg src2 m; c = a OR b;
          m = mcu_write_reg reg c m; m = mcu_update_nflag c m; m = mcu_update_zflag c m
      in (True, m))"

section \<open>16 bit instructions: the stack\<close>

text \<open>The register loop of POP is that of LDMIA, but a failed load does not halt the machine.\<close>

fun pop_loop :: "nat list \<Rightarrow> u16 \<Rightarrow> u32 \<Rightarrow> mcu \<Rightarrow> bool \<times> u32 \<times> mcu" where
  "pop_loop [] instr sp m = (True, sp, m)"
| "pop_loop (reg # rs) instr sp m =
     (if bit instr reg
      then case mcu_fetch32 sp m of
             None \<Rightarrow> (False, sp, m)
           | Some val \<Rightarrow> pop_loop rs instr (sp + 4) (mcu_write_reg reg val m)
      else pop_loop rs instr sp m)"

definition instr_POP :: impl16 where [instr_defs]:
  "instr_POP instr m =
     (let sp = mcu_read_reg REG_SP m
      in case pop_loop low_regs instr sp m of
           (ok, sp, m) \<Rightarrow>
             if \<not> ok then (False, m)
             else if bit instr 8
             then (case mcu_fetch32 sp m of
                     None \<Rightarrow> (False, m)
                   | Some val \<Rightarrow>
                       if \<not> bit val 0 then (False, m)
                       else (let m = mcu_write_reg REG_PC (val + 2) m
                             in (True, mcu_write_reg REG_SP (sp + 4) m)))
             else (True, mcu_write_reg REG_SP sp m))"

text \<open>The register loop of PUSH and of STMIA.\<close>

fun push_loop :: "nat list \<Rightarrow> u16 \<Rightarrow> u32 \<Rightarrow> mcu \<Rightarrow> bool \<times> u32 \<times> mcu" where
  "push_loop [] instr sp m = (True, sp, m)"
| "push_loop (reg # rs) instr sp m =
     (if bit instr reg
      then case mcu_write32 sp (mcu_read_reg reg m) m of
             (ok, m) \<Rightarrow> if ok then push_loop rs instr (sp + 4) m
                        else (False, sp, mcu_write_error sp m)
      else push_loop rs instr sp m)"

definition instr_PUSH :: impl16 where [instr_defs]:
  "instr_PUSH instr m =
     (let sp = mcu_read_reg REG_SP m;
          num = length (filter (\<lambda>reg. bit instr reg) low_regs) + (if bit instr 8 then 1 else 0);
          sp = sp - of_nat (4 * num);
          m = mcu_write_reg REG_SP sp m
      in case push_loop low_regs instr sp m of
           (ok, sp, m) \<Rightarrow>
             if \<not> ok then (False, m)
             else if bit instr 8
             then mcu_write32 sp (mcu_read_reg REG_LR m) m
             else (True, m))"

section \<open>16 bit instructions: byte reversal and rotation\<close>

definition rev_bytes :: "u32 \<Rightarrow> u32" where
  "rev_bytes a =
     push_bit 24 (drop_bit 0 a AND 0xFF) OR push_bit 16 (drop_bit 8 a AND 0xFF)
     OR push_bit 8 (drop_bit 16 a AND 0xFF) OR push_bit 0 (drop_bit 24 a AND 0xFF)"

definition instr_REV :: impl16 where [instr_defs]:
  "instr_REV instr m =
     (let dest = fld instr 0 7; src = fld instr 3 7; a = mcu_read_reg src m; c = rev_bytes a
      in (True, mcu_write_reg dest c m))"

definition instr_REV16 :: impl16 where [instr_defs]:
  "instr_REV16 instr m =
     (let dest = fld instr 0 7; src = fld instr 3 7; a = mcu_read_reg src m; c = rev_bytes a
      in (True, mcu_write_reg dest c m))"

definition instr_REVSH :: impl16 where [instr_defs]:
  "instr_REVSH instr m =
     (let dest = fld instr 0 7; src = fld instr 3 7; a = mcu_read_reg src m;
          c = push_bit 8 (drop_bit 0 a AND 0xFF) OR push_bit 0 (drop_bit 8 a AND 0xFF);
          c = (if bit c 15 then c OR 0xFFFF0000 else c AND 0x0000FFFF)
      in (True, mcu_write_reg dest c m))"

definition instr_ROR :: impl16 where [instr_defs]:
  "instr_ROR instr m =
     (let reg = fld instr 0 7; src2 = fld instr 3 7;
          a = mcu_read_reg reg m; b = mcu_read_reg src2 m;
          (a, m) =
            (if b \<noteq> 0
             then (let b = unat (b AND 0x1F)
                   in if b = 0 then (a, mcu_update_cflag_bit (a AND 0x80000000) m)
                      else (drop_bit b a OR push_bit (32 - b) a,
                            mcu_update_cflag_bit (a AND push_bit (b - 1) 1) m))
             else (a, m));
          m = mcu_write_reg reg a m; m = mcu_update_nflag a m; m = mcu_update_zflag a m
      in (True, m))"

section \<open>16 bit instructions: stores\<close>

definition instr_STMIA :: impl16 where [instr_defs]:
  "instr_STMIA instr m =
     (let reg = fld instr 8 7; sp = mcu_read_reg reg m
      in case push_loop low_regs instr sp m of
           (ok, sp, m) \<Rightarrow> if ok then (True, mcu_write_reg reg sp m) else (False, m))"

text \<open>The common tail of the word, half word and byte stores.\<close>

definition str_at :: "u32 \<Rightarrow> u32 \<Rightarrow> mcu \<Rightarrow> bool \<times> mcu" where
  "str_at addr val m =
     (case mcu_write32 addr val m of
        (ok, m) \<Rightarrow> if ok then (True, m) else (False, mcu_write_error addr m))"

definition strh_at :: "u32 \<Rightarrow> u32 \<Rightarrow> mcu \<Rightarrow> bool \<times> mcu" where
  "strh_at addr val m =
     (case mcu_write16 addr (ucast val) m of
        (ok, m) \<Rightarrow> if ok then (True, m) else (False, mcu_write_error addr m))"

text \<open>\<open>val\<close> is a \<open>uint16_t\<close>, but it is stored with \<open>mcu_write32\<close>.\<close>

definition strb_at :: "u32 \<Rightarrow> nat \<Rightarrow> mcu \<Rightarrow> bool \<times> mcu" where
  "strb_at addr dest m =
     (case mcu_fetch16 (addr AND NOT 1) m of
        None \<Rightarrow> (False, mcu_fetch_error (addr AND NOT 1) m)
      | Some val \<Rightarrow>
          (let val = (if bit addr 0
                      then (val AND 0x00FF) OR ucast (push_bit 8 (mcu_read_reg dest m))
                      else (val AND 0xFF00) OR ucast (mcu_read_reg dest m AND 0xFF))
           in str_at (addr AND NOT 1) (ucast val) m))"

definition instr_STR1 :: impl16 where [instr_defs]:
  "instr_STR1 instr m =
     (let dest = fld instr 0 7; src = fld instr 3 7; im = push_bit 2 (imm instr 6 0x1F);
          addr = mcu_read_reg src m + im; val = mcu_read_reg dest m
      in str_at addr val m)"

definition instr_STR2 :: impl16 where [instr_defs]:
  "instr_STR2 instr m =
     (let dest = fld instr 0 7; src1 = fld instr 3 7; src2 = fld instr 6 7;
          addr = mcu_read_reg src1 m + mcu_read_reg src2 m; val = mcu_read_reg dest m
      in str_at addr val m)"

definition instr_STR3 :: impl16 where [instr_defs]:
  "instr_STR3 instr m =
     (let dest = fld instr 8 7; im = push_bit 2 (imm instr 0 0xFF);
          addr = mcu_read_reg REG_SP m + im; val = mcu_read_reg dest m
      in str_at addr val m)"

definition instr_STRB1 :: impl16 where [instr_defs]:
  "instr_STRB1 instr m =
     (let dest = fld instr 0 7; src = fld instr 3 7; im = imm instr 6 0x1F;
          addr = mcu_read_reg src m + im
      in strb_at addr dest m)"

definition instr_STRB2 :: impl16 where [instr_defs]:
  "instr_STRB2 instr m =
     (let dest = fld instr 0 7; src1 = fld instr 3 7; src2 = fld instr 6 7;
          addr = mcu_read_reg src1 m + mcu_read_reg src2 m
      in strb_at addr dest m)"

definition instr_STRH1 :: impl16 where [instr_defs]:
  "instr_STRH1 instr m =
     (let dest = fld instr 0 7; src = fld instr 3 7; im = push_bit 1 (imm instr 6 0x1F);
          addr = mcu_read_reg src m + im; val = mcu_read_reg dest m
      in strh_at addr val m)"

definition instr_STRH2 :: impl16 where [instr_defs]:
  "instr_STRH2 instr m =
     (let dest = fld instr 0 7; src1 = fld instr 3 7; src2 = fld instr 6 7;
          addr = mcu_read_reg src1 m + mcu_read_reg src2 m; val = mcu_read_reg dest m
      in strh_at addr val m)"

section \<open>16 bit instructions: subtraction\<close>

text \<open>The carry is read again after the register write and the N and Z updates, as in the code.\<close>

definition instr_SBC :: impl16 where [instr_defs]:
  "instr_SBC instr m =
     (let reg = fld instr 0 7; src2 = fld instr 3 7;
          a = mcu_read_reg reg m; b = mcu_read_reg src2 m; c = a - b;
          c = (if \<not> bit (mcu_read_reg REG_APSR m) 29 then c - 1 else c);
          m = mcu_write_reg reg c m; m = mcu_update_nflag c m; m = mcu_update_zflag c m
      in if bit (mcu_read_reg REG_APSR m) 29
         then (let m = mcu_update_cflag a (NOT b) 1 m; m = mcu_update_vflag a (NOT b) 1 m
               in (True, m))
         else (let m = mcu_update_cflag a (NOT b) 0 m; m = mcu_update_vflag a (NOT b) 0 m
               in (True, m)))"

definition instr_SUB1 :: impl16 where [instr_defs]:
  "instr_SUB1 instr m =
     (let dest = fld instr 0 7; src = fld instr 3 7; im = imm instr 6 7;
          a = mcu_read_reg src m; c = a - im;
          m = mcu_write_reg dest c m; m = mcu_update_nflag c m; m = mcu_update_zflag c m;
          m = mcu_update_vflag a (NOT im) 1 m; m = mcu_update_cflag a (NOT im) 1 m
      in (True, m))"

definition instr_SUB2 :: impl16 where [instr_defs]:
  "instr_SUB2 instr m =
     (let reg = fld instr 8 7; im = imm instr 0 0xFF;
          a = mcu_read_reg reg m; c = a - im;
          m = mcu_write_reg reg c m; m = mcu_update_nflag c m; m = mcu_update_zflag c m;
          m = mcu_update_vflag a (NOT im) 1 m; m = mcu_update_cflag a (NOT im) 1 m
      in (True, m))"

definition instr_SUB3 :: impl16 where [instr_defs]:
  "instr_SUB3 instr m =
     (let dest = fld instr 0 7; src1 = fld instr 3 7; src2 = fld instr 6 7;
          a = mcu_read_reg src1 m; b = mcu_read_reg src2 m; c = a - b;
          m = mcu_write_reg dest c m; m = mcu_update_nflag c m; m = mcu_update_zflag c m;
          m = mcu_update_vflag a (NOT b) 1 m; m = mcu_update_cflag a (NOT b) 1 m
      in (True, m))"

definition instr_SUB4 :: impl16 where [instr_defs]:
  "instr_SUB4 instr m =
     (let im = push_bit 2 (imm instr 0 0x7F)
      in (True, mcu_write_reg REG_SP (mcu_read_reg REG_SP m - im) m))"

definition instr_SWI :: impl16 where [instr_defs]:
  "instr_SWI instr m = (False, m)"

section \<open>16 bit instructions: extension, test, wait\<close>

text \<open>
  The source register of these five is computed as \<open>(instr > 3) & 0x7\<close>: a comparison, so it
  is register 1 for every instruction word above 3.
\<close>

abbreviation gt3 :: "u16 \<Rightarrow> nat" where
  "gt3 instr \<equiv> (if instr > 3 then 1 else 0)"

definition instr_SXTB :: impl16 where [instr_defs]:
  "instr_SXTB instr m =
     (let dest = fld instr 0 7; src = gt3 instr; a = mcu_read_reg src m;
          a = a AND 0xFF; a = (if bit a 7 then a OR push_bit 8 (NOT 0) else a)
      in (True, mcu_write_reg dest a m))"

definition instr_SXTH :: impl16 where [instr_defs]:
  "instr_SXTH instr m =
     (let dest = fld instr 0 7; src = gt3 instr; a = mcu_read_reg src m;
          a = a AND 0xFFFF; a = (if bit a 15 then a OR push_bit 16 (NOT 0) else a)
      in (True, mcu_write_reg dest a m))"

definition instr_TST :: impl16 where [instr_defs]:
  "instr_TST instr m =
     (let src1 = fld instr 0 7; src2 = gt3 instr;
          a = mcu_read_reg src1 m; b = mcu_read_reg src2 m; c = a AND b;
          m = mcu_update_zflag c m; m = mcu_update_nflag c m
      in (True, m))"

definition instr_UXTB :: impl16 where [instr_defs]:
  "instr_UXTB instr m =
     (let dest = fld instr 0 7; src = gt3 instr; a = mcu_read_reg src m
      in (True, mcu_write_reg dest (a AND 0xFF) m))"

definition instr_UXTH :: impl16 where [instr_defs]:
  "instr_UXTH instr m =
     (let dest = fld instr 0 7; src = gt3 instr; a = mcu_read_reg src m
      in (True, mcu_write_reg dest (a AND 0xFFFF) m))"

definition instr_WFE :: impl16 where [instr_defs]:
  "instr_WFE instr m = (True, m)"

definition instr_WFI :: impl16 where [instr_defs]:
  "instr_WFI instr m = (True, mcu_halt HALT_SLEEP m)"

section \<open>32 bit instructions\<close>

text \<open>Case \<open>0x0\<close> has no \<open>break\<close> and goes on into case \<open>0x8\<close>.\<close>

definition instr_MSR :: impl32 where [instr_defs]:
  "instr_MSR instr m =
     (let src = fld instr 16 7; sysm = fld instr 0 0x7F
      in if sysm = 0x0
         then (let m = mcu_write_reg REG_APSR (mcu_read_reg src m) m
               in (True, mcu_write_reg REG_MSP (mcu_read_reg src m) m))
         else if sysm = 0x8 then (True, mcu_write_reg REG_MSP (mcu_read_reg src m) m)
         else if sysm = 0x9 then (True, mcu_write_reg REG_PSP (mcu_read_reg src m) m)
         else if sysm = 0x14 then (True, mcu_write_reg REG_CONTROL (mcu_read_reg src m) m)
         else (False, mcu_halt HALT_UNKOWN_INSTRUCTION m))"

text \<open>
  Cases \<open>0x0\<close> to \<open>0x7\<close> store the collected status to memory at address \<open>dest\<close> (the result of
  the store is ignored) and go on into case \<open>0x8\<close>.
\<close>

definition instr_MRS :: impl32 where [instr_defs]:
  "instr_MRS instr m =
     (let dest = fld instr 8 0xF; sysm = fld instr 0 0x7F
      in if sysm < 0x8
         then (let val = 0;
                   val = (if bit instr 0 then val OR mcu_read_reg REG_IPSR m else val);
                   val = (if bit instr 2 then val OR mcu_read_reg REG_APSR m else val);
                   m = snd (mcu_write32 (of_nat dest) val m)
               in (True, mcu_write_reg dest (mcu_read_reg REG_MSP m) m))
         else if sysm = 0x8 then (True, mcu_write_reg dest (mcu_read_reg REG_MSP m) m)
         else if sysm = 0x9 then (True, mcu_write_reg dest (mcu_read_reg REG_PSP m) m)
         else if sysm = 0x14 then (True, mcu_write_reg dest (mcu_read_reg REG_CONTROL m) m)
         else (False, mcu_halt HALT_UNKOWN_INSTRUCTION m))"

definition instr_BL :: impl32 where [instr_defs]:
  "instr_BL instr m =
     (let sign = bit instr 26; j1 = bit instr 13; j2 = bit instr 11;
          im = push_bit 23 (of_bool (j1 = sign)) OR push_bit 22 (of_bool (j2 = sign))
               OR push_bit 12 (drop_bit 16 instr AND 0x3FF) OR push_bit 1 (instr AND 0x7FF);
          im = (if sign then im OR 0xFF000000 else im);
          addr = im + mcu_read_reg REG_PC m;
          m = mcu_write_reg REG_LR ((mcu_read_reg REG_PC m - 2) OR 1) m
      in (True, mcu_write_reg REG_PC addr m))"

section \<open>The instruction tables\<close>

definition mcu_instr16_cortex_m0p :: "(u16 \<times> u16 \<times> impl16) list" where
  "mcu_instr16_cortex_m0p =
     [(0xFE00, 0x1C00, instr_ADD1), (0xF800, 0x3000, instr_ADD2), (0xFE00, 0x1800, instr_ADD3),
      (0xFF00, 0x4400, instr_ADD4), (0xF800, 0xA000, instr_ADD5), (0xF800, 0xA800, instr_ADD6),
      (0xFF80, 0xB000, instr_ADD7), (0xFFC0, 0x4000, instr_AND),
      (0xF800, 0x1000, instr_ASR1), (0xF800, 0x1000, instr_ASR2),
      (0xF000, 0xD000, instr_B1), (0xF800, 0xE000, instr_B2), (0xFFC0, 0x4380, instr_BIC),
      (0xFF00, 0xBE00, instr_BKPT), (0xF800, 0xF000, instr_BL_hi), (0xF800, 0xF800, instr_BL_lo),
      (0xF800, 0xE800, instr_BLX1_arm), (0xFF87, 0x4780, instr_BLX2), (0xFF87, 0x4700, instr_BX),
      (0xFFC0, 0x42C0, instr_CMN), (0xF800, 0x2800, instr_CMP1), (0xFFC0, 0x4280, instr_CMP2),
      (0xFF00, 0x4500, instr_CMP3), (0xFFC0, 0x4600, instr_CPY), (0xFFC0, 0x4040, instr_EOR),
      (0xF800, 0xC800, instr_LDMIA), (0xF800, 0x6800, instr_LDR1), (0xFE00, 0x5800, instr_LDR2),
      (0xF800, 0x4800, instr_LDR3), (0xF800, 0x9800, instr_LDR4), (0xF800, 0x7800, instr_LDRB1),
      (0xFE00, 0x5C00, instr_LDRB2), (0xF800, 0x8800, instr_LDRH1), (0xFE00, 0x5A00, instr_LDRH2),
      (0xFE00, 0x5600, instr_LDRSB), (0xFE00, 0x5E00, instr_LDRSH),
      (0xF800, 0x0000, instr_LSL1), (0xFFC0, 0x4080, instr_LSL2), (0xF800, 0x0800, instr_LSR1),
      (0xFFC0, 0x40C0, instr_LSR2), (0xF800, 0x2000, instr_MOV1), (0xFFC0, 0x1C00, instr_MOV2),
      (0xFF00, 0x4600, instr_MOV3), (0xFFC0, 0x4340, instr_MUL), (0xFFC0, 0x43C0, instr_MVN),
      (0xFFC0, 0x4240, instr_NEG), (0xFFC0, 0x4300, instr_ORR), (0xFE00, 0xBC00, instr_POP),
      (0xFE00, 0xB400, instr_PUSH), (0xFFC0, 0xBA00, instr_REV), (0xFFC0, 0xBA40, instr_REV16),
      (0xFFC0, 0xBAC0, instr_REVSH), (0xFFC0, 0xBAC0, instr_ROR), (0xFFC0, 0x4180, instr_SBC),
      (0xF800, 0xC000, instr_STMIA), (0xF800, 0x6000, instr_STR1), (0xFE00, 0x5000, instr_STR2),
      (0xF800, 0x9000, instr_STR3), (0xF800, 0x7000, instr_STRB1), (0xFE00, 0x5400, instr_STRB2),
      (0xF800, 0x8000, instr_STRH1), (0xFE00, 0x5200, instr_STRH2), (0xFE00, 0x1E00, instr_SUB1),
      (0xF800, 0x3800, instr_SUB2), (0xFE00, 0x1A00, instr_SUB3), (0xFF80, 0xB080, instr_SUB4),
      (0xFF00, 0xDF00, instr_SWI), (0xFFC0, 0xB240, instr_SXTB), (0xFFC0, 0xB200, instr_SXTH),
      (0xFFC0, 0x4200, instr_TST), (0xFFC0, 0xB2C0, instr_UXTB), (0xFFC0, 0xB280, instr_UXTH),
      (0xFFFF, 0xBF20, instr_WFE), (0xFFFF, 0xBF30, instr_WFI)]"

definition mcu_instr32_cortex_m0p :: "(u32 \<times> u32 \<times> impl32) list" where
  "mcu_instr32_cortex_m0p =
     [(0xFFE00000, 0xF3800000, instr_MSR), (0xFFE00000, 0xF3E00000, instr_MRS),
      (0xF8000000, 0xF0000000, instr_BL)]"

text \<open>The loop over a table: the first entry whose mask selects the instruction.\<close>

fun decode :: "('a::len word \<times> 'a word \<times> 'i) list \<Rightarrow> 'a word \<Rightarrow> 'i option" where
  "decode [] w = None"
| "decode ((msk, pat, impl) # defs) w = (if w AND msk = pat then Some impl else decode defs w)"

section \<open>The step\<close>

definition is_thumb32 :: "u16 \<Rightarrow> bool" where
  "is_thumb32 w \<longleftrightarrow> w AND 0xF800 = 0xF800 \<or> w AND 0xF800 = 0xE800 \<or> w AND 0xF800 = 0xF000"

definition run_impl :: "u32 \<Rightarrow> bool \<times> mcu \<Rightarrow> bool \<times> mcu" where
  "run_impl old_pc r =
     (case r of (ok, m) \<Rightarrow> if ok then (True, m) else (False, mcu_write_reg REG_PC old_pc m))"

text \<open>
  The 32 bit table has no terminating entry, so a 32 bit instruction that matches none of
  its entries makes the loop read past the array.
\<close>

definition mcu_instr_step :: "mcu \<Rightarrow> bool \<times> mcu" where
  "mcu_instr_step m =
     (let pc = mcu_read_reg REG_PC m; old_pc = pc
      in case mcu_fetch16 (pc - 2) m of
           None \<Rightarrow> (False, mcu_halt HALT_HARD_FAULT m)
         | Some w \<Rightarrow>
             if is_thumb32 w
             then (let pc = pc + 2
                   in case mcu_fetch16 (pc - 2) m of
                        None \<Rightarrow> (False, mcu_halt HALT_HARD_FAULT m)
                      | Some w2 \<Rightarrow>
                          (let instr = push_bit 16 (ucast w) OR ucast w2;
                               m = mcu_write_reg REG_PC (pc + 2) m
                           in case decode mcu_instr32_cortex_m0p instr of
                                Some impl \<Rightarrow> run_impl old_pc (impl instr m)
                              | None \<Rightarrow> (False, set_undef m)))
             else (let m = mcu_write_reg REG_PC (pc + 2) m
                   in case decode mcu_instr16_cortex_m0p w of
                        Some impl \<Rightarrow> run_impl old_pc (impl w m)
                      | None \<Rightarrow>
                          (let m = mcu_write_reg REG_PC old_pc m
                           in (False, mcu_halt HALT_UNKOWN_INSTRUCTION m))))"

definition mcu_runloop :: "mcu \<Rightarrow> bool \<times> mcu" where
  "mcu_runloop m = (if \<not> mcu_is_halted m then mcu_instr_step m else (True, m))"

definition mcu_step :: "mcu \<Rightarrow> bool \<times> mcu" where
  "mcu_step m = mcu_instr_step m"

definition idle_cb :: "mcu \<Rightarrow> mcu" where
  "idle_cb m = snd (mcu_runloop m)"

end
