(* ===== verification/Sim_Safety.thy ===== *)
theory Sim_Safety
  imports Sim_Exec
begin

text \<open>
  Invariants of the simulated machine. An instruction changes the machine only through a
  handful of primitives: the write of an existing register, a memory write, halting, and, for
  two of the shifts, the \<open>undef\<close> latch. The locale \<open>mcu_prims\<close> states what a predicate has to
  satisfy for these primitives and proves once that the instructions of both tables keep it;
  \<open>mcu_invariant\<close> adds the latch and proves it of the step and of the run loop. They are
  interpreted for the invariants of the development.
\<close>

section \<open>Register numbers that name a register\<close>

definition valid_reg :: "nat \<Rightarrow> bool" where
  "valid_reg r \<longleftrightarrow> r < reg_count \<or> r = REG_APSR \<or> r = REG_IPSR \<or> r = REG_EPSR"

lemma valid_special [simp]:
  "valid_reg REG_SP" "valid_reg REG_LR" "valid_reg REG_PC" "valid_reg REG_APSR"
  "valid_reg REG_MSP" "valid_reg REG_PSP" "valid_reg REG_CONTROL" "valid_reg REG_EPSR"
  by (simp_all add: valid_reg_def)

lemma valid_less: "r < reg_count \<Longrightarrow> valid_reg r"
  by (simp add: valid_reg_def)

lemma valid_fld [simp]:
  "valid_reg (unat (x AND 7 :: u16))" "valid_reg (unat (x AND 15 :: u16))"
  "valid_reg (unat (y AND 15 :: u32))"
  using fld_less [of "7 :: u16" 20 0 x] fld_less [of "15 :: u16" 20 0 x]
    fld_less [of "15 :: u32" 20 0 y]
  by (simp_all add: valid_reg_def)

lemma valid_high [simp]: "valid_reg (unat ((x AND 7) OR (y AND 8) :: u16))"
proof -
  have "uint (x AND 7) < 2 ^ 4" "uint (y AND 8) < 2 ^ 4"
    using word_and_le1 [of x 7] word_and_le1 [of y 8] by (simp_all add: word_le_def)
  then have "uint (x AND 7) OR uint (y AND 8) < 2 ^ 4"
    by (intro OR_upper) simp_all
  then have "(x AND 7) OR (y AND 8) < 16"
    by (simp add: word_less_def uint_or)
  then have "unat ((x AND 7) OR (y AND 8)) < 16"
    by (simp add: word_less_nat_alt)
  then show ?thesis
    by (simp add: valid_reg_def)
qed

section \<open>The interface between primitives and instructions\<close>

locale mcu_prims =
  fixes I :: "mcu \<Rightarrow> bool"
  assumes inv_write_reg: "I m \<Longrightarrow> valid_reg r \<Longrightarrow> I (mcu_write_reg r v m)"
    and inv_halt: "I m \<Longrightarrow> I (mcu_halt reason m)"
    and inv_write16: "I m \<Longrightarrow> I (snd (mcu_write16 addr v16 m))"
    and inv_write32: "I m \<Longrightarrow> I (snd (mcu_write32 addr v32 m))"
begin

lemma inv_flags:
  "I m \<Longrightarrow> I (mcu_update_nflag c m)" "I m \<Longrightarrow> I (mcu_update_zflag c m)"
  "I m \<Longrightarrow> I (mcu_update_cflag_bit c m)" "I m \<Longrightarrow> I (mcu_update_vflag_bit c m)"
  "I m \<Longrightarrow> I (mcu_update_cflag a b c m)" "I m \<Longrightarrow> I (mcu_update_vflag a b c m)"
  by (simp_all add: mcu_update_nflag_def mcu_update_zflag_def mcu_update_cflag_bit_def
      mcu_update_vflag_bit_def mcu_update_cflag_def mcu_update_vflag_def Let_def inv_write_reg)

lemma inv_errors: "I m \<Longrightarrow> I (mcu_fetch_error a m)" "I m \<Longrightarrow> I (mcu_write_error a m)"
  by (simp_all add: mcu_fetch_error_def mcu_write_error_def inv_halt)

lemma inv_write16_pair: "mcu_write16 a v m = (ok, m') \<Longrightarrow> I m \<Longrightarrow> I m'"
  using inv_write16 by (metis snd_conv)

lemma inv_write32_pair: "mcu_write32 a v m = (ok, m') \<Longrightarrow> I m \<Longrightarrow> I m'"
  using inv_write32 by (metis snd_conv)

lemmas inv_prims =
  inv_write_reg inv_halt inv_write16 inv_write32 inv_flags inv_errors

lemma inv_ldmia_loop: "I m \<Longrightarrow> set rs \<subseteq> {..<16} \<Longrightarrow> I (snd (snd (ldmia_loop rs i sp m)))"
  by (induction rs i sp m rule: ldmia_loop.induct) (auto simp: inv_prims valid_less split: option.splits)

lemma inv_pop_loop: "I m \<Longrightarrow> set rs \<subseteq> {..<16} \<Longrightarrow> I (snd (snd (pop_loop rs i sp m)))"
  by (induction rs i sp m rule: pop_loop.induct) (auto simp: inv_prims valid_less split: option.splits)

lemma inv_push_loop: "I m \<Longrightarrow> I (snd (snd (push_loop rs i sp m)))"
proof (induction rs i sp m rule: push_loop.induct)
  case (2 reg rs i sp m)
  obtain ok m' where w: "mcu_write32 sp (mcu_read_reg reg m) m = (ok, m')" by fastforce
  with 2 have "I m'" by (auto dest: inv_write32_pair)
  with 2 w show ?case by (auto simp: inv_prims)
qed simp

lemma inv_access:
  "I m \<Longrightarrow> valid_reg d \<Longrightarrow> I (snd (ldr_at a d m))"
  "I m \<Longrightarrow> valid_reg d \<Longrightarrow> I (snd (ldrb_at a d m))"
  "I m \<Longrightarrow> valid_reg d \<Longrightarrow> I (snd (ldrh_at a d m))" "I m \<Longrightarrow> I (snd (str_at a v m))"
  "I m \<Longrightarrow> I (snd (strh_at a v m))" "I m \<Longrightarrow> I (snd (strb_at a d m))"
  by (auto simp: ldr_at_def ldrb_at_def ldrh_at_def str_at_def strh_at_def strb_at_def Let_def
      inv_prims split: option.splits prod.splits dest: inv_write16_pair inv_write32_pair)

lemma inv_loop_pairs:
  "ldmia_loop low_regs i sp m = (ok, sp', m') \<Longrightarrow> I m \<Longrightarrow> I m'"
  "pop_loop low_regs i sp m = (ok, sp', m') \<Longrightarrow> I m \<Longrightarrow> I m'"
  "push_loop low_regs i sp m = (ok, sp', m') \<Longrightarrow> I m \<Longrightarrow> I m'"
  using inv_ldmia_loop [of m low_regs i sp] inv_pop_loop [of m low_regs i sp]
    inv_push_loop [of m low_regs i sp]
  by (auto simp: low_regs_def subset_iff)

lemma inv_multi:
  "I m \<Longrightarrow> I (snd (instr_LDMIA i m))" "I m \<Longrightarrow> I (snd (instr_STMIA i m))"
  "I m \<Longrightarrow> I (snd (instr_POP i m))" "I m \<Longrightarrow> I (snd (instr_PUSH i m))"
  by (auto simp: instr_LDMIA_def instr_STMIA_def instr_POP_def instr_PUSH_def Let_def
      split: prod.splits option.splits intro!: inv_prims dest!: inv_loop_pairs)

lemma inv_alu:
  "I m \<Longrightarrow> I (snd (instr_ADD1 i m))" "I m \<Longrightarrow> I (snd (instr_ADD2 i m))"
  "I m \<Longrightarrow> I (snd (instr_ADD3 i m))" "I m \<Longrightarrow> I (snd (instr_ADD4 i m))"
  "I m \<Longrightarrow> I (snd (instr_ADD5 i m))" "I m \<Longrightarrow> I (snd (instr_ADD6 i m))"
  "I m \<Longrightarrow> I (snd (instr_ADD7 i m))" "I m \<Longrightarrow> I (snd (instr_AND i m))"
  "I m \<Longrightarrow> I (snd (instr_BIC i m))" "I m \<Longrightarrow> I (snd (instr_CMN i m))"
  "I m \<Longrightarrow> I (snd (instr_CMP1 i m))" "I m \<Longrightarrow> I (snd (instr_CMP2 i m))"
  "I m \<Longrightarrow> I (snd (instr_CMP3 i m))" "I m \<Longrightarrow> I (snd (instr_CPY i m))"
  "I m \<Longrightarrow> I (snd (instr_EOR i m))" "I m \<Longrightarrow> I (snd (instr_MOV1 i m))"
  "I m \<Longrightarrow> I (snd (instr_MOV2 i m))" "I m \<Longrightarrow> I (snd (instr_MOV3 i m))"
  "I m \<Longrightarrow> I (snd (instr_MUL i m))" "I m \<Longrightarrow> I (snd (instr_MVN i m))"
  "I m \<Longrightarrow> I (snd (instr_NEG i m))" "I m \<Longrightarrow> I (snd (instr_ORR i m))"
  "I m \<Longrightarrow> I (snd (instr_REV i m))" "I m \<Longrightarrow> I (snd (instr_REV16 i m))"
  "I m \<Longrightarrow> I (snd (instr_REVSH i m))" "I m \<Longrightarrow> I (snd (instr_SBC i m))"
  "I m \<Longrightarrow> I (snd (instr_SUB1 i m))" "I m \<Longrightarrow> I (snd (instr_SUB2 i m))"
  "I m \<Longrightarrow> I (snd (instr_SUB3 i m))" "I m \<Longrightarrow> I (snd (instr_SUB4 i m))"
  "I m \<Longrightarrow> I (snd (instr_SXTB i m))" "I m \<Longrightarrow> I (snd (instr_SXTH i m))"
  "I m \<Longrightarrow> I (snd (instr_TST i m))" "I m \<Longrightarrow> I (snd (instr_UXTB i m))"
  "I m \<Longrightarrow> I (snd (instr_UXTH i m))"
  by (simp_all add: instr_defs Let_def inv_prims)

lemma inv_shift:
  "I m \<Longrightarrow> I (snd (instr_ASR1 i m))" "I m \<Longrightarrow> I (snd (instr_ASR2 i m))"
  "I m \<Longrightarrow> I (snd (instr_LSL1 i m))"
  "I m \<Longrightarrow> I (snd (instr_LSR1 i m))"
  "I m \<Longrightarrow> I (snd (instr_ROR i m))"
  by (auto simp: instr_defs Let_def intro!: inv_prims)

lemma inv_branch:
  "I m \<Longrightarrow> I (snd (instr_B1 i m))" "I m \<Longrightarrow> I (snd (instr_B2 i m))" "I m \<Longrightarrow> I (snd (instr_BKPT i m))"
  "I m \<Longrightarrow> I (snd (instr_BL_hi i m))" "I m \<Longrightarrow> I (snd (instr_BL_lo i m))"
  "I m \<Longrightarrow> I (snd (instr_BLX1_arm i m))" "I m \<Longrightarrow> I (snd (instr_BLX2 i m))"
  "I m \<Longrightarrow> I (snd (instr_BX i m))" "I m \<Longrightarrow> I (snd (instr_SWI i m))" "I m \<Longrightarrow> I (snd (instr_WFE i m))"
  "I m \<Longrightarrow> I (snd (instr_WFI i m))"
  by (simp_all add: instr_defs Let_def inv_prims)

lemma inv_mem:
  "I m \<Longrightarrow> I (snd (instr_LDR1 i m))" "I m \<Longrightarrow> I (snd (instr_LDR2 i m))"
  "I m \<Longrightarrow> I (snd (instr_LDR3 i m))" "I m \<Longrightarrow> I (snd (instr_LDR4 i m))"
  "I m \<Longrightarrow> I (snd (instr_LDRB1 i m))" "I m \<Longrightarrow> I (snd (instr_LDRB2 i m))"
  "I m \<Longrightarrow> I (snd (instr_LDRH1 i m))" "I m \<Longrightarrow> I (snd (instr_LDRH2 i m))"
  "I m \<Longrightarrow> I (snd (instr_LDRSB i m))" "I m \<Longrightarrow> I (snd (instr_LDRSH i m))"
  "I m \<Longrightarrow> I (snd (instr_STR1 i m))" "I m \<Longrightarrow> I (snd (instr_STR2 i m))"
  "I m \<Longrightarrow> I (snd (instr_STR3 i m))" "I m \<Longrightarrow> I (snd (instr_STRB1 i m))"
  "I m \<Longrightarrow> I (snd (instr_STRB2 i m))" "I m \<Longrightarrow> I (snd (instr_STRH1 i m))"
  "I m \<Longrightarrow> I (snd (instr_STRH2 i m))"
  by (auto simp: instr_defs Let_def inv_access inv_prims split: option.splits)

lemma inv_instr32:
  "I m \<Longrightarrow> I (snd (instr_MSR w m))" "I m \<Longrightarrow> I (snd (instr_MRS w m))"
  "I m \<Longrightarrow> I (snd (instr_BL w m))"
  by (simp_all add: instr_defs Let_def inv_prims)

text \<open>
  Every entry of the tables but the two shifts by a register keeps the predicate.
\<close>

lemma inv_table16:
  "(mk, pat, f) \<in> set mcu_instr16_cortex_m0p \<Longrightarrow> (mk, pat) \<notin> {(0xFFC0, 0x4080), (0xFFC0, 0x40C0)} \<Longrightarrow>
     I m \<Longrightarrow> I (snd (f i m))"
  unfolding mcu_instr16_cortex_m0p_def
  by (auto simp: inv_alu inv_shift inv_branch inv_mem inv_multi)

lemma inv_table32: "(mk, pat, f) \<in> set mcu_instr32_cortex_m0p \<Longrightarrow> I m \<Longrightarrow> I (snd (f i m))"
  unfolding mcu_instr32_cortex_m0p_def by (auto simp: inv_instr32)

lemma inv_run_impl: "I (snd r) \<Longrightarrow> I (snd (run_impl pc r))"
  by (cases r) (simp add: run_impl_def inv_write_reg)

end

lemma decode_in_table:
  "decode defs w = Some f \<Longrightarrow> \<exists>mk pat. (mk, pat, f) \<in> set defs \<and> w AND mk = pat"
  by (induction defs w rule: decode.induct) (auto split: if_splits)

locale mcu_invariant = mcu_prims +
  assumes inv_undef: "I m \<Longrightarrow> I (set_undef m)"
begin

lemma inv_shift_reg: "I m \<Longrightarrow> I (snd (instr_LSL2 i m))" "I m \<Longrightarrow> I (snd (instr_LSR2 i m))"
  by (auto simp: instr_defs Let_def intro!: inv_prims inv_undef)

lemma inv_all16: "(mk, pat, f) \<in> set mcu_instr16_cortex_m0p \<Longrightarrow> I m \<Longrightarrow> I (snd (f i m))"
  unfolding mcu_instr16_cortex_m0p_def
  by (auto simp: inv_alu inv_shift inv_shift_reg inv_branch inv_mem inv_multi)

theorem inv_step: "I m \<Longrightarrow> I (snd (mcu_instr_step m))"
  unfolding mcu_instr_step_def Let_def
  by (auto split: option.splits intro!: inv_run_impl inv_prims inv_undef
      dest!: decode_in_table intro: inv_all16 inv_table32)

lemma inv_runloop: "I m \<Longrightarrow> I (snd (mcu_runloop m))"
  by (simp add: mcu_runloop_def inv_step)

theorem inv_run: "I m \<Longrightarrow> I ((idle_cb ^^ n) m)"
  by (induction n) (simp_all add: idle_cb_def inv_runloop)

end

end
