(* ===== verification/Sim_Inv.thy ===== *)
theory Sim_Inv
  imports Sim_Safety
begin

text \<open>
  The invariants of the simulated machine, each an interpretation of \<open>mcu_invariant\<close>:
  \<^item> a locked flash is never modified and the machine stays locked, whatever code it runs;
  \<^item> the memory map (class, type, window of every device, in order) never changes;
  \<^item> bit 0 of the program counter is clear;
  \<^item> the register cell that \<open>mcu_read_reg\<close> tests to choose the stack pointer is never
    written, so the stack pointer is the main stack pointer for ever.
\<close>

section \<open>How memory writes change registers and devices\<close>

lemma set_backend_frame [simp]:
  "regs (set_backend i b m) = regs m" "unlocked (set_backend i b m) = unlocked m"
  "undef (set_backend i b m) = undef m" "run_state (set_backend i b m) = run_state m"
  by (simp_all add: set_backend_def)

lemma mcu_write_reg_frame [simp]:
  "mem_devs (mcu_write_reg r v m) = mem_devs m" "unlocked (mcu_write_reg r v m) = unlocked m"
  "run_state (mcu_write_reg r v m) = run_state m"
  by (simp_all add: mcu_write_reg_def set_reg_def set_undef_def Let_def)

lemma mcu_halt_frame [simp]:
  "regs (mcu_halt x m) = regs m" "mem_devs (mcu_halt x m) = mem_devs m"
  "unlocked (mcu_halt x m) = unlocked m" "undef (mcu_halt x m) = undef m"
  by (simp_all add: mcu_halt_def)

lemma set_undef_frame [simp]:
  "regs (set_undef m) = regs m" "mem_devs (set_undef m) = mem_devs m"
  "unlocked (set_undef m) = unlocked m"
  by (simp_all add: set_undef_def)

lemma mcu_reset_frame [simp]:
  "mem_devs (snd (mcu_reset m)) = mem_devs m" "unlocked (snd (mcu_reset m)) = unlocked m"
  by (simp_all add: mcu_reset_def Let_def split: option.splits)

lemma unittest_done_frame [simp]:
  "regs (unittest_done u m) = regs m" "mem_devs (unittest_done u m) = mem_devs m"
  "unlocked (unittest_done u m) = unlocked m" "undef (unittest_done u m) = undef m"
  by (simp_all add: unittest_done_def)

text \<open>
  Every memory write ends in one of four shapes: no change of the machine's devices, a new
  backend for one device, that followed by a reset, or by the end of the simulation.
\<close>

inductive dev_effect :: "mcu \<Rightarrow> mcu \<Rightarrow> bool" where
  eff_none: "dev_effect m m"
| eff_console: "dev_effect m (m\<lparr>console := out\<rparr>)"
| eff_ram: "backend (mem_devs m ! i) = Ram f \<Longrightarrow> dev_effect m (set_backend i (Ram g) m)"
| eff_flash: "backend (mem_devs m ! i) = Flash f \<Longrightarrow> unlocked m \<Longrightarrow>
    dev_effect m (set_backend i (Flash g) m)"
| eff_unittest: "backend (mem_devs m ! i) = Unittest u \<Longrightarrow>
    dev_effect m (set_backend i (Unittest u') m)"
| eff_reset: "backend (mem_devs m ! i) = Unittest u \<Longrightarrow>
    dev_effect m (snd (mcu_reset (set_backend i (Unittest u') m)))"
| eff_done: "backend (mem_devs m ! i) = Unittest u \<Longrightarrow>
    dev_effect m (unittest_done u'' (set_backend i (Unittest u') m))"

lemma unittest_effect:
  "backend (mem_devs m ! i) = Unittest u \<Longrightarrow>
     dev_effect m (snd (unittest_dev_write32 i u addr v m))"
  by (auto simp: unittest_dev_write32_def Let_def intro: dev_effect.intros)

lemma mcu_write32_effect: "dev_effect m (snd (mcu_write32 addr v m))"
  by (auto simp: mem_defs split: option.splits backend.splits
      intro: dev_effect.intros unittest_effect)

lemma mcu_write16_effect: "dev_effect m (snd (mcu_write16 addr v m))"
  by (auto simp: mem_defs mcu_emu_write16_def Let_def split: option.splits backend.splits
      intro: dev_effect.intros unittest_effect)

section \<open>Invariants of the register file\<close>

locale reg_invariant =
  fixes R :: "(nat \<Rightarrow> u32) \<Rightarrow> bool"
  assumes reg_write: "R (regs m) \<Longrightarrow> R (regs (mcu_write_reg r v m))"
begin

lemma reg_reset: "R (regs m) \<Longrightarrow> R (regs (snd (mcu_reset m)))"
  by (auto simp: mcu_reset_def Let_def split: option.splits intro!: reg_write)

lemma reg_effect: "dev_effect m m' \<Longrightarrow> R (regs m) \<Longrightarrow> R (regs m')"
  by (induction rule: dev_effect.induct) (auto intro: reg_reset)

end

sublocale reg_invariant \<subseteq> mcu_invariant "\<lambda>m. R (regs m)"
  by unfold_locales
    (auto intro: reg_write reg_effect [OF mcu_write16_effect] reg_effect [OF mcu_write32_effect])

definition pc_even :: "(nat \<Rightarrow> u32) \<Rightarrow> bool" where
  "pc_even g \<longleftrightarrow> \<not> bit (g REG_PC) 0"

definition sp_is_msp :: "(nat \<Rightarrow> u32) \<Rightarrow> bool" where
  "sp_is_msp g \<longleftrightarrow> g REG_SP = 0"

interpretation pcinv: reg_invariant pc_even
  by unfold_locales (auto simp: pc_even_def mcu_write_reg_def set_reg_def set_undef_def Let_def
      bit_and_iff bit_not_iff)

interpretation spinv: reg_invariant sp_is_msp
  by unfold_locales (auto simp: sp_is_msp_def mcu_write_reg_def set_reg_def set_undef_def Let_def)

section \<open>Invariants of the devices\<close>

locale dev_invariant =
  fixes D :: "bool \<Rightarrow> mem_dev list \<Rightarrow> bool"
  assumes dev_ram: "D l ds \<Longrightarrow> backend (ds ! i) = Ram f \<Longrightarrow>
      D l (ds[i := (ds ! i)\<lparr>backend := Ram g\<rparr>])"
    and dev_flash: "D True ds \<Longrightarrow> backend (ds ! i) = Flash f \<Longrightarrow>
      D True (ds[i := (ds ! i)\<lparr>backend := Flash g\<rparr>])"
    and dev_unittest: "D l ds \<Longrightarrow> backend (ds ! i) = Unittest u \<Longrightarrow>
      D l (ds[i := (ds ! i)\<lparr>backend := Unittest u'\<rparr>])"
begin

lemma dev_eff: "dev_effect m m' \<Longrightarrow> D (unlocked m) (mem_devs m) \<Longrightarrow> D (unlocked m') (mem_devs m')"
proof (induction rule: dev_effect.induct)
  case (eff_flash m i f g)
  then show ?case by (auto simp: set_backend_def intro: dev_flash)
qed (auto simp: set_backend_def intro: dev_ram dev_unittest)

end

sublocale dev_invariant \<subseteq> mcu_invariant "\<lambda>m. D (unlocked m) (mem_devs m)"
  by unfold_locales (auto intro: dev_eff [OF mcu_write16_effect] dev_eff [OF mcu_write32_effect])

text \<open>The flash contents, device by device, and the fixed part of every device.\<close>

definition flash_view :: "mem_dev list \<Rightarrow> (nat \<Rightarrow> u8) option list" where
  "flash_view ds = map (\<lambda>d. case backend d of Flash f \<Rightarrow> Some f | _ \<Rightarrow> None) ds"

definition memory_map :: "mem_dev list \<Rightarrow> (mem_class_t \<times> u16 \<times> u32 \<times> u32) list" where
  "memory_map ds = map (\<lambda>d. (mem_class d, mem_type d, offset d, mem_length d)) ds"

lemma map_update_same: "g (ds ! i) = g y \<Longrightarrow> map g (ds[i := y]) = map g ds"
  by (cases "i < length ds") (simp_all add: map_update list_update_same_conv list_update_beyond)

interpretation flashinv: dev_invariant "\<lambda>l ds. \<not> l \<and> flash_view ds = F" for F
  by unfold_locales (auto simp: flash_view_def map_update_same)

interpretation mapinv: dev_invariant "\<lambda>l ds. memory_map ds = M" for M
  by unfold_locales (simp_all add: memory_map_def map_update_same)

section \<open>Properties\<close>

text \<open>
  C1. Locked flash is read-only for the simulated program: whatever instructions a locked
  machine executes, and for however long, the contents of every flash device stay what they
  were and the machine stays locked (only the ELF loader and the debugger unlock it).
\<close>

theorem locked_flash_unchanged:
  assumes "\<not> unlocked m"
  shows "flash_view (mem_devs ((idle_cb ^^ n) m)) = flash_view (mem_devs m)
     \<and> \<not> unlocked ((idle_cb ^^ n) m)"
  using flashinv.inv_run [of m "flash_view (mem_devs m)" n] assms by simp

theorem locked_flash_unchanged_witness:
  "\<not> unlocked demo_mcu \<and> flash_view (mem_devs ((idle_cb ^^ 5) (mcu_resume demo_mcu))) =
     flash_view (mem_devs (mcu_resume demo_mcu))"
  using locked_flash_unchanged [of "mcu_resume demo_mcu" 5]
  by (simp add: demo_regs mcu_resume_def mcu_is_halted_def)

text \<open>
  The memory map is fixed: class, type, offset and length of every device, and their
  order in the dispatch list, are the same after any number of steps.
\<close>

theorem memory_map_fixed: "memory_map (mem_devs ((idle_cb ^^ n) m)) = memory_map (mem_devs m)"
  using mapinv.inv_run [of m "memory_map (mem_devs m)" n] by simp

text \<open>
  C23. The program counter stays half-word aligned: from a state in which bit 0 of the PC is
  clear, every reachable state has it clear, through branches, POP, BX, BLX, exceptions of
  the unit test device and failed instructions alike.
\<close>

theorem pc_always_aligned:
  assumes "pc_even (regs m)"
  shows "pc_even (regs ((idle_cb ^^ n) m))"
  by (rule pcinv.inv_run [OF assms])

theorem pc_always_aligned_witness:
  "pc_even (regs demo_mcu) \<and> pc_even (regs ((idle_cb ^^ 4) (mcu_resume demo_mcu)))"
  using pc_always_aligned [of "mcu_resume demo_mcu" 4]
  by (simp add: demo_regs mcu_resume_def mcu_is_halted_def pc_even_def)

text \<open>
  The process stack pointer is never selected. The stack pointer accessors test bit 1 of
  the register cell of SP itself, not of CONTROL; no operation writes that cell, so from the
  created machine on every access to SP is an access to MSP, also after
  \<open>MSR CONTROL, r\<close> has set CONTROL.SPSEL.
\<close>

theorem sp_is_always_msp:
  assumes "sp_is_msp (regs m)"
  shows "mcu_read_reg REG_SP ((idle_cb ^^ n) m) = regs ((idle_cb ^^ n) m) REG_MSP"
  using spinv.inv_run [OF assms, of n] by (simp add: sp_is_msp_def mcu_read_reg_def)

theorem sp_is_always_msp_witness:
  "sp_is_msp (regs (mcu_write_reg REG_CONTROL 2 demo_mcu))
   \<and> mcu_read_reg REG_SP ((idle_cb ^^ 1) (mcu_write_reg REG_CONTROL 2 demo_mcu)) =
       regs ((idle_cb ^^ 1) (mcu_write_reg REG_CONTROL 2 demo_mcu)) REG_MSP"
  using sp_is_always_msp [of "mcu_write_reg REG_CONTROL 2 demo_mcu" 1]
  by (simp add: demo_regs sp_is_msp_def mcu_write_reg_def set_reg_def)

end
