(* ===== verification/Sim_Memory.thy ===== *)
theory Sim_Memory
  imports Sim_Inv
begin

text \<open>
  The simulated memory as its clients use it. The byte arrays of RAM and flash satisfy the
  laws of a memory; the bus (\<open>mcu_fetch32\<close>, \<open>mcu_write32\<close>) inherits them on the words that a
  RAM device serves, which is the interface \<open>word_memory\<close> the stack instructions rely on.
\<close>

section \<open>Byte arrays\<close>

lemma rd16_wr16 [simp]: "rd16 (wr16 i v f) i = v"
  by (rule bit_word_eqI) (auto simp: rd16_def wr16_def bit_simps)

lemma rd16_wr16_other: "i + 1 < j \<or> j + 1 < i \<Longrightarrow> rd16 (wr16 i v f) j = rd16 f j"
  by (auto simp: rd16_def wr16_def)

lemma rd32_wr32 [simp]: "rd32 (wr32 i v f) i = v"
proof -
  have "rd16 (wr32 i v f) i = ucast v" "rd16 (wr32 i v f) (i + 2) = ucast (drop_bit 16 v)"
    by (simp_all add: wr32_def rd16_wr16_other)
  then show ?thesis
    unfolding rd32_def by (intro bit_word_eqI) (auto simp: bit_simps)
qed

lemma rd32_wr32_other: "i + 3 < j \<or> j + 3 < i \<Longrightarrow> rd32 (wr32 i v f) j = rd32 f j"
  by (auto simp: rd32_def wr32_def rd16_wr16_other)

lemma wr32_frame: "k < i \<or> i + 3 < k \<Longrightarrow> wr32 i v f k = f k"
  by (auto simp: wr32_def wr16_def)

lemma wr16_frame: "k < i \<or> i + 1 < k \<Longrightarrow> wr16 i v f k = f k"
  by (auto simp: wr16_def)

text \<open>No access of a device whose size is a multiple of 4 leaves its array.\<close>

lemma idx32_bound: "addr < len \<Longrightarrow> 4 dvd unat len \<Longrightarrow> idx32 addr + 3 < unat len"
proof -
  assume "addr < len" "4 dvd unat len"
  then have "unat addr < unat len" by (simp add: word_less_nat_alt)
  moreover have "idx32 addr = 4 * (unat addr div 4)"
    by (simp add: idx32_def drop_bit_eq_div unat_div_distrib)
  ultimately show ?thesis using \<open>4 dvd unat len\<close> by presburger
qed

lemma idx16_bound: "addr < len \<Longrightarrow> 2 dvd unat len \<Longrightarrow> idx16 addr + 1 < unat len"
proof -
  assume "addr < len" "2 dvd unat len"
  then have "unat addr < unat len" by (simp add: word_less_nat_alt)
  moreover have "idx16 addr = 2 * (unat addr div 2)"
    by (simp add: idx16_def drop_bit_eq_div unat_div_distrib)
  ultimately show ?thesis using \<open>2 dvd unat len\<close> by presburger
qed

lemma idx32_separate:
  assumes "a AND 3 = 0" "b AND 3 = 0" "a \<noteq> b"
  shows "idx32 a + 3 < idx32 b \<or> idx32 b + 3 < idx32 a"
proof -
  have low: "take_bit 2 x = x AND 3" for x :: u32
    by (simp add: take_bit_eq_mask mask_eq_exp_minus_1)
  have "a = push_bit 2 (drop_bit 2 a)" "b = push_bit 2 (drop_bit 2 b)"
    using assms bits_ident [of 2 a] bits_ident [of 2 b] by (simp_all add: low)
  with \<open>a \<noteq> b\<close> have "drop_bit 2 a \<noteq> drop_bit 2 b" by metis
  then have "unat (drop_bit 2 a) \<noteq> unat (drop_bit 2 b)" by (simp add: word_unat_eq_iff)
  then show ?thesis unfolding idx32_def by linarith
qed

text \<open>The addresses of \<open>n\<close> consecutive words, and a list of values stored there.\<close>

fun slots :: "u32 \<Rightarrow> nat \<Rightarrow> u32 list" where
  "slots a 0 = []"
| "slots a (Suc n) = a # slots (a + 4) n"

fun stored :: "u32 \<Rightarrow> u32 list \<Rightarrow> mcu \<Rightarrow> bool" where
  "stored a [] m = True"
| "stored a (v # vs) m \<longleftrightarrow> mcu_fetch32 a m = Some v \<and> stored (a + 4) vs m"

lemma set_slots: "set (slots a n) = (\<lambda>j. a + of_nat (4 * j)) ` {..<n}"
proof (induction n arbitrary: a)
  case (Suc n)
  have "{..<Suc n} = insert 0 (Suc ` {..<n})" by (rule lessThan_Suc_eq_insert_0)
  then show ?case by (simp add: Suc image_image add.assoc add.left_commute)
qed simp

lemma distinct_slots: "n \<le> 16 \<Longrightarrow> distinct (slots a n)"
proof (induction n arbitrary: a)
  case (Suc n)
  have "a \<noteq> a + 4 + of_nat (4 * j)" if "j < n" for j
  proof -
    have "\<not> (2 :: nat) ^ 32 dvd 4 + 4 * j"
      using that Suc.prems by (intro nat_dvd_not_less) simp_all
    then have "(of_nat (4 + 4 * j) :: u32) \<noteq> 0"
      by (simp only: word_of_nat_eq_0_iff) simp
    then show ?thesis by (simp add: add.assoc)
  qed
  with Suc show ?case by (auto simp: set_slots)
qed simp

lemma fetch_regs [simp]:
  "mcu_fetch32 a (m\<lparr>regs := g\<rparr>) = mcu_fetch32 a m" "mcu_fetch16 a (m\<lparr>regs := g\<rparr>) = mcu_fetch16 a m"
  by (simp_all add: mcu_fetch32_def mcu_fetch16_def cong: option.case_cong)

lemma stored_regs [simp]: "stored a vs (m\<lparr>regs := g\<rparr>) = stored a vs m"
  by (induction vs arbitrary: a) simp_all

lemma read_reg_cong: "regs m = regs m' \<Longrightarrow> mcu_read_reg r m = mcu_read_reg r m'"
  by (simp add: mcu_read_reg_def)

text \<open>What a loop over registers leaves in the register file.\<close>

definition load_regs :: "nat list \<Rightarrow> (nat \<Rightarrow> u32) \<Rightarrow> (nat \<Rightarrow> u32) \<Rightarrow> nat \<Rightarrow> u32" where
  "load_regs rs h g = (\<lambda>r. if r \<in> set rs then h r else g r)"

lemma pop_loop_loads:
  "stored sp (map h (filter (bit i) rs)) m \<Longrightarrow> set rs \<subseteq> {..<13} \<Longrightarrow>
     pop_loop rs i sp m = (True, sp + of_nat (4 * length (filter (bit i) rs)),
       m\<lparr>regs := load_regs (filter (bit i) rs) h (regs m)\<rparr>)"
proof (induction rs arbitrary: sp m)
  case Nil
  then show ?case by (simp add: load_regs_def)
next
  case (Cons r rs)
  have "load_regs (filter (bit i) rs) h ((regs m)(r := h r)) =
      load_regs (r # filter (bit i) rs) h (regs m)"
    by (auto simp: load_regs_def)
  with Cons show ?case
    by (cases "bit i r") (simp_all add: mcu_write_reg_def set_reg_def)
qed

section \<open>Word-addressed memory on the bus\<close>

locale word_memory =
  fixes W :: "u32 \<Rightarrow> mcu \<Rightarrow> bool"
  assumes W_write: "W a m \<Longrightarrow> fst (mcu_write32 a v m)"
    and W_regs: "W a m \<Longrightarrow> regs (snd (mcu_write32 a v m)) = regs m"
    and W_stable: "W a m \<Longrightarrow> W b (snd (mcu_write32 a v m)) = W b m"
    and W_same: "W a m \<Longrightarrow> mcu_fetch32 a (snd (mcu_write32 a v m)) = Some v"
    and W_other: "W a m \<Longrightarrow> W b m \<Longrightarrow> a \<noteq> b \<Longrightarrow>
      mcu_fetch32 b (snd (mcu_write32 a v m)) = mcu_fetch32 b m"
    and W_regs_indep: "W a (m\<lparr>regs := g\<rparr>) = W a m"
begin

declare push_loop.simps(2) [simp del]

abbreviation pushed :: "nat list \<Rightarrow> u16 \<Rightarrow> u32 \<Rightarrow> mcu \<Rightarrow> mcu" where
  "pushed rs i sp m \<equiv> snd (snd (push_loop rs i sp m))"

lemma push_loop_Cons:
  "bit i r \<Longrightarrow> W sp m \<Longrightarrow> push_loop (r # rs) i sp m =
     push_loop rs i (sp + 4) (snd (mcu_write32 sp (mcu_read_reg r m) m))"
  "\<not> bit i r \<Longrightarrow> push_loop (r # rs) i sp m = push_loop rs i sp m"
  using W_write [of sp m "mcu_read_reg r m"]
  by (auto simp: push_loop.simps(2) split: prod.splits)

lemma push_loop_ok:
  "\<forall>a \<in> set (slots sp (length (filter (bit i) rs))). W a m \<Longrightarrow>
     fst (push_loop rs i sp m)
     \<and> fst (snd (push_loop rs i sp m)) = sp + of_nat (4 * length (filter (bit i) rs))
     \<and> regs (pushed rs i sp m) = regs m \<and> (\<forall>b. W b (pushed rs i sp m) = W b m)"
proof (induction rs arbitrary: sp m)
  case (Cons r rs)
  then show ?case
    by (cases "bit i r") (auto simp: push_loop_Cons W_regs W_stable)
qed simp

lemma push_loop_frame:
  "\<forall>a \<in> set (slots sp (length (filter (bit i) rs))). W a m \<Longrightarrow> W b m \<Longrightarrow>
     b \<notin> set (slots sp (length (filter (bit i) rs))) \<Longrightarrow>
     mcu_fetch32 b (pushed rs i sp m) = mcu_fetch32 b m"
proof (induction rs arbitrary: sp m)
  case (Cons r rs)
  then show ?case
    by (cases "bit i r") (auto simp: push_loop_Cons W_stable W_other)
qed simp

lemma push_loop_stores:
  "\<forall>a \<in> set (slots sp (length (filter (bit i) rs))). W a m \<Longrightarrow> length rs \<le> 16 \<Longrightarrow>
     stored sp (map (\<lambda>r. mcu_read_reg r m) (filter (bit i) rs)) (pushed rs i sp m)"
proof (induction rs arbitrary: sp m)
  case (Cons r rs)
  show ?case
  proof (cases "bit i r")
    case True
    let ?n = "length (filter (bit i) rs)" and ?m1 = "snd (mcu_write32 sp (mcu_read_reg r m) m)"
    have W: "W sp m" "\<forall>a \<in> set (slots (sp + 4) ?n). W a ?m1"
      using Cons.prems True by (auto simp: W_stable)
    have "Suc ?n \<le> 16" using Cons.prems(2) length_filter_le [of "bit i" rs] by (simp del: length_filter_le)
    then have "sp \<notin> set (slots (sp + 4) ?n)" using distinct_slots [of "Suc ?n" sp] by simp
    then have "mcu_fetch32 sp (pushed rs i (sp + 4) ?m1) = Some (mcu_read_reg r m)"
      using push_loop_frame [OF W(2)] W(1) by (simp add: W_stable W_same)
    moreover have "stored (sp + 4) (map (\<lambda>r. mcu_read_reg r ?m1) (filter (bit i) rs))
        (pushed rs i (sp + 4) ?m1)"
      using Cons W by simp
    ultimately show ?thesis
      using True W(1) by (simp add: push_loop_Cons read_reg_cong [OF W_regs [OF W(1)]])
  qed (use Cons in \<open>simp add: push_loop_Cons\<close>)
qed simp

text \<open>
  A PUSH of low registers followed by a POP of the same registers, with any code in between
  that keeps the stack pointer and the pushed words: the pushed registers and the stack
  pointer have their old values.
\<close>

lemma push_low:
  assumes "sp_is_msp (regs m)" "\<not> bit i 8"
    and "\<forall>a \<in> set (slots sp n). W a m"
    and "n = length (filter (bit i) low_regs)" "sp = regs m REG_MSP - of_nat (4 * n)"
  shows "fst (instr_PUSH i m)"
    and "regs (snd (instr_PUSH i m)) = (regs m)(REG_MSP := sp)"
    and "stored sp (map (regs m) (filter (bit i) low_regs)) (snd (instr_PUSH i m))"
proof -
  let ?m = "m\<lparr>regs := (regs m)(REG_MSP := sp)\<rparr>"
  have W: "\<forall>a \<in> set (slots sp (length (filter (bit i) low_regs))). W a ?m"
    using assms(3,4) by (simp add: W_regs_indep)
  have push: "instr_PUSH i m = (fst (push_loop low_regs i sp ?m), pushed low_regs i sp ?m)"
    using assms push_loop_ok [OF W]
    by (auto simp: instr_PUSH_def Let_def mcu_read_reg_def mcu_write_reg_def set_reg_def
        sp_is_msp_def split: prod.splits)
  then show "fst (instr_PUSH i m)" "regs (snd (instr_PUSH i m)) = (regs m)(REG_MSP := sp)"
    using push_loop_ok [OF W] by simp_all
  have "map (\<lambda>r. mcu_read_reg r ?m) (filter (bit i) low_regs) = map (regs m) (filter (bit i) low_regs)"
    by (auto simp: low_regs_def mcu_read_reg_def)
  moreover have "length low_regs \<le> 16" by (simp add: low_regs_def)
  ultimately show "stored sp (map (regs m) (filter (bit i) low_regs)) (snd (instr_PUSH i m))"
    using push push_loop_stores [OF W] by (metis snd_conv)
qed

end

lemma pop_low:
  assumes "sp_is_msp (regs m)" "\<not> bit i 8"
    and "stored (regs m REG_MSP) (map h (filter (bit i) low_regs)) m"
  shows "instr_POP i m = (True, m\<lparr>regs := (load_regs (filter (bit i) low_regs) h (regs m))
      (REG_MSP := regs m REG_MSP + of_nat (4 * length (filter (bit i) low_regs)))\<rparr>)"
proof -
  have low: "REG_SP \<notin> set low_regs" "set low_regs \<subseteq> {..<13}"
    by (auto simp: low_regs_def)
  then have sp: "load_regs (filter (bit i) low_regs) h (regs m) REG_SP = 0"
    using assms(1) by (simp add: load_regs_def sp_is_msp_def)
  show ?thesis
    using assms pop_loop_loads [OF assms(3) low(2)] sp
    by (simp add: instr_POP_def mcu_read_reg_def sp_is_msp_def mcu_write_reg_def set_reg_def)
qed

section \<open>RAM is word-addressed memory\<close>

text \<open>\<open>ram_word a m\<close>: the device that serves the aligned address \<open>a\<close> is an aligned RAM.\<close>

definition ram_word :: "u32 \<Rightarrow> mcu \<Rightarrow> bool" where
  "ram_word a m \<longleftrightarrow>
     (case find_dev (mem_devs m) a of
        None \<Rightarrow> False
      | Some k \<Rightarrow> a AND 3 = 0 \<and> offset (mem_devs m ! k) AND 3 = 0
           \<and> (case backend (mem_devs m ! k) of Ram f \<Rightarrow> True | _ \<Rightarrow> False))"

lemma find_dev_less: "find_dev ds a = Some k \<Longrightarrow> k < length ds"
  by (induction ds a arbitrary: k rule: find_dev.induct) (auto split: if_splits)

lemma find_dev_cong:
  "map (\<lambda>d. (offset d, mem_length d)) ds = map (\<lambda>d. (offset d, mem_length d)) ds' \<Longrightarrow>
     find_dev ds a = find_dev ds' a"
proof (induction ds arbitrary: ds')
  case (Cons d ds)
  then obtain d' es where ds': "ds' = d' # es" by (cases ds') simp_all
  have "in_window d a = in_window d' a" using Cons.prems by (simp add: in_window_def ds')
  moreover have "find_dev ds a = find_dev es a" using Cons.prems by (intro Cons.IH) (simp add: ds')
  ultimately show ?case by (simp add: ds')
qed simp

lemma find_dev_backend [simp]:
  "find_dev (ds[k := (ds ! k)\<lparr>backend := b\<rparr>]) a = find_dev ds a"
  by (rule find_dev_cong) (simp add: map_update_same)

lemma ram_word_write:
  assumes "ram_word a m"
  obtains k f where "find_dev (mem_devs m) a = Some k" "k < length (mem_devs m)"
    "backend (mem_devs m ! k) = Ram f" "offset (mem_devs m ! k) AND 3 = 0" "a AND 3 = 0"
    "\<And>v. mcu_write32 a v m =
       (True, set_backend k (Ram (wr32 (idx32 (a - offset (mem_devs m ! k))) v f)) m)"
proof -
  obtain k where k: "find_dev (mem_devs m) a = Some k"
    using assms by (cases "find_dev (mem_devs m) a") (simp_all add: ram_word_def)
  then obtain f where f: "backend (mem_devs m ! k) = Ram f"
    using assms by (cases "backend (mem_devs m ! k)") (simp_all add: ram_word_def)
  have "mcu_write32 a v m =
      (True, set_backend k (Ram (wr32 (idx32 (a - offset (mem_devs m ! k))) v f)) m)" for v
    by (simp add: mcu_write32_def k dev_write32_def f ram_dev_write32_def)
  with k f find_dev_less [OF k] assms show thesis by (intro that) (simp_all add: ram_word_def)
qed

lemma aligned_diff: "a AND 3 = 0 \<Longrightarrow> o' AND 3 = 0 \<Longrightarrow> (a - o') AND 3 = 0" for a o' :: u32
proof -
  have low: "x AND 3 = x mod 4" for x :: u32
    using take_bit_eq_mask [of 2 x] by (simp add: mask_eq_exp_minus_1 take_bit_eq_mod)
  assume "a AND 3 = 0" "o' AND 3 = 0"
  then have "4 dvd a" "4 dvd o'" by (simp_all add: low mod_0_imp_dvd)
  then obtain x y where "a = 4 * x" "o' = 4 * y" by (auto elim!: dvdE)
  then have "a - o' = push_bit 2 (x - y)" by (simp add: push_bit_eq_mult algebra_simps)
  then show ?thesis
    using take_bit_eq_mask [of 2 "a - o'"] by (simp add: mask_eq_exp_minus_1 take_bit_push_bit)
qed

interpretation ram: word_memory ram_word
proof
  fix a b :: u32 and m :: mcu and v :: u32
  assume "ram_word a m"
  then obtain k f where k: "find_dev (mem_devs m) a = Some k" "k < length (mem_devs m)"
    "backend (mem_devs m ! k) = Ram f" "offset (mem_devs m ! k) AND 3 = 0" "a AND 3 = 0"
    and w: "mcu_write32 a v m =
       (True, set_backend k (Ram (wr32 (idx32 (a - offset (mem_devs m ! k))) v f)) m)"
    by (metis ram_word_write)
  show "fst (mcu_write32 a v m)" "regs (snd (mcu_write32 a v m)) = regs m"
    by (simp_all add: w)
  show "ram_word b (snd (mcu_write32 a v m)) = ram_word b m"
    using k by (auto simp: w ram_word_def set_backend_def nth_list_update split: option.splits)
  show "mcu_fetch32 a (snd (mcu_write32 a v m)) = Some v"
    using k by (simp add: w mcu_fetch32_def dev_fetch32_def ram_dev_read32_def set_backend_def)
  assume "ram_word b m" "a \<noteq> b"
  then obtain k' f' where k': "find_dev (mem_devs m) b = Some k'" "b AND 3 = 0"
    "backend (mem_devs m ! k') = Ram f'"
    by (metis ram_word_write)
  have "a - offset (mem_devs m ! k) \<noteq> b - offset (mem_devs m ! k)" using \<open>a \<noteq> b\<close> by simp
  then have "idx32 (a - offset (mem_devs m ! k)) + 3 < idx32 (b - offset (mem_devs m ! k)) \<or>
      idx32 (b - offset (mem_devs m ! k)) + 3 < idx32 (a - offset (mem_devs m ! k))"
    using k k' by (intro idx32_separate aligned_diff) simp_all
  then show "mcu_fetch32 b (snd (mcu_write32 a v m)) = mcu_fetch32 b m"
    using k k' by (cases "k = k'") (simp_all add: w mcu_fetch32_def dev_fetch32_def
        ram_dev_read32_def set_backend_def rd32_wr32_other)
qed (simp add: ram_word_def cong: option.case_cong)

section \<open>The RAM of a created machine\<close>

text \<open>What the dispatch depends on: the window of every device and whether it is a RAM.\<close>

definition dev_kind :: "mem_dev \<Rightarrow> u32 \<times> u32 \<times> bool" where
  "dev_kind d = (offset d, mem_length d, case backend d of Ram f \<Rightarrow> True | _ \<Rightarrow> False)"

interpretation kindinv: dev_invariant "\<lambda>l ds. map dev_kind ds = K" for K
  by unfold_locales (simp_all add: dev_kind_def map_update_same)

lemma ram_word_by_kind:
  assumes "map dev_kind (mem_devs m) = map dev_kind (mem_devs m')"
  shows "ram_word a m = ram_word a m'"
proof -
  have win: "map (\<lambda>d. (offset d, mem_length d)) ds = map (\<lambda>(o', l, _). (o', l)) (map dev_kind ds)" for ds
    by (simp add: dev_kind_def)
  have find: "find_dev (mem_devs m) a = find_dev (mem_devs m') a"
    by (rule find_dev_cong) (simp only: win assms)
  show ?thesis
  proof (cases "find_dev (mem_devs m) a")
    case (Some k)
    then have "k < length (mem_devs m)" "k < length (mem_devs m')"
      using find find_dev_less by metis+
    then have "dev_kind (mem_devs m ! k) = dev_kind (mem_devs m' ! k)"
      using assms by (metis nth_map)
    with Some find show ?thesis by (simp add: ram_word_def dev_kind_def)
  qed (use find in \<open>simp add: ram_word_def\<close>)
qed

lemma create_devs:
  "mcu_cortex_m0p_create sz ram0 = Some m \<Longrightarrow>
     map dev_kind (mem_devs m) =
       [(0xEE000000, 0x20, False), (0xE0000000, 0x40, False), (0x10000000, sz, True),
        (0, 0x8000, False)]"
  by (auto simp: mcu_cortex_m0p_create_def flash_dev_create_def ram_dev_create_def Let_def
      uart_dev_create_def unittest_dev_create_def mcu_add_mem_dev_def mcu_init_def mcu_zero_def
      dev_kind_def split: if_splits)

lemma create_ram_word:
  assumes "mcu_cortex_m0p_create sz ram0 = Some m" "sz \<le> 0xD0000000"
    and "a AND 3 = 0" "0x10000000 \<le> a" "a < 0x10000000 + sz"
  shows "ram_word a m"
proof -
  have "unat (0x10000000 + sz) = 0x10000000 + unat sz"
    using assms(2) by (simp add: unat_plus_if' word_le_nat_alt)
  then have "unat a < 0x10000000 + unat sz" "unat sz \<le> 0xD0000000"
    using assms(2,5) by (simp_all add: word_less_nat_alt word_le_nat_alt)
  then have "\<not> 0xEE000000 \<le> a" "\<not> 0xE0000000 \<le> a" by (simp_all add: word_le_nat_alt)
  then show ?thesis
    using assms
    by (auto simp: mcu_cortex_m0p_create_def flash_dev_create_def ram_dev_create_def Let_def
        uart_dev_create_def unittest_dev_create_def mcu_add_mem_dev_def mcu_init_def mcu_zero_def
        ram_word_def in_window_def split: if_splits)
qed

lemma created_ram_word_run:
  assumes "mcu_cortex_m0p_create sz ram0 = Some m0" "sz \<le> 0xD0000000"
    and "map dev_kind (mem_devs m) = map dev_kind (mem_devs m0)"
    and "a AND 3 = 0" "0x10000000 \<le> a" "a < 0x10000000 + sz"
  shows "ram_word a ((idle_cb ^^ n) m)"
proof -
  have "map dev_kind (mem_devs ((idle_cb ^^ n) m)) = map dev_kind (mem_devs m0)"
    by (rule kindinv.inv_run [OF assms(3)])
  then have "ram_word a ((idle_cb ^^ n) m) = ram_word a m0" by (rule ram_word_by_kind)
  then show ?thesis using create_ram_word [OF assms(1,2,4-6)] by blast
qed

section \<open>Byte stores\<close>

text \<open>A byte store to an aligned RAM address goes through \<open>mcu_write32\<close>.\<close>

lemma not_1_aligned: "a AND 3 = 0 \<Longrightarrow> a AND NOT 1 = a \<and> \<not> bit a 0" for a :: u32
proof -
  assume "a AND 3 = 0"
  then have "\<not> bit (a AND 3) 0" by simp
  then have "\<not> bit a 0" by (simp add: bit_simps)
  then show ?thesis by (auto intro!: bit_word_eqI simp: bit_simps intro: gr0I)
qed

lemma strb_ram_word:
  assumes "ram_word a m" "mcu_fetch16 a m = Some h"
  shows "fst (strb_at a d m) \<and> mcu_fetch32 a (snd (strb_at a d m)) =
     Some (ucast ((h AND 0xFF00) OR ucast (mcu_read_reg d m AND 0xFF)))"
proof -
  have a: "a AND 3 = 0" using assms(1) by (auto elim: ram_word_write)
  note addr = not_1_aligned [OF a]
  let ?v = "ucast ((h AND 0xFF00) OR ucast (mcu_read_reg d m AND 0xFF)) :: u32"
  have "strb_at a d m = str_at a ?v m"
    using assms(2) addr by (simp add: strb_at_def Let_def)
  then show ?thesis
    using ram.W_write [OF assms(1), of ?v] ram.W_same [OF assms(1), of ?v]
    by (auto simp: str_at_def split: prod.splits)
qed

section \<open>Properties\<close>

text \<open>
  The RAM of the simulated microcontroller is a memory: in every state the created
  machine can reach, a word written to an aligned RAM address is what a fetch from that
  address returns, and no other word of the RAM changes.
\<close>

theorem ram_reads_what_was_written:
  assumes "mcu_cortex_m0p_create sz ram0 = Some m0" "sz \<le> 0xD0000000"
    and "map dev_kind (mem_devs m) = map dev_kind (mem_devs m0)"
    and "a AND 3 = 0" "0x10000000 \<le> a" "a < 0x10000000 + sz"
    and "b AND 3 = 0" "0x10000000 \<le> b" "b < 0x10000000 + sz" "b \<noteq> a"
    and "m' = (idle_cb ^^ n) m"
  shows "fst (mcu_write32 a v m') \<and> mcu_fetch32 a (snd (mcu_write32 a v m')) = Some v
     \<and> mcu_fetch32 b (snd (mcu_write32 a v m')) = mcu_fetch32 b m'"
proof -
  have "ram_word a m'" "ram_word b m'"
    using created_ram_word_run [OF assms(1-6)] created_ram_word_run [OF assms(1-3,7-9)] assms(11)
    by simp_all
  then show ?thesis using assms(10) by (simp add: ram.W_write ram.W_same ram.W_other)
qed

theorem ram_reads_what_was_written_witness:
  "mcu_fetch32 0x10000010 (snd (mcu_write32 0x10000010 7 ((idle_cb ^^ 2) demo_mcu))) = Some 7"
  using ram_reads_what_was_written [OF demo_create, where m = demo_mcu and a = "0x10000010"
      and b = "0x10000014" and n = 2 and v = 7]
  by simp

text \<open>
  C20. PUSH followed by POP of the same low registers restores them and the stack pointer,
  whatever the code in between left in the registers, as long as it restored the stack
  pointer and the pushed words lie in RAM.
\<close>

theorem push_pop_restores:
  assumes "mcu_cortex_m0p_create sz ram0 = Some m0" "sz \<le> 0xD0000000"
    and "map dev_kind (mem_devs m) = map dev_kind (mem_devs m0)"
    and "sp_is_msp (regs m)" "\<not> bit i 8" "\<not> bit j 8" "filter (bit j) low_regs = filter (bit i) low_regs"
    and "sp = regs m REG_MSP - of_nat (4 * length (filter (bit i) low_regs))"
    and "\<forall>a \<in> set (slots sp (length (filter (bit i) low_regs))).
           a AND 3 = 0 \<and> 0x10000000 \<le> a \<and> a < 0x10000000 + sz"
    and "g REG_MSP = sp" "g REG_SP = 0"
  shows "fst (instr_PUSH i m)
     \<and> instr_POP j ((snd (instr_PUSH i m))\<lparr>regs := g\<rparr>) =
         (True, (snd (instr_PUSH i m))\<lparr>regs :=
            (load_regs (filter (bit i) low_regs) (regs m) g)(REG_MSP := regs m REG_MSP)\<rparr>)"
proof -
  let ?n = "length (filter (bit i) low_regs)" and ?m1 = "snd (instr_PUSH i m)"
  have W: "\<forall>a \<in> set (slots sp ?n). ram_word a m"
    using assms(9) created_ram_word_run [OF assms(1-3), where n = 0] by simp
  note push = ram.push_low [OF assms(4,5) W refl assms(8)]
  have "sp_is_msp (regs (?m1\<lparr>regs := g\<rparr>))" using assms(11) by (simp add: sp_is_msp_def)
  moreover have "stored (regs (?m1\<lparr>regs := g\<rparr>) REG_MSP) (map (regs m) (filter (bit j) low_regs))
      (?m1\<lparr>regs := g\<rparr>)"
    using push(3) assms(7,10) by simp
  ultimately show ?thesis
    using pop_low [of "?m1\<lparr>regs := g\<rparr>" j "regs m"] assms(6,7,8,10) push(1) by simp
qed

theorem push_pop_restores_witness:
  "fst (instr_PUSH 0xB403 (set_reg REG_MSP 0x10000400 demo_mcu))"
  using push_pop_restores [OF demo_create, where m = "set_reg REG_MSP 0x10000400 demo_mcu"
      and i = "0xB403" and j = "0xBC03" and sp = "0x100003F8"
      and g = "\<lambda>r. if r = REG_MSP then 0x100003F8 else 0"]
  by (simp add: demo_regs set_reg_def sp_is_msp_def low_regs_def upt_rec)

text \<open>
  A byte store destroys its neighbours: STRB to a word-aligned RAM address stores the
  addressed half word zero-extended to 32 bits, so the two bytes above it become 0.
\<close>

theorem strb_clears_upper_half:
  assumes "ram_word a m" "mcu_fetch16 a m = Some h"
  shows "\<exists>w. mcu_fetch32 a (snd (strb_at a d m)) = Some w \<and> drop_bit 16 w = 0
     \<and> ucast w = (h AND 0xFF00) OR ucast (mcu_read_reg d m AND 0xFF)"
proof -
  have "drop_bit 16 (ucast x :: u32) = 0" for x :: u16
    by (rule bit_word_eqI) (auto simp: bit_simps dest: bit_imp_le_length)
  moreover have "ucast (ucast x :: u32) = x" for x :: u16
    by (rule bit_word_eqI) (simp add: bit_simps)
  ultimately show ?thesis
    using strb_ram_word [OF assms, of d] by auto
qed

theorem strb_clears_upper_half_witness:
  "\<exists>w. mcu_fetch32 0x10000000 (snd (strb_at 0x10000000 0 demo_mcu)) = Some w \<and> drop_bit 16 w = 0"
  using strb_clears_upper_half [of "0x10000000" demo_mcu 0 0]
    create_ram_word [OF demo_create, of "0x10000000"]
  by (simp add: mem_defs demo_mcu_def in_window_def unittest_dev_create_def uart_dev_create_def rd16_def)
    blast

end
