(* ===== verification/Sim_Machine.thy ===== *)
theory Sim_Machine
  imports Sim_Inv
begin

text \<open>
  The step as a whole: which table entries the decoder can reach, when a step leaves the
  defined behaviour of C, what a failing step does to the program counter, halting and
  resuming, and the machine that \<open>mcu_cortex_m0p_create\<close> builds and \<open>mcu_reset\<close> starts.
\<close>

section \<open>Reachable table entries\<close>

text \<open>The position of the entry \<open>decode\<close> selects.\<close>

fun decode_index :: "('a::len word \<times> 'a word \<times> 'i) list \<Rightarrow> 'a word \<Rightarrow> nat option" where
  "decode_index [] w = None"
| "decode_index ((mk, pat, impl) # defs) w =
     (if w AND mk = pat then Some 0 else map_option Suc (decode_index defs w))"

lemma decode_by_index:
  "decode defs w = map_option (\<lambda>k. snd (snd (defs ! k))) (decode_index defs w)"
  by (induction defs w rule: decode_index.induct) (auto simp: option.map_comp comp_def)

lemma decode_index_first:
  "decode_index defs w = Some k \<Longrightarrow>
     k < length defs \<and> w AND fst (defs ! k) = fst (snd (defs ! k))
     \<and> (\<forall>j < k. w AND fst (defs ! j) \<noteq> fst (snd (defs ! j)))"
proof (induction defs w arbitrary: k rule: decode_index.induct)
  case (2 mk pat impl defs w)
  then show ?case by (cases k) (auto simp: nth_Cons' split: if_splits)
qed simp

text \<open>An entry is shadowed by an earlier one whose mask tests fewer bits of the same pattern.\<close>

lemma decode_index_shadowed:
  assumes "j < k" "fst (defs ! j) AND fst (defs ! k) = fst (defs ! j)"
    "fst (snd (defs ! k)) AND fst (defs ! j) = fst (snd (defs ! j))"
  shows "decode_index defs w \<noteq> Some k"
proof
  assume sel: "decode_index defs w = Some k"
  have "w AND fst (defs ! j) = (w AND fst (defs ! k)) AND fst (defs ! j)"
    using assms(2) by (metis and.assoc and.commute)
  also have "\<dots> = fst (snd (defs ! j))" using decode_index_first [OF sel] assms(3) by simp
  finally show False using decode_index_first [OF sel] assms(1) by blast
qed

text \<open>
  The shadowed entries are ASR (2), MOV (2), ROR and SWI; the entries BL hi, BL lo and
  BLX (1) match only words that the step treats as the first half of a 32 bit instruction.
\<close>

definition dead16 :: "nat set" where
  "dead16 = {9, 14, 15, 16, 41, 52, 66}"

text \<open>One instruction word for every other entry, in table order.\<close>

definition sample16 :: "u16 list" where
  "sample16 =
     [0x1C00, 0x3000, 0x1800, 0x4400, 0xA000, 0xA800, 0xB000, 0x4000, 0x1000, 0xD000, 0xE000,
      0x4380, 0xBE00, 0x4780, 0x4700, 0x42C0, 0x2800, 0x4280, 0x4500, 0x4600, 0x4040, 0xC800,
      0x6800, 0x5800, 0x4800, 0x9800, 0x7800, 0x5C00, 0x8800, 0x5A00, 0x5600, 0x5E00, 0x0000,
      0x4080, 0x0800, 0x40C0, 0x2000, 0x4640, 0x4340, 0x43C0, 0x4240, 0x4300, 0xBC00, 0xB400,
      0xBA00, 0xBA40, 0xBAC0, 0x4180, 0xC000, 0x6000, 0x5000, 0x9000, 0x7000, 0x5400, 0x8000,
      0x5200, 0x1E00, 0x3800, 0x1A00, 0xB080, 0xB240, 0xB200, 0x4200, 0xB2C0, 0xB280, 0xBF20,
      0xBF30]"

lemma sample16_decodes:
  "map (decode_index mcu_instr16_cortex_m0p) sample16 =
     map Some (0 # 1 # [2..<9] @ [10..<14] @ [17..<41] @ [42..<52] @ [53..<66] @ [67..<74])"
  unfolding sample16_def mcu_instr16_cortex_m0p_def by simp

lemma sample16_thumb16: "\<forall>w \<in> set sample16. \<not> is_thumb32 w"
  unfolding sample16_def is_thumb32_def by simp

lemma bl_entries:
  "fst (mcu_instr16_cortex_m0p ! 14) = 0xF800 \<and> fst (snd (mcu_instr16_cortex_m0p ! 14)) = 0xF000"
  "fst (mcu_instr16_cortex_m0p ! 15) = 0xF800 \<and> fst (snd (mcu_instr16_cortex_m0p ! 15)) = 0xF800"
  "fst (mcu_instr16_cortex_m0p ! 16) = 0xF800 \<and> fst (snd (mcu_instr16_cortex_m0p ! 16)) = 0xE800"
  by (simp_all add: mcu_instr16_cortex_m0p_def)

lemma dead16_unreachable:
  assumes "\<not> is_thumb32 w" "k \<in> dead16"
  shows "decode_index mcu_instr16_cortex_m0p w \<noteq> Some k"
proof -
  have "decode_index mcu_instr16_cortex_m0p w \<noteq> Some 9"
    by (rule decode_index_shadowed [of 8]) (simp_all add: mcu_instr16_cortex_m0p_def)
  moreover have "decode_index mcu_instr16_cortex_m0p w \<noteq> Some 41"
    by (rule decode_index_shadowed [of 0]) (simp_all add: mcu_instr16_cortex_m0p_def)
  moreover have "decode_index mcu_instr16_cortex_m0p w \<noteq> Some 52"
    by (rule decode_index_shadowed [of 51]) (simp_all add: mcu_instr16_cortex_m0p_def)
  moreover have "decode_index mcu_instr16_cortex_m0p w \<noteq> Some 66"
    by (rule decode_index_shadowed [of 10]) (simp_all add: mcu_instr16_cortex_m0p_def)
  moreover have "decode_index mcu_instr16_cortex_m0p w \<noteq> Some k" if "k \<in> {14, 15, 16}"
  proof
    assume "decode_index mcu_instr16_cortex_m0p w = Some k"
    then have "w AND fst (mcu_instr16_cortex_m0p ! k) = fst (snd (mcu_instr16_cortex_m0p ! k))"
      by (simp add: decode_index_first)
    then show False using that assms(1) bl_entries by (auto simp: is_thumb32_def)
  qed
  ultimately show ?thesis using assms(2) by (auto simp: dead16_def)
qed

lemma live16_reachable:
  assumes "k < 74" "k \<notin> dead16"
  shows "\<exists>w. \<not> is_thumb32 w \<and> decode_index mcu_instr16_cortex_m0p w = Some k"
proof -
  have "k \<in> set (0 # 1 # [2..<9] @ [10..<14] @ [17..<41] @ [42..<52] @ [53..<66] @ [67..<74])"
    using assms by (simp add: dead16_def) presburger
  then have "Some k \<in> set (map (decode_index mcu_instr16_cortex_m0p) sample16)"
    unfolding sample16_decodes by (simp only: set_map) (rule imageI)
  then obtain w where "w \<in> set sample16" "decode_index mcu_instr16_cortex_m0p w = Some k" by auto
  then show ?thesis using sample16_thumb16 by blast
qed

section \<open>Where a step leaves defined behaviour\<close>

interpretation noub: mcu_prims "\<lambda>m. \<not> undef m"
proof
  fix m :: mcu and r v assume "\<not> undef m" "valid_reg r"
  then show "\<not> undef (mcu_write_reg r v m)"
    by (auto simp: mcu_write_reg_def set_reg_def set_undef_def valid_reg_def Let_def)
next
  have reset: "undef (snd (mcu_reset m)) = undef m" for m
    by (simp add: mcu_reset_def Let_def mcu_write_reg_def set_reg_def split: option.splits)
  have eff: "dev_effect m m' \<Longrightarrow> undef m' = undef m" for m m'
    by (induction rule: dev_effect.induct) (simp_all add: reset)
  fix m :: mcu and addr
  show "\<not> undef m \<Longrightarrow> \<not> undef (snd (mcu_write16 addr v16 m))" for v16
    using eff [OF mcu_write16_effect] by simp
  show "\<not> undef m \<Longrightarrow> \<not> undef (snd (mcu_write32 addr v32 m))" for v32
    using eff [OF mcu_write32_effect] by simp
qed simp

text \<open>
  \<open>ub_word m w\<close>: executing the half word \<open>w\<close> at the program counter is one of the two cases
  in which the C code has no defined behaviour, a shift by a register whose low byte is 0,
  or a 32 bit instruction that is not in its table.
\<close>

definition ub_word :: "mcu \<Rightarrow> u16 \<Rightarrow> bool" where
  "ub_word m w \<longleftrightarrow>
     (\<not> is_thumb32 w \<and> (w AND 0xFFC0 = 0x4080 \<or> w AND 0xFFC0 = 0x40C0)
        \<and> regs m (fld w 3 7) AND 0xFF = 0)
     \<or> (is_thumb32 w \<and> (\<exists>w2. mcu_fetch16 (regs m REG_PC) m = Some w2
        \<and> decode mcu_instr32_cortex_m0p (push_bit 16 (ucast w) OR ucast w2) = None))"

lemma undef_run_impl: "undef (snd (run_impl pc r)) \<Longrightarrow> undef (snd r)"
  using noub.inv_run_impl by blast

lemma undef_impl16:
  assumes "decode mcu_instr16_cortex_m0p w = Some f" "undef (snd (f w m))" "\<not> undef m"
  shows "(w AND 0xFFC0 = 0x4080 \<or> w AND 0xFFC0 = 0x40C0) \<and> regs m (fld w 3 7) AND 0xFF = 0"
proof -
  obtain mk pat where e: "(mk, pat, f) \<in> set mcu_instr16_cortex_m0p" "w AND mk = pat"
    using decode_in_table [OF assms(1)] by blast
  with assms(2,3) noub.inv_table16 have s: "(mk, pat) \<in> {(0xFFC0, 0x4080), (0xFFC0, 0x40C0)}"
    by blast
  with e have f: "f = instr_LSL2 \<or> f = instr_LSR2"
    by (auto simp: mcu_instr16_cortex_m0p_def)
  have "regs m (fld w 3 7) AND 0xFF = 0"
  proof (rule ccontr)
    assume "regs m (fld w 3 7) AND 0xFF \<noteq> 0"
    moreover have "mcu_read_reg (fld w 3 7) m = regs m (fld w 3 7)"
      using fld_less [of 7 13 3 w] by (auto simp: mcu_read_reg_def)
    ultimately have "unat (mcu_read_reg (fld w 3 7) m AND 0xFF) \<noteq> 0" by (simp add: unsigned_eq_0_iff)
    then have "\<not> undef (snd (instr_LSL2 w m))" "\<not> undef (snd (instr_LSR2 w m))"
      unfolding instr_LSL2_def instr_LSR2_def Let_def
      using assms(3) by (auto simp: noub.inv_prims split: prod.splits)
    with f have "\<not> undef (snd (f w m))" by blast
    with assms(2) show False by simp
  qed
  with s e show ?thesis by auto
qed

lemma step_undef:
  assumes "undef (snd (mcu_instr_step m))" "\<not> undef m"
  shows "\<exists>w. mcu_fetch16 (regs m REG_PC - 2) m = Some w \<and> ub_word m w"
proof -
  have pc: "mcu_read_reg REG_PC m = regs m REG_PC" by (simp add: mcu_read_reg_def)
  obtain w where w: "mcu_fetch16 (regs m REG_PC - 2) m = Some w"
    using assms by (cases "mcu_fetch16 (regs m REG_PC - 2) m")
      (simp_all add: mcu_instr_step_def pc Let_def)
  let ?m = "mcu_write_reg REG_PC (regs m REG_PC + 2) m"
  let ?m2 = "mcu_write_reg REG_PC (regs m REG_PC + 2 + 2) m"
  have m: "\<not> undef ?m" "\<not> undef ?m2" using assms(2) by (simp_all add: noub.inv_write_reg)
  have regs_m: "regs ?m (fld w 3 7) = regs m (fld w 3 7)"
    using fld_less [of 7 13 3 w] by (auto simp: mcu_write_reg_def set_reg_def)
  have "ub_word m w"
  proof (cases "is_thumb32 w")
    case False
    with assms w m obtain f where f: "decode mcu_instr16_cortex_m0p w = Some f"
      "undef (snd (f w ?m))"
      by (auto simp: mcu_instr_step_def pc Let_def noub.inv_prims
          split: option.splits dest: undef_run_impl)
    with undef_impl16 [OF f m(1)] False regs_m show ?thesis by (simp add: ub_word_def)
  next
    case True
    then show ?thesis
      using assms w m noub.inv_table32
      by (auto simp: mcu_instr_step_def pc Let_def ub_word_def
          split: option.splits dest!: undef_run_impl decode_in_table)
  qed
  with w show ?thesis by blast
qed

section \<open>A failing step\<close>

lemma even_and_not_1: "\<not> bit w 0 \<Longrightarrow> w AND NOT 1 = w" for w :: u32
  by (intro bit_word_eqI) (auto simp: bit_simps intro: gr0I)

lemma run_impl_fails:
  "run_impl pc r = (False, m') \<Longrightarrow> \<not> bit pc 0 \<Longrightarrow> regs m' REG_PC = pc"
proof -
  assume "run_impl pc r = (False, m')" "\<not> bit pc 0"
  moreover note even_and_not_1 [OF this(2)]
  ultimately show ?thesis
    by (cases r) (auto simp: run_impl_def mcu_write_reg_def set_reg_def split: if_splits)
qed

lemma step_fails_pc:
  assumes "mcu_instr_step m = (False, m')" "pc_even (regs m)" "\<not> undef m'"
  shows "regs m' REG_PC = regs m REG_PC"
proof -
  have pc: "mcu_read_reg REG_PC m = regs m REG_PC" by (simp add: mcu_read_reg_def)
  have clear: "\<not> bit (regs m REG_PC) 0" using assms(2) by (simp add: pc_even_def)
  note pc_back = even_and_not_1 [OF this, simplified]
  show ?thesis
    using assms(1,3) unfolding mcu_instr_step_def pc Let_def
    by (auto simp: set_undef_def mcu_write_reg_def set_reg_def pc_back split: option.splits if_splits
        dest: run_impl_fails [OF _ clear])
qed

section \<open>Halting and resuming\<close>

lemma idle_cb_halted: "mcu_is_halted m \<Longrightarrow> (idle_cb ^^ n) m = m"
  by (induction n) (simp_all add: idle_cb_def mcu_runloop_def)

lemma mcu_halt_twice: "mcu_halt r (mcu_halt s m) = mcu_halt s m"
  by (simp add: mcu_halt_def mcu_is_halted_def)

text \<open>The idle handle is started exactly while the machine runs.\<close>

definition idle_ok :: "mcu \<Rightarrow> bool" where
  "idle_ok m \<longleftrightarrow> (idle_active m \<longleftrightarrow> \<not> mcu_is_halted m)"

lemma idle_ok_frame [simp]:
  "idle_ok (set_reg r v m) = idle_ok m" "idle_ok (set_undef m) = idle_ok m"
  "idle_ok (m\<lparr>processor_mode := pm\<rparr>) = idle_ok m" "idle_ok (m\<lparr>console := out\<rparr>) = idle_ok m"
  "idle_ok (m\<lparr>mem_devs := ds\<rparr>) = idle_ok m" "idle_ok (m\<lparr>exited := x\<rparr>) = idle_ok m"
  "idle_ok (m\<lparr>unlocked := b\<rparr>) = idle_ok m" "idle_ok (m\<lparr>callbacks := cs\<rparr>) = idle_ok m"
  by (simp_all add: idle_ok_def mcu_is_halted_def set_reg_def set_undef_def)

lemma idle_ok_write_reg [simp]: "idle_ok (mcu_write_reg r v m) = idle_ok m"
  by (simp add: mcu_write_reg_def Let_def)

lemma idle_ok_reset [simp]: "idle_ok (snd (mcu_reset m)) = idle_ok m"
  by (simp add: mcu_reset_def Let_def split: option.splits)

lemma idle_ok_effect: "dev_effect m m' \<Longrightarrow> idle_ok m' = idle_ok m"
  by (induction rule: dev_effect.induct) (simp_all add: set_backend_def unittest_done_def)

lemma idle_ok_control:
  "idle_ok m \<Longrightarrow> idle_ok (mcu_halt r m)" "idle_ok m \<Longrightarrow> idle_ok (mcu_resume m)"
  by (auto simp: idle_ok_def mcu_halt_def mcu_resume_def mcu_is_halted_def
      intro: mcu_state_t.exhaust)

interpretation idleinv: mcu_invariant idle_ok
  by unfold_locales
    (simp_all add: idle_ok_control idle_ok_effect [OF mcu_write16_effect]
      idle_ok_effect [OF mcu_write32_effect])

section \<open>Properties\<close>

text \<open>
  Exactly which entries of the 16 bit instruction table can be selected: the step can
  reach every entry except ASR (2), MOV (2), ROR and SWI, which earlier entries shadow, and
  BL hi, BL lo and BLX (1), whose words are taken as 32 bit instructions.
\<close>

theorem reachable_table_entries:
  "{k. \<exists>w. \<not> is_thumb32 w \<and> decode_index mcu_instr16_cortex_m0p w = Some k} = {..<74} - dead16"
proof (intro set_eqI iffI)
  fix k assume "k \<in> {k. \<exists>w. \<not> is_thumb32 w \<and> decode_index mcu_instr16_cortex_m0p w = Some k}"
  then obtain w where w: "\<not> is_thumb32 w" "decode_index mcu_instr16_cortex_m0p w = Some k" by auto
  moreover from w(2) have "k < length mcu_instr16_cortex_m0p" by (simp add: decode_index_first)
  ultimately show "k \<in> {..<74} - dead16"
    using dead16_unreachable by (auto simp: mcu_instr16_cortex_m0p_def)
qed (use live16_reachable in auto)

text \<open>
  A step shifts by no more than 31, stays within the decoder tables and indexes the register file
  within bounds, except in two situations: an LSL or LSR by a register whose low byte is 0, and a
  32 bit instruction word outside the 32 bit table. (Left shifts of signed values into or out of
  the sign bit, which the compilers define, are not counted here.)
\<close>

theorem step_defined_unless:
  assumes "undef (snd (mcu_instr_step m))" "\<not> undef m"
  shows "\<exists>w. mcu_fetch16 (regs m REG_PC - 2) m = Some w \<and> ub_word m w"
  by (rule step_undef [OF assms])

definition lsl_machine :: mcu where
  "lsl_machine = (set_reg REG_PC 0x10000002 demo_mcu)\<lparr>mem_devs :=
     [\<lparr>mem_class = mem_class_ram, mem_type = 1, offset = 0x10000000, mem_length = 0x400,
       backend = Ram ((\<lambda>_. 0)(0 := 0x88, 1 := 0x40))\<rparr>]\<rparr>"

lemma lsl_machine_step:
  "regs lsl_machine REG_PC = 0x10000002" "\<not> undef lsl_machine"
  "mcu_fetch16 0x10000000 lsl_machine = Some 0x4088" "undef (snd (mcu_instr_step lsl_machine))"
proof -
  show pc: "regs lsl_machine REG_PC = 0x10000002" "\<not> undef lsl_machine"
    by (simp_all add: lsl_machine_def demo_regs set_reg_def)
  show f: "mcu_fetch16 0x10000000 lsl_machine = Some 0x4088"
    by (simp add: lsl_machine_def mem_defs in_window_def rd16_def idx16_def)
  have d: "decode mcu_instr16_cortex_m0p 0x4088 = Some instr_LSL2"
    by (simp add: mcu_instr16_cortex_m0p_def)
  have keep: "undef m \<Longrightarrow> undef (mcu_write_reg r v m)" for r v m
    by (simp add: mcu_write_reg_def set_reg_def set_undef_def Let_def)
  have "regs lsl_machine 1 = 0" by (simp add: lsl_machine_def demo_regs set_reg_def)
  then show "undef (snd (mcu_instr_step lsl_machine))"
    using pc f by (simp add: mcu_instr_step_def mcu_read_reg_def is_thumb32_def d run_impl_def
        instr_LSL2_def mcu_write_reg_def [of REG_PC] set_reg_def mcu_update_nflag_def
        mcu_update_zflag_def keep set_undef_def Let_def)
qed

theorem step_defined_unless_witness:
  "undef (snd (mcu_instr_step lsl_machine)) \<and> (\<exists>w. ub_word lsl_machine w)"
  using step_defined_unless [of lsl_machine] lsl_machine_step by blast

text \<open>
  A failing step does not move the program counter: when \<open>mcu_instr_step\<close> reports
  failure (fetch error, unknown or unimplemented instruction, data abort), the PC is the PC
  of the instruction that failed, so the debugger shows the culprit.
\<close>

theorem failed_step_keeps_pc:
  assumes "mcu_instr_step m = (False, m')" "pc_even (regs m)" "\<not> undef m'"
  shows "regs m' REG_PC = regs m REG_PC"
  by (rule step_fails_pc [OF assms])

theorem failed_step_keeps_pc_witness:
  "mcu_instr_step (demo_mcu\<lparr>mem_devs := []\<rparr>) = (False, demo_mcu\<lparr>mem_devs := []\<rparr>)
   \<and> regs (demo_mcu\<lparr>mem_devs := []\<rparr>) REG_PC = 0"
proof -
  have s: "mcu_instr_step (demo_mcu\<lparr>mem_devs := []\<rparr>) = (False, demo_mcu\<lparr>mem_devs := []\<rparr>)"
    by (simp add: mcu_instr_step_def mem_defs mcu_halt_def mcu_is_halted_def demo_mcu_def mcu_zero_def)
  show ?thesis using failed_step_keeps_pc [OF s] s by (simp add: demo_regs pc_even_def)
qed

text \<open>
  The idle handler is installed exactly while the machine runs: this holds for the
  created machine and is kept by resuming, halting and every step, whether the machine halts
  in it or not; and a halted machine does not change when the handler is called.
\<close>

theorem idle_handler_tracks_state:
  "idle_ok demo_mcu \<and> (idle_ok m \<longrightarrow> idle_ok (mcu_resume m) \<and> idle_ok (mcu_halt r m)
     \<and> idle_ok ((idle_cb ^^ n) m)) \<and> (mcu_is_halted m \<longrightarrow> (idle_cb ^^ n) m = m)"
  using idleinv.inv_run [of m n] idle_ok_control [of m] idle_cb_halted [of m n]
  by (simp add: idle_ok_def demo_regs mcu_is_halted_def)

theorem idle_handler_tracks_state_witness:
  "idle_ok (mcu_resume demo_mcu) \<and> (idle_cb ^^ 3) demo_mcu = demo_mcu"
  using idle_handler_tracks_state [of demo_mcu 0 3] by (simp add: demo_regs mcu_is_halted_def)

end
