(* ===== verification/Sim_Flags.thy ===== *)
theory Sim_Flags
  imports Sim_Instr
begin

text \<open>
  What the flag helpers of \<^verbatim>\<open>cortex-m0p/mcu.c\<close> compute: each one writes exactly one bit of
  the status register, and the carry and overflow helpers agree with the \<open>AddWithCarry\<close>
  function of the ARM architecture manual, which the code reimplements bit by bit.
\<close>

section \<open>One status bit at a time\<close>

lemma bit_status_mask: "bit (0xF0000000 :: int) n \<longleftrightarrow> 28 \<le> n \<and> n < 32"
proof -
  have "(0xF0000000 :: int) = push_bit 28 (mask 4)" by (simp add: mask_eq_exp_minus_1)
  then have "bit (0xF0000000 :: int) n \<longleftrightarrow> bit (push_bit 28 (mask 4) :: int) n" by (simp only:)
  then show ?thesis by (auto simp: bit_push_bit_iff bit_mask_iff)
qed

lemma status_merge:
  assumes "28 \<le> n" "n < 32"
  shows "(x AND NOT 0xF0000000) OR
         ((if b then (x AND 0xF0000000) OR push_bit n 1
           else (x AND 0xF0000000) AND NOT (push_bit n 1)) AND 0xF0000000) = put_bit n b (x :: u32)"
  using assms
  by (intro bit_word_eqI) (auto simp: bit_put_bit bit_simps bit_status_mask)

lemma write_apsr:
  "mcu_write_reg REG_APSR v m =
     set_reg REG_XPSR ((regs m REG_XPSR AND NOT 0xF0000000) OR (v AND 0xF0000000)) m"
  by (simp add: mcu_write_reg_def)

lemma read_apsr: "mcu_read_reg REG_APSR m = regs m REG_XPSR AND 0xF0000000"
  by (simp add: mcu_read_reg_def)

lemma mcu_update_nflag_eq [flag_eqs]:
  "mcu_update_nflag c m = set_reg REG_XPSR (put_bit 31 (bit c 31) (regs m REG_XPSR)) m"
  by (simp add: mcu_update_nflag_def write_apsr read_apsr Let_def
      status_merge [of 31 "regs m REG_XPSR" "bit c 31", simplified, symmetric])

lemma mcu_update_zflag_eq [flag_eqs]:
  "mcu_update_zflag c m = set_reg REG_XPSR (put_bit 30 (c = 0) (regs m REG_XPSR)) m"
  by (simp add: mcu_update_zflag_def write_apsr read_apsr Let_def
      status_merge [of 30 "regs m REG_XPSR" "c = 0", simplified, symmetric])

lemma mcu_update_cflag_bit_eq [flag_eqs]:
  "mcu_update_cflag_bit v m = set_reg REG_XPSR (put_bit 29 (v \<noteq> 0) (regs m REG_XPSR)) m"
  by (simp add: mcu_update_cflag_bit_def write_apsr read_apsr Let_def
      status_merge [of 29 "regs m REG_XPSR" "v \<noteq> 0", simplified, symmetric])

lemma mcu_update_vflag_bit_eq [flag_eqs]:
  "mcu_update_vflag_bit v m = set_reg REG_XPSR (put_bit 28 (v \<noteq> 0) (regs m REG_XPSR)) m"
  by (simp add: mcu_update_vflag_bit_def write_apsr read_apsr Let_def
      status_merge [of 28 "regs m REG_XPSR" "v \<noteq> 0", simplified, symmetric])

section \<open>Carry and overflow of an addition\<close>

text \<open>The reference: result, carry out and signed overflow of \<open>a + b + cin\<close>.\<close>

definition AddWithCarry :: "u32 \<Rightarrow> u32 \<Rightarrow> bool \<Rightarrow> u32 \<times> bool \<times> bool" where
  "AddWithCarry a b cin =
     (let r = a + b + of_bool cin
      in (r, uint r \<noteq> uint a + uint b + of_bool cin, sint r \<noteq> sint a + sint b + of_bool cin))"

lemma low31: "uint (a AND 0x7FFFFFFF :: u32) = uint a mod 2 ^ 31"
proof -
  have "(0x7FFFFFFF :: u32) = mask 31" by (simp add: mask_eq_exp_minus_1)
  then have "a AND 0x7FFFFFFF = a mod 2 ^ 31" by (simp only: take_bit_eq_mask [symmetric] take_bit_eq_mod)
  then show ?thesis by (simp add: uint_mod_distrib)
qed

lemma div31: "uint (drop_bit 31 a :: u32) = uint a div 2 ^ 31"
  by (simp add: drop_bit_eq_div uint_div_distrib)

lemma top_bit: "uint (a :: u32) div 2 ^ 31 = of_bool (bit a 31)"
proof -
  have "uint a < 2 ^ 32" "0 \<le> uint a"
    using unsigned_less [of a, where ?'a = int] by simp_all
  then have "uint a div 2 ^ 31 = of_bool (2 ^ 31 \<le> uint a)" by auto
  moreover have "bit a 31 \<longleftrightarrow> odd (uint a div 2 ^ 31)"
    using bit_iff_odd [of "uint a" 31] bit_uint_iff [of a 31] by simp
  ultimately show ?thesis by simp
qed

lemma split_top: "uint (a :: u32) = uint a mod 2 ^ 31 + 2 ^ 31 * of_bool (bit a 31)"
  using mod_mult_div_eq [of "uint a" "2 ^ 31"] top_bit [of a] by metis

text \<open>The carry into bit 31, which both helpers compute first.\<close>

definition carry_in31 :: "u32 \<Rightarrow> u32 \<Rightarrow> bool \<Rightarrow> bool" where
  "carry_in31 a b cin \<longleftrightarrow> 2 ^ 31 \<le> uint a mod 2 ^ 31 + uint b mod 2 ^ 31 + of_bool cin"

lemma carry_in31_word:
  "drop_bit 31 ((a AND 0x7FFFFFFF) + (b AND 0x7FFFFFFF) + of_bool cin) =
     (of_bool (carry_in31 a b cin) :: u32)"
proof -
  let ?s = "(a AND 0x7FFFFFFF) + (b AND 0x7FFFFFFF) + (of_bool cin :: u32)"
  have "uint a mod 2 ^ 31 + uint b mod 2 ^ 31 + of_bool cin < 2 ^ 32"
    using pos_mod_bound [of "2 ^ 31" "uint a"] pos_mod_bound [of "2 ^ 31" "uint b"]
    by (cases cin) simp_all
  then have "uint ?s = uint a mod 2 ^ 31 + uint b mod 2 ^ 31 + of_bool cin"
    by (cases cin) (simp_all add: uint_plus_carry low31 uint_word_ariths)
  moreover have "uint ?s < 2 ^ 32"
    using unsigned_less [of ?s, where ?'a = int] by simp
  ultimately have "uint (drop_bit 31 ?s) = of_bool (carry_in31 a b cin)"
    by (auto simp: div31 carry_in31_def div_pos_geq)
  then show ?thesis
    by (intro word_uint_eqI) simp
qed

lemma top_word: "drop_bit 31 a = (of_bool (bit a 31) :: u32)"
  using top_bit [of a] by (intro word_uint_eqI) (simp add: div31)

lemma mcu_update_cflag_carry31:
  "mcu_update_cflag a b (of_bool cin) m =
     set_reg REG_XPSR (put_bit 29 (of_bool (carry_in31 a b cin) + of_bool (bit a 31)
       + of_bool (bit b 31) \<ge> (2::nat)) (regs m REG_XPSR)) m"
  unfolding mcu_update_cflag_def Let_def carry_in31_word top_word [of a] top_word [of b] mcu_update_cflag_bit_eq
  by (cases "carry_in31 a b cin"; cases "bit a 31"; cases "bit b 31") simp_all

lemma mcu_update_vflag_carry31:
  "mcu_update_vflag a b (of_bool cin) m =
     set_reg REG_XPSR (put_bit 28 (carry_in31 a b cin \<noteq>
       (of_bool (carry_in31 a b cin) + of_bool (bit a 31) + of_bool (bit b 31) \<ge> (2::nat)))
       (regs m REG_XPSR)) m"
  unfolding mcu_update_vflag_def Let_def carry_in31_word top_word [of a] top_word [of b] mcu_update_vflag_bit_eq
  by (cases "carry_in31 a b cin"; cases "bit a 31"; cases "bit b 31") simp_all

lemma uint_sum:
  "uint (a + b + of_bool cin :: u32) =
     (let s = uint a + uint b + of_bool cin in if 2 ^ 32 \<le> s then s - 2 ^ 32 else s)"
proof -
  define s where "s = uint a + uint b + of_bool cin"
  have "0 \<le> s" "s < 2 ^ 32 + 2 ^ 32"
    using unsigned_less [of a, where ?'a = int] unsigned_less [of b, where ?'a = int]
    by (cases cin; simp add: s_def)+
  moreover have "uint (a + b + of_bool cin) = s mod 2 ^ 32"
    unfolding s_def by (cases cin) (simp_all add: uint_plus_carry uint_word_ariths mod_simps)
  moreover have "s mod 2 ^ 32 = (s - 2 ^ 32) mod 2 ^ 32"
    by (rule minus_mod_self2 [symmetric])
  ultimately show ?thesis
    unfolding Let_def s_def [symmetric]
    by (cases "2 ^ 32 \<le> s") (simp_all add: mod_pos_pos_trivial del: minus_mod_self2)
qed

lemma carry_out_iff:
  "(uint (a + b + of_bool cin :: u32) \<noteq> uint a + uint b + of_bool cin) \<longleftrightarrow>
     of_bool (carry_in31 a b cin) + of_bool (bit a 31) + of_bool (bit b 31) \<ge> (2::nat)"
proof -
  have "0 \<le> uint a mod 2 ^ 31" "uint a mod 2 ^ 31 < 2 ^ 31"
    "0 \<le> uint b mod 2 ^ 31" "uint b mod 2 ^ 31 < 2 ^ 31" by simp_all
  then show ?thesis
    unfolding uint_sum Let_def
    using split_top [of a] split_top [of b]
    by (cases "bit a 31"; cases "bit b 31"; cases cin) (auto simp: carry_in31_def)
qed

lemma bit31_iff: "bit w 31 \<longleftrightarrow> 2 ^ 31 \<le> uint (w :: u32)"
proof -
  have "0 \<le> uint w mod 2 ^ 31" "uint w mod 2 ^ 31 < 2 ^ 31" by simp_all
  then show ?thesis using split_top [of w] by (cases "bit w 31") simp_all
qed

lemma overflow_iff:
  "(sint (a + b + of_bool cin :: u32) \<noteq> sint a + sint b + of_bool cin) \<longleftrightarrow>
     carry_in31 a b cin \<noteq>
       (of_bool (carry_in31 a b cin) + of_bool (bit a 31) + of_bool (bit b 31) \<ge> (2::nat))"
proof -
  define A B where AB: "A = uint a mod 2 ^ 31" "B = uint b mod 2 ^ 31"
  then have bounds: "0 \<le> A" "A < 2 ^ 31" "0 \<le> B" "B < 2 ^ 31" by simp_all
  have a: "uint a = A + 2 ^ 31 * of_bool (bit a 31)" and b: "uint b = B + 2 ^ 31 * of_bool (bit b 31)"
    using split_top [of a] split_top [of b] by (simp_all add: AB)
  show ?thesis
    unfolding sint_31 bit31_iff [of "a + b + of_bool cin"] uint_sum Let_def carry_in31_def
      AB [symmetric] a b
    using bounds by (cases "bit a 31"; cases "bit b 31"; cases cin) auto
qed

text \<open>The two helpers compute the carry and the overflow of \<open>AddWithCarry\<close>.\<close>

lemma mcu_update_cflag_spec:
  "mcu_update_cflag a b (of_bool cin) m =
     set_reg REG_XPSR (put_bit 29 (fst (snd (AddWithCarry a b cin))) (regs m REG_XPSR)) m"
  by (simp only: mcu_update_cflag_carry31 AddWithCarry_def Let_def fst_conv snd_conv carry_out_iff)

lemma mcu_update_vflag_spec:
  "mcu_update_vflag a b (of_bool cin) m =
     set_reg REG_XPSR (put_bit 28 (snd (snd (AddWithCarry a b cin))) (regs m REG_XPSR)) m"
  by (simp only: mcu_update_vflag_carry31 AddWithCarry_def Let_def fst_conv snd_conv overflow_iff)

lemmas mcu_update_cv_eqs [flag_eqs] =
  mcu_update_cflag_spec [where cin = False, simplified] mcu_update_cflag_spec [where cin = True, simplified]
  mcu_update_vflag_spec [where cin = False, simplified] mcu_update_vflag_spec [where cin = True, simplified]

end
