(* ===== verification/Sim_Alu.thy ===== *)
theory Sim_Alu
  imports Sim_Flags Sim_Exec
begin

text \<open>
  The arithmetic instructions of the simulator refine the \<open>AddWithCarry\<close> semantics of the
  ARM manual, and the conditional branch after a comparison decides the relation its
  mnemonic names. The one condition that does not (\<open>ble\<close>) is characterised as it is.
\<close>

section \<open>Registers\<close>

lemma read_low [simp]: "r < 13 \<Longrightarrow> mcu_read_reg r m = regs m r"
  by (simp add: mcu_read_reg_def)

lemma write_low [simp]: "r < 13 \<Longrightarrow> mcu_write_reg r v m = set_reg r v m"
  by (simp add: mcu_write_reg_def)

lemma regs_set_reg [simp]: "regs (set_reg r v m) = (regs m)(r := v)"
  by (simp add: set_reg_def)

lemma set_reg_same [simp]: "set_reg r v (set_reg r w m) = set_reg r v m"
  by (simp add: set_reg_def)

lemma and7_less: "unat (x AND 7 :: u16) < 8"
  by (rule fld_less [where n = 0, simplified]) simp

lemma and7_low [simp]:
  "unat (x AND 7 :: u16) < 13" "unat (x AND 7 :: u16) < 16"
  "unat (x AND 7 :: u16) \<noteq> REG_XPSR" "REG_XPSR \<noteq> unat (x AND 7 :: u16)"
  using and7_less [of x] by simp_all

section \<open>Reference semantics\<close>

definition put_nzcv :: "bool \<Rightarrow> bool \<Rightarrow> bool \<Rightarrow> bool \<Rightarrow> u32 \<Rightarrow> u32" where
  "put_nzcv n z c v x = put_bit 28 v (put_bit 29 c (put_bit 30 z (put_bit 31 n x)))"

text \<open>
  The reference step of a flag-setting addition: \<open>AddWithCarry\<close>, the result into the
  destination if there is one, and all four flags from it.
\<close>

definition ref_add :: "nat option \<Rightarrow> u32 \<Rightarrow> u32 \<Rightarrow> bool \<Rightarrow> mcu \<Rightarrow> mcu" where
  "ref_add dest a b cin m =
     (case AddWithCarry a b cin of
        (r, c, v) \<Rightarrow>
          (let m = (case dest of None \<Rightarrow> m | Some d \<Rightarrow> set_reg d r m)
           in set_reg REG_XPSR (put_nzcv (bit r 31) (r = 0) c v (regs m REG_XPSR)) m))"

lemma fst_AddWithCarry: "fst (AddWithCarry a b cin) = a + b + of_bool cin"
  by (simp add: AddWithCarry_def Let_def)

lemma ref_add_unfold:
  "ref_add dest a b cin m =
     (let r = a + b + of_bool cin; m = (case dest of None \<Rightarrow> m | Some d \<Rightarrow> set_reg d r m)
      in set_reg REG_XPSR
           (put_nzcv (bit r 31) (r = 0) (fst (snd (AddWithCarry a b cin)))
             (snd (snd (AddWithCarry a b cin))) (regs m REG_XPSR)) m)"
  by (simp add: ref_add_def AddWithCarry_def Let_def)

lemma sub_as_add: "a + NOT b + 1 = a - (b :: u32)"
  by (simp add: minus_eq_not_plus_1)

lemma put_bit_28_29: "put_bit 29 c (put_bit 28 v x) = put_bit 28 v (put_bit 29 c x)"
  by (rule put_bit_swap) simp

lemmas alu_simps =
  instr_defs flag_eqs ref_add_unfold put_nzcv_def Let_def sub_as_add put_bit_28_29

lemma adds_refine:
  "instr_ADD1 i m = (True, ref_add (Some (fld i 0 7)) (regs m (fld i 3 7)) (imm i 6 7) False m)"
  "instr_ADD2 i m = (True, ref_add (Some (fld i 8 7)) (regs m (fld i 8 7)) (imm i 0 0xFF) False m)"
  "instr_ADD3 i m =
     (True, ref_add (Some (fld i 0 7)) (regs m (fld i 3 7)) (regs m (fld i 6 7)) False m)"
  by (simp_all add: alu_simps)

lemma subs_refine:
  "instr_SUB1 i m =
     (True, ref_add (Some (fld i 0 7)) (regs m (fld i 3 7)) (NOT (imm i 6 7)) True m)"
  "instr_SUB2 i m =
     (True, ref_add (Some (fld i 8 7)) (regs m (fld i 8 7)) (NOT (imm i 0 0xFF)) True m)"
  "instr_SUB3 i m =
     (True, ref_add (Some (fld i 0 7)) (regs m (fld i 3 7)) (NOT (regs m (fld i 6 7))) True m)"
  by (simp_all add: alu_simps)

lemma cmps_refine:
  "instr_CMP1 i m = (True, ref_add None (regs m (fld i 8 7)) (NOT (imm i 0 0xFF)) True m)"
  "instr_CMP2 i m = (True, ref_add None (regs m (fld i 0 7)) (NOT (regs m (fld i 3 7))) True m)"
  by (simp_all add: alu_simps)

lemma neg_sbc_refine:
  "instr_NEG i m = (True, ref_add (Some (fld i 0 7)) 0 (NOT (regs m (fld i 3 7))) True m)"
  "instr_SBC i m =
     (True, ref_add (Some (fld i 0 7)) (regs m (fld i 0 7)) (NOT (regs m (fld i 3 7)))
        (bit (regs m REG_XPSR) 29) m)"
proof -
  show "instr_NEG i m = (True, ref_add (Some (fld i 0 7)) 0 (NOT (regs m (fld i 3 7))) True m)"
    by (simp add: alu_simps sub_as_add [of 0, simplified])
  have borrow: "a + NOT b = a - b - (1 :: u32)" for a b
    by (simp add: not_eq_complement)
  show "instr_SBC i m =
     (True, ref_add (Some (fld i 0 7)) (regs m (fld i 0 7)) (NOT (regs m (fld i 3 7)))
        (bit (regs m REG_XPSR) 29) m)"
    by (simp add: alu_simps borrow read_apsr bit_and_iff bit_put_bit bit_status_mask)
qed

section \<open>Conditions after a comparison\<close>

lemma uint32_bounds: "0 \<le> uint (a :: u32)" "uint (a :: u32) < 2 ^ 32"
  using unsigned_less [of a, where ?'a = int] by simp_all

lemma uint_not: "uint (NOT b :: u32) = 2 ^ 32 - 1 - uint b"
proof -
  have "NOT b = - 1 - b" by (simp add: not_eq_complement)
  then show ?thesis by (simp only: uint_sub_if') (use uint32_bounds [of b] in \<open>simp add: unsigned_minus_1_eq_mask mask_eq_exp_minus_1\<close>)
qed

lemma carry_of_sub: "fst (snd (AddWithCarry a (NOT b) True)) \<longleftrightarrow> b \<le> a"
  using uint_sum [of a "NOT b" True] uint32_bounds [of a] uint32_bounds [of b]
  by (simp add: AddWithCarry_def Let_def uint_not word_le_def)

lemma sint_not: "sint (NOT b :: u32) = - sint b - 1"
  using uint32_bounds [of b] by (simp add: sint_31 bit31_iff uint_not bit_not_iff)

lemma signed_less_int:
  fixes A B D :: int
  assumes "0 \<le> A" "A < 2 * M" "0 \<le> B" "B < 2 * M"
    and "D = (if B \<le> A then A - B else A - B + 2 * M)"
  defines "s \<equiv> \<lambda>x. if M \<le> x then x - 2 * M else x"
  shows "(M \<le> D) \<noteq> (s D \<noteq> s A - s B) \<longleftrightarrow> s A < s B"
  using assms(1-5) unfolding s_def
  by (cases "B \<le> A"; cases "M \<le> A"; cases "M \<le> B"; cases "M \<le> D") simp_all

lemma sint_cases: "sint (a :: u32) = (if 2 ^ 31 \<le> uint a then uint a - 2 * 2 ^ 31 else uint a)"
  by (simp add: sint_31 bit31_iff)

lemma less_of_sub:
  "bit (a - b) 31 \<noteq> snd (snd (AddWithCarry a (NOT b) True)) \<longleftrightarrow> sint a < sint b"
proof -
  have v: "snd (snd (AddWithCarry a (NOT b) True)) \<longleftrightarrow> sint (a - b) \<noteq> sint a - sint b"
    by (simp add: AddWithCarry_def Let_def sub_as_add sint_not)
  have d: "uint (a - b) =
      (if uint b \<le> uint a then uint a - uint b else uint a - uint b + 2 * 2 ^ 31)"
    by (simp add: uint_sub_if')
  show ?thesis
    unfolding v bit31_iff sint_cases
    by (rule signed_less_int [OF _ _ _ _ d]) (use uint32_bounds in simp_all)
qed

text \<open>
  The conditions, read from the status register a comparison of \<open>a\<close> with \<open>b\<close> leaves. The
  manual's name of each condition is in the comment of the corresponding \<open>case\<close>.
\<close>

definition after_cmp :: "u32 \<Rightarrow> u32 \<Rightarrow> mcu \<Rightarrow> u32" where
  "after_cmp a b m = mcu_read_reg REG_APSR (ref_add None a (NOT b) True m)"

lemma after_cmp_flags:
  "bit (after_cmp a b m) 31 \<longleftrightarrow> bit (a - b) 31"
  "bit (after_cmp a b m) 30 \<longleftrightarrow> a = b"
  "bit (after_cmp a b m) 29 \<longleftrightarrow> b \<le> a"
  "bit (after_cmp a b m) 28 \<longleftrightarrow> (bit (a - b) 31 \<noteq> (sint a < sint b))"
  using less_of_sub [of a b]
  by (auto simp: after_cmp_def read_apsr ref_add_unfold Let_def put_nzcv_def sub_as_add
      bit_put_bit bit_and_iff bit_status_mask carry_of_sub)

lemma unsigned_conditions:
  "branch_cond 0x0 (after_cmp a b m) \<longleftrightarrow> a = b"
  "branch_cond 0x1 (after_cmp a b m) \<longleftrightarrow> a \<noteq> b"
  "branch_cond 0x2 (after_cmp a b m) \<longleftrightarrow> b \<le> a"
  "branch_cond 0x3 (after_cmp a b m) \<longleftrightarrow> a < b"
  "branch_cond 0x8 (after_cmp a b m) \<longleftrightarrow> b < a"
  "branch_cond 0x9 (after_cmp a b m) \<longleftrightarrow> a \<le> b"
  by (auto simp: branch_cond_def Let_def after_cmp_flags)

lemma signed_conditions:
  "branch_cond 0xA (after_cmp a b m) \<longleftrightarrow> sint b \<le> sint a"
  "branch_cond 0xB (after_cmp a b m) \<longleftrightarrow> sint a < sint b"
  "branch_cond 0xC (after_cmp a b m) \<longleftrightarrow> sint b < sint a"
proof -
  have "sint a = sint b \<longleftrightarrow> a = b" by (auto intro: signed_word_eqI)
  then show "branch_cond 0xA (after_cmp a b m) \<longleftrightarrow> sint b \<le> sint a"
    "branch_cond 0xB (after_cmp a b m) \<longleftrightarrow> sint a < sint b"
    "branch_cond 0xC (after_cmp a b m) \<longleftrightarrow> sint b < sint a"
    by (auto simp: branch_cond_def Let_def after_cmp_flags)
qed

text \<open>\<open>ble\<close> is taken when \<open>N = V\<close>, that is, exactly when \<open>bge\<close> is.\<close>

lemma ble_condition: "branch_cond 0xD (after_cmp a b m) \<longleftrightarrow> sint b \<le> sint a"
  by (auto simp: branch_cond_def Let_def after_cmp_flags)

section \<open>Properties\<close>

text \<open>
  C2. The flag-setting additions and subtractions compute what the ARM manual specifies by
  \<open>AddWithCarry\<close>: result and all four condition flags, for ADD (1)-(3), SUB (1)-(3), CMP
  (1)-(2), NEG and SBC, whatever the operands and whichever registers coincide.
\<close>

theorem arithmetic_refines_manual:
  "instr_ADD1 i m = (True, ref_add (Some (fld i 0 7)) (regs m (fld i 3 7)) (imm i 6 7) False m)
   \<and> instr_ADD2 i m = (True, ref_add (Some (fld i 8 7)) (regs m (fld i 8 7)) (imm i 0 0xFF) False m)
   \<and> instr_ADD3 i m =
       (True, ref_add (Some (fld i 0 7)) (regs m (fld i 3 7)) (regs m (fld i 6 7)) False m)
   \<and> instr_SUB1 i m =
       (True, ref_add (Some (fld i 0 7)) (regs m (fld i 3 7)) (NOT (imm i 6 7)) True m)
   \<and> instr_SUB2 i m =
       (True, ref_add (Some (fld i 8 7)) (regs m (fld i 8 7)) (NOT (imm i 0 0xFF)) True m)
   \<and> instr_SUB3 i m =
       (True, ref_add (Some (fld i 0 7)) (regs m (fld i 3 7)) (NOT (regs m (fld i 6 7))) True m)
   \<and> instr_CMP1 i m = (True, ref_add None (regs m (fld i 8 7)) (NOT (imm i 0 0xFF)) True m)
   \<and> instr_CMP2 i m = (True, ref_add None (regs m (fld i 0 7)) (NOT (regs m (fld i 3 7))) True m)
   \<and> instr_NEG i m = (True, ref_add (Some (fld i 0 7)) 0 (NOT (regs m (fld i 3 7))) True m)
   \<and> instr_SBC i m =
       (True, ref_add (Some (fld i 0 7)) (regs m (fld i 0 7)) (NOT (regs m (fld i 3 7)))
          (bit (regs m REG_XPSR) 29) m)"
  by (intro conjI adds_refine subs_refine cmps_refine neg_sbc_refine)

text \<open>
  C12. After \<open>CMP Rn, Rm\<close> the conditional branch decides the relation its condition names, for every
  condition that names one but LE: EQ, NE, the unsigned HS, LO, HI, LS and the signed GE, LT, GT are
  equality, order of the unsigned and order of the signed values of the two registers. LE is wrong, as
  \<open>ble_taken_iff_ge\<close> below shows.
\<close>

theorem compare_and_branch:
  "let a = regs m (fld i 0 7); b = regs m (fld i 3 7);
       flags = mcu_read_reg REG_APSR (snd (instr_CMP2 i m))
   in (branch_cond 0x0 flags \<longleftrightarrow> a = b) \<and> (branch_cond 0x1 flags \<longleftrightarrow> a \<noteq> b)
     \<and> (branch_cond 0x2 flags \<longleftrightarrow> b \<le> a) \<and> (branch_cond 0x3 flags \<longleftrightarrow> a < b)
     \<and> (branch_cond 0x8 flags \<longleftrightarrow> b < a) \<and> (branch_cond 0x9 flags \<longleftrightarrow> a \<le> b)
     \<and> (branch_cond 0xA flags \<longleftrightarrow> b \<le>s a) \<and> (branch_cond 0xB flags \<longleftrightarrow> a <s b)
     \<and> (branch_cond 0xC flags \<longleftrightarrow> b <s a)"
proof -
  have "mcu_read_reg REG_APSR (snd (instr_CMP2 i m)) =
      after_cmp (regs m (fld i 0 7)) (regs m (fld i 3 7)) m"
    by (simp add: cmps_refine after_cmp_def)
  then show ?thesis
    using unsigned_conditions [of "regs m (fld i 0 7)" "regs m (fld i 3 7)" m]
      signed_conditions [of "regs m (fld i 0 7)" "regs m (fld i 3 7)" m]
    unfolding Let_def word_sle_eq word_sless_alt by simp
qed

text \<open>
  BLE is wrong: after \<open>CMP Rn, Rm\<close> the branch is taken exactly when the signed value
  of Rn is greater than or equal to that of Rm, that is, like BGE and never for a strictly
  smaller Rn.
\<close>

theorem ble_taken_iff_ge:
  "branch_cond 0xD (mcu_read_reg REG_APSR (snd (instr_CMP2 i m))) \<longleftrightarrow>
     regs m (fld i 3 7) \<le>s regs m (fld i 0 7)"
  using ble_condition [of "regs m (fld i 0 7)" "regs m (fld i 3 7)" m]
  by (simp add: cmps_refine after_cmp_def word_sle_eq)

end
