(* ===== verification/Sim_Shift.thy ===== *)
theory Sim_Shift
  imports Sim_Alu
begin

text \<open>
  The shift instructions of the simulator against the \<open>LSL_C\<close>, \<open>LSR_C\<close> and \<open>ASR_C\<close>
  functions of the ARM manual, which shift an unbounded integer and read the carry from the
  bit that falls out; byte reversal; and the PC-relative target of a 32 bit BL.
\<close>

section \<open>Reference semantics\<close>

definition LSL_C :: "u32 \<Rightarrow> nat \<Rightarrow> u32 \<times> bool" where
  "LSL_C x n = (word_of_int (uint x * 2 ^ n), bit (uint x * 2 ^ n) 32)"

definition LSR_C :: "u32 \<Rightarrow> nat \<Rightarrow> u32 \<times> bool" where
  "LSR_C x n = (word_of_int (uint x div 2 ^ n), bit (uint x) (n - 1))"

definition ASR_C :: "u32 \<Rightarrow> nat \<Rightarrow> u32 \<times> bool" where
  "ASR_C x n = (word_of_int (sint x div 2 ^ n), bit (sint x) (n - 1))"

definition ref_shift :: "nat \<Rightarrow> u32 \<times> bool \<Rightarrow> mcu \<Rightarrow> mcu" where
  "ref_shift d rc m =
     (let m = set_reg d (fst rc) m
      in set_reg REG_XPSR (put_bit 29 (snd rc)
           (put_bit 30 (fst rc = 0) (put_bit 31 (bit (fst rc) 31) (regs m REG_XPSR)))) m)"

lemma bit_u32_less: "bit (x :: u32) k \<Longrightarrow> k < 32"
  using bit_imp_le_length [of x k] by simp

lemma bit_sint_min: "bit (sint (x :: u32)) k \<longleftrightarrow> bit x (min 31 k)"
  by (simp add: sint_uint bit_signed_take_bit_iff bit_uint_iff min.commute min_less_iff_disj)

lemma LSL_C_bits:
  "LSL_C x n = (push_bit n x, n \<le> 32 \<and> bit x (32 - n))"
  using bit_u32_less [of x "32 - n"]
  by (auto simp: LSL_C_def push_bit_eq_mult [symmetric] bit_push_bit_iff bit_uint_iff
      intro!: bit_word_eqI simp: bit_simps)

lemma LSR_C_bits: "LSR_C x n = (drop_bit n x, bit x (n - 1))"
  by (auto simp: LSR_C_def drop_bit_eq_div [symmetric] bit_uint_iff
      intro!: bit_word_eqI simp: bit_simps dest: bit_u32_less)

lemma ASR_C_bits: "ASR_C x n = (signed_drop_bit n x, bit x (min 31 (n - 1)))"
proof -
  have "word_of_int (drop_bit n (sint x)) = signed_drop_bit n x"
  proof (rule bit_word_eqI)
    fix k assume "k < LENGTH(32)"
    moreover have "32 - n \<le> k \<Longrightarrow> min 31 (n + k) = 31" "\<not> 32 - n \<le> k \<Longrightarrow> min 31 (n + k) = n + k"
      by simp_all
    ultimately show "bit (word_of_int (drop_bit n (sint x)) :: u32) k = bit (signed_drop_bit n x) k"
      by (cases "32 - n \<le> k")
        (simp_all add: bit_word_of_int_iff bit_drop_bit_eq bit_sint_min bit_signed_drop_bit_iff)
  qed
  then show ?thesis by (simp add: ASR_C_def drop_bit_eq_div bit_sint_min)
qed

text \<open>The code's arithmetic shift: a logical shift with the sign copied into the top bits.\<close>

lemma asr_fill:
  assumes "0 < n" "n < 32"
  shows "(if bit a 31 then drop_bit n a OR push_bit (32 - n) (NOT 0) else drop_bit n a) =
     (signed_drop_bit n a :: u32)"
  using assms
  by (intro bit_word_eqI)
    (auto simp: bit_simps min_def dest: bit_imp_le_length)

lemma and_bit_simps:
  "a AND 2 ^ k = 0 \<longleftrightarrow> \<not> bit a k" "a AND 0x80000000 = 0 \<longleftrightarrow> \<not> bit a 31"
  "a AND 1 = 0 \<longleftrightarrow> \<not> bit a 0" for a :: u32
  using and_exp_eq_0_iff [of a k] and_exp_eq_0_iff [of a 31] and_exp_eq_0_iff [of a 0]
  by simp_all

lemma shift5_less: "fld i 6 0x1F < 32" for i :: u16
  by (rule fld_less) simp

lemma put_bit_carry_first:
  "put_bit 30 z (put_bit 31 n (put_bit 29 c x)) = put_bit 29 c (put_bit 30 z (put_bit 31 n x))"
  by (rule bit_word_eqI) (simp add: bit_put_bit)

lemma flags_after_shift:
  assumes "d < 13"
  shows "mcu_update_zflag r (mcu_update_nflag r (set_reg d r (mcu_update_cflag_bit v m))) =
     ref_shift d (r, v \<noteq> 0) m"
  using assms
  by (simp add: flag_eqs ref_shift_def Let_def set_reg_def put_bit_carry_first fun_upd_twist)

section \<open>Immediate shifts\<close>

lemma lsl1_refine:
  assumes "fld i 6 0x1F \<noteq> 0"
  shows "instr_LSL1 i m =
     (True, ref_shift (fld i 0 7) (LSL_C (regs m (fld i 3 7)) (fld i 6 0x1F)) m)"
  using assms shift5_less [of i]
  by (simp add: instr_LSL1_def Let_def flags_after_shift LSL_C_bits and_bit_simps)

lemma lsr1_refine:
  "instr_LSR1 i m =
     (True, ref_shift (fld i 0 7)
        (LSR_C (regs m (fld i 3 7)) (if fld i 6 0x1F = 0 then 32 else fld i 6 0x1F)) m)"
  by (simp add: instr_LSR1_def Let_def flags_after_shift LSR_C_bits and_bit_simps)

lemma asr1_refine:
  "instr_ASR1 i m =
     (True, ref_shift (fld i 0 7)
        (ASR_C (regs m (fld i 3 7)) (if fld i 6 0x1F = 0 then 32 else fld i 6 0x1F)) m)"
proof (cases "fld i 6 0x1F = 0")
  case True
  have "signed_drop_bit 32 a = (if bit a 31 then NOT 0 else 0)" for a :: u32
    by (rule bit_word_eqI) (simp add: bit_signed_drop_bit_iff)
  with True show ?thesis
    by (simp add: instr_ASR1_def Let_def flags_after_shift ASR_C_bits)
next
  case False
  with shift5_less [of i] show ?thesis
    by (simp add: instr_ASR1_def Let_def flags_after_shift ASR_C_bits and_bit_simps asr_fill [symmetric]
        min_def)
qed

section \<open>Shifts by a register\<close>

lemma shift_reg_refine:
  assumes "unat (regs m (fld i 3 7) AND 0xFF) = n" "0 < n"
  shows "instr_LSL2 i m = (True, ref_shift (fld i 0 7) (LSL_C (regs m (fld i 0 7)) n) m)"
    and "instr_LSR2 i m = (True, ref_shift (fld i 0 7) (LSR_C (regs m (fld i 0 7)) n) m)"
proof -
  have big: "\<not> bit (regs m r) (n - 1)" if "\<not> n < 32" "n \<noteq> 32" for r
    using that bit_u32_less [of "regs m r" "n - 1"] by linarith
  show "instr_LSL2 i m = (True, ref_shift (fld i 0 7) (LSL_C (regs m (fld i 0 7)) n) m)"
    using assms
    by (auto simp: instr_LSL2_def Let_def flags_after_shift LSL_C_bits and_bit_simps)
  show "instr_LSR2 i m = (True, ref_shift (fld i 0 7) (LSR_C (regs m (fld i 0 7)) n) m)"
    using assms(2) big [of "fld i 0 7"]
    by (simp add: instr_LSR2_def Let_def flags_after_shift LSR_C_bits and_bit_simps assms(1))
qed

section \<open>Byte reversal\<close>

lemma rev_bytes_alt:
  "rev_bytes a =
     push_bit 24 (take_bit 8 a) OR push_bit 16 (take_bit 8 (drop_bit 8 a))
     OR push_bit 8 (take_bit 8 (drop_bit 16 a)) OR take_bit 8 (drop_bit 24 a)"
  by (simp add: rev_bytes_def take_bit_eq_mask mask_eq_exp_minus_1)

lemma bit_rev_bytes:
  "n < 32 \<Longrightarrow> bit (rev_bytes a) n \<longleftrightarrow> bit a (24 - 8 * (n div 8) + n mod 8)"
proof -
  assume n: "n < 32"
  then consider "n < 8" | "8 \<le> n \<and> n < 16" | "16 \<le> n \<and> n < 24" | "24 \<le> n" by linarith
  then show ?thesis
  proof cases
    case 1
    then show ?thesis by (simp add: rev_bytes_alt bit_simps add.commute)
  next
    case 2
    then have "n div 8 = 1" by (simp add: div_nat_eqI)
    moreover from this have "n mod 8 = n - 8" using mult_div_mod_eq [of 8 n] by simp
    ultimately show ?thesis using 2 by (auto simp: rev_bytes_alt bit_simps)
  next
    case 3
    then have "n div 8 = 2" by (simp add: div_nat_eqI)
    moreover from this have "n mod 8 = n - 16" using mult_div_mod_eq [of 8 n] by simp
    ultimately show ?thesis using 3 by (auto simp: rev_bytes_alt bit_simps)
  next
    case 4
    then have "n div 8 = 3" using n by (simp add: div_nat_eqI)
    moreover from this have "n mod 8 = n - 24" using mult_div_mod_eq [of 8 n] by simp
    ultimately show ?thesis using 4 n by (auto simp: rev_bytes_alt bit_simps)
  qed
qed

lemma rev_bytes_twice: "rev_bytes (rev_bytes a) = a"
proof (rule bit_word_eqI)
  fix n assume "n < LENGTH(32)"
  then have n: "n < 32" "n div 8 \<le> 3" by simp_all
  define k where "k = 24 - 8 * (n div 8) + n mod 8"
  have k: "k < 32" "24 - 8 * (k div 8) + k mod 8 = n"
  proof -
    obtain q s where qs: "n = 8 * q + s" "s < 8" "q \<le> 3"
      using n(2) mult_div_mod_eq [of 8 n] mod_less_divisor [of 8 n] by (metis zero_less_numeral)
    then have "k = 8 * (3 - q) + s" by (simp add: k_def)
    with qs show "k < 32" "24 - 8 * (k div 8) + k mod 8 = n" by simp_all
  qed
  have "bit (rev_bytes (rev_bytes a)) n = bit (rev_bytes a) k"
    unfolding k_def by (rule bit_rev_bytes [OF n(1)])
  also have "\<dots> = bit a n" using bit_rev_bytes [OF k(1)] k(2) by simp
  finally show "bit (rev_bytes (rev_bytes a)) n = bit a n" .
qed

section \<open>Properties\<close>

text \<open>
  The shifts by a register agree with the manual's \<open>LSL_C\<close> and \<open>LSR_C\<close> (result, N, Z and
  the carry from the last bit shifted out) for every shift amount from 1 to 255, including
  the cases 32 and above that C cannot express as one shift.
\<close>

theorem register_shifts_refine_manual:
  assumes "n = unat (regs m (fld i 3 7) AND 0xFF)" "0 < n"
  shows "instr_LSL2 i m = (True, ref_shift (fld i 0 7) (LSL_C (regs m (fld i 0 7)) n) m)
     \<and> instr_LSR2 i m = (True, ref_shift (fld i 0 7) (LSR_C (regs m (fld i 0 7)) n) m)"
  using shift_reg_refine [OF assms(1) [symmetric] assms(2)] by simp

theorem register_shifts_refine_manual_witness:
  "instr_LSL2 0x4088 (set_reg 1 33 demo_mcu) =
     (True, ref_shift 0 (LSL_C 0 33) (set_reg 1 33 demo_mcu))"
  using register_shifts_refine_manual [where i = "0x4088" and m = "set_reg 1 33 demo_mcu" and n = 33]
  by (simp add: demo_regs)

text \<open>
  The immediate shifts agree with the manual, with the encoding of a shift by 32 as 0:
  LSL by 1 to 31, LSR and ASR by 1 to 32, the last with the sign copied from bit 31.
\<close>

theorem immediate_shifts_refine_manual:
  "(fld i 6 0x1F \<noteq> 0 \<longrightarrow> instr_LSL1 i m =
      (True, ref_shift (fld i 0 7) (LSL_C (regs m (fld i 3 7)) (fld i 6 0x1F)) m))
   \<and> instr_LSR1 j m = (True, ref_shift (fld j 0 7)
        (LSR_C (regs m (fld j 3 7)) (if fld j 6 0x1F = 0 then 32 else fld j 6 0x1F)) m)
   \<and> instr_ASR1 k m = (True, ref_shift (fld k 0 7)
        (ASR_C (regs m (fld k 3 7)) (if fld k 6 0x1F = 0 then 32 else fld k 6 0x1F)) m)"
  using lsl1_refine lsr1_refine asr1_refine by blast

theorem immediate_shifts_refine_manual_witness:
  "instr_LSL1 0x0048 demo_mcu = (True, ref_shift 0 (LSL_C 0 1) demo_mcu)"
  using immediate_shifts_refine_manual [where i = "0x0048" and m = demo_mcu] by (simp add: demo_regs)

end
