(* ===== verification/Sim_Gdb.thy ===== *)
theory Sim_Gdb
  imports Sim_Memory
begin

text \<open>
  The debugger stub of the simulator: \<^verbatim>\<open>src/tools/simulator/core/gdb.c\<close>.

  \<^item> \<open>gdb\<close> is \<open>struct gdb\<close>: \<open>connected\<close> is \<open>gdb_fd >= 0\<close>, the receive buffer is the list of its
    4096 bytes and how many of them are filled. The peer is what it has been sent (\<open>gout\<close>) and the
    number of \<open>write\<close> calls that still succeed; a call writes all of its bytes or fails.
  \<^item> The events of the socket are arguments of the callbacks. Creating the listening socket,
    diagnostics and the empty \<open>gdb_write_callback\<close> have no model.
  \<^item> \<open>char\<close> is signed on the host. \<open>strtol\<close>, \<open>strlen\<close> and \<open>memmove\<close> are those of the C library.
  \<^item> The registered callback \<open>gdb_mcu_did_halt\<close> runs inside \<open>mcu_halt\<close>; the machine of
    \<^verbatim>\<open>Sim_Mcu\<close> collects these calls in \<open>did_halt\<close>, and \<open>gdb_mcu_op\<close> performs the new ones.
\<close>

section \<open>Sending\<close>

record gdb =
  gmcu :: mcu
  connected :: bool
  rev_buffer :: "u8 list"
  rev_buffer_filled :: nat
  packet_checksum :: u8
  writes_left :: nat
  gout :: "u8 list"

definition ascii :: "string \<Rightarrow> u8 list" where
  "ascii s = map (\<lambda>c. of_nat (of_char c)) s"

definition gdb_client_close :: "gdb \<Rightarrow> gdb" where
  "gdb_client_close g = g\<lparr>connected := False, rev_buffer_filled := 0\<rparr>"

definition gdb_client_error :: "gdb \<Rightarrow> gdb" where
  "gdb_client_error g = gdb_client_close g"

text \<open>\<open>write\<close> to the socket with the error path all senders share.\<close>

definition gdb_write :: "u8 list \<Rightarrow> gdb \<Rightarrow> bool \<times> gdb" where
  "gdb_write bs g =
     (if connected g \<and> writes_left g > 0
      then (True, g\<lparr>writes_left := writes_left g - 1, gout := gout g @ bs\<rparr>)
      else (False, gdb_client_error g))"

definition gdb_send_ack :: "gdb \<Rightarrow> bool \<times> gdb" where
  "gdb_send_ack g = gdb_write [0x2B, 0x0A] g"

definition gdb_send_nack :: "gdb \<Rightarrow> bool \<times> gdb" where
  "gdb_send_nack g = gdb_write [0x2D, 0x0A] g"

definition gdb_send_packet_begin :: "gdb \<Rightarrow> bool \<times> gdb" where
  "gdb_send_packet_begin g = gdb_write [0x24] (g\<lparr>packet_checksum := 0\<rparr>)"

definition gdb_send_packet_char :: "u8 \<Rightarrow> gdb \<Rightarrow> bool \<times> gdb" where
  "gdb_send_packet_char c g =
     (let (ok, c, g) =
        (if c = 0x24 \<or> c = 0x23 \<or> c = 0x7D
         then let (ok, g) = gdb_write [0x7D] (g\<lparr>packet_checksum := packet_checksum g + 0x7D\<rparr>)
              in (ok, c XOR 0x20, g)
         else (True, c, g))
      in if \<not> ok then (False, g)
         else gdb_write [c] (g\<lparr>packet_checksum := packet_checksum g + c\<rparr>))"

fun gdb_send_packet_str :: "u8 list \<Rightarrow> gdb \<Rightarrow> bool \<times> gdb" where
  "gdb_send_packet_str [] g = (True, g)"
| "gdb_send_packet_str (c # s) g =
     (let (ok, g) = gdb_send_packet_char c g
      in if \<not> ok then (False, g) else gdb_send_packet_str s g)"

definition TO_HEX :: "u8 \<Rightarrow> u8" where
  "TO_HEX i = (if i \<le> 9 then 0x30 + i else 0x61 - 10 + i)"

text \<open>The loop of \<open>gdb_send_packet_hex\<close> with \<open>n\<close> bytes to go, from byte \<open>i\<close> on.\<close>

fun send_hex_loop :: "nat \<Rightarrow> nat \<Rightarrow> u32 \<Rightarrow> gdb \<Rightarrow> bool \<times> gdb" where
  "send_hex_loop i 0 number g = (True, g)"
| "send_hex_loop i (Suc n) number g =
     (let c = ucast (drop_bit (i * 8) number AND 0xFF) :: u8;
          (ok, g) = gdb_send_packet_str [TO_HEX (drop_bit 4 c AND 0xF), TO_HEX (c AND 0xF)] g
      in if \<not> ok then (False, g) else send_hex_loop (i + 1) n number g)"

definition gdb_send_packet_hex :: "u32 \<Rightarrow> nat \<Rightarrow> gdb \<Rightarrow> bool \<times> gdb" where
  "gdb_send_packet_hex number len g = send_hex_loop 0 len number g"

definition gdb_send_packet_end :: "gdb \<Rightarrow> bool \<times> gdb" where
  "gdb_send_packet_end g =
     (let (ok, g) = gdb_write [0x23] g
      in if \<not> ok then (False, g) else gdb_send_packet_hex (ucast (packet_checksum g)) 1 g)"

text \<open>A packet with a given text; the handler ignores the results of the senders.\<close>

definition gdb_reply :: "u8 list \<Rightarrow> gdb \<Rightarrow> gdb" where
  "gdb_reply s g = snd (gdb_send_packet_end (snd (gdb_send_packet_str s (snd (gdb_send_packet_begin g)))))"

section \<open>The machine\<close>

definition gdb_mcu_did_halt :: "int \<Rightarrow> gdb \<Rightarrow> gdb" where
  "gdb_mcu_did_halt reason g =
     (if reason \<ge> 0 \<and> connected g
      then snd (gdb_send_packet_end
                 (snd (gdb_send_packet_hex (of_int reason) 1
                   (snd (gdb_send_packet_str [0x53] (snd (gdb_send_packet_begin g)))))))
      else g)"

text \<open>The number of the stub among the callbacks registered with the machine.\<close>

abbreviation gdb_cb :: nat where "gdb_cb \<equiv> 1"

definition gdb_mcu_op :: "(mcu \<Rightarrow> mcu) \<Rightarrow> gdb \<Rightarrow> gdb" where
  "gdb_mcu_op f g =
     (let m = f (gmcu g);
          calls = filter (\<lambda>(cb, reason). cb = gdb_cb) (drop (length (did_halt (gmcu g))) (did_halt m))
      in fold (\<lambda>(cb, reason). gdb_mcu_did_halt reason) calls (g\<lparr>gmcu := m\<rparr>))"

text \<open>In \<open>val | c\<close> the signed \<open>char\<close> is sign extended.\<close>

definition gdb_mcu_write_byte :: "u32 \<Rightarrow> u8 \<Rightarrow> mcu \<Rightarrow> bool \<times> mcu" where
  "gdb_mcu_write_byte addr c m =
     (case mcu_fetch16 (addr AND NOT 1) m of
        None \<Rightarrow> (False, m)
      | Some val \<Rightarrow>
          mcu_write16 (addr AND NOT 1)
            (if bit addr 0 then (val AND 0x00FF) OR push_bit 8 (scast c)
             else (val AND 0xFF00) OR scast c) m)"

definition gdb_mcu_fetch_byte :: "u32 \<Rightarrow> mcu \<Rightarrow> u8 option" where
  "gdb_mcu_fetch_byte addr m =
     (case mcu_fetch16 (addr AND NOT 1) m of
        None \<Rightarrow> None
      | Some val \<Rightarrow>
          Some (if bit addr 0 then ucast (drop_bit 8 (val AND 0xFF00)) else ucast (val AND 0x00FF)))"

section \<open>Numbers in packets\<close>

text \<open>\<open>strtol\<close> of the C library in base 16: the value, clamped to a 64 bit \<open>long\<close>, and the rest.\<close>

definition hex_digit :: "u8 \<Rightarrow> nat option" where
  "hex_digit c =
     (if 0x30 \<le> c \<and> c \<le> 0x39 then Some (unat (c - 0x30))
      else if 0x41 \<le> c \<and> c \<le> 0x46 then Some (unat (c - 0x41) + 10)
      else if 0x61 \<le> c \<and> c \<le> 0x66 then Some (unat (c - 0x61) + 10)
      else None)"

fun hex_digits :: "u8 list \<Rightarrow> nat \<Rightarrow> nat \<times> u8 list" where
  "hex_digits [] n = (n, [])"
| "hex_digits (c # s) n =
     (case hex_digit c of None \<Rightarrow> (n, c # s) | Some d \<Rightarrow> hex_digits s (n * 16 + d))"

definition is_space :: "u8 \<Rightarrow> bool" where
  "is_space c = (c = 0x20 \<or> 9 \<le> c \<and> c \<le> 13)"

definition strtol16 :: "u8 list \<Rightarrow> int \<times> u8 list" where
  "strtol16 s =
     (let t = dropWhile is_space s;
          neg = (t \<noteq> [] \<and> hd t = 0x2D);
          t = (if t \<noteq> [] \<and> (hd t = 0x2D \<or> hd t = 0x2B) then tl t else t);
          t = (case t of
                 a # b # c # r \<Rightarrow>
                   if a = 0x30 \<and> (b = 0x78 \<or> b = 0x58) \<and> hex_digit c \<noteq> None then c # r else t
               | _ \<Rightarrow> t)
      in if t = [] \<or> hex_digit (hd t) = None then (0, s)
         else let (n, rest) = hex_digits t 0
              in (if neg then max (- int n) (- (2 ^ 63)) else min (int n) (2 ^ 63 - 1), rest))"

abbreviation to_u32 :: "int \<Rightarrow> u32" where "to_u32 \<equiv> word_of_int"

section \<open>Accepting a packet\<close>

text \<open>The checksum loop over the first \<open>len\<close> bytes: the index of the \<open>#\<close> and the sum.\<close>

fun checksum_loop :: "u8 list \<Rightarrow> nat \<Rightarrow> nat \<Rightarrow> u8 \<Rightarrow> nat \<times> u8" where
  "checksum_loop (c # pk) len i acc =
     (if c \<noteq> 0x23 \<and> i < len then checksum_loop pk len (i + 1) (acc + c) else (i, acc))"
| "checksum_loop [] len i acc = (i, acc)"

definition strlen_list :: "u8 list \<Rightarrow> nat" where
  "strlen_list pk = length (takeWhile (\<lambda>c. c \<noteq> 0) pk)"

text \<open>\<open>memmove(buf, buf + 1, n)\<close> with \<open>buf\<close> at index \<open>i\<close>.\<close>

definition shift_down :: "nat \<Rightarrow> nat \<Rightarrow> u8 list \<Rightarrow> u8 list" where
  "shift_down i n pk = take i pk @ take n (drop (i + 1) pk) @ drop (i + n) pk"

lemma length_shift_down: "length (shift_down i n pk) \<le> length pk"
  by (auto simp: shift_down_def min_def)

function decode_loop :: "nat \<Rightarrow> nat \<Rightarrow> u8 list \<Rightarrow> u8 list" where
  "decode_loop len i pk =
     (if i < length pk \<and> pk ! i \<noteq> 0
      then if pk ! i = 0x7D
           then let pk = shift_down i (len - i - 1) pk
                in if i < length pk then decode_loop len (i + 1) (pk[i := pk ! i XOR 0x20]) else pk
           else decode_loop len (i + 1) pk
      else pk)"
  by auto

termination
proof (relation "measure (\<lambda>(len, i, pk). length pk - i)")
  fix len i :: nat and pk x :: "u8 list"
  assume "i < length pk \<and> pk ! i \<noteq> 0" "x = shift_down i (len - i - 1) pk"
  then show "((len, i + 1, x[i := x ! i XOR 0x20]), len, i, pk) \<in> measure (\<lambda>(len, i, pk). length pk - i)"
    using length_shift_down [of i "len - i - 1" pk] by (auto simp: Let_def)
qed auto

declare decode_loop.simps [simp del]

text \<open>
  The first part of \<open>gdb_handle_packet\<close> on the bytes behind the \<open>$\<close>: \<open>None\<close> is a negative
  acknowledgement, otherwise the result is the decoded packet with whatever follows it.
\<close>

definition gdb_accept :: "u8 list \<Rightarrow> nat \<Rightarrow> u8 list option" where
  "gdb_accept pk len =
     (let (i, checksum) = checksum_loop pk len 0 0
      in if i \<ge> len then None
         else let pk = pk[i := 0];
                  recv_checksum = word_of_int (fst (strtol16 [pk ! (i + 1), pk ! (i + 2)])) :: u8
              in if recv_checksum \<noteq> checksum then None
                 else Some (decode_loop (strlen_list pk) 0 pk))"

section \<open>Commands\<close>

definition gdb_query :: "u8 list \<Rightarrow> u8 list" where
  "gdb_query packet =
     (if take 9 packet = ascii ''Supported'' then ascii ''PacketSize=119''
      else if take 1 packet = ascii ''C'' then []
      else if take 7 packet = ascii ''Offsets'' then ascii ''Text=0;Data=0;Bss=0''
      else [])"

definition gdb_send_reg :: "nat \<Rightarrow> gdb \<Rightarrow> gdb" where
  "gdb_send_reg reg g = snd (gdb_send_packet_hex (mcu_read_reg reg (gmcu g)) 4 g)"

fun read_mem_loop :: "nat \<Rightarrow> u32 \<Rightarrow> gdb \<Rightarrow> gdb" where
  "read_mem_loop 0 addr g = g"
| "read_mem_loop (Suc n) addr g =
     (case gdb_mcu_fetch_byte addr (gmcu g) of
        None \<Rightarrow> g
      | Some c \<Rightarrow> read_mem_loop n (addr + 1) (snd (gdb_send_packet_hex (ucast c) 1 g)))"

fun write_mem_loop :: "nat \<Rightarrow> u32 \<Rightarrow> u8 list \<Rightarrow> mcu \<Rightarrow> fault + (bool \<times> mcu)" where
  "write_mem_loop 0 addr packet m = Inr (True, m)"
| "write_mem_loop (Suc n) addr packet m =
     (case packet of
        [] \<Rightarrow> Inl Out_Of_Bounds
      | c # packet \<Rightarrow>
          let (ok, m) = gdb_mcu_write_byte addr c m
          in if \<not> ok then Inr (False, m) else write_mem_loop n (addr + 1) packet m)"

text \<open>
  The \<open>switch\<close>: the command character, the bytes behind it, and the stub. \<open>P\<close> does not check the number
  of the register: a number past the register file is a store out of bounds, the fault of the model.
\<close>

definition gdb_command :: "u8 \<Rightarrow> u8 list \<Rightarrow> gdb \<Rightarrow> fault + gdb" where
  "gdb_command c packet g =
     (if c = 0x71 then Inr (gdb_reply (gdb_query packet) g)
      else if c = 0x3F
      then let g = snd (gdb_send_packet_str [0x53] (snd (gdb_send_packet_begin g)));
               g = snd (gdb_send_packet_hex (of_int (mcu_halt_reason (gmcu g))) 1 g)
           in Inr (snd (gdb_send_packet_end g))
      else if c = 0x48 then Inr (gdb_reply (ascii ''OK'') g)
      else if c = 0x67
      then Inr (snd (gdb_send_packet_end (fold gdb_send_reg [0..<reg_gdb_count] (snd (gdb_send_packet_begin g)))))
      else if c = 0x70
      then let reg = unat (to_u32 (fst (strtol16 packet)));
               g = snd (gdb_send_packet_begin g);
               g = (if reg < reg_count then gdb_send_reg reg g else g)
           in Inr (snd (gdb_send_packet_end g))
      else if c = 0x50
      then let (reg, packet) = strtol16 packet;
               reg = unat (to_u32 reg);
               val = to_u32 (fst (strtol16 (tl packet)));
               m = (if reg = REG_PC \<and> val = 0 then snd (mcu_reset (gmcu g)) else mcu_write_reg reg val (gmcu g))
           in if \<not> reg < reg_count then Inl Out_Of_Bounds
              else Inr (gdb_reply (ascii ''OK'') (g\<lparr>gmcu := m\<rparr>))
      else if c = 0x6D
      then let (addr, packet) = strtol16 packet;
               len = to_u32 (fst (strtol16 (tl packet)))
           in Inr (snd (gdb_send_packet_end
                (read_mem_loop (unat len) (to_u32 addr) (snd (gdb_send_packet_begin g)))))
      else if c = 0x76 then Inr (gdb_reply [] g)
      else if c = 0x73 then Inr (gdb_reply (ascii ''S05'') (gdb_mcu_op (\<lambda>m. snd (mcu_step m)) g))
      else if c = 0x63 then Inr (gdb_mcu_op mcu_resume g)
      else if c = 0x58
      then let (addr, packet) = strtol16 packet;
               (len, packet) = strtol16 (tl packet);
               m = snd (mcu_unlock (gmcu g))
           in case write_mem_loop (unat (to_u32 len)) (to_u32 addr) (tl packet) m of
                Inl e \<Rightarrow> Inl e
              | Inr (sucess, m) \<Rightarrow>
                  Inr (gdb_reply (if sucess then ascii ''OK'' else ascii ''EFF'')
                        (g\<lparr>gmcu := snd (mcu_lock m)\<rparr>))
      else Inr (gdb_reply [] g))"

text \<open>
  \<open>gdb_handle_packet\<close> on the packet at the start of the buffer. It overwrites the packet while
  decoding; these bytes are never read again, so the buffer of the model stays as it is.
\<close>

definition gdb_handle_packet :: "nat \<Rightarrow> gdb \<Rightarrow> fault + (bool \<times> gdb)" where
  "gdb_handle_packet len g =
     (case gdb_accept (drop 1 (rev_buffer g)) (len - 1) of
        None \<Rightarrow> Inr (False, snd (gdb_send_nack g))
      | Some packet \<Rightarrow>
          (case gdb_command (hd packet) (tl packet) (snd (gdb_send_ack g)) of
             Inl e \<Rightarrow> Inl e
           | Inr g \<Rightarrow> Inr (True, g)))"

section \<open>Events of the socket\<close>

text \<open>A created stub; \<open>buf\<close> is the content of the allocated buffer.\<close>

definition gdb_create :: "u8 list \<Rightarrow> mcu \<Rightarrow> gdb" where
  "gdb_create buf m =
     \<lparr>gmcu = mcu_add_callbacks gdb_cb m, connected = False, rev_buffer = take 4096 buf,
      rev_buffer_filled = 0, packet_checksum = 0, writes_left = 0, gout = []\<rparr>"

text \<open>\<open>accept\<close> returns a new peer, given by its number of successful writes, or fails.\<close>

definition gdb_accept_callback :: "nat option \<Rightarrow> gdb \<Rightarrow> gdb" where
  "gdb_accept_callback peer g =
     (case peer of
        None \<Rightarrow> g
      | Some n \<Rightarrow> if connected g then g else g\<lparr>connected := True, writes_left := n, gout := []\<rparr>)"

datatype read_result = Received "u8 list" | Again | Read_Error

text \<open>The search for the start of a packet: whether a break was seen, and the index of the \<open>$\<close>.\<close>

fun find_start :: "u8 list \<Rightarrow> nat \<Rightarrow> bool \<Rightarrow> bool \<times> nat option" where
  "find_start [] i brk = (brk, None)"
| "find_start (b # bs) i brk =
     (if b = 0x03 then find_start bs (i + 1) True
      else if b = 0x24 then (brk, Some i)
      else find_start bs (i + 1) brk)"

fun find_end :: "u8 list \<Rightarrow> nat \<Rightarrow> nat \<Rightarrow> nat" where
  "find_end [] filled i = i"
| "find_end (b # bs) filled i = (if b \<noteq> 0x23 \<and> i < filled then find_end bs filled (i + 1) else i)"

text \<open>\<open>memmove(rev_buffer, rev_buffer + b, n)\<close>\<close>

definition move_front :: "nat \<Rightarrow> nat \<Rightarrow> u8 list \<Rightarrow> u8 list" where
  "move_front b n buf = take n (drop b buf) @ drop n buf"

definition gdb_find_packet :: "gdb \<Rightarrow> bool \<times> gdb" where
  "gdb_find_packet g =
     (case find_start (take (rev_buffer_filled g) (rev_buffer g)) 0 False of
        (brk, None) \<Rightarrow> (brk, g)
      | (brk, Some b) \<Rightarrow>
          (brk, g\<lparr>rev_buffer_filled := rev_buffer_filled g - b,
                  rev_buffer := move_front b (rev_buffer_filled g - b) (rev_buffer g)\<rparr>))"

text \<open>
  The rest of \<open>gdb_read_callback\<close>. When the handler has closed the connection,
  \<open>rev_buffer_filled -= end - rev_buffer\<close> wraps below 0 and the \<open>memmove\<close> leaves the buffer.
\<close>

definition gdb_dispatch :: "bool \<Rightarrow> gdb \<Rightarrow> fault + gdb" where
  "gdb_dispatch brk g =
     (if rev_buffer g ! 0 \<noteq> 0x24
      then Inr (if brk then gdb_mcu_op (mcu_halt HAL_TRAP) g else g)
      else let end = find_end (rev_buffer g) (rev_buffer_filled g) 0
           in if rev_buffer g ! end \<noteq> 0x23 then Inr g
              else if end + 3 > rev_buffer_filled g then Inr g
              else case gdb_handle_packet (end + 3) g of
                     Inl e \<Rightarrow> Inl e
                   | Inr (ok, g) \<Rightarrow>
                       if end + 3 > rev_buffer_filled g then Inl Out_Of_Bounds
                       else let filled = rev_buffer_filled g - (end + 3);
                                buf = move_front (end + 3) filled (rev_buffer g);
                                g = g\<lparr>rev_buffer_filled := filled, rev_buffer := buf\<rparr>;
                                brk = (brk \<or> 0x03 \<in> set (takeWhile (\<lambda>b. b \<noteq> 0x24) (take filled buf)))
                            in Inr (if brk then gdb_mcu_op (mcu_halt HAL_TRAP) g else g))"

text \<open>\<open>read\<close> returns at most the free space of the buffer less one byte.\<close>

definition gdb_receive :: "u8 list \<Rightarrow> gdb \<Rightarrow> bool \<times> gdb" where
  "gdb_receive bs g =
     (let bs = take (length (rev_buffer g) - rev_buffer_filled g - 1) bs;
          g = (if bs = [] then gdb_client_close g else g);
          n = rev_buffer_filled g;
          buf = take n (rev_buffer g) @ bs @ 0 # drop (n + length bs + 1) (rev_buffer g)
      in gdb_find_packet (g\<lparr>rev_buffer_filled := n + length bs, rev_buffer := buf\<rparr>))"

definition gdb_read_callback :: "read_result \<Rightarrow> gdb \<Rightarrow> fault + gdb" where
  "gdb_read_callback r g =
     (case r of
        Again \<Rightarrow> Inr g
      | Read_Error \<Rightarrow> Inr (gdb_client_error g)
      | Received bs \<Rightarrow>
          (let (brk, g) = gdb_receive bs g in gdb_dispatch brk g))"

section \<open>What the peer receives\<close>

definition escape_char :: "u8 \<Rightarrow> u8 list" where
  "escape_char c = (if c = 0x24 \<or> c = 0x23 \<or> c = 0x7D then [0x7D, c XOR 0x20] else [c])"

definition escape :: "u8 list \<Rightarrow> u8 list" where
  "escape s = concat (map escape_char s)"

lemma escape_simps [simp]: "escape [] = []" "escape (c # s) = escape_char c @ escape s"
  by (simp_all add: escape_def)

text \<open>The stub after \<open>bs\<close> was sent inside a packet, byte by byte.\<close>

definition after_sending :: "u8 list \<Rightarrow> gdb \<Rightarrow> gdb" where
  "after_sending bs g =
     g\<lparr>packet_checksum := packet_checksum g + sum_list bs, writes_left := writes_left g - length bs,
       gout := gout g @ bs\<rparr>"

lemma after_sending_append: "after_sending (a @ b) g = after_sending b (after_sending a g)"
  by (simp add: after_sending_def add.assoc)

lemma after_sending_fields [simp]:
  "connected (after_sending bs g) = connected g" "gmcu (after_sending bs g) = gmcu g"
  "writes_left (after_sending bs g) = writes_left g - length bs"
  "gout (after_sending bs g) = gout g @ bs"
  "packet_checksum (after_sending bs g) = packet_checksum g + sum_list bs"
  "rev_buffer_filled (after_sending bs g) = rev_buffer_filled g"
  "rev_buffer (after_sending bs g) = rev_buffer g"
  by (simp_all add: after_sending_def)

lemma send_char:
  "connected g \<Longrightarrow> length (escape_char c) \<le> writes_left g \<Longrightarrow>
     gdb_send_packet_char c g = (True, after_sending (escape_char c) g)"
  by (simp add: gdb_send_packet_char_def escape_char_def gdb_write_def after_sending_def split: if_splits)

lemma send_str:
  "connected g \<Longrightarrow> length (escape s) \<le> writes_left g \<Longrightarrow>
     gdb_send_packet_str s g = (True, after_sending (escape s) g)"
proof (induction s arbitrary: g)
  case Nil
  then show ?case by (simp add: after_sending_def)
next
  case (Cons c s)
  then show ?case by (simp add: send_char after_sending_append)
qed

text \<open>Hexadecimal text\<close>

definition hex_byte :: "u8 \<Rightarrow> u8 list" where
  "hex_byte c = [TO_HEX (drop_bit 4 c AND 0xF), TO_HEX (c AND 0xF)]"

fun hex_text :: "nat \<Rightarrow> nat \<Rightarrow> u32 \<Rightarrow> u8 list" where
  "hex_text i 0 v = []"
| "hex_text i (Suc n) v = hex_byte (ucast (drop_bit (i * 8) v AND 0xFF)) @ hex_text (i + 1) n v"

lemma nibble_cases: "(d :: u8) \<le> 0xF \<Longrightarrow> d \<in> set (map of_nat [0..<16])"
proof -
  assume "d \<le> 0xF"
  then have "unat d \<in> set [0..<16]" by (simp add: word_le_nat_alt)
  then have "of_nat (unat d) \<in> (of_nat :: nat \<Rightarrow> u8) ` set [0..<16]" by (rule imageI)
  then show ?thesis by simp
qed

lemma hex_char_all:
  "\<forall>d \<in> set (map of_nat [0..<16]). hex_digit (TO_HEX d) = Some (unat (d :: u8)) \<and>
     TO_HEX d \<notin> {0, 0x20, 0x23, 0x24, 0x2B, 0x2D, 0x58, 0x78, 0x7D} \<and> \<not> is_space (TO_HEX d)"
  by (simp add: upt_rec hex_digit_def TO_HEX_def is_space_def)

lemma hex_char:
  assumes "d \<le> 0xF"
  shows "hex_digit (TO_HEX d) = Some (unat d)" "\<not> is_space (TO_HEX d)"
    "TO_HEX d \<notin> {0, 0x20, 0x23, 0x24, 0x2B, 0x2D, 0x58, 0x78, 0x7D}" "escape_char (TO_HEX d) = [TO_HEX d]"
  using bspec [OF hex_char_all nibble_cases [OF assms]] by (auto simp: escape_char_def)

lemma nibbles: "drop_bit 4 (c :: u8) AND 0xF \<le> 0xF" "c AND 0xF \<le> 0xF"
  by (simp_all add: word_and_le1)

lemma escape_hex_byte [simp]: "escape (hex_byte c) = hex_byte c"
  by (simp add: hex_byte_def hex_char [OF nibbles(1)] hex_char [OF nibbles(2)])

lemma length_hex_byte [simp]: "length (hex_byte c) = 2"
  by (simp add: hex_byte_def)

lemma length_hex_text [simp]: "length (hex_text i n v) = 2 * n"
  by (induction n arbitrary: i) simp_all

lemma send_hex:
  "connected g \<Longrightarrow> 2 * n \<le> writes_left g \<Longrightarrow> send_hex_loop i n v g = (True, after_sending (hex_text i n v) g)"
proof (induction n arbitrary: i g)
  case 0
  then show ?case by (simp add: after_sending_def)
next
  case (Suc n)
  have "gdb_send_packet_str (hex_byte c) g = (True, after_sending (hex_byte c) g)" for c
    using Suc.prems by (simp add: send_str)
  then show ?case using Suc unfolding hex_byte_def [symmetric] by (simp add: after_sending_append Let_def hex_byte_def)
qed

text \<open>A packet as it travels.\<close>

definition framed :: "u8 list \<Rightarrow> u8 list" where
  "framed e = 0x24 # e @ 0x23 # hex_byte (sum_list e)"

lemma ucast_byte [simp]: "ucast (ucast (c :: u8) AND 0xFF :: u32) = c"
proof -
  have m: "(0xFF :: u32) = mask 8" by (simp add: mask_eq_exp_minus_1)
  show ?thesis unfolding m by (rule bit_word_eqI) (simp add: bit_simps)
qed

lemma send_end:
  assumes "connected g" "3 \<le> writes_left g"
  shows "\<exists>g'. gdb_send_packet_end g = (True, g') \<and> gout g' = gout g @ 0x23 # hex_byte (packet_checksum g)
    \<and> connected g' \<and> gmcu g' = gmcu g \<and> writes_left g' = writes_left g - 3"
  using assms send_hex [of "g\<lparr>writes_left := writes_left g - 1, gout := gout g @ [0x23]\<rparr>" 1 0 "ucast (packet_checksum g)"]
  by (simp add: gdb_send_packet_end_def gdb_write_def gdb_send_packet_hex_def)

lemma send_begin:
  "connected g \<Longrightarrow> 0 < writes_left g \<Longrightarrow>
     gdb_send_packet_begin g = (True, g\<lparr>packet_checksum := 0, writes_left := writes_left g - 1, gout := gout g @ [0x24]\<rparr>)"
  by (simp add: gdb_send_packet_begin_def gdb_write_def)

lemma reply_framed:
  assumes "connected g" "length (escape s) + 4 \<le> writes_left g"
  shows "gout (gdb_reply s g) = gout g @ framed (escape s)"
proof -
  let ?g = "g\<lparr>packet_checksum := 0, writes_left := writes_left g - 1, gout := gout g @ [0x24]\<rparr>"
  have "gdb_send_packet_str s ?g = (True, after_sending (escape s) ?g)"
    using assms by (intro send_str) auto
  moreover have "3 \<le> writes_left (after_sending (escape s) ?g)" using assms(2) by simp
  ultimately show ?thesis using assms send_begin [of g] send_end [of "after_sending (escape s) ?g"]
    by (auto simp: gdb_reply_def framed_def)
qed

section \<open>What the stub accepts\<close>

lemma checksum_loop_to_end:
  "0x23 \<notin> set e \<Longrightarrow> i + length e < len \<Longrightarrow>
     checksum_loop (e @ 0x23 # r) len i acc = (i + length e, acc + sum_list e)"
  by (induction e arbitrary: i acc) (auto simp: add.assoc)

lemma decode_loop_step:
  assumes "c \<noteq> 0" "c \<noteq> 0x7D"
  shows "decode_loop len (length xs) (xs @ c # ys) = decode_loop len (length (xs @ [c])) ((xs @ [c]) @ ys)"
  using assms by (subst decode_loop.simps) (simp add: Let_def)

text \<open>An escape moves the rest of the packet down; its last byte \<open>last r\<close> stays behind it as well.\<close>

lemma decode_loop_escape:
  assumes "r \<noteq> []" "len = length xs + Suc (length r)"
  shows "decode_loop len (length xs) (xs @ 0x7D # r @ 0 # ys) =
    decode_loop len (length (xs @ [hd r XOR 0x20])) ((xs @ [hd r XOR 0x20]) @ (tl r @ [last r]) @ 0 # ys)"
proof -
  have "drop (length xs + length r) (xs @ 0x7D # r @ 0 # ys) = drop (length r) (0x7D # r) @ 0 # ys"
    by (simp add: drop_Cons' )
  also have "drop (length r) (0x7D # r) = [last r]"
    using assms(1) by (cases r rule: rev_cases) (simp_all add: drop_Cons')
  finally have "shift_down (length xs) (len - length xs - 1) (xs @ 0x7D # r @ 0 # ys) = xs @ r @ [last r] @ 0 # ys"
    using assms(2) by (simp add: shift_down_def)
  then show ?thesis using assms(1)
    by (subst decode_loop.simps) (cases r, simp_all add: Let_def nth_append list_update_append)
qed

lemma decode_loop_last:
  "len = length xs + 1 \<Longrightarrow> decode_loop len (length xs) (xs @ 0x7D # 0 # ys) = decode_loop len (length (xs @ [0x5D])) ((xs @ [0x5D]) @ 0 # ys)"
  by (subst decode_loop.simps) (simp add: Let_def shift_down_def nth_append list_update_append)

lemma decode_loop_end: "decode_loop len (length xs) (xs @ 0 # ys) = xs @ 0 # ys"
  by (subst decode_loop.simps) simp

lemma decode_junk:
  assumes "0 \<notin> set junk" "len = length xs + length junk"
  shows "\<exists>junk'. length junk' = length junk \<and> decode_loop len (length xs) (xs @ junk @ 0 # ys) = xs @ junk' @ 0 # ys"
  using assms
proof (induction junk arbitrary: xs rule: length_induct)
  case (1 junk)
  show ?case
  proof (cases junk)
    case Nil
    then show ?thesis using decode_loop_end [of len xs ys] by simp
  next
    case (Cons c r)
    have step: "\<exists>junk'. length junk' = length junk \<and> decode_loop len (length (xs @ [d])) ((xs @ [d]) @ r' @ 0 # ys) = xs @ junk' @ 0 # ys"
      if rl: "length r' = length r" and rz: "0 \<notin> set r'" for d r'
    proof -
      have "length r' < length junk" "len = length (xs @ [d]) + length r'" using rl Cons "1.prems" by simp_all
      then obtain j where "length j = length r'"
          "decode_loop len (length (xs @ [d])) ((xs @ [d]) @ r' @ 0 # ys) = (xs @ [d]) @ j @ 0 # ys"
        using "1.IH" rz by blast
      then show ?thesis using rl Cons by (intro exI [of _ "d # j"]) simp
    qed
    show ?thesis
    proof (cases "c = 0x7D \<and> r \<noteq> []")
      case True
      have "0 \<notin> set (tl r @ [last r])" using True Cons "1.prems" list.set_sel(2) [of r 0] last_in_set [of r] by (metis Un_iff empty_iff insert_iff list.set(1,2) set_append)
      moreover have "length (tl r @ [last r]) = length r" using True by simp
      ultimately show ?thesis
        using step [of "tl r @ [last r]" "hd r XOR 0x20"] decode_loop_escape [of r len xs ys] True Cons "1.prems" by simp
    next
      case False
      then show ?thesis
        using step [of r c] step [of r "0x5D"] decode_loop_step [of c len xs "r @ 0 # ys"] decode_loop_last [of len xs ys] Cons "1.prems"
        by (cases "c = 0x7D") auto
    qed
  qed
qed

lemma escape_char_nonzero: "c \<noteq> 0 \<Longrightarrow> 0 \<notin> set (escape_char c)"
  by (auto simp: escape_char_def)

lemma escape_nonzero: "0 \<notin> set s \<Longrightarrow> 0 \<notin> set (escape s)"
  by (induction s) (auto dest: escape_char_nonzero)

lemma escape_delims: "0x23 \<notin> set (escape s)" "0x24 \<notin> set (escape s)"
  by (induction s) (auto simp: escape_char_def)

lemma decode_escaped:
  assumes "0 \<notin> set s" "0 \<notin> set junk" "len = length xs + length (escape s) + length junk"
  shows "\<exists>junk'. decode_loop len (length xs) (xs @ escape s @ junk @ 0 # ys) = xs @ s @ junk' @ 0 # ys"
  using assms
proof (induction s arbitrary: xs junk)
  case Nil
  then show ?case using decode_junk [of junk len xs ys] by auto
next
  case (Cons c s)
  show ?case
  proof (cases "c = 0x24 \<or> c = 0x23 \<or> c = 0x7D")
    case True
    let ?r = "(c XOR 0x20) # escape s @ junk"
    have e: "escape (c # s) @ junk = 0x7D # ?r" using True by (simp add: escape_char_def)
    have "0 \<notin> set ?r" using Cons.prems escape_nonzero [of "c # s"] e by (metis Un_iff list.set_intros(2) set_append)
    then have "0 \<notin> set (junk @ [last ?r])" by (metis Cons.prems(2) Un_iff last_in_set list.distinct(1) list.set(2) set_append insertE list.set(1) emptyE)
    moreover have "decode_loop len (length xs) (xs @ escape (c # s) @ junk @ 0 # ys) =
        decode_loop len (length (xs @ [c])) ((xs @ [c]) @ escape s @ (junk @ [last ?r]) @ 0 # ys)"
      using decode_loop_escape [of ?r len xs ys] e Cons.prems(3) True by (auto simp: escape_char_def xor.assoc)
    moreover have "len = length (xs @ [c]) + length (escape s) + length (junk @ [last ?r])"
      using Cons.prems(3) True by (auto simp: escape_char_def)
    ultimately show ?thesis using Cons.IH [of "junk @ [last ?r]" "xs @ [c]"] Cons.prems(1) by auto
  next
    case False
    then have "decode_loop len (length xs) (xs @ escape (c # s) @ junk @ 0 # ys) =
        decode_loop len (length (xs @ [c])) ((xs @ [c]) @ escape s @ junk @ 0 # ys)"
      using decode_loop_step [of c len xs "escape s @ junk @ 0 # ys"] Cons.prems(1) by (simp add: escape_char_def)
    then show ?thesis using Cons.IH [of junk "xs @ [c]"] Cons.prems False by (auto simp: escape_char_def)
  qed
qed

lemma nibble_sum: "unat (drop_bit 4 c AND 0xF) * 16 + unat (c AND 0xF) = unat c" for c :: u8
proof -
  have m: "(0xF :: u8) = mask 4" by (simp add: mask_eq_exp_minus_1)
  have "unat (take_bit 4 c) = take_bit 4 (unat c)" by (rule unsigned_take_bit_eq)
  then have "unat (c AND mask 4) = unat c mod 16" by (simp only: take_bit_eq_mask [symmetric] take_bit_eq_mod) simp
  moreover have "drop_bit 4 c AND mask 4 = drop_bit 4 c"
    by (rule bit_word_eqI) (auto simp: bit_simps dest: bit_imp_le_length)
  moreover have "unat (drop_bit 4 c) = unat c div 16" by (simp add: drop_bit_eq_div unat_div_distrib)
  ultimately show ?thesis unfolding m by (simp add: mult.commute)
qed

lemma byte_less: "unat (c :: u8) < 256"
  using unsigned_less [of c] by simp

lemma hex_digits_byte: "hex_digits (hex_byte b @ r) n = hex_digits r (n * 256 + unat b)"
proof -
  have "(n * 16 + unat (drop_bit 4 b AND 0xF)) * 16 + unat (b AND 0xF) = n * 256 + unat b"
    using nibble_sum [of b] by (simp add: algebra_simps)
  then show ?thesis
    by (simp only: hex_byte_def append_Cons append_Nil hex_digits.simps hex_char(1) [OF nibbles(1)] hex_char(1) [OF nibbles(2)] option.case)
qed

lemma strtol16_hex_byte: "strtol16 (hex_byte c) = (int (unat c), [])"
  using nibble_sum [of c] byte_less [of c] hex_char [OF nibbles(1) [of c]] hex_char [OF nibbles(2) [of c]]
  by (simp add: strtol16_def hex_byte_def Let_def min_def)

lemma sum_list_upd: "j < length xs \<Longrightarrow> sum_list (xs[j := x]) = sum_list xs - xs ! j + x" for x :: u8
proof (induction xs arbitrary: j)
  case (Cons c xs)
  then show ?case by (cases j) (simp_all add: algebra_simps)
qed simp

lemma accept_any:
  assumes "0x23 \<notin> set e" "len = length e + 3"
  shows "gdb_accept (e @ 0x23 # c # d # rest) len =
    (if word_of_int (fst (strtol16 [c, d])) = sum_list e
     then Some (decode_loop (strlen_list (e @ 0 # c # d # rest)) 0 (e @ 0 # c # d # rest)) else None)"
  using checksum_loop_to_end [OF assms(1), of 0 len "c # d # rest" 0] assms(2)
  by (simp add: gdb_accept_def list_update_append nth_append nth_Cons' Let_def)

lemma accept_framed:
  assumes "0x23 \<notin> set e" "len = length e + 3"
  shows "gdb_accept (e @ 0x23 # hex_byte k @ rest) len =
    (if k = sum_list e then Some (decode_loop (strlen_list (e @ 0 # hex_byte k @ rest)) 0 (e @ 0 # hex_byte k @ rest)) else None)"
proof -
  obtain c d where k: "hex_byte k = [c, d]" by (simp add: hex_byte_def)
  then have "word_of_int (fst (strtol16 [c, d])) = k" using strtol16_hex_byte [of k] by simp
  then show ?thesis using accept_any [OF assms, of c d rest] k by auto
qed

lemma strlen_list_zero: "0 \<notin> set e \<Longrightarrow> strlen_list (e @ 0 # r) = length e"
  unfolding strlen_list_def by (subst takeWhile_append2) (auto simp: takeWhile_append2)

section \<open>What commands leave alone\<close>

lemma gmcu_write [simp]: "gmcu (snd (gdb_write bs g)) = gmcu g"
  by (simp add: gdb_write_def gdb_client_error_def gdb_client_close_def)

lemma gmcu_char [simp]: "gmcu (snd (gdb_send_packet_char c g)) = gmcu g"
  by (simp add: gdb_send_packet_char_def gdb_write_def gdb_client_error_def gdb_client_close_def)

lemma gmcu_str [simp]: "gmcu (snd (gdb_send_packet_str s g)) = gmcu g"
  by (induction s arbitrary: g) (simp_all add: case_prod_beta)

declare gdb_send_packet_str.simps [simp del]

lemma gmcu_hex [simp]: "gmcu (snd (gdb_send_packet_hex v n g)) = gmcu g"
proof -
  have "gmcu (snd (send_hex_loop i n v g)) = gmcu g" for i
    by (induction n arbitrary: i g) (simp_all add: case_prod_beta Let_def)
  then show ?thesis by (simp add: gdb_send_packet_hex_def)
qed

lemma gmcu_begin_end [simp]:
  "gmcu (snd (gdb_send_packet_begin g)) = gmcu g" "gmcu (snd (gdb_send_packet_end g)) = gmcu g"
  "gmcu (snd (gdb_send_ack g)) = gmcu g" "gmcu (snd (gdb_send_nack g)) = gmcu g"
  by (simp_all add: gdb_send_packet_begin_def gdb_send_packet_end_def gdb_send_ack_def gdb_send_nack_def case_prod_beta)

lemma gmcu_reply [simp]: "gmcu (gdb_reply s g) = gmcu g"
  by (simp add: gdb_reply_def)

lemma gmcu_did_halt [simp]: "gmcu (gdb_mcu_did_halt r g) = gmcu g"
  by (simp add: gdb_mcu_did_halt_def)

lemma gmcu_op [simp]: "gmcu (gdb_mcu_op f g) = f (gmcu g)"
proof -
  have "gmcu (fold (\<lambda>(cb, reason). gdb_mcu_did_halt reason) calls g) = gmcu g" for calls :: "(nat \<times> int) list" and g
    by (induction calls arbitrary: g) auto
  then show ?thesis by (simp add: gdb_mcu_op_def Let_def)
qed

lemma gmcu_send_reg [simp]: "gmcu (gdb_send_reg r g) = gmcu g"
  by (simp add: gdb_send_reg_def)

lemma gmcu_regs [simp]: "gmcu (fold gdb_send_reg rs g) = gmcu g"
  by (induction rs arbitrary: g) auto

lemma gmcu_read_mem [simp]: "gmcu (read_mem_loop n a g) = gmcu g"
  by (induction n arbitrary: a g) (auto split: option.split)

definition locked_flash :: "mcu \<Rightarrow> (nat \<Rightarrow> u8) option list option" where
  "locked_flash m = (if unlocked m then None else Some (flash_view (mem_devs m)))"

lemma locked_flash_op:
  assumes "\<not> unlocked m"
  shows "locked_flash (snd (mcu_step m)) = locked_flash m"
    "locked_flash (mcu_resume m) = locked_flash m" "locked_flash (mcu_halt r m) = locked_flash m"
    "locked_flash (snd (mcu_reset m)) = locked_flash m" "locked_flash (mcu_write_reg r' v m) = locked_flash m"
  using flashinv.inv_step [of m "flash_view (mem_devs m)"] assms
  by (auto simp: locked_flash_def mcu_step_def mcu_resume_def)

lemma command_flash:
  assumes "gdb_command c p g = Inr g'" "\<not> unlocked (gmcu g)"
  shows "\<not> unlocked (gmcu g')" "c \<noteq> 0x58 \<Longrightarrow> locked_flash (gmcu g') = locked_flash (gmcu g)"
proof -
  show lf: "locked_flash (gmcu g') = locked_flash (gmcu g)" if "c \<noteq> 0x58"
    using assms that by (auto simp: gdb_command_def Let_def locked_flash_op split: if_splits prod.splits)
  show "\<not> unlocked (gmcu g')"
  proof (cases "c = 0x58")
    case True
    then show ?thesis using assms
      by (auto simp: gdb_command_def Let_def mcu_lock_def split: sum.splits prod.splits)
  next
    case False
    then show ?thesis using lf assms(2) by (auto simp: locked_flash_def split: if_splits)
  qed
qed

section \<open>Writing memory\<close>

text \<open>What writing one byte does to the array of a memory: a byte with the top bit set at an even
  index also overwrites the byte behind it.\<close>

definition poke :: "nat \<Rightarrow> u8 \<Rightarrow> (nat \<Rightarrow> u8) \<Rightarrow> nat \<Rightarrow> u8" where
  "poke k c f = (if odd k \<or> \<not> bit c 7 then f(k := c) else f(k := c, k + 1 := 0xFF))"

fun pokes :: "nat \<Rightarrow> u8 list \<Rightarrow> (nat \<Rightarrow> u8) \<Rightarrow> nat \<Rightarrow> u8" where
  "pokes k [] f = f"
| "pokes k (c # cs) f = pokes (k + 1) cs (poke k c f)"

lemma pokes_outside: "x < k \<or> k + length cs < x \<Longrightarrow> pokes k cs f x = f x"
  by (induction cs arbitrary: k f) (auto simp: poke_def)

lemma pokes_inside: "j < length cs \<Longrightarrow> pokes k cs f (k + j) = cs ! j"
proof (induction cs arbitrary: k j f)
  case (Cons c cs)
  show ?case
  proof (cases j)
    case 0
    then show ?thesis using pokes_outside [of k "k + 1" cs "poke k c f"] by (simp add: poke_def)
  next
    case (Suc i)
    then show ?thesis using Cons.IH [of i "k + 1" "poke k c f"] Cons.prems by simp
  qed
qed simp

lemma pokes_next:
  "pokes k cs f (k + length cs) =
     (if cs \<noteq> [] \<and> odd (k + length cs) \<and> bit (last cs) 7 then 0xFF else f (k + length cs))"
proof (induction cs arbitrary: k f)
  case (Cons c cs)
  show ?case
  proof (cases "cs = []")
    case True
    then show ?thesis by (auto simp: poke_def)
  next
    case False
    then show ?thesis using Cons.IH [of "k + 1" "poke k c f"] by (auto simp: poke_def)
  qed
qed simp

lemma only_seven: "7 \<le> n \<Longrightarrow> n < 8 \<Longrightarrow> n = (7 :: nat)"
  by simp

lemma wr16_low:
  "wr16 j ((rd16 f j AND 0xFF00) OR scast c) f = f(j := c, j + 1 := if bit c 7 then 0xFF else f (j + 1))"
proof -
  have m: "(0xFF00 :: u16) = push_bit 8 (mask 8)" "(0xFF :: u8) = mask 8" by (simp_all add: mask_eq_exp_minus_1 push_bit_eq_mult)
  have "ucast ((rd16 f j AND 0xFF00) OR scast c) = c"
    unfolding m by (rule bit_word_eqI) (auto simp: bit_simps rd16_def min_def dest: only_seven bit_imp_le_length)
  moreover have "ucast (drop_bit 8 ((rd16 f j AND 0xFF00) OR scast c)) = (if bit c 7 then 0xFF else f (j + 1))"
    unfolding m by (rule bit_word_eqI) (auto simp: bit_simps rd16_def min_def dest: only_seven bit_imp_le_length)
  ultimately show ?thesis by (simp add: wr16_def)
qed

lemma wr16_high:
  "wr16 j ((rd16 f j AND 0x00FF) OR push_bit 8 (scast c)) f = f(j + 1 := c)"
proof -
  have m: "(0x00FF :: u16) = mask 8" by (simp add: mask_eq_exp_minus_1)
  have "ucast ((rd16 f j AND 0x00FF) OR push_bit 8 (scast c)) = f j"
    unfolding m by (rule bit_word_eqI) (auto simp: bit_simps rd16_def min_def dest: only_seven bit_imp_le_length)
  moreover have "ucast (drop_bit 8 ((rd16 f j AND 0x00FF) OR push_bit 8 (scast c))) = c"
    unfolding m by (rule bit_word_eqI) (auto simp: bit_simps rd16_def min_def dest: only_seven bit_imp_le_length)
  ultimately show ?thesis by (simp add: wr16_def fun_eq_iff)
qed

lemma half_index:
  fixes a off :: u32
  assumes "\<not> bit off 0"
  shows "idx16 ((a AND NOT 1) - off) = 2 * (unat (a - off) div 2)" "bit a 0 \<longleftrightarrow> odd (unat (a - off))"
proof -
  have round: "w AND NOT 1 = w - of_bool (odd w)" for w :: u32
  proof -
    have "w AND NOT 1 = push_bit 1 (drop_bit 1 w)"
      by (rule bit_word_eqI) (auto simp: bit_simps simp del: push_bit_Suc)
    moreover have "take_bit 1 w = of_bool (odd w)" by (simp add: take_bit_Suc mod_2_eq_odd)
    ultimately show ?thesis using bits_ident [of 1 w] by (metis add_diff_cancel_right')
  qed
  have par: "odd a \<longleftrightarrow> odd (a - off)" using assms by (simp add: bit_0)
  have "(a AND NOT 1) - off = (a - off) AND NOT 1" using round [of a] round [of "a - off"] par by simp
  moreover have "drop_bit 1 (w AND NOT 1) = drop_bit 1 w" for w :: u32
    by (rule bit_word_eqI)
      (simp only: bit_drop_bit_eq comp_apply bit_and_iff bit_not_iff, auto simp: bit_1_iff dest: bit_imp_le_length)
  ultimately show "idx16 ((a AND NOT 1) - off) = 2 * (unat (a - off) div 2)"
    by (simp add: idx16_def drop_bit_eq_div unat_div_distrib)
  have "bit (unat (a - off)) 0 = bit (a - off) 0" by (simp only: bit_unsigned_iff) simp
  then show "bit a 0 \<longleftrightarrow> odd (unat (a - off))" using par by (simp only: bit_0)
qed


text \<open>The array of a RAM or flash device.\<close>

fun array_of :: "backend \<Rightarrow> (nat \<Rightarrow> u8) option" where
  "array_of (Ram f) = Some f"
| "array_of (Flash f) = Some f"
| "array_of _ = None"

fun with_array :: "backend \<Rightarrow> (nat \<Rightarrow> u8) \<Rightarrow> backend" where
  "with_array (Ram f) h = Ram h"
| "with_array (Flash f) h = Flash h"
| "with_array b h = b"

lemma array_of_with [simp]: "array_of b \<noteq> None \<Longrightarrow> array_of (with_array b h) = Some h"
  "with_array (with_array b h) h' = with_array b h'"
  by (cases b; simp)+

definition set_array :: "nat \<Rightarrow> (nat \<Rightarrow> u8) \<Rightarrow> mcu \<Rightarrow> mcu" where
  "set_array i h m = set_backend i (with_array (backend (mem_devs m ! i)) h) m"

lemma set_array_twice:
  "i < length (mem_devs m) \<Longrightarrow> set_array i h' (set_array i h m) = set_array i h' m"
  by (simp add: set_array_def set_backend_def)

lemma write_byte_array:
  fixes m i a
  defines "d \<equiv> mem_devs m ! i"
  assumes "find_dev (mem_devs m) (a AND NOT 1) = Some i" "array_of (backend d) = Some f"
    and "unlocked m" "\<not> bit (offset d) 0"
  shows "gdb_mcu_write_byte a c m = (True, set_array i (poke (unat (a - offset d)) c f) m)"
proof -
  let ?k = "unat (a - offset d)"
  let ?j = "2 * (?k div 2)"
  note ix = half_index [OF assms(5), of a]
  have fetch: "mcu_fetch16 (a AND NOT 1) m = Some (rd16 f ?j)"
    using assms(2,3) ix(1) unfolding d_def by (cases "backend (mem_devs m ! i)") (simp_all add: mem_defs)
  have store: "mcu_write16 (a AND NOT 1) v m = (True, set_array i (wr16 ?j v f) m)" for v
    using assms(2,3,4) ix(1) unfolding d_def
    by (cases "backend (mem_devs m ! i)") (simp_all add: mem_defs set_array_def)
  have "wr16 ?j (if bit a 0 then (rd16 f ?j AND 0x00FF) OR push_bit 8 (scast c) else (rd16 f ?j AND 0xFF00) OR scast c) f
      = poke ?k c f"
    using ix(2) by (auto simp: wr16_low wr16_high poke_def fun_eq_iff odd_two_times_div_two_succ even_two_times_div_two)
  then show ?thesis unfolding gdb_mcu_write_byte_def fetch by (simp only: option.case store)
qed

lemma write_mem_array:
  assumes "\<forall>j < length cs. find_dev (mem_devs m) ((a + of_nat j) AND NOT 1) = Some i"
    and "array_of (backend (mem_devs m ! i)) = Some f" "unlocked m" "\<not> bit (offset (mem_devs m ! i)) 0"
    and "unat (a - offset (mem_devs m ! i)) + length cs < 2 ^ 32"
  shows "\<exists>m'. write_mem_loop (length cs) a (cs @ r) m = Inr (True, m')
     \<and> (cs \<noteq> [] \<longrightarrow> m' = set_array i (pokes (unat (a - offset (mem_devs m ! i))) cs f) m) \<and> (cs = [] \<longrightarrow> m' = m)"
  using assms
proof (induction cs arbitrary: a m f)
  case (Cons c cs)
  let ?k = "unat (a - offset (mem_devs m ! i))"
  let ?m = "set_array i (poke ?k c f) m"
  have i: "i < length (mem_devs m)" using Cons.prems(1)[rule_format, of 0] by (auto dest: find_dev_less)
  have wb: "gdb_mcu_write_byte a c m = (True, ?m)"
    using write_byte_array [of m a i f c] Cons.prems by (auto dest: spec [of _ 0])
  have find: "find_dev (mem_devs ?m) x = find_dev (mem_devs m) x" for x
    by (simp add: set_array_def set_backend_def)
  have dev: "offset (mem_devs ?m ! i) = offset (mem_devs m ! i)" "unlocked ?m = unlocked m"
    "array_of (backend (mem_devs ?m ! i)) = Some (poke ?k c f)"
    using i Cons.prems(2) by (simp_all add: set_array_def set_backend_def)
  have "a + 1 - offset (mem_devs m ! i) = (a - offset (mem_devs m ! i)) + 1" by simp
  then have k: "unat (a + 1 - offset (mem_devs m ! i)) = ?k + 1"
    using Cons.prems(5) by (simp only:) (subst unat_plus_simple [THEN iffD1], auto simp: word_le_nat_alt unat_word_ariths)
  have "\<forall>j < length cs. find_dev (mem_devs ?m) ((a + 1 + of_nat j) AND NOT 1) = Some i"
  proof (intro allI impI)
    fix j assume "j < length cs"
    then show "find_dev (mem_devs ?m) ((a + 1 + of_nat j) AND NOT 1) = Some i"
      using Cons.prems(1)[rule_format, of "Suc j"] find by (simp add: add.assoc)
  qed
  then obtain m' where "write_mem_loop (length cs) (a + 1) (cs @ r) ?m = Inr (True, m')"
      "cs \<noteq> [] \<longrightarrow> m' = set_array i (pokes (?k + 1) cs (poke ?k c f)) ?m" "cs = [] \<longrightarrow> m' = ?m"
    using Cons.IH [of ?m "a + 1" "poke ?k c f"] Cons.prems(3-5) dev k by auto
  then show ?case using wb set_array_twice [OF i] by (cases "cs = []") auto
qed simp

section \<open>Properties\<close>


text \<open>A stub on the example machine with a short receive buffer and a peer that accepts everything.\<close>

definition demo_gdb :: gdb where
  "demo_gdb = (gdb_create (replicate 24 0) demo_mcu)\<lparr>connected := True, writes_left := 1000\<rparr>"


text \<open>The command character of the packet that \<open>gdb_dispatch\<close> will execute, if there is one.\<close>

definition pending_command :: "gdb \<Rightarrow> u8 option" where
  "pending_command g =
     (let e = find_end (rev_buffer g) (rev_buffer_filled g) 0
      in if rev_buffer g ! 0 = 0x24 \<and> rev_buffer g ! e = 0x23 \<and> e + 3 \<le> rev_buffer_filled g
         then map_option hd (gdb_accept (drop 1 (rev_buffer g)) (e + 2)) else None)"

lemma gmcu_receive [simp]: "gmcu (snd (gdb_receive bs g)) = gmcu g"
  by (auto simp: gdb_receive_def gdb_find_packet_def Let_def gdb_client_close_def split: prod.split option.split)

lemma handle_flash:
  assumes "gdb_handle_packet len g = Inr (ok, g')" "\<not> unlocked (gmcu g)"
  shows "\<not> unlocked (gmcu g')"
    "map_option hd (gdb_accept (drop 1 (rev_buffer g)) (len - 1)) \<noteq> Some 0x58 \<Longrightarrow> locked_flash (gmcu g') = locked_flash (gmcu g)"
proof -
  consider "gmcu g' = gmcu g"
    | p where "gdb_accept (drop 1 (rev_buffer g)) (len - 1) = Some p" "gdb_command (hd p) (tl p) (snd (gdb_send_ack g)) = Inr g'"
    using assms(1) by (auto simp: gdb_handle_packet_def split: option.splits sum.splits)
  then show "\<not> unlocked (gmcu g')"
    "map_option hd (gdb_accept (drop 1 (rev_buffer g)) (len - 1)) \<noteq> Some 0x58 \<Longrightarrow> locked_flash (gmcu g') = locked_flash (gmcu g)"
    using assms(2) command_flash [of _ _ "snd (gdb_send_ack g)" g'] by (cases; simp)+
qed

lemma dispatch_flash:
  assumes "gdb_dispatch brk g = Inr g'" "\<not> unlocked (gmcu g)"
  shows "\<not> unlocked (gmcu g') \<and> (pending_command g \<noteq> Some 0x58 \<longrightarrow> locked_flash (gmcu g') = locked_flash (gmcu g))"
proof -
  let ?e = "find_end (rev_buffer g) (rev_buffer_filled g) 0"
  have halt: "\<not> unlocked (mcu_halt r m) \<and> locked_flash (mcu_halt r m) = locked_flash m" if "\<not> unlocked m" for r m
    using that locked_flash_op by simp
  consider "gmcu g' = gmcu g \<or> gmcu g' = mcu_halt HAL_TRAP (gmcu g)"
    | ok g1 where "rev_buffer g ! 0 = 0x24" "rev_buffer g ! ?e = 0x23" "?e + 3 \<le> rev_buffer_filled g"
        "gdb_handle_packet (?e + 3) g = Inr (ok, g1)" "gmcu g' = gmcu g1 \<or> gmcu g' = mcu_halt HAL_TRAP (gmcu g1)"
    using assms(1) by (auto simp: gdb_dispatch_def Let_def split: if_splits sum.splits)
  then show ?thesis
  proof cases
    case 1
    then show ?thesis using assms(2) halt by auto
  next
    case 2
    then show ?thesis using handle_flash [OF 2(4) assms(2)] halt by (auto simp: pending_command_def)
  qed
qed

text \<open>
  The command \<open>P\<close> with the number of a register that does not exist writes past the register file, for
  instance for the packet \<open>P100=0\<close>.
\<close>

lemma P_out_of_bounds:
  "reg_count \<le> unat (to_u32 (fst (strtol16 p))) \<Longrightarrow> gdb_command 0x50 p g = Inl Out_Of_Bounds"
  by (auto simp: gdb_command_def Let_def split: prod.split)

lemma P_out_of_bounds_example: "gdb_command 0x50 (ascii ''100=0'' @ [0]) g = Inl Out_Of_Bounds"
  by (rule P_out_of_bounds) (simp add: strtol16_def ascii_def is_space_def hex_digit_def Let_def)



text \<open>
  Downloading is exact up to one byte: an \<open>X\<close> packet whose range lies in a RAM or flash device
  stores exactly its bytes and answers \<open>OK\<close>; nothing else in the machine changes but, when the
  last byte is at an even offset and not below 0x80, the byte behind the range, which becomes 0xFF
  (the sign extension of the last byte).
\<close>

theorem download_stores:
  assumes "strtol16 p = (av, x # p1)" "strtol16 p1 = (nv, y # cs @ r)" "unat (to_u32 nv) = length cs" "cs \<noteq> []"
    and "\<forall>j < length cs. find_dev (mem_devs (gmcu g)) ((to_u32 av + of_nat j) AND NOT 1) = Some i"
    and "array_of (backend (mem_devs (gmcu g) ! i)) = Some f" "\<not> bit (offset (mem_devs (gmcu g) ! i)) 0"
    and "k = unat (to_u32 av - offset (mem_devs (gmcu g) ! i))" "k + length cs < 2 ^ 32" "\<not> unlocked (gmcu g)"
  shows "\<exists>h g'. gdb_command 0x58 p g = Inr g' \<and> gmcu g' = set_array i h (gmcu g)
     \<and> g' = gdb_reply (ascii ''OK'') (g\<lparr>gmcu := set_array i h (gmcu g)\<rparr>)
     \<and> (\<forall>j < length cs. h (k + j) = cs ! j)
     \<and> (\<forall>z. z < k \<or> k + length cs < z \<longrightarrow> h z = f z)
     \<and> h (k + length cs) = (if odd (k + length cs) \<and> bit (last cs) 7 then 0xFF else f (k + length cs))"
proof -
  let ?m = "snd (mcu_unlock (gmcu g))" and ?h = "pokes k cs f"
  have "write_mem_loop (length cs) (to_u32 av) (cs @ r) ?m = Inr (True, set_array i ?h ?m)"
    using write_mem_array [of cs ?m "to_u32 av" i f r] assms(4-10) by (auto simp: mcu_unlock_def)
  moreover have "snd (mcu_lock (set_array i ?h ?m)) = set_array i ?h (gmcu g)"
    using assms(10) by (cases "gmcu g") (simp add: mcu_lock_def mcu_unlock_def set_array_def set_backend_def)
  ultimately have "gdb_command 0x58 p g = Inr (gdb_reply (ascii ''OK'') (g\<lparr>gmcu := set_array i ?h (gmcu g)\<rparr>))"
    using assms(1-3) by (simp add: gdb_command_def)
  then show ?thesis
    by (intro exI [of _ ?h] exI [of _ "gdb_reply (ascii ''OK'') (g\<lparr>gmcu := set_array i ?h (gmcu g)\<rparr>)"])
      (simp add: pokes_inside pokes_outside pokes_next assms(4))
qed

theorem download_stores_witness:
  "\<exists>h g'. gdb_command 0x58 (ascii ''10000000,1:'' @ [0x80, 0]) demo_gdb = Inr g'
     \<and> gmcu g' = set_array 2 h (gmcu demo_gdb) \<and> h 0 = 0x80 \<and> h 1 = 0xFF \<and> h 2 = 0"
proof -
  have d: "mem_devs (gmcu demo_gdb) = mem_devs demo_mcu" "\<not> unlocked (gmcu demo_gdb)"
    by (simp_all add: demo_gdb_def gdb_create_def mcu_add_callbacks_def demo_regs)
  have s: "strtol16 (ascii ''10000000,1:'' @ [0x80, 0]) = (0x10000000, 0x2C # [0x31, 0x3A, 0x80, 0])"
    "strtol16 [0x31, 0x3A, 0x80, 0] = (1, 0x3A # [0x80] @ [0])"
    by (simp_all add: strtol16_def ascii_def is_space_def hex_digit_def Let_def)
  have w: "\<forall>j < length [0x80 :: u8]. find_dev (mem_devs (gmcu demo_gdb)) ((to_u32 0x10000000 + of_nat j) AND NOT 1) = Some 2"
    "array_of (backend (mem_devs (gmcu demo_gdb) ! 2)) = Some (\<lambda>_. 0)" "offset (mem_devs (gmcu demo_gdb) ! 2) = 0x10000000"
    by (simp_all add: d demo_mcu_def unittest_dev_create_def uart_dev_create_def in_window_def)
  obtain h g' where "gdb_command 0x58 (ascii ''10000000,1:'' @ [0x80, 0]) demo_gdb = Inr g'" "gmcu g' = set_array 2 h (gmcu demo_gdb)"
    and h: "\<forall>j < length [0x80 :: u8]. h (0 + j) = [0x80] ! j" "\<forall>z. z < 0 \<or> 0 + length [0x80 :: u8] < z \<longrightarrow> h z = 0"
      "h (0 + length [0x80 :: u8]) = (if odd (0 + length [0x80 :: u8]) \<and> bit (last [0x80 :: u8]) 7 then 0xFF else 0)"
    using download_stores [OF s _ _ w(1,2)] w(3) d(2) by auto
  moreover have "h 0 = 0x80" "h 1 = 0xFF" "h 2 = 0" using h by auto
  ultimately show ?thesis by blast
qed

section \<open>Registers\<close>

definition byte_of :: "u32 \<Rightarrow> nat \<Rightarrow> u8" where
  "byte_of v i = ucast (drop_bit (i * 8) v AND 0xFF)"

text \<open>The value whose most significant byte is the least significant one of \<open>v\<close>, and so on.\<close>

definition reversed :: "u32 \<Rightarrow> u32" where
  "reversed v = of_nat (((unat (byte_of v 0) * 256 + unat (byte_of v 1)) * 256 + unat (byte_of v 2)) * 256 + unat (byte_of v 3))"

lemma hex_text_4: "hex_text 0 4 v = hex_byte (byte_of v 0) @ hex_byte (byte_of v 1) @ hex_byte (byte_of v 2) @ hex_byte (byte_of v 3)"
  by (simp add: numeral_eq_Suc byte_of_def)

lemma strtol16_plain:
  assumes "d \<le> 0xF" "\<not> (\<exists>c r'. r = c # r' \<and> (c = 0x78 \<or> c = 0x58))"
  shows "strtol16 (TO_HEX d # r) = (min (int (fst (hex_digits (TO_HEX d # r) 0))) (2 ^ 63 - 1), snd (hex_digits (TO_HEX d # r) 0))"
  using hex_char [OF assms(1)] assms(2)
  by (auto simp: strtol16_def Let_def case_prod_beta split: list.split)

lemma strtol16_reg_text: "to_u32 (fst (strtol16 (hex_text 0 4 v @ 0 # q))) = reversed v"
proof -
  have "TO_HEX (byte_of v 0 AND 0xF) \<noteq> 0x78 \<and> TO_HEX (byte_of v 0 AND 0xF) \<noteq> 0x58"
    using hex_char(3) [OF nibbles(2)] by blast
  then have "fst (strtol16 (hex_text 0 4 v @ 0 # q)) = min (int (fst (hex_digits (hex_text 0 4 v @ 0 # q) 0))) (2 ^ 63 - 1)"
    using strtol16_plain [OF nibbles(1) [of "byte_of v 0"]] by (simp add: hex_text_4 hex_byte_def)
  moreover have "fst (hex_digits (hex_text 0 4 v @ 0 # q) 0) =
      ((unat (byte_of v 0) * 256 + unat (byte_of v 1)) * 256 + unat (byte_of v 2)) * 256 + unat (byte_of v 3)"
    by (simp add: hex_text_4 hex_digits_byte hex_digit_def)
  moreover have "((unat (byte_of v 0) * 256 + unat (byte_of v 1)) * 256 + unat (byte_of v 2)) * 256 + unat (byte_of v 3) < 2 ^ 32"
    using byte_less [of "byte_of v 0"] byte_less [of "byte_of v 1"] byte_less [of "byte_of v 2"] byte_less [of "byte_of v 3"]
    by simp
  moreover have "to_u32 (min (int n) (2 ^ 63 - 1)) = of_nat n" if "n < 2 ^ 32" for n
  proof -
    have "int n \<le> 2 ^ 63 - 1" using that by simp
    then show ?thesis by (simp add: min_absorb1)
  qed
  ultimately show ?thesis unfolding reversed_def by metis
qed

text \<open>
  Registers are printed least significant byte first (command \<open>p\<close>, as for \<open>g\<close>) but parsed most
  significant byte first (command \<open>P\<close>): writing back the text that was read for a register leaves
  its bytes reversed, and nothing else changed.
\<close>

theorem register_text_reversed:
  assumes "connected g" "12 \<le> writes_left g" "r < 13" "v = regs (gmcu g) r"
  shows "\<exists>s g1 g2. gdb_command 0x70 (TO_HEX (of_nat r) # 0 # q) g = Inr g1 \<and> gout g1 = gout g @ framed s
     \<and> gdb_command 0x50 (TO_HEX (of_nat r) # 0x3D # s @ 0 # q) g = Inr g2
     \<and> gmcu g2 = (gmcu g)\<lparr>regs := (regs (gmcu g))(r := reversed v)\<rparr>"
proof -
  have nib: "(of_nat r :: u8) \<le> 0xF" "unat (of_nat r :: u8) = r"
    using assms(3) by (simp_all add: word_le_nat_alt unat_of_nat)
  have reg: "strtol16 (TO_HEX (of_nat r) # c # x) = (int r, c # x)" if "c = 0 \<or> c = 0x3D" for c x
    using strtol16_plain [OF nib(1), of "c # x"] hex_char(1) [OF nib(1)] nib(2) assms(3) that
    by (auto simp: hex_digit_def min_def)
  have ix: "unat (of_nat r :: u32) = r" using assms(3) by (simp add: unat_of_nat)
  let ?b = "g\<lparr>packet_checksum := 0, writes_left := writes_left g - 1, gout := gout g @ [0x24]\<rparr>"
  let ?s = "hex_text 0 4 v"
  have "gdb_send_reg r ?b = after_sending ?s ?b"
    using send_hex [of ?b 4 0 v] assms by (simp add: gdb_send_reg_def gdb_send_packet_hex_def mcu_read_reg_def)
  then have 1: "gdb_command 0x70 (TO_HEX (of_nat r) # 0 # q) g = Inr (snd (gdb_send_packet_end (after_sending ?s ?b)))"
    using send_begin [of g] assms(1-3) by (simp add: gdb_command_def reg ix Let_def)
  have 2: "gout (snd (gdb_send_packet_end (after_sending ?s ?b))) = gout g @ framed ?s"
  proof -
    have "connected (after_sending ?s ?b)" "3 \<le> writes_left (after_sending ?s ?b)" using assms(1,2) by simp_all
    then show ?thesis using send_end [of "after_sending ?s ?b"] by (auto simp: framed_def)
  qed
  have 3: "gdb_command 0x50 (TO_HEX (of_nat r) # 0x3D # ?s @ 0 # q) g =
      Inr (gdb_reply (ascii ''OK'') (g\<lparr>gmcu := mcu_write_reg r (reversed v) (gmcu g)\<rparr>))"
    using assms(3) strtol16_reg_text [of v q] by (simp add: gdb_command_def reg ix Let_def)
  have "mcu_write_reg r (reversed v) (gmcu g) = (gmcu g)\<lparr>regs := (regs (gmcu g))(r := reversed v)\<rparr>"
    using assms(3) by (simp add: mcu_write_reg_def set_reg_def)
  then have 4: "gmcu (gdb_reply (ascii ''OK'') (g\<lparr>gmcu := mcu_write_reg r (reversed v) (gmcu g)\<rparr>)) =
      (gmcu g)\<lparr>regs := (regs (gmcu g))(r := reversed v)\<rparr>" by simp
  show ?thesis by (intro exI conjI, rule 1, rule 2, rule 3, rule 4)
qed

theorem register_text_reversed_witness:
  "let g = demo_gdb\<lparr>gmcu := set_reg 3 0x11223344 demo_mcu\<rparr>
   in \<exists>s g1 g2. gdb_command 0x70 [TO_HEX (of_nat 3), 0] g = Inr g1 \<and> gout g1 = framed s
     \<and> gdb_command 0x50 (TO_HEX (of_nat 3) # 0x3D # s @ [0]) g = Inr g2 \<and> regs (gmcu g2) 3 = 0x44332211"
proof -
  let ?g = "demo_gdb\<lparr>gmcu := set_reg 3 0x11223344 demo_mcu\<rparr>"
  have "connected ?g" "12 \<le> writes_left ?g" "gout ?g = []" "regs (gmcu ?g) 3 = 0x11223344"
    by (simp_all add: demo_gdb_def gdb_create_def set_reg_def)
  moreover have "reversed 0x11223344 = 0x44332211" by (simp add: reversed_def byte_of_def)
  ultimately show ?thesis using register_text_reversed [of ?g 3 "0x11223344" "[]"] by (auto simp: Let_def) fastforce
qed

end
