(* ===== verification/Sim_Elf.thy ===== *)
theory Sim_Elf
  imports Sim_Gdb
begin

text \<open>
  Loading the firmware and starting the simulator: \<^verbatim>\<open>src/tools/simulator/core/elf.c\<close> and \<open>main\<close>
  of \<^verbatim>\<open>src/tools/simulator/simulator.c\<close>.

  \<^item> An open file is its bytes, a position and the outcomes of the coming system calls (when the
    list is used up, they succeed). \<open>read\<close> returns what is left of the file, at most what was
    asked for, and the loader looks at errors only: what a short read does not fill is what the
    variable on the stack held before, the arguments \<open>hjunk\<close>, \<open>pjunk\<close> and \<open>bjunk\<close>.
  \<^item> The host is little endian and the header structures have no padding.
  \<^item> Option parsing is replaced by its results; the event loop is the repeated call of \<open>idle_cb\<close> in
    \<^verbatim>\<open>Sim_Machine\<close> and of \<open>gdb_read_callback\<close> in \<^verbatim>\<open>Sim_Gdb\<close>.

  Shown: the loader never leaves the machine unlocked, loads the segments byte for byte, and the
  simulator starts the firmware it was given.
\<close>

section \<open>Files\<close>

record fdesc =
  fbytes :: "u8 list"
  fpos :: nat
  outcomes :: "bool list"

definition sys_call :: "fdesc \<Rightarrow> bool \<times> fdesc" where
  "sys_call fd = (case outcomes fd of [] \<Rightarrow> (True, fd) | b # bs \<Rightarrow> (b, fd\<lparr>outcomes := bs\<rparr>))"

definition lseek :: "nat \<Rightarrow> fdesc \<Rightarrow> bool \<times> fdesc" where
  "lseek off fd = (let (ok, fd) = sys_call fd in if ok then (True, fd\<lparr>fpos := off\<rparr>) else (False, fd))"

definition file_read :: "nat \<Rightarrow> fdesc \<Rightarrow> u8 list option \<times> fdesc" where
  "file_read n fd =
     (let (ok, fd) = sys_call fd; bs = take n (drop (fpos fd) (fbytes fd))
      in if ok then (Some bs, fd\<lparr>fpos := fpos fd + length bs\<rparr>) else (None, fd))"

text \<open>A buffer into which \<open>bs\<close> was read.\<close>

definition fill :: "u8 list \<Rightarrow> u8 list \<Rightarrow> u8 list" where
  "fill buf bs = bs @ drop (length bs) buf"

definition le16 :: "u8 list \<Rightarrow> nat \<Rightarrow> u16" where
  "le16 b i = ucast (b ! i) OR push_bit 8 (ucast (b ! (i + 1)))"

definition le32 :: "u8 list \<Rightarrow> nat \<Rightarrow> u32" where
  "le32 b i = ucast (le16 b i) OR push_bit 16 (ucast (le16 b (i + 2)))"

section \<open>Headers\<close>

record elf_header =
  ident :: "u8 list"
  e_type :: u16
  machine :: u16
  version :: u32
  entry :: u32
  phoff :: u32
  shoff :: u32
  e_flags :: u32
  ehsize :: u16
  phentsize :: u16
  phnum :: u16
  shentsize :: u16
  shnum :: u16
  shstrndex :: u16

definition elf_header_of :: "u8 list \<Rightarrow> elf_header" where
  "elf_header_of b = \<lparr>ident = take 16 b, e_type = le16 b 16, machine = le16 b 18, version = le32 b 20,
     entry = le32 b 24, phoff = le32 b 28, shoff = le32 b 32, e_flags = le32 b 36, ehsize = le16 b 40,
     phentsize = le16 b 42, phnum = le16 b 44, shentsize = le16 b 46, shnum = le16 b 48, shstrndex = le16 b 50\<rparr>"

abbreviation ELF_PROG_TYPE_LOAD :: u32 where "ELF_PROG_TYPE_LOAD \<equiv> 1"

record elf_prog_header =
  p_type :: u32
  p_offset :: u32
  vaddr :: u32
  paddr :: u32
  filesz :: u32
  memz :: u32
  p_flags :: u32
  p_align :: u32

definition elf_prog_header_of :: "u8 list \<Rightarrow> elf_prog_header" where
  "elf_prog_header_of b = \<lparr>p_type = le32 b 0, p_offset = le32 b 4, vaddr = le32 b 8, paddr = le32 b 12,
     filesz = le32 b 16, memz = le32 b 20, p_flags = le32 b 24, p_align = le32 b 28\<rparr>"

section \<open>Loading\<close>

text \<open>The loop over the bytes of a segment, with the number of bytes to go.\<close>

fun load_bytes :: "u8 \<Rightarrow> nat \<Rightarrow> u32 \<Rightarrow> mcu \<Rightarrow> fdesc \<Rightarrow> bool \<times> mcu \<times> fdesc" where
  "load_bytes bjunk 0 addr m fd = (True, m, fd)"
| "load_bytes bjunk (Suc n) addr m fd =
     (case file_read 1 fd of
        (None, fd) \<Rightarrow> (False, snd (mcu_lock m), fd)
      | (Some bs, fd) \<Rightarrow>
          (let (ok, m) = mcu_util_write8 addr (fill [bjunk] bs ! 0) m
           in if \<not> ok then (False, snd (mcu_lock m), fd) else load_bytes bjunk n (addr + 1) m fd))"

definition load_segment :: "u8 \<Rightarrow> elf_prog_header \<Rightarrow> mcu \<Rightarrow> fdesc \<Rightarrow> bool \<times> mcu \<times> fdesc" where
  "load_segment bjunk ph m fd =
     (if p_type ph = ELF_PROG_TYPE_LOAD
      then (case lseek (unat (p_offset ph)) fd of
              (False, fd) \<Rightarrow> (False, snd (mcu_lock m), fd)
            | (True, fd) \<Rightarrow> load_bytes bjunk (unat (filesz ph)) (paddr ph) m fd)
      else (True, m, fd))"

text \<open>The loop over the program headers, with the numbers of the headers to go.\<close>

fun load_headers :: "u8 list \<Rightarrow> u8 \<Rightarrow> elf_header \<Rightarrow> nat list \<Rightarrow> mcu \<Rightarrow> fdesc \<Rightarrow> bool \<times> mcu \<times> fdesc" where
  "load_headers pjunk bjunk h [] m fd = (True, m, fd)"
| "load_headers pjunk bjunk h (i # is) m fd =
     (case lseek (unat (phoff h + of_nat (i * unat (phentsize h)))) fd of
        (False, fd) \<Rightarrow> (False, snd (mcu_lock m), fd)
      | (True, fd) \<Rightarrow>
          (case file_read 32 fd of
             (None, fd) \<Rightarrow> (False, snd (mcu_lock m), fd)
           | (Some bs, fd) \<Rightarrow>
               (case load_segment bjunk (elf_prog_header_of (fill pjunk bs)) m fd of
                  (False, m, fd) \<Rightarrow> (False, m, fd)
                | (True, m, fd) \<Rightarrow> load_headers pjunk bjunk h is m fd)))"

definition is_elf :: "elf_header \<Rightarrow> bool" where
  "is_elf h \<longleftrightarrow> ident h ! 0 = 0x7F \<and> ident h ! 1 = 0x45 \<and> ident h ! 2 = 0x4C \<and> ident h ! 3 = 0x46"

definition elf_load_fd :: "u8 list \<Rightarrow> u8 list \<Rightarrow> u8 \<Rightarrow> mcu \<Rightarrow> fdesc \<Rightarrow> bool \<times> mcu \<times> fdesc" where
  "elf_load_fd hjunk pjunk bjunk m fd =
     (case lseek 0 fd of
        (False, fd) \<Rightarrow> (False, m, fd)
      | (True, fd) \<Rightarrow>
          (case file_read 52 fd of
             (None, fd) \<Rightarrow> (False, m, fd)
           | (Some bs, fd) \<Rightarrow>
               (let h = elf_header_of (fill hjunk bs)
                in if \<not> is_elf h then (False, m, fd)
                   else (case load_headers pjunk bjunk h [0..<unat (phnum h)] (snd (mcu_unlock m)) fd of
                           (False, m, fd) \<Rightarrow> (False, m, fd)
                         | (True, m, fd) \<Rightarrow> (True, snd (mcu_lock m), fd)))))"

text \<open>\<open>open\<close> gives the file or fails.\<close>

definition elf_load :: "u8 list \<Rightarrow> u8 list \<Rightarrow> u8 \<Rightarrow> mcu \<Rightarrow> fdesc option \<Rightarrow> bool \<times> mcu" where
  "elf_load hjunk pjunk bjunk m file =
     (case file of
        None \<Rightarrow> (False, m)
      | Some fd \<Rightarrow> (let (success, m, fd) = elf_load_fd hjunk pjunk bjunk m fd in (success, m)))"

section \<open>The simulator\<close>

datatype main_result = Exit int | Started gdb

text \<open>
  \<open>main\<close> up to the event loop: \<open>firmware\<close> is the file of the option \<open>-f\<close>, if it was given,
  and \<open>gbuf\<close> the receive buffer of the debugger stub when its socket could be set up.
\<close>

definition simulator_main ::
    "u8 list \<Rightarrow> u8 list \<Rightarrow> u8 \<Rightarrow> bool \<Rightarrow> fdesc option option \<Rightarrow> (nat \<Rightarrow> u8) \<Rightarrow> u8 list option \<Rightarrow> main_result" where
  "simulator_main hjunk pjunk bjunk wait_for_gdb firmware ram0 gbuf =
     (case mcu_cortex_m0p_create (8 * 1024) ram0 of
        None \<Rightarrow> Exit (- 1)
      | Some m \<Rightarrow>
          (case gbuf of
             None \<Rightarrow> Exit (- 1)
           | Some buf \<Rightarrow>
               (let g = gdb_create buf m;
                    (flashed, m) = (case firmware of
                       None \<Rightarrow> (True, gmcu g)
                     | Some file \<Rightarrow> elf_load hjunk pjunk bjunk (gmcu g) file)
                in if \<not> flashed then Exit (- 1)
                   else
                     (let (ok, m) = mcu_reset m
                      in if \<not> ok then Exit (- 1)
                         else Started (g\<lparr>gmcu := (if wait_for_gdb then m else mcu_resume m)\<rparr>)))))"

section \<open>The lock\<close>

lemma load_bytes_fail: "load_bytes bj n a m fd = (False, m', fd') \<Longrightarrow> \<not> unlocked m'"
  by (induction n arbitrary: a m fd) (auto simp: mcu_lock_def split: prod.splits option.splits if_splits)

lemma load_segment_fail: "load_segment bj ph m fd = (False, m', fd') \<Longrightarrow> \<not> unlocked m'"
  by (auto simp: load_segment_def mcu_lock_def dest: load_bytes_fail split: prod.splits if_splits bool.splits)

lemma load_headers_fail: "load_headers pj bj h is m fd = (False, m', fd') \<Longrightarrow> \<not> unlocked m'"
  by (induction "is" arbitrary: m fd)
    (auto simp: mcu_lock_def dest: load_segment_fail split: prod.splits option.splits bool.splits)

lemma elf_load_fd_locked:
  assumes "elf_load_fd hj pj bj m fd = (ok, m', fd')" "\<not> unlocked m"
  shows "\<not> unlocked m'"
  using assms load_headers_fail
  by (auto simp: elf_load_fd_def Let_def mcu_lock_def split: prod.splits option.splits bool.splits if_splits)

section \<open>Segments\<close>

text \<open>Bytes written one after the other from an index on.\<close>

definition overlay :: "nat \<Rightarrow> u8 list \<Rightarrow> (nat \<Rightarrow> u8) \<Rightarrow> nat \<Rightarrow> u8" where
  "overlay k cs f x = (if k \<le> x \<and> x < k + length cs then cs ! (x - k) else f x)"

lemma overlay_Nil [simp]: "overlay k [] f = f"
  by (auto simp: overlay_def fun_eq_iff)

lemma overlay_Cons: "overlay k (c # cs) f = overlay (k + 1) cs (f(k := c))"
  by (auto simp: overlay_def fun_eq_iff nth_Cons' less_Suc_eq_le Suc_le_eq)

lemma wr16_byte_low: "wr16 j ((rd16 f j AND 0xFF00) OR ucast c) f = f(j := c)"
proof -
  have m: "(0xFF00 :: u16) = push_bit 8 (mask 8)" by (simp add: mask_eq_exp_minus_1 push_bit_eq_mult)
  have "ucast ((rd16 f j AND 0xFF00) OR ucast c) = c" "ucast (drop_bit 8 ((rd16 f j AND 0xFF00) OR ucast c)) = f (j + 1)"
    unfolding m by (rule bit_word_eqI; auto simp: bit_simps rd16_def dest: bit_imp_le_length)+
  then show ?thesis by (simp add: wr16_def fun_eq_iff)
qed

lemma wr16_byte_high: "wr16 j ((rd16 f j AND 0x00FF) OR push_bit 8 (ucast c)) f = f(j + 1 := c)"
proof -
  have m: "(0x00FF :: u16) = mask 8" by (simp add: mask_eq_exp_minus_1)
  have "ucast ((rd16 f j AND 0x00FF) OR push_bit 8 (ucast c)) = f j"
    "ucast (drop_bit 8 ((rd16 f j AND 0x00FF) OR push_bit 8 (ucast c))) = c"
    unfolding m by (rule bit_word_eqI; auto simp: bit_simps rd16_def dest: bit_imp_le_length)+
  then show ?thesis by (simp add: wr16_def fun_eq_iff)
qed

lemma write8_array:
  fixes m i a
  defines "d \<equiv> mem_devs m ! i"
  assumes "find_dev (mem_devs m) (a AND NOT 1) = Some i" "array_of (backend d) = Some f"
    and "unlocked m" "\<not> bit (offset d) 0"
  shows "mcu_util_write8 a c m = (True, set_array i (f(unat (a - offset d) := c)) m)"
proof -
  let ?k = "unat (a - offset d)"
  let ?j = "2 * (?k div 2)"
  note ix = half_index [OF assms(5), of a]
  have fetch: "mcu_fetch16 (a AND NOT 1) m = Some (rd16 f ?j)"
    using assms(2,3) ix(1) unfolding d_def by (cases "backend (mem_devs m ! i)") (simp_all add: mem_defs)
  have store: "mcu_write16 (a AND NOT 1) v m = (True, set_array i (wr16 ?j v f) m)" for v
    using assms(2,3,4) ix(1) unfolding d_def
    by (cases "backend (mem_devs m ! i)") (simp_all add: mem_defs set_array_def)
  have "wr16 ?j (if bit a 0 then (rd16 f ?j AND 0x00FF) OR push_bit 8 (ucast c) else (rd16 f ?j AND 0xFF00) OR ucast c) f
      = f(?k := c)"
    using ix(2) by (auto simp: wr16_byte_low wr16_byte_high odd_two_times_div_two_succ even_two_times_div_two)
  then show ?thesis unfolding mcu_util_write8_def fetch by (simp only: option.case Let_def store)
qed

text \<open>A range of addresses in the window of one device, which begins at an even address.\<close>

definition in_dev :: "nat \<Rightarrow> u32 \<Rightarrow> nat \<Rightarrow> mcu \<Rightarrow> bool" where
  "in_dev i a n m \<longleftrightarrow> (\<forall>j < n. find_dev (mem_devs m) ((a + of_nat j) AND NOT 1) = Some i)
     \<and> \<not> bit (offset (mem_devs m ! i)) 0 \<and> unat (a - offset (mem_devs m ! i)) + n < 2 ^ 32"

lemma in_dev_set [simp]: "in_dev i a n (set_array k h m) = in_dev i a n m"
proof -
  have "offset (mem_devs (set_array k h m) ! i) = offset (mem_devs m ! i)"
    by (cases "k = i"; cases "k < length (mem_devs m)") (simp_all add: set_array_def set_backend_def list_update_beyond not_less)
  then show ?thesis by (simp add: in_dev_def set_array_def set_backend_def)
qed

lemma set_array_id: "array_of (backend (mem_devs m ! d)) = Some f \<Longrightarrow> set_array d f m = m"
proof -
  assume "array_of (backend (mem_devs m ! d)) = Some f"
  then have "(mem_devs m ! d)\<lparr>backend := with_array (backend (mem_devs m ! d)) f\<rparr> = mem_devs m ! d"
    by (cases "mem_devs m ! d"; cases "backend (mem_devs m ! d)") auto
  then show ?thesis by (simp add: set_array_def set_backend_def)
qed

lemma load_bytes_array:
  assumes "in_dev i a (length cs) m" "array_of (backend (mem_devs m ! i)) = Some f" "unlocked m" "i < length (mem_devs m)"
    and "outcomes fd = []" "take (length cs) (drop (fpos fd) (fbytes fd)) = cs"
  shows "load_bytes bj (length cs) a m fd =
     (True, set_array i (overlay (unat (a - offset (mem_devs m ! i))) cs f) m, fd\<lparr>fpos := fpos fd + length cs\<rparr>)"
  using assms
proof (induction cs arbitrary: a m f fd)
  case Nil
  then show ?case by (simp add: set_array_id)
next
  case (Cons c cs)
  let ?o = "offset (mem_devs m ! i)"
  let ?k = "unat (a - ?o)"
  define g where "g = f(?k := c)"
  let ?m = "set_array i g m"
  obtain rest where rest: "drop (fpos fd) (fbytes fd) = c # rest" "take (length cs) rest = cs"
    using Cons.prems(6) by (cases "drop (fpos fd) (fbytes fd)") auto
  have rd: "file_read 1 fd = (Some [c], fd\<lparr>fpos := fpos fd + 1\<rparr>)"
  proof -
    have bs: "take 1 (drop (fpos fd) (fbytes fd)) = [c]" using rest(1) by simp
    show ?thesis unfolding file_read_def sys_call_def Cons.prems(5) by (simp only: list.case case_prod_conv Let_def bs) simp
  qed
  have f0: "find_dev (mem_devs m) (a AND NOT 1) = Some i"
    using Cons.prems(1) by (auto simp: in_dev_def dest: spec [of _ 0])
  have ev: "\<not> bit ?o 0" and sm: "?k + Suc (length cs) < 2 ^ 32" using Cons.prems(1) by (auto simp: in_dev_def)
  have wb: "mcu_util_write8 a c m = (True, ?m)" unfolding g_def by (rule write8_array [OF f0 Cons.prems(2,3) ev])
  have "a + 1 - ?o = (a - ?o) + 1" by simp
  then have k: "unat (a + 1 - ?o) = ?k + 1"
    using sm by (simp only:) (subst unat_plus_simple [THEN iffD1], auto simp: word_le_nat_alt unat_word_ariths)
  have dev: "offset (mem_devs ?m ! i) = ?o" "unlocked ?m = unlocked m" "length (mem_devs ?m) = length (mem_devs m)"
    "array_of (backend (mem_devs ?m ! i)) = Some g"
    using Cons.prems(2,4) by (simp_all add: set_array_def set_backend_def)
  have win: "in_dev i (a + 1) (length cs) ?m"
  proof -
    have "find_dev (mem_devs m) ((a + 1 + of_nat j) AND NOT 1) = Some i" if "j < length cs" for j
      using Cons.prems(1) that by (auto simp: in_dev_def add.assoc dest!: spec [of _ "Suc j"])
    then show ?thesis unfolding in_dev_set using ev sm k by (simp add: in_dev_def)
  qed
  have "drop (fpos fd + 1) (fbytes fd) = rest" using rest(1) by (metis drop_Suc drop_drop list.sel(3) add.commute plus_1_eq_Suc tl_drop)
  then have "load_bytes bj (length cs) (a + 1) ?m (fd\<lparr>fpos := fpos fd + 1\<rparr>) =
      (True, set_array i (overlay (?k + 1) cs g) ?m, fd\<lparr>fpos := fpos fd + 1 + length cs\<rparr>)"
    using Cons.IH [OF win dev(4)] dev Cons.prems(3-5) rest(2) k by simp
  then show ?case
    using rd wb set_array_twice [OF Cons.prems(4)] by (simp add: fill_def overlay_Cons g_def [symmetric])
qed

text \<open>The segments of a file: address and bytes of every program header of type \<open>LOAD\<close>.\<close>

definition prog_header :: "u8 list \<Rightarrow> elf_header \<Rightarrow> nat \<Rightarrow> elf_prog_header" where
  "prog_header bs h i =
     elf_prog_header_of (take 32 (drop (unat (phoff h + of_nat (i * unat (phentsize h)))) bs))"

definition segment_bytes :: "u8 list \<Rightarrow> elf_prog_header \<Rightarrow> u8 list" where
  "segment_bytes bs ph = take (unat (filesz ph)) (drop (unat (p_offset ph)) bs)"

definition segments :: "u8 list \<Rightarrow> elf_header \<Rightarrow> nat list \<Rightarrow> (u32 \<times> u8 list) list" where
  "segments bs h is = map (\<lambda>ph. (paddr ph, segment_bytes bs ph))
     (filter (\<lambda>ph. p_type ph = ELF_PROG_TYPE_LOAD) (map (prog_header bs h) is))"

text \<open>A header whose own bytes and whose segment are in the file, and lie in the device.\<close>

definition header_ok :: "u8 list \<Rightarrow> elf_header \<Rightarrow> nat \<Rightarrow> mcu \<Rightarrow> nat \<Rightarrow> bool" where
  "header_ok bs h d m i \<longleftrightarrow> unat (phoff h + of_nat (i * unat (phentsize h))) + 32 \<le> length bs
     \<and> (p_type (prog_header bs h i) = ELF_PROG_TYPE_LOAD \<longrightarrow>
          unat (p_offset (prog_header bs h i)) + unat (filesz (prog_header bs h i)) \<le> length bs
          \<and> in_dev d (paddr (prog_header bs h i)) (unat (filesz (prog_header bs h i))) m)"

lemma header_of_append:
  "length bs = 32 \<Longrightarrow> elf_prog_header_of (bs @ r) = elf_prog_header_of bs"
  "length bs = 52 \<Longrightarrow> elf_header_of (bs @ r) = elf_header_of bs"
  by (simp_all add: elf_prog_header_of_def elf_header_of_def le32_def le16_def nth_append)

lemma load_segment_array:
  assumes "p_type ph = ELF_PROG_TYPE_LOAD \<longrightarrow> unat (p_offset ph) + unat (filesz ph) \<le> length (fbytes fd)
      \<and> in_dev d (paddr ph) (unat (filesz ph)) m"
    and "array_of (backend (mem_devs m ! d)) = Some f" "unlocked m" "d < length (mem_devs m)" "outcomes fd = []"
  shows "\<exists>p. load_segment bj ph m fd = (True, set_array d
     (if p_type ph = ELF_PROG_TYPE_LOAD
      then overlay (unat (paddr ph - offset (mem_devs m ! d))) (segment_bytes (fbytes fd) ph) f else f) m, fd\<lparr>fpos := p\<rparr>)"
proof (cases "p_type ph = ELF_PROG_TYPE_LOAD")
  case True
  let ?cs = "segment_bytes (fbytes fd) ph"
  have len: "length ?cs = unat (filesz ph)" using assms(1) True by (auto simp: segment_bytes_def min_def)
  have sk: "lseek (unat (p_offset ph)) fd = (True, fd\<lparr>fpos := unat (p_offset ph)\<rparr>)"
    using assms(5) by (simp add: lseek_def sys_call_def)
  have "load_bytes bj (length ?cs) (paddr ph) m (fd\<lparr>fpos := unat (p_offset ph)\<rparr>) =
      (True, set_array d (overlay (unat (paddr ph - offset (mem_devs m ! d))) ?cs f) m,
       fd\<lparr>fpos := unat (p_offset ph) + length ?cs\<rparr>)"
    using load_bytes_array [of d "paddr ph" ?cs m f "fd\<lparr>fpos := unat (p_offset ph)\<rparr>" bj] assms True len
    by (simp add: segment_bytes_def)
  then show ?thesis
    using True sk len by (intro exI [of _ "unat (p_offset ph) + length ?cs"]) (simp add: load_segment_def)
next
  case False
  then show ?thesis
    using set_array_id [OF assms(2)] by (intro exI [of _ "fpos fd"]) (simp add: load_segment_def)
qed

lemma load_headers_array:
  assumes "\<forall>i \<in> set is. header_ok (fbytes fd) h d m i" "array_of (backend (mem_devs m ! d)) = Some f" "unlocked m"
    and "d < length (mem_devs m)" "outcomes fd = []"
  shows "\<exists>p. load_headers pj bj h is m fd = (True, set_array d
     (fold (\<lambda>(a, cs). overlay (unat (a - offset (mem_devs m ! d))) cs) (segments (fbytes fd) h is) f) m, fd\<lparr>fpos := p\<rparr>)"
  using assms
proof (induction "is" arbitrary: m f fd)
  case Nil
  then show ?case by (intro exI [of _ "fpos fd"]) (simp add: segments_def set_array_id)
next
  case (Cons i "is")
  let ?bs = "fbytes fd" and ?ph = "prog_header (fbytes fd) h i"
  let ?pos = "unat (phoff h + of_nat (i * unat (phentsize h)))"
  let ?fd = "fd\<lparr>fpos := ?pos + 32\<rparr>"
  have ok: "header_ok ?bs h d m i" using Cons.prems(1) by simp
  then have l32: "length (take 32 (drop ?pos ?bs)) = 32" by (auto simp: header_ok_def min_def)
  then have rd: "lseek ?pos fd = (True, fd\<lparr>fpos := ?pos\<rparr>)"
    "file_read 32 (fd\<lparr>fpos := ?pos\<rparr>) = (Some (take 32 (drop ?pos ?bs)), ?fd)"
    using Cons.prems(5) by (simp_all add: lseek_def file_read_def sys_call_def)
  let ?g = "if p_type ?ph = ELF_PROG_TYPE_LOAD
      then overlay (unat (paddr ?ph - offset (mem_devs m ! d))) (segment_bytes ?bs ?ph) f else f"
  let ?m = "set_array d ?g m"
  have ph: "elf_prog_header_of (fill pj (take 32 (drop ?pos ?bs))) = ?ph"
    using header_of_append(1) [OF l32] by (simp only: fill_def prog_header_def)
  obtain p where seg: "load_segment bj ?ph m ?fd = (True, ?m, fd\<lparr>fpos := p\<rparr>)"
    using load_segment_array [of ?ph ?fd d m f bj] ok Cons.prems(2-5) by (auto simp: header_ok_def)
  have dev: "offset (mem_devs ?m ! d) = offset (mem_devs m ! d)" "unlocked ?m = unlocked m"
    "length (mem_devs ?m) = length (mem_devs m)" "array_of (backend (mem_devs ?m ! d)) = Some ?g"
    using Cons.prems(2,4) by (simp_all add: set_array_def set_backend_def)
  have hs: "\<forall>i \<in> set is. header_ok ?bs h d ?m i" using Cons.prems(1) by (simp add: header_ok_def)
  obtain q where "load_headers pj bj h is ?m (fd\<lparr>fpos := p\<rparr>) = (True, set_array d
     (fold (\<lambda>(a, cs). overlay (unat (a - offset (mem_devs m ! d))) cs) (segments ?bs h is) ?g) ?m, fd\<lparr>fpos := q\<rparr>)"
    using Cons.IH [of "fd\<lparr>fpos := p\<rparr>" ?m ?g] hs dev Cons.prems(3-5) by auto
  then show ?case
    using rd ph seg set_array_twice [OF Cons.prems(4)] by (intro exI [of _ q]) (simp add: segments_def)
qed

text \<open>The contents of a device after the segments of a file were laid over it.\<close>

definition loaded :: "u8 list \<Rightarrow> u32 \<Rightarrow> (nat \<Rightarrow> u8) \<Rightarrow> nat \<Rightarrow> u8" where
  "loaded bs off f = fold (\<lambda>(a, cs). overlay (unat (a - off)) cs)
     (segments bs (elf_header_of bs) [0..<unat (phnum (elf_header_of bs))]) f"

definition file_ok :: "u8 list \<Rightarrow> nat \<Rightarrow> mcu \<Rightarrow> bool" where
  "file_ok bs d m \<longleftrightarrow> 52 \<le> length bs \<and> is_elf (elf_header_of bs)
     \<and> (\<forall>i < unat (phnum (elf_header_of bs)). header_ok bs (elf_header_of bs) d m i)"

lemma elf_header_take: "52 \<le> length bs \<Longrightarrow> elf_header_of (take 52 bs @ r) = elf_header_of bs"
  using header_of_append(2) [of "take 52 bs" r] header_of_append(2) [of "take 52 bs" "drop 52 bs"] by simp

lemma elf_load_fd_image:
  assumes "outcomes fd = []" "file_ok (fbytes fd) d m" "array_of (backend (mem_devs m ! d)) = Some f" "d < length (mem_devs m)"
  shows "\<exists>p. elf_load_fd hj pj bj m fd =
     (True, (set_array d (loaded (fbytes fd) (offset (mem_devs m ! d)) f) m)\<lparr>unlocked := False\<rparr>, fd\<lparr>fpos := p\<rparr>)"
proof -
  let ?bs = "fbytes fd" and ?h = "elf_header_of (fbytes fd)" and ?m = "m\<lparr>unlocked := True\<rparr>"
  have len: "52 \<le> length ?bs" using assms(2) by (simp add: file_ok_def)
  then have hd: "lseek 0 fd = (True, fd\<lparr>fpos := 0\<rparr>)"
    "file_read 52 (fd\<lparr>fpos := 0\<rparr>) = (Some (take 52 ?bs), fd\<lparr>fpos := 52\<rparr>)"
    using assms(1) by (simp_all add: lseek_def file_read_def sys_call_def min_absorb2)
  have "\<forall>i \<in> set [0..<unat (phnum ?h)]. header_ok ?bs ?h d ?m i"
    using assms(2) by (simp add: file_ok_def header_ok_def in_dev_def)
  then obtain p where "load_headers pj bj ?h [0..<unat (phnum ?h)] ?m (fd\<lparr>fpos := 52\<rparr>) =
      (True, set_array d (loaded ?bs (offset (mem_devs m ! d)) f) ?m, fd\<lparr>fpos := p\<rparr>)"
    using load_headers_array [of "[0..<unat (phnum ?h)]" "fd\<lparr>fpos := 52\<rparr>" ?h d ?m f pj bj] assms(1,3,4) by (auto simp: loaded_def)
  moreover have "(set_array d x ?m)\<lparr>unlocked := False\<rparr> = (set_array d x m)\<lparr>unlocked := False\<rparr>" for x
    by (simp add: set_array_def set_backend_def)
  ultimately show ?thesis
    using hd assms(2) elf_header_take [OF len]
    by (intro exI [of _ p]) (simp add: elf_load_fd_def Let_def fill_def file_ok_def mcu_unlock_def mcu_lock_def)
qed

section \<open>The created machine\<close>

lemma created_8k:
  "mcu_cortex_m0p_create (8 * 1024) ram0 = Some (mcu_zero\<lparr>mem_devs :=
     [unittest_dev_create\<lparr>offset := 0xEE000000\<rparr>, uart_dev_create\<lparr>offset := 0xE0000000\<rparr>,
      \<lparr>mem_class = mem_class_ram, mem_type = 1, offset = 0x10000000, mem_length = 0x2000, backend = Ram ram0\<rparr>,
      \<lparr>mem_class = mem_class_flash, mem_type = 1, offset = 0, mem_length = 0x8000, backend = Flash (\<lambda>_. 0xDE)\<rparr>]\<rparr>)"
  by (simp add: mcu_cortex_m0p_create_def flash_dev_create_def ram_dev_create_def mcu_add_mem_dev_def
      mcu_init_def mcu_zero_def Let_def)

section \<open>Properties\<close>

text \<open>A file with one segment of two words for address 0: a stack pointer and a Thumb address.\<close>

definition demo_elf :: "u8 list" where
  "demo_elf =
     [0x7F, 0x45, 0x4C, 0x46, 0, 0, 0, 0, 0, 0, 0, 0, 0, 0, 0, 0, 0, 0, 0, 0, 0, 0, 0, 0, 0, 0, 0, 0,
      52, 0, 0, 0, 0, 0, 0, 0, 0, 0, 0, 0, 0, 0, 32, 0, 1, 0, 0, 0, 0, 0, 0, 0,
      1, 0, 0, 0, 84, 0, 0, 0, 0, 0, 0, 0, 0, 0, 0, 0, 8, 0, 0, 0, 8, 0, 0, 0, 0, 0, 0, 0, 0, 0, 0, 0,
      0, 0x20, 0, 0x10, 1, 1, 0, 0]"

lemma demo_headers:
  "elf_header_of demo_elf = \<lparr>ident = take 16 demo_elf, e_type = 0, machine = 0, version = 0, entry = 0, phoff = 52,
     shoff = 0, e_flags = 0, ehsize = 0, phentsize = 32, phnum = 1, shentsize = 0, shnum = 0, shstrndex = 0\<rparr>"
  "prog_header demo_elf (elf_header_of demo_elf) 0 = \<lparr>p_type = 1, p_offset = 84, vaddr = 0, paddr = 0, filesz = 8,
     memz = 8, p_flags = 0, p_align = 0\<rparr>"
  by (simp_all add: elf_header_of_def prog_header_def elf_prog_header_of_def le32_def le16_def demo_elf_def)

lemma demo_image: "loaded demo_elf 0 f = overlay 0 [0, 0x20, 0, 0x10, 1, 1, 0, 0] f"
  unfolding loaded_def demo_headers(1)
  by (simp add: segments_def demo_headers(2) [unfolded demo_headers(1)] segment_bytes_def)
    (simp add: demo_elf_def)

lemma below_8: "j < 8 \<longleftrightarrow> j \<in> {0, 1, 2, 3, 4, 5, 6, 7 :: nat}"
  by auto

lemma demo_file_ok:
  assumes "mcu_cortex_m0p_create (8 * 1024) ram0 = Some m"
  shows "file_ok demo_elf 3 m"
proof -
  have "in_dev 3 0 8 m"
    using assms unfolding created_8k
    by (auto simp: in_dev_def below_8 in_window_def unittest_dev_create_def uart_dev_create_def)
  then show ?thesis
    by (simp add: file_ok_def demo_headers header_ok_def demo_headers(2) [unfolded demo_headers(1)])
      (simp add: demo_elf_def is_elf_def)
qed

text \<open>
  The loader is exact and never leaves the machine open: for every file and every failure of a
  system call a locked machine is locked afterwards, and a file that is not an ELF file changes nothing.
  When the file is an ELF file with its headers in it and no system call fails, and the segments to be loaded lie in
  one RAM or flash device, loading succeeds and changes nothing but the contents of that device,
  which are then the bytes of the segments laid over the old contents in the order of the headers.
\<close>

theorem firmware_loaded:
  assumes "\<not> unlocked m"
  shows "\<not> unlocked (snd (elf_load hj pj bj m file))
     \<and> (\<forall>fd. file = Some fd \<and> outcomes fd = [] \<and> 52 \<le> length (fbytes fd) \<and> \<not> is_elf (elf_header_of (fbytes fd)) \<longrightarrow>
          elf_load hj pj bj m file = (False, m))
     \<and> (\<forall>fd d f. file = Some fd \<and> outcomes fd = [] \<and> file_ok (fbytes fd) d m \<and> d < length (mem_devs m)
          \<and> array_of (backend (mem_devs m ! d)) = Some f \<longrightarrow>
          elf_load hj pj bj m file = (True, set_array d (loaded (fbytes fd) (offset (mem_devs m ! d)) f) m))"
proof (intro conjI allI impI)
  show "\<not> unlocked (snd (elf_load hj pj bj m file))"
    using assms elf_load_fd_locked [of hj pj bj m] by (auto simp: elf_load_def split: option.splits prod.splits)
next
  fix fd assume a: "file = Some fd \<and> outcomes fd = [] \<and> 52 \<le> length (fbytes fd) \<and> \<not> is_elf (elf_header_of (fbytes fd))"
  then show "elf_load hj pj bj m file = (False, m)"
    using elf_header_take [of "fbytes fd"]
    by (simp add: elf_load_def elf_load_fd_def lseek_def file_read_def sys_call_def fill_def min_absorb2)
next
  fix fd d f
  assume a: "file = Some fd \<and> outcomes fd = [] \<and> file_ok (fbytes fd) d m \<and> d < length (mem_devs m)
     \<and> array_of (backend (mem_devs m ! d)) = Some f"
  have "x\<lparr>unlocked := False\<rparr> = x" if "\<not> unlocked x" for x :: mcu using that by (cases x) simp
  moreover have "\<not> unlocked (set_array d h m)" for h using assms by (simp add: set_array_def set_backend_def)
  ultimately show "elf_load hj pj bj m file = (True, set_array d (loaded (fbytes fd) (offset (mem_devs m ! d)) f) m)"
    using a elf_load_fd_image [of fd d m f hj pj bj] by (auto simp: elf_load_def)
qed

theorem firmware_loaded_witness:
  "\<exists>m. mcu_cortex_m0p_create (8 * 1024) (\<lambda>_. 0) = Some m
     \<and> elf_load [] [] 0 m (Some \<lparr>fbytes = demo_elf, fpos = 7, outcomes = []\<rparr>) =
         (True, set_array 3 (overlay 0 [0, 0x20, 0, 0x10, 1, 1, 0, 0] (\<lambda>_. 0xDE)) m)"
proof -
  obtain m where m: "mcu_cortex_m0p_create (8 * 1024) (\<lambda>_. 0) = Some m" unfolding created_8k by simp
  then have "\<not> unlocked m" "length (mem_devs m) = 4" "offset (mem_devs m ! 3) = 0" "backend (mem_devs m ! 3) = Flash (\<lambda>_. 0xDE)"
    unfolding created_8k by (auto simp: mcu_zero_def)
  then show ?thesis
    using m demo_file_ok [OF m] demo_image firmware_loaded [of m "[]" "[]" 0 "Some \<lparr>fbytes = demo_elf, fpos = 7, outcomes = []\<rparr>",
        THEN conjunct2, THEN conjunct2, rule_format, of "\<lparr>fbytes = demo_elf, fpos = 7, outcomes = []\<rparr>" 3 "\<lambda>_. 0xDE"]
    by simp
qed

text \<open>
  C10. The simulator starts the firmware it was given: for an ELF file whose segments lie in the 32
  KiB of flash, whatever the memory of the process holds, the simulator ends with an error when
  the second word of the loaded flash is no Thumb address; otherwise it enters its event loop
  with the image in the locked flash, the first word in the main stack pointer and the address of the
  second in the program counter, two bytes further for the pipeline, and with the machine running
  unless it waits for the debugger.
\<close>

theorem simulator_starts_firmware:
  assumes "outcomes fd = []" "gbuf = Some buf"
    and "mcu_cortex_m0p_create (8 * 1024) ram0 = Some m0" "file_ok (fbytes fd) 3 m0"
    and "img = loaded (fbytes fd) 0 (\<lambda>_. 0xDE)"
  shows "if bit (rd32 img 4) 0
     then \<exists>g. simulator_main hj pj bj wait (Some (Some fd)) ram0 gbuf = Started g \<and> \<not> connected g
        \<and> \<not> unlocked (gmcu g) \<and> backend (mem_devs (gmcu g) ! 3) = Flash img
        \<and> regs (gmcu g) REG_MSP = rd32 img 0 \<and> regs (gmcu g) REG_PC = (rd32 img 4 + 2) AND NOT 1
        \<and> (mcu_is_halted (gmcu g) \<longleftrightarrow> wait)
     else simulator_main hj pj bj wait (Some (Some fd)) ram0 gbuf = Exit (- 1)"
proof -
  let ?g = "gdb_create buf m0" and ?m = "set_array 3 img (mcu_add_callbacks gdb_cb m0)"
  have m0: "m0 = mcu_zero\<lparr>mem_devs := mem_devs m0\<rparr>" "mem_devs m0 = [unittest_dev_create\<lparr>offset := 0xEE000000\<rparr>, uart_dev_create\<lparr>offset := 0xE0000000\<rparr>,
      \<lparr>mem_class = mem_class_ram, mem_type = 1, offset = 0x10000000, mem_length = 0x2000, backend = Ram ram0\<rparr>,
      \<lparr>mem_class = mem_class_flash, mem_type = 1, offset = 0, mem_length = 0x8000, backend = Flash (\<lambda>_. 0xDE)\<rparr>]"
    using assms(3) unfolding created_8k by auto
  have ok: "file_ok (fbytes fd) 3 (mcu_add_callbacks gdb_cb m0)"
    using assms(4) by (simp add: file_ok_def header_ok_def in_dev_def mcu_add_callbacks_def)
  obtain p where "elf_load_fd hj pj bj (mcu_add_callbacks gdb_cb m0) fd = (True, ?m\<lparr>unlocked := False\<rparr>, fd\<lparr>fpos := p\<rparr>)"
    using elf_load_fd_image [OF assms(1) ok, of "\<lambda>_. 0xDE" hj pj bj] m0(2) assms(5) by (auto simp: mcu_add_callbacks_def)
  then have ld: "elf_load hj pj bj (gmcu ?g) (Some fd) = (True, ?m\<lparr>unlocked := False\<rparr>)"
    by (simp add: elf_load_def gdb_create_def)
  have sts: "simulator_main hj pj bj wait (Some (Some fd)) ram0 gbuf =
      (case mcu_reset (?m\<lparr>unlocked := False\<rparr>) of (ok, m) \<Rightarrow>
         if ok then Started (?g\<lparr>gmcu := (if wait then m else mcu_resume m)\<rparr>) else Exit (- 1))"
    using assms(2,3) ld by (simp add: simulator_main_def Let_def split: prod.splits)
  have devs: "mem_devs (?m\<lparr>unlocked := False\<rparr>) = (mem_devs m0)[3 := (mem_devs m0 ! 3)\<lparr>backend := Flash img\<rparr>]"
    by (simp add: set_array_def set_backend_def mcu_add_callbacks_def m0(2))
  have fl: "mcu_fetch32 0 x = Some (rd32 img 0)" "mcu_fetch32 4 x = Some (rd32 img 4)"
    if "mem_devs x = (mem_devs m0)[3 := (mem_devs m0 ! 3)\<lparr>backend := Flash img\<rparr>]" for x
    using that by (simp_all add: m0(2) mem_defs in_window_def unittest_dev_create_def uart_dev_create_def idx32_def)
  have regs: "regs (?m\<lparr>unlocked := False\<rparr>) = (\<lambda>_. 0)" "run_state (?m\<lparr>unlocked := False\<rparr>) = mcu_halted"
    by (subst m0(1), simp add: set_array_def set_backend_def mcu_add_callbacks_def mcu_zero_def)+
  show ?thesis
    unfolding sts using fl devs regs
    by (auto simp: mcu_reset_def mcu_write_reg_def set_reg_def Let_def mcu_resume_def mcu_is_halted_def gdb_create_def m0(2))
qed

theorem simulator_starts_firmware_witness:
  "\<exists>g. simulator_main [] [] 0 False (Some (Some \<lparr>fbytes = demo_elf, fpos = 0, outcomes = []\<rparr>)) (\<lambda>_. 0) (Some []) = Started g
     \<and> regs (gmcu g) REG_MSP = 0x10002000 \<and> regs (gmcu g) REG_PC = 0x102 \<and> \<not> mcu_is_halted (gmcu g)"
proof -
  let ?fd = "\<lparr>fbytes = demo_elf, fpos = 0, outcomes = []\<rparr>"
  obtain m where m: "mcu_cortex_m0p_create (8 * 1024) (\<lambda>_. 0) = Some m" unfolding created_8k by simp
  have w: "rd32 (loaded demo_elf 0 (\<lambda>_. 0xDE)) 0 = 0x10002000" "rd32 (loaded demo_elf 0 (\<lambda>_. 0xDE)) 4 = 0x101"
    by (simp_all add: demo_image rd32_def rd16_def overlay_def)
  show ?thesis
    using simulator_starts_firmware [of ?fd "Some []" "[]" "\<lambda>_. 0" m _ "[]" "[]" 0 False, OF _ _ m _ refl]
      demo_file_ok [OF m] w by auto
qed

end
