(* ===== verification/Sim_Options.thy ===== *)
theory Sim_Options
  imports Sim_Elf
begin

text \<open>
  The options of the simulator: the first part of \<open>main\<close> in \<^verbatim>\<open>src/tools/simulator/simulator.c\<close>.

  \<^item> \<open>results\<close> is what the calls of \<open>getopt\<close> yield for the command line, each with its \<open>optarg\<close>, before the
    calls that yield -1. The result is kept in a \<open>char\<close>, which has a sign or not depending on
    the host: \<open>signed_char\<close>.
  \<^item> \<open>files\<close> gives the file of a name, if it can be opened. The help text is not shown.

  Shown: with signed characters the loop ends, each option has its last value, and the simulator starts
  with them; with unsigned characters it does not end.
\<close>

record sim_options =
  wait_for_gdb :: bool
  gdb_port :: int
  firmware_file :: "string option"

definition default_options :: sim_options where
  "default_options = \<lparr>wait_for_gdb = False, gdb_port = 1234, firmware_file = None\<rparr>"

text \<open>\<open>atol\<close> of the C library, on a number that \<open>long\<close> has, and its conversion to \<open>int\<close>.\<close>

definition is_digit :: "char \<Rightarrow> bool" where
  "is_digit c \<longleftrightarrow> 48 \<le> (of_char c :: nat) \<and> (of_char c :: nat) \<le> 57"

definition is_space :: "char \<Rightarrow> bool" where
  "is_space c \<longleftrightarrow> c = CHR 0x20 \<or> 9 \<le> (of_char c :: nat) \<and> (of_char c :: nat) \<le> 13"

definition digits_value :: "string \<Rightarrow> int" where
  "digits_value s = foldl (\<lambda>v c. 10 * v + (of_char c - 48)) 0 (takeWhile is_digit s)"

definition atol :: "string \<Rightarrow> int" where
  "atol s = (case dropWhile is_space s of
       [] \<Rightarrow> 0
     | c # t \<Rightarrow> if c = CHR ''-'' then - digits_value t else if c = CHR ''+'' then digits_value t else digits_value (c # t))"

definition to_int :: "int \<Rightarrow> int" where
  "to_int v = sint (of_int v :: 32 word)"

definition apply_option :: "char \<Rightarrow> string \<Rightarrow> sim_options \<Rightarrow> sim_options" where
  "apply_option ch optarg opts =
     (if ch = CHR ''g'' then opts\<lparr>wait_for_gdb := True\<rparr>
      else if ch = CHR ''p'' then opts\<lparr>gdb_port := to_int (atol optarg)\<rparr>
      else if ch = CHR ''f'' then opts\<lparr>firmware_file := Some optarg\<rparr>
      else opts)"

text \<open>The loop; the characters that \<open>getopt\<close> yields are not -1 as a \<open>char\<close>.\<close>

fun option_loop :: "bool \<Rightarrow> (char \<times> string) list \<Rightarrow> sim_options \<Rightarrow> sim_options option" where
  "option_loop signed_char [] opts = (if signed_char then Some opts else None)"
| "option_loop signed_char ((ch, optarg) # rs) opts =
     (if signed_char \<and> ch = CHR 0xFF then Some opts else option_loop signed_char rs (apply_option ch optarg opts))"

definition simulator_run ::
    "bool \<Rightarrow> (char \<times> string) list \<Rightarrow> (string \<Rightarrow> fdesc option) \<Rightarrow> u8 list \<Rightarrow> u8 list \<Rightarrow> u8 \<Rightarrow> (nat \<Rightarrow> u8) \<Rightarrow> u8 list option
      \<Rightarrow> main_result option" where
  "simulator_run signed_char results files hjunk pjunk bjunk ram0 gbuf =
     map_option (\<lambda>opts. simulator_main hjunk pjunk bjunk (wait_for_gdb opts) (map_option files (firmware_file opts)) ram0 gbuf)
       (option_loop signed_char results default_options)"

section \<open>The values of the options\<close>

definition last_value :: "char \<Rightarrow> (char \<times> string) list \<Rightarrow> string option" where
  "last_value ch rs = (let vs = [a. (c, a) \<leftarrow> rs, c = ch] in if vs = [] then None else Some (last vs))"

abbreviation apply_all :: "(char \<times> string) list \<Rightarrow> sim_options \<Rightarrow> sim_options" where
  "apply_all rs \<equiv> fold (\<lambda>(ch, a). apply_option ch a) rs"

lemma option_loop_all: "CHR 0xFF \<notin> fst ` set rs \<Longrightarrow> option_loop True rs opts = Some (apply_all rs opts)"
  by (induction rs arbitrary: opts) auto

lemma last_value_snoc: "last_value ch (rs @ [r]) = (if fst r = ch then Some (snd r) else last_value ch rs)"
  by (cases r) (simp add: last_value_def Let_def)

lemma apply_option_fields:
  "wait_for_gdb (apply_option ch a opts) = (wait_for_gdb opts \<or> ch = CHR ''g'')"
  "gdb_port (apply_option ch a opts) = (if ch = CHR ''p'' then to_int (atol a) else gdb_port opts)"
  "firmware_file (apply_option ch a opts) = (if ch = CHR ''f'' then Some a else firmware_file opts)"
  by (simp_all add: apply_option_def)

lemma apply_all_values:
  "wait_for_gdb (apply_all rs opts) = (wait_for_gdb opts \<or> CHR ''g'' \<in> fst ` set rs)"
  "gdb_port (apply_all rs opts) = (case last_value (CHR ''p'') rs of None \<Rightarrow> gdb_port opts | Some a \<Rightarrow> to_int (atol a))"
  "firmware_file (apply_all rs opts) = (case last_value (CHR ''f'') rs of None \<Rightarrow> firmware_file opts | Some a \<Rightarrow> Some a)"
proof (induction rs rule: rev_induct)
  case Nil
  show "wait_for_gdb (apply_all [] opts) = (wait_for_gdb opts \<or> CHR ''g'' \<in> fst ` set [])"
    "gdb_port (apply_all [] opts) = (case last_value (CHR ''p'') [] of None \<Rightarrow> gdb_port opts | Some a \<Rightarrow> to_int (atol a))"
    "firmware_file (apply_all [] opts) = (case last_value (CHR ''f'') [] of None \<Rightarrow> firmware_file opts | Some a \<Rightarrow> Some a)"
    by (simp_all add: last_value_def)
next
  case (snoc r rs)
  obtain ch a where "r = (ch, a)" by (cases r)
  then show "wait_for_gdb (apply_all (rs @ [r]) opts) = (wait_for_gdb opts \<or> CHR ''g'' \<in> fst ` set (rs @ [r]))"
    "gdb_port (apply_all (rs @ [r]) opts) =
       (case last_value (CHR ''p'') (rs @ [r]) of None \<Rightarrow> gdb_port opts | Some a \<Rightarrow> to_int (atol a))"
    "firmware_file (apply_all (rs @ [r]) opts) =
       (case last_value (CHR ''f'') (rs @ [r]) of None \<Rightarrow> firmware_file opts | Some a \<Rightarrow> Some a)"
    using snoc by (auto simp: apply_option_fields last_value_snoc)
qed

text \<open>
  On a host with signed characters the options are read completely, and the simulator starts with the file
  of the last \<open>-f\<close>, halted exactly if there is a \<open>-g\<close>; with unsigned characters \<open>main\<close> never
  leaves the loop.
\<close>

theorem simulator_options:
  assumes "CHR 0xFF \<notin> fst ` set rs"
  shows "simulator_run signed_char rs files hj pj bj ram0 gbuf =
    (if signed_char
     then Some (simulator_main hj pj bj (CHR ''g'' \<in> fst ` set rs) (map_option files (last_value (CHR ''f'') rs)) ram0 gbuf)
     else None)"
proof (cases signed_char)
  case True
  have "firmware_file (apply_all rs default_options) = last_value (CHR ''f'') rs"
    by (simp add: apply_all_values default_options_def split: option.split)
  then show ?thesis
    using True option_loop_all [OF assms] by (simp add: simulator_run_def apply_all_values(1) default_options_def)
next
  case False
  then have "option_loop signed_char rs opts = None" for opts by (induction rs arbitrary: opts) auto
  then show ?thesis using False by (simp add: simulator_run_def)
qed

theorem simulator_options_witness:
  "simulator_run True [(CHR ''f'', ''a.elf''), (CHR ''g'', []), (CHR ''f'', ''b.elf'')] (\<lambda>_. None) [] [] 0 (\<lambda>_. 0) None =
     Some (simulator_main [] [] 0 True (Some None) (\<lambda>_. 0) None)"
  using simulator_options [of "[(CHR ''f'', ''a.elf''), (CHR ''g'', []), (CHR ''f'', ''b.elf'')]" True "\<lambda>_. None" "[]" "[]" 0 "\<lambda>_. 0" None]
  by (simp add: last_value_def Let_def)

end
