(* ===== verification/Core_List.thy ===== *)
theory Core_List
  imports FW_Prelude
begin

text \<open>
  The intrusive circular list of the firmware, \<^verbatim>\<open>src/core/list.c\<close> and
  \<^verbatim>\<open>src/include/list.h\<close>. Entries live in a heap from addresses to \<open>next\<close>/\<open>prev\<close> pairs, a
  pointer is an \<open>option\<close> (\<open>None\<close> is \<open>NULL\<close>), and a function that would dereference \<open>NULL\<close>
  returns \<open>None\<close>. The statements of each function are executed one after the other on the
  heap, so that the cases in which entries coincide are those of the code.

  \<open>list_repr h l xs\<close> says that the list \<open>l\<close> holds exactly the entries \<open>xs\<close>, in order; every
  operation is shown to refine the corresponding operation on sequences and to leave the
  entries of every other list alone.
\<close>

section \<open>The list\<close>

type_synonym ptr = nat

record list_entry =
  le_next :: "ptr option"
  le_prev :: "ptr option"

record list_t =
  head :: "ptr option"

type_synonym lheap = "ptr \<Rightarrow> list_entry"

definition list_is_empty :: "list_t \<Rightarrow> bool" where
  "list_is_empty l \<longleftrightarrow> head l = None"

definition list_next :: "lheap \<Rightarrow> list_t \<Rightarrow> ptr \<Rightarrow> ptr option" where
  "list_next h l entry = (let nxt = le_next (h entry) in if nxt = head l then None else nxt)"

definition list_insert_before :: "ptr \<Rightarrow> ptr \<Rightarrow> lheap \<Rightarrow> lheap option" where
  "list_insert_before entry new h =
     (let h = h(new := (h new)\<lparr>le_prev := le_prev (h entry)\<rparr>)
      in case le_prev (h entry) of
           None \<Rightarrow> None
         | Some p \<Rightarrow>
             (let h = h(p := (h p)\<lparr>le_next := Some new\<rparr>);
                  h = h(entry := (h entry)\<lparr>le_prev := Some new\<rparr>)
              in Some (h(new := (h new)\<lparr>le_next := Some entry\<rparr>))))"

text \<open>
  In \<open>list_delete\<close> the pointer \<open>entry->next\<close> is read again after the first store; the store
  cannot have cleared it, so the branch \<open>None\<close> of the second \<open>case\<close> is never taken.
\<close>

definition list_delete :: "list_t \<Rightarrow> ptr \<Rightarrow> lheap \<Rightarrow> list_t \<times> lheap" where
  "list_delete l entry h =
     (case (le_next (h entry), le_prev (h entry)) of
        (Some _, Some p) \<Rightarrow>
          (let h = h(p := (h p)\<lparr>le_next := le_next (h entry)\<rparr>);
               h = (case le_next (h entry) of
                      None \<Rightarrow> h
                    | Some n \<Rightarrow> h(n := (h n)\<lparr>le_prev := le_prev (h entry)\<rparr>));
               l = (if head l = Some entry then l\<lparr>head := list_next h l entry\<rparr> else l)
           in (l, h(entry := \<lparr>le_next = None, le_prev = None\<rparr>)))
      | _ \<Rightarrow> (l, h))"

definition list_append :: "list_t \<Rightarrow> ptr \<Rightarrow> lheap \<Rightarrow> (list_t \<times> lheap) option" where
  "list_append l entry h =
     (let (l, h) = list_delete l entry h
      in case head l of
           Some first \<Rightarrow> map_option (Pair l) (list_insert_before first entry h)
         | None \<Rightarrow>
             Some (l\<lparr>head := Some entry\<rparr>,
                   h(entry := \<lparr>le_next = Some entry, le_prev = Some entry\<rparr>)))"

definition list_lrotate :: "lheap \<Rightarrow> list_t \<Rightarrow> list_t" where
  "list_lrotate h l =
     (case head l of None \<Rightarrow> l | Some e \<Rightarrow> l\<lparr>head := le_next (h e)\<rparr>)"

definition list_rrotate :: "lheap \<Rightarrow> list_t \<Rightarrow> list_t" where
  "list_rrotate h l =
     (case head l of None \<Rightarrow> l | Some e \<Rightarrow> l\<lparr>head := le_prev (h e)\<rparr>)"

definition list_first :: "list_t \<Rightarrow> ptr option" where
  "list_first l = head l"

definition list_last :: "lheap \<Rightarrow> list_t \<Rightarrow> ptr option" where
  "list_last h l = (case head l of None \<Rightarrow> None | Some e \<Rightarrow> le_prev (h e))"

definition list_init :: "list_t \<Rightarrow> list_t" where
  "list_init l = l\<lparr>head := None\<rparr>"

definition list_entry_init :: "ptr \<Rightarrow> lheap \<Rightarrow> lheap" where
  "list_entry_init e h = h(e := \<lparr>le_next = None, le_prev = None\<rparr>)"

text \<open>\<open>list_foreach\<close>, with the body collecting the entries; \<open>None\<close> when \<open>fuel\<close> runs out.\<close>

fun list_foreach :: "nat \<Rightarrow> lheap \<Rightarrow> list_t \<Rightarrow> ptr option \<Rightarrow> ptr list option" where
  "list_foreach fuel h l None = Some []"
| "list_foreach 0 h l (Some e) = None"
| "list_foreach (Suc fuel) h l (Some e) =
     map_option (Cons e) (list_foreach fuel h l (list_next h l e))"

section \<open>Abstraction to sequences\<close>

text \<open>Consecutive entries of the sequence point at each other.\<close>

fun links :: "lheap \<Rightarrow> ptr list \<Rightarrow> bool" where
  "links h (a # b # r) \<longleftrightarrow> le_next (h a) = Some b \<and> le_prev (h b) = Some a \<and> links h (b # r)"
| "links h xs \<longleftrightarrow> True"

fun ring :: "lheap \<Rightarrow> ptr list \<Rightarrow> bool" where
  "ring h [] \<longleftrightarrow> True"
| "ring h (x # xs) \<longleftrightarrow> links h (x # xs @ [x])"

definition list_repr :: "lheap \<Rightarrow> list_t \<Rightarrow> ptr list \<Rightarrow> bool" where
  "list_repr h l xs \<longleftrightarrow>
     distinct xs \<and> ring h xs \<and> head l = (case xs of [] \<Rightarrow> None | x # _ \<Rightarrow> Some x)"

definition unlinked :: "lheap \<Rightarrow> ptr \<Rightarrow> bool" where
  "unlinked h e \<longleftrightarrow> le_next (h e) = None \<or> le_prev (h e) = None"

lemma in_set_tlD: "x \<in> set (tl xs) \<Longrightarrow> x \<in> set xs"
  by (cases xs) auto

lemma distinct_last_butlast: "distinct xs \<Longrightarrow> xs \<noteq> [] \<Longrightarrow> last xs \<notin> set (butlast xs)"
  by (cases xs rule: rev_cases) auto

lemma links_append: "links h (xs @ y # zs) \<longleftrightarrow> links h (xs @ [y]) \<and> links h (y # zs)"
proof (induction xs)
  case (Cons x xs)
  then show ?case by (cases xs) auto
qed simp

lemma links_snoc:
  "ys \<noteq> [] \<Longrightarrow>
     links h (ys @ [z]) \<longleftrightarrow> links h ys \<and> le_next (h (last ys)) = Some z \<and> le_prev (h z) = Some (last ys)"
  by (cases ys rule: rev_cases) (auto simp: links_append [of h _ _ "[z]"])

lemma links_Cons:
  "ys \<noteq> [] \<Longrightarrow>
     links h (x # ys) \<longleftrightarrow> le_next (h x) = Some (hd ys) \<and> le_prev (h (hd ys)) = Some x \<and> links h ys"
  by (cases ys) auto

lemma links_cong:
  "(\<And>x. x \<in> set (butlast xs) \<Longrightarrow> le_next (h x) = le_next (h' x)) \<Longrightarrow>
   (\<And>x. x \<in> set (tl xs) \<Longrightarrow> le_prev (h x) = le_prev (h' x)) \<Longrightarrow> links h xs = links h' xs"
proof (induction xs rule: induct_list012)
  case (3 x y zs)
  have "links h (y # zs) = links h' (y # zs)"
    using 3(3,4) by (intro 3(2)) (auto dest: in_set_tlD)
  with 3(3,4) show ?case by simp
qed simp_all

lemma ring_rotate: "ring h (xs @ ys) = ring h (ys @ xs)"
proof (cases xs; cases ys)
  fix a as b bs assume "xs = a # as" "ys = b # bs"
  then show ?thesis
    using links_append [of h "a # as" b "bs @ [a]"] links_append [of h "b # bs" a "as @ [b]"]
    by auto
qed simp_all

lemma ring_close:
  "ys \<noteq> [] \<Longrightarrow>
     ring h ys \<longleftrightarrow> links h ys \<and> le_next (h (last ys)) = Some (hd ys) \<and> le_prev (h (hd ys)) = Some (last ys)"
  using links_snoc [of ys h "hd ys"] by (cases ys) auto

lemma ring_entry:
  assumes "ring h (e # ys)"
  shows "le_next (h e) = Some (hd (ys @ [e]))" "le_prev (h e) = Some (last (e # ys))"
  using assms links_Cons [of "ys @ [e]" h e] ring_close [of "e # ys" h] by auto

section \<open>Deletion\<close>

lemma list_delete_ring:
  assumes "ring h (e # ys)" "distinct (e # ys)" "list_delete l e h = (l', h')"
  shows "ring h' ys" "\<And>x. x \<notin> set (e # ys) \<Longrightarrow> h' x = h x"
    "h' e = \<lparr>le_next = None, le_prev = None\<rparr>"
    "l' = (if head l = Some e then l\<lparr>head := (case ys of [] \<Rightarrow> None | y # _ \<Rightarrow> Some y)\<rparr> else l)"
proof -
  note e = ring_entry [OF assms(1)]
  have "ring h' ys \<and> (\<forall>x. x \<notin> set (e # ys) \<longrightarrow> h' x = h x)
     \<and> h' e = \<lparr>le_next = None, le_prev = None\<rparr>
     \<and> l' = (if head l = Some e then l\<lparr>head := (case ys of [] \<Rightarrow> None | y # _ \<Rightarrow> Some y)\<rparr> else l)"
  proof (cases "ys = []")
    case True
    with e assms(3) show ?thesis by (auto simp: list_delete_def list_next_def Let_def split: if_splits)
  next
    case False
    let ?q = "last ys" and ?y = "hd ys"
    have ne: "?q \<noteq> e" "?y \<noteq> e" using False assms(2) by auto
    let ?h1 = "h(?q := (h ?q)\<lparr>le_next := Some ?y\<rparr>)"
    let ?h2 = "?h1(?y := (?h1 ?y)\<lparr>le_prev := Some ?q\<rparr>)"
    have eqs: "le_next (h e) = Some ?y" "le_prev (h e) = Some ?q" using e False by simp_all
    have res: "h' = ?h2(e := \<lparr>le_next = None, le_prev = None\<rparr>)"
      "l' = (if head l = Some e then l\<lparr>head := Some ?y\<rparr> else l)"
      using assms(3) ne by (auto simp: list_delete_def list_next_def Let_def eqs)
    have "links h ys" using assms(1) False by (simp add: links_Cons links_snoc)
    moreover have "?y \<notin> set (tl ys)" "?q \<notin> set (butlast ys)"
      using assms(2) False distinct_append [of "butlast ys" "[?q]"] by (cases ys, simp_all)
    ultimately have "links h' ys"
      using assms(2) by (subst links_cong [of _ h' h]) (auto simp: res dest: in_set_butlastD in_set_tlD)
    then have "ring h' ys" using False ne by (simp add: ring_close res)
    then show ?thesis using res False ne by (cases ys) auto
  qed
  then show "ring h' ys" "\<And>x. x \<notin> set (e # ys) \<Longrightarrow> h' x = h x"
    "h' e = \<lparr>le_next = None, le_prev = None\<rparr>"
    "l' = (if head l = Some e then l\<lparr>head := (case ys of [] \<Rightarrow> None | y # _ \<Rightarrow> Some y)\<rparr> else l)"
    by blast+
qed

lemma list_delete_unlinked: "unlinked h e \<Longrightarrow> list_delete l e h = (l, h)"
  by (auto simp: unlinked_def list_delete_def split: option.splits)

text \<open>Deleting an entry removes it from the sequence, leaves it unlinked and touches no other entry.\<close>

lemma list_delete_repr:
  assumes "list_repr h l xs" "e \<in> set xs" "list_delete l e h = (l', h')"
  shows "list_repr h' l' (remove1 e xs)" "unlinked h' e" "\<And>x. x \<notin> set xs \<Longrightarrow> h' x = h x"
proof -
  from assms(2) obtain as bs where xs: "xs = as @ e # bs" "e \<notin> set as" by (metis split_list_first)
  have rg: "ring h (e # bs @ as)" "distinct (e # bs @ as)"
    using assms(1) ring_rotate [of h as "e # bs"] by (auto simp: list_repr_def xs)
  note del = list_delete_ring [OF rg assms(3)]
  have "ring h' (as @ bs)" using del(1) ring_rotate [of h' as bs] by simp
  moreover have "head l' = (case as @ bs of [] \<Rightarrow> None | x # _ \<Rightarrow> Some x)"
    using del(4) assms(1) xs(2) by (cases as) (auto simp: list_repr_def xs(1))
  ultimately show "list_repr h' l' (remove1 e xs)"
    using assms(1) xs by (simp add: list_repr_def remove1_append)
  show "unlinked h' e" by (simp add: unlinked_def del(3))
  show "\<And>x. x \<notin> set xs \<Longrightarrow> h' x = h x" using del(2) by (simp add: xs(1))
qed

section \<open>Insertion\<close>

lemma list_insert_before_ring:
  assumes "ring h (x # xs)" "distinct (x # xs)" "e \<notin> set (x # xs)"
  obtains h' where "list_insert_before x e h = Some h'" "ring h' (x # xs @ [e])"
    "\<And>y. y \<notin> set (e # x # xs) \<Longrightarrow> h' y = h y"
proof -
  define p where "p = last (x # xs)"
  define h1 where "h1 = h(e := (h e)\<lparr>le_prev := Some p\<rparr>)"
  define h2 where "h2 = h1(p := (h1 p)\<lparr>le_next := Some e\<rparr>)"
  define h3 where "h3 = h2(x := (h2 x)\<lparr>le_prev := Some e\<rparr>)"
  define h' where "h' = h3(e := (h3 e)\<lparr>le_next := Some x\<rparr>)"
  note h_defs = h1_def h2_def h3_def h'_def
  have ne: "e \<noteq> x" "e \<noteq> p" using assms(3) by (auto simp: p_def)
  have ins: "list_insert_before x e h = Some h'"
    using ne ring_entry(2) [OF assms(1)] by (simp add: list_insert_before_def h_defs p_def)
  have new: "le_next (h' p) = Some e" "le_prev (h' e) = Some p" "le_next (h' e) = Some x"
    "le_prev (h' x) = Some e"
    using ne by (simp_all add: h_defs)
  have "links h (x # xs)" using assms(1) ring_close [of "x # xs" h] by simp
  moreover have "p \<notin> set (butlast (x # xs))"
    using assms(2) unfolding p_def by (rule distinct_last_butlast) simp
  moreover have "x \<notin> set xs" using assms(2) by simp
  ultimately have "links h' (x # xs)"
    using assms(3) by (subst links_cong [of _ h' h])
      (auto simp: h_defs dest: in_set_butlastD split: if_splits)
  then have "links h' ((x # xs) @ [e])" using new by (subst links_snoc) (simp_all add: p_def)
  then have "ring h' (x # xs @ [e])" 
    using new by (subst ring_close) simp_all
  moreover have "\<And>y. y \<notin> set (e # x # xs) \<Longrightarrow> h' y = h y"
    by (auto simp: h_defs p_def split: if_splits)
  ultimately show thesis using ins that by blast
qed

text \<open>
  Appending moves the entry to the end of the sequence, whether it was linked in this list
  or in none; it never dereferences \<open>NULL\<close>.
\<close>

lemma list_append_new:
  assumes "list_repr h l xs" "e \<notin> set xs" "unlinked h e"
  obtains l' h' where "list_append l e h = Some (l', h')" "list_repr h' l' (xs @ [e])"
    "\<And>y. y \<notin> insert e (set xs) \<Longrightarrow> h' y = h y"
proof (cases xs)
  case Nil
  show thesis
    by (rule that [of "l\<lparr>head := Some e\<rparr>" "h(e := \<lparr>le_next = Some e, le_prev = Some e\<rparr>)"])
      (use assms Nil in \<open>simp_all add: list_append_def list_delete_unlinked list_repr_def\<close>)
next
  case (Cons x ys)
  then obtain h' where h': "list_insert_before x e h = Some h'" "ring h' (x # ys @ [e])"
    "\<And>y. y \<notin> set (e # x # ys) \<Longrightarrow> h' y = h y"
    using assms list_insert_before_ring [of h x ys e] by (auto simp: list_repr_def)
  have "list_append l e h = Some (l, h')"
    using assms h' Cons by (simp add: list_append_def list_delete_unlinked list_repr_def Let_def)
  with h' assms that Cons show thesis by (auto simp: list_repr_def)
qed

lemma list_append_again:
  assumes "list_repr h l xs" "e \<in> set xs"
  obtains l' h' where "list_append l e h = Some (l', h')" "list_repr h' l' (remove1 e xs @ [e])"
    "\<And>y. y \<notin> set xs \<Longrightarrow> h' y = h y"
proof -
  obtain l1 h1 where d: "list_delete l e h = (l1, h1)" by fastforce
  note del = list_delete_repr [OF assms d]
  have "e \<notin> set (remove1 e xs)" using assms(1) by (simp add: list_repr_def)
  then obtain l' h' where a: "list_append l1 e h1 = Some (l', h')"
    "list_repr h' l' (remove1 e xs @ [e])" "\<And>y. y \<notin> insert e (set (remove1 e xs)) \<Longrightarrow> h' y = h1 y"
    using list_append_new [OF del(1) _ del(2)] by blast
  have "list_append l e h = list_append l1 e h1"
    by (simp add: list_append_def d list_delete_unlinked [OF del(2)])
  moreover have "h' y = h y" if "y \<notin> set xs" for y
    using that a(3) [of y] del(3) [of y] assms(2) set_remove1_subset [of e xs] by auto
  ultimately show thesis using a(1,2) that by simp
qed

section \<open>Rotation, ends and traversal\<close>

lemma list_lrotate_repr: "list_repr h l xs \<Longrightarrow> list_repr h (list_lrotate h l) (rotate1 xs)"
proof (cases xs)
  case (Cons x ys)
  assume "list_repr h l xs"
  then show ?thesis
    using Cons ring_entry(1) [of h x ys] ring_rotate [of h "[x]" ys]
    by (cases ys) (auto simp: list_repr_def list_lrotate_def)
qed (auto simp: list_repr_def list_lrotate_def)

lemma list_rrotate_repr:
  "list_repr h l (xs @ [x]) \<Longrightarrow> list_repr h (list_rrotate h l) (x # xs)"
proof (cases xs)
  case (Cons y ys)
  assume "list_repr h l (xs @ [x])"
  then show ?thesis
    using Cons ring_entry(2) [of h y "ys @ [x]"] ring_rotate [of h "y # ys" "[x]"]
    by (auto simp: list_repr_def list_rrotate_def)
qed (auto simp: list_repr_def list_rrotate_def)

lemma list_ends_repr:
  "list_repr h l [] \<Longrightarrow> list_first l = None" "list_repr h l [] \<Longrightarrow> list_last h l = None"
  "list_repr h l (x # xs) \<Longrightarrow> list_first l = Some x"
  "list_repr h l (x # xs) \<Longrightarrow> list_last h l = Some (last (x # xs))"
  using ring_entry(2) [of h x xs] by (auto simp: list_repr_def list_first_def list_last_def)

lemma list_next_repr:
  assumes "list_repr h l (as @ x # bs)"
  shows "list_next h l x = (case bs of [] \<Rightarrow> None | b # _ \<Rightarrow> Some b)"
proof -
  have "ring h (x # bs @ as)" "distinct (as @ x # bs)"
    using assms ring_rotate [of h as "x # bs"] by (auto simp: list_repr_def)
  then show ?thesis
    using assms ring_entry(1) [of h x "bs @ as"]
    by (cases as; cases bs) (auto simp: list_next_def list_repr_def)
qed

lemma list_foreach_suffix:
  "list_repr h l (as @ bs) \<Longrightarrow> length bs \<le> fuel \<Longrightarrow>
     list_foreach fuel h l (case bs of [] \<Rightarrow> None | b # _ \<Rightarrow> Some b) = Some bs"
proof (induction bs arbitrary: as fuel)
  case (Cons b bs)
  then obtain f where "fuel = Suc f" "length bs \<le> f" by (cases fuel) auto
  with Cons.IH [of "as @ [b]" f] Cons.prems show ?case by (simp add: list_next_repr)
qed simp

lemma list_foreach_repr:
  "list_repr h l xs \<Longrightarrow> length xs \<le> fuel \<Longrightarrow> list_foreach fuel h l (head l) = Some xs"
  using list_foreach_suffix [of h l "[]" xs fuel] by (simp add: list_repr_def)

section \<open>The list as a queue\<close>

text \<open>
  What the clients of the list (the run queue, the wait queues, the timer) rely on, as an
  interface, and the first-in first-out order that follows from it.
\<close>

fun put_all ::
  "('q \<Rightarrow> 'e \<Rightarrow> 'h \<Rightarrow> ('q \<times> 'h) option) \<Rightarrow> 'e list \<Rightarrow> 'q \<Rightarrow> 'h \<Rightarrow> ('q \<times> 'h) option" where
  "put_all put [] q h = Some (q, h)"
| "put_all put (e # es) q h =
     (case put q e h of None \<Rightarrow> None | Some (q, h) \<Rightarrow> put_all put es q h)"

fun take_all ::
  "('q \<Rightarrow> 'e option) \<Rightarrow> ('q \<Rightarrow> 'e \<Rightarrow> 'h \<Rightarrow> 'q \<times> 'h) \<Rightarrow> nat \<Rightarrow> 'q \<Rightarrow> 'h \<Rightarrow> 'e list" where
  "take_all first remove 0 q h = []"
| "take_all first remove (Suc n) q h =
     (case first q of
        None \<Rightarrow> []
      | Some e \<Rightarrow> (case remove q e h of (q, h) \<Rightarrow> e # take_all first remove n q h))"

locale intrusive_queue =
  fixes repr :: "'h \<Rightarrow> 'q \<Rightarrow> 'e list \<Rightarrow> bool"
    and avail :: "'h \<Rightarrow> 'e \<Rightarrow> bool"
    and put :: "'q \<Rightarrow> 'e \<Rightarrow> 'h \<Rightarrow> ('q \<times> 'h) option"
    and first :: "'q \<Rightarrow> 'e option"
    and remove :: "'q \<Rightarrow> 'e \<Rightarrow> 'h \<Rightarrow> 'q \<times> 'h"
  assumes put_repr: "repr h q xs \<Longrightarrow> e \<notin> set xs \<Longrightarrow> avail h e \<Longrightarrow>
      \<exists>q' h'. put q e h = Some (q', h') \<and> repr h' q' (xs @ [e])
        \<and> (\<forall>x. x \<noteq> e \<longrightarrow> x \<notin> set xs \<longrightarrow> avail h x \<longrightarrow> avail h' x)"
    and first_repr: "repr h q xs \<Longrightarrow> first q = (case xs of [] \<Rightarrow> None | x # _ \<Rightarrow> Some x)"
    and remove_repr: "repr h q (e # xs) \<Longrightarrow> remove q e h = (q', h') \<Longrightarrow> repr h' q' xs"
begin

lemma put_all_repr:
  "repr h q xs \<Longrightarrow> distinct (xs @ es) \<Longrightarrow> \<forall>e \<in> set es. avail h e \<Longrightarrow>
     \<exists>q' h'. put_all put es q h = Some (q', h') \<and> repr h' q' (xs @ es)"
proof (induction es arbitrary: xs q h)
  case (Cons e es)
  then obtain q1 h1 where p: "put q e h = Some (q1, h1)" "repr h1 q1 (xs @ [e])"
    "\<forall>x. x \<noteq> e \<longrightarrow> x \<notin> set xs \<longrightarrow> avail h x \<longrightarrow> avail h1 x"
    using put_repr [of h q xs e] by auto
  have "\<forall>x \<in> set es. avail h1 x" using p(3) Cons.prems by fastforce
  with Cons.prems Cons.IH [of h1 q1 "xs @ [e]"] p show ?case by auto
qed simp

lemma take_all_repr: "repr h q xs \<Longrightarrow> take_all first remove (length xs) q h = xs"
proof (induction xs arbitrary: q h)
  case (Cons x xs)
  obtain q1 h1 where r: "remove q x h = (q1, h1)" by fastforce
  with Cons show ?case by (simp add: first_repr [OF Cons.prems] remove_repr)
qed simp

theorem fifo:
  assumes "repr h q []" "distinct es" "\<forall>e \<in> set es. avail h e"
  shows "\<exists>q' h'. put_all put es q h = Some (q', h') \<and> take_all first remove (length es) q' h' = es"
  using put_all_repr [of h q "[]" es] assms take_all_repr by fastforce

end

interpretation lq: intrusive_queue list_repr unlinked list_append list_first list_delete
proof
  fix h l and xs :: "ptr list" and e
  assume "list_repr h l xs" "e \<notin> set xs" "unlinked h e"
  then obtain l' h' where "list_append l e h = Some (l', h')" "list_repr h' l' (xs @ [e])"
    "\<And>y. y \<notin> insert e (set xs) \<Longrightarrow> h' y = h y"
    by (metis list_append_new)
  then show "\<exists>q' h'. list_append l e h = Some (q', h') \<and> list_repr h' q' (xs @ [e])
        \<and> (\<forall>x. x \<noteq> e \<longrightarrow> x \<notin> set xs \<longrightarrow> unlinked h x \<longrightarrow> unlinked h' x)"
    by (auto simp: unlinked_def)
next
  fix h :: lheap and l :: list_t and xs
  assume "list_repr h l xs"
  then show "list_first l = (case xs of [] \<Rightarrow> None | x # _ \<Rightarrow> Some x)"
    by (cases xs) (simp_all add: list_repr_def list_first_def)
next
  fix h l e xs l' h'
  assume "list_repr h l (e # xs)" "list_delete l e h = (l', h')"
  then show "list_repr h' l' xs" using list_delete_repr(1) [of h l "e # xs" e] by simp
qed

section \<open>Properties\<close>

text \<open>A list of three entries in a heap, for the examples.\<close>

definition heap3 :: lheap where
  "heap3 = (\<lambda>_. \<lparr>le_next = None, le_prev = None\<rparr>)
     (1 := \<lparr>le_next = Some 2, le_prev = Some 3\<rparr>, 2 := \<lparr>le_next = Some 3, le_prev = Some 1\<rparr>,
      3 := \<lparr>le_next = Some 1, le_prev = Some 2\<rparr>)"

lemma heap3_repr: "list_repr heap3 \<lparr>head = Some 1\<rparr> [1, 2, 3]" "unlinked heap3 4"
  by (simp_all add: list_repr_def heap3_def unlinked_def)

text \<open>
  C3. \<open>list_append\<close> refines the append of sequences: an entry that is in no list goes to the
  end, an entry that is already in the list moves to the end; no pointer is dereferenced
  that is \<open>NULL\<close>, and entries outside the list are not written.
\<close>

theorem append_refines:
  assumes "list_repr h l xs" "e \<notin> set xs \<Longrightarrow> unlinked h e"
  shows "\<exists>l' h'. list_append l e h = Some (l', h') \<and> list_repr h' l' (filter (\<lambda>x. x \<noteq> e) xs @ [e])
     \<and> (\<forall>y. y \<noteq> e \<longrightarrow> y \<notin> set xs \<longrightarrow> h' y = h y)"
proof -
  have d: "distinct xs" using assms(1) by (simp add: list_repr_def)
  then have f: "filter (\<lambda>x. x \<noteq> e) xs = remove1 e xs"
    by (simp add: distinct_remove1_removeAll removeAll_filter_not_eq) (metis (lifting))
  show ?thesis
  proof (cases "e \<in> set xs")
    case True
    with assms(1) show ?thesis unfolding f by (metis list_append_again)
  next
    case False
    with assms obtain l' h' where "list_append l e h = Some (l', h')" "list_repr h' l' (xs @ [e])"
      "\<And>y. y \<notin> insert e (set xs) \<Longrightarrow> h' y = h y" by (metis list_append_new)
    with False show ?thesis unfolding f by (auto simp: remove1_idem)
  qed
qed

theorem append_refines_witness:
  "\<exists>l' h'. list_append \<lparr>head = Some 1\<rparr> 2 heap3 = Some (l', h') \<and> list_repr h' l' [1, 3, 2]"
  using append_refines [OF heap3_repr(1), of 2] by auto

text \<open>
  C22. \<open>list_delete\<close> refines removal from a sequence: the entry leaves the list and is
  unlinked, the head moves on when the first entry is deleted and becomes \<open>NULL\<close> with the
  last one, the order of the others is kept, and deleting an unlinked entry does nothing.
\<close>

theorem delete_refines:
  assumes "list_repr h l xs" "list_delete l e h = (l', h')" "e \<notin> set xs \<Longrightarrow> unlinked h e"
  shows "list_repr h' l' (remove1 e xs) \<and> unlinked h' e \<and> (\<forall>y. y \<notin> set xs \<longrightarrow> h' y = h y)"
proof (cases "e \<in> set xs")
  case True
  with list_delete_repr [OF assms(1) _ assms(2)] show ?thesis by blast
next
  case False
  with assms show ?thesis by (auto simp: list_delete_unlinked remove1_idem)
qed

theorem delete_refines_witness:
  "\<exists>l' h'. list_delete \<lparr>head = Some 1\<rparr> 1 heap3 = (l', h') \<and> list_repr h' l' [2, 3]"
  using delete_refines [OF heap3_repr(1), of 1] by (cases "list_delete \<lparr>head = Some 1\<rparr> 1 heap3") auto

text \<open>
  Rotation, the ends and the traversal agree with the sequence: \<open>list_lrotate\<close> moves the
  first entry to the end, \<open>list_rrotate\<close> undoes it, \<open>list_first\<close> and \<open>list_last\<close> return the
  ends, and \<open>list_foreach\<close> visits every entry once, in order, and stops.
\<close>

theorem rotation_and_traversal:
  assumes "list_repr h l (x # xs)" "Suc (length xs) \<le> fuel"
  shows "list_repr h (list_lrotate h l) (xs @ [x])
     \<and> head (list_rrotate h (list_lrotate h l)) = head l
     \<and> list_first l = Some x \<and> list_last h l = Some (last (x # xs))
     \<and> list_foreach fuel h l (head l) = Some (x # xs)"
proof -
  have rot: "list_repr h (list_lrotate h l) (xs @ [x])"
    using list_lrotate_repr [OF assms(1)] by simp
  moreover have "head (list_rrotate h (list_lrotate h l)) = head l"
    using list_rrotate_repr [OF rot] assms(1) by (simp add: list_repr_def)
  ultimately show ?thesis
    using list_ends_repr(3,4) [OF assms(1)] list_foreach_repr [OF assms(1)] assms(2) by simp
qed

theorem rotation_and_traversal_witness:
  "list_foreach 3 heap3 \<lparr>head = Some 1\<rparr> (Some 1) = Some [1, 2, 3]"
  using rotation_and_traversal [OF heap3_repr(1), of 3] by simp

text \<open>
  The list is a queue: any number of distinct unlinked entries appended to an
  initialised list come out of it by \<open>list_first\<close> and \<open>list_delete\<close> in the order in which they
  went in.
\<close>

theorem list_is_fifo:
  assumes "distinct es" "\<forall>e \<in> set es. unlinked h e"
  shows "\<exists>l' h'. put_all list_append es (list_init l) h = Some (l', h')
     \<and> take_all list_first list_delete (length es) l' h' = es"
  using assms by (intro lq.fifo) (simp_all add: list_repr_def list_init_def)

theorem list_is_fifo_witness:
  "\<exists>l' h'. put_all list_append [4, 6, 5] (list_init \<lparr>head = Some 9\<rparr>) heap3 = Some (l', h')
     \<and> take_all list_first list_delete (length [4 :: nat, 6, 5]) l' h' = [4, 6, 5]"
  by (rule list_is_fifo) (simp_all add: heap3_def unlinked_def)

end
