(* ===== verification/Core_Malloc.thy ===== *)
theory Core_Malloc
  imports FW_Prelude
begin

text \<open>
  The allocator of the firmware, \<^verbatim>\<open>src/core/malloc.c\<close>: a singly linked list of free blocks
  whose headers are stored in the blocks themselves. The headers are a map from addresses to
  size and next pointer (\<open>struct free_header\<close>; \<open>struct malloc_header\<close> shares its first
  field), \<open>sizeof(struct free_header)\<close> is 8 and \<open>sizeof(struct malloc_header)\<close> is 4.
  Addresses and sizes are 32 bit numbers. The loops over the list are partial functions:
  \<open>None\<close> means that the loop does not end.
  Requests are not rounded up in the code, so a request whose size is not a multiple of 4 puts the
  next header at an odd place. The Cortex-M0 faults on such an access; in the model a header may be at any address.

  Shown: the allocator as a bump allocator on a fresh heap, what freeing above the head of
  the list does to the free memory, and the two defects of \<open>free_raw\<close> for a block below the
  head: the rest of the free list is lost, or a block enters the list twice.
\<close>

section \<open>The allocator\<close>

record mheap =
  free_head :: "nat option"
  hsize :: "nat \<Rightarrow> nat"
  hnext :: "nat \<Rightarrow> nat option"

definition put_size :: "nat \<Rightarrow> nat \<Rightarrow> mheap \<Rightarrow> mheap" where
  "put_size a v s = s\<lparr>hsize := (hsize s)(a := v)\<rparr>"

definition put_next :: "nat \<Rightarrow> nat option \<Rightarrow> mheap \<Rightarrow> mheap" where
  "put_next a p s = s\<lparr>hnext := (hnext s)(a := p)\<rparr>"

abbreviation mkptr :: "nat \<Rightarrow> nat option" where
  "mkptr a \<equiv> (if a = 0 then None else Some a)"

text \<open>The body of the loop of \<open>free_raw\<close>: link \<open>ptr\<close> behind \<open>block\<close> and merge neighbours.\<close>

definition merge_with_next :: "nat \<Rightarrow> mheap \<Rightarrow> mheap" where
  "merge_with_next ptr s =
     (case hnext s ptr of
        Some n \<Rightarrow>
          if add32 ptr (hsize s ptr) = n
          then (let s = put_size ptr (add32 (hsize s ptr) (hsize s n)) s
                in put_next ptr (hnext s n) s)
          else s
      | None \<Rightarrow> s)"

definition free_raw_link :: "nat \<Rightarrow> nat \<Rightarrow> mheap \<Rightarrow> mheap" where
  "free_raw_link block ptr s =
     (if add32 block (hsize s block) = ptr
      then merge_with_next block (put_size block (add32 (hsize s block) (hsize s ptr)) s)
      else merge_with_next ptr (put_next block (Some ptr) (put_next ptr (hnext s block) s)))"

partial_function (option) free_raw_loop :: "nat option \<Rightarrow> nat \<Rightarrow> mheap \<Rightarrow> mheap option" where
  "free_raw_loop block ptr s =
     (case block of
        None \<Rightarrow> Some s
      | Some b \<Rightarrow>
          if b < ptr \<or> hnext s b = None then Some (free_raw_link b ptr s)
          else free_raw_loop (hnext s b) ptr s)"

definition free_raw :: "nat option \<Rightarrow> nat \<Rightarrow> mheap \<Rightarrow> (fault + mheap) option" where
  "free_raw p sz s =
     (case p of
        None \<Rightarrow> Some (Inl Assert_Failed)
      | Some ptr \<Rightarrow>
          if sz < 8 then Some (Inl Assert_Failed)
          else
            (let s = put_next ptr None (put_size ptr sz s)
             in case free_head s of
                  None \<Rightarrow> Some (Inr (s\<lparr>free_head := Some ptr\<rparr>))
                | Some f \<Rightarrow>
                    (let s =
                       (if f > ptr
                        then (let s =
                                (if add32 f sz = ptr
                                 then put_next ptr (hnext s f)
                                        (put_size ptr (add32 (hsize s ptr) (hsize s f)) s)
                                 else put_next ptr (Some f) s)
                              in s\<lparr>free_head := Some ptr\<rparr>)
                        else s)
                     in map_option Inr (free_raw_loop (free_head s) ptr s))))"

text \<open>The common end of both searches of \<open>malloc_raw\<close>: give back what is not needed.\<close>

definition malloc_raw_split :: "nat \<Rightarrow> nat \<Rightarrow> mheap \<Rightarrow> (fault + (nat option \<times> mheap)) option" where
  "malloc_raw_split ptr sz s =
     (if 8 \<le> sub32 (hsize s ptr) sz
      then case free_raw (mkptr (add32 ptr sz)) (sub32 (hsize s ptr) sz) s of
             None \<Rightarrow> None
           | Some (Inl e) \<Rightarrow> Some (Inl e)
           | Some (Inr s) \<Rightarrow>
               Some (Inr (Some ptr, put_size ptr (sub32 (hsize s ptr) sz) s))
      else Some (Inr (Some ptr, s)))"

partial_function (option) malloc_raw_loop ::
  "nat \<Rightarrow> nat \<Rightarrow> mheap \<Rightarrow> (fault + (nat option \<times> mheap)) option" where
  "malloc_raw_loop prev sz s =
     (case hnext s prev of
        None \<Rightarrow> Some (Inr (None, s))
      | Some ptr \<Rightarrow>
          if sz \<le> hsize s ptr
          then malloc_raw_split ptr sz (put_next prev (hnext s ptr) s)
          else malloc_raw_loop ptr sz s)"

definition malloc_raw :: "nat \<Rightarrow> mheap \<Rightarrow> (fault + (nat option \<times> mheap)) option" where
  "malloc_raw sz s =
     (if sz < 8 then Some (Inl Assert_Failed)
      else case free_head s of
             None \<Rightarrow> Some (Inl Null_Deref)
           | Some f \<Rightarrow>
               if sz \<le> hsize s f
               then malloc_raw_split f sz (s\<lparr>free_head := hnext s f\<rparr>)
               else malloc_raw_loop f sz s)"

definition malloc :: "nat \<Rightarrow> mheap \<Rightarrow> (fault + (nat \<times> mheap)) option" where
  "malloc sz s =
     (case malloc_raw (add32 4 sz) s of
        None \<Rightarrow> None
      | Some (Inl e) \<Rightarrow> Some (Inl e)
      | Some (Inr (None, s)) \<Rightarrow> Some (Inl Null_Deref)
      | Some (Inr (Some ptr, s)) \<Rightarrow> Some (Inr (add32 ptr 4, put_size ptr sz s)))"

definition free :: "nat \<Rightarrow> mheap \<Rightarrow> (fault + mheap) option" where
  "free p s =
     (let ptr = sub32 p 4 in free_raw (mkptr ptr) (add32 (hsize s ptr) 4) s)"

partial_function (option) get_free_size_loop :: "nat option \<Rightarrow> nat \<Rightarrow> mheap \<Rightarrow> nat option" where
  "get_free_size_loop p sz s =
     (case p of
        None \<Rightarrow> Some sz
      | Some a \<Rightarrow> get_free_size_loop (hnext s a) (add32 sz (hsize s a)) s)"

definition get_free_size :: "mheap \<Rightarrow> nat option" where
  "get_free_size s = get_free_size_loop (free_head s) 0 s"

definition malloc_init :: "nat \<Rightarrow> nat \<Rightarrow> mheap \<Rightarrow> (fault + mheap) option" where
  "malloc_init start finish s = free_raw (mkptr start) (sub32 finish start) s"

lemmas put_defs = put_size_def put_next_def

section \<open>The free list\<close>

fun flist :: "mheap \<Rightarrow> nat option \<Rightarrow> nat list \<Rightarrow> bool" where
  "flist s p [] \<longleftrightarrow> p = None"
| "flist s p (a # xs) \<longleftrightarrow> p = Some a \<and> flist s (hnext s a) xs"

text \<open>The blocks of the list: address and size, in list order.\<close>

definition blocks :: "mheap \<Rightarrow> nat list \<Rightarrow> (nat \<times> nat) list" where
  "blocks s xs = map (\<lambda>a. (a, hsize s a)) xs"

definition block_ok :: "nat \<times> nat \<Rightarrow> bool" where
  "block_ok b \<longleftrightarrow> 0 < fst b \<and> 8 \<le> snd b \<and> fst b + snd b < 2 ^ 32"

definition bytes :: "nat \<times> nat \<Rightarrow> nat set" where
  "bytes b = {fst b..<fst b + snd b}"

fun free_bytes :: "(nat \<times> nat) list \<Rightarrow> nat set" where
  "free_bytes [] = {}"
| "free_bytes (b # bs) = bytes b \<union> free_bytes bs"

text \<open>The blocks are proper, and no two of them share a byte.\<close>

fun disjoint_blocks :: "(nat \<times> nat) list \<Rightarrow> bool" where
  "disjoint_blocks [] \<longleftrightarrow> True"
| "disjoint_blocks (b # bs) \<longleftrightarrow>
     block_ok b \<and> bytes b \<inter> free_bytes bs = {} \<and> disjoint_blocks bs"

definition wf_heap :: "mheap \<Rightarrow> nat list \<Rightarrow> bool" where
  "wf_heap s xs \<longleftrightarrow> flist s (free_head s) xs \<and> disjoint_blocks (blocks s xs)"

lemma flist_cong: "(\<And>a. a \<in> set xs \<Longrightarrow> hnext s a = hnext s' a) \<Longrightarrow> flist s p xs = flist s' p xs"
  by (induction xs arbitrary: p) auto

lemma flist_functional: "flist s p xs \<Longrightarrow> flist s p ys \<Longrightarrow> xs = ys"
  by (induction xs arbitrary: p ys) (case_tac ys; auto)+

lemma get_free_size_loop_flist:
  "flist s p xs \<Longrightarrow> get_free_size_loop p n s = Some (fold (\<lambda>a n. add32 n (hsize s a)) xs n)"
proof (induction xs arbitrary: p n)
  case (Cons a xs)
  then show ?case by (subst get_free_size_loop.simps) simp
qed (simp add: get_free_size_loop.simps)

text \<open>Freeing on block lists: merge with the next block, link behind the first block.\<close>

fun merge_block :: "nat \<times> nat \<Rightarrow> (nat \<times> nat) list \<Rightarrow> (nat \<times> nat) list" where
  "merge_block b [] = [b]"
| "merge_block b (c # cs) =
     (if fst b + snd b = fst c then (fst b, snd b + snd c) # cs else b # c # cs)"

definition free_above :: "nat \<times> nat \<Rightarrow> (nat \<times> nat) list \<Rightarrow> nat \<times> nat \<Rightarrow> (nat \<times> nat) list" where
  "free_above b bs p =
     (if fst b + snd b = fst p then merge_block (fst b, snd b + snd p) bs
      else b # merge_block p bs)"

lemma blocks_simps [simp]:
  "blocks s [] = []" "blocks s (a # xs) = (a, hsize s a) # blocks s xs"
  by (simp_all add: blocks_def)

lemma blocks_cong: "(\<And>a. a \<in> set xs \<Longrightarrow> hsize s a = hsize s' a) \<Longrightarrow> blocks s xs = blocks s' xs"
  by (simp add: blocks_def)

lemma bytes_union: "a + m = b \<Longrightarrow> bytes (a, m) \<union> bytes (b, n) = bytes (a, m + n)"
  by (auto simp: bytes_def)

lemma merge_block_bytes: "free_bytes (merge_block b bs) = bytes b \<union> free_bytes bs"
  using bytes_union [of "fst b" "snd b" "fst (hd bs)" "snd (hd bs)"]
  by (cases bs) auto

lemma merge_block_total: "sum_list (map snd (merge_block b bs)) = snd b + sum_list (map snd bs)"
  by (cases bs) auto

lemma free_above_bytes: "free_bytes (free_above b bs p) = bytes p \<union> free_bytes (b # bs)"
  using bytes_union [of "fst b" "snd b" "fst p" "snd p"]
  by (auto simp: free_above_def merge_block_bytes)

lemma free_above_total:
  "sum_list (map snd (free_above b bs p)) = snd p + sum_list (map snd (b # bs))"
  by (simp add: free_above_def merge_block_total)

lemma bytes_bounded: "disjoint_blocks bs \<Longrightarrow> x \<in> free_bytes bs \<Longrightarrow> x < 2 ^ 32"
  by (induction bs) (auto simp: block_ok_def bytes_def)

lemma merge_block_disjoint:
  assumes "disjoint_blocks (b # bs)"
  shows "disjoint_blocks (merge_block b bs)"
proof (cases bs)
  case (Cons c cs)
  have "bytes (fst b, snd b + snd c) = bytes b \<union> bytes c" if "fst b + snd b = fst c"
    using bytes_union [OF that, of "snd c"] by simp
  with assms Cons show ?thesis by (auto simp: block_ok_def)
qed (use assms in simp)

lemma free_above_disjoint:
  assumes "disjoint_blocks (b # bs)" "block_ok p" "bytes p \<inter> free_bytes (b # bs) = {}"
  shows "disjoint_blocks (free_above b bs p)"
proof (cases "fst b + snd b = fst p")
  case True
  then have "bytes (fst b, snd b + snd p) = bytes b \<union> bytes p"
    using bytes_union [OF True, of "snd p"] by simp
  then have "disjoint_blocks ((fst b, snd b + snd p) # bs)"
    using assms True by (auto simp: block_ok_def)
  with True show ?thesis by (simp add: free_above_def merge_block_disjoint)
next
  case False
  have "disjoint_blocks (p # bs)" using assms by auto
  then have "disjoint_blocks (merge_block p bs)" by (rule merge_block_disjoint)
  with assms False show ?thesis by (auto simp: free_above_def merge_block_bytes)
qed

lemma block_in_bytes: "block_ok b \<Longrightarrow> fst b \<in> bytes b"
  by (simp add: block_ok_def bytes_def)

lemma disjoint_blocks_distinct: "disjoint_blocks (blocks s xs) \<Longrightarrow> distinct xs"
proof (induction xs)
  case (Cons a xs)
  have "x \<in> free_bytes (blocks s xs)" if "x \<in> set xs" "disjoint_blocks (blocks s xs)" for x
    using that by (induction xs) (auto dest: block_in_bytes)
  with Cons show ?case using block_in_bytes [of "(a, hsize s a)"] by auto
qed simp

lemma address_not_free:
  "disjoint_blocks (blocks s xs) \<Longrightarrow> a \<notin> free_bytes (blocks s xs) \<Longrightarrow> a \<notin> set xs"
  by (induction xs) (auto dest: block_in_bytes)

section \<open>Freeing above the head\<close>

lemma merge_with_next_spec:
  assumes "flist s (hnext s p) xs" "disjoint_blocks (blocks s (p # xs))"
  obtains ys where "flist (merge_with_next p s) (hnext (merge_with_next p s) p) ys"
    "blocks (merge_with_next p s) (p # ys) = merge_block (p, hsize s p) (blocks s xs)"
    "\<And>a. a \<noteq> p \<Longrightarrow> hnext (merge_with_next p s) a = hnext s a \<and> hsize (merge_with_next p s) a = hsize s a"
    "free_head (merge_with_next p s) = free_head s" "set ys \<subseteq> set xs"
proof (cases "\<exists>n ns. xs = n # ns \<and> p + hsize s p = n")
  case True
  then obtain n ns where xs: "xs = n # ns" "p + hsize s p = n" by blast
  have ok: "block_ok (p, hsize s p)" "block_ok (n, hsize s n)" "p \<notin> set xs"
    using assms(2) disjoint_blocks_distinct [of s "p # xs"] xs by auto
  have sum: "hsize s p + hsize s n < 2 ^ 32" "p + hsize s p < 2 ^ 32"
    using ok xs(2) by (auto simp: block_ok_def)
  let ?s = "put_next p (hnext s n) (put_size p (hsize s p + hsize s n) s)"
  have m: "merge_with_next p s = ?s"
    using assms(1) xs sum by (simp add: merge_with_next_def put_defs)
  show thesis
  proof (rule that [of ns])
    show "flist (merge_with_next p s) (hnext (merge_with_next p s) p) ns"
      using assms(1) xs ok(3) unfolding m by (subst flist_cong [of _ _ s]) (auto simp: put_defs)
    show "blocks (merge_with_next p s) (p # ns) = merge_block (p, hsize s p) (blocks s xs)"
      using xs ok(3) unfolding m by (auto simp: put_defs blocks_def)
  qed (use xs in \<open>auto simp: m put_defs\<close>)
next
  case False
  have "p + hsize s p < 2 ^ 32" using assms(2) by (simp add: block_ok_def)
  with False have m: "merge_with_next p s = s"
    using assms(1) by (cases xs) (auto simp: merge_with_next_def)
  show thesis
    by (rule that [of xs]) (use False assms(1) in \<open>cases xs; auto simp: m\<close>)+
qed

lemma free_raw_link_spec:
  assumes "flist s (hnext s h) xs" "disjoint_blocks (blocks s (h # xs))"
    and "disjoint_blocks [(p, hsize s p)]"
    and "bytes (p, hsize s p) \<inter> free_bytes (blocks s (h # xs)) = {}"
  shows "\<exists>ys. flist (free_raw_link h p s) (hnext (free_raw_link h p s) h) ys
     \<and> blocks (free_raw_link h p s) (h # ys) = free_above (h, hsize s h) (blocks s xs) (p, hsize s p)
     \<and> free_head (free_raw_link h p s) = free_head s"
proof -
  have "p \<in> bytes (p, hsize s p)" using assms(3) block_in_bytes [of "(p, hsize s p)"] by simp
  then have "p \<notin> free_bytes (blocks s (h # xs))" using assms(4) by blast
  then have p: "p \<notin> set (h # xs)" by (rule address_not_free [OF assms(2)])
  have h: "h \<notin> set xs" using disjoint_blocks_distinct [OF assms(2)] by simp
  have ok: "block_ok (h, hsize s h)" "block_ok (p, hsize s p)" using assms(2,3) by simp_all
  then have h32: "add32 h (hsize s h) = h + hsize s h" by (simp add: block_ok_def)
  show ?thesis
  proof (cases "h + hsize s h = p")
    case True
    then have sum: "add32 (hsize s h) (hsize s p) = hsize s h + hsize s p"
      using ok by (simp add: block_ok_def)
    let ?s = "put_size h (hsize s h + hsize s p) s"
    have link: "free_raw_link h p s = merge_with_next h ?s"
      using True h32 sum by (simp add: free_raw_link_def)
    have un: "bytes (h, hsize s h + hsize s p) = bytes (h, hsize s h) \<union> bytes (p, hsize s p)"
      using bytes_union [OF True, of "hsize s p"] by simp
    have bl: "blocks ?s xs = blocks s xs" using h by (intro blocks_cong) (auto simp: put_defs)
    have "flist ?s (hnext ?s h) xs" using assms(1) by (subst flist_cong [of _ _ s]) (auto simp: put_defs)
    moreover have "disjoint_blocks (blocks ?s (h # xs))"
      using assms(2,4) ok True un bl by (auto simp: put_defs block_ok_def)
    ultimately obtain ys where
      "flist (merge_with_next h ?s) (hnext (merge_with_next h ?s) h) ys"
      "blocks (merge_with_next h ?s) (h # ys) = merge_block (h, hsize ?s h) (blocks ?s xs)"
      "free_head (merge_with_next h ?s) = free_head ?s"
      using merge_with_next_spec by blast
    then show ?thesis using True unfolding link bl
      by (auto simp: free_above_def put_defs)
  next
    case False
    let ?s = "put_next h (Some p) (put_next p (hnext s h) s)"
    have link: "free_raw_link h p s = merge_with_next p ?s"
      using False h32 by (simp add: free_raw_link_def)
    have bl: "blocks ?s xs = blocks s xs" by (intro blocks_cong) (auto simp: put_defs)
    have next_p: "hnext ?s p = hnext s h" using p by (auto simp: put_defs)
    have "flist ?s (hnext ?s p) xs"
      unfolding next_p using assms(1) p h by (subst flist_cong [of _ _ s]) (auto simp: put_defs)
    moreover have "disjoint_blocks (blocks ?s (p # xs))"
      using assms(2-4) bl by (auto simp: put_defs)
    ultimately obtain ys where ys:
      "flist (merge_with_next p ?s) (hnext (merge_with_next p ?s) p) ys"
      "blocks (merge_with_next p ?s) (p # ys) = merge_block (p, hsize ?s p) (blocks ?s xs)"
      "hnext (merge_with_next p ?s) h = hnext ?s h" "hsize (merge_with_next p ?s) h = hsize ?s h"
      "free_head (merge_with_next p ?s) = free_head ?s"
      using merge_with_next_spec [of ?s p xs] p by (metis list.set_intros(1))
    have "flist (merge_with_next p ?s) (hnext (merge_with_next p ?s) h) (p # ys)"
      using ys by (simp add: put_defs)
    then show ?thesis using False ys unfolding link bl
      by (intro exI [of _ "p # ys"]) (simp add: free_above_def put_defs)
  qed
qed

lemma free_raw_above:
  assumes "wf_heap s (h # xs)" "h < p" "block_ok (p, sz)"
    and "bytes (p, sz) \<inter> free_bytes (blocks s (h # xs)) = {}"
  shows "\<exists>s' ys. free_raw (Some p) sz s = Some (Inr s') \<and> wf_heap s' (h # ys)
     \<and> blocks s' (h # ys) = free_above (h, hsize s h) (blocks s xs) (p, sz)"
proof -
  let ?s = "put_next p None (put_size p sz s)"
  have "p \<in> bytes (p, sz)" using block_in_bytes [OF assms(3)] by simp
  then have "p \<notin> free_bytes (blocks s (h # xs))" using assms(4) by blast
  then have p: "p \<notin> set (h # xs)" 
    using assms(1) by (intro address_not_free) (simp_all only: wf_heap_def)
  have fh: "free_head s = Some h" and fl: "flist s (hnext s h) xs"
    using assms(1) by (simp_all add: wf_heap_def)
  have bl: "blocks ?s xs = blocks s xs" "hsize ?s h = hsize s h" "hsize ?s p = sz"
    using p by (auto simp: put_defs blocks_def)
  have "flist ?s (hnext ?s h) xs"
    using fl p by (subst flist_cong [of _ _ s]) (auto simp: put_defs)
  then obtain ys where ys: "flist (free_raw_link h p ?s) (hnext (free_raw_link h p ?s) h) ys"
    "blocks (free_raw_link h p ?s) (h # ys) = free_above (h, hsize s h) (blocks s xs) (p, sz)"
    "free_head (free_raw_link h p ?s) = Some h"
    using free_raw_link_spec [of ?s h xs p] assms bl fh by (auto simp: wf_heap_def put_defs)
  have "free_raw (Some p) sz s = Some (Inr (free_raw_link h p ?s))"
    using assms(2,3) fh by (simp add: free_raw_def put_defs block_ok_def free_raw_loop.simps)
  moreover have "disjoint_blocks (blocks (free_raw_link h p ?s) (h # ys))"
    unfolding ys(2) using assms by (intro free_above_disjoint) (simp_all add: wf_heap_def)
  then have "wf_heap (free_raw_link h p ?s) (h # ys)" using ys(1,3) by (simp add: wf_heap_def)
  ultimately show ?thesis using ys(2) by blast
qed

lemma free_raw_empty:
  assumes "free_head s = None" "block_ok (p, sz)"
  shows "\<exists>s'. free_raw (Some p) sz s = Some (Inr s') \<and> wf_heap s' [p] \<and> blocks s' [p] = [(p, sz)]"
  using assms by (simp add: free_raw_def put_defs wf_heap_def block_ok_def)

section \<open>Freeing below the head\<close>

text \<open>
  The loop of \<open>free_raw\<close> is entered also after the block was put in front of the list. It
  runs to the last block and links the new head behind it a second time, which cuts the new
  head off from all the others.
\<close>

lemma free_raw_loop_last:
  "flist s q xs \<Longrightarrow> xs \<noteq> [] \<Longrightarrow> \<forall>x \<in> set xs. p \<le> x \<Longrightarrow>
     free_raw_loop q p s = Some (free_raw_link (last xs) p s)"
proof (induction xs arbitrary: q)
  case (Cons x xs)
  then show ?case by (cases xs) (subst free_raw_loop.simps; simp)+
qed simp

lemma free_raw_below:
  assumes "wf_heap s (h # xs)" "\<forall>x \<in> set (h # xs). p < x" "block_ok (p, sz)" "h + sz < 2 ^ 32"
  shows "\<exists>s'. free_raw (Some p) sz s = Some (Inr s') \<and> wf_heap s' [p] \<and> blocks s' [p] = [(p, sz)]"
proof -
  let ?l = "last (h # xs)"
  let ?s = "(put_next p (Some h) (put_next p None (put_size p sz s)))\<lparr>free_head := Some p\<rparr>"
  have p: "p \<notin> set (h # xs)" "p < h" using assms(2) by auto
  have l: "?l \<in> set (h # xs)" by (rule last_in_set) simp
  then have "block_ok (?l, hsize s ?l)" "p < ?l"
  proof -
    show "p < ?l" using assms(2) l by blast
    have "disjoint_blocks (blocks s ys) \<Longrightarrow> x \<in> set ys \<Longrightarrow> block_ok (x, hsize s x)" for x ys
      by (induction ys) auto
    then show "block_ok (?l, hsize s ?l)" using assms(1) l unfolding wf_heap_def by blast
  qed
  then have no_merge: "add32 ?l (hsize ?s ?l) \<noteq> p" by (auto simp: put_defs block_ok_def)
  have "flist ?s (Some h) (h # xs)"
    using assms(1) p by (subst flist_cong [of _ _ s]) (auto simp: wf_heap_def put_defs)
  then have "flist ?s (Some p) (p # h # xs)" by (simp add: put_defs)
  then have "free_raw_loop (Some p) p ?s = Some (free_raw_link ?l p ?s)"
    using free_raw_loop_last [of ?s "Some p" "p # h # xs" p] assms(2) by fastforce
  moreover have "free_head s = Some h" "add32 h sz = h + sz"
    using assms by (simp_all add: wf_heap_def)
  ultimately have run: "free_raw (Some p) sz s = Some (Inr (free_raw_link ?l p ?s))"
    using assms(3) p by (simp add: free_raw_def put_defs block_ok_def)
  have "hnext ?s ?l = None"
  proof -
    have "flist u q ys \<Longrightarrow> ys \<noteq> [] \<Longrightarrow> hnext u (last ys) = None" for u q ys
      by (induction ys arbitrary: q) auto
    then have "hnext s ?l = None" using assms(1) by (simp only: wf_heap_def) blast
    then show ?thesis using \<open>p < ?l\<close> by (auto simp: put_defs)
  qed
  then have link: "free_raw_link ?l p ?s = put_next ?l (Some p) (put_next p None ?s)"
    using no_merge \<open>p < ?l\<close> by (auto simp: free_raw_link_def merge_with_next_def put_defs)
  show ?thesis
    using run assms(3) \<open>p < ?l\<close> unfolding link by (auto simp: wf_heap_def put_defs)
qed

section \<open>Allocation\<close>

text \<open>First fit: the search unlinks the first block that is large enough.\<close>

lemma flist_unlink:
  assumes "flist s (hnext s prev) (as @ b # bs)" "prev \<notin> set (as @ b # bs)" "distinct (as @ b # bs)"
  shows "flist (put_next (last (prev # as)) (hnext s b) s)
     (hnext (put_next (last (prev # as)) (hnext s b) s) prev) (as @ bs)"
  using assms
proof (induction as arbitrary: prev)
  case Nil
  then show ?case by (simp, subst flist_cong [of _ _ s]) (auto simp: put_defs)
next
  case (Cons a as)
  then have "flist (put_next (last (a # as)) (hnext s b) s)
     (hnext (put_next (last (a # as)) (hnext s b) s) a) (as @ bs)" by simp
  moreover have "last (a # as) \<noteq> prev" using Cons.prems(2) last_in_set [of "a # as"] by auto
  ultimately show ?case using Cons.prems by (auto simp: put_defs)
qed

lemma malloc_raw_loop_first_fit:
  "flist s (hnext s prev) (as @ b # bs) \<Longrightarrow> \<forall>a \<in> set as. hsize s a < sz \<Longrightarrow> sz \<le> hsize s b \<Longrightarrow>
     malloc_raw_loop prev sz s = malloc_raw_split b sz (put_next (last (prev # as)) (hnext s b) s)"
proof (induction as arbitrary: prev)
  case Nil
  then show ?case by (subst malloc_raw_loop.simps) simp
next
  case (Cons a as)
  then show ?case by (subst malloc_raw_loop.simps) simp
qed

lemma malloc_raw_loop_none:
  "flist s (hnext s prev) xs \<Longrightarrow> \<forall>a \<in> set xs. hsize s a < sz \<Longrightarrow>
     malloc_raw_loop prev sz s = Some (Inr (None, s))"
proof (induction xs arbitrary: prev)
  case Nil
  then show ?case by (subst malloc_raw_loop.simps) simp
next
  case (Cons a as)
  then show ?case by (subst malloc_raw_loop.simps) simp
qed

lemma malloc_raw_none:
  assumes "wf_heap s xs" "xs \<noteq> []" "\<forall>a \<in> set xs. hsize s a < sz" "8 \<le> sz"
  shows "malloc_raw sz s = Some (Inr (None, s))"
  using assms malloc_raw_loop_none [of s "hd xs" "tl xs" sz]
  by (cases xs) (auto simp: malloc_raw_def wf_heap_def)

lemma disjoint_blocks_remove:
  "disjoint_blocks (as @ b # bs) \<Longrightarrow>
     block_ok b \<and> disjoint_blocks (as @ bs) \<and> bytes b \<inter> free_bytes (as @ bs) = {}
     \<and> free_bytes (as @ b # bs) = bytes b \<union> free_bytes (as @ bs)"
  by (induction as) auto

lemma blocks_append: "blocks s (xs @ ys) = blocks s xs @ blocks s ys"
  by (simp add: blocks_def)

lemma malloc_raw_first_fit:
  assumes "wf_heap s (as @ b # bs)" "\<forall>a \<in> set as. hsize s a < sz" "sz \<le> hsize s b" "8 \<le> sz"
  obtains s1 where "malloc_raw sz s = malloc_raw_split b sz s1" "wf_heap s1 (as @ bs)"
    "hsize s1 = hsize s"
proof (cases as)
  case Nil
  have "disjoint_blocks (blocks s bs)"
    using assms(1) by (simp add: wf_heap_def Nil)
  then have "wf_heap (s\<lparr>free_head := hnext s b\<rparr>) bs"
    using assms(1) flist_cong [of bs "s\<lparr>free_head := hnext s b\<rparr>" s]
    by (simp add: wf_heap_def Nil blocks_def)
  moreover have "malloc_raw sz s = malloc_raw_split b sz (s\<lparr>free_head := hnext s b\<rparr>)"
    using assms by (simp add: malloc_raw_def wf_heap_def Nil)
  ultimately show thesis using that Nil by simp
next
  case (Cons a as')
  let ?s = "put_next (last (a # as')) (hnext s b) s"
  have fl: "flist s (hnext s a) (as' @ b # bs)" "free_head s = Some a"
    using assms(1) by (simp_all add: wf_heap_def Cons)
  have d: "distinct (a # as' @ b # bs)"
    using assms(1) disjoint_blocks_distinct [of s "as @ b # bs"] by (simp add: wf_heap_def Cons)
  have "disjoint_blocks (blocks s as @ blocks s bs)"
    using assms(1) disjoint_blocks_remove [of "blocks s as" "(b, hsize s b)" "blocks s bs"]
    by (simp add: wf_heap_def blocks_append)
  moreover have "blocks ?s (as @ bs) = blocks s (as @ bs)" by (rule blocks_cong) (simp add: put_defs)
  ultimately have "wf_heap ?s (as @ bs)"
    using flist_unlink [of s a as' b bs] fl d by (simp add: wf_heap_def Cons blocks_append put_defs)
  moreover have "malloc_raw sz s = malloc_raw_split b sz ?s"
    using assms fl malloc_raw_loop_first_fit [of s a as' b bs sz] by (simp add: malloc_raw_def Cons)
  ultimately show thesis using that by (simp add: put_defs)
qed

lemma wf_put_size:
  "wf_heap s xs \<Longrightarrow> a \<notin> set xs \<Longrightarrow>
     wf_heap (put_size a v s) xs \<and> blocks (put_size a v s) xs = blocks s xs"
proof -
  assume "wf_heap s xs" "a \<notin> set xs"
  moreover from this(2) have "blocks (put_size a v s) xs = blocks s xs"
    by (intro blocks_cong) (auto simp: put_defs)
  moreover have "flist (put_size a v s) p xs = flist s p xs" for p
    by (rule flist_cong) (simp add: put_defs)
  ultimately show ?thesis by (simp add: wf_heap_def put_size_def)
qed

text \<open>Giving the remainder back to a list whose head lies below it, or that is empty.\<close>

lemma free_remainder:
  assumes "wf_heap s xs" "xs = [] \<or> hd xs < p" "block_ok (p, sz)"
    and "bytes (p, sz) \<inter> free_bytes (blocks s xs) = {}"
  shows "\<exists>s' ys. free_raw (Some p) sz s = Some (Inr s') \<and> wf_heap s' ys
     \<and> free_bytes (blocks s' ys) = bytes (p, sz) \<union> free_bytes (blocks s xs)"
proof (cases xs)
  case Nil
  with assms(1) have "free_head s = None" by (simp add: wf_heap_def)
  from free_raw_empty [OF this assms(3)] Nil show ?thesis by fastforce
next
  case (Cons h hs)
  with assms free_raw_above [of s h hs p sz] obtain s' ys where
    "free_raw (Some p) sz s = Some (Inr s')" "wf_heap s' (h # ys)"
    "blocks s' (h # ys) = free_above (h, hsize s h) (blocks s hs) (p, sz)" by auto
  moreover have "free_bytes (blocks s' (h # ys)) = bytes (p, sz) \<union> free_bytes (blocks s xs)"
    unfolding calculation(3) free_above_bytes Cons by simp
  ultimately show ?thesis by blast
qed

lemma malloc_raw_ok:
  assumes "wf_heap s (as @ b # bs)" "\<forall>a \<in> set as. hsize s a < sz" "sz \<le> hsize s b" "8 \<le> sz"
    and "hsize s b < sz + 8 \<or> as @ bs = [] \<or> hd (as @ bs) < b + sz"
  shows "\<exists>s' ys. malloc_raw sz s = Some (Inr (Some b, s')) \<and> wf_heap s' ys
     \<and> bytes (b, sz) \<subseteq> free_bytes (blocks s (as @ b # bs))
     \<and> free_bytes (blocks s' ys) \<subseteq> free_bytes (blocks s (as @ b # bs)) - bytes (b, sz)
     \<and> (sz + 8 \<le> hsize s b \<longrightarrow>
          free_bytes (blocks s' ys) = free_bytes (blocks s (as @ b # bs)) - bytes (b, sz))"
proof -
  obtain s1 where s1: "malloc_raw sz s = malloc_raw_split b sz s1" "wf_heap s1 (as @ bs)"
    "hsize s1 = hsize s"
    using malloc_raw_first_fit [OF assms(1-4)] by blast
  have bl: "blocks s1 (as @ bs) = blocks s as @ blocks s bs"
    using s1(3) by (simp add: blocks_def)
  have old: "block_ok (b, hsize s b)"
    "bytes (b, hsize s b) \<inter> free_bytes (blocks s1 (as @ bs)) = {}"
    "free_bytes (blocks s (as @ b # bs)) = bytes (b, hsize s b) \<union> free_bytes (blocks s1 (as @ bs))"
    unfolding bl using assms(1)
      disjoint_blocks_remove [of "blocks s as" "(b, hsize s b)" "blocks s bs"]
    by (simp_all add: wf_heap_def blocks_append)
  have diff: "sub32 (hsize s b) sz = hsize s b - sz" "add32 b sz = b + sz"
    using old(1) assms(3) by (simp_all add: block_ok_def)
  have sub: "bytes (b, sz) \<subseteq> bytes (b, hsize s b)" using assms(3) by (auto simp: bytes_def)
  show ?thesis
  proof (cases "hsize s b < sz + 8")
    case True
    then have "\<not> 8 \<le> hsize s b - sz" by simp
    then have "malloc_raw sz s = Some (Inr (Some b, s1))"
      using s1 diff by (simp add: malloc_raw_split_def)
    with s1(2) old sub True show ?thesis by (intro exI [of _ s1] exI [of _ "as @ bs"]) auto
  next
    case False
    let ?r = "(b + sz, hsize s b - sz)"
    have r: "block_ok ?r" using old(1) False by (simp add: block_ok_def)
    have part: "bytes (b, sz) \<union> bytes ?r = bytes (b, hsize s b)" "bytes (b, sz) \<inter> bytes ?r = {}"
      using assms(3) by (auto simp: bytes_def)
    then obtain s2 ys where s2: "free_raw (Some (b + sz)) (hsize s b - sz) s1 = Some (Inr s2)"
      "wf_heap s2 ys" "free_bytes (blocks s2 ys) = bytes ?r \<union> free_bytes (blocks s1 (as @ bs))"
      using free_remainder [OF s1(2) _ r] assms(5) False old(2) by blast
    have "b \<in> bytes (b, sz)" using assms(4) by (simp add: bytes_def)
    then have "b \<notin> free_bytes (blocks s2 ys)" using s2(3) part old(2) by blast
    then have "b \<notin> set ys" using s2(2) by (intro address_not_free) (simp_all add: wf_heap_def)
    note w = wf_put_size [OF s2(2) this, of "sub32 (hsize s2 b) sz"]
    have "malloc_raw sz s = Some (Inr (Some b, put_size b (sub32 (hsize s2 b) sz) s2))"
      using s1 diff False s2(1) old(1) by (simp add: malloc_raw_split_def block_ok_def)
    moreover have "free_bytes (blocks s2 ys) = free_bytes (blocks s (as @ b # bs)) - bytes (b, sz)"
      using s2(3) old part by blast
    ultimately show ?thesis using w sub old(3) by auto
  qed
qed

text \<open>A remainder below all other free blocks: they are lost.\<close>

lemma malloc_raw_lowest_split:
  assumes "wf_heap s (as @ b # bs)" "\<forall>a \<in> set as. hsize s a < sz" "sz \<le> hsize s b" "8 \<le> sz"
    and "sz + 8 \<le> hsize s b" "as @ bs \<noteq> []" "\<forall>x \<in> set (as @ bs). b + sz < x" "hd (as @ bs) + (hsize s b - sz) < 2 ^ 32"
  shows "\<exists>s'. malloc_raw sz s = Some (Inr (Some b, s')) \<and> wf_heap s' [b + sz]
     \<and> blocks s' [b + sz] = [(b + sz, hsize s b - sz)]"
proof -
  obtain s1 where s1: "malloc_raw sz s = malloc_raw_split b sz s1" "wf_heap s1 (as @ bs)" "hsize s1 = hsize s"
    using malloc_raw_first_fit [OF assms(1-4)] by blast
  have old: "block_ok (b, hsize s b)"
    using assms(1) disjoint_blocks_remove [of "blocks s as" "(b, hsize s b)" "blocks s bs"] by (simp add: wf_heap_def blocks_append)
  then have r: "block_ok (b + sz, hsize s b - sz)" "sub32 (hsize s b) sz = hsize s b - sz" "add32 b sz = b + sz"
    using assms(3,5) by (simp_all add: block_ok_def)
  obtain h xs where h: "as @ bs = h # xs" using assms(6) by (cases "as @ bs") auto
  obtain s2 where s2: "free_raw (Some (b + sz)) (hsize s b - sz) s1 = Some (Inr s2)" "wf_heap s2 [b + sz]"
    "blocks s2 [b + sz] = [(b + sz, hsize s b - sz)]"
    using free_raw_below [of s1 h xs "b + sz" "hsize s b - sz"] s1(2) r(1) assms(7,8) by (auto simp: h)
  have "malloc_raw sz s = Some (Inr (Some b, put_size b (sub32 (hsize s2 b) sz) s2))"
    using s1 r s2(1) assms(5) old by (simp add: malloc_raw_split_def block_ok_def)
  moreover have "b \<notin> set [b + sz]" using assms(4) by simp
  ultimately show ?thesis using wf_put_size [OF s2(2), of b "sub32 (hsize s2 b) sz"] s2(3) by auto
qed

section \<open>The fresh heap\<close>

text \<open>A sequence of allocations, and the addresses a bump allocator would return.\<close>

fun alloc_all :: "nat list \<Rightarrow> mheap \<Rightarrow> (nat list \<times> mheap) option" where
  "alloc_all [] s = Some ([], s)"
| "alloc_all (n # ns) s =
     (case malloc_raw n s of
        Some (Inr (Some p, s)) \<Rightarrow> map_option (\<lambda>(ps, s). (p # ps, s)) (alloc_all ns s)
      | _ \<Rightarrow> None)"

fun bump :: "nat \<Rightarrow> nat list \<Rightarrow> nat list" where
  "bump a [] = []"
| "bump a (n # ns) = a # bump (a + n) ns"

lemma malloc_raw_single:
  assumes "wf_heap s [a]" "8 \<le> sz" "sz + 8 \<le> hsize s a"
  shows "\<exists>s'. malloc_raw sz s = Some (Inr (Some a, s')) \<and> wf_heap s' [a + sz]
     \<and> blocks s' [a + sz] = [(a + sz, hsize s a - sz)]"
proof -
  have ok: "block_ok (a, hsize s a)" using assms(1) by (simp add: wf_heap_def)
  then have diff: "sub32 (hsize s a) sz = hsize s a - sz" "add32 a sz = a + sz" "0 < a"
    using assms(3) by (simp_all add: block_ok_def)
  have r: "block_ok (a + sz, hsize s a - sz)" using ok assms(3) by (simp add: block_ok_def)
  obtain s1 where s1: "malloc_raw sz s = malloc_raw_split a sz s1" "wf_heap s1 []" "hsize s1 = hsize s"
    using malloc_raw_first_fit [of s "[]" a "[]" sz] assms by auto
  have "free_head s1 = None" using s1(2) by (simp add: wf_heap_def)
  then obtain s2 where s2: "free_raw (Some (a + sz)) (hsize s a - sz) s1 = Some (Inr s2)"
    "wf_heap s2 [a + sz]" "blocks s2 [a + sz] = [(a + sz, hsize s a - sz)]"
    using free_raw_empty [OF _ r] by blast
  have "a \<notin> set [a + sz]" using assms(2) by simp
  note w = wf_put_size [OF s2(2) this, of "sub32 (hsize s2 a) sz"]
  have "malloc_raw sz s = Some (Inr (Some a, put_size a (sub32 (hsize s2 a) sz) s2))"
    using s1 s2(1) diff assms(3) by (simp add: malloc_raw_split_def)
  with w s2(3) show ?thesis by auto
qed

lemma alloc_all_bump:
  "wf_heap s [a] \<Longrightarrow> \<forall>n \<in> set ns. 8 \<le> n \<Longrightarrow> sum_list ns + 8 \<le> hsize s a \<Longrightarrow>
     \<exists>s'. alloc_all ns s = Some (bump a ns, s') \<and> wf_heap s' [a + sum_list ns]
       \<and> blocks s' [a + sum_list ns] = [(a + sum_list ns, hsize s a - sum_list ns)]"
proof (induction ns arbitrary: a s)
  case (Cons n ns)
  then obtain s1 where s1: "malloc_raw n s = Some (Inr (Some a, s1))" "wf_heap s1 [a + n]"
    "blocks s1 [a + n] = [(a + n, hsize s a - n)]"
    using malloc_raw_single [of s a n] by auto
  with Cons.prems obtain s' where "alloc_all ns s1 = Some (bump (a + n) ns, s')"
    "wf_heap s' [a + n + sum_list ns]"
    "blocks s' [a + n + sum_list ns] = [(a + n + sum_list ns, hsize s1 (a + n) - sum_list ns)]"
    using Cons.IH [of s1 "a + n"] by (simp add: le_diff_conv2) blast
  with s1 show ?case by (auto simp: add.assoc diff_diff_eq)
qed (simp add: blocks_def)

lemma malloc_init_fresh:
  assumes "free_head s = None" "0 < a" "a + 8 \<le> z" "z < 2 ^ 32"
  shows "\<exists>s'. malloc_init a z s = Some (Inr s') \<and> wf_heap s' [a] \<and> blocks s' [a] = [(a, z - a)]"
  using assms free_raw_empty [of s a "z - a"] by (simp add: malloc_init_def block_ok_def)

lemma get_free_size_sum:
  assumes "wf_heap s xs" "sum_list (map snd (blocks s xs)) < 2 ^ 32"
  shows "get_free_size s = Some (sum_list (map snd (blocks s xs)))"
proof -
  have "n + sum_list (map (hsize s) ys) < 2 ^ 32 \<Longrightarrow>
      fold (\<lambda>a n. add32 n (hsize s a)) ys n = n + sum_list (map (hsize s) ys)" for n ys
    by (induction ys arbitrary: n) (simp_all add: add.assoc)
  from this [of 0 xs] show ?thesis
    using assms get_free_size_loop_flist [of s "free_head s" xs 0]
    by (simp add: get_free_size_def wf_heap_def blocks_def comp_def)
qed

section \<open>Sequences of operations\<close>

text \<open>A program of allocations and releases, with the addresses the allocations returned.\<close>

datatype mop = Alloc nat | Release nat nat

fun mrun :: "mop list \<Rightarrow> mheap \<Rightarrow> (nat list \<times> mheap) option" where
  "mrun [] s = Some ([], s)"
| "mrun (Alloc n # ops) s =
     (case malloc_raw n s of
        Some (Inr (Some p, s)) \<Rightarrow> map_option (\<lambda>(ps, s). (p # ps, s)) (mrun ops s)
      | _ \<Rightarrow> None)"
| "mrun (Release p n # ops) s =
     (case free_raw (mkptr p) n s of Some (Inr s) \<Rightarrow> mrun ops s | _ \<Rightarrow> None)"

definition empty_heap :: mheap where
  "empty_heap = \<lparr>free_head = None, hsize = (\<lambda>_. 0), hnext = (\<lambda>_. None)\<rparr>"

lemmas malloc_eval =
  malloc_raw_def malloc_raw_split_def free_raw_def free_raw_link_def merge_with_next_def
  put_defs add32_def sub32_def free_raw_loop.simps malloc_raw_loop.simps

lemma double_allocation:
  "map_option fst (mrun
     [Release 8 40, Alloc 8, Alloc 8, Alloc 8, Alloc 8, Alloc 8,
      Release 8 8, Release 24 8, Release 40 8, Alloc 8, Release 32 8, Alloc 8, Alloc 16]
     empty_heap) = Some [8, 16, 24, 32, 40, 8, 32, 24]"
  by (simp add: malloc_eval empty_heap_def)

section \<open>Properties\<close>

text \<open>
  On a fresh heap the allocator never hands out a byte twice: requests of at least 8
  bytes that fit are served one after the other from the start of the heap, and the free
  list is the one remaining block, which starts where the last allocation ends.
\<close>

theorem fresh_heap_allocates_in_order:
  assumes "free_head s = None" "0 < a" "z < 2 ^ 32"
    and "\<forall>n \<in> set ns. 8 \<le> n" "a + sum_list ns + 8 \<le> z"
  shows "\<exists>s' s''. malloc_init a z s = Some (Inr s') \<and> alloc_all ns s' = Some (bump a ns, s'')
     \<and> wf_heap s'' [a + sum_list ns] \<and> get_free_size s'' = Some (z - a - sum_list ns)"
proof -
  obtain s' where s': "malloc_init a z s = Some (Inr s')" "wf_heap s' [a]" "blocks s' [a] = [(a, z - a)]"
    using malloc_init_fresh [of s a z] assms by auto
  have "sum_list ns + 8 \<le> hsize s' a" using s'(3) assms(5) by simp
  then obtain s'' where s'': "alloc_all ns s' = Some (bump a ns, s'')" "wf_heap s'' [a + sum_list ns]"
    "blocks s'' [a + sum_list ns] = [(a + sum_list ns, z - a - sum_list ns)]"
    using alloc_all_bump [OF s'(2) assms(4)] s'(3) by auto
  then have "get_free_size s'' = Some (z - a - sum_list ns)"
    using get_free_size_sum [OF s''(2)] assms by simp
  with s' s'' show ?thesis by blast
qed

theorem fresh_heap_allocates_in_order_witness:
  "\<exists>s' s''. malloc_init 0x1000 0x2000 empty_heap = Some (Inr s')
     \<and> alloc_all [24, 100, 8] s' = Some ([0x1000, 0x1018, 0x107C], s'')"
  using fresh_heap_allocates_in_order [of empty_heap "0x1000" "0x2000" "[24, 100, 8]"]
  by (simp add: empty_heap_def) blast

text \<open>
  C6. \<open>malloc_raw\<close> on a list of disjoint free blocks is first fit: it takes the first block that is
  large enough.
  \<^item> When the remainder of the block is too small to keep, or no other block is free, or the head of the remaining list lies
    below the remainder: the returned bytes were free, none of them is in the free list
    afterwards, the list stays a list of disjoint blocks, and a split loses no byte.
  \<^item> When the remainder is kept and lies below all other free blocks, as after splitting the lowest block: the returned bytes are
    right too, but the remainder becomes the whole free list, and all other free blocks are lost.

  Between the two, when the remainder lies below the head of the list but above another free block, a byte may get into the list
  twice (\<open>overlapping_allocations\<close>).
\<close>

theorem malloc_raw_first_fit_safe:
  assumes "wf_heap s (as @ b # bs)" "\<forall>a \<in> set as. hsize s a < sz" "sz \<le> hsize s b" "8 \<le> sz"
  shows "(hsize s b < sz + 8 \<or> as @ bs = [] \<or> hd (as @ bs) < b + sz \<longrightarrow>
      (\<exists>s' ys. malloc_raw sz s = Some (Inr (Some b, s')) \<and> wf_heap s' ys
         \<and> bytes (b, sz) \<subseteq> free_bytes (blocks s (as @ b # bs))
         \<and> free_bytes (blocks s' ys) \<subseteq> free_bytes (blocks s (as @ b # bs)) - bytes (b, sz)
         \<and> (sz + 8 \<le> hsize s b \<longrightarrow>
              free_bytes (blocks s' ys) = free_bytes (blocks s (as @ b # bs)) - bytes (b, sz))))
    \<and> (sz + 8 \<le> hsize s b \<and> as @ bs \<noteq> [] \<and> (\<forall>x \<in> set (as @ bs). b + sz < x) \<and> hd (as @ bs) + (hsize s b - sz) < 2 ^ 32 \<longrightarrow>
      (\<exists>s'. malloc_raw sz s = Some (Inr (Some b, s')) \<and> wf_heap s' [b + sz]
         \<and> blocks s' [b + sz] = [(b + sz, hsize s b - sz)]))"
  using malloc_raw_ok [OF assms] malloc_raw_lowest_split [OF assms] by blast

text \<open>Two free blocks, 16 bytes at 100 and 64 bytes at 200.\<close>

definition heap2 :: mheap where
  "heap2 = \<lparr>free_head = Some 100, hsize = (\<lambda>a. if a = 100 then 16 else 64),
     hnext = (\<lambda>a. if a = 100 then Some 200 else None)\<rparr>"

lemma heap2_wf: "wf_heap heap2 [100, 200]" "blocks heap2 [100, 200] = [(100, 16), (200, 64)]"
  by (auto simp: wf_heap_def heap2_def block_ok_def bytes_def)

theorem malloc_raw_first_fit_safe_witness:
  "\<exists>s'. malloc_raw 24 heap2 = Some (Inr (Some 200, s'))"
  using malloc_raw_first_fit_safe [of heap2 "[100]" 200 "[]" 24] heap2_wf
  by (auto simp: heap2_def)

text \<open>
  C25. \<open>free_raw\<close> of a block that lies above the head of the free list and is disjoint from
  it succeeds: the block is joined to the head when it begins where the head ends, and otherwise becomes the second
  block; what results is joined with the block that follows in the list when that begins where it ends (and with
  no other neighbour). The free memory grows by exactly the bytes of the block, the list stays a list
  of disjoint blocks, and the number of free bytes grows by the size of the block.
\<close>

theorem free_raw_above_head:
  assumes "wf_heap s (h # xs)" "h < p" "block_ok (p, sz)"
    and "bytes (p, sz) \<inter> free_bytes (blocks s (h # xs)) = {}"
  shows "\<exists>s' ys. free_raw (Some p) sz s = Some (Inr s') \<and> wf_heap s' (h # ys)
     \<and> blocks s' (h # ys) =
         (if h + hsize s h = p then merge_block (h, hsize s h + sz) (blocks s xs)
          else (h, hsize s h) # merge_block (p, sz) (blocks s xs))
     \<and> free_bytes (blocks s' (h # ys)) = bytes (p, sz) \<union> free_bytes (blocks s (h # xs))
     \<and> sum_list (map snd (blocks s' (h # ys))) = sz + sum_list (map snd (blocks s (h # xs)))"
proof -
  obtain s' ys where r: "free_raw (Some p) sz s = Some (Inr s')" "wf_heap s' (h # ys)"
    "blocks s' (h # ys) = free_above (h, hsize s h) (blocks s xs) (p, sz)"
    using free_raw_above [OF assms] by blast
  have "free_bytes (blocks s' (h # ys)) = bytes (p, sz) \<union> free_bytes (blocks s (h # xs))"
    unfolding r(3) free_above_bytes by simp
  moreover have "sum_list (map snd (blocks s' (h # ys))) = sz + sum_list (map snd (blocks s (h # xs)))"
    unfolding r(3) free_above_total by simp
  moreover have "blocks s' (h # ys) =
         (if h + hsize s h = p then merge_block (h, hsize s h + sz) (blocks s xs)
          else (h, hsize s h) # merge_block (p, sz) (blocks s xs))"
    unfolding r(3) free_above_def by simp
  ultimately show ?thesis using r(1,2) by blast
qed

theorem free_raw_above_head_witness:
  "\<exists>s' ys. free_raw (Some 116) 8 heap2 = Some (Inr s') \<and> wf_heap s' (100 # ys)"
proof -
  have "bytes (116, 8) \<inter> free_bytes (blocks heap2 [100, 200]) = {}"
    unfolding heap2_wf by (auto simp: bytes_def)
  then show ?thesis
    using free_raw_above_head [OF heap2_wf(1), of 116 8] by (simp add: block_ok_def) blast
qed

text \<open>
  \<open>free_raw\<close> of a block below every free block loses the heap: the freed block becomes
  the whole free list, and all blocks that were free before can never be allocated again.
\<close>

theorem free_raw_below_head_leaks:
  assumes "wf_heap s (h # xs)" "\<forall>x \<in> set (h # xs). p < x" "block_ok (p, sz)" "h + sz < 2 ^ 32"
  shows "\<exists>s'. free_raw (Some p) sz s = Some (Inr s') \<and> wf_heap s' [p] \<and> get_free_size s' = Some sz"
proof -
  obtain s' where "free_raw (Some p) sz s = Some (Inr s')" "wf_heap s' [p]" "blocks s' [p] = [(p, sz)]"
    using free_raw_below [OF assms] by blast
  then show ?thesis using get_free_size_sum [of s' "[p]"] assms(3) by (simp add: block_ok_def)
qed

theorem free_raw_below_head_leaks_witness:
  "get_free_size heap2 = Some 80 \<and> (\<exists>s'. free_raw (Some 40) 24 heap2 = Some (Inr s') \<and> get_free_size s' = Some 24)"
  using free_raw_below_head_leaks [of heap2 100 "[200]" 40 24] heap2_wf get_free_size_sum [of heap2 "[100, 200]"]
  by (auto simp: block_ok_def heap2_def)

text \<open>
  The allocator can hand out the same bytes twice: after the heap has been used up and
  five blocks have been released and allocated in a certain order, 8 bytes at 32 and 16 bytes
  at 24 are both allocated, although nothing of them was released in between.
\<close>

theorem overlapping_allocations:
  "map_option fst (mrun
     [Release 8 40, Alloc 8, Alloc 8, Alloc 8, Alloc 8, Alloc 8,
      Release 8 8, Release 24 8, Release 40 8, Alloc 8, Release 32 8, Alloc 8, Alloc 16]
     empty_heap) = Some [8, 16, 24, 32, 40, 8, 32, 24]
   \<and> bytes (32, 8) \<subseteq> bytes (24, 16)"
  using double_allocation by (simp add: bytes_def)

end
