(* ===== verification/Core_Kernel.thy ===== *)
theory Core_Kernel
  imports Core_List Core_Malloc
begin

text \<open>
  Threads, scheduler and semaphores of the firmware: \<^verbatim>\<open>src/core/thread.c\<close>,
  \<^verbatim>\<open>src/core/scheduler.c\<close>, \<^verbatim>\<open>src/core/semaphore.c\<close> and their headers.

  \<^item> A thread is named by its address (0 is \<open>NULL\<close>); \<open>struct thread\<close> is the record \<open>thread\<close>.
  \<^item> A \<open>list_t\<close> of threads or waitees is the sequence of its entries; \<^verbatim>\<open>Core_List\<close> shows that
    the list operations refine the operations on sequences used here.
  \<^item> \<open>scheduler_lock\<close> and \<open>scheduler_unlock\<close> switch the interrupts off and on; they do not
    nest, as in the code. \<open>yield\<close> requests the PendSV exception, which calls \<open>schedule\<close> as soon
    as interrupts are on.
  \<^item> Stacks are words of \<open>mem\<close>, addressed by their byte address; the heap is that of
    \<^verbatim>\<open>Core_Malloc\<close>. The size of \<open>struct thread\<close> is a parameter of \<open>thread_create\<close>.
  \<^item> \<open>STACK_UTILISATION\<close> and \<open>STACK_CHECK_PROTECTOR\<close> are on, as \<^verbatim>\<open>firmware_config.h\<close> has them.
    Logging is left out.
\<close>

section \<open>State\<close>

datatype thread_state_t =
    THREAD_STATE_UNKOWN | THREAD_STATE_RUNNING | THREAD_STATE_STOPPED | THREAD_STATE_BLOCKED

record thread =
  tid :: u8
  tstate :: thread_state_t
  stack :: nat
  stack_protector :: nat
  stack_size :: nat
  tname :: nat

record kernel =
  threads :: "nat \<Rightarrow> thread"
  thread_list :: "nat list"
  next_tid :: u8
  current_thread :: nat
  idle_thread :: nat
  running_queue :: "nat list"
  in_isr_count :: u8
  irqs_off :: bool
  pend_sv :: bool
  mem :: "nat \<Rightarrow> u32"
  heap :: mheap

abbreviation kStackProtector :: u32 where "kStackProtector \<equiv> 0xBADBEEF"

definition upd_thread :: "nat \<Rightarrow> (thread \<Rightarrow> thread) \<Rightarrow> kernel \<Rightarrow> kernel" where
  "upd_thread t f k = k\<lparr>threads := (threads k)(t := f (threads k t))\<rparr>"

definition put_mem :: "nat \<Rightarrow> u32 \<Rightarrow> kernel \<Rightarrow> kernel" where
  "put_mem a v k = k\<lparr>mem := (mem k)(a := v)\<rparr>"

text \<open>Appending to and deleting from the sequence of a list, as \<^verbatim>\<open>Core_List\<close> justifies them.\<close>

definition seq_append :: "'a \<Rightarrow> 'a list \<Rightarrow> 'a list" where
  "seq_append e xs = remove1 e xs @ [e]"

lemma seq_append_refines:
  assumes "list_repr h l xs" "e \<notin> set xs \<Longrightarrow> unlinked h e"
  shows "\<exists>l' h'. list_append l e h = Some (l', h') \<and> list_repr h' l' (seq_append e xs)"
proof (cases "e \<in> set xs")
  case True
  with assms(1) show ?thesis unfolding seq_append_def by (metis list_append_again)
next
  case False
  with assms show ?thesis unfolding seq_append_def by (metis list_append_new remove1_idem)
qed

section \<open>Scheduler primitives (scheduler.h, scheduler.c)\<close>

definition scheduler_lock :: "kernel \<Rightarrow> kernel" where
  "scheduler_lock k = k\<lparr>irqs_off := True\<rparr>"

definition scheduler_unlock :: "kernel \<Rightarrow> kernel" where
  "scheduler_unlock k = k\<lparr>irqs_off := False\<rparr>"

definition yield :: "kernel \<Rightarrow> kernel" where
  "yield k = k\<lparr>pend_sv := True\<rparr>"

definition scheduler_in_isr :: "kernel \<Rightarrow> bool" where
  "scheduler_in_isr k \<longleftrightarrow> 0 < in_isr_count k"

definition scheduler_enter_isr :: "kernel \<Rightarrow> kernel" where
  "scheduler_enter_isr k = k\<lparr>in_isr_count := in_isr_count k + 1\<rparr>"

definition scheduler_leave_isr :: "kernel \<Rightarrow> kernel" where
  "scheduler_leave_isr k = k\<lparr>in_isr_count := in_isr_count k - 1\<rparr>"

definition scheduler_set_idle_thread :: "nat \<Rightarrow> kernel \<Rightarrow> kernel" where
  "scheduler_set_idle_thread t k = k\<lparr>idle_thread := t\<rparr>"

definition scheduler_thread_changed_state ::
  "nat \<Rightarrow> thread_state_t \<Rightarrow> thread_state_t \<Rightarrow> kernel \<Rightarrow> kernel" where
  "scheduler_thread_changed_state t old_state new_state k =
     (let k = scheduler_lock k;
          k = (if old_state = THREAD_STATE_RUNNING \<and> new_state \<noteq> THREAD_STATE_RUNNING
               then (let k = k\<lparr>running_queue := remove1 t (running_queue k)\<rparr>
                     in if t = current_thread k then yield k else k)
               else if old_state \<noteq> THREAD_STATE_RUNNING \<and> new_state = THREAD_STATE_RUNNING
               then k\<lparr>running_queue := seq_append t (running_queue k)\<rparr>
               else k);
          k = (if current_thread k = idle_thread k then yield k else k)
      in scheduler_unlock k)"

definition thread_set_state :: "nat \<Rightarrow> thread_state_t \<Rightarrow> kernel \<Rightarrow> kernel" where
  "thread_set_state t st k =
     (let old_state = tstate (threads k t);
          k = upd_thread t (tstate_update (\<lambda>_. st)) k
      in scheduler_thread_changed_state t old_state st k)"

definition thread_block :: "kernel \<Rightarrow> kernel" where
  "thread_block k = thread_set_state (current_thread k) THREAD_STATE_BLOCKED k"

definition thread_stop :: "nat \<Rightarrow> kernel \<Rightarrow> kernel" where
  "thread_stop t k = thread_set_state t THREAD_STATE_STOPPED k"

definition thread_wakeup :: "nat \<Rightarrow> kernel \<Rightarrow> kernel" where
  "thread_wakeup t k = thread_set_state t THREAD_STATE_RUNNING k"

definition thread_set_stack :: "nat \<Rightarrow> nat \<Rightarrow> kernel \<Rightarrow> fault + kernel" where
  "thread_set_stack t st k =
     (if \<not> stack_protector (threads k t) < st then Inl Assert_Failed
      else Inr (upd_thread t (stack_update (\<lambda>_. st)) k))"

definition thread_assert_stack_protection :: "nat \<Rightarrow> kernel \<Rightarrow> fault + kernel" where
  "thread_assert_stack_protection t k =
     (let th = threads k t
      in if stack_protector th \<noteq> 0
         then if \<not> stack_protector th < stack th then Inl Assert_Failed
              else if mem k (stack_protector th) \<noteq> kStackProtector then Inl Assert_Failed
              else Inr k
         else Inr k)"

text \<open>The choice of the next thread, the part of \<open>schedule\<close> under the lock.\<close>

definition schedule_next :: "kernel \<Rightarrow> kernel" where
  "schedule_next k =
     (if running_queue k = [] then k\<lparr>current_thread := idle_thread k\<rparr>
      else (let k = k\<lparr>running_queue := rotate1 (running_queue k)\<rparr>
            in k\<lparr>current_thread := hd (running_queue k)\<rparr>))"

definition schedule :: "nat \<Rightarrow> kernel \<Rightarrow> fault + (nat \<times> kernel)" where
  "schedule st k =
     (if st = 0 then Inl Assert_Failed
      else
        (let k = scheduler_enter_isr k
         in case thread_set_stack (current_thread k) st k of
              Inl e \<Rightarrow> Inl e
            | Inr k \<Rightarrow>
                (case thread_assert_stack_protection (current_thread k) k of
                   Inl e \<Rightarrow> Inl e
                 | Inr k \<Rightarrow>
                     (let k = scheduler_unlock (schedule_next (scheduler_lock k))
                      in if current_thread k = 0 then Inl Null_Deref
                         else Inr (stack (threads k (current_thread k)), scheduler_leave_isr k)))))"

section \<open>Threads (thread.c)\<close>

definition thread_early_init :: "kernel \<Rightarrow> kernel" where
  "thread_early_init k = k\<lparr>thread_list := [], next_tid := 1\<rparr>"

text \<open>The filling loop of \<open>thread_stack_utilisation_reset\<close> and the counting loop of its counterpart.\<close>

function fill_words :: "nat \<Rightarrow> nat \<Rightarrow> (nat \<Rightarrow> u32) \<Rightarrow> nat \<Rightarrow> u32" where
  "fill_words p st m = (if p < st then fill_words (p + 4) st (m(p := kStackProtector)) else m)"
  by auto
termination
  by (relation "measure (\<lambda>(p, st, m). st - p)") auto

definition thread_stack_utilisation_reset :: "nat \<Rightarrow> kernel \<Rightarrow> kernel" where
  "thread_stack_utilisation_reset t k =
     (if t = current_thread k then k
      else k\<lparr>mem := fill_words (stack_protector (threads k t) + 4) (stack (threads k t)) (mem k)\<rparr>)"

function unused_words :: "nat \<Rightarrow> nat \<Rightarrow> (nat \<Rightarrow> u32) \<Rightarrow> nat \<Rightarrow> nat" where
  "unused_words p st m sz =
     (if p < st \<and> m p = kStackProtector then unused_words (p + 4) st m (sub32 sz 4) else sz)"
  by auto
termination
  by (relation "measure (\<lambda>(p, st, m, sz). st - p)") auto

definition thread_stack_utilisation :: "nat \<Rightarrow> kernel \<Rightarrow> nat" where
  "thread_stack_utilisation t k =
     (let th = threads k t
      in unused_words (stack_protector th) (stack th) (mem k) (stack_size th))"

definition zero_thread :: thread where
  "zero_thread = \<lparr>tid = 0, tstate = THREAD_STATE_UNKOWN, stack = 0, stack_protector = 0,
     stack_size = 0, tname = 0\<rparr>"

text \<open>
  \<open>scheduler_thread_data_init\<close> initialises the queue entry of the thread: it is then in no
  queue, which for a thread that was in none is no change of the sequences.
\<close>

definition scheduler_thread_data_init :: "nat \<Rightarrow> kernel \<Rightarrow> kernel" where
  "scheduler_thread_data_init t k = k"

definition thread_struct_init ::
  "nat \<Rightarrow> nat \<Rightarrow> nat \<Rightarrow> nat \<Rightarrow> kernel \<Rightarrow> (fault + kernel) option" where
  "thread_struct_init t nm sz st k =
     (let k = upd_thread t (\<lambda>_. zero_thread\<lparr>tstate := THREAD_STATE_STOPPED, tname := nm,
                                  tid := next_tid k, stack_protector := 0\<rparr>)
                (k\<lparr>next_tid := next_tid k + 1\<rparr>);
          r = (if st = 0 \<and> 0 < sz
               then case malloc_raw (add32 sz 4) (heap k) of
                      None \<Rightarrow> None
                    | Some (Inl e) \<Rightarrow> Some (Inl e)
                    | Some (Inr (None, hp)) \<Rightarrow> Some (Inl Null_Deref)
                    | Some (Inr (Some p, hp)) \<Rightarrow>
                        (let k = k\<lparr>heap := hp\<rparr>;
                             k = upd_thread t (\<lambda>th. th\<lparr>stack := add32 p sz, stack_protector := p\<rparr>) k;
                             k = put_mem p kStackProtector k;
                             k = upd_thread t (stack_size_update (\<lambda>_. sz)) k
                         in Some (Inr (thread_stack_utilisation_reset t k)))
               else if 0 < sz then Some (Inr (upd_thread t (stack_update (\<lambda>_. sub32 (add32 st sz) 4)) k))
               else Some (Inr (upd_thread t (stack_update (\<lambda>_. st)) k)))
      in case r of
           Some (Inr k) \<Rightarrow>
             (let k = k\<lparr>thread_list := seq_append t (thread_list k)\<rparr>
              in Some (Inr (scheduler_thread_data_init t k)))
         | _ \<Rightarrow> r)"

definition thread_create ::
  "nat \<Rightarrow> nat \<Rightarrow> nat \<Rightarrow> nat \<Rightarrow> kernel \<Rightarrow> (fault + (nat \<times> kernel)) option" where
  "thread_create sizeof_thread nm sz st k =
     (case malloc_raw sizeof_thread (heap k) of
        None \<Rightarrow> None
      | Some (Inl e) \<Rightarrow> Some (Inl e)
      | Some (Inr (None, hp)) \<Rightarrow> Some (Inr (0, k\<lparr>heap := hp\<rparr>))
      | Some (Inr (Some t, hp)) \<Rightarrow>
          map_option (map_sum id (Pair t)) (thread_struct_init t nm sz st (k\<lparr>heap := hp\<rparr>)))"

definition thread_set_function_v :: "nat \<Rightarrow> u32 \<Rightarrow> u8 \<Rightarrow> u32 \<Rightarrow> kernel \<Rightarrow> kernel" where
  "thread_set_function_v t func argc arg k =
     (let st = stack (threads k t);
          k = put_mem st 0x01000000 k; st = sub32 st 4;
          k = put_mem st func k; st = sub32 st 4;
          k = put_mem st 0xFFFFFFFE k; st = sub32 st 20;
          k = (if 0 < argc then put_mem st arg k else k);
          st = sub32 st 32
      in upd_thread t (stack_update (\<lambda>_. st)) k)"

text \<open>\<open>scheduler_init\<close>: the running context becomes the thread \<open>main\<close>.\<close>

definition scheduler_init :: "nat \<Rightarrow> nat \<Rightarrow> kernel \<Rightarrow> (fault + kernel) option" where
  "scheduler_init sizeof_thread nm k =
     (let k = k\<lparr>running_queue := []\<rparr>
      in case thread_create sizeof_thread nm 0 0 k of
           Some (Inr (t, k)) \<Rightarrow>
             (let k = k\<lparr>current_thread := t\<rparr>
              in if t = 0 then Some (Inl Null_Deref)
                 else Some (Inr (yield (thread_wakeup t k))))
         | Some (Inl e) \<Rightarrow> Some (Inl e)
         | None \<Rightarrow> None)"

section \<open>Semaphores (semaphore.c)\<close>

text \<open>The wait queue holds the \<open>thread\<close> fields of the waitees, which live on their stacks.\<close>

record semaphore =
  svalue :: "8 word"
  squeue :: "nat list"

definition semaphore_init :: "8 word \<Rightarrow> semaphore" where
  "semaphore_init v = \<lparr>svalue = v, squeue = []\<rparr>"

definition semaphore_create ::
  "nat \<Rightarrow> 8 word \<Rightarrow> mheap \<Rightarrow> (fault + ((nat \<times> semaphore) option \<times> mheap)) option" where
  "semaphore_create sizeof_semaphore v hp =
     (case malloc_raw sizeof_semaphore hp of
        None \<Rightarrow> None
      | Some (Inl e) \<Rightarrow> Some (Inl e)
      | Some (Inr (None, hp)) \<Rightarrow> Some (Inr (None, hp))
      | Some (Inr (Some p, hp)) \<Rightarrow> Some (Inr (Some (p, semaphore_init v), hp)))"

definition semaphore_cleanup :: "semaphore \<Rightarrow> fault + unit" where
  "semaphore_cleanup s = (if squeue s = [] then Inr () else Inl Assert_Failed)"

definition semaphore_destory ::
  "nat \<Rightarrow> nat \<Rightarrow> semaphore \<Rightarrow> mheap \<Rightarrow> (fault + mheap) option" where
  "semaphore_destory sizeof_semaphore p s hp =
     (case semaphore_cleanup s of
        Inl e \<Rightarrow> Some (Inl e)
      | Inr _ \<Rightarrow> free_raw (mkptr p) sizeof_semaphore hp)"

definition semaphore_signal :: "semaphore \<Rightarrow> kernel \<Rightarrow> semaphore \<times> kernel" where
  "semaphore_signal s k =
     (let s = s\<lparr>svalue := svalue s + 1\<rparr>
      in case squeue s of
           [] \<Rightarrow> (s, k)
         | t # q \<Rightarrow> (s\<lparr>squeue := q\<rparr>, thread_wakeup t k))"

definition semaphore_wait :: "semaphore \<Rightarrow> kernel \<Rightarrow> semaphore \<times> kernel" where
  "semaphore_wait s k =
     (let t = current_thread k;
          k = scheduler_lock k;
          s = s\<lparr>svalue := svalue s - 1\<rparr>
      in if 0 \<le>s svalue s then (s, scheduler_unlock k)
         else (s\<lparr>squeue := squeue s @ [t]\<rparr>, thread_block k))"

section \<open>The run queue\<close>

text \<open>The run queue holds exactly the threads in state \<open>RUNNING\<close>, each once.\<close>

abbreviation running :: "kernel \<Rightarrow> nat \<Rightarrow> bool" where
  "running k t \<equiv> tstate (threads k t) = THREAD_STATE_RUNNING"

definition queue_ok :: "kernel \<Rightarrow> bool" where
  "queue_ok k \<longleftrightarrow> distinct (running_queue k) \<and> (\<forall>t. t \<in> set (running_queue k) \<longleftrightarrow> running k t)"

lemma upd_thread_simps [simp]:
  "threads (upd_thread t f k) = (threads k)(t := f (threads k t))"
  "running_queue (upd_thread t f k) = running_queue k" "current_thread (upd_thread t f k) = current_thread k"
  "idle_thread (upd_thread t f k) = idle_thread k" "pend_sv (upd_thread t f k) = pend_sv k"
  "irqs_off (upd_thread t f k) = irqs_off k" "in_isr_count (upd_thread t f k) = in_isr_count k"
  "heap (upd_thread t f k) = heap k" "mem (upd_thread t f k) = mem k"
  by (simp_all add: upd_thread_def)

lemma set_seq_append [simp]: "set (seq_append e xs) = insert e (set xs)"
  using set_remove1_subset [of e xs] by (auto simp: seq_append_def dest: in_set_remove1 [THEN iffD2])

lemma distinct_seq_append [simp]: "distinct xs \<Longrightarrow> distinct (seq_append e xs)"
  by (simp add: seq_append_def)

lemmas kernel_defs =
  thread_set_state_def scheduler_thread_changed_state_def scheduler_lock_def scheduler_unlock_def
  yield_def Let_def

lemma thread_set_state_fields [simp]:
  "threads (thread_set_state t st k) = (threads k)(t := (threads k t)\<lparr>tstate := st\<rparr>)"
  "current_thread (thread_set_state t st k) = current_thread k"
  "idle_thread (thread_set_state t st k) = idle_thread k"
  "irqs_off (thread_set_state t st k) = False"
  by (simp_all add: kernel_defs)

lemma thread_set_state_queue:
  "running_queue (thread_set_state t st k) =
     (if running k t \<and> st \<noteq> THREAD_STATE_RUNNING then remove1 t (running_queue k)
      else if \<not> running k t \<and> st = THREAD_STATE_RUNNING then seq_append t (running_queue k)
      else running_queue k)"
  by (simp add: kernel_defs)

lemma thread_set_state_pend:
  "pend_sv (thread_set_state t st k) \<longleftrightarrow>
     pend_sv k \<or> current_thread k = idle_thread k
     \<or> (running k t \<and> st \<noteq> THREAD_STATE_RUNNING \<and> t = current_thread k)"
  by (simp add: kernel_defs)

lemma queue_ok_set_state: "queue_ok k \<Longrightarrow> queue_ok (thread_set_state t st k)"
  by (auto simp: queue_ok_def thread_set_state_queue split: if_splits)

lemma queue_ok_cong:
  "running_queue k' = running_queue k \<Longrightarrow> threads k' = threads k \<Longrightarrow> queue_ok k' = queue_ok k"
  by (simp add: queue_ok_def)

lemma schedule_next_fields [simp]:
  "threads (schedule_next k) = threads k" "idle_thread (schedule_next k) = idle_thread k"
  "pend_sv (schedule_next k) = pend_sv k"
  by (simp_all add: schedule_next_def Let_def)

lemma schedule_next_queue: "running_queue (schedule_next k) = rotate1 (running_queue k)"
  by (simp add: schedule_next_def Let_def)

lemma schedule_next_hd:
  "running_queue k \<noteq> [] \<Longrightarrow> current_thread (schedule_next k) = hd (rotate1 (running_queue k))"
  by (simp add: schedule_next_def Let_def)

lemma queue_ok_schedule_next: "queue_ok k \<Longrightarrow> queue_ok (schedule_next k)"
  by (simp add: queue_ok_def schedule_next_queue)

text \<open>\<open>schedule\<close> selects a running thread if there is one, and the idle thread otherwise.\<close>

lemma schedule_next_current:
  assumes "queue_ok k"
  shows "if \<exists>t. running k t then running k (current_thread (schedule_next k))
     else current_thread (schedule_next k) = idle_thread k"
proof (cases "running_queue k")
  case Nil
  with assms show ?thesis by (auto simp: queue_ok_def schedule_next_def)
next
  case (Cons a as)
  then have "current_thread (schedule_next k) \<in> set (running_queue k)"
    by (cases as) (simp_all add: schedule_next_def Let_def)
  moreover have "running k a" using assms Cons by (auto simp: queue_ok_def)
  ultimately show ?thesis using assms by (auto simp: queue_ok_def)
qed

text \<open>Round robin: while the queue does not change, the threads run in turn.\<close>

lemma schedule_next_iter:
  assumes "running_queue k \<noteq> []"
  shows "running_queue ((schedule_next ^^ n) k) = rotate n (running_queue k)
     \<and> (0 < n \<longrightarrow> current_thread ((schedule_next ^^ n) k) =
          running_queue k ! (n mod length (running_queue k)))"
proof (induction n)
  case (Suc n)
  have ne: "rotate n (running_queue k) \<noteq> []" using assms by simp
  have "current_thread ((schedule_next ^^ Suc n) k) = hd (rotate (Suc n) (running_queue k))"
    using Suc ne by (simp add: schedule_next_hd)
  also have "\<dots> = running_queue k ! (Suc n mod length (running_queue k))"
    using assms by (rule hd_rotate_conv_nth)
  finally show ?case using Suc by (simp add: schedule_next_queue)
qed simp

section \<open>Counting with one semaphore\<close>

text \<open>
  A sequence of operations on one semaphore, each executed in whatever kernel state the
  system is in at that moment. \<open>woken\<close> collects the threads that were woken.
\<close>

datatype semop = Wait | Signal

fun sem_run :: "(semop \<times> kernel) list \<Rightarrow> semaphore \<Rightarrow> semaphore" where
  "sem_run [] s = s"
| "sem_run ((Wait, k) # ops) s = sem_run ops (fst (semaphore_wait s k))"
| "sem_run ((Signal, k) # ops) s = sem_run ops (fst (semaphore_signal s k))"

definition waits :: "(semop \<times> kernel) list \<Rightarrow> nat" where
  "waits ops = length (filter (\<lambda>x. fst x = Wait) ops)"

definition signals :: "(semop \<times> kernel) list \<Rightarrow> nat" where
  "signals ops = length (filter (\<lambda>x. fst x = Signal) ops)"

text \<open>The value and the queue agree: a negative value counts the waiting threads.\<close>

definition sem_ok :: "semaphore \<Rightarrow> bool" where
  "sem_ok s \<longleftrightarrow> int (length (squeue s)) = max 0 (- sint (svalue s))"

lemma sint8_bounds: "- 128 \<le> sint (v :: 8 word)" "sint (v :: 8 word) \<le> 127"
  using sint_ge [of v] sint_lt [of v] by simp_all

lemma sint_add1: "sint v < 127 \<Longrightarrow> sint (v + 1 :: 8 word) = sint v + 1"
  using sint8_bounds [of v] by (simp add: sint_word_ariths signed_take_bit_int_eq_self)

lemma sint_sub1: "- 128 < sint v \<Longrightarrow> sint (v - 1 :: 8 word) = sint v - 1"
  using sint8_bounds [of v] by (simp add: sint_word_ariths signed_take_bit_int_eq_self)

lemma wait_fields:
  "svalue (fst (semaphore_wait s k)) = svalue s - 1"
  "squeue (fst (semaphore_wait s k)) =
     (if 0 \<le> sint (svalue s - 1) then squeue s else squeue s @ [current_thread k])"
  by (simp_all add: semaphore_wait_def Let_def word_sle_eq)

lemma signal_fields:
  "svalue (fst (semaphore_signal s k)) = svalue s + 1"
  "squeue (fst (semaphore_signal s k)) = tl (squeue s)"
  by (simp_all add: semaphore_signal_def Let_def split: list.splits)

lemma sem_ok_wait: "sem_ok s \<Longrightarrow> - 128 < sint (svalue s) \<Longrightarrow> sem_ok (fst (semaphore_wait s k))"
  by (auto simp: sem_ok_def wait_fields sint_sub1)

lemma sem_ok_signal: "sem_ok s \<Longrightarrow> sint (svalue s) < 127 \<Longrightarrow> sem_ok (fst (semaphore_signal s k))"
  by (cases "squeue s") (auto simp: sem_ok_def signal_fields sint_add1)

text \<open>No value of the run leaves the range of \<open>int8_t\<close>.\<close>

fun sem_in_range :: "(semop \<times> kernel) list \<Rightarrow> int \<Rightarrow> bool" where
  "sem_in_range [] v \<longleftrightarrow> True"
| "sem_in_range ((Wait, k) # ops) v \<longleftrightarrow> - 128 < v \<and> sem_in_range ops (v - 1)"
| "sem_in_range ((Signal, k) # ops) v \<longleftrightarrow> v < 127 \<and> sem_in_range ops (v + 1)"

lemma sem_run_counts:
  "sem_ok s \<Longrightarrow> sem_in_range ops (sint (svalue s)) \<Longrightarrow>
     sem_ok (sem_run ops s)
     \<and> sint (svalue (sem_run ops s)) = sint (svalue s) + int (signals ops) - int (waits ops)"
proof (induction ops s rule: sem_run.induct)
  case (2 k ops s)
  then show ?case by (simp add: sem_ok_wait wait_fields sint_sub1 waits_def signals_def)
next
  case (3 k ops s)
  then show ?case by (simp add: sem_ok_signal signal_fields sint_add1 waits_def signals_def)
qed (simp add: waits_def signals_def)

section \<open>The system of threads and semaphores\<close>

text \<open>
  A step of the system: the current thread waits on a semaphore, it or an interrupt signals one,
  it yields, or the PendSV exception that was requested switches to the next thread. While a
  switch is requested no thread action happens, but interrupts may still signal. Every operation
  is one step: \<open>semaphore_wait\<close> holds the lock; that nothing interrupts \<open>semaphore_signal\<close> is an
  assumption, as the code takes no lock there (\<open>signal_interrupted\<close> below shows what an
  interruption does). \<open>wrapped\<close> is a history variable and not part of the program: it notes the
  semaphores whose \<open>int8_t\<close> value has left its range so far.
\<close>

record sys =
  kern :: kernel
  sems :: "nat \<Rightarrow> semaphore"
  wrapped :: "nat \<Rightarrow> bool"

inductive sys_step :: "sys \<Rightarrow> sys \<Rightarrow> bool" where
  sys_wait: "\<not> pend_sv k \<Longrightarrow> current_thread k \<noteq> idle_thread k \<Longrightarrow> semaphore_wait (S i) k = (s', k') \<Longrightarrow>
     sys_step \<lparr>kern = k, sems = S, wrapped = W\<rparr>
       \<lparr>kern = k', sems = S(i := s'), wrapped = W(i := W i \<or> sint (svalue (S i)) = - 128)\<rparr>"
| sys_signal: "semaphore_signal (S i) k = (s', k') \<Longrightarrow>
     sys_step \<lparr>kern = k, sems = S, wrapped = W\<rparr>
       \<lparr>kern = k', sems = S(i := s'), wrapped = W(i := W i \<or> sint (svalue (S i)) = 127)\<rparr>"
| sys_yield: "\<not> pend_sv k \<Longrightarrow>
     sys_step \<lparr>kern = k, sems = S, wrapped = W\<rparr> \<lparr>kern = yield k, sems = S, wrapped = W\<rparr>"
| sys_switch: "pend_sv k \<Longrightarrow>
     sys_step \<lparr>kern = k, sems = S, wrapped = W\<rparr>
       \<lparr>kern = (schedule_next k)\<lparr>pend_sv := False\<rparr>, sems = S, wrapped = W\<rparr>"

inductive_cases sys_stepE: "sys_step x y"

text \<open>
  The invariant: the run queue is right, every waiting thread is blocked and waits in one place,
  a thread that executes is running, and value and wait queue of every semaphore agree unless
  its value has wrapped around.
\<close>

definition sys_ok :: "sys \<Rightarrow> bool" where
  "sys_ok x \<longleftrightarrow>
     queue_ok (kern x) \<and> (\<forall>i. (\<not> wrapped x i \<longrightarrow> sem_ok (sems x i)) \<and> distinct (squeue (sems x i)))
     \<and> (\<forall>i. \<forall>t \<in> set (squeue (sems x i)). tstate (threads (kern x) t) = THREAD_STATE_BLOCKED)
     \<and> (\<forall>i j. i \<noteq> j \<longrightarrow> set (squeue (sems x i)) \<inter> set (squeue (sems x j)) = {})
     \<and> (\<not> pend_sv (kern x) \<longrightarrow> current_thread (kern x) = idle_thread (kern x)
          \<or> running (kern x) (current_thread (kern x)))"

lemma sys_ok_signal:
  assumes "sys_ok \<lparr>kern = k, sems = S, wrapped = W\<rparr>" "semaphore_signal (S i) k = (s', k')"
  shows "sys_ok \<lparr>kern = k', sems = S(i := s'), wrapped = W(i := W i \<or> sint (svalue (S i)) = 127)\<rparr>"
proof -
  have ok: "\<not> W i \<Longrightarrow> sint (svalue (S i)) \<noteq> 127 \<Longrightarrow> sem_ok (fst (semaphore_signal (S i) k))"
    using sem_ok_signal [of "S i" k] sint8_bounds(2) [of "svalue (S i)"] assms(1) by (auto simp: sys_ok_def)
  show ?thesis
  proof (cases "squeue (S i)")
    case Nil
    with assms(2) have "s' = (S i)\<lparr>svalue := svalue (S i) + 1\<rparr>" "k' = k"
      by (auto simp: semaphore_signal_def)
    moreover have "sem_ok s'" if "\<not> W i" "sint (svalue (S i)) \<noteq> 127" using that ok assms(2) by simp
    ultimately show ?thesis using assms(1) Nil by (auto simp: sys_ok_def)
  next
    case (Cons t q)
    with assms(2) have s': "s' = fst (semaphore_signal (S i) k)" "squeue s' = q" "k' = thread_wakeup t k"
      by (auto simp: semaphore_signal_def)
    have t: "t \<notin> set q" "\<And>j. j \<noteq> i \<Longrightarrow> t \<notin> set (squeue (S j))"
      "set q \<subseteq> set (squeue (S i))" "distinct q"
    proof -
      have "distinct (squeue (S i))" using assms(1) by (simp add: sys_ok_def)
      then show "t \<notin> set q" "distinct q" by (simp_all add: Cons)
      show "set q \<subseteq> set (squeue (S i))" by (auto simp: Cons)
      fix j assume "j \<noteq> i"
      then have "set (squeue (S j)) \<inter> set (squeue (S i)) = {}" using assms(1) by (simp add: sys_ok_def)
      then show "t \<notin> set (squeue (S j))" by (auto simp: Cons)
    qed
    have q: "queue_ok k'" using assms(1) s'(3) by (simp add: sys_ok_def thread_wakeup_def queue_ok_set_state)
    have blocked: "tstate (threads k' u) = THREAD_STATE_BLOCKED" if "u \<in> set (squeue ((S(i := s')) j))" for u j
      using that t assms(1) s'(2,3) by (auto simp: sys_ok_def thread_wakeup_def split: if_splits)
    have sub: "set (squeue ((S(i := s')) j)) \<subseteq> set (squeue (S j))" for j using t(3) s'(2) by simp
    have disj: "set (squeue ((S(i := s')) j)) \<inter> set (squeue ((S(i := s')) l)) = {}" if "j \<noteq> l" for j l
    proof -
      have "set (squeue (S j)) \<inter> set (squeue (S l)) = {}" using that assms(1) by (simp add: sys_ok_def)
      then show ?thesis using sub [of j] sub [of l] by blast
    qed
    have cur: "\<not> pend_sv k' \<Longrightarrow> current_thread k' = idle_thread k' \<or> running k' (current_thread k')"
      using assms(1) s'(3) by (auto simp: sys_ok_def thread_wakeup_def thread_set_state_pend)
    show ?thesis
      unfolding sys_ok_def using ok assms(2) q blocked disj cur t(4) s'(2) assms(1) by (simp add: sys_ok_def)
  qed
qed

lemma sys_ok_wait:
  assumes "sys_ok \<lparr>kern = k, sems = S, wrapped = W\<rparr>" "\<not> pend_sv k" "current_thread k \<noteq> idle_thread k"
    and "semaphore_wait (S i) k = (s', k')"
  shows "sys_ok \<lparr>kern = k', sems = S(i := s'), wrapped = W(i := W i \<or> sint (svalue (S i)) = - 128)\<rparr>"
proof -
  let ?c = "current_thread k"
  have s': "s' = fst (semaphore_wait (S i) k)" using assms(4) by simp
  have ok: "\<not> W i \<Longrightarrow> sint (svalue (S i)) \<noteq> - 128 \<Longrightarrow> sem_ok s'"
    using sem_ok_wait [of "S i" k] sint8_bounds(1) [of "svalue (S i)"] assms(1) s' by (auto simp: sys_ok_def)
  show ?thesis
  proof (cases "0 \<le>s svalue (S i) - 1")
    case True
    with assms(4) have "squeue s' = squeue (S i)" "k' = scheduler_unlock (scheduler_lock k)"
      by (auto simp: semaphore_wait_def Let_def)
    moreover from this(2) have "queue_ok k' = queue_ok k" "threads k' = threads k" "pend_sv k' = pend_sv k"
      "current_thread k' = ?c" "idle_thread k' = idle_thread k"
      by (simp_all add: kernel_defs queue_ok_def)
    ultimately show ?thesis using assms(1) ok by (auto simp: sys_ok_def)
  next
    case False
    with assms(4) have q: "squeue s' = squeue (S i) @ [?c]"
      and k': "k' = thread_set_state ?c THREAD_STATE_BLOCKED (scheduler_lock k)"
      by (auto simp: semaphore_wait_def Let_def thread_block_def scheduler_lock_def)
    have run: "running k ?c" using assms(1-3) by (simp add: sys_ok_def)
    then have c: "\<And>j. ?c \<notin> set (squeue (S j))" using assms(1) by (auto simp: sys_ok_def)
    have "queue_ok (scheduler_lock k)" using assms(1) queue_ok_cong [of "scheduler_lock k" k]
      by (simp add: sys_ok_def scheduler_lock_def)
    then have "queue_ok k'" unfolding k' by (rule queue_ok_set_state)
    moreover have "threads k' = (threads k)(?c := (threads k ?c)\<lparr>tstate := THREAD_STATE_BLOCKED\<rparr>)"
      by (simp add: k' scheduler_lock_def)
    moreover have "pend_sv k'" using run by (simp add: k' thread_set_state_pend scheduler_lock_def)
    ultimately show ?thesis
      using assms(1) ok q c unfolding sys_ok_def by (auto split: if_splits)
  qed
qed

lemma sys_ok_step: "sys_step x y \<Longrightarrow> sys_ok x \<Longrightarrow> sys_ok y"
proof (induction rule: sys_step.induct)
  case (sys_wait k S i s' k' W)
  then show ?case by (intro sys_ok_wait)
next
  case (sys_signal S i k s' k' W)
  then show ?case by (intro sys_ok_signal)
next
  case (sys_yield k S W)
  then show ?case using queue_ok_cong [of "yield k" k] by (simp add: sys_ok_def yield_def)
next
  case (sys_switch k S W)
  let ?k = "(schedule_next k)\<lparr>pend_sv := False\<rparr>"
  have "queue_ok ?k" using sys_switch queue_ok_schedule_next [of k] queue_ok_cong [of ?k "schedule_next k"]
    by (simp add: sys_ok_def)
  moreover have "current_thread ?k = idle_thread ?k \<or> running ?k (current_thread ?k)"
    using sys_switch schedule_next_current [of k] by (auto simp: sys_ok_def split: if_splits)
  ultimately show ?case using sys_switch by (simp add: sys_ok_def)
qed

lemma sys_ok_reachable: "sys_step\<^sup>*\<^sup>* x y \<Longrightarrow> sys_ok x \<Longrightarrow> sys_ok y"
  by (induction rule: rtranclp_induct) (auto intro: sys_ok_step)

text \<open>
  Beyond the range of \<open>int8_t\<close> value and queue do disagree: a signal at 127 gives -128, and from
  then on the value says that 128 threads wait although none does.
\<close>

lemma signal_wraps:
  "svalue s = 127 \<Longrightarrow> squeue s = [] \<Longrightarrow>
     sint (svalue (fst (semaphore_signal s k))) = - 128 \<and> squeue (fst (semaphore_signal s k)) = []"
  by (simp add: signal_fields)

text \<open>
  \<open>semaphore_signal\<close> takes no lock. An interrupt that signals the same semaphore between the load
  and the store of \<open>semaphore->value++\<close> wakes its thread, but its increment is overwritten.
\<close>

definition signal_interrupted :: "semaphore \<Rightarrow> kernel \<Rightarrow> semaphore \<times> kernel" where
  "signal_interrupted s k =
     (let v = svalue s; (s, k) = semaphore_signal s k; s = s\<lparr>svalue := v + 1\<rparr>
      in case squeue s of
           [] \<Rightarrow> (s, k)
         | t # q \<Rightarrow> (s\<lparr>squeue := q\<rparr>, thread_wakeup t k))"

lemma signal_interrupted_loses_count:
  "svalue (fst (signal_interrupted s k)) = svalue s + 1"
  "squeue (fst (signal_interrupted s k)) = tl (tl (squeue s))"
  by (cases "squeue s"; cases "tl (squeue s)"; simp add: signal_interrupted_def semaphore_signal_def Let_def)+

lemma signal_interrupted_breaks_invariant:
  "sem_ok \<lparr>svalue = - 2, squeue = [t, u]\<rparr>
     \<and> \<not> sem_ok (fst (signal_interrupted \<lparr>svalue = - 2, squeue = [t, u]\<rparr> k))"
  by (simp add: sem_ok_def signal_interrupted_loses_count)

section \<open>Starvation\<close>

text \<open>
  When the current thread blocks, \<open>list_delete\<close> has already moved the head of the run queue
  to its successor, and \<open>schedule\<close> rotates once more: the successor is skipped. Two threads
  that wake each other and block in turn can keep a third, running thread from ever being
  selected. One round of such a game, with the threads selected on the way:
\<close>

definition ping_pong_round :: "nat \<Rightarrow> nat \<Rightarrow> kernel \<Rightarrow> nat list \<times> kernel" where
  "ping_pong_round a c k =
     (let k = schedule_next (thread_block k); s1 = current_thread k;
          k = thread_wakeup a k;
          k = schedule_next (thread_block k); s2 = current_thread k;
          k = thread_wakeup c k
      in ([s1, s2], k))"

fun ping_pong :: "nat \<Rightarrow> nat \<Rightarrow> nat \<Rightarrow> kernel \<Rightarrow> nat list \<times> kernel" where
  "ping_pong 0 a c k = ([], k)"
| "ping_pong (Suc n) a c k =
     (case ping_pong_round a c k of (s, k) \<Rightarrow>
        (case ping_pong n a c k of (ss, k) \<Rightarrow> (s @ ss, k)))"

lemma ping_pong_round_cycle:
  assumes "running_queue k = [a, b, c]" "current_thread k = a" "distinct [a, b, c]"
    and "running k a" "running k b" "running k c"
  shows "fst (ping_pong_round a c k) = [c, a]"
    and "running_queue (snd (ping_pong_round a c k)) = [a, b, c]"
    and "current_thread (snd (ping_pong_round a c k)) = a"
    and "running (snd (ping_pong_round a c k)) a" "running (snd (ping_pong_round a c k)) b"
    and "running (snd (ping_pong_round a c k)) c"
  using assms
  by (simp_all add: ping_pong_round_def Let_def thread_block_def thread_wakeup_def
      thread_set_state_queue schedule_next_queue schedule_next_hd seq_append_def)

lemma ping_pong_starves:
  assumes "running_queue k = [a, b, c]" "current_thread k = a" "distinct [a, b, c]"
    and "running k a" "running k b" "running k c"
  shows "b \<notin> set (fst (ping_pong n a c k)) \<and> running (snd (ping_pong n a c k)) b"
  using assms
proof (induction n arbitrary: k)
  case (Suc n)
  note cyc = ping_pong_round_cycle [OF Suc.prems]
  from Suc.IH [OF cyc(2,3) Suc.prems(3) cyc(4-6)] cyc(1) Suc.prems(3)
  show ?case by (auto split: prod.splits simp: case_prod_unfold)
qed simp

section \<open>Stacks\<close>

declare fill_words.simps [simp del] unused_words.simps [simp del]

lemma fill_words_at:
  "fill_words p (p + 4 * n) m a =
     (if \<exists>i < n. a = p + 4 * i then kStackProtector else m a)"
proof (induction n arbitrary: p m)
  case (Suc n)
  have "fill_words p (p + 4 * Suc n) m a = fill_words (p + 4) (p + 4 + 4 * n) (m(p := kStackProtector)) a"
    by (subst fill_words.simps) (simp add: add.assoc)
  also have "\<dots> = (if \<exists>i < n. a = p + 4 + 4 * i then kStackProtector else (m(p := kStackProtector)) a)"
    by (rule Suc)
  also have "\<dots> = (if \<exists>i < Suc n. a = p + 4 * i then kStackProtector else m a)"
    by (auto simp: less_Suc_eq_0_disj)
  finally show ?case .
qed (simp add: fill_words.simps)

lemma unused_words_all:
  "\<forall>i < n. m (p + 4 * i) = kStackProtector \<Longrightarrow> 4 * n \<le> sz \<Longrightarrow> sz < 2 ^ 32 \<Longrightarrow>
     unused_words p (p + 4 * n) m sz = sz - 4 * n"
proof (induction n arbitrary: p sz)
  case (Suc n)
  have "m p = kStackProtector" using Suc.prems(1) by (metis add.right_neutral mult_0_right zero_less_Suc)
  then have "unused_words p (p + 4 * Suc n) m sz = unused_words (p + 4) (p + 4 + 4 * n) m (sz - 4)"
    using Suc.prems by (subst unused_words.simps) (simp add: add.assoc)
  also have "\<dots> = sz - 4 - 4 * n"
  proof (rule Suc.IH)
    show "\<forall>i < n. m (p + 4 + 4 * i) = kStackProtector"
    proof (intro allI impI)
      fix i assume "i < n"
      with Suc.prems(1) have "m (p + 4 * Suc i) = kStackProtector" by blast
      then show "m (p + 4 + 4 * i) = kStackProtector" by (simp add: add.assoc)
    qed
  qed (use Suc.prems in simp_all)
  finally show ?case by simp
qed (simp add: unused_words.simps)

lemma fresh_stack:
  assumes "thread_struct_init t nm (4 * n) 0 k = Some (Inr k')" "0 < n" "t \<noteq> current_thread k"
    and "\<And>p hp. malloc_raw (4 * n + 4) (heap k) = Some (Inr (Some p, hp)) \<Longrightarrow> p + 4 * n < 2 ^ 32"
    and "4 * n + 4 < 2 ^ 32"
  shows "thread_stack_utilisation t k' = 0 \<and> thread_assert_stack_protection t k' = Inr k'"
proof -
  have "add32 (4 * n) 4 = 4 * n + 4" using assms(5) by simp
  then obtain p hp where m: "malloc_raw (4 * n + 4) (heap k) = Some (Inr (Some p, hp))"
    using assms(1,2) by (auto simp: thread_struct_init_def Let_def split: option.splits sum.splits)
  note p = assms(4) [OF m]
  define mm where "mm = fill_words (p + 4) (p + 4 * n) ((mem k)(p := kStackProtector))"
  obtain n' where n: "n = Suc n'" using assms(2) by (cases n) auto
  have "mm a = (if \<exists>i < n'. a = p + 4 + 4 * i then kStackProtector else ((mem k)(p := kStackProtector)) a)" for a
    using fill_words_at [of "p + 4" n' "(mem k)(p := kStackProtector)" a] by (simp add: mm_def n add.assoc)
  then have all: "\<forall>i < n. mm (p + 4 * i) = kStackProtector"
    by (auto simp: n less_Suc_eq_0_disj)
  have k': "stack (threads k' t) = p + 4 * n" "stack_protector (threads k' t) = p"
    "stack_size (threads k' t) = 4 * n" "mem k' = mm"
    using assms(1,2,3) m p \<open>add32 (4 * n) 4 = 4 * n + 4\<close>
    by (auto simp: thread_struct_init_def Let_def thread_stack_utilisation_reset_def put_mem_def
        scheduler_thread_data_init_def upd_thread_def mm_def)
  have "unused_words p (p + 4 * n) mm (4 * n) = 0"
    using unused_words_all [OF all, of "4 * n"] assms(5) by simp
  moreover have "mm p = kStackProtector" using all assms(2) by (metis add.right_neutral mult_0_right)
  ultimately show ?thesis
    using assms(2) by (simp add: thread_stack_utilisation_def thread_assert_stack_protection_def k' Let_def)
qed

section \<open>Properties\<close>

text \<open>A system of three running threads at 1, 2 and 3 and the idle thread 9, with a fresh heap.\<close>

definition demo_kernel :: kernel where
  "demo_kernel =
     \<lparr>threads = (\<lambda>t. zero_thread\<lparr>tstate := if t \<in> {1, 2, 3} then THREAD_STATE_RUNNING else THREAD_STATE_STOPPED\<rparr>),
      thread_list = [1, 2, 3, 9], next_tid = 5, current_thread = 1, idle_thread = 9,
      running_queue = [1, 2, 3], in_isr_count = 0, irqs_off = False, pend_sv = False,
      mem = (\<lambda>_. 0),
      heap = \<lparr>free_head = Some 0x1000, hsize = (\<lambda>_. 0x1000), hnext = (\<lambda>_. None)\<rparr>\<rparr>"

lemma demo_queue_ok: "queue_ok demo_kernel"
  by (simp add: queue_ok_def demo_kernel_def zero_thread_def)

text \<open>
  The run queue holds exactly the running threads, each once, and every operation keeps
  it so: blocking, stopping, waking up and scheduling. The thread that \<open>schedule\<close> selects is
  running whenever some thread is, and is the idle thread otherwise; waking up a thread that
  is running already changes neither the queue nor any thread.
\<close>

theorem run_queue_is_running_threads:
  assumes "queue_ok k"
  shows "queue_ok (thread_block k) \<and> queue_ok (thread_stop t k) \<and> queue_ok (thread_wakeup t k)
     \<and> queue_ok (schedule_next k)
     \<and> (if \<exists>u. running k u then running k (current_thread (schedule_next k))
        else current_thread (schedule_next k) = idle_thread k)
     \<and> (running k t \<longrightarrow> running_queue (thread_wakeup t k) = running_queue k
          \<and> threads (thread_wakeup t k) = threads k)"
  using assms schedule_next_current [OF assms] queue_ok_schedule_next [OF assms]
  by (auto simp: thread_block_def thread_stop_def thread_wakeup_def queue_ok_set_state
      thread_set_state_queue)

theorem run_queue_is_running_threads_witness:
  "queue_ok (thread_block demo_kernel) \<and> running_queue (thread_wakeup 2 demo_kernel) = [1, 2, 3]"
  using run_queue_is_running_threads [OF demo_queue_ok, of 2] by (simp add: demo_kernel_def zero_thread_def)

text \<open>
  Round robin: while no thread changes its state, consecutive calls of \<open>schedule\<close> select
  the running threads in queue order, so that each is selected exactly once in as many calls
  as there are running threads.
\<close>

theorem schedule_is_round_robin:
  assumes "running_queue k \<noteq> []"
  shows "map (\<lambda>i. current_thread ((schedule_next ^^ Suc i) k)) [0..<length (running_queue k)] =
     rotate1 (running_queue k)"
proof (rule nth_equalityI)
  fix i assume "i < length (map (\<lambda>i. current_thread ((schedule_next ^^ Suc i) k)) [0..<length (running_queue k)])"
  then have i: "i < length (running_queue k)" by simp
  have "rotate1 (running_queue k) ! i = running_queue k ! (Suc i mod length (running_queue k))"
    using i by (simp add: nth_rotate1)
  then show "map (\<lambda>i. current_thread ((schedule_next ^^ Suc i) k)) [0..<length (running_queue k)] ! i =
      rotate1 (running_queue k) ! i"
    using i schedule_next_iter [OF assms, of "Suc i"] by (simp del: funpow.simps)
qed simp

theorem schedule_is_round_robin_witness:
  "map (\<lambda>i. current_thread ((schedule_next ^^ Suc i) demo_kernel)) [0..<length (running_queue demo_kernel)] = [2, 3, 1]"
  using schedule_is_round_robin [of demo_kernel] by (simp add: demo_kernel_def)

text \<open>
  C5. Threads and semaphores together: in every state the system can reach by waiting,
  signalling (from threads or interrupts), yielding and switching, in any order, any number of
  times and on any number of semaphores, the run queue holds exactly the running threads, every
  waiting thread is blocked, waits on one semaphore only and only once, a thread that executes
  is running, and for every semaphore whose \<open>int8_t\<close> value has not wrapped around a negative
  value counts the threads in its wait queue. A call of \<open>semaphore_signal\<close> is taken as
  uninterrupted, which the code does not enforce.
\<close>

theorem system_invariant:
  assumes "sys_step\<^sup>*\<^sup>* x y" "sys_ok x"
  shows "sys_ok y"
  by (rule sys_ok_reachable [OF assms])

lemma demo_sys_ok: "sys_ok \<lparr>kern = demo_kernel, sems = (\<lambda>_. semaphore_init 0), wrapped = (\<lambda>_. False)\<rparr>"
  using demo_queue_ok
  by (simp add: sys_ok_def semaphore_init_def sem_ok_def) (simp add: demo_kernel_def zero_thread_def)

theorem system_invariant_witness:
  "\<exists>k' s'. semaphore_wait (semaphore_init 0) demo_kernel = (s', k')
     \<and> sys_ok \<lparr>kern = k', sems = (\<lambda>_. semaphore_init 0)(7 := s'), wrapped = (\<lambda>_. False)\<rparr>"
proof -
  obtain s' k' where w: "semaphore_wait (semaphore_init 0) demo_kernel = (s', k')" by fastforce
  have "sys_step \<lparr>kern = demo_kernel, sems = (\<lambda>_. semaphore_init 0), wrapped = (\<lambda>_. False)\<rparr>
      \<lparr>kern = k', sems = (\<lambda>_. semaphore_init 0)(7 := s'),
        wrapped = (\<lambda>_. False)(7 := False \<or> sint (svalue (semaphore_init 0)) = - 128)\<rparr>"
    using w by (intro sys_wait) (simp add: demo_kernel_def, simp add: demo_kernel_def, assumption)
  moreover have "(\<lambda>_. False)(7 := False \<or> sint (svalue (semaphore_init 0)) = - 128) = (\<lambda>_ :: nat. False)"
    by (simp add: semaphore_init_def fun_upd_idem_iff)
  ultimately show ?thesis using system_invariant [OF r_into_rtranclp demo_sys_ok] w by auto
qed

text \<open>
  Semaphores count: after any sequence of waits and signals that stays in the range of
  \<open>int8_t\<close>, executed in whatever kernel states, the number of waits that got through (all
  waits less the threads still queued) is the smaller of the number of waits and the initial
  value plus the number of signals: no token is lost and none is invented.
\<close>

theorem semaphore_counts:
  assumes "0 \<le> sint v" "sem_in_range ops (sint v)"
  shows "int (waits ops) - int (length (squeue (sem_run ops (semaphore_init v)))) =
     min (int (waits ops)) (sint v + int (signals ops))"
proof -
  have "sem_ok (semaphore_init v)" using assms(1) by (simp add: sem_ok_def semaphore_init_def)
  then have "sem_ok (sem_run ops (semaphore_init v))"
    "sint (svalue (sem_run ops (semaphore_init v))) = sint v + int (signals ops) - int (waits ops)"
    using sem_run_counts [of "semaphore_init v" ops] assms(2) by (simp_all add: semaphore_init_def)
  then show ?thesis by (auto simp: sem_ok_def)
qed

theorem semaphore_counts_witness:
  "length (squeue (sem_run [(Wait, demo_kernel), (Wait, demo_kernel), (Signal, demo_kernel), (Wait, demo_kernel)]
     (semaphore_init 1))) = 1"
  using semaphore_counts [of 1 "[(Wait, demo_kernel), (Wait, demo_kernel), (Signal, demo_kernel), (Wait, demo_kernel)]"]
  by (simp add: waits_def signals_def)

text \<open>
  The scheduler can starve a running thread: with the run queue \<open>a, b, c\<close>, when \<open>a\<close> and \<open>c\<close>
  block and wake each other in turn, \<open>b\<close> stays in state running and is never selected, for
  however many rounds.
\<close>

theorem schedule_starves:
  assumes "running_queue k = [a, b, c]" "current_thread k = a" "distinct [a, b, c]"
    and "running k a" "running k b" "running k c"
  shows "b \<notin> set (fst (ping_pong n a c k)) \<and> running (snd (ping_pong n a c k)) b"
  by (rule ping_pong_starves [OF assms])

theorem schedule_starves_witness:
  "2 \<notin> set (fst (ping_pong 1000 1 3 demo_kernel)) \<and> running (snd (ping_pong 1000 1 3 demo_kernel)) 2"
  by (rule schedule_starves) (simp_all add: demo_kernel_def zero_thread_def)

text \<open>
  \<open>thread_set_function\<close> prepares the frame that the exception return expects: 16 words,
  with the argument in the slot of R0, the entry point in the slot of PC and the Thumb bit in
  the slot of xPSR, below them room for R4 to R11, and no other word of memory changes.
\<close>

theorem initial_frame:
  assumes "st = stack (threads k t)" "60 \<le> st" "st < 2 ^ 32"
    and "k' = thread_set_function_v t func argc arg k"
  shows "stack (threads k' t) = st - 60
     \<and> mem k' (st - 60 + 60) = 0x01000000 \<and> mem k' (st - 60 + 56) = func
     \<and> mem k' (st - 60 + 52) = 0xFFFFFFFE \<and> (0 < argc \<longrightarrow> mem k' (st - 60 + 32) = arg)
     \<and> (\<forall>a. a \<notin> {st, st - 4, st - 8, st - 28} \<longrightarrow> mem k' a = mem k a)"
proof -
  obtain b where b: "st = b + 60" using assms(2) by (metis add.commute le_Suc_ex)
  have "sub32 (b + 60) 4 = b + 56" "sub32 (b + 56) 4 = b + 52" "sub32 (b + 52) 20 = b + 32"
    "sub32 (b + 32) 32 = b" using assms(3) by (simp_all add: b)
  then show ?thesis
    unfolding assms(4) thread_set_function_v_def Let_def assms(1) [symmetric] b
    by (simp add: put_mem_def)
qed

theorem initial_frame_witness:
  "mem (thread_set_function_v 1 0x8001 1 42 (upd_thread 1 (stack_update (\<lambda>_. 0x2000)) demo_kernel)) 0x1FE4 = 42"
  using initial_frame [of "0x2000" "upd_thread 1 (stack_update (\<lambda>_. 0x2000)) demo_kernel" 1 _ "0x8001" 1 42]
  by simp

text \<open>
  A thread created with its own stack starts clean: when the heap has room, the thread is
  created in state stopped and entered in the thread list, the stack pointer is the end of the
  allocated stack, the stack protector at its start is intact and the measured stack
  utilisation is 0.
\<close>

theorem fresh_thread_stack:
  assumes "malloc_raw (4 * n + 4) (heap k) = Some (Inr (Some p, hp))" "p + 4 * n < 2 ^ 32"
    and "4 * n + 4 < 2 ^ 32" "0 < n" "t \<noteq> current_thread k"
  shows "\<exists>k'. thread_struct_init t nm (4 * n) 0 k = Some (Inr k')
     \<and> thread_stack_utilisation t k' = 0 \<and> thread_assert_stack_protection t k' = Inr k'
     \<and> tstate (threads k' t) = THREAD_STATE_STOPPED \<and> stack (threads k' t) = p + 4 * n
     \<and> t \<in> set (thread_list k')"
proof -
  have "add32 (4 * n) 4 = 4 * n + 4" using assms(3) by simp
  then obtain k' where k': "thread_struct_init t nm (4 * n) 0 k = Some (Inr k')"
    "tstate (threads k' t) = THREAD_STATE_STOPPED" "stack (threads k' t) = p + 4 * n"
    "t \<in> set (thread_list k')"
    using assms
    by (simp add: thread_struct_init_def Let_def thread_stack_utilisation_reset_def put_mem_def
        scheduler_thread_data_init_def upd_thread_def zero_thread_def)
  then show ?thesis using fresh_stack [OF k'(1) assms(4,5)] assms(1-3) by auto
qed

theorem fresh_thread_stack_witness:
  "\<exists>k'. thread_struct_init 4 0 256 0 demo_kernel = Some (Inr k') \<and> thread_stack_utilisation 4 k' = 0"
proof -
  obtain hp where "malloc_raw 260 (heap demo_kernel) = Some (Inr (Some 0x1000, hp))"
    by (simp add: demo_kernel_def malloc_eval)
  then show ?thesis
    using fresh_thread_stack [of 64 demo_kernel "0x1000" hp 4] by (simp add: demo_kernel_def) blast
qed

end
