(* ===== verification/Core_Timer.thy ===== *)
theory Core_Timer
  imports Core_Kernel
begin

text \<open>
  Managed timers, \<^verbatim>\<open>src/core/timer.c\<close>, and \<open>delay\<close> of \<^verbatim>\<open>src/core/scheduler.c\<close>. The pending
  timeouts of a timer form a delta list: the \<open>remaining\<close> field of an entry counts from the
  entry before it. The list is a sequence of timeouts (\<^verbatim>\<open>Core_List\<close>), a timeout is named by
  its address. \<open>millitime_t\<close> is a 32 bit signed integer: arithmetic on it wraps through \<open>ms\<close>.
  The hardware behind \<open>timer->ops\<close> is the last value that was set (\<open>programmed\<close>, \<open>None\<close> when
  disabled); the callbacks of the timeouts are a parameter of the handler.
  \<open>timer_managed_update_first\<close> has an empty body in the code and no model.

  Two fields are not part of the program: \<open>now\<close> is the time, and \<open>armed_at\<close> the time at which the
  hardware was set last. With them \<open>expiries\<close> says when each timeout will really fire: the first one
  its remaining time after the hardware was set, every other one its remaining time after the one
  before it. Time passes between calls; the time a call takes is not counted.

  Shown: what insertion does to the time at which each timeout fires, depending on how long ago
  the hardware was set (it is exact only when that was just now), and which timeouts the handler
  fires, how it arms them again, and when it dereferences \<open>NULL\<close>.
\<close>

section \<open>State\<close>

definition ms :: "int \<Rightarrow> int" where
  "ms x = signed_take_bit 31 x"

record tmo =
  tmo_addr :: nat
  remaining :: int
  reset_time :: int
  tmo_handler :: nat
  tmo_context :: nat

datatype timer_handler = No_Handler | Managed_Handler | Other_Handler nat

record tsys =
  tkern :: kernel
  managed_timeouts :: "tmo list"
  timer_hd :: timer_handler
  programmed :: "int option"
  now :: int
  armed_at :: int

section \<open>Operations\<close>

definition timer_set :: "int \<Rightarrow> tsys \<Rightarrow> fault + tsys" where
  "timer_set time x = (if \<not> time > 0 then Inl Assert_Failed else Inr (x\<lparr>programmed := Some time, armed_at := now x\<rparr>))"

definition timer_disable :: "tsys \<Rightarrow> tsys" where
  "timer_disable x = x\<lparr>programmed := None\<rparr>"

definition timer_set_handler :: "timer_handler \<Rightarrow> tsys \<Rightarrow> fault + tsys" where
  "timer_set_handler h x =
     (if timer_hd x = Managed_Handler then Inl Assert_Failed else Inr (x\<lparr>timer_hd := h\<rparr>))"

definition timer_managed_recalculate :: "tsys \<Rightarrow> fault + tsys" where
  "timer_managed_recalculate x =
     (case managed_timeouts x of
        t # _ \<Rightarrow> timer_set (remaining t) x
      | [] \<Rightarrow> Inr (timer_disable x))"

text \<open>The loop of \<open>timer_managed_insert\<close>: the new list.\<close>

fun insert_timeout :: "tmo \<Rightarrow> tmo list \<Rightarrow> tmo list" where
  "insert_timeout x [] = [x]"
| "insert_timeout x (t # ts) =
     (if remaining x \<le> remaining t
      then x # t\<lparr>remaining := ms (remaining t - remaining x)\<rparr> # ts
      else t # insert_timeout (x\<lparr>remaining := ms (remaining x - remaining t)\<rparr>) ts)"

definition timer_managed_insert :: "tmo \<Rightarrow> tsys \<Rightarrow> fault + tsys" where
  "timer_managed_insert t x =
     (case managed_timeouts x of
        [] \<Rightarrow> timer_managed_recalculate (x\<lparr>managed_timeouts := [t]\<rparr>)
      | f # _ \<Rightarrow>
          (let x' = x\<lparr>managed_timeouts := insert_timeout t (managed_timeouts x)\<rparr>
           in if remaining t \<le> remaining f then timer_managed_recalculate x' else Inr x'))"

definition on_kernel :: "(kernel \<Rightarrow> kernel) \<Rightarrow> tsys \<Rightarrow> tsys" where
  "on_kernel f x = x\<lparr>tkern := f (tkern x)\<rparr>"

definition timer_managed_schedule ::
  "nat \<Rightarrow> int \<Rightarrow> bool \<Rightarrow> nat \<Rightarrow> nat \<Rightarrow> tsys \<Rightarrow> (fault + tsys) option" where
  "timer_managed_schedule sizeof_timeout timeout repeat handler context x =
     (if \<not> timeout > 0 \<or> handler = 0 then Some (Inl Assert_Failed)
      else
        (let x = on_kernel scheduler_lock x;
             x = (if timer_hd x \<noteq> Managed_Handler
                  then x\<lparr>managed_timeouts := [], timer_hd := Managed_Handler\<rparr> else x)
         in case malloc_raw sizeof_timeout (heap (tkern x)) of
              None \<Rightarrow> None
            | Some (Inl e) \<Rightarrow> Some (Inl e)
            | Some (Inr (None, hp)) \<Rightarrow> Some (Inl Null_Deref)
            | Some (Inr (Some p, hp)) \<Rightarrow>
                (let x = on_kernel (heap_update (\<lambda>_. hp)) x;
                     t = \<lparr>tmo_addr = p, remaining = timeout,
                          reset_time = (if repeat then timeout else 0),
                          tmo_handler = handler, tmo_context = context\<rparr>
                 in Some (map_sum id (on_kernel scheduler_unlock) (timer_managed_insert t x)))))"

text \<open>
  The body of the loop of \<open>timer_managed_cancel\<close>, at the first timeout with this handler and
  context: its remaining time goes to the next timeout.
\<close>

definition carry_remaining :: "int \<Rightarrow> tmo list \<Rightarrow> tmo list" where
  "carry_remaining r ts =
     (case ts of [] \<Rightarrow> [] | n # ns \<Rightarrow> n\<lparr>remaining := ms (remaining n + r)\<rparr> # ns)"

fun cancel_timeout :: "nat \<Rightarrow> nat \<Rightarrow> tmo list \<Rightarrow> (tmo \<times> bool \<times> tmo list) option" where
  "cancel_timeout h c [] = None"
| "cancel_timeout h c (t # ts) =
     (if tmo_handler t = h \<and> tmo_context t = c
      then Some (t, True, carry_remaining (remaining t) ts)
      else map_option (\<lambda>(d, _, r). (d, False, t # r)) (cancel_timeout h c ts))"

definition timer_managed_cancel :: "nat \<Rightarrow> nat \<Rightarrow> nat \<Rightarrow> tsys \<Rightarrow> (fault + tsys) option" where
  "timer_managed_cancel sizeof_timeout handler context x =
     (if handler = 0 then Some (Inl Assert_Failed)
      else
        (let x = on_kernel scheduler_lock x
         in case cancel_timeout handler context (managed_timeouts x) of
              None \<Rightarrow> Some (Inr (on_kernel scheduler_unlock x))
            | Some (t, first, rest) \<Rightarrow>
                (let x = x\<lparr>managed_timeouts := rest\<rparr>
                 in case free_raw (mkptr (tmo_addr t)) sizeof_timeout (heap (tkern x)) of
                      None \<Rightarrow> None
                    | Some (Inl e) \<Rightarrow> Some (Inl e)
                    | Some (Inr hp) \<Rightarrow>
                        (let x = on_kernel (heap_update (\<lambda>_. hp)) x
                         in Some (map_sum id (on_kernel scheduler_unlock)
                              (if first then timer_managed_recalculate x else Inr x))))))"

text \<open>
  The loop of \<open>timer_managedhandler\<close>. \<open>call\<close> stands for the callbacks; the second component of
  the result lists the timeouts that fired. When the list becomes empty, the loop condition
  reads the field of a \<open>NULL\<close> pointer.
\<close>

partial_function (option) managed_loop ::
  "nat \<Rightarrow> (nat \<Rightarrow> nat \<Rightarrow> tsys \<Rightarrow> tsys) \<Rightarrow> tsys \<Rightarrow> (fault + (tsys \<times> tmo list)) option" where
  "managed_loop sizeof_timeout call x =
     (case managed_timeouts x of
        [] \<Rightarrow> Some (Inl Null_Deref)
      | t # ts \<Rightarrow>
          if \<not> remaining t \<le> 0 then Some (Inr (x, []))
          else
            (let x = on_kernel scheduler_lock (x\<lparr>managed_timeouts := ts\<rparr>);
                 keep = reset_time t > 0
             in case (if keep then timer_managed_insert (t\<lparr>remaining := reset_time t\<rparr>) x else Inr x) of
                  Inl e \<Rightarrow> Some (Inl e)
                | Inr x \<Rightarrow>
                    (let x = call (tmo_handler t) (tmo_context t) (on_kernel scheduler_unlock x)
                     in case (if keep then Some (Inr (heap (tkern x)))
                              else free_raw (mkptr (tmo_addr t)) sizeof_timeout (heap (tkern x))) of
                          None \<Rightarrow> None
                        | Some (Inl e) \<Rightarrow> Some (Inl e)
                        | Some (Inr hp) \<Rightarrow>
                            Option.bind
                              (managed_loop sizeof_timeout call (on_kernel (heap_update (\<lambda>_. hp)) x))
                              (\<lambda>r. Some (map_sum id (\<lambda>(x, fired). (x, t # fired)) r)))))"

definition timer_managedhandler ::
  "nat \<Rightarrow> (nat \<Rightarrow> nat \<Rightarrow> tsys \<Rightarrow> tsys) \<Rightarrow> int \<Rightarrow> tsys \<Rightarrow> (fault + (tsys \<times> tmo list)) option" where
  "timer_managedhandler sizeof_timeout call elapsed x =
     (let x = on_kernel scheduler_lock x
      in case managed_timeouts x of
           [] \<Rightarrow> Some (Inr (on_kernel scheduler_unlock x, []))
         | t # ts \<Rightarrow>
             (let x = on_kernel scheduler_unlock
                        (x\<lparr>managed_timeouts := t\<lparr>remaining := ms (remaining t - elapsed)\<rparr> # ts\<rparr>)
              in case managed_loop sizeof_timeout call x of
                   Some (Inr (x, fired)) \<Rightarrow>
                     Some (map_sum id (\<lambda>x. (x, fired)) (timer_managed_recalculate x))
                 | r \<Rightarrow> r))"

text \<open>\<open>delay_handler\<close> and \<open>delay\<close> of the scheduler; \<open>dh\<close> is the address of \<open>delay_handler\<close>.\<close>

definition delay_handler :: "nat \<Rightarrow> tsys \<Rightarrow> tsys" where
  "delay_handler context x =
     (let x = on_kernel (thread_wakeup context) x
      in if current_thread (tkern x) = idle_thread (tkern x) then on_kernel yield x else x)"

text \<open>The part of \<open>delay\<close> before the thread blocks, and the whole of it.\<close>

definition delay_arm :: "nat \<Rightarrow> nat \<Rightarrow> int \<Rightarrow> tsys \<Rightarrow> (fault + tsys) option" where
  "delay_arm sizeof_timeout dh time x =
     (let x = on_kernel scheduler_lock x
      in timer_managed_schedule sizeof_timeout time False dh (current_thread (tkern x)) x)"

definition delay :: "nat \<Rightarrow> nat \<Rightarrow> int \<Rightarrow> tsys \<Rightarrow> (fault + tsys) option" where
  "delay sizeof_timeout dh time x =
     map_option (map_sum id (\<lambda>x. on_kernel scheduler_unlock (on_kernel thread_block x)))
       (delay_arm sizeof_timeout dh time x)"

section \<open>Deadlines\<close>

text \<open>The deadlines of a delta list that counts from \<open>b\<close>, and the condition that it is one.\<close>

fun deadlines :: "int \<Rightarrow> tmo list \<Rightarrow> (nat \<times> int) list" where
  "deadlines b [] = []"
| "deadlines b (t # ts) = (tmo_addr t, b + remaining t) # deadlines (b + remaining t) ts"

text \<open>When each pending timeout fires, in absolute time.\<close>

definition expiries :: "tsys \<Rightarrow> (nat \<times> int) list" where
  "expiries x = deadlines (armed_at x) (managed_timeouts x)"

definition delta_ok :: "tmo list \<Rightarrow> bool" where
  "delta_ok ts \<longleftrightarrow> (\<forall>t \<in> set ts. 0 \<le> remaining t \<and> remaining t < 2 ^ 31)"

lemma ms_id [simp]: "- (2 ^ 31) \<le> x \<Longrightarrow> x < 2 ^ 31 \<Longrightarrow> ms x = x"
  by (simp add: ms_def signed_take_bit_int_eq_self)

lemma delta_ok_simps [simp]:
  "delta_ok []" "delta_ok (t # ts) \<longleftrightarrow> 0 \<le> remaining t \<and> remaining t < 2 ^ 31 \<and> delta_ok ts"
  by (auto simp: delta_ok_def)

lemma insert_timeout_ok:
  "delta_ok ts \<Longrightarrow> 0 \<le> remaining x \<Longrightarrow> remaining x < 2 ^ 31 \<Longrightarrow> delta_ok (insert_timeout x ts)"
  by (induction x ts rule: insert_timeout.induct) auto

text \<open>Insertion puts the new deadline at its place and changes no other.\<close>

fun put_deadline :: "nat \<times> int \<Rightarrow> (nat \<times> int) list \<Rightarrow> (nat \<times> int) list" where
  "put_deadline d [] = [d]"
| "put_deadline d (e # es) = (if snd d \<le> snd e then d # e # es else e # put_deadline d es)"

lemma deadlines_insert:
  "delta_ok ts \<Longrightarrow> 0 \<le> remaining x \<Longrightarrow> remaining x < 2 ^ 31 \<Longrightarrow>
     deadlines b (insert_timeout x ts) = put_deadline (tmo_addr x, b + remaining x) (deadlines b ts)"
proof (induction x ts arbitrary: b rule: insert_timeout.induct)
  case (2 x t ts)
  show ?case
  proof (cases "remaining x \<le> remaining t")
    case True
    with 2 show ?thesis by simp
  next
    case False
    then have "ms (remaining x - remaining t) = remaining x - remaining t" using 2(2-4) by simp
    with 2(1) [OF False, of "b + remaining t"] 2(2-4) False show ?thesis by simp
  qed
qed simp

lemma deadlines_shift: "deadlines (b + c) ts = map (\<lambda>(a, d). (a, d + c)) (deadlines b ts)"
proof (induction ts arbitrary: b)
  case (Cons t ts)
  then show ?case using Cons [of "b + remaining t"] by (simp add: ac_simps)
qed simp

lemma deadlines_lower: "delta_ok ts \<Longrightarrow> \<forall>(a, d) \<in> set (deadlines b ts). b \<le> d"
  by (induction ts arbitrary: b) fastforce+

lemma deadlines_sorted: "delta_ok ts \<Longrightarrow> sorted (map snd (deadlines b ts))"
  using deadlines_lower by (induction ts arbitrary: b) fastforce+

text \<open>Cancelling removes one deadline and changes no other.\<close>

lemma deadlines_carry:
  assumes "delta_ok ts" "0 \<le> r" "\<forall>(a, d) \<in> set (deadlines r ts). d < 2 ^ 31"
  shows "deadlines b (carry_remaining r ts) = deadlines (b + r) ts" "delta_ok (carry_remaining r ts)"
proof -
  have "deadlines b (carry_remaining r ts) = deadlines (b + r) ts \<and> delta_ok (carry_remaining r ts)"
  proof (cases ts)
    case (Cons n ns)
    then have "ms (remaining n + r) = remaining n + r" using assms by simp
    then show ?thesis using Cons assms by (simp add: carry_remaining_def ac_simps)
  qed (simp add: carry_remaining_def)
  then show "deadlines b (carry_remaining r ts) = deadlines (b + r) ts" "delta_ok (carry_remaining r ts)"
    by blast+
qed

lemma deadlines_cancel:
  "cancel_timeout h c ts = Some (t, first, ts') \<Longrightarrow> delta_ok ts \<Longrightarrow> 0 \<le> b \<Longrightarrow>
     \<forall>(a, d) \<in> set (deadlines b ts). d < 2 ^ 31 \<Longrightarrow>
     delta_ok ts' \<and> tmo_handler t = h \<and> tmo_context t = c
     \<and> (\<exists>as d bs. deadlines b ts = as @ (tmo_addr t, d) # bs \<and> deadlines b ts' = as @ bs)"
proof (induction h c ts arbitrary: b t first ts' rule: cancel_timeout.induct)
  case (2 h c x xs)
  show ?case
  proof (cases "tmo_handler x = h \<and> tmo_context x = c")
    case True
    then have t: "t = x" "ts' = carry_remaining (remaining x) xs" using 2(2) by auto
    have "\<forall>(a, d) \<in> set (deadlines (remaining x) xs). d < 2 ^ 31"
      using 2(4,5) deadlines_shift [of "remaining x" b xs] by (auto simp: add.commute)
    with 2(3) have "deadlines b ts' = deadlines (b + remaining x) xs" "delta_ok ts'"
      using deadlines_carry(1) [of xs "remaining x" b] deadlines_carry(2) [of xs "remaining x"]
      by (simp_all add: t)
    then show ?thesis using True t by (intro conjI exI [of _ "[]"]) auto
  next
    case False
    then obtain f r where r: "cancel_timeout h c xs = Some (t, f, r)" "ts' = x # r"
      using 2(2) by auto
    with 2(1) [OF False r(1), of "b + remaining x"] 2(3-5) obtain as d bs where
      "delta_ok r" "tmo_handler t = h" "tmo_context t = c"
      "deadlines (b + remaining x) xs = as @ (tmo_addr t, d) # bs" "deadlines (b + remaining x) r = as @ bs"
      by auto
    then show ?thesis using r(2) 2(3)
      by (intro conjI exI [of _ "(tmo_addr x, b + remaining x) # as"] exI [of _ d] exI [of _ bs]) auto
  qed
qed simp

section \<open>The handler\<close>

lemma map_sum_eq_Inr: "map_sum id f r = Inr y \<longleftrightarrow> (\<exists>z. r = Inr z \<and> y = f z)"
  by (cases r) auto

text \<open>A callback that leaves the timer, the heap and the time alone, as \<open>delay_handler\<close> does.\<close>

definition quiet :: "(nat \<Rightarrow> nat \<Rightarrow> tsys \<Rightarrow> tsys) \<Rightarrow> bool" where
  "quiet call \<longleftrightarrow> (\<forall>h c x. managed_timeouts (call h c x) = managed_timeouts x
     \<and> heap (tkern (call h c x)) = heap (tkern x) \<and> now (call h c x) = now x)"

abbreviation rearm :: "tmo \<Rightarrow> tmo" where
  "rearm t \<equiv> t\<lparr>remaining := reset_time t\<rparr>"

lemma on_kernel_fields [simp]:
  "managed_timeouts (on_kernel f x) = managed_timeouts x" "tkern (on_kernel f x) = f (tkern x)"
  "timer_hd (on_kernel f x) = timer_hd x" "programmed (on_kernel f x) = programmed x"
  "now (on_kernel f x) = now x" "armed_at (on_kernel f x) = armed_at x"
  by (simp_all add: on_kernel_def)

lemma heap_lock [simp]: "heap (scheduler_lock k) = heap k" "heap (scheduler_unlock k) = heap k"
  by (simp_all add: scheduler_lock_def scheduler_unlock_def)

lemma delay_handler_quiet: "quiet (\<lambda>h c. delay_handler c)"
  by (simp add: quiet_def delay_handler_def Let_def kernel_defs thread_wakeup_def)

lemma insert_after_zeros:
  "\<forall>z \<in> set zs. remaining z = 0 \<Longrightarrow> 0 < remaining x \<Longrightarrow> remaining x < 2 ^ 31 \<Longrightarrow>
     insert_timeout x (zs @ ts) = zs @ insert_timeout x ts"
  by (induction zs) simp_all

lemma insert_timeout_hd:
  "0 < remaining x \<Longrightarrow> ts = [] \<or> 0 < remaining (hd ts) \<Longrightarrow>
     insert_timeout x ts \<noteq> [] \<and> 0 < remaining (hd (insert_timeout x ts))"
  by (cases ts) auto

text \<open>Insertion succeeds; it sets the hardware if the new timeout becomes the first one.\<close>

abbreviation becomes_first :: "tmo \<Rightarrow> tmo list \<Rightarrow> bool" where
  "becomes_first t ts \<equiv> ts = [] \<or> remaining t \<le> remaining (hd ts)"

lemma timer_managed_insert_eq:
  assumes "0 < remaining t"
  shows "timer_managed_insert t x =
     Inr (if becomes_first t (managed_timeouts x)
          then x\<lparr>managed_timeouts := insert_timeout t (managed_timeouts x), programmed := Some (remaining t), armed_at := now x\<rparr>
          else x\<lparr>managed_timeouts := insert_timeout t (managed_timeouts x)\<rparr>)"
  using assms
  by (cases "managed_timeouts x")
    (simp_all add: timer_managed_insert_def timer_managed_recalculate_def timer_set_def Let_def)

text \<open>What the loop does to the list for one timeout that fired, and to the heap for all of them.\<close>

definition rearm_into :: "tmo \<Rightarrow> tmo list \<Rightarrow> tmo list" where
  "rearm_into z ts = (if reset_time z > 0 then insert_timeout (rearm z) ts else ts)"

fun release_all :: "nat \<Rightarrow> tmo list \<Rightarrow> mheap \<Rightarrow> (fault + mheap) option" where
  "release_all sz [] hp = Some (Inr hp)"
| "release_all sz (z # zs) hp =
     (if reset_time z > 0 then release_all sz zs hp
      else case free_raw (mkptr (tmo_addr z)) sz hp of
             Some (Inr hp) \<Rightarrow> release_all sz zs hp
           | r \<Rightarrow> r)"

lemma release_all_remaining: "release_all sz (z\<lparr>remaining := r\<rparr> # zs) hp = release_all sz (z # zs) hp"
  by (cases "tmo_addr z = 0") simp_all

lemma rearm_into_hd:
  "ts = [] \<or> 0 < remaining (hd ts) \<Longrightarrow> rearm_into z ts = [] \<or> 0 < remaining (hd (rearm_into z ts))"
  using insert_timeout_hd [of "rearm z" ts] by (simp add: rearm_into_def)

lemma rearm_into_remaining [simp]: "rearm_into (z\<lparr>remaining := r\<rparr>) ts = rearm_into z ts"
  by (simp add: rearm_into_def)

lemma fold_rearm_Nil: "fold rearm_into zs ts = [] \<longleftrightarrow> ts = [] \<and> (\<forall>z \<in> set zs. \<not> 0 < reset_time z)"
proof (induction zs arbitrary: ts)
  case (Cons z zs)
  have "insert_timeout u ts \<noteq> []" for u by (cases ts) simp_all
  then show ?case using Cons by (auto simp: rearm_into_def)
qed simp

abbreviation reset_ok :: "tmo \<Rightarrow> bool" where
  "reset_ok u \<equiv> 0 \<le> reset_time u \<and> reset_time u < 2 ^ 31"

text \<open>One round of the loop: the timeout is taken off, armed again or released, and fired.\<close>

lemma managed_loop_fire:
  assumes "quiet call" "managed_timeouts x = z # zs @ ts" "remaining z \<le> 0" "reset_ok z" "\<forall>u \<in> set zs. remaining u = 0"
    and "release_all sz (z # zs) (heap (tkern x)) = Some (Inr hp)"
  shows "\<exists>y. managed_timeouts y = zs @ rearm_into z ts \<and> now y = now x
     \<and> release_all sz zs (heap (tkern y)) = Some (Inr hp)
     \<and> managed_loop sz call x =
         Option.bind (managed_loop sz call y) (\<lambda>r. Some (map_sum id (\<lambda>(x, fired). (x, z # fired)) r))"
proof (cases "reset_time z > 0")
  case True
  let ?y = "on_kernel scheduler_lock (x\<lparr>managed_timeouts := zs @ ts\<rparr>)"
  obtain y where y: "timer_managed_insert (rearm z) ?y = Inr y"
    "managed_timeouts y = zs @ insert_timeout (rearm z) ts" "now y = now x" "heap (tkern y) = heap (tkern x)"
    using timer_managed_insert_eq [of "rearm z" ?y] insert_after_zeros [OF assms(5), of "rearm z" ts] True assms(4)
    by auto
  let ?x1 = "call (tmo_handler z) (tmo_context z) (on_kernel scheduler_unlock y)"
  let ?x2 = "on_kernel (heap_update (\<lambda>_. heap (tkern ?x1))) ?x1"
  have "managed_loop sz call x =
      Option.bind (managed_loop sz call ?x2) (\<lambda>r. Some (map_sum id (\<lambda>(x, fired). (x, z # fired)) r))"
    using assms(2,3) True y(1) by (subst managed_loop.simps) (simp add: Let_def)
  then show ?thesis using assms(1,6) y True by (intro exI [of _ ?x2]) (simp add: quiet_def rearm_into_def)
next
  case False
  let ?y = "on_kernel scheduler_lock (x\<lparr>managed_timeouts := zs @ ts\<rparr>)"
  let ?x1 = "call (tmo_handler z) (tmo_context z) (on_kernel scheduler_unlock ?y)"
  obtain h where h: "free_raw (mkptr (tmo_addr z)) sz (heap (tkern x)) = Some (Inr h)"
    "release_all sz zs h = Some (Inr hp)"
    using assms(6) False by (auto split: option.splits sum.splits)
  have "heap (tkern ?x1) = heap (tkern x)" using assms(1) by (simp add: quiet_def)
  then have "managed_loop sz call x =
      Option.bind (managed_loop sz call (on_kernel (heap_update (\<lambda>_. h)) ?x1)) (\<lambda>r. Some (map_sum id (\<lambda>(x, fired). (x, z # fired)) r))"
    using assms(2,3) False h(1) by (subst managed_loop.simps) (simp add: Let_def)
  then show ?thesis using assms(1) h(2) False
    by (intro exI [of _ "on_kernel (heap_update (\<lambda>_. h)) ?x1"]) (simp add: quiet_def rearm_into_def)
qed

lemma managed_loop_due:
  assumes "quiet call"
  shows "managed_timeouts x = zs @ ts \<Longrightarrow> ts = [] \<or> 0 < remaining (hd ts) \<Longrightarrow>
     \<forall>z \<in> set zs. remaining z \<le> 0 \<and> reset_ok z \<Longrightarrow> \<forall>z \<in> set (tl zs). remaining z = 0 \<Longrightarrow>
     release_all sz zs (heap (tkern x)) = Some (Inr hp) \<Longrightarrow>
     if fold rearm_into zs ts = [] then managed_loop sz call x = Some (Inl Null_Deref)
     else \<exists>x'. managed_loop sz call x = Some (Inr (x', zs)) \<and> managed_timeouts x' = fold rearm_into zs ts
       \<and> 0 < remaining (hd (managed_timeouts x')) \<and> now x' = now x"
proof (induction zs arbitrary: x ts)
  case Nil
  then show ?case by (subst (1 2) managed_loop.simps) (auto split: list.splits)
next
  case (Cons z zs)
  have z: "remaining z \<le> 0" "reset_ok z" "\<forall>u \<in> set zs. remaining u = 0" "managed_timeouts x = z # zs @ ts"
    using Cons.prems by auto
  obtain y where y: "managed_timeouts y = zs @ rearm_into z ts" "now y = now x"
    "release_all sz zs (heap (tkern y)) = Some (Inr hp)"
    "managed_loop sz call x =
       Option.bind (managed_loop sz call y) (\<lambda>r. Some (map_sum id (\<lambda>(x, fired). (x, z # fired)) r))"
    using managed_loop_fire [OF assms z(4,1-3) Cons.prems(5)] by blast
  have tl: "\<forall>u \<in> set (tl zs). remaining u = 0" "\<forall>u \<in> set zs. remaining u \<le> 0 \<and> reset_ok u"
    using z(3) Cons.prems(3) by (auto dest: in_set_tlD)
  note IH = Cons.IH [OF y(1) rearm_into_hd [OF Cons.prems(2)] tl(2,1) y(3)]
  show ?case
  proof (cases "fold rearm_into zs (rearm_into z ts) = []")
    case True
    then show ?thesis using IH y(4) by simp
  next
    case False
    then obtain x' where "managed_loop sz call y = Some (Inr (x', zs))" "managed_timeouts x' = fold rearm_into zs (rearm_into z ts)"
      "0 < remaining (hd (managed_timeouts x'))" "now x' = now y"
      using IH by auto
    then show ?thesis using False y(2,4) by simp
  qed
qed

lemma delta_ok_fold_rearm:
  "\<forall>z \<in> set zs. reset_ok z \<Longrightarrow> delta_ok ts \<Longrightarrow> delta_ok (fold rearm_into zs ts)"
  by (induction zs arbitrary: ts) (simp_all add: insert_timeout_ok rearm_into_def)

lemma deadlines_fold_rearm:
  "\<forall>z \<in> set zs. reset_ok z \<Longrightarrow> delta_ok ts \<Longrightarrow>
     deadlines b (fold rearm_into zs ts) =
       fold put_deadline (map (\<lambda>z. (tmo_addr z, b + reset_time z)) (filter (\<lambda>z. 0 < reset_time z) zs)) (deadlines b ts)"
proof (induction zs arbitrary: ts)
  case (Cons z zs)
  have "delta_ok (rearm_into z ts)" using delta_ok_fold_rearm [of "[z]" ts] Cons.prems by simp
  then show ?case using Cons deadlines_insert [of ts "rearm z" b] by (simp add: rearm_into_def)
qed simp

text \<open>
  The timeouts that are due with the first one, and those behind them.
\<close>

abbreviation due_with :: "tmo \<Rightarrow> tmo list \<Rightarrow> tmo list" where
  "due_with t ts \<equiv> t # takeWhile (\<lambda>u. remaining u = 0) ts"

abbreviation not_due :: "tmo list \<Rightarrow> tmo list" where
  "not_due ts \<equiv> dropWhile (\<lambda>u. remaining u = 0) ts"

lemma not_due_ok:
  assumes "delta_ok ts"
  shows "delta_ok (not_due ts)" "not_due ts = [] \<or> 0 < remaining (hd (not_due ts))"
proof -
  show "delta_ok (not_due ts)" using assms by (auto simp: delta_ok_def dest: set_dropWhileD)
  then show "not_due ts = [] \<or> 0 < remaining (hd (not_due ts))"
    using hd_dropWhile [of "\<lambda>u. remaining u = 0" ts] by (cases "not_due ts") auto
qed

text \<open>The handler when the first timeout is due, and when it is called before.\<close>

lemma handler_due:
  assumes "managed_timeouts x = t # ts" "delta_ok (t # ts)" "quiet call" "remaining t \<le> e" "e < 2 ^ 31"
    and "\<forall>u \<in> set (due_with t ts). reset_ok u"
    and "release_all sz (due_with t ts) (heap (tkern x)) = Some (Inr hp)"
  shows "if not_due ts = [] \<and> (\<forall>u \<in> set (due_with t ts). reset_time u = 0)
     then timer_managedhandler sz call e x = Some (Inl Null_Deref)
     else \<exists>x' fired. timer_managedhandler sz call e x = Some (Inr (x', fired)) \<and> map tmo_addr fired = map tmo_addr (due_with t ts)
       \<and> managed_timeouts x' = fold rearm_into (due_with t ts) (not_due ts) \<and> managed_timeouts x' \<noteq> []
       \<and> 0 < remaining (hd (managed_timeouts x')) \<and> programmed x' = Some (remaining (hd (managed_timeouts x')))
       \<and> armed_at x' = now x"
proof -
  let ?z = "takeWhile (\<lambda>u. remaining u = 0) ts"
  let ?t = "t\<lparr>remaining := ms (remaining t - e)\<rparr>"
  let ?x = "on_kernel scheduler_unlock ((on_kernel scheduler_lock x)\<lparr>managed_timeouts := ?t # ts\<rparr>)"
  have lst: "managed_timeouts ?x = (?t # ?z) @ not_due ts" by simp
  have zero: "\<forall>z \<in> set ?z. remaining z = 0" by (auto dest: set_takeWhileD)
  have p3: "\<forall>z \<in> set (?t # ?z). remaining z \<le> 0 \<and> reset_ok z" and p4: "\<forall>z \<in> set (tl (?t # ?z)). remaining z = 0"
    using zero assms(2,4-6) by simp_all
  have p5: "release_all sz (?t # ?z) (heap (tkern ?x)) = Some (Inr hp)"
    using assms(7) release_all_remaining [of sz "ms (remaining t - e)" t ?z] by simp
  have nd: "not_due ts = [] \<or> 0 < remaining (hd (not_due ts))" using not_due_ok(2) [of ts] assms(2) by simp
  note loop = managed_loop_due [OF assms(3) lst nd p3 p4 p5]
  have nil: "fold rearm_into (?t # ?z) (not_due ts) = [] \<longleftrightarrow> not_due ts = [] \<and> (\<forall>u \<in> set (due_with t ts). reset_time u = 0)"
    using assms(6) unfolding fold_rearm_Nil by (auto simp: order.order_iff_strict)
  show ?thesis
  proof (cases "not_due ts = [] \<and> (\<forall>u \<in> set (due_with t ts). reset_time u = 0)")
    case True
    then have "managed_loop sz call ?x = Some (Inl Null_Deref)" using loop nil by simp
    then show ?thesis using True assms(1) by (simp add: timer_managedhandler_def)
  next
    case False
    then have ne: "fold rearm_into (?t # ?z) (not_due ts) \<noteq> []" using nil by blast
    from loop [unfolded if_not_P [OF ne]] obtain x1 where
      x1: "managed_loop sz call ?x = Some (Inr (x1, ?t # ?z))"
        "managed_timeouts x1 = fold rearm_into (?t # ?z) (not_due ts)" "0 < remaining (hd (managed_timeouts x1))"
      and nw: "now x1 = now ?x" by blast
    have x1': "managed_timeouts x1 \<noteq> []" "now x1 = now x" using ne nw x1(2) by simp_all
    let ?h = "remaining (hd (managed_timeouts x1))"
    have rec: "timer_managed_recalculate x1 = Inr (x1\<lparr>programmed := Some ?h, armed_at := now x\<rparr>)"
      using x1(3) x1' by (cases "managed_timeouts x1") (simp_all add: timer_managed_recalculate_def timer_set_def)
    have "timer_managedhandler sz call e x = Some (Inr (x1\<lparr>programmed := Some ?h, armed_at := now x\<rparr>, ?t # ?z))"
      using assms(1) x1(1) rec by (simp add: timer_managedhandler_def)
    then show ?thesis using False x1(2,3) x1'(1)
      by (simp only: if_False) (intro exI [of _ "x1\<lparr>programmed := Some ?h, armed_at := now x\<rparr>"] exI [of _ "?t # ?z"], simp)
  qed
qed

lemma handler_early:
  assumes "managed_timeouts x = t # ts" "0 \<le> e" "e < remaining t" "remaining t < 2 ^ 31"
  shows "\<exists>x'. timer_managedhandler sz call e x = Some (Inr (x', []))
     \<and> managed_timeouts x' = t\<lparr>remaining := remaining t - e\<rparr> # ts
     \<and> programmed x' = Some (remaining t - e) \<and> timer_hd x' = timer_hd x
     \<and> heap (tkern x') = heap (tkern x)"
proof -
  let ?x = "on_kernel scheduler_unlock ((on_kernel scheduler_lock x)\<lparr>managed_timeouts :=
      t\<lparr>remaining := remaining t - e\<rparr> # ts\<rparr>)"
  have "managed_loop sz call ?x = Some (Inr (?x, []))"
    using assms(2-4) by (subst managed_loop.simps) simp
  then show ?thesis
    using assms by (simp add: timer_managedhandler_def timer_managed_recalculate_def timer_set_def on_kernel_def)
qed

text \<open>The list of deadlines falls into those of the timeouts that are due and later ones.\<close>

lemma deadlines_zeros:
  "deadlines c ts = map (\<lambda>u. (tmo_addr u, c)) (takeWhile (\<lambda>u. remaining u = 0) ts) @ deadlines c (not_due ts)"
  by (induction ts) simp_all

lemma deadlines_due:
  "deadlines b (t # ts) = map (\<lambda>u. (tmo_addr u, b + remaining t)) (due_with t ts) @ deadlines (b + remaining t) (not_due ts)"
  using deadlines_zeros [of "b + remaining t" ts] by simp

lemma deadlines_not_due:
  assumes "delta_ok ts"
  shows "\<forall>(a, d) \<in> set (deadlines b (not_due ts)). b < d"
proof (cases "not_due ts")
  case (Cons u us)
  then have "0 < remaining u" "delta_ok us" using not_due_ok [OF assms] by simp_all
  then show ?thesis using deadlines_lower [of us "b + remaining u"] by (auto simp: Cons)
qed (simp only: deadlines.simps list.set ball_empty)

section \<open>Properties\<close>

definition demo_timer :: tsys where
  "demo_timer = \<lparr>tkern = demo_kernel,
     managed_timeouts = [\<lparr>tmo_addr = 16, remaining = 10, reset_time = 10, tmo_handler = 1, tmo_context = 1\<rparr>,
       \<lparr>tmo_addr = 48, remaining = 0, reset_time = 25, tmo_handler = 1, tmo_context = 2\<rparr>,
       \<lparr>tmo_addr = 80, remaining = 20, reset_time = 0, tmo_handler = 1, tmo_context = 3\<rparr>],
     timer_hd = Managed_Handler, programmed = Some 10, now = 104, armed_at = 100\<rparr>"

text \<open>
  C15. What scheduling a timeout does to the time at which each timeout fires: \<open>timer_managed_insert\<close>
  succeeds for every positive timeout \<open>r\<close> and keeps the list in the order of the deadlines. If the new
  timeout becomes the first one, the hardware is set again, so that the new one fires \<open>r\<close> from
  now and every pending one becomes late by the time that has passed since the hardware was set last. Otherwise
  every pending timeout keeps its time, and the new one fires early by that same time: \<open>r\<close> after
  the hardware was set last. So all times are exact only if the hardware has just been set;
  \<open>timer_managed_update_first\<close>, which should account for the time passed, has an empty body.
\<close>

theorem insert_deadlines:
  assumes "delta_ok (managed_timeouts x)" "0 < remaining t" "remaining t < 2 ^ 31"
  shows "\<exists>x'. timer_managed_insert t x = Inr x' \<and> delta_ok (managed_timeouts x')
     \<and> sorted (map snd (expiries x'))
     \<and> expiries x' =
         (if managed_timeouts x = [] \<or> remaining t \<le> remaining (hd (managed_timeouts x))
          then (tmo_addr t, now x + remaining t) # map (\<lambda>(a, d). (a, d + (now x - armed_at x))) (expiries x)
          else put_deadline (tmo_addr t, armed_at x + remaining t) (expiries x))"
proof -
  let ?ts = "managed_timeouts x"
  obtain x' where x': "timer_managed_insert t x = Inr x'" "managed_timeouts x' = insert_timeout t ?ts"
    "armed_at x' = (if becomes_first t ?ts then now x else armed_at x)"
    using timer_managed_insert_eq [OF assms(2), of x] by auto
  have ok: "delta_ok (managed_timeouts x')" using assms by (simp add: x'(2) insert_timeout_ok)
  have first: "insert_timeout t ?ts = t # carry_remaining (- remaining t) ?ts" if "becomes_first t ?ts"
    using that by (cases ?ts) (simp_all add: carry_remaining_def)
  have "deadlines (b + remaining t) (carry_remaining (- remaining t) ?ts) = deadlines b ?ts" if "becomes_first t ?ts" for b
    using that assms by (cases ?ts) (auto simp: carry_remaining_def)
  then have "becomes_first t ?ts \<Longrightarrow> expiries x' = (tmo_addr t, now x + remaining t) # deadlines (now x) ?ts"
    using x' first by (simp add: expiries_def)
  then have "becomes_first t ?ts \<Longrightarrow>
      expiries x' = (tmo_addr t, now x + remaining t) # map (\<lambda>(a, d). (a, d + (now x - armed_at x))) (expiries x)"
    using deadlines_shift [of "armed_at x" "now x - armed_at x" ?ts] by (simp add: expiries_def)
  moreover have "\<not> becomes_first t ?ts \<Longrightarrow> expiries x' = put_deadline (tmo_addr t, armed_at x + remaining t) (expiries x)"
    using x' assms deadlines_insert [of ?ts t "armed_at x"] by (simp add: expiries_def)
  ultimately show ?thesis using x'(1) ok deadlines_sorted [OF ok, of "armed_at x'"]
    by (auto simp: expiries_def)
qed

theorem insert_deadlines_witness:
  "\<exists>x' x''. timer_managed_insert \<lparr>tmo_addr = 5, remaining = 17, reset_time = 0, tmo_handler = 1, tmo_context = 0\<rparr> demo_timer = Inr x'
     \<and> expiries x' = [(16, 110), (48, 110), (5, 117), (80, 130)]
     \<and> timer_managed_insert \<lparr>tmo_addr = 5, remaining = 7, reset_time = 0, tmo_handler = 1, tmo_context = 0\<rparr> demo_timer = Inr x''
     \<and> expiries x'' = [(5, 111), (16, 114), (48, 114), (80, 134)]"
proof -
  have e: "expiries demo_timer = [(16, 110), (48, 110), (80, 130)]" "delta_ok (managed_timeouts demo_timer)"
    by (simp_all add: demo_timer_def expiries_def)
  show ?thesis
    using insert_deadlines [of demo_timer
        "\<lparr>tmo_addr = 5, remaining = 17, reset_time = 0, tmo_handler = 1, tmo_context = 0\<rparr>"]
      insert_deadlines [of demo_timer
        "\<lparr>tmo_addr = 5, remaining = 7, reset_time = 0, tmo_handler = 1, tmo_context = 0\<rparr>"] e
    by (simp add: demo_timer_def) blast
qed

text \<open>
  Cancelling removes the first timeout with the given handler and context from the list and leaves
  every other pending timeout at its place, with its deadline counted from the same start. (If the
  cancelled timeout was the first one the hardware is then set again, which moves the start to
  the time of the call.)
\<close>

theorem cancel_keeps_deadlines:
  assumes "cancel_timeout h c ts = Some (t, first, ts')" "delta_ok ts"
    and "\<forall>(a, d) \<in> set (deadlines 0 ts). d < 2 ^ 31"
  shows "delta_ok ts' \<and> tmo_handler t = h \<and> tmo_context t = c
     \<and> (\<exists>as d bs. deadlines 0 ts = as @ (tmo_addr t, d) # bs \<and> deadlines 0 ts' = as @ bs)"
  using deadlines_cancel [OF assms(1,2), of 0] assms(3) by simp

theorem cancel_keeps_deadlines_witness:
  "\<exists>t ts'. cancel_timeout 1 1 (managed_timeouts demo_timer) = Some (t, True, ts') \<and> delta_ok ts'"
  using cancel_keeps_deadlines [where h = 1 and c = 1 and ts = "managed_timeouts demo_timer"]
  by (simp add: demo_timer_def carry_remaining_def)

text \<open>
  C16. The timer interrupt fires what is due: called with an elapsed time \<open>e\<close> that covers the first
  timeout, with callbacks that leave the timer alone, for any mix of one-shot and repeating timeouts whose
  memory can be released, the handler fires the first timeout and all with the same deadline, in list order,
  and no other, even if the call is late and others are overdue. Repeating ones are armed again for their own period from now; all later timeouts are
  late by as much as the call is (not at all when it comes on time). There is one exception: if all of them are
  one-shot and nothing else is pending, the handler dereferences \<open>NULL\<close> instead of returning.
\<close>

theorem handler_fires_due:
  assumes "managed_timeouts x = t # ts" "delta_ok (t # ts)" "quiet call"
    and "remaining t \<le> e" "e < 2 ^ 31"
    and "due = t # takeWhile (\<lambda>u. remaining u = 0) ts" "rest = dropWhile (\<lambda>u. remaining u = 0) ts"
    and "\<forall>u \<in> set due. 0 \<le> reset_time u \<and> reset_time u < 2 ^ 31"
    and "release_all sz due (heap (tkern x)) = Some (Inr hp)"
    and "late = now x - (armed_at x + remaining t)"
  shows "\<exists>later. expiries x = map (\<lambda>u. (tmo_addr u, armed_at x + remaining t)) due @ later
     \<and> (\<forall>(a, d) \<in> set later. armed_at x + remaining t < d)
     \<and> (if rest = [] \<and> (\<forall>u \<in> set due. reset_time u = 0)
        then timer_managedhandler sz call e x = Some (Inl Null_Deref)
        else \<exists>x' fired. timer_managedhandler sz call e x = Some (Inr (x', fired))
          \<and> map tmo_addr fired = map tmo_addr due
          \<and> expiries x' = fold put_deadline
              (map (\<lambda>u. (tmo_addr u, now x + reset_time u)) (filter (\<lambda>u. 0 < reset_time u) due))
              (map (\<lambda>(a, d). (a, d + late)) later))"
proof -
  let ?E = "deadlines (armed_at x + remaining t) rest"
  have ex: "expiries x = map (\<lambda>u. (tmo_addr u, armed_at x + remaining t)) due @ ?E"
    using deadlines_due [of "armed_at x" t ts] assms(1,6,7) by (simp add: expiries_def)
  have later: "\<forall>(a, d) \<in> set ?E. armed_at x + remaining t < d"
    using deadlines_not_due [of ts "armed_at x + remaining t"] assms(2,7) by simp
  have ok: "delta_ok rest" using not_due_ok(1) [of ts] assms(2,7) by simp
  have rest: "deadlines (now x) rest = map (\<lambda>(a, d). (a, d + late)) ?E"
    using deadlines_shift [of "armed_at x + remaining t" late rest] assms(10) by simp
  note h = handler_due [OF assms(1-5), folded assms(6,7), OF assms(8,9)]
  show ?thesis
  proof (cases "rest = [] \<and> (\<forall>u \<in> set due. reset_time u = 0)")
    case True
    then show ?thesis using h ex later by (intro exI [of _ ?E]) simp
  next
    case False
    then obtain x' fired where x': "timer_managedhandler sz call e x = Some (Inr (x', fired))"
      "map tmo_addr fired = map tmo_addr due" "managed_timeouts x' = fold rearm_into due rest" "armed_at x' = now x"
      using h by (simp only: if_False) blast
    then have "expiries x' = fold put_deadline
        (map (\<lambda>u. (tmo_addr u, now x + reset_time u)) (filter (\<lambda>u. 0 < reset_time u) due)) (map (\<lambda>(a, d). (a, d + late)) ?E)"
      using deadlines_fold_rearm [OF assms(8) ok, of "now x"] rest by (simp add: expiries_def)
    then show ?thesis using False ex later x'(1,2) by (intro exI [of _ ?E]) (simp only: if_False, blast)
  qed
qed

text \<open>Two timeouts due at 110, a one-shot and a repeating one; the interrupt is handled at 112.\<close>

definition demo_due :: tsys where
  "demo_due = demo_timer\<lparr>managed_timeouts :=
     [\<lparr>tmo_addr = 0x3000, remaining = 10, reset_time = 0, tmo_handler = 1, tmo_context = 1\<rparr>,
      \<lparr>tmo_addr = 48, remaining = 0, reset_time = 25, tmo_handler = 1, tmo_context = 2\<rparr>,
      \<lparr>tmo_addr = 80, remaining = 20, reset_time = 0, tmo_handler = 1, tmo_context = 3\<rparr>], now := 112\<rparr>"

lemma demo_free: "\<exists>hp. free_raw (Some 0x3000) 24 (heap demo_kernel) = Some (Inr hp)"
  by (simp add: demo_kernel_def malloc_eval)

theorem handler_fires_due_witness:
  "\<exists>x' fired. timer_managedhandler 24 (\<lambda>_ _ x. x) 10 demo_due = Some (Inr (x', fired))
     \<and> map tmo_addr fired = [0x3000, 48] \<and> expiries x' = [(80, 132), (48, 137)]"
proof -
  obtain hp where "free_raw (Some 0x3000) 24 (heap demo_kernel) = Some (Inr hp)" using demo_free by blast
  then have "release_all 24 (due_with (hd (managed_timeouts demo_due)) (tl (managed_timeouts demo_due))) (heap (tkern demo_due)) = Some (Inr hp)"
    by (simp add: demo_due_def demo_timer_def)
  from handler_fires_due [of demo_due "hd (managed_timeouts demo_due)" "tl (managed_timeouts demo_due)"
      "\<lambda>_ _ x. x" 10, OF _ _ _ _ _ refl refl _ this refl]
  show ?thesis by (simp add: demo_due_def demo_timer_def quiet_def expiries_def)
qed

text \<open>
  When the only pending timeout is a one-shot timeout and it is due, the handler
  dereferences \<open>NULL\<close>: after freeing it the loop condition reads \<open>remaining\<close> of the first timeout
  of an empty list.
\<close>

theorem handler_null_after_last:
  assumes "managed_timeouts x = [t]" "0 \<le> remaining t" "remaining t \<le> e" "e < 2 ^ 31" "reset_time t = 0"
    and "quiet call" "free_raw (mkptr (tmo_addr t)) sz (heap (tkern x)) = Some (Inr hp)"
  shows "timer_managedhandler sz call e x = Some (Inl Null_Deref)"
proof -
  have neg: "ms (remaining t - e) \<le> 0" using assms(2-4) by simp
  have emp: "managed_loop sz call y = Some (Inl Null_Deref)" if "managed_timeouts y = []" for y
    using that by (subst managed_loop.simps) simp
  have "managed_loop sz call (on_kernel scheduler_unlock ((on_kernel scheduler_lock x)
      \<lparr>managed_timeouts := [t\<lparr>remaining := ms (remaining t - e)\<rparr>]\<rparr>)) = Some (Inl Null_Deref)"
    using neg assms(5-7)
    by (subst managed_loop.simps, cases "tmo_addr t = 0") (simp_all add: emp quiet_def)
  then show ?thesis using assms(1) by (simp add: timer_managedhandler_def)
qed

theorem handler_null_after_last_witness:
  "timer_managedhandler 24 (\<lambda>_ _ x. x) 10 (demo_timer\<lparr>managed_timeouts :=
     [\<lparr>tmo_addr = 0x3000, remaining = 10, reset_time = 0, tmo_handler = 1, tmo_context = 1\<rparr>]\<rparr>) = Some (Inl Null_Deref)"
proof -
  obtain hp where "free_raw (Some 0x3000) 24 (heap demo_kernel) = Some (Inr hp)" using demo_free by blast
  then show ?thesis
    by (intro handler_null_after_last [where hp = hp and t = "\<lparr>tmo_addr = 0x3000, remaining = 10,
        reset_time = 0, tmo_handler = 1, tmo_context = 1\<rparr>"]) (simp_all add: quiet_def demo_timer_def)
qed

text \<open>
  \<open>delay\<close> can lose its wake-up: the lock does not nest, so after the timeout has been
  scheduled interrupts are on again before the thread blocks. If the timeout fires in that
  window, waking up the thread has no effect because it is still running, and the thread then
  blocks with no timeout left that would wake it.
\<close>

theorem delay_loses_wakeup:
  assumes "running (tkern x) (current_thread (tkern x))" "delay_arm sz dh time x = Some (Inr x1)"
    and "c = current_thread (tkern x)"
  shows "\<not> irqs_off (tkern x1) \<and> threads (tkern (delay_handler c x1)) = threads (tkern x1)
     \<and> tstate (threads (tkern (on_kernel thread_block (delay_handler c x1))) c) = THREAD_STATE_BLOCKED"
proof -
  have ins: "timer_managed_insert t y = Inr z \<Longrightarrow> tkern z = tkern y" for t y z
    by (auto simp: timer_managed_insert_def timer_managed_recalculate_def timer_set_def timer_disable_def
        Let_def split: list.splits if_splits)
  have x1: "\<not> irqs_off (tkern x1)" "threads (tkern x1) = threads (tkern x)"
    "current_thread (tkern x1) = current_thread (tkern x)"
    using assms(2)
    by (auto simp: delay_arm_def timer_managed_schedule_def Let_def scheduler_lock_def scheduler_unlock_def
        map_sum_eq_Inr split: if_splits option.splits sum.splits prod.splits dest!: ins)
  then show ?thesis
    using assms(1,3) by (auto simp: delay_handler_def Let_def thread_wakeup_def thread_block_def yield_def)
qed

theorem delay_loses_wakeup_witness:
  "\<exists>x1. delay_arm 24 77 100 demo_timer = Some (Inr x1)
     \<and> tstate (threads (tkern (on_kernel thread_block (delay_handler 1 x1))) 1) = THREAD_STATE_BLOCKED"
proof -
  have "running (tkern demo_timer) (current_thread (tkern demo_timer))" "1 = current_thread (tkern demo_timer)"
    by (simp_all add: demo_timer_def demo_kernel_def zero_thread_def)
  moreover obtain x1 where "delay_arm 24 77 100 demo_timer = Some (Inr x1)"
    by (simp add: delay_arm_def timer_managed_schedule_def demo_timer_def on_kernel_def scheduler_lock_def
        demo_kernel_def malloc_eval timer_managed_insert_def Let_def)
  ultimately show ?thesis using delay_loses_wakeup by blast
qed

end
