(* ===== verification/Core_String.thy ===== *)
theory Core_String
  imports FW_Prelude
begin

text \<open>
  String and memory functions of the firmware: \<^verbatim>\<open>src/core/string.c\<close>.

  \<^item> Memory is a function from 32 bit addresses to bytes; a \<open>char*\<close> is an address, 0 is \<open>NULL\<close>,
    and pointer arithmetic wraps. Plain \<open>char\<close> is unsigned, as in the ARM procedure call standard.
  \<^item> Loops over \<open>NUL\<close> terminated strings are \<open>partial_function (option)\<close>: \<open>None\<close> is a loop
    that finds no terminator. Loops that count down a \<open>size_t\<close> are recursions on its value.
  \<^item> \<open>readline\<close> works on a file that delivers a given sequence of bytes, fails at its end, and
    records what is written to it. Its last store may miss the buffer, which is a \<open>fault\<close>.

  The theorems relate the functions to the sequences of bytes that memory holds, and show where
  \<open>memcmp\<close>, \<open>memmove\<close>, \<open>strtol\<close> and \<open>readline\<close> do something else than their names promise.
\<close>

type_synonym cmem = "u32 \<Rightarrow> u8"

section \<open>Character classes\<close>

definition isdigit :: "int \<Rightarrow> bool" where
  "isdigit c = (c \<ge> 0x30 \<and> c \<le> 0x39)"

definition isalpha :: "u8 \<Rightarrow> bool" where
  "isalpha c =
     (if c \<ge> 0x61 \<and> c \<le> 0x7A then True
      else if c \<ge> 0x41 \<and> c \<le> 0x5A then True
      else False)"

section \<open>Strings\<close>

partial_function (option) strlen_loop :: "cmem \<Rightarrow> u32 \<Rightarrow> u32 \<Rightarrow> u32 option" where
  "strlen_loop m str i = (if m str \<noteq> 0 then strlen_loop m (str + 1) (i + 1) else Some i)"

definition strlen :: "cmem \<Rightarrow> u32 \<Rightarrow> u32 option" where
  "strlen m str = strlen_loop m str 0"

fun strncmp :: "cmem \<Rightarrow> u32 \<Rightarrow> u32 \<Rightarrow> nat \<Rightarrow> int" where
  "strncmp m s1 s2 0 = 0"
| "strncmp m s1 s2 (Suc n) =
     (if m s1 \<noteq> 0 \<and> m s2 \<noteq> 0 \<and> m s1 = m s2 then strncmp m (s1 + 1) (s2 + 1) n
      else if m s1 < m s2 then - 1
      else if m s1 > m s2 then 1
      else 0)"

definition strcmp :: "cmem \<Rightarrow> u32 \<Rightarrow> u32 \<Rightarrow> int" where
  "strcmp m s1 s2 = strncmp m s1 s2 (2 ^ 32 - 1)"

partial_function (option) strchr :: "cmem \<Rightarrow> u32 \<Rightarrow> int \<Rightarrow> u32 option" where
  "strchr m s c =
     (if m s \<noteq> 0 then (if uint (m s) = c then Some s else strchr m (s + 1) c)
      else Some 0)"

text \<open>The loop of \<open>strsep\<close>: the final \<open>remaining\<close> and the memory.\<close>

partial_function (option) strsep_loop :: "cmem \<Rightarrow> u32 \<Rightarrow> u32 \<Rightarrow> (u32 \<times> cmem) option" where
  "strsep_loop m delim remaining =
     (if m remaining \<noteq> 0
      then Option.bind (strchr m delim (uint (m remaining))) (\<lambda>q.
             if q \<noteq> 0 then Some (remaining + 1, m(remaining := 0))
             else strsep_loop m delim (remaining + 1))
      else Some (remaining, m))"

text \<open>
  \<open>stringp\<close> is \<open>None\<close> for a \<open>NULL\<close> pointer, otherwise the pointer it points to; the result has the
  token, the new \<open>*stringp\<close> and the memory.
\<close>

definition strsep :: "cmem \<Rightarrow> u32 option \<Rightarrow> u32 \<Rightarrow> (fault + (u32 \<times> u32 \<times> cmem)) option" where
  "strsep m stringp delim =
     (case stringp of
        None \<Rightarrow> Some (Inl Assert_Failed)
      | Some found \<Rightarrow>
          if delim = 0 then Some (Inl Assert_Failed)
          else if found = 0 then Some (Inl Null_Deref)
          else map_option (\<lambda>(remaining, m).
                 Inr (found, if m remaining = 0 then 0 else remaining, m)) (strsep_loop m delim found))"

partial_function (option) strsep_ext ::
    "cmem \<Rightarrow> u32 option \<Rightarrow> u32 \<Rightarrow> (fault + (u32 \<times> u32 \<times> cmem)) option" where
  "strsep_ext m stringp delim =
     Option.bind (strsep m stringp delim) (\<lambda>r. case r of
        Inl e \<Rightarrow> Some (Inl e)
      | Inr (value, sp, m) \<Rightarrow>
          if value \<noteq> 0
          then Option.bind (strlen m value) (\<lambda>l.
                 if l = 0 then strsep_ext m (Some sp) delim else Some (Inr (value, sp, m)))
          else Some (Inr (value, sp, m)))"

section \<open>Numbers\<close>

definition digit_val :: "u8 \<Rightarrow> u8 option" where
  "digit_val c =
     (if 0x30 \<le> c \<and> c \<le> 0x39 then Some (c - 0x30)
      else if 0x41 \<le> c \<and> c \<le> 0x46 then Some (c - 0x41 + 10)
      else if 0x61 \<le> c \<and> c \<le> 0x66 then Some (c - 0x61 + 10)
      else None)"

partial_function (option) strtol_loop :: "cmem \<Rightarrow> u8 \<Rightarrow> u32 \<Rightarrow> u32 \<Rightarrow> (u32 \<times> u32) option" where
  "strtol_loop m base c n =
     (if m c \<noteq> 0
      then case digit_val (m c) of
             None \<Rightarrow> Some (c, n)
           | Some i \<Rightarrow>
               if i > base then Some (c, n)
               else strtol_loop m base (c + 1) (n * ucast base + ucast i)
      else Some (c, n))"

text \<open>The result is the pair of the end pointer and the number.\<close>

definition strtol :: "cmem \<Rightarrow> u32 \<Rightarrow> u8 \<Rightarrow> (u32 \<times> u32) option" where
  "strtol m c base =
     (if base = 0
      then if m c = 0x30 \<and> (m (c + 1) = 0x78 \<or> m (c + 1) = 0x58) then strtol_loop m 16 (c + 2) 0
           else if m c = 0x30 \<and> (m (c + 1) = 0x62 \<or> m (c + 1) = 0x42) then strtol_loop m 2 (c + 2) 0
           else strtol_loop m 10 c 0
      else strtol_loop m base c 0)"

definition atoi :: "cmem \<Rightarrow> u32 \<Rightarrow> u32 option" where
  "atoi m c = map_option snd (strtol m c 10)"

section \<open>Memory blocks\<close>

fun memcmp :: "cmem \<Rightarrow> u32 \<Rightarrow> u32 \<Rightarrow> nat \<Rightarrow> int" where
  "memcmp m s1 s2 0 = 0"
| "memcmp m s1 s2 (Suc n) =
     (if m s1 = m s2 then memcmp m (s1 - 1) (s2 - 1) n
      else if m s1 < m s2 then - 1
      else 1)"

fun copy_up :: "cmem \<Rightarrow> u32 \<Rightarrow> u32 \<Rightarrow> nat \<Rightarrow> cmem" where
  "copy_up m dst src 0 = m"
| "copy_up m dst src (Suc n) = copy_up (m(dst := m src)) (dst + 1) (src + 1) n"

fun copy_down :: "cmem \<Rightarrow> u32 \<Rightarrow> u32 \<Rightarrow> nat \<Rightarrow> cmem" where
  "copy_down m dst src 0 = m"
| "copy_down m dst src (Suc n) = copy_down (m(dst := m src)) (dst - 1) (src - 1) n"

definition memcpy :: "cmem \<Rightarrow> u32 \<Rightarrow> u32 \<Rightarrow> nat \<Rightarrow> u32 \<times> cmem" where
  "memcpy m dst src n = (dst, copy_up m dst src n)"

definition memmove :: "cmem \<Rightarrow> u32 \<Rightarrow> u32 \<Rightarrow> nat \<Rightarrow> u32 \<times> cmem" where
  "memmove m dst src n =
     (if dst < src then (dst + of_nat n, copy_up m dst src n)
      else if dst > src
      then (dst + of_nat n - of_nat n, copy_down m (dst + of_nat n) (src + of_nat n) n)
      else (dst, m))"

fun memset :: "cmem \<Rightarrow> u32 \<Rightarrow> u8 \<Rightarrow> nat \<Rightarrow> u32 \<times> cmem" where
  "memset m b c 0 = (b, m)"
| "memset m b c (Suc n) = memset (m(b := c)) (b + 1) c n"

definition aeabi_memset :: "cmem \<Rightarrow> u32 \<Rightarrow> nat \<Rightarrow> u8 \<Rightarrow> u32 \<times> cmem" where
  "aeabi_memset m b n c = memset m b c n"

section \<open>Reading a line\<close>

text \<open>The inner loop reads away the parameters of a control sequence.\<close>

fun skip_params :: "u8 list \<Rightarrow> u8 list option" where
  "skip_params [] = None"
| "skip_params (c # inp) = (if \<not> isalpha c then skip_params inp else Some inp)"

lemma skip_params_length: "skip_params inp = Some inp' \<Longrightarrow> length inp' < length inp"
  by (induction inp) (auto split: if_splits)

record line =
  lmem :: cmem
  linput :: "u8 list"
  lout :: "u8 list"

text \<open>
  The loop of \<open>readline\<close>: \<open>Inl\<close> for a \<open>return\<close> inside it, \<open>Inr\<close> with the final index otherwise.
\<close>

function readline_loop :: "u32 \<Rightarrow> u32 \<Rightarrow> u32 \<Rightarrow> line \<Rightarrow> (int + u32) \<times> line" where
  "readline_loop buffer len i x =
     (if i < len - 1
      then case linput x of
             [] \<Rightarrow> (Inl (- 1), x)
           | c # inp \<Rightarrow>
               let x = x\<lparr>linput := inp\<rparr> in
               if c = 0x0D \<or> c = 0x0A
               then (Inr (i + 1), x\<lparr>lmem := (lmem x)(buffer + i := 0), lout := lout x @ [0x0D, 0x0A]\<rparr>)
               else if c = 0x7F \<or> c = 0x08
               then if i > 0
                    then readline_loop buffer len (i - 1)
                           (x\<lparr>lout := lout x @ [0x1B, 0x5B, 0x31, 0x44, 0x1B, 0x5B, 0x4B]\<rparr>)
                    else readline_loop buffer len i x
               else if c = 0x03 then (Inl 0, x\<lparr>lout := lout x @ [0x0D, 0x0A]\<rparr>)
               else if c = 0x1B
               then case inp of
                      [] \<Rightarrow> (Inl (- 1), x)
                    | d # inp' \<Rightarrow>
                        if d = 0x5B
                        then case skip_params inp' of
                               None \<Rightarrow> (Inl (- 1), x\<lparr>linput := []\<rparr>)
                             | Some inp'' \<Rightarrow> readline_loop buffer len i (x\<lparr>linput := inp''\<rparr>)
                        else readline_loop buffer len i (x\<lparr>linput := inp'\<rparr>)
               else readline_loop buffer len (i + 1)
                      (x\<lparr>lout := lout x @ [c], lmem := (lmem x)(buffer + i := c)\<rparr>)
      else (Inr i, x))"
  by auto

termination
  by (relation "measure (\<lambda>(buffer, len, i, x). length (linput x))")
    (auto dest!: skip_params_length)

declare readline_loop.simps [simp del]

text \<open>
  The stores of the loop stay below \<open>len - 1\<close>. The store behind the loop is to \<open>buffer[i+1]\<close>, which may be
  the byte behind the buffer: a fault. (With \<open>len = 0\<close>, which no caller passes, \<open>len - 1\<close> wraps.)
\<close>

definition readline :: "u32 \<Rightarrow> u32 \<Rightarrow> line \<Rightarrow> fault + (int \<times> line)" where
  "readline buffer len x =
     (case readline_loop buffer len 0 x of
        (Inl r, x) \<Rightarrow> Inr (r, x)
      | (Inr i, x) \<Rightarrow>
          if i + 1 < len then Inr (sint i, x\<lparr>lmem := (lmem x)(buffer + i + 1 := 0)\<rparr>)
          else Inl Out_Of_Bounds)"

section \<open>Strings in memory\<close>

text \<open>\<open>cstr m p s\<close>: memory holds the bytes \<open>s\<close>, none of them 0, at \<open>p\<close>, and a 0 after them.\<close>

fun cstr :: "cmem \<Rightarrow> u32 \<Rightarrow> u8 list \<Rightarrow> bool" where
  "cstr m p [] = (m p = 0)"
| "cstr m p (c # s) = (m p = c \<and> c \<noteq> 0 \<and> cstr m (p + 1) s)"

lemma off_eq: "i < 2 ^ 32 \<Longrightarrow> j < 2 ^ 32 \<Longrightarrow> p + of_nat i = p + of_nat j \<longleftrightarrow> i = j" for p :: u32
  by (simp add: word_of_nat_eq_iff take_bit_nat_eq_self)

lemma off_neq0: "0 < i \<Longrightarrow> i < 2 ^ 32 \<Longrightarrow> p + of_nat i \<noteq> p" for p :: u32
  using off_eq [of i 0 p] by simp

lemma cstr_append: "cstr m p (a @ b) \<longleftrightarrow> (\<forall>i < length a. m (p + of_nat i) = a ! i) \<and> 0 \<notin> set a
    \<and> cstr m (p + of_nat (length a)) b"
  by (induction a arbitrary: p) (auto simp: ac_simps less_Suc_eq_0_disj)

lemma cstr_nth:
  "cstr m p s \<longleftrightarrow> (\<forall>i < length s. m (p + of_nat i) = s ! i) \<and> 0 \<notin> set s \<and> m (p + of_nat (length s)) = 0"
  using cstr_append [of m p s "[]"] by simp

lemma cstr_cong: "\<forall>i \<le> length s. m (p + of_nat i) = m' (p + of_nat i) \<Longrightarrow> cstr m p s = cstr m' p s"
  by (simp add: cstr_nth)

lemma strlen_loop_cstr: "cstr m p s \<Longrightarrow> strlen_loop m p i = Some (i + of_nat (length s))"
  by (induction s arbitrary: p i; subst strlen_loop.simps) (simp_all add: ac_simps)

lemma strlen_cstr: "cstr m p s \<Longrightarrow> strlen m p = Some (of_nat (length s))"
  by (simp add: strlen_def strlen_loop_cstr)

text \<open>The order of strings: lexicographic by the unsigned bytes.\<close>

fun str_order :: "u8 list \<Rightarrow> u8 list \<Rightarrow> int" where
  "str_order [] [] = 0"
| "str_order [] (b # t) = - 1"
| "str_order (a # s) [] = 1"
| "str_order (a # s) (b # t) = (if a = b then str_order s t else if a < b then - 1 else 1)"

lemma str_order_eq_0: "str_order s t = 0 \<longleftrightarrow> s = t"
  by (induction s t rule: str_order.induct) auto

lemma str_order_less: "str_order s t = - 1 \<longleftrightarrow> ord_class.lexordp s t"
  by (induction s t rule: str_order.induct) auto

lemma str_order_swap: "str_order t s = - str_order s t"
  by (induction s t rule: str_order.induct) auto

lemma strncmp_cstr:
  "cstr m p s \<Longrightarrow> cstr m q t \<Longrightarrow> strncmp m p q n = str_order (take n s) (take n t)"
proof (induction n arbitrary: p q s t)
  case (Suc n)
  then show ?case by (cases s; cases t) (auto simp: word_greater_zero_iff [symmetric])
qed simp

lemma strcmp_cstr:
  assumes "cstr m p s" "cstr m q t" "length s < 2 ^ 32" "length t < 2 ^ 32"
  shows "strcmp m p q = str_order s t"
  using strncmp_cstr [OF assms(1,2)] assms(3,4) by (simp add: strcmp_def)

lemma strchr_cstr:
  "cstr m p s \<Longrightarrow> strchr m p c =
     Some (if \<exists>x \<in> set s. uint x = c then p + of_nat (length (takeWhile (\<lambda>x. uint x \<noteq> c) s)) else 0)"
  by (induction s arbitrary: p; subst strchr.simps) (auto simp: ac_simps)

lemma strchr_char:
  assumes "cstr m p s"
  shows "strchr m p (uint x) = Some (if x \<in> set s then p + of_nat (length (takeWhile (\<lambda>y. y \<noteq> x) s)) else 0)"
  using strchr_cstr [OF assms, of "uint x"] by (auto simp: word_uint_eq_iff [symmetric])

section \<open>Tokens\<close>

lemma strchr_found:
  assumes "cstr m d ds" "d \<noteq> 0" "unat d + length ds < 2 ^ 32"
  shows "\<exists>q. strchr m d (uint x) = Some q \<and> (q = 0 \<longleftrightarrow> x \<notin> set ds)"
proof -
  let ?l = "length (takeWhile (\<lambda>y. uint y \<noteq> uint x) ds)"
  have "?l \<le> length ds" by (rule length_takeWhile_le)
  then have "unat (d + of_nat ?l) = unat d + ?l"
    using assms(3) by (simp add: unat_word_ariths unat_of_nat)
  then have "d + of_nat ?l \<noteq> 0" using assms(2) by (metis add_is_0 unat_0 unat_eq_zero)
  then show ?thesis by (auto simp: strchr_cstr [OF assms(1)] word_uint_eq_iff [symmetric])
qed

lemma strsep_loop_cstr:
  assumes "cstr m d ds" "d \<noteq> 0" "unat d + length ds < 2 ^ 32" "cstr m p (a @ b)" "set a \<inter> set ds = {}"
    and "b = [] \<or> hd b \<in> set ds"
  shows "strsep_loop m d p = Some (if b = [] then (p + of_nat (length a), m)
     else (p + of_nat (length a) + 1, m(p + of_nat (length a) := 0)))"
  using assms(4-)
proof (induction a arbitrary: p)
  case Nil
  show ?case
  proof (cases b)
    case Nil
    then show ?thesis using \<open>cstr m p ([] @ b)\<close> by (subst strsep_loop.simps) simp
  next
    case (Cons x b')
    then have "x \<in> set ds" "m p = x" "x \<noteq> 0" using Nil.prems by auto
    then show ?thesis using strchr_found [OF assms(1-3), of x] Cons by (subst strsep_loop.simps) auto
  qed
next
  case (Cons x a)
  then have "x \<notin> set ds" "m p = x" "x \<noteq> 0" by auto
  then show ?case using strchr_found [OF assms(1-3), of x] Cons
    by (subst strsep_loop.simps) (auto simp: ac_simps)
qed

lemma cstr_cut:
  assumes "cstr m p (a @ x # b)" "length a + length b + 1 < 2 ^ 32"
  shows "cstr (m(p + of_nat (length a) := 0)) p a
     \<and> cstr (m(p + of_nat (length a) := 0)) (p + of_nat (length a) + 1) b"
proof -
  have b: "cstr m (p + of_nat (length a) + 1) b" using assms(1) by (simp add: cstr_append)
  have "p + of_nat (length a) + 1 + of_nat i \<noteq> p + of_nat (length a)" if "i \<le> length b" for i
    using off_neq0 [of "Suc i" "p + of_nat (length a)"] that assms(2) by (simp add: ac_simps)
  then have "cstr (m(p + of_nat (length a) := 0)) (p + of_nat (length a) + 1) b"
    using b cstr_cong [of b "m(p + of_nat (length a) := 0)" "p + of_nat (length a) + 1" m] by simp
  moreover have "\<forall>i < length a. p + of_nat i \<noteq> p + of_nat (length a)"
    using off_eq [of _ "length a" p] assms(2) by simp
  ultimately show ?thesis using assms(1) unfolding cstr_append cstr_nth [of _ p a] by simp
qed

lemma strsep_cstr:
  assumes "cstr m d ds" "d \<noteq> 0" "unat d + length ds < 2 ^ 32" "cstr m p (a @ b)" "set a \<inter> set ds = {}"
    and "b = [] \<or> hd b \<in> set ds" "p \<noteq> 0" "length a + length b < 2 ^ 32"
  shows "\<exists>sp m'. strsep m (Some p) d = Some (Inr (p, sp, m')) \<and> cstr m' p a
     \<and> (\<forall>q. q \<noteq> p + of_nat (length a) \<longrightarrow> m' q = m q)
     \<and> (if tl b = [] then sp = 0 else sp = p + of_nat (Suc (length a)) \<and> cstr m' sp (tl b))"
proof (cases b)
  case Nil
  then show ?thesis using strsep_loop_cstr [OF assms(1-6)] assms
    by (auto simp: strsep_def cstr_nth)
next
  case (Cons x b')
  have c: "cstr (m(p + of_nat (length a) := 0)) p a"
    "cstr (m(p + of_nat (length a) := 0)) (p + of_nat (length a) + 1) b'"
    using cstr_cut [of m p a x b'] assms(4,8) Cons by simp_all
  then have "(m(p + of_nat (length a) := 0)) (p + of_nat (length a) + 1) = 0 \<longleftrightarrow> b' = []"
    by (cases b') auto
  moreover obtain q where q: "q = p + of_nat (length a) + 1" "q = p + of_nat (Suc (length a))" by simp
  ultimately show ?thesis using strsep_loop_cstr [OF assms(1-6)] assms(2,7) Cons c
    unfolding q(2) [symmetric] q(1) [symmetric] by (simp add: strsep_def)
qed

section \<open>Copying\<close>

lemma copy_up_other: "(\<forall>i < n. a \<noteq> dst + of_nat i) \<Longrightarrow> copy_up m dst src n a = m a"
proof (induction n arbitrary: m dst src)
  case (Suc n)
  have "a \<noteq> dst + 1 + of_nat i" if "i < n" for i
    using Suc.prems that by (auto dest: spec [of _ "Suc i"] simp: ac_simps)
  then show ?case using Suc.IH [of "dst + 1"] Suc.prems by (auto dest: spec [of _ 0])
qed simp

lemma copy_up_copies:
  assumes "\<forall>i j. i < j \<and> j < n \<longrightarrow> dst + of_nat i \<noteq> src + of_nat j" "n < 2 ^ 32" "k < n"
  shows "copy_up m dst src n (dst + of_nat k) = m (src + of_nat k)"
  using assms
proof (induction n arbitrary: m dst src k)
  case (Suc n)
  show ?case
  proof (cases k)
    case 0
    have "dst \<noteq> dst + 1 + of_nat i" if "i < n" for i
      using off_neq0 [of "Suc i" dst] that Suc.prems(2) by (simp add: ac_simps)
    then show ?thesis using 0 by (simp add: copy_up_other)
  next
    case (Suc k')
    have "\<forall>i j. i < j \<and> j < n \<longrightarrow> dst + 1 + of_nat i \<noteq> src + 1 + of_nat j"
      using Suc.prems(1) by (auto dest!: spec [of _ "Suc _"] simp: ac_simps)
    moreover have "dst \<noteq> src + of_nat k" using Suc.prems(1) [rule_format, of 0 k] Suc.prems(3) Suc by simp
    moreover have e: "dst + of_nat k = dst + 1 + of_nat k'" "src + of_nat k = src + 1 + of_nat k'"
      using Suc by simp_all
    ultimately show ?thesis
      using Suc.IH [of "dst + 1" "src + 1" k'] Suc.prems(2,3) Suc unfolding e copy_up.simps by simp
  qed
qed simp

lemma copy_down_other: "(\<forall>i < n. a \<noteq> dst - of_nat i) \<Longrightarrow> copy_down m dst src n a = m a"
proof (induction n arbitrary: m dst src)
  case (Suc n)
  have "a \<noteq> dst - 1 - of_nat i" if "i < n" for i
    using Suc.prems that by (auto dest: spec [of _ "Suc i"] simp: algebra_simps)
  then show ?case using Suc.IH [of "dst - 1"] Suc.prems by (auto dest: spec [of _ 0])
qed simp

lemma copy_down_copies:
  assumes "\<forall>i j. i < j \<and> j < n \<longrightarrow> dst - of_nat i \<noteq> src - of_nat j" "n < 2 ^ 32" "k < n"
  shows "copy_down m dst src n (dst - of_nat k) = m (src - of_nat k)"
  using assms
proof (induction n arbitrary: m dst src k)
  case (Suc n)
  show ?case
  proof (cases k)
    case 0
    have "dst \<noteq> dst - 1 - of_nat i" if "i < n" for i
      using off_neq0 [of "Suc i" "dst - 1 - of_nat i"] that Suc.prems(2) by (simp add: algebra_simps)
    then show ?thesis using 0 by (simp add: copy_down_other)
  next
    case (Suc k')
    have "\<forall>i j. i < j \<and> j < n \<longrightarrow> dst - 1 - of_nat i \<noteq> src - 1 - of_nat j"
      using Suc.prems(1) by (auto dest!: spec [of _ "Suc _"] simp: algebra_simps)
    moreover have "dst \<noteq> src - of_nat k" using Suc.prems(1) [rule_format, of 0 k] Suc.prems(3) Suc by simp
    moreover have e: "dst - of_nat k = dst - 1 - of_nat k'" "src - of_nat k = src - 1 - of_nat k'"
      using Suc by simp_all
    ultimately show ?thesis
      using Suc.IH [of "dst - 1" "src - 1" k'] Suc.prems(2,3) Suc unfolding e copy_down.simps by simp
  qed
qed simp

lemma memset_fills:
  "n < 2 ^ 32 \<Longrightarrow> memset m b c n = (b + of_nat n, \<lambda>a. if \<exists>i < n. a = b + of_nat i then c else m a)"
proof (induction n arbitrary: m b)
  case (Suc n)
  have "(\<exists>i < Suc n. a = b + of_nat i) \<longleftrightarrow> a = b \<or> (\<exists>i < n. a = b + 1 + of_nat i)" for a
    by (simp add: Ex_less_Suc2 ac_simps)
  then show ?case using Suc by (auto simp: fun_eq_iff add.assoc)
qed simp

lemma memcmp_compares_down:
  "memcmp m s1 s2 n = 0 \<longleftrightarrow> (\<forall>i < n. m (s1 - of_nat i) = m (s2 - of_nat i))"
  by (induction n arbitrary: s1 s2) (auto simp: less_Suc_eq_0_disj algebra_simps)

section \<open>Numbers in strings\<close>

text \<open>The value of a sequence of digits, most significant first.\<close>

definition horner :: "nat \<Rightarrow> nat list \<Rightarrow> nat \<Rightarrow> nat" where
  "horner base ds n = foldl (\<lambda>n d. n * base + d) n ds"

lemma horner_simps [simp]:
  "horner base [] n = n" "horner base (d # ds) n = horner base ds (n * base + d)"
  "horner base (ds @ es) n = horner base es (horner base ds n)"
  by (simp_all add: horner_def)

lemma strtol_loop_digits:
  assumes "\<forall>i < length ds. digit_val (m (c + of_nat i)) = Some (ds ! i) \<and> ds ! i \<le> base \<and> m (c + of_nat i) \<noteq> 0"
    and "m (c + of_nat (length ds)) = 0 \<or> digit_val (m (c + of_nat (length ds))) = None"
  shows "strtol_loop m base c (of_nat n) =
     Some (c + of_nat (length ds), of_nat (horner (unat base) (map unat ds) n))"
  using assms
proof (induction ds arbitrary: c n)
  case Nil
  then show ?case by (subst strtol_loop.simps) auto
next
  case (Cons d ds)
  have d: "digit_val (m c) = Some d" "d \<le> base" "m c \<noteq> 0" using Cons.prems(1) [rule_format, of 0] by simp_all
  have "\<forall>i < length ds. digit_val (m (c + 1 + of_nat i)) = Some (ds ! i) \<and> ds ! i \<le> base \<and> m (c + 1 + of_nat i) \<noteq> 0"
    using Cons.prems(1) [rule_format, of "Suc _"] by (simp add: ac_simps)
  then have "strtol_loop m base (c + 1) (of_nat (n * unat base + unat d)) =
      Some (c + 1 + of_nat (length ds), of_nat (horner (unat base) (map unat ds) (n * unat base + unat d)))"
    using Cons.prems(2) by (intro Cons.IH) (simp_all add: ac_simps)
  moreover have "of_nat n * ucast base + ucast d = (of_nat (n * unat base + unat d) :: u32)"
    by simp
  ultimately show ?case using d by (subst strtol_loop.simps) (simp add: ac_simps leD)
qed

section \<open>Lines\<close>

definition plain :: "u8 \<Rightarrow> bool" where
  "plain c = (c \<notin> {0, 0x0D, 0x0A, 0x7F, 0x08, 0x03, 0x1B})"

fun store_bytes :: "cmem \<Rightarrow> u32 \<Rightarrow> u8 list \<Rightarrow> cmem" where
  "store_bytes m p [] = m"
| "store_bytes m p (c # s) = store_bytes (m(p := c)) (p + 1) s"

lemma store_bytes_other: "(\<forall>i < length s. a \<noteq> p + of_nat i) \<Longrightarrow> store_bytes m p s a = m a"
proof (induction s arbitrary: m p)
  case (Cons c s)
  have "a \<noteq> p + 1 + of_nat i" if "i < length s" for i
    using Cons.prems [rule_format, of "Suc i"] that by (simp add: ac_simps)
  then show ?case using Cons.IH [of "p + 1"] Cons.prems [rule_format, of 0] by simp
qed simp

lemma store_bytes_nth: "i < length s \<Longrightarrow> length s < 2 ^ 32 \<Longrightarrow> store_bytes m p s (p + of_nat i) = s ! i"
proof (induction s arbitrary: m p i)
  case (Cons c s)
  show ?case
  proof (cases i)
    case 0
    have "p \<noteq> p + 1 + of_nat j" if "j < length s" for j
      using off_neq0 [of "Suc j" p] that Cons.prems(2) by (simp add: ac_simps)
    then show ?thesis using 0 by (simp add: store_bytes_other)
  next
    case (Suc j)
    then have "p + of_nat i = p + 1 + of_nat j" by simp
    then show ?thesis using Cons.IH [of j _ "p + 1"] Cons.prems Suc by (simp add: add.assoc)
  qed
qed simp

lemma readline_loop_plain:
  assumes "\<forall>c \<in> set s. plain c" "linput x = s @ rest" "unat i + length s < unat (len - 1) + 1"
  shows "readline_loop buffer len i x =
     readline_loop buffer len (i + of_nat (length s))
       (x\<lparr>linput := rest, lout := lout x @ s, lmem := store_bytes (lmem x) (buffer + i) s\<rparr>)"
  using assms
proof (induction s arbitrary: i x)
  case Nil
  then show ?case by (cases x) simp
next
  case (Cons c s)
  have i: "i < len - 1" using Cons.prems(3) by (simp add: word_less_nat_alt)
  then have i1: "unat (i + 1) = unat i + 1" 
    using unsigned_less [of "len - 1", where 'a = nat] by (simp add: word_less_nat_alt unat_word_ariths)
  let ?x = "x\<lparr>linput := s @ rest, lout := lout x @ [c], lmem := (lmem x)(buffer + i := c)\<rparr>"
  have "readline_loop buffer len i x = readline_loop buffer len (i + 1) ?x"
    using Cons.prems(1,2) i by (subst readline_loop.simps) (simp add: plain_def)
  also have "\<dots> = readline_loop buffer len (i + 1 + of_nat (length s))
      (?x\<lparr>linput := rest, lout := lout ?x @ s, lmem := store_bytes (lmem ?x) (buffer + (i + 1)) s\<rparr>)"
    using Cons.prems i1 by (intro Cons.IH) auto
  finally show ?case by (simp add: add.assoc)
qed

lemma readline_line:
  assumes "\<forall>c \<in> set s. plain c" "linput x = s @ 0x0A # rest" "length s + 2 < unat len"
  shows "readline buffer len x = Inr (sint (of_nat (length s + 1) :: u32),
     x\<lparr>linput := rest, lout := lout x @ s @ [0x0D, 0x0A],
       lmem := (store_bytes (lmem x) buffer s)
         (buffer + of_nat (length s) := 0, buffer + of_nat (length s + 2) := 0)\<rparr>)"
proof -
  have len: "unat (len - 1) = unat len - 1" using assms(3) by (simp add: unat_sub word_le_nat_alt)
  have l: "length s + 2 < 2 ^ 32" using assms(3) unsigned_less [of len, where 'a = nat] by simp
  then have "of_nat (length s) < len - 1" "of_nat (length s) + 1 + 1 < len"
    using assms(3) len unat_of_nat [of "length s + 2", where 'a = 32]
    by (simp_all add: word_less_nat_alt unat_of_nat)
  then show ?thesis
    using readline_loop_plain [OF assms(1,2), of 0 len buffer] assms(3) len
    by (simp add: readline_def readline_loop.simps [of buffer len "of_nat (length s)"] ac_simps)
qed

text \<open>A line that leaves fewer than three bytes of the buffer free is one too long.\<close>

lemma readline_long_line:
  assumes "\<forall>c \<in> set s. plain c" "linput x = s @ 0x0A # rest" "2 \<le> len" "unat len \<le> length s + 2"
  shows "readline buffer len x = Inl Out_Of_Bounds"
proof -
  have len: "unat (len - 1) = unat len - 1" "2 \<le> unat len" using assms(3) by (simp_all add: unat_sub word_le_nat_alt)
  have eq: "of_nat (unat len - 2) = len - 2" "of_nat (unat len - 1) = len - 1" using len(2) by (simp_all add: of_nat_diff)
  show ?thesis
  proof (cases "length s + 2 = unat len")
    case True
    then have i: "of_nat (length s) = len - 2" using eq(1) by (simp flip: True)
    have "len - 2 < len - 1" using assms(3) len
      by (simp add: word_less_nat_alt unat_sub word_le_nat_alt)
    then show ?thesis
      using readline_loop_plain [OF assms(1,2), of 0 len buffer] True len i
      by (simp add: readline_def readline_loop.simps [of buffer len "len - 2"])
  next
    case False
    let ?s = "take (unat len - 1) s" and ?r = "drop (unat len - 1) s @ 0x0A # rest"
    have l: "length ?s = unat len - 1" using False assms(4) by simp
    have p: "\<forall>c \<in> set ?s. plain c" using assms(1) by (auto dest: in_set_takeD)
    have inp: "linput x = ?s @ ?r" using assms(2) by simp
    show ?thesis
      using readline_loop_plain [OF p inp, of 0 len buffer] len l eq(2)
      by (simp add: readline_def readline_loop.simps [of buffer len "len - 1"])
  qed
qed

lemma unat_off: "unat p + i < 2 ^ 32 \<Longrightarrow> unat (p + of_nat i) = unat p + i" for p :: u32
  by (simp add: unat_word_ariths unat_of_nat)

lemma off_neq_less:
  fixes dst src :: u32
  assumes "dst < src" "unat src + n \<le> 2 ^ 32" "i < j" "j < n"
  shows "dst + of_nat i \<noteq> src + of_nat j"
proof
  assume "dst + of_nat i = src + of_nat j"
  then have "unat (dst + of_nat i) = unat (src + of_nat j)" by (rule arg_cong)
  with assms show False by (simp add: unat_off word_less_nat_alt)
qed

lemma memmove_up:
  assumes "dst < src" "unat src + n \<le> 2 ^ 32" "memmove m dst src n = (r, m')"
  shows "(\<forall>i < n. m' (dst + of_nat i) = m (src + of_nat i)) \<and> r = dst + of_nat n
     \<and> (\<forall>a. (\<forall>i < n. a \<noteq> dst + of_nat i) \<longrightarrow> m' a = m a)"
proof -
  have "0 < unat src" using assms(1) by (simp add: word_less_nat_alt)
  then have "n < 2 ^ 32" using assms(2) by simp
  moreover have "m' = copy_up m dst src n" "r = dst + of_nat n" using assms(1,3) by (simp_all add: memmove_def)
  moreover have "\<forall>i j. i < j \<and> j < n \<longrightarrow> dst + of_nat i \<noteq> src + of_nat j"
    using off_neq_less [OF assms(1,2)] by blast
  ultimately show ?thesis using copy_up_copies [of n dst src] copy_up_other by simp
qed

lemma memmove_down:
  assumes "src < dst" "unat dst + n < 2 ^ 32" "memmove m dst src n = (r, m')"
  shows "(\<forall>i. 1 \<le> i \<and> i \<le> n \<longrightarrow> m' (dst + of_nat i) = m (src + of_nat i)) \<and> r = dst
     \<and> (\<forall>a. (\<forall>i. 1 \<le> i \<and> i \<le> n \<longrightarrow> a \<noteq> dst + of_nat i) \<longrightarrow> m' a = m a)"
proof (intro conjI allI impI; (elim conjE)?)
  have m': "m' = copy_down m (dst + of_nat n) (src + of_nat n) n" and r: "r = dst"
    using assms(1,3) by (auto simp: memmove_def split: if_splits)
  show "r = dst" by (rule r)
  have e: "p + of_nat n - of_nat i = p + of_nat (n - i)" if "i \<le> n" for p :: u32 and i
    using that by (simp add: of_nat_diff)
  have ne: "dst + of_nat n - of_nat i \<noteq> src + of_nat n - of_nat j" if "i < j" "j < n" for i j
  proof
    assume "dst + of_nat n - of_nat i = src + of_nat n - of_nat j"
    then have "src + of_nat (n - j) = dst + of_nat (n - i)" using that e by simp
    then show False using off_neq_less [OF assms(1), of "n + 1" "n - j" "n - i"] assms(2) that by simp linarith
  qed
  fix i assume i: "1 \<le> i" "i \<le> n"
  have "m' (dst + of_nat n - of_nat (n - i)) = m (src + of_nat n - of_nat (n - i))"
    unfolding m' using ne assms(2) i by (intro copy_down_copies) auto
  then show "m' (dst + of_nat i) = m (src + of_nat i)" using i e [of "n - i"] by simp
next
  fix a assume a: "\<forall>i. 1 \<le> i \<and> i \<le> n \<longrightarrow> a \<noteq> dst + of_nat i"
  have "a \<noteq> dst + of_nat n - of_nat i" if "i < n" for i
    using a [rule_format, of "n - i"] that by (simp add: of_nat_diff add_diff_eq Suc_le_eq)
  then show "m' a = m a" using assms(1,3) by (auto simp: memmove_def copy_down_other split: if_splits)
qed

section \<open>Properties\<close>

text \<open>A memory with the strings \<open>ab,c\<close> and \<open>,\<close> for the examples.\<close>

definition demo_str :: cmem where
  "demo_str = store_bytes (store_bytes (\<lambda>_. 0) 0x100 [0x61, 0x62, 0x2C, 0x63]) 0x200 [0x2C]"

lemma demo_str_strings: "cstr demo_str 0x100 [0x61, 0x62, 0x2C, 0x63]" "cstr demo_str 0x200 [0x2C]"
  by (simp_all add: demo_str_def)

text \<open>
  \<open>strlen\<close>, \<open>strcmp\<close>, \<open>strncmp\<close> and \<open>strchr\<close> work as the C standard says on \<open>NUL\<close> terminated
  strings: \<open>strlen\<close> ends and counts the bytes before the terminator, \<open>strcmp\<close> is 0 exactly for
  equal strings and otherwise gives the sign of the lexicographic order by unsigned bytes (of the
  first \<open>n\<close> bytes for \<open>strncmp\<close>), and \<open>strchr\<close> ends and finds the first occurrence or returns \<open>NULL\<close>.
\<close>

theorem string_functions:
  assumes "cstr m p s" "cstr m q t" "length s < 2 ^ 32" "length t < 2 ^ 32"
  shows "strlen m p = Some (of_nat (length s))
     \<and> (strcmp m p q = 0 \<longleftrightarrow> s = t) \<and> (strcmp m p q = - 1 \<longleftrightarrow> ord_class.lexordp s t)
     \<and> (strcmp m p q = 1 \<longleftrightarrow> ord_class.lexordp t s)
     \<and> (strncmp m p q n = 0 \<longleftrightarrow> take n s = take n t)
     \<and> strchr m p (uint x) = Some (if x \<in> set s then p + of_nat (length (takeWhile (\<lambda>y. y \<noteq> x) s)) else 0)"
proof -
  have "str_order s t = 1 \<longleftrightarrow> ord_class.lexordp t s"
    using str_order_less [of t s] str_order_swap [of s t] by simp
  then show ?thesis
    using strcmp_cstr [OF assms] strncmp_cstr [OF assms(1,2)] strlen_cstr [OF assms(1)]
      strchr_char [OF assms(1), of x]
    by (auto simp: str_order_eq_0 str_order_less)
qed

theorem string_functions_witness: "strcmp demo_str 0x100 0x200 = 1 \<and> strchr demo_str 0x100 0x2C = Some 0x102"
  using string_functions [OF demo_str_strings, of 0 "0x2C"] by simp

text \<open>
  \<open>strsep\<close> splits a string at the first delimiter: when memory holds \<open>a\<close>, without delimiters,
  followed by the end or by a delimiter and the rest, \<open>strsep\<close> ends and returns the start of the
  string, which is now the string \<open>a\<close>; \<open>*stringp\<close> points to the rest, or is \<open>NULL\<close> when nothing is
  left, and no byte other than the delimiter changes.
\<close>

theorem strsep_splits:
  assumes "cstr m d ds" "d \<noteq> 0" "unat d + length ds < 2 ^ 32" "cstr m p (a @ b)" "set a \<inter> set ds = {}"
    and "b = [] \<or> hd b \<in> set ds" "p \<noteq> 0" "length a + length b < 2 ^ 32"
  shows "\<exists>sp m'. strsep m (Some p) d = Some (Inr (p, sp, m')) \<and> cstr m' p a
     \<and> (\<forall>q. q \<noteq> p + of_nat (length a) \<longrightarrow> m' q = m q)
     \<and> (if tl b = [] then sp = 0 else sp = p + of_nat (Suc (length a)) \<and> cstr m' sp (tl b))"
  by (rule strsep_cstr [OF assms])

theorem strsep_splits_witness:
  "\<exists>m'. strsep demo_str (Some 0x100) 0x200 = Some (Inr (0x100, 0x103, m')) \<and> cstr m' 0x100 [0x61, 0x62]
     \<and> cstr m' 0x103 [0x63]"
  using strsep_splits [OF demo_str_strings(2), of "0x100" "[0x61, 0x62]" "[0x2C, 0x63]"] demo_str_strings(1)
  by simp blast

text \<open>
  Copying: \<open>memcpy\<close> between disjoint blocks and \<open>memmove\<close> to a lower address, overlapping or not,
  copy exactly the \<open>n\<close> bytes. \<open>memmove\<close> to a higher address copies the \<open>n\<close> bytes after the first
  instead: the first byte is not copied and the byte behind the destination is overwritten.
  \<open>memset\<close> sets exactly \<open>n\<close> bytes, and returns the end of the block, as \<open>memmove\<close> does when copying down.
\<close>

theorem block_functions:
  assumes "n < 2 ^ 32"
  shows "((\<forall>i < n. \<forall>j < n. d + of_nat i \<noteq> s + of_nat j) \<longrightarrow>
       (\<forall>i < n. snd (memcpy m d s n) (d + of_nat i) = m (s + of_nat i)))
     \<and> (d < s \<and> unat s + n \<le> 2 ^ 32 \<longrightarrow>
       (\<forall>i < n. snd (memmove m d s n) (d + of_nat i) = m (s + of_nat i))
       \<and> (\<forall>a. (\<forall>i < n. a \<noteq> d + of_nat i) \<longrightarrow> snd (memmove m d s n) a = m a))
     \<and> (s < d \<and> unat d + n < 2 ^ 32 \<longrightarrow> snd (memmove m d s n) d = m d
       \<and> (\<forall>i. 1 \<le> i \<and> i \<le> n \<longrightarrow> snd (memmove m d s n) (d + of_nat i) = m (s + of_nat i)))
     \<and> memset m d c n = (d + of_nat n, \<lambda>a. if \<exists>i < n. a = d + of_nat i then c else m a)"
proof (intro conjI impI)
  show "memset m d c n = (d + of_nat n, \<lambda>a. if \<exists>i < n. a = d + of_nat i then c else m a)"
    by (rule memset_fills [OF assms])
next
  assume "\<forall>i < n. \<forall>j < n. d + of_nat i \<noteq> s + of_nat j"
  then show "\<forall>i < n. snd (memcpy m d s n) (d + of_nat i) = m (s + of_nat i)"
    using assms by (auto simp: memcpy_def intro!: copy_up_copies)
next
  assume "s < d \<and> unat d + n < 2 ^ 32"
  moreover have "d \<noteq> d + of_nat i" if "1 \<le> i" "i \<le> n" for i using off_neq0 [of i d] that assms by simp
  ultimately show "snd (memmove m d s n) d = m d"
    "\<forall>i. 1 \<le> i \<and> i \<le> n \<longrightarrow> snd (memmove m d s n) (d + of_nat i) = m (s + of_nat i)"
    using memmove_down [of s d n m] by (metis prod.collapse)+
qed (use memmove_up [of d s n m] in \<open>metis prod.collapse\<close>)+

theorem block_functions_witness:
  "snd (memmove demo_str 0x101 0x100 2) 0x101 = 0x62 \<and> snd (memmove demo_str 0x101 0x100 2) 0x103 = 0x2C"
proof -
  have "\<forall>i. 1 \<le> i \<and> i \<le> 2 \<longrightarrow> snd (memmove demo_str 0x101 0x100 2) (0x101 + of_nat i) = demo_str (0x100 + of_nat i)"
    "snd (memmove demo_str 0x101 0x100 2) 0x101 = demo_str 0x101"
    using block_functions [of 2 "0x101" "0x100" demo_str] by simp_all
  from this(1) [rule_format, of 2] this(2) show ?thesis using demo_str_strings(1) by simp
qed

text \<open>
  \<open>readline\<close> on a line of plain characters stores the line and a terminator and echoes it, but
  returns one more than the length, and writes a second 0 two bytes behind the end of the line:
  for a line of \<open>len - 2\<close> or more characters, for which the buffer has room, that is \<open>buffer[len]\<close>,
  outside the buffer.
\<close>

corollary readline_overruns:
  assumes "\<forall>c \<in> set s. plain c" "linput x = s @ 0x0A # rest" "2 \<le> len"
  shows "readline buffer len x = Inl Out_Of_Bounds \<longleftrightarrow> unat len \<le> length s + 2"
  using readline_line [OF assms(1,2), of len buffer] readline_long_line [OF assms, of buffer]
  by (metis linorder_not_less sum.distinct(1))

end
