(* ===== verification/Lib_Printf.thy ===== *)
theory Lib_Printf
  imports Core_String
begin

text \<open>
  Formatted output: \<^verbatim>\<open>src/lib/printf/printf.c\<close>.

  \<^item> \<open>write\<close> of the file is a parameter \<open>wr\<close>: it takes the bytes and the file, and returns the
    result (negative for an error) and the new file.
  \<^item> The format and the strings are read from memory; the variable arguments are the list of
    their 32 bit words, and fetching an argument that was not passed is an access out of bounds.
  \<^item> The buffer of \<open>print_number\<close> is the list of the characters written so far, at most 25;
    writing another one is out of bounds. \<open>val = -val\<close> wraps.
\<close>

section \<open>The code\<close>

definition numberDefinitions :: "u8 list" where
  "numberDefinitions = [0x30, 0x31, 0x32, 0x33, 0x34, 0x35, 0x36, 0x37, 0x38, 0x39,
     0x41, 0x42, 0x43, 0x44, 0x45, 0x46]"

abbreviation trueString :: "u8 list" where "trueString \<equiv> [0x74, 0x72, 0x75, 0x65]"
abbreviation falseString :: "u8 list" where "falseString \<equiv> [0x66, 0x61, 0x6C, 0x73, 0x65]"
abbreviation nullString :: "u8 list" where "nullString \<equiv> [0x28, 0x6E, 0x75, 0x6C, 0x6C, 0x29]"

function print_digits :: "u32 \<Rightarrow> u8 \<Rightarrow> u8 list \<Rightarrow> u8 list" where
  "print_digits number base buffer =
     (let remainder = number mod ucast base;
          number = number div ucast base;
          buffer = numberDefinitions ! unat remainder # buffer
      in if number > 0 \<and> length buffer < 25 then print_digits number base buffer else buffer)"
  by auto

termination
  by (relation "measure (\<lambda>(number, base, buffer). 25 - length buffer)") auto

function print_pad :: "nat \<Rightarrow> u8 \<Rightarrow> u8 list \<Rightarrow> fault + u8 list" where
  "print_pad minLength c buffer =
     (if length buffer < minLength
      then if length buffer \<ge> 25 then Inl Out_Of_Bounds else print_pad minLength c (c # buffer)
      else Inr buffer)"
  by auto

termination
  by (relation "measure (\<lambda>(minLength, c, buffer). minLength - length buffer)") auto

declare print_digits.simps [simp del] print_pad.simps [simp del]

definition print_number ::
    "(u8 list \<Rightarrow> 'f \<Rightarrow> int \<times> 'f) \<Rightarrow> 'f \<Rightarrow> u32 \<Rightarrow> u8 \<Rightarrow> u32 \<Rightarrow> bool \<Rightarrow> fault + (u32 \<times> 'f)" where
  "print_number wr f number base minLength useWhitespacePadding =
     (if base < 2 \<or> base > 16 then Inr (0, f)
      else case print_pad (unat minLength) (if useWhitespacePadding then 0x20 else 0x30)
                  (print_digits number base []) of
             Inl e \<Rightarrow> Inl e
           | Inr buffer \<Rightarrow> (let (res, f) = wr buffer f in Inr (of_int res, f)))"

text \<open>Writing with the early return on errors: whether to return, the length and the file.\<close>

definition emit ::
    "(u8 list \<Rightarrow> 'f \<Rightarrow> int \<times> 'f) \<Rightarrow> u8 list \<Rightarrow> u32 \<Rightarrow> 'f \<Rightarrow> bool \<times> u32 \<times> 'f" where
  "emit wr s len f =
     (let (res, f) = wr s f in if res < 0 then (True, len, f) else (False, len + of_int res, f))"

fun read_bytes :: "cmem \<Rightarrow> u32 \<Rightarrow> nat \<Rightarrow> u8 list" where
  "read_bytes m p 0 = []"
| "read_bytes m p (Suc n) = m p # read_bytes m (p + 1) n"

partial_function (option) read_length ::
    "cmem \<Rightarrow> u32 \<Rightarrow> u32 \<Rightarrow> bool \<Rightarrow> (u32 \<times> u32 \<times> bool) option" where
  "read_length m format minLength useWhitespacePadding =
     (if isdigit (uint (m format))
      then if minLength = 0 \<and> m format = 0x30
           then read_length m (format + 1) minLength False
           else read_length m (format + 1) (minLength * 10 + (ucast (m format) - 0x30)) useWhitespacePadding
      else Some (format, minLength, useWhitespacePadding))"

partial_function (option) read_precision :: "cmem \<Rightarrow> u32 \<Rightarrow> i32 \<Rightarrow> (u32 \<times> i32) option" where
  "read_precision m format precision =
     (if isdigit (uint (m format))
      then read_precision m (format + 1) (precision * 10 + (ucast (m format) - 0x30))
      else Some (format, precision))"

text \<open>Length, precision and the size modifier: the position of the conversion character.\<close>

definition read_options :: "cmem \<Rightarrow> u32 \<Rightarrow> (u32 \<times> u32 \<times> bool) option" where
  "read_options m format =
     Option.bind (read_length m format 0 True) (\<lambda>(format, minLength, useWhitespacePadding).
       Option.bind (if m format = 0x2E then read_precision m (format + 1) 0 else Some (format, - 1))
         (\<lambda>(format, precision).
           Some (if m format = 0x6C then format + 1 else format, minLength, useWhitespacePadding)))"

text \<open>A number, with the characters in front of it.\<close>

definition convert_number ::
    "(u8 list \<Rightarrow> 'f \<Rightarrow> int \<times> 'f) \<Rightarrow> u8 list \<Rightarrow> u32 \<Rightarrow> u8 \<Rightarrow> u32 \<Rightarrow> bool \<Rightarrow> u32 list \<Rightarrow> u32 \<Rightarrow> 'f \<Rightarrow>
      fault + (bool \<times> u32 list \<times> u32 \<times> 'f)" where
  "convert_number wr prefix val base minLength useWhitespacePadding args len f =
     (let (ret, len, f) = (if prefix = [] then (False, len, f) else emit wr prefix len f) in
      if ret then Inr (True, args, len, f)
      else case print_number wr f val base minLength useWhitespacePadding of
             Inl e \<Rightarrow> Inl e
           | Inr (n, f) \<Rightarrow> Inr (False, args, len + n, f))"

text \<open>The \<open>switch\<close>: whether to return, the remaining arguments, the length and the file.\<close>

definition convert ::
    "(u8 list \<Rightarrow> 'f \<Rightarrow> int \<times> 'f) \<Rightarrow> cmem \<Rightarrow> u32 \<Rightarrow> u32 \<Rightarrow> u32 \<Rightarrow> bool \<Rightarrow> u32 list \<Rightarrow> u32 \<Rightarrow> 'f \<Rightarrow>
      (fault + (bool \<times> u32 list \<times> u32 \<times> 'f)) option" where
  "convert wr m fmt_start format minLength useWhitespacePadding args len f =
     (let c = m format;
          out = (\<lambda>s args. let (ret, len, f) = emit wr s len f in Inr (ret, args, len, f))
      in if c = 0x70
      then Some (let (ret, len, f) = emit wr [0x2A] len f in
                 if ret then Inr (True, args, len, f)
                 else case args of [] \<Rightarrow> Inl Out_Of_Bounds
                      | val # args \<Rightarrow> convert_number wr [] val 16 8 False args len f)
      else if c \<in> {0x58, 0x78, 0x64, 0x69, 0x75, 0x42, 0x73}
      then case args of
             [] \<Rightarrow> Some (Inl Out_Of_Bounds)
           | val # args \<Rightarrow>
               if c = 0x58 then Some (convert_number wr [] val 16 minLength useWhitespacePadding args len f)
               else if c = 0x78
               then Some (convert_number wr [0x30, 0x78] val 16 minLength useWhitespacePadding args len f)
               else if c = 0x64 \<or> c = 0x69
               then Some (if val <s 0
                          then convert_number wr [0x2D] (- val) 10 minLength useWhitespacePadding args len f
                          else convert_number wr [] val 10 minLength useWhitespacePadding args len f)
               else if c = 0x75
               then Some (convert_number wr [] val 10 minLength useWhitespacePadding args len f)
               else if c = 0x42 then Some (out (if val \<noteq> 0 then trueString else falseString) args)
               else if val = 0 then Some (out nullString args)
               else map_option (\<lambda>l. out (read_bytes m val (unat l)) args) (strlen m val)
      else Some (out (read_bytes m fmt_start (unat (format - fmt_start))) args))"

partial_function (option) vfprintf_loop ::
    "(u8 list \<Rightarrow> 'f \<Rightarrow> int \<times> 'f) \<Rightarrow> cmem \<Rightarrow> u32 \<Rightarrow> u32 list \<Rightarrow> u32 \<Rightarrow> 'f \<Rightarrow> (fault + (u32 \<times> 'f)) option" where
  "vfprintf_loop wr m format args len f =
     (if m format \<noteq> 0
      then if m format = 0x25 \<and> m (format + 1) \<noteq> 0x25
           then Option.bind (read_options m (format + 1)) (\<lambda>(format', minLength, useWhitespacePadding).
                  Option.bind (convert wr m format format' minLength useWhitespacePadding args len f) (\<lambda>r.
                    case r of
                      Inl e \<Rightarrow> Some (Inl e)
                    | Inr (ret, args, len, f) \<Rightarrow>
                        if ret then Some (Inr (len, f)) else vfprintf_loop wr m (format' + 1) args len f))
           else (let format = (if m format = 0x25 then format + 1 else format);
                     (ret, len, f) = emit wr [m format] len f
                 in if ret then Some (Inr (len, f)) else vfprintf_loop wr m (format + 1) args len f)
      else Some (Inr (len, f)))"

definition vfprintf ::
    "(u8 list \<Rightarrow> 'f \<Rightarrow> int \<times> 'f) \<Rightarrow> cmem \<Rightarrow> 'f \<Rightarrow> u32 \<Rightarrow> u32 list \<Rightarrow> (fault + (u32 \<times> 'f)) option" where
  "vfprintf wr m f format args =
     (if format = 0 then Some (Inl Assert_Failed) else vfprintf_loop wr m format args 0 f)"

section \<open>Reference: digits of a number\<close>

function num_digits :: "nat \<Rightarrow> nat \<Rightarrow> nat list" where
  "num_digits b n = (if b < 2 \<or> n < b then [n] else num_digits b (n div b) @ [n mod b])"
  by auto

termination
  by (relation "measure snd") auto

declare num_digits.simps [simp del]

lemma horner_num_digits: "2 \<le> b \<Longrightarrow> horner b (num_digits b n) 0 = n"
proof (induction n rule: less_induct)
  case (less n)
  then show ?case using less.IH [of "n div b"] by (subst num_digits.simps) simp
qed

lemma num_digits_less: "2 \<le> b \<Longrightarrow> d \<in> set (num_digits b n) \<Longrightarrow> d < b"
proof (induction n rule: less_induct)
  case (less n)
  show ?case
  proof (cases "n < b")
    case True
    then show ?thesis using less.prems by (simp add: num_digits.simps [of b n])
  next
    case False
    then have "d \<in> set (num_digits b (n div b)) \<or> d = n mod b"
      using less.prems by (auto simp: num_digits.simps [of b n])
    then show ?thesis using less.IH [of "n div b"] less.prems(1) False by auto
  qed
qed

lemma num_digits_length: "2 \<le> b \<Longrightarrow> n < b ^ Suc k \<Longrightarrow> length (num_digits b n) \<le> Suc k"
proof (induction k arbitrary: n)
  case (Suc k)
  show ?case
  proof (cases "n < b")
    case False
    have "n div b < b ^ Suc k" using Suc.prems by (simp add: less_mult_imp_div_less mult.commute)
    then show ?thesis using Suc.IH Suc.prems(1) False by (simp add: num_digits.simps [of b n])
  qed (simp add: num_digits.simps)
qed (simp add: num_digits.simps)

definition digit_chars :: "nat list \<Rightarrow> u8 list" where
  "digit_chars ds = map ((!) numberDefinitions) ds"

lemma unat_ucast_8_32: "unat (ucast (b :: u8) :: u32) = unat b"
  using unsigned_less [of b, where 'a = nat] by (simp add: unsigned_ucast_eq take_bit_nat_eq_self)

lemma print_digits_ref:
  assumes "2 \<le> unat b" "length (num_digits (unat b) (unat n)) + length buf \<le> 25"
  shows "print_digits n b buf = digit_chars (num_digits (unat b) (unat n)) @ buf"
  using assms(2)
proof (induction "unat n" arbitrary: n buf rule: less_induct)
  case less
  have b: "unat (ucast b :: u32) = unat b" by (rule unat_ucast_8_32)
  have u: "unat (n mod ucast b) = unat n mod unat b" "unat (n div ucast b) = unat n div unat b"
    by (simp_all only: unat_mod unat_div b)
  show ?case
  proof (cases "unat n < unat b")
    case True
    then have "\<not> n div ucast b > 0" by (simp add: word_less_nat_alt u)
    then show ?thesis using True assms(1)
      by (simp add: print_digits.simps [of n] num_digits.simps [of _ "unat n"] digit_chars_def Let_def u)
  next
    case False
    then have pos: "n div ucast b > 0" using assms(1) by (simp add: word_less_nat_alt u div_greater_zero_iff)
    have nd: "num_digits (unat b) (unat n) = num_digits (unat b) (unat n div unat b) @ [unat n mod unat b]"
      using False assms(1) by (subst num_digits.simps) simp
    have "num_digits (unat b) (unat n div unat b) \<noteq> []" by (subst num_digits.simps) simp
    then have len: "Suc (length buf) < 25" using less.prems nd by (cases "num_digits (unat b) (unat n div unat b)") auto
    have "unat (n div ucast b) < unat n" using False assms(1) by (simp add: u)
    then show ?thesis using less.hyps [of "n div ucast b"] less.prems pos len nd
      by (simp add: print_digits.simps [of n] Let_def u digit_chars_def)
  qed
qed

lemma print_pad_ref:
  "length buf \<le> 25 \<Longrightarrow> n \<le> 25 \<Longrightarrow> print_pad n c buf = Inr (replicate (n - length buf) c @ buf)"
proof (induction "n - length buf" arbitrary: buf)
  case (Suc k)
  then have "print_pad n c (c # buf) = Inr (replicate (n - Suc (length buf)) c @ c # buf)"
    using Suc.hyps(1) [of "c # buf"] by simp
  moreover have "n - length buf = Suc (n - Suc (length buf))" using Suc.hyps(2) by simp
  ultimately show ?case using Suc.hyps(2) Suc.prems
    by (subst print_pad.simps) (simp add: replicate_append_same [symmetric])
qed (subst print_pad.simps, simp)

lemma print_pad_overflow: "length buf \<le> 25 \<Longrightarrow> 25 < n \<Longrightarrow> print_pad n c buf = Inl Out_Of_Bounds"
proof (induction "25 - length buf" arbitrary: buf)
  case (Suc k)
  then show ?case using Suc.hyps(1) [of "c # buf"] by (subst print_pad.simps) simp
qed (subst print_pad.simps, simp)

definition pad_left :: "nat \<Rightarrow> u8 \<Rightarrow> u8 list \<Rightarrow> u8 list" where
  "pad_left n c s = replicate (n - length s) c @ s"

definition number_text :: "nat \<Rightarrow> nat \<Rightarrow> bool \<Rightarrow> u32 \<Rightarrow> u8 list" where
  "number_text base width ws v = pad_left width (if ws then 0x20 else 0x30) (digit_chars (num_digits base (unat v)))"

lemma digits_fit: "3 \<le> b \<Longrightarrow> length (num_digits b (unat (v :: u32))) \<le> 25"
proof -
  assume b: "3 \<le> b"
  have "unat v < 2 ^ 32" using unsigned_less [of v, where 'a = nat] by simp
  also have "(2 ^ 32 :: nat) \<le> 3 ^ Suc 24" by simp
  also have "\<dots> \<le> b ^ Suc 24" using b by (rule power_mono) simp
  finally have "unat v < b ^ Suc 24" .
  then have "length (num_digits b (unat v)) \<le> Suc 24" using b by (intro num_digits_length) auto
  then show ?thesis by simp
qed

lemma print_number_ref:
  assumes "3 \<le> unat base" "base \<le> 16" "unat w \<le> 25"
  shows "print_number wr f v base w ws =
     (let (res, f) = wr (number_text (unat base) (unat w) ws v) f in Inr (of_int res, f))"
proof -
  let ?d = "digit_chars (num_digits (unat base) (unat v))"
  have d: "print_digits v base [] = ?d" "length ?d \<le> 25"
    using print_digits_ref [of base v "[]"] digits_fit [OF assms(1), of v] assms(1) by (simp_all add: digit_chars_def)
  have "\<not> base < 2" using assms(1) by (simp add: word_less_nat_alt)
  then show ?thesis using assms(2) print_pad_ref [OF d(2) assms(3)] d(1)
    by (simp add: print_number_def number_text_def pad_left_def leD)
qed

lemma digit_val_chars: "list_all (\<lambda>d. digit_val (numberDefinitions ! d) = Some (of_nat d) \<and> numberDefinitions ! d \<noteq> 0) [0..<16]"
  by code_simp

lemma digit_val_char: "d < 16 \<Longrightarrow> digit_val (numberDefinitions ! d) = Some (of_nat d) \<and> numberDefinitions ! d \<noteq> 0"
  using digit_val_chars by (simp add: list_all_iff)

section \<open>Reading a printed number back\<close>

lemma horner_zeros: "horner b (replicate k 0 @ ds) 0 = horner b ds 0"
  by (induction k) simp_all

lemma strtol_digit_chars:
  assumes "cstr m p (digit_chars ds)" "\<forall>d \<in> set ds. d < unat base" "base \<le> 16" "base \<noteq> 0"
  shows "strtol m p base = Some (p + of_nat (length ds), of_nat (horner (unat base) ds 0))"
proof -
  have b16: "unat base \<le> 16" using assms(3) by (simp add: word_le_nat_alt)
  have u: "unat (of_nat d :: u8) = d" if "d \<in> set ds" for d
  proof -
    have "d < 256" using that b16 assms(2) by fastforce
    then show ?thesis by (simp add: unat_of_nat)
  qed
  have e: "m (p + of_nat (length (map of_nat ds :: u8 list))) = 0" using assms(1) by (simp add: cstr_nth digit_chars_def)
  have d: "\<forall>i < length (map of_nat ds :: u8 list). digit_val (m (p + of_nat i)) = Some (map of_nat ds ! i)
      \<and> map of_nat ds ! i \<le> base \<and> m (p + of_nat i) \<noteq> 0"
  proof (intro allI impI)
    fix i assume i: "i < length (map of_nat ds :: u8 list)"
    then have c: "m (p + of_nat i) = numberDefinitions ! (ds ! i)" using assms(1) by (simp add: cstr_nth digit_chars_def)
    have l: "ds ! i < unat base" using i assms(2) by simp
    then have l16: "ds ! i < 16" using b16 by simp
    have "(of_nat (ds ! i) :: u8) \<le> base" using u [of "ds ! i"] l i by (simp add: word_le_nat_alt)
    then show "digit_val (m (p + of_nat i)) = Some (map of_nat ds ! i)
      \<and> map of_nat ds ! i \<le> base \<and> m (p + of_nat i) \<noteq> 0"
      using c digit_val_char [OF l16] i by simp
  qed
  have "map unat (map of_nat ds :: u8 list) = ds" using u by (simp add: map_idI)
  then show ?thesis using strtol_loop_digits [OF d, of 0] e assms(4) by (simp add: strtol_def)
qed

lemma strtol_number_text:
  assumes "cstr m p (number_text (unat base) w False v)" "3 \<le> unat base" "base \<le> 16"
  shows "strtol m p base = Some (p + of_nat (length (number_text (unat base) w False v)), v)"
proof -
  let ?ds = "replicate (w - length (num_digits (unat base) (unat v))) 0 @ num_digits (unat base) (unat v)"
  have "number_text (unat base) w False v = digit_chars ?ds"
    by (simp add: number_text_def pad_left_def digit_chars_def numberDefinitions_def)
  moreover have "\<forall>d \<in> set ?ds. d < unat base" using num_digits_less [of "unat base"] assms(2) by auto
  moreover have "base \<noteq> 0" using assms(2) by auto
  moreover have "horner (unat base) ?ds 0 = unat v"
    using assms(2) by (simp only: horner_zeros) (simp add: horner_num_digits)
  ultimately show ?thesis using strtol_digit_chars [of m p ?ds base] assms(1,3)
    by (simp add: digit_chars_def)
qed

section \<open>Reference: rendering a format\<close>

text \<open>
  A format is a sequence of pieces: plain characters, \<open>%%\<close>, and conversions with an optional \<open>0\<close>,
  the digits of the length, an optional precision and an optional \<open>l\<close>.
\<close>

datatype conv = Conv_p | Conv_X | Conv_x | Conv_d | Conv_i | Conv_u | Conv_B | Conv_s

record options =
  opt_zero :: bool
  opt_length :: "nat list"
  opt_precision :: "nat list option"
  opt_long :: bool

datatype piece = Plain u8 | Percent | Conv options conv

fun conv_char :: "conv \<Rightarrow> u8" where
  "conv_char Conv_p = 0x70"
| "conv_char Conv_X = 0x58"
| "conv_char Conv_x = 0x78"
| "conv_char Conv_d = 0x64"
| "conv_char Conv_i = 0x69"
| "conv_char Conv_u = 0x75"
| "conv_char Conv_B = 0x42"
| "conv_char Conv_s = 0x73"

definition option_text :: "options \<Rightarrow> u8 list" where
  "option_text opts =
     (if opt_zero opts then [0x30] else []) @ digit_chars (opt_length opts)
     @ (case opt_precision opts of None \<Rightarrow> [] | Some ds \<Rightarrow> 0x2E # digit_chars ds)
     @ (if opt_long opts then [0x6C] else [])"

fun piece_text :: "piece \<Rightarrow> u8 list" where
  "piece_text (Plain c) = [c]"
| "piece_text Percent = [0x25, 0x25]"
| "piece_text (Conv opts c) = 0x25 # option_text opts @ [conv_char c]"

definition width :: "options \<Rightarrow> nat" where
  "width opts = horner 10 (opt_length opts) 0"

fun piece_ok :: "piece \<Rightarrow> bool" where
  "piece_ok (Plain c) = (c \<noteq> 0 \<and> c \<noteq> 0x25)"
| "piece_ok Percent = True"
| "piece_ok (Conv opts c) =
     ((\<forall>d \<in> set (opt_length opts). d < 10) \<and> (opt_length opts \<noteq> [] \<longrightarrow> hd (opt_length opts) \<noteq> 0)
      \<and> (case opt_precision opts of None \<Rightarrow> True | Some ds \<Rightarrow> \<forall>d \<in> set ds. d < 10)
      \<and> width opts \<le> 25)"

fun render_conv :: "cmem \<Rightarrow> options \<Rightarrow> conv \<Rightarrow> u32 \<Rightarrow> u8 list option" where
  "render_conv m opts Conv_p v = Some (0x2A # number_text 16 8 False v)"
| "render_conv m opts Conv_X v = Some (number_text 16 (width opts) (\<not> opt_zero opts) v)"
| "render_conv m opts Conv_x v = Some (0x30 # 0x78 # number_text 16 (width opts) (\<not> opt_zero opts) v)"
| "render_conv m opts Conv_u v = Some (number_text 10 (width opts) (\<not> opt_zero opts) v)"
| "render_conv m opts Conv_B v = Some (if v \<noteq> 0 then trueString else falseString)"
| "render_conv m opts Conv_s v =
     (if v = 0 then Some nullString else map_option (\<lambda>l. read_bytes m v (unat l)) (strlen m v))"
| "render_conv m opts c v =
     Some (if sint v < 0 then 0x2D # number_text 10 (width opts) (\<not> opt_zero opts) (- v)
           else number_text 10 (width opts) (\<not> opt_zero opts) v)"

fun render :: "cmem \<Rightarrow> piece list \<Rightarrow> u32 list \<Rightarrow> u8 list option" where
  "render m [] args = Some []"
| "render m (Plain c # ps) args = map_option (Cons c) (render m ps args)"
| "render m (Percent # ps) args = map_option (Cons 0x25) (render m ps args)"
| "render m (Conv opts c # ps) [] = None"
| "render m (Conv opts c # ps) (v # args) =
     Option.bind (render_conv m opts c v) (\<lambda>s. map_option ((@) s) (render m ps args))"

section \<open>Reading the options\<close>

fun has :: "cmem \<Rightarrow> u32 \<Rightarrow> u8 list \<Rightarrow> bool" where
  "has m p [] = True"
| "has m p (c # s) = (m p = c \<and> has m (p + 1) s)"

lemma has_append: "has m p (a @ b) \<longleftrightarrow> has m p a \<and> has m (p + of_nat (length a)) b"
  by (induction a arbitrary: p) (auto simp: ac_simps)

lemma cstr_has: "cstr m p (a @ b) \<longleftrightarrow> has m p a \<and> 0 \<notin> set a \<and> cstr m (p + of_nat (length a)) b"
  by (induction a arbitrary: p) (auto simp: ac_simps)

lemma digit_char_digits: "list_all (\<lambda>d. isdigit (uint (numberDefinitions ! d))
    \<and> (ucast (numberDefinitions ! d) - 0x30 :: u32) = of_nat d \<and> (numberDefinitions ! d = 0x30 \<longleftrightarrow> d = 0)) [0..<10]"
  by code_simp

lemma digit_char_digit:
  assumes "d < 10"
  shows "isdigit (uint (numberDefinitions ! d))" "(ucast (numberDefinitions ! d) - 0x30 :: u32) = of_nat d"
    "numberDefinitions ! d = 0x30 \<longleftrightarrow> d = 0"
  using digit_char_digits assms by (simp_all add: list_all_iff)

lemma horner_ge: "1 \<le> b \<Longrightarrow> n \<le> horner b ds n"
proof (induction ds arbitrary: n)
  case (Cons d ds)
  have "n \<le> n * b + d" using Cons.prems by (simp add: trans_le_add1)
  also have "\<dots> \<le> horner b ds (n * b + d)" using Cons by blast
  finally show ?case by simp
qed simp

lemma read_length_digits:
  assumes "has m p (digit_chars ds)" "\<forall>d \<in> set ds. d < 10" "n \<noteq> 0 \<or> ds = [] \<or> hd ds \<noteq> 0"
    and "\<not> isdigit (uint (m (p + of_nat (length ds))))" "horner 10 ds n \<le> 25"
  shows "read_length m p (of_nat n) ws = Some (p + of_nat (length ds), of_nat (horner 10 ds n), ws)"
  using assms
proof (induction ds arbitrary: p n)
  case Nil
  then show ?case by (subst read_length.simps) simp
next
  case (Cons d ds)
  have "n * 10 + d \<le> horner 10 ds (n * 10 + d)" by (rule horner_ge) simp
  then have "n * 10 + d \<le> 25" using Cons.prems(5) by simp
  then have "(of_nat n :: u32) = 0 \<longleftrightarrow> n = 0" using word_of_nat_eq_0_iff [of n, where 'a = 32]
    by (auto dest: nat_dvd_not_less)
  moreover have "m p = numberDefinitions ! d" "d < 10" using Cons.prems(1,2) by (simp_all add: digit_chars_def)
  moreover have "read_length m (p + 1) (of_nat (n * 10 + d)) ws =
      Some (p + 1 + of_nat (length ds), of_nat (horner 10 ds (n * 10 + d)), ws)"
    using Cons.prems by (intro Cons.IH) (auto simp: digit_chars_def ac_simps)
  ultimately show ?case using Cons.prems(3) digit_char_digit [of d]
    by (subst read_length.simps) (auto simp: ac_simps)
qed

lemma read_precision_digits:
  assumes "has m p (digit_chars ds)" "\<forall>d \<in> set ds. d < 10" "\<not> isdigit (uint (m (p + of_nat (length ds))))"
  shows "\<exists>v. read_precision m p n = Some (p + of_nat (length ds), v)"
  using assms
proof (induction ds arbitrary: p n)
  case Nil
  then show ?case by (subst read_precision.simps) simp
next
  case (Cons d ds)
  have "m p = numberDefinitions ! d" "d < 10" using Cons.prems(1,2) by (simp_all add: digit_chars_def)
  moreover have "\<exists>v. read_precision m (p + 1) n' = Some (p + 1 + of_nat (length ds), v)" for n'
    using Cons.prems by (intro Cons.IH) (auto simp: digit_chars_def ac_simps)
  ultimately show ?case using digit_char_digit(1) [of d]
    by (subst read_precision.simps) (simp add: ac_simps)
qed

lemma conv_char_not_option: "\<not> isdigit (uint (conv_char c)) \<and> conv_char c \<noteq> 0x2E \<and> conv_char c \<noteq> 0x6C
    \<and> conv_char c \<noteq> 0x25 \<and> conv_char c \<noteq> 0"
  by (cases c) (simp_all add: isdigit_def)

text \<open>The part of the options behind the length, and what it does not start with.\<close>

definition tail_text :: "options \<Rightarrow> conv \<Rightarrow> u8 list" where
  "tail_text opts c = (case opt_precision opts of None \<Rightarrow> [] | Some ds \<Rightarrow> 0x2E # digit_chars ds)
     @ (if opt_long opts then [0x6C] else []) @ [conv_char c]"

lemma tail_text_hd: "has m p (tail_text opts c) \<Longrightarrow> \<not> isdigit (uint (m p))"
  using conv_char_not_option [of c]
  by (auto simp: tail_text_def isdigit_def split: option.splits if_splits)

lemma read_tail:
  assumes "has m p (tail_text opts c)" "case opt_precision opts of None \<Rightarrow> True | Some ds \<Rightarrow> \<forall>d \<in> set ds. d < 10"
  shows "\<exists>v q. (if m p = 0x2E then read_precision m (p + 1) 0 else Some (p, - 1)) = Some (q, v)
     \<and> (if m q = 0x6C then q + 1 else q) + 1 = p + of_nat (length (tail_text opts c))
     \<and> m (if m q = 0x6C then q + 1 else q) = conv_char c"
proof -
  have long: "(if m q = 0x6C then q + 1 else q) + 1 = q + of_nat (length (xs @ [conv_char c]))
     \<and> m (if m q = 0x6C then q + 1 else q) = conv_char c \<and> \<not> isdigit (uint (m q)) \<and> m q \<noteq> 0x2E"
    if "has m q (xs @ [conv_char c])" "xs = (if opt_long opts then [0x6C] else [])" for q xs
    using that conv_char_not_option [of c] by (auto simp: isdigit_def)
  show ?thesis
  proof (cases "opt_precision opts")
    case None
    then show ?thesis using assms(1) long [of p] by (auto simp: tail_text_def)
  next
    case (Some ds)
    let ?q = "p + 1 + of_nat (length ds)"
    have h: "m p = 0x2E" "has m (p + 1) (digit_chars ds)"
      "has m ?q ((if opt_long opts then [0x6C] else []) @ [conv_char c])"
      using assms(1) Some by (simp_all add: tail_text_def has_append digit_chars_def)
    obtain v where "read_precision m (p + 1) 0 = Some (?q, v)"
      using read_precision_digits [OF h(2)] long [OF h(3) refl] assms(2) Some by auto
    moreover have "?q + of_nat (length ((if opt_long opts then [0x6C] else []) @ [conv_char c])) =
        p + of_nat (length (tail_text opts c))"
      using Some by (simp add: tail_text_def digit_chars_def)
    ultimately show ?thesis using h(1) long [OF h(3) refl]
      by (intro exI [of _ v] exI [of _ ?q] conjI) (simp_all only: if_True simp_thms)
  qed
qed

lemma read_options_text:
  assumes "has m p (option_text opts @ [conv_char c])" "piece_ok (Conv opts c)"
  shows "\<exists>q. read_options m p = Some (q, of_nat (width opts), \<not> opt_zero opts) \<and> m q = conv_char c
     \<and> q + 1 = p + of_nat (length (option_text opts @ [conv_char c]))"
proof -
  let ?z = "if opt_zero opts then [0x30] else [] :: u8 list"
  let ?q = "p + of_nat (length ?z)"
  let ?r = "?q + of_nat (length (opt_length opts))"
  have tx: "option_text opts @ [conv_char c] = ?z @ digit_chars (opt_length opts) @ tail_text opts c"
    by (simp add: option_text_def tail_text_def)
  have h: "has m p ?z" "has m ?q (digit_chars (opt_length opts))" "has m ?r (tail_text opts c)"
    using assms(1) unfolding tx by (simp_all add: has_append digit_chars_def)
  have nd: "\<not> isdigit (uint (m ?r))" using tail_text_hd [OF h(3)] .
  have digs: "read_length m ?q (of_nat 0) ws = Some (?r, of_nat (width opts), ws)" for ws
    unfolding width_def using assms(2) h(2) nd by (intro read_length_digits) (auto simp: width_def)
  have len: "read_length m p 0 True = Some (?r, of_nat (width opts), \<not> opt_zero opts)"
  proof (cases "opt_zero opts")
    case True
    then have "read_length m p 0 True = read_length m (p + 1) 0 False"
      using h(1) by (subst read_length.simps) (simp add: isdigit_def)
    then show ?thesis using digs [of False] True by simp
  qed (use digs [of True] in simp)
  obtain v q where "(if m ?r = 0x2E then read_precision m (?r + 1) 0 else Some (?r, - 1)) = Some (q, v)"
    "(if m q = 0x6C then q + 1 else q) + 1 = ?r + of_nat (length (tail_text opts c))"
    "m (if m q = 0x6C then q + 1 else q) = conv_char c"
    using read_tail [OF h(3)] assms(2) by (auto simp del: of_nat_add)
  moreover have "?r + of_nat (length (tail_text opts c)) = p + of_nat (length (option_text opts @ [conv_char c]))"
    unfolding tx by (simp add: digit_chars_def)
  ultimately show ?thesis using len
    by (intro exI [of _ "if m q = 0x6C then q + 1 else q"]) (simp add: read_options_def)
qed

section \<open>Output\<close>

text \<open>A file that takes everything written to it: \<open>contents\<close> is what it has received.\<close>

definition accepts_all :: "(u8 list \<Rightarrow> 'f \<Rightarrow> int \<times> 'f) \<Rightarrow> ('f \<Rightarrow> u8 list) \<Rightarrow> bool" where
  "accepts_all wr contents \<longleftrightarrow>
     (\<forall>s f. fst (wr s f) = int (length s) \<and> contents (snd (wr s f)) = contents f @ s)"

lemma wr_accepts:
  "accepts_all wr contents \<Longrightarrow> \<exists>f'. wr s f = (int (length s), f') \<and> contents f' = contents f @ s"
  by (metis accepts_all_def prod.collapse)

lemma emit_accepts:
  assumes "accepts_all wr contents"
  shows "\<exists>f'. emit wr s len f = (False, len + of_nat (length s), f') \<and> contents f' = contents f @ s"
  using wr_accepts [OF assms, of s f] by (auto simp: emit_def)

lemma print_number_accepts:
  assumes "accepts_all wr contents" "3 \<le> unat base" "base \<le> 16" "unat w \<le> 25"
  shows "\<exists>f'. print_number wr f v base w ws =
       Inr (of_nat (length (number_text (unat base) (unat w) ws v)), f')
     \<and> contents f' = contents f @ number_text (unat base) (unat w) ws v"
  using print_number_ref [OF assms(2-4), of wr f v ws]
    wr_accepts [OF assms(1), of "number_text (unat base) (unat w) ws v" f] by auto

lemma convert_number_accepts:
  assumes "accepts_all wr contents" "base = 10 \<or> base = 16" "unat w \<le> 25"
  shows "\<exists>f'. convert_number wr prefix v base w ws args len f =
       Inr (False, args, len + of_nat (length (prefix @ number_text (unat base) (unat w) ws v)), f')
     \<and> contents f' = contents f @ prefix @ number_text (unat base) (unat w) ws v"
proof -
  obtain f1 where f1: "(if prefix = [] then (False, len, f) else emit wr prefix len f) =
      (False, len + of_nat (length prefix), f1)" "contents f1 = contents f @ prefix"
    using emit_accepts [OF assms(1), of prefix len f] by (cases "prefix = []") auto
  obtain f2 where "print_number wr f1 v base w ws =
       Inr (of_nat (length (number_text (unat base) (unat w) ws v)), f2)"
     "contents f2 = contents f1 @ number_text (unat base) (unat w) ws v"
    using print_number_accepts [OF assms(1) _ _ assms(3), of base f1 v ws] assms(2) by auto
  with f1 show ?thesis by (simp add: convert_number_def add.assoc)
qed

lemma convert_renders:
  assumes "accepts_all wr contents" "m p = conv_char c" "render_conv m opts c v = Some s" "width opts \<le> 25"
  shows "\<exists>f'. convert wr m st p (of_nat (width opts)) (\<not> opt_zero opts) (v # args) len f =
       Some (Inr (False, args, len + of_nat (length s), f')) \<and> contents f' = contents f @ s"
proof -
  have w: "unat (of_nat (width opts) :: u32) = width opts" using assms(4) by (simp add: unat_of_nat)
  note num = convert_number_accepts [OF assms(1), where w = "of_nat (width opts)"]
  note out = emit_accepts [OF assms(1), where len = len and f = f]
  have neg: "v <s 0 \<longleftrightarrow> sint v < 0" by (simp add: word_sless_alt)
  have plain: "\<exists>f'. (let (ret, len, f) = emit wr t len f in Inr (ret, args, len, f)) =
      (Inr (False, args, len + of_nat (length t), f') :: fault + _) \<and> contents f' = contents f @ t" for t
    using out [of t] by auto
  show ?thesis
  proof (cases c)
    case Conv_p
    obtain f1 where f1: "emit wr [0x2A] len f = (False, len + 1, f1)" "contents f1 = contents f @ [0x2A]"
      using out [of "[0x2A]"] by auto
    show ?thesis
      using convert_number_accepts [OF assms(1), of 16 8 "[]" v False args "len + 1" f1] f1 Conv_p assms(2,3)
      by (auto simp: convert_def add.assoc)
  next
    case Conv_X
    then show ?thesis using num [of 16 "[]" v "\<not> opt_zero opts" args len f] assms(2-) w by (auto simp: convert_def)
  next
    case Conv_x
    then show ?thesis using num [of 16 "[0x30, 0x78]" v "\<not> opt_zero opts" args len f] assms(2-) w
      by (auto simp: convert_def)
  next
    case Conv_d
    then show ?thesis using num [of 10 "[0x2D]" "- v" "\<not> opt_zero opts" args len f]
        num [of 10 "[]" v "\<not> opt_zero opts" args len f] assms(2-) w by (auto simp: convert_def neg)
  next
    case Conv_i
    then show ?thesis using num [of 10 "[0x2D]" "- v" "\<not> opt_zero opts" args len f]
        num [of 10 "[]" v "\<not> opt_zero opts" args len f] assms(2-) w by (auto simp: convert_def neg)
  next
    case Conv_u
    then show ?thesis using num [of 10 "[]" v "\<not> opt_zero opts" args len f] assms(2-) w by (auto simp: convert_def)
  next
    case Conv_B
    then show ?thesis using plain [of s] assms(2,3) by (auto simp: convert_def)
  next
    case Conv_s
    then show ?thesis using plain [of s] assms(2,3) by (auto simp: convert_def split: if_splits)
  qed
qed

lemma options_no_percent:
  assumes "piece_ok (Conv opts c)"
  shows "0x25 \<notin> set (option_text opts @ [conv_char c])"
proof -
  have "0x25 \<notin> set (digit_chars ds)" if "\<forall>d \<in> set ds. d < 10" for ds
    using that digit_char_digit(1) by (force simp: digit_chars_def isdigit_def)
  then show ?thesis using assms conv_char_not_option [of c]
    by (auto simp: option_text_def split: option.splits)
qed

lemma vfprintf_loop_renders:
  assumes "accepts_all wr contents" "list_all piece_ok ps" "cstr m p (concat (map piece_text ps))"
    and "render m ps args = Some out"
  shows "\<exists>f'. vfprintf_loop wr m p args len f = Some (Inr (len + of_nat (length out), f'))
     \<and> contents f' = contents f @ out"
  using assms(2-)
proof (induction ps args arbitrary: p len f out rule: render.induct)
  case (1 m args)
  then show ?case by (subst vfprintf_loop.simps) simp
next
  case (2 m c ps args)
  then obtain o1 where o1: "render m ps args = Some o1" "out = c # o1" by auto
  obtain f1 where f1: "emit wr [c] len f = (False, len + 1, f1)" "contents f1 = contents f @ [c]"
    using emit_accepts [OF assms(1), of "[c]" len f] by auto
  obtain f2 where "vfprintf_loop wr m (p + 1) args (len + 1) f1 = Some (Inr (len + 1 + of_nat (length o1), f2))"
    "contents f2 = contents f1 @ o1"
    using "2.IH" [of "p + 1" o1 "len + 1" f1] "2.prems" o1 by auto
  then show ?case using "2.prems" o1 f1 by (subst vfprintf_loop.simps) (simp add: add.assoc)
next
  case (3 m ps args)
  then obtain o1 where o1: "render m ps args = Some o1" "out = 0x25 # o1" by auto
  obtain f1 where f1: "emit wr [0x25] len f = (False, len + 1, f1)" "contents f1 = contents f @ [0x25]"
    using emit_accepts [OF assms(1), of "[0x25]" len f] by auto
  obtain f2 where "vfprintf_loop wr m (p + 1 + 1) args (len + 1) f1 = Some (Inr (len + 1 + of_nat (length o1), f2))"
    "contents f2 = contents f1 @ o1"
    using "3.IH" [of "p + 1 + 1" o1 "len + 1" f1] "3.prems" o1 by auto
  then show ?case using "3.prems" o1 f1 by (subst vfprintf_loop.simps) (simp add: add.assoc)
next
  case (4 m opts c ps)
  then show ?case by simp
next
  case (5 m opts c ps v args)
  then obtain s o1 where o1: "render_conv m opts c v = Some s" "render m ps args = Some o1" "out = s @ o1"
    by (auto simp: bind_eq_Some_conv)
  let ?t = "option_text opts @ [conv_char c]"
  have h: "m p = 0x25" "has m (p + 1) ?t" "cstr m (p + 1 + of_nat (length ?t)) (concat (map piece_text ps))"
    using "5.prems"(2) cstr_has [of m "p + 1" ?t] by simp_all
  obtain q where q: "read_options m (p + 1) = Some (q, of_nat (width opts), \<not> opt_zero opts)"
    "m q = conv_char c" "q + 1 = p + 1 + of_nat (length ?t)"
    using read_options_text [OF h(2)] "5.prems"(1) by auto
  obtain f1 where f1: "convert wr m p q (of_nat (width opts)) (\<not> opt_zero opts) (v # args) len f =
      Some (Inr (False, args, len + of_nat (length s), f1))" "contents f1 = contents f @ s"
    using convert_renders [OF assms(1) q(2) o1(1), of p args len f] "5.prems"(1) by auto
  obtain f2 where f2: "vfprintf_loop wr m (q + 1) args (len + of_nat (length s)) f1 =
      Some (Inr (len + of_nat (length s) + of_nat (length o1), f2))" "contents f2 = contents f1 @ o1"
    using "5.IH" [of s "q + 1" o1 "len + of_nat (length s)" f1] "5.prems"(1) o1 h(3) q(3) by auto
  have "m (p + 1) \<noteq> 0x25" using options_no_percent [of opts c] "5.prems"(1) h(2) by (cases ?t) auto
  then show ?case using h(1) q(1) f1 f2 o1(3) by (subst vfprintf_loop.simps) (simp add: add.assoc)
qed

lemma print_number_overflow:
  assumes "3 \<le> unat base" "base \<le> 16" "25 < unat w"
  shows "print_number wr f v base w ws = Inl Out_Of_Bounds"
proof -
  let ?d = "digit_chars (num_digits (unat base) (unat v))"
  have d: "print_digits v base [] = ?d" "length ?d \<le> 25"
    using print_digits_ref [of base v "[]"] digits_fit [OF assms(1), of v] assms(1) by (simp_all add: digit_chars_def)
  have "\<not> base < 2" using assms(1) by (simp add: word_less_nat_alt)
  then show ?thesis using assms(2) print_pad_overflow [OF d(2) assms(3)] d(1)
    by (simp add: print_number_def leD)
qed

section \<open>Literal formats\<close>

definition lit :: "string \<Rightarrow> piece list" where
  "lit s = map (Plain \<circ> of_nat \<circ> of_char) s"

abbreviation pct :: "conv \<Rightarrow> piece" where
  "pct c \<equiv> Conv \<lparr>opt_zero = False, opt_length = [], opt_precision = None, opt_long = False\<rparr> c"

abbreviation crlf :: "piece list" where "crlf \<equiv> [Plain 0x0D, Plain 0x0A]"

definition string_at :: "cmem \<Rightarrow> u32 \<Rightarrow> u8 list \<Rightarrow> bool" where
  "string_at m p s \<longleftrightarrow> cstr m p s \<and> p \<noteq> 0 \<and> unat p + length s < 2 ^ 32"

definition chars :: "string \<Rightarrow> u8 list" where
  "chars s = map (of_nat \<circ> of_char) s"

lemma chars_simps [simp]: "chars [] = []" "length (chars s) = length s" "take n (chars s) = chars (take n s)"
  by (simp_all add: chars_def take_map)

lemma render_lit: "render m (lit s @ ps) args = map_option ((@) (chars s)) (render m ps args)"
  by (induction s) (simp_all add: lit_def chars_def option.map_comp comp_def option.map_ident)

lemma read_bytes_cstr: "cstr m p s \<Longrightarrow> read_bytes m p (length s) = s"
  by (induction s arbitrary: p) auto

lemma render_s:
  assumes "string_at m p s"
  shows "render m (pct Conv_s # ps) (p # args) = map_option ((@) s) (render m ps args)"
proof -
  have "unat (of_nat (length s) :: u32) = length s" using assms by (simp add: string_at_def unat_of_nat)
  then show ?thesis using assms strlen_cstr [of m p s] read_bytes_cstr [of m p s] by (simp add: string_at_def)
qed

section \<open>Properties\<close>

definition sink :: "u8 list \<Rightarrow> u8 list \<Rightarrow> int \<times> u8 list" where
  "sink s f = (int (length s), f @ s)"

lemma sink_accepts: "accepts_all sink id"
  by (simp add: accepts_all_def sink_def)

text \<open>
  C33. \<open>vfprintf\<close> renders its format: for every format made of plain characters, \<open>%%\<close> and the
  conversions \<open>p X x d i u B s\<close> with any combination of zero flag, length up to 25, precision and
  \<open>l\<close>, with an argument for each conversion, \<open>vfprintf\<close> ends, writes exactly the concatenation of
  the rendered pieces to a file that accepts everything, and returns the number of bytes written.
\<close>

theorem vfprintf_renders:
  assumes "accepts_all wr contents" "list_all piece_ok ps" "cstr m p (concat (map piece_text ps))"
    and "render m ps args = Some out" "p \<noteq> 0"
  shows "\<exists>f'. vfprintf wr m f p args = Some (Inr (of_nat (length out), f')) \<and> contents f' = contents f @ out"
  using vfprintf_loop_renders [OF assms(1-4), of 0 f] assms(5) by (simp add: vfprintf_def)

theorem vfprintf_renders_witness:
  "\<exists>f'. vfprintf sink (store_bytes (\<lambda>_. 0) 0x100 [0x74, 0x3D, 0x25, 0x30, 0x34, 0x64, 0x25, 0x25]) [] 0x100 [- 7]
     = Some (Inr (8, f')) \<and> f' = [0x74, 0x3D, 0x2D, 0x30, 0x30, 0x30, 0x37, 0x25]"
proof -
  let ?m = "store_bytes (\<lambda>_. 0) 0x100 [0x74, 0x3D, 0x25, 0x30, 0x34, 0x64, 0x25, 0x25]"
  let ?ps = "[Plain 0x74, Plain 0x3D, Conv \<lparr>opt_zero = True, opt_length = [4], opt_precision = None, opt_long = False\<rparr> Conv_d, Percent]"
  have "list_all piece_ok ?ps" by (simp add: width_def)
  moreover have "cstr ?m 0x100 (concat (map piece_text ?ps))"
    by (simp add: option_text_def digit_chars_def numberDefinitions_def)
  moreover have "render ?m ?ps [- 7] = Some [0x74, 0x3D, 0x2D, 0x30, 0x30, 0x30, 0x37, 0x25]"
    by (simp add: width_def number_text_def pad_left_def digit_chars_def numberDefinitions_def num_digits.simps numeral_3_eq_3)
  ultimately show ?thesis
    using vfprintf_renders [OF sink_accepts, of ?ps ?m "0x100" "[- 7]" _ "[]"] by simp
qed

text \<open>
  Numbers survive printing and parsing: \<open>print_number\<close> in a base from 3 to 16, padded with zeros
  to a length of at most 25, writes a text from which \<open>strtol\<close> in the same base, run on any memory
  that holds the text as a string, returns the number, and whose end it reports as the end pointer.
\<close>

theorem printed_number_parses:
  assumes "accepts_all wr contents" "3 \<le> unat base" "base \<le> 16" "unat w \<le> 25"
  shows "\<exists>f' s. print_number wr f v base w False = Inr (of_nat (length s), f') \<and> contents f' = contents f @ s
     \<and> unat w \<le> length s
     \<and> (\<forall>m p. cstr m p s \<longrightarrow> strtol m p base = Some (p + of_nat (length s), v)
          \<and> (base = 10 \<longrightarrow> atoi m p = Some v))"
proof -
  have "unat w \<le> length (number_text (unat base) (unat w) False v)" by (simp add: number_text_def pad_left_def)
  then show ?thesis
    using print_number_accepts [OF assms, of f v False] strtol_number_text [OF _ assms(2,3), of _ _ "unat w" v]
    by (auto simp: atoi_def)
qed

theorem printed_number_parses_witness:
  "\<exists>f' s. print_number sink [] 1234 10 6 False = Inr (of_nat (length s), f') \<and> f' = s
     \<and> (\<forall>m p. cstr m p s \<longrightarrow> atoi m p = Some 1234)"
  using printed_number_parses [OF sink_accepts, of 10 6 "[]" 1234] by auto

text \<open>
  The 25 byte buffer of \<open>print_number\<close>: in every base from 3 to 16 the digits of every number
  fit, and the buffer is overrun exactly when a length of more than 25 is asked for, whatever the
  number; a format such as \<open>%30d\<close> does so.
\<close>

theorem print_number_buffer:
  assumes "3 \<le> unat base" "base \<le> 16"
  shows "print_number wr f v base w ws = Inl Out_Of_Bounds \<longleftrightarrow> 25 < unat w"
  using print_number_overflow [OF assms, of w wr f v ws] print_number_ref [OF assms, of w wr f v ws]
  by (cases "25 < unat w") (auto split: prod.splits)

theorem print_number_buffer_witness:
  "print_number sink [] 5 10 26 True = Inl Out_Of_Bounds \<and> print_number sink [] 5 10 25 True \<noteq> Inl Out_Of_Bounds"
  using print_number_buffer [of 10 sink "[]" 5 26 True] print_number_buffer [of 10 sink "[]" 5 25 True] by simp

end
