(* ===== verification/Lib_Console.thy ===== *)
theory Lib_Console
  imports Lib_Printf
begin

text \<open>
  The console: \<^verbatim>\<open>src/lib/console/console.c\<close>.

  \<^item> \<open>console_parse_command\<close> runs twice, first to count the arguments and then to fill an array of
    that size; the array is the list of the argument pointers written so far, in order.
  \<^item> One iteration of the loop of \<open>console_main\<close> is a function on the memory, the input and the
    output of the console's file, with a \<open>fault\<close> where \<open>readline\<close> overruns the line buffer; the commands of the linker section are a list of name pointers
    with the functions they call, which may change the state.
  \<^item> \<open>fprintf\<close> with a constant format writes its text, as \<^verbatim>\<open>Lib_Printf\<close> shows.
\<close>

section \<open>Splitting a line into arguments\<close>

partial_function (option) skip_spaces :: "cmem \<Rightarrow> u32 \<Rightarrow> u32 option" where
  "skip_spaces m buf = (if m buf = 0x20 then skip_spaces m (buf + 1) else Some buf)"

partial_function (option) skip_word :: "cmem \<Rightarrow> u32 \<Rightarrow> u32 option" where
  "skip_word m buf = (if m buf \<noteq> 0 \<and> m buf \<noteq> 0x20 then skip_word m (buf + 1) else Some buf)"

partial_function (option) parse_loop ::
    "bool \<Rightarrow> cmem \<Rightarrow> u32 \<Rightarrow> u32 list \<Rightarrow> (u32 list \<times> cmem) option" where
  "parse_loop fill m buf args =
     (if m buf \<noteq> 0
      then Option.bind (skip_spaces m buf) (\<lambda>arg.
             if m arg = 0 then Some (args, m)
             else Option.bind (skip_word m arg) (\<lambda>buf.
                    if m buf = 0 then Some (args @ [arg], m)
                    else parse_loop fill (if fill then m(buf := 0) else m) (buf + 1) (args @ [arg])))
      else Some (args, m))"

text \<open>\<open>fill\<close> says whether \<open>_argv\<close> is given; the result has \<open>argc\<close>, the array and the memory.\<close>

definition console_parse_command ::
    "cmem \<Rightarrow> u32 \<Rightarrow> bool \<Rightarrow> (nat \<times> u32 list \<times> cmem) option" where
  "console_parse_command m buf fill =
     map_option (\<lambda>(args, m). (length args, if fill then args else [], m)) (parse_loop fill m buf [])"

section \<open>The console loop\<close>

record command =
  cmd_name :: u32
  cmd_func :: "u32 list \<Rightarrow> line \<Rightarrow> u32 \<times> line"

definition put :: "u8 list \<Rightarrow> line \<Rightarrow> line" where
  "put s x = x\<lparr>lout := lout x @ s\<rparr>"

definition error_reading :: "u8 list" where
  "error_reading = map (of_nat \<circ> of_char) ''error reading'' @ [0x0D, 0x0A]"

definition command_not_found :: "u8 list" where
  "command_not_found = map (of_nat \<circ> of_char) ''command not found'' @ [0x0D, 0x0A]"

definition command_exited :: "u32 \<Rightarrow> u8 list" where
  "command_exited ret = map (of_nat \<circ> of_char) ''command exited with ''
     @ (if ret <s 0 then 0x2D # number_text 10 0 True (- ret) else number_text 10 0 True ret) @ [0x0D, 0x0A]"

text \<open>
  One iteration of \<open>console_main\<close> with its buffer at \<open>buf\<close>: \<open>None\<close> if it does not end, \<open>Inl\<close> if
  \<open>readline\<close> writes past the buffer.
\<close>

definition console_iteration :: "command list \<Rightarrow> u32 \<Rightarrow> line \<Rightarrow> (fault + line) option" where
  "console_iteration cmds buf x =
     (case readline buf 60 (put [0x3E, 0x20] x) of
        Inl e \<Rightarrow> Some (Inl e)
      | Inr (len, x) \<Rightarrow>
      if len < 0 then Some (Inr (put error_reading x))
      else Option.bind (console_parse_command (lmem x) buf False) (\<lambda>(argc, _, m).
        if argc = 0 then Some (Inr (x\<lparr>lmem := m\<rparr>))
        else Option.bind (console_parse_command m buf True) (\<lambda>(argc, argv, m).
          let x = x\<lparr>lmem := m\<rparr> in
          case find (\<lambda>c. strcmp m (cmd_name c) (argv ! 0) = 0) cmds of
            None \<Rightarrow> Some (Inr (put command_not_found x))
          | Some c \<Rightarrow>
              let (ret, x) = cmd_func c argv x in
              Some (Inr (if ret \<noteq> 0 then put (command_exited ret) x else x)))))"

section \<open>Reference: the words of a line\<close>

function words :: "u8 list \<Rightarrow> u8 list list" where
  "words s =
     (let t = dropWhile (\<lambda>c. c = 0x20) s in
      if t = [] then [] else takeWhile (\<lambda>c. c \<noteq> 0x20) t # words (dropWhile (\<lambda>c. c \<noteq> 0x20) t))"
  by auto

termination
proof (relation "measure length")
  fix s t :: "u8 list"
  assume t: "t = dropWhile (\<lambda>c. c = 0x20) s" "t \<noteq> []"
  then have "hd t \<noteq> 0x20" using hd_dropWhile [of "\<lambda>c. c = 0x20" s] by simp
  then have "length (dropWhile (\<lambda>c. c \<noteq> 0x20) t) < length t"
    using t(2) by (cases t) (auto intro: le_imp_less_Suc length_dropWhile_le)
  also have "length t \<le> length s" unfolding t(1) by (rule length_dropWhile_le)
  finally show "(dropWhile (\<lambda>c. c \<noteq> 0x20) t, s) \<in> measure length" by simp
qed simp

declare words.simps [simp del]

lemma skip_spaces_cstr:
  "cstr m p s \<Longrightarrow> skip_spaces m p = Some (p + of_nat (length (takeWhile (\<lambda>c. c = 0x20) s)))"
proof (induction s arbitrary: p)
  case Nil
  then show ?case by (subst skip_spaces.simps) simp
next
  case (Cons c s)
  then show ?case using Cons.IH [of "p + 1"] by (subst skip_spaces.simps) (simp add: add.assoc)
qed

lemma skip_word_cstr:
  "cstr m p s \<Longrightarrow> skip_word m p = Some (p + of_nat (length (takeWhile (\<lambda>c. c \<noteq> 0x20) s)))"
  by (induction s arbitrary: p; subst skip_word.simps) (auto simp: ac_simps)

text \<open>A line without leading spaces: its first word and what follows the space behind it.\<close>

lemma words_Nil: "words [] = []"
  by (simp add: words.simps)

lemma words_spaces: "words (dropWhile (\<lambda>c. c = 0x20) s) = words s"
  by (subst (1 2) words.simps) (simp add: dropWhile_idem)

lemma words_split:
  assumes "a \<noteq> []" "0x20 \<notin> set a" "b = [] \<or> hd b = 0x20"
  shows "words (a @ b) = a # words (tl b)"
proof -
  have d: "dropWhile (\<lambda>c. c = 0x20) (a @ b) = a @ b" using assms by (cases a) auto
  have "takeWhile (\<lambda>c. c \<noteq> 0x20) (a @ b) = a" "dropWhile (\<lambda>c. c \<noteq> 0x20) (a @ b) = b"
    using assms by (cases b; auto simp: takeWhile_append dropWhile_append)+
  then have "words (a @ b) = a # words b" using d assms(1) by (subst words.simps) (simp add: Let_def)
  moreover have "words b = words (tl b)"
  proof (cases b)
    case (Cons c b')
    then have "dropWhile (\<lambda>c. c = 0x20) b = dropWhile (\<lambda>c. c = 0x20) (tl b)" using assms(3) by simp
    then show ?thesis using words_spaces [of b] words_spaces [of "tl b"] by simp
  qed (simp add: words_Nil)
  ultimately show ?thesis by simp
qed

section \<open>Parsing refines splitting into words\<close>

text \<open>What a run of \<open>parse_loop\<close> from a string yields.\<close>

definition parsed :: "bool \<Rightarrow> cmem \<Rightarrow> u32 \<Rightarrow> u8 list \<Rightarrow> u32 list \<Rightarrow> cmem \<Rightarrow> bool" where
  "parsed fill m p s argv m' \<longleftrightarrow> length argv = length (words s)
     \<and> (fill \<longrightarrow> (\<forall>i < length argv. cstr m' (argv ! i) (words s ! i)))
     \<and> (\<forall>q. (\<forall>i \<le> length s. q \<noteq> p + of_nat i) \<longrightarrow> m' q = m q) \<and> (\<not> fill \<longrightarrow> m' = m)"

lemma parsed_first:
  assumes "cstr m arg (a @ x # b)" "words s = a # words b" "arg = p + of_nat k" "length s = k + length a + Suc (length b)"
    and "length s < 2 ^ 32" "parsed fill (if fill then m(arg + of_nat (length a) := 0) else m) (arg + of_nat (length a) + 1) b argv m'"
  shows "parsed fill m p s (arg # argv) m'"
proof -
  let ?m1 = "if fill then m(arg + of_nat (length a) := 0) else m"
  have other: "m' q = ?m1 q" if "\<forall>i \<le> length b. q \<noteq> arg + of_nat (length a) + 1 + of_nat i" for q
    using assms(6) that by (simp add: parsed_def)
  have "cstr m' arg a" if fill
  proof -
    have "cstr ?m1 arg a" using cstr_cut [OF assms(1)] assms(4,5) that by simp
    moreover have "m' (arg + of_nat j) = ?m1 (arg + of_nat j)" if "j \<le> length a" for j
    proof (intro other allI impI)
      fix i assume "i \<le> length b"
      then have "arg + of_nat j \<noteq> arg + of_nat (length a + 1 + i)"
        using that assms(4,5) off_eq [of j "length a + 1 + i" arg] by simp
      then show "arg + of_nat j \<noteq> arg + of_nat (length a) + 1 + of_nat i" by (simp add: ac_simps)
    qed
    ultimately show ?thesis using cstr_cong [of a m' arg ?m1] by simp
  qed
  moreover have "m' q = m q" if q: "\<forall>i \<le> length s. q \<noteq> p + of_nat i" for q
  proof -
    have "q \<noteq> arg + of_nat (length a) + 1 + of_nat i" if "i \<le> length b" for i
      using q [rule_format, of "k + length a + 1 + i"] that assms(3,4) by (simp add: ac_simps)
    moreover have "q \<noteq> arg + of_nat (length a)" using q [rule_format, of "k + length a"] assms(3,4) by (simp add: ac_simps)
    ultimately show ?thesis using other [of q] by simp
  qed
  ultimately show ?thesis using assms(2,6) by (auto simp: parsed_def nth_Cons split: nat.splits)
qed

lemma line_cases:
  fixes s :: "u8 list"
  obtains sp a b where "s = sp @ a @ b" "\<forall>c \<in> set sp. c = 0x20" "0x20 \<notin> set a" "b = [] \<or> hd b = 0x20" "a = [] \<longrightarrow> b = []"
proof -
  let ?t = "dropWhile (\<lambda>c. c = 0x20) s"
  have "s = takeWhile (\<lambda>c. c = 0x20) s @ takeWhile (\<lambda>c. c \<noteq> 0x20) ?t @ dropWhile (\<lambda>c. c \<noteq> 0x20) ?t" by simp
  moreover have "\<forall>c \<in> set (takeWhile (\<lambda>c. c = 0x20) s). c = 0x20" "0x20 \<notin> set (takeWhile (\<lambda>c. c \<noteq> 0x20) ?t)"
    by (auto dest: set_takeWhileD)
  moreover have "dropWhile (\<lambda>c. c \<noteq> 0x20) ?t = [] \<or> hd (dropWhile (\<lambda>c. c \<noteq> 0x20) ?t) = 0x20"
    using hd_dropWhile [of "\<lambda>c. c \<noteq> 0x20" ?t] by blast
  moreover have "takeWhile (\<lambda>c. c \<noteq> 0x20) ?t = [] \<longrightarrow> dropWhile (\<lambda>c. c \<noteq> 0x20) ?t = []"
    using hd_dropWhile [of "\<lambda>c. c = 0x20" s] by (metis dropWhile.simps(1) takeWhile_eq_Nil_iff)
  ultimately show thesis by (rule that)
qed

lemma words_line:
  assumes "\<forall>c \<in> set sp. c = 0x20" "0x20 \<notin> set a" "b = [] \<or> hd b = 0x20" "a = [] \<longrightarrow> b = []"
  shows "words (sp @ a @ b) = (if a = [] then [] else a # words (tl b))"
proof -
  have "dropWhile (\<lambda>c. c = 0x20) (sp @ a @ b) = a @ b"
    using assms by (cases a) (auto simp: dropWhile_append)
  then have "words (sp @ a @ b) = words (a @ b)" using words_spaces [of "sp @ a @ b"] by simp
  then show ?thesis using words_split [of a b] assms by (cases "a = []") (simp_all add: words_Nil)
qed

lemma parse_loop_step:
  assumes "cstr m p (sp @ a @ b)" "\<forall>c \<in> set sp. c = 0x20" "0x20 \<notin> set a" "b = [] \<or> hd b = 0x20" "a = [] \<longrightarrow> b = []"
    and "arg = p + of_nat (length sp)" "buf = arg + of_nat (length a)"
  shows "parse_loop fill m p args =
     (if a = [] then Some (args, m)
      else if b = [] then Some (args @ [arg], m)
      else parse_loop fill (if fill then m(buf := 0) else m) (buf + 1) (args @ [arg]))"
proof -
  have ct: "cstr m arg (a @ b)" using assms(1,6) by (simp add: cstr_append)
  have cb: "cstr m buf b" using ct assms(7) by (simp add: cstr_append)
  have "takeWhile (\<lambda>c. c = 0x20) (sp @ a @ b) = sp" using assms(2-5) by (cases a) (auto simp: takeWhile_append)
  then have "skip_spaces m p = Some arg" using skip_spaces_cstr [OF assms(1)] assms(6) by simp
  moreover have "takeWhile (\<lambda>c. c \<noteq> 0x20) (a @ b) = a" using assms(3,4) by (cases b) (auto simp: takeWhile_append)
  then have "skip_word m arg = Some buf" using skip_word_cstr [OF ct] assms(7) by simp
  moreover have "m arg = 0 \<longleftrightarrow> a = []" using ct assms(5) by (cases a) auto
  moreover have "m buf = 0 \<longleftrightarrow> b = []" using cb by (cases b) auto
  moreover have "m p = 0 \<Longrightarrow> a = []" using assms(1) by (cases sp; cases a) auto
  ultimately show ?thesis by (subst parse_loop.simps) simp
qed

lemma parse_loop_words:
  "cstr m p s \<Longrightarrow> length s < 2 ^ 32 \<Longrightarrow>
     \<exists>argv m'. parse_loop fill m p args = Some (args @ argv, m') \<and> parsed fill m p s argv m'"
proof (induction "length s" arbitrary: m p s args rule: less_induct)
  case less
  obtain sp a b where l: "s = sp @ a @ b" "\<forall>c \<in> set sp. c = 0x20" "0x20 \<notin> set a" "b = [] \<or> hd b = 0x20" "a = [] \<longrightarrow> b = []"
    by (rule line_cases)
  obtain arg buf where ab: "arg = p + of_nat (length sp)" "buf = arg + of_nat (length a)" by blast
  note step = parse_loop_step [OF less.prems(1) [unfolded l(1)] l(2-5) ab, of fill args]
  note ws = words_line [OF l(2-5)]
  have ct: "cstr m arg (a @ b)" using less.prems(1) ab(1) l(1) by (simp add: cstr_append)
  show ?case
  proof (cases "b = []")
    case True
    then show ?thesis using step ws l(1) ct by (auto simp: parsed_def words_Nil)
  next
    case False
    then obtain x b' where b: "b = x # b'" by (cases b) auto
    let ?m1 = "if fill then m(buf := 0) else m"
    have c: "cstr m arg (a @ x # b')" using ct b by simp
    have len: "length s = length sp + length a + Suc (length b')" using l(1) b by simp
    have "cstr ?m1 (buf + 1) b'"
      using cstr_cut [OF c] len less.prems(2) ct b ab(2) by (simp add: cstr_append)
    then obtain argv m' where i: "parse_loop fill ?m1 (buf + 1) (args @ [arg]) = Some ((args @ [arg]) @ argv, m')"
      "parsed fill ?m1 (buf + 1) b' argv m'"
      using less.hyps [of b' ?m1 "buf + 1" "args @ [arg]"] len less.prems(2) by auto
    have "parsed fill m p s (arg # argv) m'"
      using parsed_first [OF c _ ab(1) len less.prems(2) i(2) [unfolded ab(2)]] ws b l(1,5) by simp
    then show ?thesis using step False l(5) i(1) by auto
  qed
qed

lemma parse_command_words:
  assumes "cstr m p s" "length s < 2 ^ 32"
  shows "console_parse_command m p False = Some (length (words s), [], m)"
    and "\<exists>argv m'. console_parse_command m p True = Some (length (words s), argv, m') \<and> parsed True m p s argv m'"
  using parse_loop_words [OF assms, of False "[]"] parse_loop_words [OF assms, of True "[]"]
  by (auto simp: console_parse_command_def parsed_def)

lemma store_line:
  assumes "\<forall>c \<in> set s. plain c" "length s + 2 < 2 ^ 32"
  shows "cstr ((store_bytes m p s)(p + of_nat (length s) := 0, p + of_nat (length s + 2) := 0)) p s"
proof -
  have "0 \<notin> set s" using assms(1) by (auto simp: plain_def)
  moreover have "p + of_nat i \<noteq> p + of_nat (length s)" "p + of_nat i \<noteq> p + of_nat (length s + 2)" if "i < length s" for i
    using off_eq [of i "length s" p] off_eq [of i "length s + 2" p] that assms(2) by simp_all
  moreover have "p + of_nat (length s) \<noteq> p + of_nat (length s + 2)"
    using off_eq [of "length s" "length s + 2" p] assms(2) by simp
  ultimately show ?thesis using store_bytes_nth [of _ s m p] assms(2) unfolding cstr_nth by simp
qed

lemma find_command:
  assumes "cstr m a w" "length w < 2 ^ 32" "\<forall>c \<in> set cmds. cstr m (cmd_name c) (nm c) \<and> length (nm c) < 2 ^ 32"
  shows "find (\<lambda>c. strcmp m (cmd_name c) a = 0) cmds = find (\<lambda>c. nm c = w) cmds"
proof (rule find_cong)
  fix c assume "c \<in> set cmds"
  then show "strcmp m (cmd_name c) a = 0 \<longleftrightarrow> nm c = w"
    using assms strcmp_cstr [of m "cmd_name c" "nm c" a w] by (simp add: str_order_eq_0)
qed simp

lemma words_set: "w \<in> set (words s) \<Longrightarrow> length w \<le> length s"
proof (induction s rule: words.induct)
  case (1 s)
  let ?t = "dropWhile (\<lambda>c. c = 0x20) s"
  have t: "length ?t \<le> length s" by (rule length_dropWhile_le)
  show ?case
  proof (cases "?t = []")
    case True
    then have "words s = []" by (subst words.simps) simp
    then show ?thesis using "1.prems" by simp
  next
    case False
    then have "words s = takeWhile (\<lambda>c. c \<noteq> 0x20) ?t # words (dropWhile (\<lambda>c. c \<noteq> 0x20) ?t)"
      by (subst words.simps) (simp only: Let_def if_False)
    then consider "w = takeWhile (\<lambda>c. c \<noteq> 0x20) ?t" | "w \<in> set (words (dropWhile (\<lambda>c. c \<noteq> 0x20) ?t))"
      using "1.prems" by auto
    then show ?thesis
    proof cases
      case 1
      then show ?thesis using t length_takeWhile_le [of "\<lambda>c. c \<noteq> 0x20" ?t] by simp
    next
      case 2
      then show ?thesis using "1.IH" [OF refl False] t length_dropWhile_le [of "\<lambda>c. c \<noteq> 0x20" ?t] by simp
    qed
  qed
qed

lemma console_runs_line:
  assumes "\<forall>c \<in> set s. plain c" "linput x = s @ 0x0A # rest" "length s < 58" "words s = w # ws"
    and "\<forall>c \<in> set cmds. cstr (lmem x) (cmd_name c) (nm c) \<and> length (nm c) < 2 ^ 32
           \<and> (\<forall>i \<le> length (nm c). \<forall>j < 60. cmd_name c + of_nat i \<noteq> buf + of_nat j)"
  shows "\<exists>argv x'. length argv = length (words s) \<and> (\<forall>i < length argv. cstr (lmem x') (argv ! i) (words s ! i))
     \<and> linput x' = rest
     \<and> console_iteration cmds buf x = Some (Inr (case find (\<lambda>c. nm c = w) cmds of
         None \<Rightarrow> put command_not_found x'
       | Some c \<Rightarrow> (let (ret, x'') = cmd_func c argv x' in if ret \<noteq> 0 then put (command_exited ret) x'' else x'')))"
proof -
  let ?x0 = "put [0x3E, 0x20] x"
  let ?m = "(store_bytes (lmem x) buf s)(buf + of_nat (length s) := 0, buf + of_nat (length s + 2) := 0)"
  let ?x1 = "?x0\<lparr>linput := rest, lout := lout ?x0 @ s @ [0x0D, 0x0A], lmem := ?m\<rparr>"
  have rl: "readline buf 60 ?x0 = Inr (sint (of_nat (length s + 1) :: u32), ?x1)"
    using readline_line [OF assms(1), of ?x0 rest 60 buf] assms(2,3) by (simp add: put_def)
  have pos: "\<not> sint (of_nat (length s + 1) :: u32) < 0"
    using sint_of_nat_32 [of "length s + 1"] assms(3) by (simp del: of_nat_add of_nat_Suc add: linorder_not_less)
  have l32: "length s < 2 ^ 32" using assms(3) by simp
  have line: "cstr ?m buf s" using assms(1,3) by (intro store_line) auto
  obtain argv m' where p: "console_parse_command ?m buf True = Some (length (words s), argv, m')" "parsed True ?m buf s argv m'"
    using parse_command_words(2) [OF line l32] by blast
  have other: "m' q = lmem x q" if q: "\<forall>j < 60. q \<noteq> buf + of_nat j" for q
  proof -
    have "m' q = ?m q" using p(2) q assms(3) by (simp add: parsed_def)
    also have "\<dots> = lmem x q" using q [rule_format, of "length s"] q [rule_format, of "length s + 2"] q assms(3)
      by (simp add: store_bytes_other)
    finally show ?thesis .
  qed
  have "\<forall>c \<in> set cmds. cstr m' (cmd_name c) (nm c) \<and> length (nm c) < 2 ^ 32"
    using assms(5) cstr_cong [of _ m' _ "lmem x"] other by blast
  moreover have "cstr m' (argv ! 0) w" using p(2) assms(4) by (auto simp: parsed_def)
  moreover have "length w < 2 ^ 32" using words_set [of w s] assms(4) l32 by simp
  ultimately have "find (\<lambda>c. strcmp m' (cmd_name c) (argv ! 0) = 0) cmds = find (\<lambda>c. nm c = w) cmds"
    by (intro find_command) auto
  then have "console_iteration cmds buf x = Some (Inr (case find (\<lambda>c. nm c = w) cmds of
         None \<Rightarrow> put command_not_found (?x1\<lparr>lmem := m'\<rparr>)
       | Some c \<Rightarrow> (let (ret, x'') = cmd_func c argv (?x1\<lparr>lmem := m'\<rparr>) in if ret \<noteq> 0 then put (command_exited ret) x'' else x'')))"
    using rl pos p(1) parse_command_words(1) [OF line l32] assms(4)
    by (simp add: console_iteration_def Let_def split: option.split prod.split)
  then show ?thesis using p(2) by (intro exI [of _ argv] exI [of _ "?x1\<lparr>lmem := m'\<rparr>"]) (simp add: parsed_def)
qed

section \<open>Properties\<close>

text \<open>
  \<open>console_parse_command\<close> splits a line into its words: both passes end; the first counts the
  words and leaves the line as it is, the second finds the same number, so that it fills exactly
  the array allocated for it, and makes each word a \<open>NUL\<close> terminated string that its pointer
  points to; no byte outside the line changes.
\<close>

theorem parse_splits_words:
  assumes "cstr m p s" "length s < 2 ^ 32"
  shows "console_parse_command m p False = Some (length (words s), [], m)
     \<and> (\<exists>argv m'. console_parse_command m p True = Some (length (words s), argv, m')
          \<and> length argv = length (words s) \<and> (\<forall>i < length argv. cstr m' (argv ! i) (words s ! i))
          \<and> (\<forall>q. (\<forall>i \<le> length s. q \<noteq> p + of_nat i) \<longrightarrow> m' q = m q))"
  using parse_command_words [OF assms] by (auto simp: parsed_def)

theorem parse_splits_words_witness:
  "\<exists>argv m'. console_parse_command (store_bytes (\<lambda>_. 0) 0x100 [0x20, 0x61, 0x20, 0x20, 0x62]) 0x100 True = Some (2, argv, m')
     \<and> cstr m' (argv ! 1) [0x62]"
  using parse_splits_words [of "store_bytes (\<lambda>_. 0) 0x100 [0x20, 0x61, 0x20, 0x20, 0x62]" "0x100" "[0x20, 0x61, 0x20, 0x20, 0x62]"]
  by (auto simp: words.simps)

text \<open>
  C35. The console runs what is typed: after a line of at most 57 plain characters (no control
  characters and no \<open>NUL\<close>) with at least one word, the console calls the first command whose name is the
  first word, with the words of the line as arguments, and reports its exit code if it is not 0; if
  there is no such command it says so. The names of the commands must not lie in the line buffer.
  A line of 58 or more plain characters makes \<open>readline\<close> write past the buffer of 60 bytes.
\<close>

theorem console_runs_command:
  assumes "\<forall>c \<in> set s. plain c" "linput x = s @ 0x0A # rest" "words s = w # ws"
    and "\<forall>c \<in> set cmds. cstr (lmem x) (cmd_name c) (nm c) \<and> length (nm c) < 2 ^ 32
           \<and> (\<forall>i \<le> length (nm c). \<forall>j < 60. cmd_name c + of_nat i \<noteq> buf + of_nat j)"
  shows "if length s \<le> 57
     then \<exists>argv x'. length argv = length (words s) \<and> (\<forall>i < length argv. cstr (lmem x') (argv ! i) (words s ! i))
       \<and> linput x' = rest
       \<and> console_iteration cmds buf x = Some (Inr (case find (\<lambda>c. nm c = w) cmds of
           None \<Rightarrow> put command_not_found x'
         | Some c \<Rightarrow> (let (ret, x'') = cmd_func c argv x' in if ret \<noteq> 0 then put (command_exited ret) x'' else x'')))
     else console_iteration cmds buf x = Some (Inl Out_Of_Bounds)"
proof (cases "length s \<le> 57")
  case True
  then show ?thesis using console_runs_line [OF assms(1,2) _ assms(3,4)] by simp
next
  case False
  have "linput (put [0x3E, 0x20] x) = s @ 0x0A # rest" using assms(2) by (simp add: put_def)
  from readline_long_line [OF assms(1) this, of 60 buf] False show ?thesis
    by (simp add: console_iteration_def)
qed

definition demo_cmd :: command where
  "demo_cmd = \<lparr>cmd_name = 0x300, cmd_func = (\<lambda>argv x. (0, put [0x21] x))\<rparr>"

definition demo_line :: line where
  "demo_line = \<lparr>lmem = store_bytes (\<lambda>_. 0) 0x300 [0x67, 0x6F], linput = [0x67, 0x6F, 0x20, 0x31, 0x0A], lout = []\<rparr>"

lemma demo_far: "i \<le> 2 \<Longrightarrow> j < 60 \<Longrightarrow> (0x300 :: u32) + of_nat i \<noteq> 0x100 + of_nat j"
proof -
  assume "i \<le> 2" "j < 60"
  then have "unat ((0x300 :: u32) + of_nat i) = 0x300 + i" "unat ((0x100 :: u32) + of_nat j) = 0x100 + j"
    using unat_off [of "0x300" i] unat_off [of "0x100" j] by simp_all
  moreover have "0x300 + i \<noteq> 0x100 + j" using \<open>j < 60\<close> by linarith
  ultimately show ?thesis by metis
qed

theorem console_runs_command_witness:
  "\<exists>argv x'. length argv = 2 \<and> cstr (lmem x') (argv ! 1) [0x31]
     \<and> console_iteration [demo_cmd] 0x100 demo_line = Some (Inr (put [0x21] x'))"
proof -
  have "\<forall>c \<in> set [demo_cmd]. cstr (lmem demo_line) (cmd_name c) [0x67, 0x6F] \<and> length [0x67, 0x6F :: u8] < 2 ^ 32
      \<and> (\<forall>i \<le> length [0x67, 0x6F :: u8]. \<forall>j < 60. cmd_name c + of_nat i \<noteq> 0x100 + of_nat j)"
    using demo_far by (simp add: demo_cmd_def demo_line_def)
  moreover have w: "words [0x67, 0x6F, 0x20, 0x31] = [[0x67, 0x6F], [0x31]]" by (simp add: words.simps)
  ultimately obtain argv x' where "length argv = Suc (Suc 0)" "\<forall>i < Suc (Suc 0). cstr (lmem x') (argv ! i) ([[0x67, 0x6F], [0x31]] ! i)"
    "console_iteration [demo_cmd] 0x100 demo_line = Some (Inr (put [0x21] x'))"
    using console_runs_command [of "[0x67, 0x6F, 0x20, 0x31]" demo_line "[]" "[0x67, 0x6F]" "[[0x31]]" "[demo_cmd]" "\<lambda>_. [0x67, 0x6F]" "0x100"]
    by (auto simp: plain_def demo_line_def demo_cmd_def)
  then show ?thesis by (intro exI [of _ argv] exI [of _ x']) (auto dest: spec [of _ 1])
qed

text \<open>
  Ctrl-C does not discard the line: \<open>readline\<close> returns 0 without a terminator, which the console
  takes for a line, and what was typed is run together with what the buffer held behind it.
\<close>

corollary ctrl_c_keeps_line:
  assumes "\<forall>c \<in> set s. plain c" "linput x = s @ 0x03 # rest" "length s < 59"
  shows "\<exists>x'. readline buf 60 x = Inr (0, x') \<and> lmem x' = store_bytes (lmem x) buf s"
proof -
  have "of_nat (length s) < (60 - 1 :: u32)" using assms(3) by (simp add: word_less_nat_alt unat_of_nat)
  then show ?thesis
    using readline_loop_plain [OF assms(1,2), of 0 60 buf] assms(3)
    by (simp add: readline_def readline_loop.simps [of buf 60 "of_nat (length s)"])
qed

end
