(* ===== verification/Arch_Arm.thy ===== *)
theory Arch_Arm
  imports Core_Kernel
begin

text \<open>
  Interrupts and context switching on the processor: \<^verbatim>\<open>src/platform/irq.c\<close> and
  \<^verbatim>\<open>src/arch/arm-m/arch.c\<close>.

  \<^item> A handler is named by its address (0 is \<open>NULL\<close>); \<open>code\<close> gives what the function at an address
    does, which is outside of these files. The numbers of the interrupts are bytes.
  \<^item> \<open>cpu\<close> has the general registers, the process stack pointer, the link register and the main
    stack, and the kernel with its memory of words. The inline assembly of the exception entries
    is translated instruction by instruction. Entry and return of the exception itself save and
    restore R0 to R3, R12, LR, PC and xPSR in hardware, at the process stack pointer.
  \<^item> A call of C code leaves R4 to R11 as they are and puts arbitrary values \<open>junk\<close> into R1 to R3
    and R12. Start-up copies words between addresses; the vector table is in
    \<^verbatim>\<open>Arch_Vectors\<close>, linker symbols are addresses.
\<close>

section \<open>The table of handlers (irq.c)\<close>

type_synonym irq_table = "nat list"

definition irq_register :: "u8 \<Rightarrow> nat \<Rightarrow> irq_table \<Rightarrow> bool \<times> irq_table" where
  "irq_register n handler entries =
     (if unat n \<ge> length entries \<or> entries ! unat n \<noteq> 0 then (False, entries)
      else (True, entries[unat n := handler]))"

definition irq_unregister :: "u8 \<Rightarrow> nat \<Rightarrow> irq_table \<Rightarrow> bool \<times> irq_table" where
  "irq_unregister n handler entries =
     (if unat n \<ge> length entries \<or> entries ! unat n \<noteq> handler then (False, entries)
      else (True, entries[unat n := 0]))"

text \<open>The handler of a hard fault stands in for missing handlers.\<close>

abbreviation IRQ_HANDLER_MISSING :: u8 where "IRQ_HANDLER_MISSING \<equiv> 3"

function do_irq ::
    "(nat \<Rightarrow> 's \<Rightarrow> fault + 's) \<Rightarrow> irq_table \<Rightarrow> u8 \<Rightarrow> 's \<Rightarrow> fault + 's" where
  "do_irq code entries n x =
     (if unat n \<ge> length entries then Inl Out_Of_Bounds
      else if entries ! unat n \<noteq> 0 then code (entries ! unat n) x
      else if n = IRQ_HANDLER_MISSING then Inl Assert_Failed
      else do_irq code entries IRQ_HANDLER_MISSING x)"
  by auto

termination
  by (relation "measure (\<lambda>(code, entries, n, x). if n = IRQ_HANDLER_MISSING then 0 else 1)") auto

declare do_irq.simps [simp del]

section \<open>Exception entry (arch.c)\<close>

definition irq_number :: "u32 \<Rightarrow> u32" where
  "irq_number irq =
     (let irq = (if irq > 11 then irq - 7 else irq)
      in if irq > 5 then irq - 2 else irq)"

definition arch_dispatch_irq ::
    "(nat \<Rightarrow> kernel \<Rightarrow> fault + kernel) \<Rightarrow> irq_table \<Rightarrow> u32 \<Rightarrow> nat \<Rightarrow> kernel \<Rightarrow> fault + (nat \<times> kernel)" where
  "arch_dispatch_irq code entries ipsr st k =
     (case do_irq code entries (ucast (irq_number ipsr)) (scheduler_enter_isr k) of
        Inl e \<Rightarrow> Inl e
      | Inr k \<Rightarrow> Inr (st, scheduler_leave_isr k))"

definition arch_yield :: "kernel \<Rightarrow> kernel" where
  "arch_yield k = k\<lparr>pend_sv := True\<rparr>"

record cpu =
  gp :: "nat \<Rightarrow> u32"
  psp :: u32
  lr :: u32
  main_stack :: "u32 list"
  kern :: kernel

definition mov :: "nat \<Rightarrow> nat \<Rightarrow> cpu \<Rightarrow> cpu" where
  "mov rd rs c = c\<lparr>gp := (gp c)(rd := gp c rs)\<rparr>"

definition add_imm :: "nat \<Rightarrow> u32 \<Rightarrow> cpu \<Rightarrow> cpu" where
  "add_imm rd v c = c\<lparr>gp := (gp c)(rd := gp c rd + v)\<rparr>"

text \<open>\<open>STMIA ra!, {r4-r7}\<close> and \<open>LDMIA ra!, {r4-r7}\<close>\<close>

definition stmia_4_7 :: "nat \<Rightarrow> cpu \<Rightarrow> cpu" where
  "stmia_4_7 ra c =
     (let a = gp c ra;
          k = put_mem (unat a) (gp c 4) (kern c);
          k = put_mem (unat (a + 4)) (gp c 5) k;
          k = put_mem (unat (a + 8)) (gp c 6) k;
          k = put_mem (unat (a + 12)) (gp c 7) k
      in c\<lparr>kern := k, gp := (gp c)(ra := a + 16)\<rparr>)"

definition ldmia_4_7 :: "nat \<Rightarrow> cpu \<Rightarrow> cpu" where
  "ldmia_4_7 ra c =
     (let a = gp c ra; m = mem (kern c)
      in c\<lparr>gp := (gp c)(ra := a + 16, 4 := m (unat a), 5 := m (unat (a + 4)),
             6 := m (unat (a + 8)), 7 := m (unat (a + 12)))\<rparr>)"

definition save_state :: "cpu \<Rightarrow> cpu" where
  "save_state c =
     (let c = c\<lparr>main_stack := lr c # main_stack c\<rparr>;
          c = c\<lparr>gp := (gp c)(3 := psp c)\<rparr>;
          c = add_imm 3 (- 32) c;
          c = mov 0 3 c;
          c = stmia_4_7 3 c;
          c = mov 4 8 c; c = mov 5 9 c; c = mov 6 10 c; c = mov 7 11 c
      in stmia_4_7 3 c)"

definition restore_state :: "cpu \<Rightarrow> cpu" where
  "restore_state c =
     (let c = add_imm 0 16 c;
          c = ldmia_4_7 0 c;
          c = mov 8 4 c; c = mov 9 5 c; c = mov 10 6 c; c = mov 11 7 c;
          c = add_imm 0 (- 32) c;
          c = ldmia_4_7 0 c;
          c = add_imm 0 16 c;
          c = c\<lparr>psp := gp c 0\<rparr>;
          c = c\<lparr>kern := scheduler_unlock (kern c)\<rparr>
      in c\<lparr>lr := hd (main_stack c), main_stack := tl (main_stack c)\<rparr>)"

text \<open>\<open>bl\<close> to a C function with argument and result in R0.\<close>

definition call_c :: "(nat \<Rightarrow> u32) \<Rightarrow> (nat \<Rightarrow> kernel \<Rightarrow> fault + (nat \<times> kernel)) \<Rightarrow> cpu \<Rightarrow> fault + cpu" where
  "call_c junk f c =
     (case f (unat (gp c 0)) (kern c) of
        Inl e \<Rightarrow> Inl e
      | Inr (r, k) \<Rightarrow>
          Inr (c\<lparr>kern := k, gp := (gp c)(0 := of_nat r, 1 := junk 1, 2 := junk 2, 3 := junk 3, 12 := junk 12)\<rparr>))"

definition arch_handle_pendsv :: "(nat \<Rightarrow> u32) \<Rightarrow> cpu \<Rightarrow> fault + cpu" where
  "arch_handle_pendsv junk c =
     (case call_c junk schedule (save_state c) of Inl e \<Rightarrow> Inl e | Inr c \<Rightarrow> Inr (restore_state c))"

definition arch_handle_irq ::
    "(nat \<Rightarrow> kernel \<Rightarrow> fault + kernel) \<Rightarrow> irq_table \<Rightarrow> u32 \<Rightarrow> (nat \<Rightarrow> u32) \<Rightarrow> cpu \<Rightarrow> fault + cpu" where
  "arch_handle_irq code entries ipsr junk c =
     (case call_c junk (arch_dispatch_irq code entries ipsr) (save_state c) of
        Inl e \<Rightarrow> Inl e
      | Inr c \<Rightarrow> Inr (restore_state c))"

text \<open>\<open>NVIC->ISER[0]\<close> and \<open>NVIC->ICER[0]\<close>: the enabled interrupts are a set of bits.\<close>

definition irq_enable :: "u8 \<Rightarrow> u32 \<Rightarrow> fault + u32" where
  "irq_enable n enabled =
     (if \<not> n \<ge> 7 then Inl Assert_Failed
      else Inr (enabled OR push_bit (unat ((n - 7) AND 0x1F)) 1))"

definition irq_disable :: "u8 \<Rightarrow> u32 \<Rightarrow> fault + u32" where
  "irq_disable n enabled =
     (if \<not> n \<ge> 7 then Inl Assert_Failed
      else Inr (enabled AND NOT (push_bit (unat ((n - 7) AND 0x1F)) 1)))"

section \<open>Start-up (arch.c)\<close>

text \<open>The loops of \<open>data_init\<close> and \<open>bss_init\<close>, with the number of bytes still to go.\<close>

fun copy_words :: "nat \<Rightarrow> nat \<Rightarrow> nat \<Rightarrow> (nat \<Rightarrow> u32) \<Rightarrow> nat \<Rightarrow> u32" where
  "copy_words dest src 0 m = m"
| "copy_words dest src (Suc n) m = copy_words (dest + 4) (src + 4) n (m(dest := m src))"

definition data_init :: "nat \<Rightarrow> nat \<Rightarrow> nat \<Rightarrow> (nat \<Rightarrow> u32) \<Rightarrow> nat \<Rightarrow> u32" where
  "data_init romstart start len m = copy_words start romstart ((len + 3) div 4) m"

fun zero_words :: "nat \<Rightarrow> nat \<Rightarrow> (nat \<Rightarrow> u32) \<Rightarrow> nat \<Rightarrow> u32" where
  "zero_words dest 0 m = m"
| "zero_words dest (Suc n) m = zero_words (dest + 4) n (m(dest := 0))"

definition bss_init :: "nat \<Rightarrow> nat \<Rightarrow> (nat \<Rightarrow> u32) \<Rightarrow> nat \<Rightarrow> u32" where
  "bss_init start len m = zero_words start ((len + 3) div 4) m"

text \<open>The two section tables, each entry with its three or two words.\<close>

definition do_irq_reset :: "(nat \<times> nat \<times> nat) list \<Rightarrow> (nat \<times> nat) list \<Rightarrow> (nat \<Rightarrow> u32) \<Rightarrow> nat \<Rightarrow> u32" where
  "do_irq_reset data_table bss_table m =
     fold (\<lambda>(start, len). bss_init start len) bss_table
       (fold (\<lambda>(load, exe, len). data_init load exe len) data_table m)"

section \<open>Saving and restoring\<close>

text \<open>
  The part of a thread's state that the exception code is responsible for: the process stack
  pointer and R4 to R11; of a thread that does not run, as it lies on its stack.
\<close>

definition cpu_context :: "cpu \<Rightarrow> u32 \<times> u32 list" where
  "cpu_context c = (psp c, map (gp c) [4..<12])"

definition saved_context :: "kernel \<Rightarrow> nat \<Rightarrow> u32 \<times> u32 list" where
  "saved_context k t =
     (of_nat (stack (threads k t)) + 32, map (\<lambda>i. mem k (stack (threads k t) + 4 * i)) [0..<8])"

definition save_area :: "nat \<Rightarrow> nat set" where
  "save_area a = {a, a + 4, a + 8, a + 12, a + 16, a + 20, a + 24, a + 28}"

lemma save_area_mem: "i < 8 \<Longrightarrow> a + 4 * i \<in> save_area a"
  by (auto simp: save_area_def numeral_eq_Suc less_Suc_eq)

lemma offset_unat:
  assumes "unat (b :: u32) + 32 < 2 ^ 32" "n \<le> 32"
  shows "unat (b + of_nat n) = unat b + n"
proof -
  have "unat (of_nat n :: u32) = n" using assms(2) by (simp add: unat_of_nat)
  then show ?thesis using assms by (subst unat_plus_simple [THEN iffD1]) (auto simp: no_olen_add_nat)
qed

lemma offsets:
  assumes "unat (b :: u32) + 32 < 2 ^ 32"
  shows "unat (b + 4) = unat b + 4" "unat (b + 8) = unat b + 8" "unat (b + 12) = unat b + 12" "unat (b + 16) = unat b + 16"
    "unat (b + 20) = unat b + 20" "unat (b + 24) = unat b + 24" "unat (b + 28) = unat b + 28"
  using offset_unat [OF assms, of 4] offset_unat [OF assms, of 8] offset_unat [OF assms, of 12] offset_unat [OF assms, of 16]
    offset_unat [OF assms, of 20] offset_unat [OF assms, of 24] offset_unat [OF assms, of 28] by simp_all

lemma upt_8: "[0..<8] = [0, 1, 2, 3, 4, 5, 6, 7]" "[4..<12] = [4, 5, 6, 7, 8, 9, 10, 11]"
  by (simp_all add: upt_rec)

lemma save_state_effect:
  assumes "c' = save_state c" "b = psp c - 32" "unat b + 32 < 2 ^ 32"
  shows "gp c' 0 = b" "psp c' = psp c" "main_stack c' = lr c # main_stack c" "lr c' = lr c"
    "kern c' = (kern c)\<lparr>mem := mem (kern c')\<rparr>"
    "map (\<lambda>i. mem (kern c') (unat b + 4 * i)) [0..<8] = map (gp c) [4..<12]"
    "a \<notin> save_area (unat b) \<Longrightarrow> mem (kern c') a = mem (kern c) a"
proof -
  note o = offsets [OF assms(3)]
  have "psp c + - 32 = b" using assms(2) by simp
  then have c': "c' = (c\<lparr>main_stack := lr c # main_stack c, gp := (gp c)(3 := b + 32, 0 := b, 4 := gp c 8, 5 := gp c 9, 6 := gp c 10, 7 := gp c 11),
      kern := (kern c)\<lparr>mem := (mem (kern c))(unat b := gp c 4, unat b + 4 := gp c 5, unat b + 8 := gp c 6, unat b + 12 := gp c 7,
        unat b + 16 := gp c 8, unat b + 20 := gp c 9, unat b + 24 := gp c 10, unat b + 28 := gp c 11)\<rparr>\<rparr>)"
  proof -
    let ?c1 = "c\<lparr>main_stack := lr c # main_stack c, gp := (gp c)(3 := b, 0 := b)\<rparr>"
    let ?m1 = "(mem (kern c))(unat b := gp c 4, unat b + 4 := gp c 5, unat b + 8 := gp c 6, unat b + 12 := gp c 7)"
    let ?c2 = "?c1\<lparr>kern := (kern c)\<lparr>mem := ?m1\<rparr>, gp := (gp c)(3 := b + 16, 0 := b)\<rparr>"
    let ?c3 = "?c2\<lparr>gp := (gp c)(3 := b + 16, 0 := b, 4 := gp c 8, 5 := gp c 9, 6 := gp c 10, 7 := gp c 11)\<rparr>"
    have 1: "mov 0 3 (add_imm 3 (- 32) (c\<lparr>main_stack := lr c # main_stack c, gp := (gp c)(3 := psp c)\<rparr>)) = ?c1"
      using \<open>psp c + - 32 = b\<close> by (simp add: add_imm_def mov_def)
    have 2: "stmia_4_7 3 ?c1 = ?c2" using o by (simp add: stmia_4_7_def put_mem_def Let_def fun_upd_twist)
    have 3: "mov 7 11 (mov 6 10 (mov 5 9 (mov 4 8 ?c2))) = ?c3" by (simp add: mov_def)
    have 4: "b + 16 + 4 = b + 20" "b + 16 + 8 = b + 24" "b + 16 + 12 = b + 28" "b + 16 + 16 = b + 32" by simp_all
    have "save_state c = stmia_4_7 3 (mov 7 11 (mov 6 10 (mov 5 9 (mov 4 8 (stmia_4_7 3 (mov 0 3 (add_imm 3 (- 32)
        (c\<lparr>main_stack := lr c # main_stack c, gp := (gp c)(3 := psp c)\<rparr>))))))))"
      by (simp add: save_state_def Let_def)
    then have "save_state c = stmia_4_7 3 ?c3" unfolding 1 2 3 .
    then show ?thesis unfolding assms(1) using o
      by (simp add: stmia_4_7_def put_mem_def Let_def 4 fun_upd_twist)
  qed
  show "gp c' 0 = b" "psp c' = psp c" "main_stack c' = lr c # main_stack c" "lr c' = lr c"
    "kern c' = (kern c)\<lparr>mem := mem (kern c')\<rparr>"
    "map (\<lambda>i. mem (kern c') (unat b + 4 * i)) [0..<8] = map (gp c) [4..<12]"
    by (simp_all add: c' upt_8)
  show "a \<notin> save_area (unat b) \<Longrightarrow> mem (kern c') a = mem (kern c) a"
    by (simp add: c' save_area_def)
qed

lemma fields:
  "kern (mov d s c) = kern c" "kern (add_imm d v c) = kern c" "kern (ldmia_4_7 r c) = kern c"
  "main_stack (mov d s c) = main_stack c" "main_stack (add_imm d v c) = main_stack c" "main_stack (ldmia_4_7 r c) = main_stack c"
  by (simp_all add: mov_def add_imm_def ldmia_4_7_def Let_def)

lemma restore_kern: "kern (restore_state c) = scheduler_unlock (kern c)"
  by (simp add: restore_state_def Let_def fields)

lemma restore_state_effect:
  assumes "c' = restore_state c" "b = gp c 0" "unat b + 32 < 2 ^ 32"
  shows "cpu_context c' = (b + 32, map (\<lambda>i. mem (kern c) (unat b + 4 * i)) [0..<8])"
    "kern c' = scheduler_unlock (kern c)" "main_stack c' = tl (main_stack c)" "lr c' = hd (main_stack c)"
proof -
  note o = offsets [OF assms(3)]
  show "cpu_context c' = (b + 32, map (\<lambda>i. mem (kern c) (unat b + 4 * i)) [0..<8])"
  proof -
    let ?m = "mem (kern c)"
    let ?r = "\<lambda>i. ?m (unat b + 4 * i)"
    let ?c1 = "c\<lparr>gp := (gp c)(0 := b + 32, 4 := ?r 4, 5 := ?r 5, 6 := ?r 6, 7 := ?r 7)\<rparr>"
    let ?c2 = "c\<lparr>gp := (gp c)(0 := b + 32, 4 := ?r 4, 5 := ?r 5, 6 := ?r 6, 7 := ?r 7, 8 := ?r 4, 9 := ?r 5, 10 := ?r 6, 11 := ?r 7)\<rparr>"
    have 4: "b + 16 + 4 = b + 20" "b + 16 + 8 = b + 24" "b + 16 + 12 = b + 28" "b + 16 + 16 = b + 32" by simp_all
    have 1: "ldmia_4_7 0 (add_imm 0 16 c) = ?c1"
      using o by (simp add: ldmia_4_7_def add_imm_def Let_def 4 assms(2) [symmetric])
    have 2: "mov 11 7 (mov 10 6 (mov 9 5 (mov 8 4 ?c1))) = ?c2" by (simp add: mov_def)
    have 3: "add_imm 0 16 (ldmia_4_7 0 (add_imm 0 (- 32) ?c2)) =
        c\<lparr>gp := (gp ?c2)(4 := ?r 0, 5 := ?r 1, 6 := ?r 2, 7 := ?r 3, 0 := b + 32)\<rparr>"
      using o by (simp add: ldmia_4_7_def add_imm_def Let_def 4)
    show ?thesis unfolding assms(1) restore_state_def Let_def 1 2 3 by (simp add: cpu_context_def upt_8)
  qed
  show "kern c' = scheduler_unlock (kern c)" "main_stack c' = tl (main_stack c)" "lr c' = hd (main_stack c)"
    unfolding assms(1) restore_state_def Let_def
    by (simp_all add: fields)
qed

lemma schedule_effect:
  assumes "schedule st k = Inr (st', k')"
  shows "mem k' = mem k" "threads k' = (threads k)(current_thread k := (threads k (current_thread k))\<lparr>stack := st\<rparr>)"
    "st' = stack (threads k' (current_thread k'))"
  using assms
  by (auto simp: schedule_def Let_def thread_set_stack_def thread_assert_stack_protection_def scheduler_enter_isr_def
      scheduler_leave_isr_def scheduler_lock_def scheduler_unlock_def schedule_next_def upd_thread_def
      split: if_splits sum.splits)

lemma pendsv_switches:
  assumes "arch_handle_pendsv junk c = Inr c'" "t = current_thread (kern c)" "t' = current_thread (kern c')"
    and "b = psp c - 32" "unat b + 32 < 2 ^ 32"
    and "\<forall>u. u \<noteq> t \<longrightarrow> stack (threads (kern c) u) + 32 < 2 ^ 32
           \<and> save_area (stack (threads (kern c) u)) \<inter> save_area (unat b) = {}"
  shows "saved_context (kern c') t = cpu_context c
     \<and> cpu_context c' = (if t' = t then cpu_context c else saved_context (kern c) t')
     \<and> (\<forall>u. u \<noteq> t \<longrightarrow> saved_context (kern c') u = saved_context (kern c) u)
     \<and> (\<forall>a. a \<notin> save_area (unat b) \<longrightarrow> mem (kern c') a = mem (kern c) a)
     \<and> lr c' = lr c \<and> main_stack c' = main_stack c"
proof -
  let ?s = "save_state c"
  note sv = save_state_effect [OF refl assms(4,5)]
  obtain st k where sch: "schedule (unat b) (kern ?s) = Inr (st, k)"
    and c': "c' = restore_state (?s\<lparr>kern := k, gp := (gp ?s)(0 := of_nat st, 1 := junk 1, 2 := junk 2, 3 := junk 3, 12 := junk 12)\<rparr>)"
    using assms(1) sv(1) by (auto simp: arch_handle_pendsv_def call_c_def split: sum.splits prod.splits)
  note se = schedule_effect [OF sch]
  have cur: "current_thread (kern ?s) = t" "threads (kern ?s) = threads (kern c)"
    using sv(5) assms(2) by (metis kernel.select_convs kernel.surjective kernel.update_convs(10))+
  have th: "threads k = (threads (kern c))(t := (threads (kern c) t)\<lparr>stack := unat b\<rparr>)"
    using se(2) cur by simp
  note m = se(1)
  have kc: "kern c' = scheduler_unlock k" unfolding c' restore_state_def Let_def by (simp add: fields)
  then have t': "t' = current_thread k" using assms(3) by (simp add: scheduler_unlock_def)
  have st: "st = stack (threads k t')" "st + 32 < 2 ^ 32"
    using se(3) th t' assms(5,6) by (auto split: if_splits)
  then have ust: "unat (of_nat st :: u32) = st" by (simp add: unat_of_nat)
  note rs = restore_state_effect [OF c' refl]
  have own: "saved_context (kern c') t = cpu_context c"
    using sv(6) m th assms(4) by (simp add: kc saved_context_def cpu_context_def scheduler_unlock_def)
  have others: "saved_context (kern c') u = saved_context (kern c) u" if "u \<noteq> t" for u
  proof -
    have "mem k (stack (threads (kern c) u) + 4 * i) = mem (kern c) (stack (threads (kern c) u) + 4 * i)" if "i < 8" for i
    proof -
      have "stack (threads (kern c) u) + 4 * i \<notin> save_area (unat b)"
        using save_area_mem [OF that] assms(6) \<open>u \<noteq> t\<close> by blast
      then show ?thesis using sv(7) m by simp
    qed
    then show ?thesis using that th by (simp add: kc saved_context_def scheduler_unlock_def)
  qed
  have "cpu_context c' = saved_context (kern c') t'"
    using rs(1) st ust by (simp add: kc saved_context_def scheduler_unlock_def)
  moreover have "mem (kern c') a = mem (kern c) a" if "a \<notin> save_area (unat b)" for a
    using sv(7) [OF that] m by (simp add: kc scheduler_unlock_def)
  moreover have "lr c' = lr c" "main_stack c' = main_stack c"
    using sv(3) unfolding c' restore_state_def Let_def by (simp_all add: fields)
  ultimately show ?thesis using own others by auto
qed

text \<open>The thread that \<open>schedule\<close> selects, and a stack whose protector is intact and not reached.\<close>

definition next_thread :: "kernel \<Rightarrow> nat" where
  "next_thread k = (if running_queue k = [] then idle_thread k else hd (rotate1 (running_queue k)))"

definition stack_intact :: "nat \<Rightarrow> nat \<Rightarrow> kernel \<Rightarrow> bool" where
  "stack_intact t st k \<longleftrightarrow> stack_protector (threads k t) = 0
     \<or> stack_protector (threads k t) < st \<and> mem k (stack_protector (threads k t)) = kStackProtector"

lemma pendsv_defined:
  assumes "b = psp c - 32" "unat b + 32 < 2 ^ 32" "0 < unat b"
    and "stack_intact (current_thread (kern c)) (unat b) (kern c)" "next_thread (kern c) \<noteq> 0"
  shows "\<exists>c'. arch_handle_pendsv junk c = Inr c' \<and> current_thread (kern c') = next_thread (kern c)"
proof -
  note sv = save_state_effect [OF refl assms(1,2)]
  let ?m = "mem (kern (save_state c))" and ?p = "stack_protector (threads (kern c) (current_thread (kern c)))"
  have k: "kern (save_state c) = (kern c)\<lparr>mem := ?m\<rparr>" by (rule sv(5))
  have "?p < unat b \<longrightarrow> ?m ?p = mem (kern c) ?p" using sv(7) [of ?p] by (auto simp: save_area_def)
  then have "\<exists>st k'. schedule (unat b) (kern (save_state c)) = Inr (st, k') \<and> current_thread k' = next_thread (kern c)"
    using assms(3-5) unfolding stack_intact_def next_thread_def
    by (subst k) (auto simp: schedule_def thread_set_stack_def thread_assert_stack_protection_def scheduler_enter_isr_def
        scheduler_leave_isr_def scheduler_lock_def scheduler_unlock_def schedule_next_def upd_thread_def Let_def)
  then show ?thesis
    using sv(1) by (auto simp: arch_handle_pendsv_def call_c_def restore_kern scheduler_unlock_def)
qed

text \<open>A thread that never ran has the frame that \<open>thread_set_function\<close> built for it.\<close>

lemma new_thread_frame:
  assumes "k = thread_set_function_v t func argc arg k0" "st = stack (threads k0 t)" "60 \<le> st" "st < 2 ^ 32"
  shows "stack (threads k t) = st - 60" "mem k st = 0x01000000" "mem k (st - 4) = func" "0 < argc \<Longrightarrow> mem k (st - 28) = arg"
proof -
  obtain b where b: "st = b + 60" using assms(3) by (metis add.commute le_Suc_ex)
  have "sub32 (b + 60) 4 = b + 56" "sub32 (b + 56) 4 = b + 52" "sub32 (b + 52) 20 = b + 32"
    "sub32 (b + 32) 32 = b" using assms(4) by (simp_all add: b)
  then show "stack (threads k t) = st - 60" "mem k st = 0x01000000" "mem k (st - 4) = func" "0 < argc \<Longrightarrow> mem k (st - 28) = arg"
    unfolding assms(1) thread_set_function_v_def Let_def assms(2) [symmetric] b by (simp_all add: put_mem_def)
qed

section \<open>Properties\<close>

text \<open>
  C4. The context switch exchanges exactly the contexts: when the PendSV handler switches from a
  thread to another one (or back to the same), the stack pointer and R4 to R11 of the interrupted
  thread lie on its stack where \<open>schedule\<close> looks for them, the processor gets those of the
  selected thread, the saved contexts of all other threads are unchanged, and no memory
  outside the 8 words below the stack pointer is written. It holds when these words overlap no
  other saved context and the stack pointers are away from the end of the address space.
\<close>

theorem context_switch:
  assumes "t = current_thread (kern c)" "t' = next_thread (kern c)" "t' \<noteq> 0"
    and "b = psp c - 32" "unat b + 32 < 2 ^ 32" "0 < unat b" "stack_intact t (unat b) (kern c)"
    and "\<forall>u. u \<noteq> t \<longrightarrow> stack (threads (kern c) u) + 32 < 2 ^ 32
           \<and> save_area (stack (threads (kern c) u)) \<inter> save_area (unat b) = {}"
  shows "\<exists>c'. arch_handle_pendsv junk c = Inr c' \<and> current_thread (kern c') = t'
     \<and> saved_context (kern c') t = cpu_context c
     \<and> cpu_context c' = (if t' = t then cpu_context c else saved_context (kern c) t')
     \<and> (\<forall>u. u \<noteq> t \<longrightarrow> saved_context (kern c') u = saved_context (kern c) u)
     \<and> (\<forall>a. a \<notin> save_area (unat b) \<longrightarrow> mem (kern c') a = mem (kern c) a)
     \<and> lr c' = lr c \<and> main_stack c' = main_stack c"
proof -
  obtain c' where c': "arch_handle_pendsv junk c = Inr c'" "current_thread (kern c') = t'"
    using pendsv_defined [OF assms(4-6)] assms(1-3,7) by metis
  from pendsv_switches [OF c'(1) assms(1) c'(2) [symmetric] assms(4,5,8)] c' show ?thesis by blast
qed

definition demo_cpu :: cpu where
  "demo_cpu = \<lparr>gp = of_nat, psp = 0x2000, lr = 0xFFFFFFFD, main_stack = [], kern = demo_kernel\<rparr>"

lemma demo_cpu_facts:
  "current_thread (kern demo_cpu) = 1"
  "\<forall>u. u \<noteq> 1 \<longrightarrow> stack (threads (kern demo_cpu) u) + 32 < 2 ^ 32
     \<and> save_area (stack (threads (kern demo_cpu) u)) \<inter> save_area (unat (0x1FE0 :: u32)) = {}"
  by (simp_all add: demo_cpu_def demo_kernel_def zero_thread_def save_area_def)

lemma demo_cpu_ready:
  "next_thread (kern demo_cpu) \<noteq> 0" "stack_intact 1 0x1FE0 (kern demo_cpu)"
  by (simp_all add: demo_cpu_def demo_kernel_def zero_thread_def next_thread_def stack_intact_def)

theorem context_switch_witness:
  "\<exists>c'. arch_handle_pendsv (\<lambda>_. 0) demo_cpu = Inr c' \<and> saved_context (kern c') 1 = (0x2000, [4, 5, 6, 7, 8, 9, 10, 11])"
proof -
  have "unat (0x1FE0 :: u32) = 0x1FE0" "(0x1FE0 :: u32) = psp demo_cpu - 32" by (simp_all add: demo_cpu_def)
  then obtain c' where "arch_handle_pendsv (\<lambda>_. 0) demo_cpu = Inr c'" "saved_context (kern c') 1 = cpu_context demo_cpu"
    using context_switch [OF demo_cpu_facts(1) [symmetric] refl demo_cpu_ready(1), of "0x1FE0" "\<lambda>_. 0"]
      demo_cpu_ready(2) demo_cpu_facts(2) by auto
  then show ?thesis by (simp add: cpu_context_def demo_cpu_def upt_8)
qed

text \<open>
  C39. A new thread starts in its function: when the handler switches to a thread whose function was
  set and that did not run since, the process stack pointer afterwards points at the frame from
  which the exception return loads R0, PC and xPSR, and these are the argument, the function
  and the Thumb bit. The conditions are those of the context switch.
\<close>

theorem new_thread_starts:
  assumes "t = current_thread (kern c)" "t' = next_thread (kern c)" "t' \<noteq> 0" "t' \<noteq> t"
    and "b = psp c - 32" "unat b + 32 < 2 ^ 32" "0 < unat b" "stack_intact t (unat b) (kern c)"
    and "\<forall>u. u \<noteq> t \<longrightarrow> stack (threads (kern c) u) + 32 < 2 ^ 32
           \<and> save_area (stack (threads (kern c) u)) \<inter> save_area (unat b) = {}"
    and "kern c = thread_set_function_v t' func argc arg k0" "st = stack (threads k0 t')" "60 \<le> st" "st < 2 ^ 32"
    and "{st, st - 4, st - 28} \<inter> save_area (unat b) = {}"
  shows "\<exists>c'. arch_handle_pendsv junk c = Inr c' \<and> unat (psp c') = st - 28
     \<and> mem (kern c') (unat (psp c') + 28) = 0x01000000
     \<and> mem (kern c') (unat (psp c') + 24) = func \<and> (0 < argc \<longrightarrow> mem (kern c') (unat (psp c')) = arg)"
proof -
  note fr = new_thread_frame [OF assms(10-13)]
  obtain c' where c': "arch_handle_pendsv junk c = Inr c'" "current_thread (kern c') = t'"
    using pendsv_defined [OF assms(5-7)] assms(1-3,8) by metis
  have sw: "cpu_context c' = saved_context (kern c) t'" "\<And>a. a \<notin> save_area (unat b) \<Longrightarrow> mem (kern c') a = mem (kern c) a"
    using pendsv_switches [OF c'(1) assms(1) c'(2) [symmetric] assms(5,6,9)] assms(4) by auto
  have "psp c' = of_nat (st - 60) + 32" using sw(1) fr(1) by (simp add: cpu_context_def saved_context_def)
  also have "\<dots> = of_nat (st - 60 + 32)" by simp
  also have "st - 60 + 32 = st - 28" using assms(12) by linarith
  finally have p: "unat (psp c') = st - 28" using assms(13) by (simp add: unat_of_nat)
  have "mem (kern c') st = 0x01000000" "mem (kern c') (st - 4) = func" "0 < argc \<Longrightarrow> mem (kern c') (st - 28) = arg"
    using sw(2) fr assms(14) by auto
  moreover have "st - 28 + 28 = st" "st - 28 + 24 = st - 4" using assms(12) by linarith+
  ultimately show ?thesis using c'(1) p by (intro exI [of _ c']) auto
qed

theorem new_thread_starts_witness:
  "let k0 = upd_thread 2 (stack_update (\<lambda>_. 0x3000)) demo_kernel;
       c = demo_cpu\<lparr>kern := thread_set_function_v 2 0x8001 1 42 k0\<rparr>
   in \<exists>c'. arch_handle_pendsv (\<lambda>_. 0) c = Inr c' \<and> mem (kern c') (unat (psp c') + 24) = 0x8001"
proof -
  let ?old = "upd_thread 2 (stack_update (\<lambda>_. 0x3000)) demo_kernel"
  let ?k = "thread_set_function_v 2 0x8001 1 42 ?old"
  let ?c = "demo_cpu\<lparr>kern := ?k\<rparr>"
  have k: "threads ?k = (threads demo_kernel)(2 := (threads demo_kernel 2)\<lparr>stack := 0x2FC4\<rparr>)" "current_thread ?k = 1"
    "running_queue ?k = [1, 2, 3]" "in_isr_count ?k = 0"
    by (simp_all add: thread_set_function_v_def upd_thread_def put_mem_def demo_kernel_def Let_def)
  have kc: "kern ?c = ?k" "psp ?c = 0x2000" by (simp_all add: demo_cpu_def)
  have nx: "2 = next_thread (kern ?c)" "stack_intact 1 (unat (0x1FE0 :: u32)) (kern ?c)"
    unfolding kc next_thread_def stack_intact_def k by (simp_all add: demo_kernel_def zero_thread_def)
  have f: "\<forall>u. u \<noteq> 1 \<longrightarrow> stack (threads (kern ?c) u) + 32 < 2 ^ 32 \<and> save_area (stack (threads (kern ?c) u)) \<inter> save_area (unat (0x1FE0 :: u32)) = {}"
    unfolding kc k(1) by (simp add: demo_kernel_def zero_thread_def save_area_def)
  have h: "0x3000 = stack (threads ?old 2)" by (simp add: upd_thread_def)
  have "1 = current_thread (kern ?c)" "0x1FE0 = psp ?c - 32" unfolding kc using k(2) by simp_all
  from new_thread_starts [OF this(1) nx(1) _ _ this(2) _ _ nx(2) f kc(1) h, of "\<lambda>_. 0"]
  show ?thesis unfolding Let_def by (auto simp: save_area_def)
qed

section \<open>Interrupt handlers\<close>

lemma irq_number_cases:
  "irq_number 2 = 2" "irq_number 3 = 3" "irq_number 14 = 5" "irq_number 15 = 6" "irq_number 11 = 9"
  by (simp_all add: irq_number_def)

lemma irq_number_external: "n < 32 \<Longrightarrow> irq_number (16 + of_nat n) = 7 + of_nat n"
proof -
  assume n: "n < 32"
  have "unat (16 + of_nat n :: u32) = 16 + n" "unat (9 + of_nat n :: u32) = 9 + n"
    using n by (simp_all add: unat_word_ariths unat_of_nat)
  then have "(16 + of_nat n :: u32) > 11" "(9 + of_nat n :: u32) > 5" by (simp_all add: word_less_nat_alt)
  then show ?thesis by (simp add: irq_number_def Let_def)
qed

text \<open>
  Interrupts reach their handlers: registering succeeds exactly for a number of the table without
  handler and changes no other entry; afterwards the exception with that number runs the handler
  (inside \<open>scheduler_enter_isr\<close> and \<open>scheduler_leave_isr\<close>, on the stack of the interrupted
  thread), an interrupt without handler runs the one of the hard fault, and unregistering undoes it.
  This is shown for the external interrupts, exceptions 16 to 47.
\<close>

theorem irq_reaches_handler:
  assumes "n < 32" "length entries = 39" "h \<noteq> 0" "(ok, entries') = irq_register (7 + of_nat n) h entries"
  shows "ok = (entries ! (7 + n) = 0)
     \<and> entries' = (if ok then entries[7 + n := h] else entries)
     \<and> (ok \<longrightarrow> arch_dispatch_irq code entries' (16 + of_nat n) st k =
          map_sum id (\<lambda>k. (st, scheduler_leave_isr k)) (code h (scheduler_enter_isr k))
        \<and> irq_unregister (7 + of_nat n) h entries' = (True, entries))
     \<and> (entries ! (7 + n) = 0 \<longrightarrow> entries ! 3 \<noteq> 0 \<longrightarrow> arch_dispatch_irq code entries (16 + of_nat n) st k =
          map_sum id (\<lambda>k. (st, scheduler_leave_isr k)) (code (entries ! 3) (scheduler_enter_isr k)))"
proof -
  have u: "unat (7 + of_nat n :: u8) = 7 + n"
    using assms(1) by (simp add: unat_word_ariths unat_of_nat)
  have "unat (7 + of_nat n :: u32) = 7 + n" using assms(1) by (simp add: unat_word_ariths unat_of_nat)
  then have c: "unat (ucast (irq_number (16 + of_nat n)) :: u8) = 7 + n"
    using assms(1) irq_number_external [OF assms(1)] by (simp only: unsigned_ucast_eq) (simp add: take_bit_eq_mod)
  have ne: "(ucast (irq_number (16 + of_nat n)) :: u8) \<noteq> 3"
  proof
    assume "(ucast (irq_number (16 + of_nat n)) :: u8) = 3"
    with c show False by simp
  qed
  have reg: "ok = (entries ! (7 + n) = 0)" "entries' = (if ok then entries[7 + n := h] else entries)"
    using assms(1,2,4) u by (auto simp: irq_register_def split: if_splits)
  have run: "arch_dispatch_irq code es (16 + of_nat n) st k =
      map_sum id (\<lambda>k. (st, scheduler_leave_isr k)) (code (if es ! (7 + n) \<noteq> 0 then es ! (7 + n) else es ! 3) (scheduler_enter_isr k))"
    if "length es = 39" "es ! (7 + n) \<noteq> 0 \<or> es ! 3 \<noteq> 0" for es
  proof -
    have "do_irq code es (ucast (irq_number (16 + of_nat n))) x = code (if es ! (7 + n) \<noteq> 0 then es ! (7 + n) else es ! 3) x" for x
      using that c ne assms(1) by (subst do_irq.simps) (auto simp: do_irq.simps [of _ _ 3])
    then show ?thesis unfolding arch_dispatch_irq_def by (simp split: sum.split)
  qed
  have "irq_unregister (7 + of_nat n) h entries' = (True, entries)" if ok
    using that reg u assms(1,2) by (simp add: irq_unregister_def list_update_same_conv)
  then show ?thesis using reg run [of entries'] run [of entries] assms(1,2,3) by auto
qed

theorem irq_reaches_handler_witness:
  "fst (irq_register (7 + of_nat 15) 0x8000 (replicate 39 0))
   \<and> arch_dispatch_irq (\<lambda>h k. Inr (k\<lparr>current_thread := h\<rparr>)) ((replicate 39 0)[22 := 0x8000]) (16 + of_nat 15) 7 demo_kernel =
       Inr (7, scheduler_leave_isr ((scheduler_enter_isr demo_kernel)\<lparr>current_thread := 0x8000\<rparr>))"
proof -
  obtain ok e where r: "(ok, e) = irq_register (7 + of_nat 15) 0x8000 (replicate 39 0)" by (metis prod.exhaust)
  from irq_reaches_handler [OF _ _ _ r, of "\<lambda>h k. Inr (k\<lparr>current_thread := h\<rparr>)" 7 demo_kernel] r show ?thesis
    by (auto simp: nth_replicate simp del: replicate.simps) (metis fst_conv)
qed

text \<open>
  The supervisor call is dispatched as the external interrupt 2 (number 9), not under its own
  number 4: the test for the reserved exceptions excludes 11 itself.
\<close>

lemma supervisor_call_number: "irq_number 11 = irq_number (16 + of_nat 2)" "irq_number 11 \<noteq> 4"
  by (simp_all add: irq_number_def Let_def)

section \<open>Memory at start-up\<close>

lemma copy_words_other: "(\<forall>i < n. a \<noteq> dest + 4 * i) \<Longrightarrow> copy_words dest src n m a = m a"
proof (induction n arbitrary: dest src m)
  case (Suc n)
  have "\<forall>i < n. a \<noteq> dest + 4 + 4 * i" using Suc.prems by (auto dest: spec [of _ "Suc _"])
  moreover have "a \<noteq> dest" using Suc.prems by force
  ultimately show ?case using Suc.IH by simp
qed simp

lemma copy_words_copies:
  assumes "\<forall>i < n. \<forall>j < n. src + 4 * i \<noteq> dest + 4 * j" "i < n"
  shows "copy_words dest src n m (dest + 4 * i) = m (src + 4 * i)"
  using assms
proof (induction n arbitrary: dest src m i)
  case (Suc n)
  let ?m = "m(dest := m src)"
  show ?case
  proof (cases i)
    case 0
    then show ?thesis using copy_words_other [of n dest "dest + 4" "src + 4" ?m] by simp
  next
    case (Suc j)
    have "src + 4 * i \<noteq> dest" using Suc.prems(1,2) by (metis add.right_neutral mult_0_right zero_less_Suc)
    moreover have "\<forall>i < n. \<forall>j < n. src + 4 + 4 * i \<noteq> dest + 4 + 4 * j" using Suc.prems(1) by auto
    ultimately have "copy_words (dest + 4) (src + 4) n ?m (dest + 4 + 4 * j) = ?m (src + 4 + 4 * j)" "?m (src + 4 + 4 * j) = m (src + 4 * i)"
      using Suc Suc.prems(2) by (intro Suc.IH, auto simp: add.assoc)
    moreover have "dest + 4 * i = dest + 4 + 4 * j" using Suc by simp
    ultimately show ?thesis by (simp only: copy_words.simps)
  qed
qed simp

lemma zero_words_spec:
  "zero_words dest n m a = (if \<exists>i < n. a = dest + 4 * i then 0 else m a)"
proof (induction n arbitrary: dest m)
  case (Suc n)
  have "(\<exists>i < Suc n. a = dest + 4 * i) \<longleftrightarrow> a = dest \<or> (\<exists>i < n. a = dest + 4 + 4 * i)"
    by (auto simp: less_Suc_eq_0_disj)
  then show ?case using Suc by auto
qed simp

text \<open>The words of a section.\<close>

definition section_words :: "nat \<Rightarrow> nat \<Rightarrow> nat set" where
  "section_words start len = (\<lambda>i. start + 4 * i) ` {..<(len + 3) div 4}"

fun disjoint_sections :: "(nat \<times> nat) list \<Rightarrow> bool" where
  "disjoint_sections [] = True"
| "disjoint_sections ((s, l) # ss) \<longleftrightarrow>
     (\<forall>(s', l') \<in> set ss. section_words s l \<inter> section_words s' l' = {}) \<and> disjoint_sections ss"

lemma data_init_spec:
  assumes "section_words load len \<inter> section_words exe len = {}"
  shows "i < (len + 3) div 4 \<Longrightarrow> data_init load exe len m (exe + 4 * i) = m (load + 4 * i)"
    "a \<notin> section_words exe len \<Longrightarrow> data_init load exe len m a = m a"
proof -
  have "\<forall>i < (len + 3) div 4. \<forall>j < (len + 3) div 4. load + 4 * i \<noteq> exe + 4 * j"
    using assms by (auto simp: section_words_def disjoint_iff)
  then show "i < (len + 3) div 4 \<Longrightarrow> data_init load exe len m (exe + 4 * i) = m (load + 4 * i)"
    unfolding data_init_def by (rule copy_words_copies)
  show "a \<notin> section_words exe len \<Longrightarrow> data_init load exe len m a = m a"
    unfolding data_init_def by (rule copy_words_other) (auto simp: section_words_def)
qed

lemma bss_init_spec: "bss_init start len m a = (if a \<in> section_words start len then 0 else m a)"
  by (auto simp: bss_init_def zero_words_spec section_words_def)

lemma bss_fold:
  "fold (\<lambda>(start, len). bss_init start len) bt m a = (if \<exists>(s, l) \<in> set bt. a \<in> section_words s l then 0 else m a)"
  by (induction bt arbitrary: m) (auto simp: bss_init_spec split: prod.split)

lemma disjoint_sections_Cons:
  "disjoint_sections ((s, l) # ss) \<longleftrightarrow>
     (\<forall>s' l'. (s', l') \<in> set ss \<longrightarrow> section_words s l \<inter> section_words s' l' = {}) \<and> disjoint_sections ss"
  by auto

lemma disjoint_sections_append:
  assumes "disjoint_sections (xs @ ys)"
  shows "disjoint_sections xs" "(s, l) \<in> set xs \<Longrightarrow> (s', l') \<in> set ys \<Longrightarrow> section_words s l \<inter> section_words s' l' = {}"
proof -
  show "disjoint_sections xs" using assms by (induction xs) (auto simp: disjoint_sections_Cons simp del: disjoint_sections.simps(2))
  show "(s, l) \<in> set xs \<Longrightarrow> (s', l') \<in> set ys \<Longrightarrow> section_words s l \<inter> section_words s' l' = {}" using assms
  proof (induction xs)
    case (Cons x xs)
    then show ?case by (cases x) (simp only: append_Cons disjoint_sections_Cons set_append list.set(2), blast)
  qed simp
qed

lemma data_fold_other:
  assumes "\<And>load exe len. (load, exe, len) \<in> set dt \<Longrightarrow>
      section_words load len \<inter> section_words exe len = {} \<and> a \<notin> section_words exe len"
  shows "fold (\<lambda>(load, exe, len). data_init load exe len) dt m a = m a"
  using assms
proof (induction dt arbitrary: m)
  case (Cons d dt)
  obtain lo ex le where d: "d = (lo, ex, le)" by (cases d)
  then have "data_init lo ex le m a = m a" using Cons.prems by (intro data_init_spec(2)) auto
  moreover have "fold (\<lambda>(load, exe, len). data_init load exe len) dt (data_init lo ex le m) a = data_init lo ex le m a"
    using Cons.prems by (intro Cons.IH) auto
  ultimately show ?case using d by simp
qed simp

lemma data_fold_copies:
  assumes "disjoint_sections (map snd dt)" "(load, exe, len) \<in> set dt" "i < (len + 3) div 4"
    and "\<And>lo ex le lo' ex' le'. (lo, ex, le) \<in> set dt \<Longrightarrow> (lo', ex', le') \<in> set dt \<Longrightarrow>
      section_words lo le \<inter> section_words ex' le' = {}"
  shows "fold (\<lambda>(load, exe, len). data_init load exe len) dt m (exe + 4 * i) = m (load + 4 * i)"
  using assms
proof (induction dt arbitrary: m)
  case (Cons d dt)
  obtain lo ex le where d: "d = (lo, ex, le)" by (cases d)
  have dis: "section_words lo le \<inter> section_words ex le = {}" using Cons.prems(4) [of lo ex le lo ex le] d by simp
  have in_exe: "exe + 4 * i \<in> section_words exe len" and in_load: "load + 4 * i \<in> section_words load len"
    using Cons.prems(3) by (auto simp: section_words_def)
  have split: "disjoint_sections (map snd dt)"
    "\<And>s l. (s, l) \<in> set (map snd dt) \<Longrightarrow> section_words ex le \<inter> section_words s l = {}"
    using Cons.prems(1) d by (auto simp: disjoint_sections_Cons simp del: disjoint_sections.simps(2))
  show ?case
  proof (cases "(load, exe, len) = d")
    case True
    then have e: "lo = load" "ex = exe" "le = len" using d by simp_all
    have "exe + 4 * i \<notin> section_words ex' le'" if "(lo', ex', le') \<in> set dt" for lo' ex' le'
    proof -
      have "(ex', le') \<in> set (map snd dt)" using that by force
      then show ?thesis using split(2) in_exe e by blast
    qed
    then have "fold (\<lambda>(load, exe, len). data_init load exe len) dt (data_init load exe len m) (exe + 4 * i) = data_init load exe len m (exe + 4 * i)"
      using Cons.prems(4) by (intro data_fold_other) (meson list.set_intros(2))
    then show ?thesis using data_init_spec(1) [OF dis] Cons.prems(3) d e by simp
  next
    case False
    then have "load + 4 * i \<notin> section_words ex le"
      using Cons.prems(4) [of load exe len lo ex le] Cons.prems(2) d in_load by auto
    then have "data_init lo ex le m (load + 4 * i) = m (load + 4 * i)" by (rule data_init_spec(2) [OF dis])
    moreover have "fold (\<lambda>(load, exe, len). data_init load exe len) dt (data_init lo ex le m) (exe + 4 * i) = data_init lo ex le m (load + 4 * i)"
    proof (rule Cons.IH [OF split(1) _ Cons.prems(3)])
      show "(load, exe, len) \<in> set dt" using Cons.prems(2) False by auto
      fix lo ex le lo' ex' le' assume "(lo, ex, le) \<in> set dt" "(lo', ex', le') \<in> set dt"
      then show "section_words lo le \<inter> section_words ex' le' = {}" by (intro Cons.prems(4)) auto
    qed
    ultimately show ?thesis using d by simp
  qed
qed simp

text \<open>
  The reset handler sets memory up as the linker laid it out: for section tables whose targets do
  not overlap each other or the load images, every data section afterwards holds its image,
  every zero section is 0, and no other word has changed.
\<close>

theorem startup_memory:
  assumes "disjoint_sections (map snd dt @ bt)"
    and "\<forall>(lo, ex, le) \<in> set dt. \<forall>(ex', le') \<in> set (map snd dt @ bt). section_words lo le \<inter> section_words ex' le' = {}"
    and "m' = do_irq_reset dt bt m"
  shows "(\<forall>(load, exe, len) \<in> set dt. \<forall>i < (len + 3) div 4. m' (exe + 4 * i) = m (load + 4 * i))
     \<and> (\<forall>(start, len) \<in> set bt. \<forall>i < (len + 3) div 4. m' (start + 4 * i) = 0)
     \<and> (\<forall>a. (\<forall>(s, l) \<in> set (map snd dt @ bt). a \<notin> section_words s l) \<longrightarrow> m' a = m a)"
proof -
  note d = disjoint_sections_append [OF assms(1)]
  have img: "section_words lo le \<inter> section_words ex' le' = {}"
    if "(lo, ex, le) \<in> set dt" "(ex', le') \<in> set (map snd dt) \<or> (ex', le') \<in> set bt" for lo ex le ex' le'
    using assms(2) that by fastforce
  have m': "m' a = (if \<exists>(s, l) \<in> set bt. a \<in> section_words s l then 0 else fold (\<lambda>(load, exe, len). data_init load exe len) dt m a)" for a
    unfolding assms(3) do_irq_reset_def by (rule bss_fold)
  have "m' (exe + 4 * i) = m (load + 4 * i)" if "(load, exe, len) \<in> set dt" "i < (len + 3) div 4" for load exe len i
  proof -
    have "exe + 4 * i \<in> section_words exe len" "(exe, len) \<in> set (map snd dt)" using that by (force simp: section_words_def)+
    then have "\<not> (\<exists>(s, l) \<in> set bt. exe + 4 * i \<in> section_words s l)" using d(2) by blast
    moreover have "fold (\<lambda>(load, exe, len). data_init load exe len) dt m (exe + 4 * i) = m (load + 4 * i)"
      using img by (intro data_fold_copies [OF d(1) that]) force
    ultimately show ?thesis using m' by simp
  qed
  moreover have "m' (start + 4 * i) = 0" if "(start, len) \<in> set bt" "i < (len + 3) div 4" for start len i
    using that unfolding m' by (auto simp: section_words_def)
  moreover have "m' a = m a" if "\<forall>(s, l) \<in> set (map snd dt @ bt). a \<notin> section_words s l" for a
  proof -
    have "fold (\<lambda>(load, exe, len). data_init load exe len) dt m a = m a"
    proof (rule data_fold_other)
      fix load exe len assume e: "(load, exe, len) \<in> set dt"
      then have s: "(exe, len) \<in> set (map snd dt)" by force
      then show "section_words load len \<inter> section_words exe len = {} \<and> a \<notin> section_words exe len"
        using img [OF e, of exe len] bspec [OF that, of "(exe, len)"] by auto
    qed
    then show ?thesis using that unfolding m' by auto
  qed
  ultimately show ?thesis by auto
qed

theorem startup_memory_witness:
  "do_irq_reset [(0x100, 0x1000, 8)] [(0x1008, 4)] (\<lambda>a. of_nat a) 0x1004 = 0x104
   \<and> do_irq_reset [(0x100, 0x1000, 8)] [(0x1008, 4)] (\<lambda>a. of_nat a) 0x1008 = 0"
proof -
  have w: "section_words 0x1000 8 = {0x1000, 0x1004}" "section_words 0x1008 4 = {0x1008}" "section_words 0x100 8 = {0x100, 0x104}"
  proof -
    have "{..<2 :: nat} = {0, 1}" by auto
    then show "section_words 0x1000 8 = {0x1000, 0x1004}" "section_words 0x1008 4 = {0x1008}" "section_words 0x100 8 = {0x100, 0x104}"
      by (auto simp: section_words_def)
  qed
  let ?m = "do_irq_reset [(0x100, 0x1000, 8)] [(0x1008, 4)] (\<lambda>a. of_nat a)"
  have "(\<forall>(load, exe, len) \<in> set [(0x100, 0x1000, 8)]. \<forall>i < (len + 3) div 4. ?m (exe + 4 * i) = of_nat (load + 4 * i))
     \<and> (\<forall>(start, len) \<in> set [(0x1008, 4)]. \<forall>i < (len + 3) div 4. ?m (start + 4 * i) = 0)"
    using startup_memory [of "[(0x100, 0x1000, 8)]" "[(0x1008, 4)]" ?m "\<lambda>a. of_nat a"] w by simp
  then have c: "\<And>i. i < 2 \<Longrightarrow> ?m (0x1000 + 4 * i) = of_nat (0x100 + 4 * i)" "\<And>i. i < 1 \<Longrightarrow> ?m (0x1008 + 4 * i) = 0" by auto
  show ?thesis using c(1) [of 1] c(2) [of 0] by simp
qed

end
