(* ===== verification/Plat_Can.thy ===== *)
theory Plat_Can
  imports Arch_Arm
begin

text \<open>
  The CAN driver of the LPC11xx, \<^verbatim>\<open>src/platform/lpc11xx/net/can/can_rom.c\<close>, with the frames of
  \<^verbatim>\<open>src/include/net/can.h\<close>.

  \<^item> The driver in the ROM of the chip is used through its calls only: \<open>transmitted\<close> are the
    messages handed to \<open>can_transmit\<close>, \<open>rx_objects\<close> those handed to \<open>config_rxmsgobj\<close>, \<open>rom_init\<close>
    the arguments of \<open>init\<close>; the message that \<open>can_receive\<close> fills in is an argument of the callback.
  \<^item> Callbacks and contexts are addresses, 0 is \<open>NULL\<close>. Bytes of a frame that nobody writes are
    what was on the stack: the argument \<open>junk\<close>.
  \<^item> \<open>can_send\<close> may block twice; its parts up to and behind the two places are definitions of
    their own. \<open>can_step\<close> interleaves the calls of any number of threads with the transmit
    interrupt of the hardware, which has one message object for sending.
  \<^item> What the error callback prints is in \<^verbatim>\<open>Lib_Console_Out\<close>.
\<close>

section \<open>Frames and messages\<close>

abbreviation CAN_FRAME_FLAG_EXT :: u8 where "CAN_FRAME_FLAG_EXT \<equiv> 1"
abbreviation CAN_FLAG_NOWAIT :: u8 where "CAN_FLAG_NOWAIT \<equiv> 1"
abbreviation LPC11_CAN_EXT_FLAG :: u32 where "LPC11_CAN_EXT_FLAG \<equiv> 0x20000000"

record can_frame =
  fid :: u32
  fflags :: u8
  data_length :: u8
  fdata :: "u8 list"

record can_rom_msg =
  mode_id :: u32
  mmask :: u32
  mdata :: "u8 list"
  dlc :: u8
  msgobj :: u8

record can =
  receive_conf :: "(nat \<times> nat) list"
  send_lock :: semaphore
  send_done :: semaphore
  send_async :: bool
  ckern :: kernel
  transmitted :: "can_rom_msg list"
  rx_objects :: "can_rom_msg list"
  rom_init :: "(u32 \<times> u32) option"

section \<open>Set-up\<close>

abbreviation IRQ13 :: u8 where "IRQ13 \<equiv> 20"

definition can_speed_table :: "(u32 \<times> u32 \<times> u32 \<times> u32) list" where
  "can_speed_table =
     [(12000000, 50000, 2, 0x1c0e), (12000000, 125000, 2, 0x1c02), (16000000, 125000, 8 - 7, 0x1c07)]"

fun find_speed :: "(u32 \<times> u32 \<times> u32 \<times> u32) list \<Rightarrow> u32 \<Rightarrow> u32 \<Rightarrow> (u32 \<times> u32) option" where
  "find_speed [] clock speed = None"
| "find_speed ((c, s, dv, btr) # es) clock speed =
     (if c = clock \<and> s = speed then Some (dv, btr) else find_speed es clock speed)"

text \<open>\<open>isr\<close> is the address of the driver's interrupt function.\<close>

definition can_init ::
    "nat \<Rightarrow> u32 \<Rightarrow> u32 \<Rightarrow> irq_table \<Rightarrow> u32 \<Rightarrow> can \<Rightarrow> fault + (irq_table \<times> u32 \<times> can)" where
  "can_init isr clock speed entries enabled c =
     (case irq_register IRQ13 isr entries of
        (False, _) \<Rightarrow> Inl Assert_Failed
      | (True, entries) \<Rightarrow>
          (case find_speed can_speed_table clock speed of
             None \<Rightarrow> Inl Assert_Failed
           | Some (dv, btr) \<Rightarrow>
               (let c = c\<lparr>rom_init := Some (dv - 1, btr),
                          send_lock := semaphore_init 1, send_done := semaphore_init 0\<rparr>
                in map_sum id (\<lambda>enabled. (entries, enabled, c)) (irq_enable IRQ13 enabled))))"

definition can_reset :: "can \<Rightarrow> fault + can" where
  "can_reset c = Inl Assert_Failed"

section \<open>Receiving\<close>

definition first_index :: "('a \<Rightarrow> bool) \<Rightarrow> 'a list \<Rightarrow> nat option" where
  "first_index P xs = (let i = length (takeWhile (\<lambda>x. \<not> P x) xs) in if i < length xs then Some i else None)"

definition can_set_receive_callback ::
    "u32 \<Rightarrow> u32 \<Rightarrow> u8 \<Rightarrow> nat \<Rightarrow> nat \<Rightarrow> can \<Rightarrow> bool \<times> can" where
  "can_set_receive_callback i i_mask flags callback ctx c =
     (case first_index (\<lambda>conf. fst conf = 0) (receive_conf c) of
        None \<Rightarrow> (False, c)
      | Some idx \<Rightarrow>
          (True, c\<lparr>receive_conf := (receive_conf c)[idx := (callback, ctx)],
            rx_objects := rx_objects c @
              [\<lparr>mode_id = (if flags AND CAN_FRAME_FLAG_EXT \<noteq> 0 then i OR LPC11_CAN_EXT_FLAG else i),
                mmask = i_mask, mdata = [], dlc = 0, msgobj = of_nat idx + 1\<rparr>]\<rparr>))"

definition can_unset_receive_callback :: "nat \<Rightarrow> nat \<Rightarrow> can \<Rightarrow> bool \<times> can" where
  "can_unset_receive_callback callback ctx c =
     (case first_index (\<lambda>conf. conf = (callback, ctx)) (receive_conf c) of
        None \<Rightarrow> (False, c)
      | Some idx \<Rightarrow> (True, c\<lparr>receive_conf := (receive_conf c)[idx := (0, 0)]\<rparr>))"

text \<open>
  The receive callback of the ROM driver, up to the call of the registered function: that
  function's address, its context and the frame.
\<close>

definition rx_frame :: "u8 \<Rightarrow> u8 list \<Rightarrow> can_rom_msg \<Rightarrow> fault + can_frame" where
  "rx_frame junk_flags junk msg =
     (let ext = (mode_id msg AND LPC11_CAN_EXT_FLAG \<noteq> 0)
      in if unat (dlc msg) > 8 then Inl Out_Of_Bounds
         else Inr \<lparr>fid = (if ext then mode_id msg AND NOT LPC11_CAN_EXT_FLAG else mode_id msg),
                   fflags = (if ext then CAN_FRAME_FLAG_EXT else junk_flags), data_length = dlc msg,
                   fdata = take (unat (dlc msg)) (mdata msg) @ drop (unat (dlc msg)) junk\<rparr>)"

definition can_rom_callback_rx ::
    "u8 \<Rightarrow> u8 list \<Rightarrow> u8 \<Rightarrow> can_rom_msg \<Rightarrow> can \<Rightarrow> fault + (nat \<times> nat \<times> can_frame) option" where
  "can_rom_callback_rx junk_flags junk msg_obj_num msg c =
     (if msg_obj_num = 0 \<or> unat msg_obj_num > length (receive_conf c) then Inl Out_Of_Bounds
      else
        (let (callback, ctx) = receive_conf c ! (unat msg_obj_num - 1)
         in if callback \<noteq> 0
            then map_sum id (\<lambda>frame. Some (callback, ctx, frame)) (rx_frame junk_flags junk msg)
            else Inr None))"

section \<open>Sending\<close>

definition send_msg :: "can_frame \<Rightarrow> can_rom_msg" where
  "send_msg frame =
     \<lparr>mode_id = (if fflags frame AND CAN_FRAME_FLAG_EXT \<noteq> 0 then fid frame OR LPC11_CAN_EXT_FLAG else fid frame),
      mmask = 0, mdata = fdata frame, dlc = data_length frame, msgobj = 0\<rparr>"

definition effective_flags :: "u8 \<Rightarrow> can \<Rightarrow> u8" where
  "effective_flags flags c =
     (if scheduler_in_isr (ckern c) then flags OR CAN_FLAG_NOWAIT else flags)"

definition wait_lock :: "can \<Rightarrow> can" where
  "wait_lock c =
     (let (s, k) = semaphore_wait (send_lock c) (ckern c) in c\<lparr>send_lock := s, ckern := k\<rparr>)"

definition transmit :: "can_frame \<Rightarrow> u8 \<Rightarrow> can \<Rightarrow> can" where
  "transmit frame flags c =
     c\<lparr>send_async := (flags AND CAN_FLAG_NOWAIT \<noteq> 0), transmitted := transmitted c @ [send_msg frame]\<rparr>"

definition wait_done :: "can \<Rightarrow> can" where
  "wait_done c =
     (let (s, k) = semaphore_wait (send_done c) (ckern c) in c\<lparr>send_done := s, ckern := k\<rparr>)"

definition signal_lock :: "can \<Rightarrow> can" where
  "signal_lock c =
     (let (s, k) = semaphore_signal (send_lock c) (ckern c) in c\<lparr>send_lock := s, ckern := k\<rparr>)"

text \<open>The whole call when no other thread or interrupt comes in between.\<close>

definition can_send :: "can_frame \<Rightarrow> u8 \<Rightarrow> can \<Rightarrow> can" where
  "can_send frame flags c =
     (let flags = effective_flags flags c;
          c = transmit frame flags (wait_lock c)
      in if flags AND CAN_FLAG_NOWAIT \<noteq> 0 then c else signal_lock (wait_done c))"

definition can_rom_callback_tx :: "u8 \<Rightarrow> can \<Rightarrow> fault + can" where
  "can_rom_callback_tx msg_obj_num c =
     (if \<not> msg_obj_num = 0 then Inl Assert_Failed
      else
        (let (s, k) = semaphore_signal (send_done c) (ckern c);
             c = c\<lparr>send_done := s, ckern := k\<rparr>
         in Inr (if send_async c then signal_lock c else c)))"

section \<open>Interleaving\<close>

text \<open>
  Where a thread is inside \<open>can_send\<close>: not in it; behind the wait for the lock; behind
  \<open>can_transmit\<close>; behind the wait for the end of the transmission. A thread in the queue of the
  semaphore it waited for is blocked. \<open>obj0\<close> is the message object for sending, \<open>wire\<close> what went
  onto the bus, \<open>overwritten\<close> messages that were replaced before they were sent, and \<open>returned\<close> the
  frames of the calls that waited and returned.
\<close>

datatype send_pc = Out | Locking can_frame u8 | Handed can_frame | Finishing can_frame

record csys =
  drv :: can
  pcs :: "nat \<Rightarrow> send_pc"
  obj0 :: "can_rom_msg option"
  wire :: "can_rom_msg list"
  overwritten :: "can_rom_msg list"
  returned :: "can_frame list"

definition hand_over :: "nat \<Rightarrow> can_frame \<Rightarrow> u8 \<Rightarrow> csys \<Rightarrow> csys" where
  "hand_over t frame flags x =
     x\<lparr>drv := transmit frame flags (drv x),
       pcs := (pcs x)(t := (if flags AND CAN_FLAG_NOWAIT \<noteq> 0 then Out else Handed frame)),
       overwritten := overwritten x @ (case obj0 x of None \<Rightarrow> [] | Some m \<Rightarrow> [m]), obj0 := Some (send_msg frame)\<rparr>"

text \<open>
  One step. In between the scheduler may have done anything, so the kernel is whatever it is,
  with the right current thread. The first argument restricts the flags of the calls.
\<close>

inductive can_step :: "(u8 \<Rightarrow> bool) \<Rightarrow> csys \<Rightarrow> csys \<Rightarrow> bool" for P where
  enter: "pcs x t = Out \<Longrightarrow> current_thread k = t \<Longrightarrow> - 128 < sint (svalue (send_lock (drv x))) \<Longrightarrow>
    c = (drv x)\<lparr>ckern := k\<rparr> \<Longrightarrow> P (effective_flags flags c) \<Longrightarrow>
    can_step P x (x\<lparr>drv := wait_lock c, pcs := (pcs x)(t := Locking frame (effective_flags flags c))\<rparr>)"
| hand: "pcs x t = Locking frame flags \<Longrightarrow> t \<notin> set (squeue (send_lock (drv x))) \<Longrightarrow>
    can_step P x (hand_over t frame flags x)"
| block: "pcs x t = Handed frame \<Longrightarrow> current_thread k = t \<Longrightarrow>
    can_step P x (x\<lparr>drv := wait_done ((drv x)\<lparr>ckern := k\<rparr>), pcs := (pcs x)(t := Finishing frame)\<rparr>)"
| finish: "pcs x t = Finishing frame \<Longrightarrow> t \<notin> set (squeue (send_done (drv x))) \<Longrightarrow>
    can_step P x (x\<lparr>drv := signal_lock ((drv x)\<lparr>ckern := k\<rparr>), pcs := (pcs x)(t := Out),
      returned := returned x @ [frame]\<rparr>)"
| sent_irq: "obj0 x = Some m \<Longrightarrow> can_rom_callback_tx 0 ((drv x)\<lparr>ckern := k\<rparr>) = Inr c \<Longrightarrow>
    can_step P x (x\<lparr>drv := c, obj0 := None, wire := wire x @ [m]\<rparr>)"

definition can_start :: "kernel \<Rightarrow> csys" where
  "can_start k =
     \<lparr>drv = \<lparr>receive_conf = replicate 31 (0, 0), send_lock = semaphore_init 1, send_done = semaphore_init 0,
             send_async = False, ckern = k, transmitted = [], rx_objects = [], rom_init = None\<rparr>,
      pcs = (\<lambda>_. Out), obj0 = None, wire = [], overwritten = [], returned = []\<rparr>"

section \<open>Waiting sends\<close>

text \<open>
  The invariant of waiting sends. The lock is free and nobody is inside; or one thread owns it
  and all others inside are in its queue. Where the owner is decides what the message
  object, the second semaphore and the bus hold.
\<close>

abbreviation sem_at :: "8 word \<Rightarrow> nat list \<Rightarrow> semaphore" where
  "sem_at v q \<equiv> \<lparr>svalue = v, squeue = q\<rparr>"

definition waits_only :: "u8 \<Rightarrow> bool" where
  "waits_only flags \<longleftrightarrow> flags AND CAN_FLAG_NOWAIT = 0"

fun owner_at :: "send_pc \<Rightarrow> nat \<Rightarrow> csys \<Rightarrow> bool" where
  "owner_at Out t x \<longleftrightarrow> False"
| "owner_at (Locking f fl) t x \<longleftrightarrow> waits_only fl \<and> obj0 x = None \<and> send_done (drv x) = sem_at 0 []
     \<and> wire x = map send_msg (returned x)"
| "owner_at (Handed f) t x \<longleftrightarrow>
     obj0 x = Some (send_msg f) \<and> send_done (drv x) = sem_at 0 [] \<and> wire x = map send_msg (returned x)
     \<or> obj0 x = None \<and> send_done (drv x) = sem_at 1 [] \<and> wire x = map send_msg (returned x @ [f])"
| "owner_at (Finishing f) t x \<longleftrightarrow>
     obj0 x = Some (send_msg f) \<and> send_done (drv x) = sem_at (- 1) [t] \<and> wire x = map send_msg (returned x)
     \<or> obj0 x = None \<and> send_done (drv x) = sem_at 0 [] \<and> wire x = map send_msg (returned x @ [f])"

definition unlocked :: "csys \<Rightarrow> bool" where
  "unlocked x \<longleftrightarrow> send_lock (drv x) = sem_at 1 [] \<and> (\<forall>t. pcs x t = Out) \<and> obj0 x = None
     \<and> send_done (drv x) = sem_at 0 [] \<and> wire x = map send_msg (returned x)"

definition queued :: "nat list \<Rightarrow> nat \<Rightarrow> csys \<Rightarrow> bool" where
  "queued q t x \<longleftrightarrow> squeue (send_lock (drv x)) = q \<and> sint (svalue (send_lock (drv x))) = - int (length q)
     \<and> distinct (t # q) \<and> (\<forall>u. pcs x u \<noteq> Out \<longleftrightarrow> u \<in> set (t # q))
     \<and> (\<forall>u \<in> set q. \<exists>f fl. pcs x u = Locking f fl \<and> waits_only fl)"

definition locked_by :: "nat \<Rightarrow> csys \<Rightarrow> bool" where
  "locked_by t x \<longleftrightarrow> (\<exists>q. queued q t x) \<and> owner_at (pcs x t) t x"

definition send_inv :: "csys \<Rightarrow> bool" where
  "send_inv x \<longleftrightarrow> overwritten x = [] \<and> \<not> send_async (drv x) \<and> (unlocked x \<or> (\<exists>t. locked_by t x))"

lemma wait_lock_fields [simp]:
  "send_lock (wait_lock c) = fst (semaphore_wait (send_lock c) (ckern c))"
  "send_done (wait_lock c) = send_done c" "send_async (wait_lock c) = send_async c"
  by (simp_all add: wait_lock_def split: prod.split)

lemma wait_done_fields [simp]:
  "send_done (wait_done c) = fst (semaphore_wait (send_done c) (ckern c))"
  "send_lock (wait_done c) = send_lock c" "send_async (wait_done c) = send_async c"
  by (simp_all add: wait_done_def split: prod.split)

lemma signal_lock_fields [simp]:
  "send_lock (signal_lock c) = fst (semaphore_signal (send_lock c) (ckern c))"
  "send_done (signal_lock c) = send_done c" "send_async (signal_lock c) = send_async c"
  by (simp_all add: signal_lock_def split: prod.split)

lemma transmit_fields [simp]:
  "send_lock (transmit f fl c) = send_lock c" "send_done (transmit f fl c) = send_done c"
  "send_async (transmit f fl c) \<longleftrightarrow> \<not> waits_only fl"
  by (simp_all add: transmit_def waits_only_def)

lemma callback_tx_fields:
  assumes "can_rom_callback_tx 0 c = Inr c'" "\<not> send_async c"
  shows "send_done c' = fst (semaphore_signal (send_done c) (ckern c))"
    "send_lock c' = send_lock c" "\<not> send_async c'"
  using assms by (auto simp: can_rom_callback_tx_def Let_def split: prod.splits)

lemma sem_values:
  "fst (semaphore_wait (sem_at 1 []) k) = sem_at 0 []"
  "fst (semaphore_wait (sem_at 0 []) k) = sem_at (- 1) [current_thread k]"
  "fst (semaphore_signal (sem_at 0 []) k) = sem_at 1 []"
  "fst (semaphore_signal (sem_at (- 1) [t]) k) = sem_at 0 []"
  by (simp_all add: semaphore_wait_def semaphore_signal_def Let_def word_sle_eq)

lemma queued_enter:
  assumes "queued q t x" "pcs x u = Out" "current_thread k = u" "- 128 < sint (svalue (send_lock (drv x)))" "waits_only fl"
  shows "queued (q @ [u]) t (x\<lparr>drv := wait_lock ((drv x)\<lparr>ckern := k\<rparr>), pcs := (pcs x)(u := Locking f fl)\<rparr>)"
proof -
  have "u \<notin> set (t # q)" using assms(1,2) by (auto simp: queued_def)
  moreover have "sint (svalue (send_lock (drv x)) - 1) = - int (length q) - 1"
    using assms(1,4) by (simp add: queued_def sint_sub1)
  ultimately show ?thesis using assms by (auto simp: queued_def wait_fields)
qed

lemma queued_keep:
  assumes "queued q t x" "send_lock c = send_lock (drv x)" "pc \<noteq> Out"
  shows "queued q t (x\<lparr>drv := c, pcs := (pcs x)(t := pc), obj0 := ob, overwritten := ov\<rparr>)"
    "queued q t (x\<lparr>drv := c, pcs := (pcs x)(t := pc)\<rparr>)"
  using assms by (auto simp: queued_def)

lemma send_invI:
  "queued q t x \<Longrightarrow> owner_at (pcs x t) t x \<Longrightarrow> overwritten x = [] \<Longrightarrow> \<not> send_async (drv x) \<Longrightarrow> send_inv x"
  by (auto simp: send_inv_def locked_by_def)

lemma send_inv_enter:
  assumes "send_inv x" "pcs x u = Out" "current_thread k = u" "- 128 < sint (svalue (send_lock (drv x)))" "waits_only fl"
  shows "send_inv (x\<lparr>drv := wait_lock ((drv x)\<lparr>ckern := k\<rparr>), pcs := (pcs x)(u := Locking f fl)\<rparr>)" (is "send_inv ?y")
proof (cases "unlocked x")
  case True
  then have "queued [] u ?y" using assms(5)
    by (auto simp: unlocked_def queued_def sem_values)
  moreover have "owner_at (pcs ?y u) u ?y" using True assms(5) by (simp add: unlocked_def)
  ultimately show ?thesis
    by (rule send_invI) (use assms(1) in \<open>simp_all add: send_inv_def\<close>)
next
  case False
  then obtain t q where t: "queued q t x" "owner_at (pcs x t) t x" using assms(1) by (auto simp: send_inv_def locked_by_def)
  then have "t \<noteq> u" using assms(2) by auto
  then have "owner_at (pcs ?y t) t ?y" using t(2) by (cases "pcs x t") auto
  with queued_enter [OF t(1) assms(2-5)] show ?thesis
    using assms(1) by (intro send_invI) (simp_all add: send_inv_def)
qed

text \<open>A thread inside that is not in the queue is the owner.\<close>

lemma runner_owns:
  assumes "send_inv x" "pcs x u \<noteq> Out" "u \<notin> set (squeue (send_lock (drv x))) \<or> (\<forall>f fl. pcs x u \<noteq> Locking f fl)"
  shows "\<exists>q. queued q u x" "owner_at (pcs x u) u x" "\<not> send_async (drv x)" "overwritten x = []"
proof -
  obtain t q where t: "queued q t x" "owner_at (pcs x t) t x"
    using assms by (auto simp: send_inv_def locked_by_def unlocked_def)
  then have "u = t" using assms(2,3) by (auto simp: queued_def)
  with t assms(1) show "\<exists>q. queued q u x" "owner_at (pcs x u) u x" "\<not> send_async (drv x)" "overwritten x = []"
    by (auto simp: send_inv_def)
qed

lemma send_inv_hand:
  assumes "send_inv x" "pcs x t = Locking f fl" "t \<notin> set (squeue (send_lock (drv x)))"
  shows "send_inv (hand_over t f fl x)"
proof -
  obtain q where q: "queued q t x" using runner_owns(1) [OF assms(1), of t] assms(2,3) by auto
  have own: "owner_at (Locking f fl) t x" "\<not> send_async (drv x)" "overwritten x = []"
    using runner_owns(2-4) [OF assms(1), of t] assms(2,3) by auto
  show ?thesis
    by (rule send_invI [of q t]) (use q own assms(2) in \<open>auto simp: hand_over_def queued_def waits_only_def [symmetric]\<close>)
qed

lemma send_inv_block:
  assumes "send_inv x" "pcs x t = Handed f" "current_thread k = t"
  shows "send_inv (x\<lparr>drv := wait_done ((drv x)\<lparr>ckern := k\<rparr>), pcs := (pcs x)(t := Finishing f)\<rparr>)"
proof -
  obtain q where q: "queued q t x" using runner_owns(1) [OF assms(1), of t] assms(2) by auto
  have own: "owner_at (Handed f) t x" "\<not> send_async (drv x)" "overwritten x = []"
    using runner_owns(2-4) [OF assms(1), of t] assms(2) by auto
  show ?thesis
    by (rule send_invI [of q t]) (use q own assms(2,3) in \<open>auto simp: queued_def sem_values\<close>)
qed

lemma send_inv_finish:
  assumes "send_inv x" "pcs x t = Finishing f" "t \<notin> set (squeue (send_done (drv x)))"
  shows "send_inv (x\<lparr>drv := signal_lock ((drv x)\<lparr>ckern := k\<rparr>), pcs := (pcs x)(t := Out), returned := returned x @ [f]\<rparr>)"
    (is "send_inv ?y")
proof -
  obtain q where q: "queued q t x" using runner_owns(1) [OF assms(1), of t] assms(2) by auto
  have own: "owner_at (Finishing f) t x" "\<not> send_async (drv x)" "overwritten x = []"
    using runner_owns(2-4) [OF assms(1), of t] assms(2) by auto
  then have st: "obj0 x = None" "send_done (drv x) = sem_at 0 []" "wire x = map send_msg (returned x @ [f])"
    using assms(3) by auto
  show ?thesis
  proof (cases q)
    case Nil
    then have "send_lock (drv x) = sem_at 0 []"
      using q by (cases "send_lock (drv x)") (simp add: queued_def signed_eq_0_iff)
    then have "unlocked ?y" using q Nil st by (auto simp: unlocked_def queued_def sem_values)
    then show ?thesis using own by (simp add: send_inv_def)
  next
    case (Cons u r)
    have v: "sint (svalue (send_lock (drv x)) + 1) = - int (length r)"
      using q Cons by (simp add: queued_def sint_add1)
    obtain g fl where u: "pcs x u = Locking g fl" "waits_only fl" "u \<noteq> t" using q Cons by (auto simp: queued_def)
    show ?thesis
      by (rule send_invI [of r u]) (use q Cons u v st own in \<open>auto simp: queued_def signal_fields\<close>)
  qed
qed

lemma send_inv_irq:
  assumes "send_inv x" "obj0 x = Some m" "can_rom_callback_tx 0 ((drv x)\<lparr>ckern := k\<rparr>) = Inr c"
  shows "send_inv (x\<lparr>drv := c, obj0 := None, wire := wire x @ [m]\<rparr>)" (is "send_inv ?y")
proof -
  have a: "\<not> send_async (drv x)" "overwritten x = []" using assms(1) by (auto simp: send_inv_def)
  obtain t q where t: "queued q t x" "owner_at (pcs x t) t x"
    using assms(1,2) by (auto simp: send_inv_def locked_by_def unlocked_def)
  note c = callback_tx_fields [OF assms(3)]
  have "queued q t ?y" using t(1) c(2) a by (auto simp: queued_def)
  moreover have "owner_at (pcs ?y t) t ?y"
    using t(2) c(1) a assms(2) by (cases "pcs x t") (auto simp: sem_values)
  ultimately show ?thesis using a c(3) by (intro send_invI) simp_all
qed

lemma send_inv_step: "can_step waits_only x y \<Longrightarrow> send_inv x \<Longrightarrow> send_inv y"
proof (induction rule: can_step.induct)
  case (enter x t k c flags frame)
  then show ?case by (simp only: send_inv_enter)
qed (rule send_inv_hand send_inv_block send_inv_finish send_inv_irq; assumption)+

lemma send_inv_reachable: "(can_step waits_only)\<^sup>*\<^sup>* (can_start k) x \<Longrightarrow> send_inv x"
proof (induction rule: rtranclp_induct)
  case base
  show ?case by (simp add: can_start_def send_inv_def unlocked_def semaphore_init_def)
qed (rule send_inv_step)

text \<open>Nobody is stuck: while a thread is inside, the owner can run or the hardware can finish.\<close>

lemma send_inv_progress:
  assumes "send_inv x" "pcs x u \<noteq> Out"
  shows "\<exists>t y. can_step waits_only x y \<and> (pcs y t \<noteq> pcs x t \<or> obj0 y \<noteq> obj0 x) \<and> pcs x t \<noteq> Out"
proof -
  obtain t q where t: "queued q t x" "owner_at (pcs x t) t x"
    using assms by (auto simp: send_inv_def locked_by_def unlocked_def)
  have tq: "t \<notin> set (squeue (send_lock (drv x)))" using t(1) by (auto simp: queued_def)
  show ?thesis
  proof (cases "pcs x t")
    case (Locking f fl)
    show ?thesis
      by (rule exI [of _ t], rule exI, rule conjI, rule can_step.hand [OF Locking tq]) (simp add: Locking hand_over_def)
  next
    case (Handed f)
    obtain k :: kernel where "current_thread k = t" by (meson kernel.select_convs(4))
    then show ?thesis
      by (intro exI [of _ t] exI conjI, rule can_step.block [OF Handed]) (simp_all add: Handed)
  next
    case (Finishing f)
    show ?thesis
    proof (cases "obj0 x")
      case None
      then have "t \<notin> set (squeue (send_done (drv x)))" using t(2) Finishing by auto
      note fin = can_step.finish [OF Finishing this, of waits_only undefined]
      show ?thesis by (rule exI [of _ t], rule exI, rule conjI, rule fin) (simp add: Finishing)
    next
      case (Some m)
      obtain c where "can_rom_callback_tx 0 ((drv x)\<lparr>ckern := undefined\<rparr>) = Inr c"
        by (cases "semaphore_signal (send_done (drv x)) undefined") (simp add: can_rom_callback_tx_def Let_def)
      note irq = can_step.sent_irq [OF Some this, of waits_only]
      show ?thesis by (rule exI [of _ t], rule exI, rule conjI, rule irq) (simp add: Some Finishing)
    qed
  qed (use t(2) in simp)
qed

section \<open>Frames survive the driver\<close>

lemma ext_flag: "LPC11_CAN_EXT_FLAG = 2 ^ 29" by simp

lemma id_29:
  fixes i :: u32
  assumes "i < 2 ^ 29"
  shows "\<not> bit i 29" "(i OR 2 ^ 29) AND NOT (2 ^ 29) = i" "(i OR 2 ^ 29) AND 2 ^ 29 \<noteq> 0" "i AND 2 ^ 29 = 0"
proof -
  have "take_bit 29 (unat i) = unat i"
    using assms by (simp add: word_less_nat_alt take_bit_nat_eq_self)
  then have "bit (unat i) 29 \<longleftrightarrow> 29 < (29::nat) \<and> bit (unat i) 29" by (metis bit_take_bit_iff)
  then show b: "\<not> bit i 29" by (simp add: bit_unsigned_iff)
  show "(i OR 2 ^ 29) AND NOT (2 ^ 29) = i"
    unfolding or_eq_set and_not_eq_unset using b by (intro bit_word_eqI) (auto simp: bit_simps)
  show "i AND 2 ^ 29 = 0" using b by (simp only: and_exp_eq_0_iff not_False_eq_True)
  show "(i OR 2 ^ 29) AND 2 ^ 29 \<noteq> 0"
    unfolding and_exp_eq_0_iff by (simp add: bit_simps)
qed

lemma rx_of_sent:
  assumes "fid f < 2 ^ 29" "unat (data_length f) \<le> 8" "length (fdata f) = 8" "length junk = 8"
    and "fflags f = CAN_FRAME_FLAG_EXT \<or> fflags f = 0"
  shows "rx_frame 0 junk (send_msg f) = Inr (f\<lparr>fdata :=
     take (unat (data_length f)) (fdata f) @ drop (unat (data_length f)) junk\<rparr>)"
  using assms id_29 [OF assms(1)] by (cases f) (auto simp: rx_frame_def send_msg_def Let_def)

section \<open>Running a schedule\<close>

text \<open>A schedule of events, executed; what it reaches is reachable.\<close>

datatype send_event = Enter nat can_frame u8 | Hand nat | Block nat | Finish nat | Sent

fun run_event :: "kernel \<Rightarrow> send_event \<Rightarrow> csys \<Rightarrow> csys option" where
  "run_event k (Enter t frame flags) x =
     (let c = (drv x)\<lparr>ckern := k\<lparr>current_thread := t\<rparr>\<rparr>
      in if pcs x t = Out \<and> - 128 < sint (svalue (send_lock (drv x)))
         then Some (x\<lparr>drv := wait_lock c, pcs := (pcs x)(t := Locking frame (effective_flags flags c))\<rparr>) else None)"
| "run_event k (Hand t) x =
     (case pcs x t of
        Locking frame flags \<Rightarrow>
          if t \<notin> set (squeue (send_lock (drv x)))
          then Some (hand_over t frame flags x)
          else None
      | _ \<Rightarrow> None)"
| "run_event k (Block t) x =
     (case pcs x t of
        Handed frame \<Rightarrow> Some (x\<lparr>drv := wait_done ((drv x)\<lparr>ckern := k\<lparr>current_thread := t\<rparr>\<rparr>), pcs := (pcs x)(t := Finishing frame)\<rparr>)
      | _ \<Rightarrow> None)"
| "run_event k (Finish t) x =
     (case pcs x t of
        Finishing frame \<Rightarrow>
          if t \<notin> set (squeue (send_done (drv x)))
          then Some (x\<lparr>drv := signal_lock ((drv x)\<lparr>ckern := k\<rparr>), pcs := (pcs x)(t := Out), returned := returned x @ [frame]\<rparr>)
          else None
      | _ \<Rightarrow> None)"
| "run_event k Sent x =
     (case (obj0 x, can_rom_callback_tx 0 ((drv x)\<lparr>ckern := k\<rparr>)) of
        (Some m, Inr c) \<Rightarrow> Some (x\<lparr>drv := c, obj0 := None, wire := wire x @ [m]\<rparr>)
      | _ \<Rightarrow> None)"

fun run_events :: "kernel \<Rightarrow> send_event list \<Rightarrow> csys \<Rightarrow> csys option" where
  "run_events k [] x = Some x"
| "run_events k (e # es) x = (case run_event k e x of None \<Rightarrow> None | Some y \<Rightarrow> run_events k es y)"

fun event_flags :: "send_event \<Rightarrow> u8 option" where
  "event_flags (Enter t frame flags) = Some flags"
| "event_flags e = None"

lemma run_event_step:
  assumes "run_event k e x = Some y" "in_isr_count k = 0" "pred_option P (event_flags e)"
  shows "can_step P x y"
  using assms
proof (cases e)
  case (Enter t f fl)
  have "effective_flags fl ((drv x)\<lparr>ckern := k\<lparr>current_thread := t\<rparr>\<rparr>) = fl"
    using assms(2) by (simp add: effective_flags_def scheduler_in_isr_def)
  with Enter assms(1,3) show ?thesis
    using can_step.enter [of x t "k\<lparr>current_thread := t\<rparr>" "(drv x)\<lparr>ckern := k\<lparr>current_thread := t\<rparr>\<rparr>" P fl f]
    by (simp add: Let_def split: if_splits)
qed (auto split: send_pc.splits if_splits option.splits sum.splits
       intro: can_step.hand can_step.block can_step.finish can_step.sent_irq)

lemma run_events_reach:
  "run_events k es x = Some y \<Longrightarrow> in_isr_count k = 0 \<Longrightarrow> list_all (\<lambda>e. pred_option P (event_flags e)) es \<Longrightarrow>
     (can_step P)\<^sup>*\<^sup>* x y"
proof (induction es arbitrary: x)
  case (Cons e es)
  then obtain z where z: "run_event k e x = Some z" "run_events k es z = Some y"
    by (auto split: option.splits)
  have "can_step P x z" using run_event_step [OF z(1)] Cons.prems by simp
  then show ?case using Cons.IH [OF z(2)] Cons.prems by (simp add: converse_rtranclp_into_rtranclp)
qed simp

definition demo_frame :: "u32 \<Rightarrow> can_frame" where
  "demo_frame i = \<lparr>fid = i, fflags = CAN_FRAME_FLAG_EXT, data_length = 2, fdata = [1, 2, 0, 0, 0, 0, 0, 0]\<rparr>"

lemmas send_eval = hand_over_def can_start_def semaphore_init_def wait_lock_def wait_done_def signal_lock_def transmit_def
  semaphore_wait_def semaphore_signal_def can_rom_callback_tx_def effective_flags_def scheduler_in_isr_def

lemma first_index_some:
  assumes "first_index P xs = Some i"
  shows "i < length xs" "P (xs ! i)"
  using assms nth_length_takeWhile [of "\<lambda>x. \<not> P x" xs] by (auto simp: first_index_def Let_def split: if_splits)

lemma first_index_none: "first_index P xs = None \<longleftrightarrow> (\<forall>x \<in> set xs. \<not> P x)"
proof
  assume "first_index P xs = None"
  then have "length (takeWhile (\<lambda>x. \<not> P x) xs) = length xs"
    using length_takeWhile_le [of "\<lambda>x. \<not> P x" xs] by (auto simp: first_index_def Let_def split: if_splits)
  then have "takeWhile (\<lambda>x. \<not> P x) xs = xs" by (metis append_eq_conv_conj takeWhile_dropWhile_id take_all_iff order_refl)
  then show "\<forall>x \<in> set xs. \<not> P x" by (metis set_takeWhileD)
next
  assume "\<forall>x \<in> set xs. \<not> P x"
  then have "length (takeWhile (\<lambda>x. \<not> P x) xs) = length xs" by (metis takeWhile_eq_all_conv)
  then show "first_index P xs = None" by (simp only: first_index_def Let_def less_irrefl if_False)
qed

section \<open>Properties\<close>

text \<open>
  C7. Waiting sends are exclusive and complete: however the calls of \<open>can_send\<close> without
  \<open>CAN_FLAG_NOWAIT\<close> of any number of threads interleave with each other, with the scheduler and
  with the transmit interrupts, no message is overwritten before it was sent; the frames of the
  calls that returned went onto the bus, in the order in which the calls returned, and at most
  one more message did; and while a thread is inside the call, a thread inside can go on or
  the hardware can finish a message.
\<close>

theorem waiting_sends_complete:
  assumes "(can_step waits_only)\<^sup>*\<^sup>* (can_start k) x"
  shows "overwritten x = []
     \<and> (\<exists>f. wire x = map send_msg (returned x) \<or> wire x = map send_msg (returned x @ [f]))
     \<and> ((\<exists>u. pcs x u \<noteq> Out) \<longrightarrow>
          (\<exists>t y. can_step waits_only x y \<and> (pcs y t \<noteq> pcs x t \<or> obj0 y \<noteq> obj0 x) \<and> pcs x t \<noteq> Out))"
proof -
  note inv = send_inv_reachable [OF assms]
  have "\<exists>f. wire x = map send_msg (returned x) \<or> wire x = map send_msg (returned x @ [f])"
  proof (cases "unlocked x")
    case False
    then obtain t where "owner_at (pcs x t) t x" using inv by (auto simp: send_inv_def locked_by_def)
    then show ?thesis by (cases "pcs x t") auto
  qed (simp add: unlocked_def)
  with inv send_inv_progress [OF inv] show ?thesis by (simp add: send_inv_def) blast
qed

theorem waiting_sends_complete_witness:
  "\<exists>x. (can_step waits_only)\<^sup>*\<^sup>* (can_start demo_kernel) x \<and> returned x = [demo_frame 5]
     \<and> overwritten x = [] \<and> (\<exists>u. pcs x u \<noteq> Out)"
proof -
  let ?es = "[Enter 1 (demo_frame 5) 0, Hand 1, Enter 2 (demo_frame 6) 0, Sent, Block 1, Finish 1, Hand 2]"
  obtain x where x: "run_events demo_kernel ?es (can_start demo_kernel) = Some x"
    "returned x = [demo_frame 5]" "pcs x 2 \<noteq> Out"
    by (simp add: send_eval demo_kernel_def word_sle_eq)
  have "(can_step waits_only)\<^sup>*\<^sup>* (can_start demo_kernel) x"
    by (rule run_events_reach [OF x(1)]) (simp_all add: demo_kernel_def waits_only_def)
  with waiting_sends_complete [OF this] x(2,3) show ?thesis by auto
qed

text \<open>
  A send without waiting breaks the next one that waits: its interrupt signals the end of the
  transmission to nobody, so the next call returns while its frame is still in the message
  object and gives the lock away; the frame after it then overwrites it.
\<close>

lemma nowait_send_breaks_waiting:
  "\<exists>x. (can_step (\<lambda>_. True))\<^sup>*\<^sup>* (can_start demo_kernel) x \<and> returned x = [demo_frame 6]
     \<and> wire x = [send_msg (demo_frame 5)] \<and> overwritten x = [send_msg (demo_frame 6)]"
proof -
  let ?es = "[Enter 1 (demo_frame 5) CAN_FLAG_NOWAIT, Hand 1, Sent, Enter 2 (demo_frame 6) 0, Hand 2, Block 2,
    Finish 2, Enter 3 (demo_frame 7) 0, Hand 3]"
  obtain x where x: "run_events demo_kernel ?es (can_start demo_kernel) = Some x"
    "returned x = [demo_frame 6]" "wire x = [send_msg (demo_frame 5)]" "overwritten x = [send_msg (demo_frame 6)]"
    by (simp add: send_eval demo_kernel_def word_sle_eq)
  have "(can_step (\<lambda>_. True))\<^sup>*\<^sup>* (can_start demo_kernel) x"
    by (rule run_events_reach [OF x(1)]) (simp_all add: demo_kernel_def)
  with x(2-) show ?thesis by blast
qed

text \<open>
  A registered callback gets the frames of its message object: registering fails only when all
  31 objects are taken; otherwise the driver configures an object that was free with the
  identifier and mask, no other registration changes, and when a frame with a
  29 bit identifier that was sent through \<open>send_msg\<close> arrives in that object, the callback is
  called with its context and with this frame, up to the bytes behind the data.
\<close>

theorem registered_callback_gets_frame:
  assumes "length (receive_conf c) = 31" "cb \<noteq> 0"
    and "fid f < 2 ^ 29" "unat (data_length f) \<le> 8" "length (fdata f) = 8" "length junk = 8"
    and "fflags f = CAN_FRAME_FLAG_EXT"
  shows "(fst (can_set_receive_callback i m fl cb ctx c) \<longleftrightarrow> 0 \<in> fst ` set (receive_conf c))
     \<and> (\<forall>c'. can_set_receive_callback i m fl cb ctx c = (True, c') \<longrightarrow>
          (\<exists>n. n < 31 \<and> receive_conf c' = (receive_conf c)[n := (cb, ctx)] \<and> fst (receive_conf c ! n) = 0
            \<and> msgobj (last (rx_objects c')) = of_nat (Suc n) \<and> mmask (last (rx_objects c')) = m
            \<and> (\<exists>frame. can_rom_callback_rx 0 junk (of_nat (Suc n)) (send_msg f) c' = Inr (Some (cb, ctx, frame))
                 \<and> fid frame = fid f \<and> fflags frame = fflags f \<and> data_length frame = data_length f
                 \<and> take (unat (data_length f)) (fdata frame) = take (unat (data_length f)) (fdata f))))"
proof (intro conjI allI impI)
  have "(\<forall>x \<in> set (receive_conf c). fst x \<noteq> 0) \<longleftrightarrow> 0 \<notin> fst ` set (receive_conf c)" by force
  then show "fst (can_set_receive_callback i m fl cb ctx c) \<longleftrightarrow> 0 \<in> fst ` set (receive_conf c)"
    using first_index_none [of "\<lambda>conf. fst conf = 0" "receive_conf c"]
    by (auto simp: can_set_receive_callback_def split: option.splits)
next
  fix c' assume "can_set_receive_callback i m fl cb ctx c = (True, c')"
  then obtain n where n: "first_index (\<lambda>conf. fst conf = 0) (receive_conf c) = Some n"
    and c': "receive_conf c' = (receive_conf c)[n := (cb, ctx)]" "msgobj (last (rx_objects c')) = of_nat n + 1"
      "mmask (last (rx_objects c')) = m"
    by (auto simp: can_set_receive_callback_def split: option.splits)
  have lt: "n < 31" "fst (receive_conf c ! n) = 0" using first_index_some [OF n] assms(1) by auto
  have u: "unat (of_nat (Suc n) :: u8) = Suc n" using lt(1) by (simp add: unat_of_nat del: of_nat_Suc)
  then have nz: "(of_nat (Suc n) :: u8) \<noteq> 0" by (metis unat_0 nat.distinct(1))
  let ?f = "f\<lparr>fdata := take (unat (data_length f)) (fdata f) @ drop (unat (data_length f)) junk\<rparr>"
  have "can_rom_callback_rx 0 junk (of_nat (Suc n)) (send_msg f) c' = Inr (Some (cb, ctx, ?f))"
    using rx_of_sent [OF assms(3-6)] assms(1,2,7) lt(1) nz
    by (simp add: can_rom_callback_rx_def u c'(1) del: of_nat_Suc)
  then show "\<exists>n. n < 31 \<and> receive_conf c' = (receive_conf c)[n := (cb, ctx)] \<and> fst (receive_conf c ! n) = 0
      \<and> msgobj (last (rx_objects c')) = of_nat (Suc n) \<and> mmask (last (rx_objects c')) = m
      \<and> (\<exists>frame. can_rom_callback_rx 0 junk (of_nat (Suc n)) (send_msg f) c' = Inr (Some (cb, ctx, frame))
           \<and> fid frame = fid f \<and> fflags frame = fflags f \<and> data_length frame = data_length f
           \<and> take (unat (data_length f)) (fdata frame) = take (unat (data_length f)) (fdata f))"
    using lt c' assms(4,5) by (intro exI [of _ n] conjI exI [of _ ?f]) (simp_all add: add.commute)
qed

theorem registered_callback_gets_frame_witness:
  "fst (can_set_receive_callback 0 0x1FF00000 1 7 9 (drv (can_start demo_kernel)))
   \<and> (\<exists>c' frame. can_set_receive_callback 0 0x1FF00000 1 7 9 (drv (can_start demo_kernel)) = (True, c')
       \<and> can_rom_callback_rx 0 (replicate 8 0) 1 (send_msg (demo_frame 5)) c' = Inr (Some (7, 9, frame)) \<and> fid frame = 5)"
proof -
  let ?c = "drv (can_start demo_kernel)"
  note rg = registered_callback_gets_frame [of ?c 7 "demo_frame 5" "replicate 8 0" 0 "0x1FF00000" 1 9]
  have ok: "fst (can_set_receive_callback 0 0x1FF00000 1 7 9 ?c)"
    using rg by (simp add: can_start_def demo_frame_def)
  then obtain c' where c': "can_set_receive_callback 0 0x1FF00000 1 7 9 ?c = (True, c')"
    by (metis prod.collapse)
  then have "msgobj (last (rx_objects c')) = 1"
    by (auto simp: can_set_receive_callback_def can_start_def first_index_def)
  with ok c' rg show ?thesis
    by (auto simp: can_start_def demo_frame_def simp del: of_nat_Suc)
qed

end
