(* ===== verification/FW_Result.thy ===== *)
theory FW_Result
  imports FW_Prelude
begin

text \<open>
  Results of functions that can fault or not return, and their sequential composition: \<open>None\<close> is a call that does not return,
  \<open>Inl\<close> a fault.
\<close>

type_synonym 'a res = "(fault + 'a) option"

definition rbind :: "'a res \<Rightarrow> ('a \<Rightarrow> 'b res) \<Rightarrow> 'b res" where
  "rbind r f = (case r of None \<Rightarrow> None | Some (Inl e) \<Rightarrow> Some (Inl e) | Some (Inr x) \<Rightarrow> f x)"

abbreviation ok :: "'a \<Rightarrow> 'a res" where "ok x \<equiv> Some (Inr x)"

lemma rbind_simps [simp]:
  "rbind None f = None" "rbind (Some (Inl e)) f = Some (Inl e)" "rbind (ok x) f = f x"
  by (simp_all add: rbind_def)

lemma rbind_cong [fundef_cong]:
  "r = r' \<Longrightarrow> (\<And>x. r' = ok x \<Longrightarrow> f x = g x) \<Longrightarrow> rbind r f = rbind r' g"
  by (simp add: rbind_def split: option.split sum.split)

lemma rbind_eq_ok: "rbind r f = ok y \<longleftrightarrow> (\<exists>x. r = ok x \<and> f x = ok y)"
  by (auto simp: rbind_def split: option.splits sum.splits)

end
