(* ===== verification/Lib_Console_Out.thy ===== *)
theory Lib_Console_Out
  imports Lib_Console Plat_Can FW_Result
begin

text \<open>
  What is printed on the console by \<open>printf\<close> and the command \<open>help\<close> of \<^verbatim>\<open>src/lib/console/console.c\<close>, and by
  the error callback of the CAN driver, \<^verbatim>\<open>src/platform/lpc11xx/net/can/can_rom.c\<close>.

  \<^item> \<open>global\<close> says whether there is a \<open>global_console\<close>; its file is the output of the state. \<open>printf\<close>
    appends what \<open>render\<close> yields, as shown for \<open>vfprintf\<close> in \<^verbatim>\<open>Lib_Printf\<close>. \<open>None\<close> is a string without an end.

  Shown: \<open>help\<close> lists the commands in the order of the section; the error callback
  names exactly the errors whose bits are set; before a console exists both fault.
\<close>

definition console_printf :: "bool \<Rightarrow> piece list \<Rightarrow> u32 list \<Rightarrow> line \<Rightarrow> line res" where
  "console_printf global ps args x =
     (if \<not> global then Some (Inl Null_Deref)
      else map_option (\<lambda>s. Inr (put s x)) (render (lmem x) ps args))"

section \<open>help\<close>

fun help_loop :: "bool \<Rightarrow> command list \<Rightarrow> line \<Rightarrow> line res" where
  "help_loop global [] x = ok x"
| "help_loop global (c # cs) x =
     rbind (console_printf global (lit ''  - '' @ [pct Conv_s] @ crlf) [cmd_name c] x) (help_loop global cs)"

definition console_help_cmd :: "bool \<Rightarrow> command list \<Rightarrow> u32 list \<Rightarrow> line \<Rightarrow> (u32 \<times> line) res" where
  "console_help_cmd global cmds argv x =
     rbind (console_printf global (lit ''Known commands:'' @ crlf) [] x) (\<lambda>x.
     rbind (help_loop global cmds x) (\<lambda>x. ok (0, x)))"

definition help_text :: "(command \<Rightarrow> u8 list) \<Rightarrow> command list \<Rightarrow> u8 list" where
  "help_text nm cmds = chars ''Known commands:'' @ [0x0D, 0x0A]
     @ concat (map (\<lambda>c. chars ''  - '' @ nm c @ [0x0D, 0x0A]) cmds)"

lemma put_simps [simp]: "lmem (put s x) = lmem x" "lout (put s x) = lout x @ s" "put b (put a x) = put (a @ b) x"
  "put [] x = x"
  by (simp_all add: put_def)

lemma help_loop_lists:
  assumes "\<forall>c \<in> set cmds. string_at (lmem x) (cmd_name c) (nm c)"
  shows "help_loop True cmds x = ok (put (concat (map (\<lambda>c. chars ''  - '' @ nm c @ [0x0D, 0x0A]) cmds)) x)"
  using assms
proof (induction cmds arbitrary: x)
  case (Cons c cs)
  then have "string_at (lmem x) (cmd_name c) (nm c)" by simp
  from render_s [OF this, of crlf "[]"] Cons show ?case by (simp add: console_printf_def render_lit)
qed simp

lemma help_lists:
  assumes "\<forall>c \<in> set cmds. string_at (lmem x) (cmd_name c) (nm c)"
  shows "console_help_cmd True cmds argv x = ok (0, put (help_text nm cmds) x)"
  using help_loop_lists [of cmds "put (chars ''Known commands:'' @ [0x0D, 0x0A]) x" nm] assms
  by (simp add: console_help_cmd_def console_printf_def render_lit help_text_def)

section \<open>The error callback of the CAN driver\<close>

definition can_error_names :: "(u32 \<times> string) list" where
  "can_error_names =
     [(0x1, ''  [pass]''), (0x2, ''  [warn]''), (0x4, ''  [boff]''), (0x8, ''  [stuf]''), (0x10, ''  [form]''),
      (0x20, ''  [ack]''), (0x40, ''  [bit1]''), (0x80, ''  [bit0]''), (0x100, ''  [crc]'')]"

fun print_errors :: "bool \<Rightarrow> u32 \<Rightarrow> (u32 \<times> string) list \<Rightarrow> line \<Rightarrow> line res" where
  "print_errors global info [] x = ok x"
| "print_errors global info ((flag, name) # fs) x =
     rbind (if info AND flag \<noteq> 0 then console_printf global (lit name) [] x else ok x) (print_errors global info fs)"

definition can_rom_callback_error :: "bool \<Rightarrow> u32 \<Rightarrow> line \<Rightarrow> line res" where
  "can_rom_callback_error global info x =
     rbind (console_printf global (lit ''CAN ERROR '' @ [pct Conv_x]) [info] x) (\<lambda>x.
     rbind (print_errors global info can_error_names x) (\<lambda>x.
     console_printf global crlf [] x))"

lemma print_errors_text:
  "print_errors True info fs x = ok (put (concat (map (\<lambda>(flag, name). chars name) (filter (\<lambda>(flag, name). info AND flag \<noteq> 0) fs))) x)"
proof (induction fs arbitrary: x)
  case (Cons f fs)
  then show ?case using render_lit [of "lmem x" "snd f" "[]" "[]"] by (cases f) (simp add: console_printf_def)
qed simp

text \<open>
  The error callback of the CAN driver prints the error word and then the name of exactly
  the errors whose bits are set, in the order of the bits; without a console it dereferences \<open>NULL\<close>.
\<close>

theorem can_errors_named:
  "can_rom_callback_error global info x =
     (if global then ok (put (chars ''CAN ERROR '' @ (0x30 # 0x78 # number_text 16 0 True info)
        @ concat (map (\<lambda>i. chars (snd (can_error_names ! i))) (filter (bit info) [0..<9])) @ [0x0D, 0x0A]) x)
      else Some (Inl Null_Deref))"
proof -
  have flags: "filter (\<lambda>(flag, name). info AND flag \<noteq> 0) can_error_names = map ((!) can_error_names) (filter (bit info) [0..<9])"
  proof -
    have "can_error_names = map ((!) can_error_names) [0..<9]"
      by (simp add: can_error_names_def upt_rec)
    then have "filter P can_error_names = map ((!) can_error_names) (filter (P \<circ> (!) can_error_names) [0..<9])" for P
      by (metis filter_map)
    moreover have "case_prod (\<lambda>flag name. info AND flag \<noteq> 0) (can_error_names ! i) = bit info i" if "i < 9" for i
    proof -
      have "fst (can_error_names ! i) = push_bit i 1"
        using that by (auto simp: can_error_names_def numeral_eq_Suc less_Suc_eq push_bit_eq_mult)
      then show ?thesis by (simp add: case_prod_beta bit_iff_and_push_bit_not_eq_0)
    qed
    ultimately show ?thesis by (auto intro!: arg_cong [of _ _ "map _"] filter_cong)
  qed
  show ?thesis
    by (simp add: can_rom_callback_error_def console_printf_def render_lit print_errors_text flags comp_def case_prod_beta
        width_def horner_def)
qed

end
