(* ===== verification/Lib_Vfs.thy ===== *)
theory Lib_Vfs
  imports Core_String
begin

text \<open>
  The virtual file system: \<^verbatim>\<open>src/lib/vfs/vfs.c\<close> and \<^verbatim>\<open>vfs.h\<close>.

  \<^item> A \<open>vnode_t\<close> is a regular file, a directory of the static file system with its entries (up to
    the entry whose name is \<open>NULL\<close>), or a callable; a \<open>NULL\<close> node is \<open>None\<close>.
  \<^item> Names and paths are strings in memory; an outer \<open>None\<close> is a search that finds no terminator.
  \<^item> \<open>vfs_lookup\<close> takes the lookup operation of the directories as a parameter, as the code takes
    it from the operations of the node. The locale \<open>dir_ops\<close> is the contract that \<^verbatim>\<open>vfs.h\<close> states
    for it (a \<open>/\<close> in the name counts as its end); the static file system interprets it.
\<close>

section \<open>Nodes\<close>

datatype vnode =
    Reg nat
  | Dir "(u32 \<times> vnode) list"
  | Callable nat

datatype vnode_kind_t = VNODE_KIND_REG | VNODE_KIND_DIR | VNODE_KIND_CALLABLE

fun vnode_get_kind :: "vnode \<Rightarrow> vnode_kind_t" where
  "vnode_get_kind (Reg f) = VNODE_KIND_REG"
| "vnode_get_kind (Dir es) = VNODE_KIND_DIR"
| "vnode_get_kind (Callable f) = VNODE_KIND_CALLABLE"

fun vnode_open :: "vnode \<Rightarrow> nat option" where
  "vnode_open (Reg f) = Some f"
| "vnode_open _ = None"

text \<open>The functions of the callable nodes are given by \<open>funcs\<close>.\<close>

fun vnode_call :: "(nat \<Rightarrow> u32 list \<Rightarrow> 's \<Rightarrow> int \<times> 's) \<Rightarrow> vnode \<Rightarrow> u32 list \<Rightarrow> 's \<Rightarrow> int \<times> 's" where
  "vnode_call funcs (Callable f) argv x = funcs f argv x"
| "vnode_call funcs _ argv x = (- 1, x)"

section \<open>The static file system\<close>

fun staticfs_find :: "cmem \<Rightarrow> (u32 \<times> vnode) list \<Rightarrow> u32 \<Rightarrow> u32 \<Rightarrow> vnode option option" where
  "staticfs_find m [] name len = Some None"
| "staticfs_find m ((entry, v) # es) name len =
     Option.bind (strlen m entry) (\<lambda>l.
       if l \<noteq> len then staticfs_find m es name len
       else if strncmp m entry name (unat len) = 0 then Some (Some v)
       else staticfs_find m es name len)"

definition staticfs_lookup :: "cmem \<Rightarrow> (u32 \<times> vnode) list \<Rightarrow> u32 \<Rightarrow> vnode option option" where
  "staticfs_lookup m es name =
     Option.bind (strchr m name 0x2F) (\<lambda>deli.
       Option.bind (if deli \<noteq> 0 then Some (deli - name) else strlen m name) (\<lambda>len.
         staticfs_find m es name len))"

fun staticfs_readdir ::
    "(u32 \<times> vnode) list \<Rightarrow> (u32 \<Rightarrow> vnode \<Rightarrow> 's \<Rightarrow> 's) \<Rightarrow> 's \<Rightarrow> 's" where
  "staticfs_readdir [] callback x = x"
| "staticfs_readdir ((entry, v) # es) callback x = staticfs_readdir es callback (callback entry v x)"

fun vnode_lookup :: "cmem \<Rightarrow> vnode \<Rightarrow> u32 \<Rightarrow> vnode option option" where
  "vnode_lookup m (Dir es) name = staticfs_lookup m es name"
| "vnode_lookup m _ name = Some None"

fun vnode_readdir :: "vnode \<Rightarrow> (u32 \<Rightarrow> vnode \<Rightarrow> 's \<Rightarrow> 's) \<Rightarrow> 's \<Rightarrow> 's" where
  "vnode_readdir (Dir es) callback x = staticfs_readdir es callback x"
| "vnode_readdir _ callback x = x"

section \<open>Looking up a path\<close>

partial_function (option) vfs_lookup ::
    "(cmem \<Rightarrow> 'd \<Rightarrow> u32 \<Rightarrow> 'd option option) \<Rightarrow> cmem \<Rightarrow> 'd option \<Rightarrow> u32 \<Rightarrow> 'd option option" where
  "vfs_lookup lookup m node path =
     (case node of
        None \<Rightarrow> Some None
      | Some d \<Rightarrow>
          if path = 0 then Some (Some d)
          else Option.bind (lookup m d path) (\<lambda>node.
                 Option.bind (strchr m path 0x2F) (\<lambda>path.
                   if path = 0 then Some node else vfs_lookup lookup m node (path + 1))))"

section \<open>Reference: resolving the components of a path\<close>

fun split_path :: "u8 list \<Rightarrow> u8 list list" where
  "split_path [] = [[]]"
| "split_path (c # s) =
     (if c = 0x2F then [] # split_path s
      else case split_path s of [] \<Rightarrow> [[c]] | w # ws \<Rightarrow> (c # w) # ws)"

fun resolve :: "('d \<Rightarrow> u8 list \<Rightarrow> 'd option) \<Rightarrow> 'd \<Rightarrow> u8 list list \<Rightarrow> 'd option" where
  "resolve sub d [] = Some d"
| "resolve sub d (c # cs) = Option.bind (sub d c) (\<lambda>d. resolve sub d cs)"

lemma split_path_noslash: "0x2F \<notin> set c \<Longrightarrow> split_path c = [c]"
  by (induction c) auto

lemma split_path_slash: "0x2F \<notin> set c \<Longrightarrow> split_path (c @ 0x2F # r) = c # split_path r"
  by (induction c) auto

text \<open>
  The contract of a directory implementation: \<open>sub\<close> is the entry with a given name, \<open>valid\<close> says
  that the directory is well formed in the memory.
\<close>

locale dir_ops =
  fixes lookup :: "cmem \<Rightarrow> 'd \<Rightarrow> u32 \<Rightarrow> 'd option option"
    and sub :: "'d \<Rightarrow> u8 list \<Rightarrow> 'd option"
    and valid :: "cmem \<Rightarrow> 'd \<Rightarrow> bool"
  assumes lookup_component:
      "valid m d \<Longrightarrow> cstr m p (c @ r) \<Longrightarrow> 0x2F \<notin> set c \<Longrightarrow> r = [] \<or> hd r = 0x2F \<Longrightarrow>
       p \<noteq> 0 \<Longrightarrow> unat p + length (c @ r) < 2 ^ 32 \<Longrightarrow> lookup m d p = Some (sub d c)"
    and valid_sub: "valid m d \<Longrightarrow> sub d c = Some e \<Longrightarrow> valid m e"
begin

lemma vfs_lookup_None: "vfs_lookup lookup m None p = Some None"
  by (subst vfs_lookup.simps) simp

lemma vfs_lookup_path:
  assumes "valid m d" "cstr m p s" "p \<noteq> 0" "unat p + length s < 2 ^ 32"
  shows "vfs_lookup lookup m (Some d) p = Some (resolve sub d (split_path s))"
  using assms
proof (induction "length s" arbitrary: d p s rule: less_induct)
  case less
  let ?c = "takeWhile (\<lambda>x. x \<noteq> 0x2F) s" and ?r = "dropWhile (\<lambda>x. x \<noteq> 0x2F) s"
  have c: "0x2F \<notin> set ?c" by (auto dest: set_takeWhileD)
  have r: "?r = [] \<or> hd ?r = 0x2F" using hd_dropWhile [of "\<lambda>x. x \<noteq> 0x2F" s] by blast
  have lk: "lookup m d p = Some (sub d ?c)"
    using less.prems c r by (intro lookup_component [where r = ?r]) auto
  have ch: "strchr m p 0x2F = Some (if 0x2F \<in> set s then p + of_nat (length ?c) else 0)"
    using strchr_char [OF less.prems(2), of "0x2F"] by simp
  show ?case
  proof (cases "0x2F \<in> set s")
    case False
    then have "?c = s" unfolding takeWhile_eq_all_conv by blast
    with lk have "lookup m d p = Some (sub d s)" by (simp only:)
    then show ?thesis using ch False less.prems(3) split_path_noslash [of s]
      by (subst vfs_lookup.simps) (simp split: option.split)
  next
    case True
    then obtain r' where r': "?r = 0x2F # r'" using r by (cases ?r) (auto simp: dropWhile_eq_Nil_conv)
    then have s: "s = ?c @ 0x2F # r'" by (metis takeWhile_dropWhile_id)
    then have len: "length s = length ?c + Suc (length r')" by (metis length_Cons length_append)
    let ?q = "p + of_nat (length ?c) + 1"
    have u: "unat (p + of_nat (length ?c)) = unat p + length ?c" using less.prems(4) len by (intro unat_off) simp
    have u1: "unat ?q = unat p + Suc (length ?c)" using unat_off [of p "Suc (length ?c)"] less.prems(4) len by (simp add: ac_simps)
    then have q: "unat ?q + length r' < 2 ^ 32" "unat ?q \<noteq> 0" using less.prems(4) len by linarith+
    then have q0: "?q \<noteq> 0" by (metis unat_0)
    have "cstr m ?q r'" using less.prems(2) s cstr_append [of m p ?c "0x2F # r'"] by simp
    then have ih: "valid m e \<Longrightarrow> vfs_lookup lookup m (Some e) ?q = Some (resolve sub e (split_path r'))" for e
      using less.hyps [OF _ _ _ q0 q(1)] len by simp
    have "p + of_nat (length ?c) \<noteq> 0" using u less.prems(3) by (metis add_is_0 unat_0 unat_eq_zero)
    then have "vfs_lookup lookup m (Some d) p = vfs_lookup lookup m (sub d ?c) ?q"
      using lk ch True less.prems(3) by (subst vfs_lookup.simps) simp
    also have "\<dots> = Some (resolve sub d (?c # split_path r'))"
      using ih valid_sub [OF less.prems(1)] vfs_lookup_None by (cases "sub d ?c") auto
    also have "?c # split_path r' = split_path s" using split_path_slash [OF c, of r'] s by simp
    finally show ?thesis .
  qed
qed

end

section \<open>The static file system fulfils the contract\<close>

text \<open>\<open>nm\<close> gives the text of a name pointer; the names of a tree are strings without \<open>/\<close>.\<close>

fun static_sub :: "(u32 \<Rightarrow> u8 list) \<Rightarrow> vnode \<Rightarrow> u8 list \<Rightarrow> vnode option" where
  "static_sub nm (Dir es) c = map_option snd (find (\<lambda>(e, v). nm e = c) es)"
| "static_sub nm _ c = None"

fun static_valid :: "(u32 \<Rightarrow> u8 list) \<Rightarrow> cmem \<Rightarrow> vnode \<Rightarrow> bool" where
  "static_valid nm m (Dir es) =
     list_all (\<lambda>(e, v). cstr m e (nm e) \<and> length (nm e) < 2 ^ 32 \<and> 0x2F \<notin> set (nm e) \<and> static_valid nm m v) es"
| "static_valid nm m _ = True"

lemma strncmp_prefix:
  assumes "cstr m e n" "cstr m p (c @ r)" "length n = length c"
  shows "strncmp m e p (length c) = 0 \<longleftrightarrow> n = c"
  using strncmp_cstr [OF assms(1,2), of "length c"] assms(3) by (simp add: str_order_eq_0)

lemma staticfs_find_ref:
  assumes "static_valid nm m (Dir es)" "cstr m p (c @ r)" "length c < 2 ^ 32"
  shows "staticfs_find m es p (of_nat (length c)) = Some (static_sub nm (Dir es) c)"
  using assms(1)
proof (induction es)
  case (Cons a es)
  obtain e v where a: "a = (e, v)" by fastforce
  then have e: "cstr m e (nm e)" "length (nm e) < 2 ^ 32" using Cons.prems by auto
  have "(of_nat (length (nm e)) :: u32) = of_nat (length c) \<longleftrightarrow> length (nm e) = length c"
    using off_eq [of "length (nm e)" "length c" 0] e(2) assms(3) by simp
  then show ?case
    using Cons a strlen_cstr [OF e(1)] strncmp_prefix [OF e(1) assms(2)] assms(3)
    by (auto simp: unat_of_nat)
qed simp

lemma vnode_lookup_ref:
  assumes "static_valid nm m v" "cstr m p (c @ r)" "0x2F \<notin> set c" "r = [] \<or> hd r = 0x2F" "p \<noteq> 0"
    and "unat p + length (c @ r) < 2 ^ 32"
  shows "vnode_lookup m v p = Some (static_sub nm v c)"
proof (cases v)
  case (Dir es)
  have t: "takeWhile (\<lambda>y. y \<noteq> 0x2F) (c @ r) = c" using assms(3,4) by (cases r) (auto simp: takeWhile_append)
  have "unat (p + of_nat (length c)) = unat p + length c" using assms(6) by (intro unat_off) simp
  then have nz: "p + of_nat (length c) \<noteq> 0" using assms(5) by (metis add_is_0 unat_0 unat_eq_zero)
  have len: "Option.bind (strchr m p 0x2F) (\<lambda>deli.
       Option.bind (if deli \<noteq> 0 then Some (deli - p) else strlen m p) f) = f (of_nat (length c))" for f :: "u32 \<Rightarrow> vnode option option"
  proof (cases r)
    case Nil
    then show ?thesis using strchr_char [OF assms(2), of "0x2F"] assms(3) strlen_cstr [OF assms(2)] by simp
  next
    case (Cons y r')
    then show ?thesis using strchr_char [OF assms(2), of "0x2F"] t nz assms(4) by simp
  qed
  show ?thesis using staticfs_find_ref [of nm m es p c r] assms(1,2,6) Dir
    unfolding Dir vnode_lookup.simps staticfs_lookup_def len by simp
qed simp_all

lemma static_valid_sub: "static_valid nm m v \<Longrightarrow> static_sub nm v c = Some e \<Longrightarrow> static_valid nm m e"
  by (cases v) (auto simp: list_all_iff find_Some_iff split: prod.splits dest!: nth_mem)

interpretation static: dir_ops vnode_lookup "static_sub nm" "static_valid nm" for nm
  by unfold_locales (auto intro: vnode_lookup_ref static_valid_sub)

section \<open>Properties\<close>

text \<open>
  C36. \<open>vfs_lookup\<close> resolves paths: on a static file system whose names are strings without \<open>/\<close>,
  \<open>vfs_lookup\<close> of any path string ends and returns the node that following the components between
  the slashes from the root leads to, or \<open>NULL\<close> if a component is missing or is looked up in
  something that is not a directory.
\<close>

theorem vfs_lookup_resolves:
  assumes "static_valid nm m root" "cstr m p s" "p \<noteq> 0" "unat p + length s < 2 ^ 32"
  shows "vfs_lookup vnode_lookup m (Some root) p = Some (resolve (static_sub nm) root (split_path s))"
  by (rule static.vfs_lookup_path [OF assms])

definition demo_fs :: vnode where
  "demo_fs = Dir [(0x10, Dir [(0x20, Callable 7)])]"

definition demo_fs_mem :: cmem where
  "demo_fs_mem = store_bytes (store_bytes (store_bytes (\<lambda>_. 0) 0x10 [0x62]) 0x20 [0x6C, 0x73]) 0x30 [0x62, 0x2F, 0x6C, 0x73]"

theorem vfs_lookup_resolves_witness: "vfs_lookup vnode_lookup demo_fs_mem (Some demo_fs) 0x30 = Some (Some (Callable 7))"
  using vfs_lookup_resolves [of "\<lambda>e. if e = 0x10 then [0x62] else [0x6C, 0x73]" demo_fs_mem demo_fs "0x30" "[0x62, 0x2F, 0x6C, 0x73]"]
  by (simp add: demo_fs_def demo_fs_mem_def)

text \<open>
  A path with a leading slash never leads anywhere, because its first component is empty: in a file
  system without empty names \<open>vfs_lookup\<close> returns \<open>NULL\<close> for it.
\<close>

corollary absolute_path_fails:
  assumes "static_valid nm m (Dir es)" "\<forall>(e, v) \<in> set es. nm e \<noteq> []"
    and "cstr m p (0x2F # s)" "p \<noteq> 0" "unat p + Suc (length s) < 2 ^ 32"
  shows "vfs_lookup vnode_lookup m (Some (Dir es)) p = Some None"
proof -
  have "find (\<lambda>(e, v). nm e = []) es = None" using assms(2) by (auto simp: find_None_iff)
  then show ?thesis using static.vfs_lookup_path [OF assms(1,3,4)] assms(5) by simp
qed

end
