(* ===== verification/Lib_Vfs_Dump.thy ===== *)
theory Lib_Vfs_Dump
  imports Lib_Vfs Lib_Printf FW_Result
begin

text \<open>
  The listing of the file system: \<open>vfs_dump\<close> of \<^verbatim>\<open>src/lib/vfs/vfs.c\<close>. The file is the bytes written to it;
  \<open>fprintf\<close> appends what \<open>render\<close> yields, as shown for \<open>vfprintf\<close> in \<^verbatim>\<open>Lib_Printf\<close>. The address of a node is \<open>addr\<close>.
  \<open>None\<close> is a name without a terminator.

  Shown: the listing ends and has one line for each entry of the tree, in depth-first order,
  indented by its depth.
\<close>

fun kind_number :: "vnode_kind_t \<Rightarrow> u32" where
  "kind_number VNODE_KIND_REG = 0"
| "kind_number VNODE_KIND_DIR = 1"
| "kind_number VNODE_KIND_CALLABLE = 2"

definition dump_format :: "piece list" where
  "dump_format = [pct Conv_s] @ lit '' '' @ [Plain 0x09, Plain 0x09] @ lit ''; (vnode = '' @ [pct Conv_p] @
     lit '', kind='' @ [pct Conv_x] @ lit '')'' @ crlf"

text \<open>The loop that indents, and the line of an entry.\<close>

definition dump_line :: "cmem \<Rightarrow> (vnode \<Rightarrow> u32) \<Rightarrow> nat \<Rightarrow> u32 \<Rightarrow> vnode \<Rightarrow> u8 list \<Rightarrow> u8 list option" where
  "dump_line m addr ident name child ob =
     map_option (\<lambda>s. ob @ concat (replicate ident (chars ''  '')) @ s)
       (render m dump_format [name, addr child, kind_number (vnode_get_kind child)])"

text \<open>\<open>vnode_readdir\<close> with \<open>vfs_dump_callback\<close>, which calls it again for a directory with \<open>ident\<close> one higher.\<close>

function vfs_dump_readdir :: "cmem \<Rightarrow> (vnode \<Rightarrow> u32) \<Rightarrow> nat \<Rightarrow> (u32 \<times> vnode) list \<Rightarrow> u8 list \<Rightarrow> u8 list option" where
  "vfs_dump_readdir m addr ident [] ob = Some ob"
| "vfs_dump_readdir m addr ident ((name, child) # es) ob =
     Option.bind (dump_line m addr ident name child ob) (\<lambda>ob.
     Option.bind (case child of Dir sub \<Rightarrow> vfs_dump_readdir m addr (ident + 1) sub ob | _ \<Rightarrow> Some ob)
       (vfs_dump_readdir m addr ident es))"
  by pat_completeness auto

termination
  by (relation "measure (\<lambda>(m, addr, ident, es, ob). size_list (size_prod (\<lambda>_. 0) size) es)")
    auto

definition vfs_dump :: "cmem \<Rightarrow> (vnode \<Rightarrow> u32) \<Rightarrow> vnode \<Rightarrow> u8 list \<Rightarrow> u8 list option" where
  "vfs_dump m addr vfs_root ob =
     Option.bind (render m (lit ''/ '' @ [Plain 0x09, Plain 0x09] @ lit ''; (vnode = '' @ [pct Conv_p] @ lit '')'' @ crlf) [addr vfs_root])
       (\<lambda>s. case vfs_root of
          Dir es \<Rightarrow> vfs_dump_readdir m addr 1 es (ob @ s)
        | _ \<Rightarrow> Some (ob @ s))"

section \<open>The listing\<close>

text \<open>The entries of a tree with their depth, in depth-first order.\<close>

function tree_entries :: "nat \<Rightarrow> (u32 \<times> vnode) list \<Rightarrow> (nat \<times> u32 \<times> vnode) list" where
  "tree_entries d [] = []"
| "tree_entries d ((name, child) # es) =
     (d, name, child) # (case child of Dir sub \<Rightarrow> tree_entries (d + 1) sub | _ \<Rightarrow> []) @ tree_entries d es"
  by pat_completeness auto

termination
  by (relation "measure (\<lambda>(d, es). size_list (size_prod (\<lambda>_. 0) size) es)") auto

definition line_text :: "(vnode \<Rightarrow> u32) \<Rightarrow> (u32 \<Rightarrow> u8 list) \<Rightarrow> nat \<times> u32 \<times> vnode \<Rightarrow> u8 list" where
  "line_text addr names = (\<lambda>(d, name, v).
     concat (replicate d (chars ''  '')) @ names name @ chars '' '' @ [0x09, 0x09] @ chars ''; (vnode = '' @
     (0x2A # number_text 16 8 False (addr v)) @ chars '', kind='' @
     (0x30 # 0x78 # number_text 16 0 True (kind_number (vnode_get_kind v))) @ chars '')'' @ [0x0D, 0x0A])"

lemma dump_line_text:
  assumes "string_at m name (names name)"
  shows "dump_line m addr d name v ob = Some (ob @ line_text addr names (d, name, v))"
  unfolding dump_line_def dump_format_def append_Cons append_Nil render_s [OF assms]
  by (simp add: line_text_def render_lit width_def horner_def)

lemma dump_readdir_text:
  assumes "\<forall>(d, name, v) \<in> set (tree_entries k es). string_at m name (names name)"
  shows "vfs_dump_readdir m addr k es ob = Some (ob @ concat (map (line_text addr names) (tree_entries k es)))"
  using assms
proof (induction m addr k es ob rule: vfs_dump_readdir.induct)
  case (2 m addr ident name child es ob)
  then have l: "dump_line m addr ident name child ob = Some (ob @ line_text addr names (ident, name, child))"
    by (intro dump_line_text) simp
  show ?case
  proof (cases child)
    case (Dir sub)
    then have "vfs_dump_readdir m addr (ident + 1) sub (ob @ line_text addr names (ident, name, child)) =
        Some ((ob @ line_text addr names (ident, name, child)) @ concat (map (line_text addr names) (tree_entries (ident + 1) sub)))"
      using "2.IH"(1) [OF l Dir] "2.prems" by auto
    with "2.IH"(2) [OF l] "2.prems" l Dir show ?thesis by auto
  qed (use "2.IH"(2) [OF l] "2.prems" l in auto)
qed simp

text \<open>
  \<open>vfs_dump\<close> ends and writes, after the line of the root, one line for each entry of the tree, in depth-first
  order, with its name, address and kind, indented by two blanks for each level.
\<close>

theorem vfs_dump_lists_tree:
  assumes "\<forall>(d, name, v) \<in> set (tree_entries 1 es). string_at m name (names name)"
  shows "\<exists>root. vfs_dump m addr (Dir es) ob =
    Some (ob @ root @ concat (map (line_text addr names) (tree_entries 1 es)))"
  using dump_readdir_text [OF assms] by (simp add: vfs_dump_def render_lit)

end
