(* ===== verification/Lib_Can.thy ===== *)
theory Lib_Can
  imports Plat_Can
begin

text \<open>
  The CAN node: \<^verbatim>\<open>src/lib/can_node/can_node.c\<close>, its configuration in
  \<^verbatim>\<open>lib/can_node/include/config/can_node.h\<close>, and the sensor list
  of \<^verbatim>\<open>src/lib/sensor/sensor.c\<close> that it publishes.

  \<^item> \<open>nstate\<close> holds the node, the configuration, the kernel (for the semaphore), the driver with
    the registered callbacks, the frames handed to its \<open>can_send\<close>, the pins set by \<open>gpio_set\<close> and how often \<open>config_save\<close> was called.
  \<^item> \<open>CAN_NODE_NUM_OUTPUT\<close> and \<open>CAN_NODE_NUM_OUTPUT_SOURCE\<close> are the lengths of the lists of the
    configuration. The bytes of a frame behind its data are whatever the stack held: \<open>junk\<close>.
  \<^item> The receive callbacks run in the interrupt handler, the work loop in a thread; both are
    functions on \<open>nstate\<close>. A sensor is given by its capabilities and the readings it returns,
    \<open>None\<close> when reading fails or is not supported. Logging is left out.
\<close>

section \<open>Frames and identifiers\<close>

definition can_node_valid_id :: "u16 \<Rightarrow> bool" where
  "can_node_valid_id i = (i AND 0xFC00 = 0)"

definition can_id_build :: "u16 \<Rightarrow> u16 \<Rightarrow> u16 \<Rightarrow> u32" where
  "can_id_build from to topic =
     push_bit 20 (ucast (topic AND 0x1FF)) OR push_bit 10 (ucast (from AND 0x3FF)) OR ucast (to AND 0x3FF)"

definition can_id_extract_to :: "u32 \<Rightarrow> u16" where
  "can_id_extract_to i = ucast (i AND 0x3FF)"

definition can_id_extract_from :: "u32 \<Rightarrow> u16" where
  "can_id_extract_from i = ucast (drop_bit 10 i AND 0x3FF)"

definition can_id_extract_topic :: "u32 \<Rightarrow> u16" where
  "can_id_extract_topic i = ucast (drop_bit 20 i AND 0x1FF)"

section \<open>State\<close>

record output_src_config =
  src_node_id :: u16
  sensor_type :: u8
  sensor_idx :: u8
  off_value :: i32
  on_value :: i32

abbreviation kCanNodeOutputModeAuto :: u8 where "kCanNodeOutputModeAuto \<equiv> 0"
abbreviation kCanNodeOutputModeManual :: u8 where "kCanNodeOutputModeManual \<equiv> 1"

record output_config =
  omode :: u8
  osources :: "output_src_config list"

record node_config =
  cfg_node_id :: u16
  cfg_speed :: u32
  cfg_sensor_interval :: i32
  cfg_outputs :: "output_config list"

record outp =
  ostate :: bool
  manual_state :: bool
  opin :: nat
  osrcs :: "bool list"

record nstate =
  node_id :: u16
  nsem :: semaphore
  nreqs :: u32
  outputs :: "outp list"
  config_sn :: u32
  nconfig :: node_config
  nkern :: kernel
  sent :: "can_frame list"
  gpio :: "nat \<Rightarrow> bool"
  saves :: nat
  junk :: "u8 list"
  ncan :: can

abbreviation kCanNodeWorkReqSensors :: u32 where "kCanNodeWorkReqSensors \<equiv> 1"
abbreviation kCanNodeWorkReqOutput :: u32 where "kCanNodeWorkReqOutput \<equiv> 2"
abbreviation kCanNodeWorkReqOutputResponse :: u32 where "kCanNodeWorkReqOutputResponse \<equiv> 4"
abbreviation kCanNodeWorkReqSaveConfig :: u32 where "kCanNodeWorkReqSaveConfig \<equiv> 8"

section \<open>Operations\<close>

definition can_node_fetch_clear_reqs :: "nstate \<Rightarrow> u32 \<times> nstate" where
  "can_node_fetch_clear_reqs x =
     (nreqs x, x\<lparr>nreqs := 0, nkern := scheduler_unlock (scheduler_lock (nkern x))\<rparr>)"

text \<open>\<open>can_node.reqs |= r; semaphore_signal(&can_node.sem)\<close>\<close>

definition post_reqs :: "u32 \<Rightarrow> nstate \<Rightarrow> nstate" where
  "post_reqs r x =
     (let (s, k) = semaphore_signal (nsem x) (nkern x)
      in x\<lparr>nreqs := nreqs x OR r, nsem := s, nkern := k\<rparr>)"

definition can_node_send :: "u16 \<Rightarrow> u16 \<Rightarrow> u8 list \<Rightarrow> nstate \<Rightarrow> fault + nstate" where
  "can_node_send topic to data x =
     (if \<not> can_node_valid_id to then Inl Assert_Failed
      else if \<not> length data \<le> 8 then Inl Assert_Failed
      else Inr (x\<lparr>sent := sent x @ [\<lparr>fid = can_id_build (node_id x) to topic, fflags = CAN_FRAME_FLAG_EXT,
                    data_length = of_nat (length data), fdata = take 8 (data @ junk x)\<rparr>]\<rparr>))"

definition can_node_send_discovery_response :: "u16 \<Rightarrow> nstate \<Rightarrow> fault + nstate" where
  "can_node_send_discovery_response to x =
     can_node_send 511 to
       [3, ucast (drop_bit 24 (config_sn x)), ucast (drop_bit 16 (config_sn x)),
        ucast (drop_bit 8 (config_sn x)), ucast (config_sn x)] x"

definition can_node_discovery_callback :: "can_frame \<Rightarrow> nstate \<Rightarrow> fault + nstate" where
  "can_node_discovery_callback frame x =
     (if fdata frame ! 0 AND 1 = 0
         \<and> (can_id_extract_to (fid frame) = 0 \<or> can_id_extract_to (fid frame) = node_id x)
      then can_node_send_discovery_response (can_id_extract_from (fid frame)) x
      else Inr x)"

definition set_src :: "nat \<Rightarrow> nat \<Rightarrow> bool \<Rightarrow> nstate \<Rightarrow> nstate" where
  "set_src i j b x =
     x\<lparr>outputs := (outputs x)[i := (outputs x ! i)\<lparr>osrcs := (osrcs (outputs x ! i))[j := b]\<rparr>]\<rparr>"

definition frame_value :: "u8 list \<Rightarrow> i32" where
  "frame_value d = push_bit 24 (ucast (d ! 2)) OR push_bit 16 (ucast (d ! 3)) OR push_bit 8 (ucast (d ! 4)) OR ucast (d ! 5)"

text \<open>The body of the two loops at the first source of the sender, before the \<open>return\<close>.\<close>

definition sensor_apply :: "nat \<Rightarrow> nat \<Rightarrow> can_frame \<Rightarrow> nstate \<Rightarrow> nstate" where
  "sensor_apply i j frame x =
     (let src = osrcs (outputs x ! i) ! j;
          conf = osources (cfg_outputs (nconfig x) ! i) ! j
      in if data_length frame < 6 then x
         else if fdata frame ! 0 = sensor_type conf \<and> fdata frame ! 1 = sensor_idx conf
         then let value = frame_value (fdata frame)
              in if src \<and> value <s off_value conf
                 then post_reqs kCanNodeWorkReqOutput (set_src i j False x)
                 else if \<not> src \<and> on_value conf <s value
                 then post_reqs kCanNodeWorkReqOutput (set_src i j True x)
                 else x
         else x)"

fun sensor_loop :: "(nat \<times> nat) list \<Rightarrow> can_frame \<Rightarrow> u16 \<Rightarrow> nstate \<Rightarrow> nstate" where
  "sensor_loop [] frame from x = x"
| "sensor_loop ((i, j) # ps) frame from x =
     (if src_node_id (osources (cfg_outputs (nconfig x) ! i) ! j) = from then sensor_apply i j frame x
      else sensor_loop ps frame from x)"

text \<open>All pairs of an output and a source, in the order of the two loops.\<close>

definition all_sources :: "node_config \<Rightarrow> (nat \<times> nat) list" where
  "all_sources c = concat (map (\<lambda>i. map (Pair i) [0..<length (osources (cfg_outputs c ! i))]) [0..<length (cfg_outputs c)])"

definition can_node_sensor_callback :: "can_frame \<Rightarrow> nstate \<Rightarrow> nstate" where
  "can_node_sensor_callback frame x =
     sensor_loop (all_sources (nconfig x)) frame (can_id_extract_from (fid frame)) x"

definition can_node_output_callback :: "can_frame \<Rightarrow> nstate \<Rightarrow> nstate" where
  "can_node_output_callback frame x =
     (if can_id_extract_to (fid frame) \<noteq> node_id x then x
      else if data_length frame \<noteq> 2 then x
      else let idx = unat (fdata frame ! 0) in
        if idx \<ge> length (outputs x) then x
        else
          let manual = fdata frame ! 1 AND 2 \<noteq> 0;
              new_mode = (if manual then kCanNodeOutputModeManual else kCanNodeOutputModeAuto);
              x = (if manual
                   then x\<lparr>outputs := (outputs x)[idx := (outputs x ! idx)\<lparr>manual_state := (fdata frame ! 1 AND 1 \<noteq> 0)\<rparr>]\<rparr>
                   else x);
              c = nconfig x;
              x = (if new_mode \<noteq> omode (cfg_outputs c ! idx)
                   then x\<lparr>nconfig := c\<lparr>cfg_outputs := (cfg_outputs c)[idx := (cfg_outputs c ! idx)\<lparr>omode := new_mode\<rparr>]\<rparr>,
                          nreqs := nreqs x OR kCanNodeWorkReqSaveConfig\<rparr>
                   else x)
          in post_reqs (kCanNodeWorkReqOutput OR kCanNodeWorkReqOutputResponse) x)"

definition can_node_set_output_pin :: "nat \<Rightarrow> nat \<Rightarrow> nstate \<Rightarrow> bool \<times> nstate" where
  "can_node_set_output_pin n pin x =
     (if n \<ge> length (outputs x) then (False, x)
      else (True, x\<lparr>outputs := (outputs x)[n := (outputs x ! n)\<lparr>opin := pin\<rparr>]\<rparr>))"

text \<open>
  \<open>can_init\<close> of the driver (\<^verbatim>\<open>Plat_Can\<close>) is a parameter: what it returns and the driver it
  leaves. The addresses of the three callbacks are numbers; their registrations are calls of
  \<open>can_set_receive_callback\<close>.
\<close>

abbreviation CAN_NODE_BROADCAST_ID :: u16 where "CAN_NODE_BROADCAST_ID \<equiv> 0"
abbreviation discovery_cb :: nat where "discovery_cb \<equiv> 1"
abbreviation sensor_cb :: nat where "sensor_cb \<equiv> 2"
abbreviation output_cb :: nat where "output_cb \<equiv> 3"

definition register_callbacks :: "nat \<Rightarrow> u16 \<Rightarrow> can \<Rightarrow> can" where
  "register_callbacks num_output nid c =
     (let c = snd (can_set_receive_callback (can_id_build CAN_NODE_BROADCAST_ID CAN_NODE_BROADCAST_ID 511)
                (can_id_build CAN_NODE_BROADCAST_ID CAN_NODE_BROADCAST_ID 0x1FF) CAN_FRAME_FLAG_EXT discovery_cb 0 c)
      in if num_output > 0
         then (let c = snd (can_set_receive_callback (can_id_build CAN_NODE_BROADCAST_ID CAN_NODE_BROADCAST_ID 500)
                         (can_id_build CAN_NODE_BROADCAST_ID 0x3FF 0x1FF) CAN_FRAME_FLAG_EXT sensor_cb 0 c)
               in snd (can_set_receive_callback (can_id_build CAN_NODE_BROADCAST_ID nid 499)
                    (can_id_build CAN_NODE_BROADCAST_ID 0x3FF 0x1FF) CAN_FRAME_FLAG_EXT output_cb 0 c))
         else c)"

definition can_node_init :: "(can \<Rightarrow> bool \<times> can) \<Rightarrow> u16 \<Rightarrow> nstate \<Rightarrow> fault + (bool \<times> nstate)" where
  "can_node_init driver_init nid x =
     (if \<not> can_node_valid_id nid then Inl Assert_Failed
      else case driver_init (ncan x) of
        (False, c) \<Rightarrow> Inr (False, x\<lparr>ncan := c\<rparr>)
      | (True, c) \<Rightarrow>
          (case can_node_send_discovery_response CAN_NODE_BROADCAST_ID
                  (x\<lparr>ncan := c, node_id := nid, nsem := semaphore_init 0\<rparr>) of
             Inl e \<Rightarrow> Inl e
           | Inr x \<Rightarrow> Inr (True, x\<lparr>ncan := register_callbacks (length (outputs x)) nid (ncan x)\<rparr>)))"

section \<open>Sensors\<close>

record sensor =
  capabilities :: u32
  read_temp :: "i32 option"
  read_humidity :: "i32 option"
  read_voltage :: "i32 option"

definition value_bytes :: "i32 \<Rightarrow> u8 list" where
  "value_bytes v = [ucast (drop_bit 24 v), ucast (drop_bit 16 v), ucast (drop_bit 8 v), ucast v]"

definition publish_value :: "bool \<Rightarrow> u8 \<Rightarrow> u8 \<Rightarrow> i32 option \<Rightarrow> nstate \<Rightarrow> fault + nstate" where
  "publish_value capable sty idx reading x =
     (if capable then case reading of
        Some v \<Rightarrow> can_node_send 500 0 (sty # idx # value_bytes v) x
      | None \<Rightarrow> Inr x
      else Inr x)"

definition can_node_loop_publish_sensor :: "sensor \<Rightarrow> u8 \<Rightarrow> nstate \<Rightarrow> fault + (u8 \<times> nstate)" where
  "can_node_loop_publish_sensor s idx x =
     (case publish_value (capabilities s AND 1 \<noteq> 0) 0 idx (read_temp s) x of
        Inl e \<Rightarrow> Inl e
      | Inr x \<Rightarrow> (case publish_value (capabilities s AND 2 \<noteq> 0) 1 idx (read_humidity s) x of
          Inl e \<Rightarrow> Inl e
        | Inr x \<Rightarrow> (case publish_value (capabilities s AND 4 \<noteq> 0) 2 idx (read_voltage s) x of
            Inl e \<Rightarrow> Inl e
          | Inr x \<Rightarrow> Inr (idx + 1, x))))"

fun sensors_for_each ::
    "(sensor \<Rightarrow> 'c \<Rightarrow> 's \<Rightarrow> fault + ('c \<times> 's)) \<Rightarrow> sensor list \<Rightarrow> 'c \<Rightarrow> 's \<Rightarrow> fault + 's" where
  "sensors_for_each f [] c x = Inr x"
| "sensors_for_each f (s # ss) c x =
     (case f s c x of Inl e \<Rightarrow> Inl e | Inr (c, x) \<Rightarrow> sensors_for_each f ss c x)"

section \<open>The work loop\<close>

definition desired_state :: "nat \<Rightarrow> nstate \<Rightarrow> bool" where
  "desired_state i x =
     (if omode (cfg_outputs (nconfig x) ! i) = kCanNodeOutputModeManual then manual_state (outputs x ! i)
      else list_ex id (osrcs (outputs x ! i)))"

definition output_step :: "u32 \<Rightarrow> nat \<Rightarrow> nstate \<Rightarrow> fault + nstate" where
  "output_step reqs i x =
     (let state = desired_state i x;
          x = (if ostate (outputs x ! i) \<noteq> state
               then x\<lparr>outputs := (outputs x)[i := (outputs x ! i)\<lparr>ostate := state\<rparr>],
                      gpio := (gpio x)(opin (outputs x ! i) := state)\<rparr>
               else x)
      in if ostate (outputs x ! i) \<noteq> state \<or> reqs AND kCanNodeWorkReqOutputResponse \<noteq> 0
         then can_node_send 499 0
                [of_nat i, (if state then 1 else 0) OR
                   (if omode (cfg_outputs (nconfig x) ! i) = kCanNodeOutputModeManual then 2 else 0)] x
         else Inr x)"

fun outputs_loop :: "u32 \<Rightarrow> nat list \<Rightarrow> nstate \<Rightarrow> fault + nstate" where
  "outputs_loop reqs [] x = Inr x"
| "outputs_loop reqs (i # is) x =
     (case output_step reqs i x of Inl e \<Rightarrow> Inl e | Inr x \<Rightarrow> outputs_loop reqs is x)"

text \<open>The body of \<open>can_node_loop\<close> behind \<open>semaphore_wait\<close>.\<close>

definition can_node_work :: "sensor list \<Rightarrow> nstate \<Rightarrow> fault + nstate" where
  "can_node_work sensors x =
     (let (reqs, x) = can_node_fetch_clear_reqs x in
      case (if reqs AND kCanNodeWorkReqSensors \<noteq> 0
            then sensors_for_each can_node_loop_publish_sensor sensors 0 x else Inr x) of
        Inl e \<Rightarrow> Inl e
      | Inr x \<Rightarrow>
          (case (if reqs AND (kCanNodeWorkReqOutput OR kCanNodeWorkReqOutputResponse) \<noteq> 0
                 then outputs_loop reqs [0..<length (outputs x)] x else Inr x) of
             Inl e \<Rightarrow> Inl e
           | Inr x \<Rightarrow> Inr (if reqs AND kCanNodeWorkReqSaveConfig \<noteq> 0 then x\<lparr>saves := saves x + 1\<rparr> else x)))"

definition can_node_post_sensor_req :: "nstate \<Rightarrow> nstate" where
  "can_node_post_sensor_req x = post_reqs kCanNodeWorkReqSensors x"

definition can_node_config_defaults :: "node_config \<Rightarrow> node_config" where
  "can_node_config_defaults c =
     c\<lparr>cfg_node_id := 0, cfg_speed := 125000, cfg_sensor_interval := 30,
       cfg_outputs := (case cfg_outputs c of [] \<Rightarrow> []
         | o1 # os \<Rightarrow> \<lparr>omode = 0, osources = map (\<lambda>_. \<lparr>src_node_id = 0, sensor_type = 0, sensor_idx = 0, off_value = 0, on_value = 0\<rparr>) (osources o1)\<rparr> # os)\<rparr>"

section \<open>Identifiers and values survive the bus\<close>

lemma mask_10: "(0x3FF :: 'a::len word) = mask 10" "(0x1FF :: 'a word) = mask 9"
  by (simp_all add: mask_eq_exp_minus_1)

lemmas id_defs = can_id_build_def can_id_extract_to_def can_id_extract_from_def can_id_extract_topic_def

lemma can_id_extract_build:
  "can_id_extract_to (can_id_build f t tp) = t AND 0x3FF"
  "can_id_extract_from (can_id_build f t tp) = f AND 0x3FF"
  "can_id_extract_topic (can_id_build f t tp) = tp AND 0x1FF"
  unfolding id_defs mask_10
  by (rule bit_word_eqI; auto simp: bit_simps)+

lemma can_id_build_29: "can_id_build f t tp AND 0x1FFFFFFF = can_id_build f t tp"
proof -
  have m: "(0x1FFFFFFF :: u32) = mask 29" by (simp add: mask_eq_exp_minus_1)
  show ?thesis unfolding id_defs mask_10 m by (rule bit_word_eqI) (auto simp: bit_simps)
qed

lemma valid_id_masked: "can_node_valid_id i \<Longrightarrow> i AND 0x3FF = i"
proof -
  assume v: "can_node_valid_id i"
  have "(0xFC00 :: u16) = NOT (mask 10)" by (simp add: mask_eq_exp_minus_1)
  then have "\<not> bit (i AND NOT (mask 10)) n" for n using v by (simp add: can_node_valid_id_def)
  then have "bit i n \<Longrightarrow> n < 10" for n
    using bit_imp_le_length [of i n] by (metis bit_and_iff bit_mask_iff bit_not_iff linorder_not_le not_le possible_bit_word)
  then show ?thesis unfolding mask_10 by (intro bit_word_eqI) (auto simp: bit_simps)
qed

lemma frame_value_bytes: "frame_value (a # b # value_bytes v @ d) = v"
proof (rule bit_word_eqI)
  fix n assume "n < LENGTH(32)"
  then consider "n < 8" | "8 \<le> n" "n < 16" | "16 \<le> n" "n < 24" | "24 \<le> n" "n < 32" by fastforce
  then show "bit (frame_value (a # b # value_bytes v @ d)) n = bit v n"
    by cases (auto simp: frame_value_def value_bytes_def bit_simps nth_Cons')
qed

text \<open>
  The acceptance filter of a message object: the identifiers agree in the bits of the mask. The
  callbacks a frame is handed to, by the objects that accept it.
\<close>

definition accepts :: "u32 \<Rightarrow> can_rom_msg \<Rightarrow> bool" where
  "accepts i obj \<longleftrightarrow> (mode_id obj XOR i) AND mmask obj = 0"

definition callbacks_for :: "u32 \<Rightarrow> can \<Rightarrow> nat list" where
  "callbacks_for i c = map (\<lambda>obj. fst (receive_conf c ! (unat (msgobj obj) - 1))) (filter (accepts i) (rx_objects c))"

lemma bit_can_id:
  "n < 9 \<Longrightarrow> bit (can_id_build f t tp) (20 + n) = bit tp n"
  "n < 10 \<Longrightarrow> bit (can_id_build f t tp) n = bit t n"
  unfolding id_defs mask_10 by (auto simp: bit_simps)

lemma masked_zero:
  "w AND can_id_build 0 m 0x1FF = 0 \<longleftrightarrow> (\<forall>n < 9. \<not> bit w (20 + n)) \<and> (\<forall>n < 10. bit m n \<longrightarrow> \<not> bit w n)"
proof -
  have b: "bit (can_id_build 0 m 0x1FF) n \<longleftrightarrow> 20 \<le> n \<and> n < 29 \<or> n < 10 \<and> bit m n" for n
    unfolding id_defs mask_10 by (auto simp: bit_simps)
  have z: "x = 0 \<longleftrightarrow> (\<forall>n. \<not> bit x n)" for x :: u32 by (metis bit_0_eq bit_eqI bot_apply bot_bool_def)
  have "w AND can_id_build 0 m 0x1FF = 0 \<longleftrightarrow> (\<forall>n. bit w n \<longrightarrow> \<not> (20 \<le> n \<and> n < 29 \<or> n < 10 \<and> bit m n))"
    unfolding z bit_and_iff b by blast
  also have "\<dots> \<longleftrightarrow> (\<forall>n < 9. \<not> bit w (20 + n)) \<and> (\<forall>n < 10. bit m n \<longrightarrow> \<not> bit w n)"
  proof -
    have "(\<forall>n. 20 \<le> n \<and> n < 29 \<longrightarrow> \<not> bit w n) \<longleftrightarrow> (\<forall>n < 9. \<not> bit w (20 + n))"
    proof (intro iffI allI impI)
      fix n :: nat assume a: "\<forall>n < 9. \<not> bit w (20 + n)" "20 \<le> n \<and> n < 29"
      then obtain k where "n = 20 + k" by (metis le_Suc_ex)
      with a show "\<not> bit w n" by auto
    qed simp
    then show ?thesis by blast
  qed
  finally show ?thesis .
qed

lemma eq_low_bits:
  fixes a b :: u16
  assumes "a AND Bit_Operations.mask n = a" "b AND Bit_Operations.mask n = b"
  shows "a = b \<longleftrightarrow> (\<forall>i < n. bit a i = bit b i)"
proof -
  have "bit w i \<Longrightarrow> i < n" if "w AND Bit_Operations.mask n = w" for w :: u16 and i
    using that by (metis bit_and_iff bit_mask_iff)
  with assms show ?thesis by (metis bit_eqI)
qed

lemma accepts_iff:
  assumes "tp AND 0x1FF = tp" "tp' AND 0x1FF = tp'" "t AND 0x3FF = t" "t' AND 0x3FF = t'" "m = 0 \<or> m = 0x3FF"
  shows "accepts (can_id_build f t tp) \<lparr>mode_id = can_id_build 0 t' tp' OR LPC11_CAN_EXT_FLAG,
      mmask = can_id_build 0 m 0x1FF, mdata = d, dlc = l, msgobj = o'\<rparr> \<longleftrightarrow> tp = tp' \<and> (m = 0 \<or> t = t')"
proof -
  let ?w = "(can_id_build 0 t' tp' OR LPC11_CAN_EXT_FLAG) XOR can_id_build f t tp"
  have flag: "\<not> bit LPC11_CAN_EXT_FLAG n" if "n < 29" for n
    using that unfolding ext_flag bit_exp_iff by simp
  have hi: "bit ?w (20 + n) \<longleftrightarrow> bit tp n \<noteq> bit tp' n" if "n < 9" for n
    using flag [of "20 + n"] bit_can_id(1) [OF that] that by (auto simp: bit_xor_iff bit_or_iff)
  have lo: "bit ?w n \<longleftrightarrow> bit t n \<noteq> bit t' n" if "n < 10" for n
    using flag [of n] bit_can_id(2) [OF that] that by (auto simp: bit_xor_iff bit_or_iff)
  have m: "bit m n \<longleftrightarrow> m = 0x3FF" if "n < 10" for n
    using assms(5) that by (auto simp: mask_10 bit_mask_iff)
  have "accepts (can_id_build f t tp) \<lparr>mode_id = can_id_build 0 t' tp' OR LPC11_CAN_EXT_FLAG,
      mmask = can_id_build 0 m 0x1FF, mdata = d, dlc = l, msgobj = o'\<rparr> \<longleftrightarrow>
      (\<forall>n < 9. bit tp n = bit tp' n) \<and> (\<forall>n < 10. m = 0x3FF \<longrightarrow> bit t n = bit t' n)"
    unfolding accepts_def by (simp add: masked_zero hi lo m)
  also have "\<dots> \<longleftrightarrow> tp = tp' \<and> (m = 0 \<or> t = t')"
    using eq_low_bits [of tp 9 tp'] eq_low_bits [of t 10 t'] assms unfolding mask_10 by auto
  finally show ?thesis .
qed

lemma registered_objects:
  assumes "receive_conf c = replicate 31 (0, 0)" "rx_objects c = []" "0 < n"
  shows "receive_conf (register_callbacks n nid c) ! 0 = (discovery_cb, 0)"
    "receive_conf (register_callbacks n nid c) ! Suc 0 = (sensor_cb, 0)"
    "receive_conf (register_callbacks n nid c) ! 2 = (output_cb, 0)"
    "rx_objects (register_callbacks n nid c) =
      [\<lparr>mode_id = can_id_build 0 0 511 OR LPC11_CAN_EXT_FLAG, mmask = can_id_build 0 0 0x1FF, mdata = [], dlc = 0, msgobj = 1\<rparr>,
       \<lparr>mode_id = can_id_build 0 0 500 OR LPC11_CAN_EXT_FLAG, mmask = can_id_build 0 0x3FF 0x1FF, mdata = [], dlc = 0, msgobj = 2\<rparr>,
       \<lparr>mode_id = can_id_build 0 nid 499 OR LPC11_CAN_EXT_FLAG, mmask = can_id_build 0 0x3FF 0x1FF, mdata = [], dlc = 0, msgobj = 3\<rparr>]"
  using assms by (simp_all add: register_callbacks_def can_set_receive_callback_def first_index_def Let_def numeral_eq_Suc)

section \<open>Sensor frames\<close>

lemma post_reqs_fields [simp]:
  "outputs (post_reqs r x) = outputs x" "nconfig (post_reqs r x) = nconfig x" "sent (post_reqs r x) = sent x"
  "gpio (post_reqs r x) = gpio x" "node_id (post_reqs r x) = node_id x" "junk (post_reqs r x) = junk x"
  "nreqs (post_reqs r x) = nreqs x OR r" "saves (post_reqs r x) = saves x"
  by (simp_all add: post_reqs_def split: prod.split)

lemma sensor_loop_first:
  assumes "ps = as @ (i, j) # bs" "src_node_id (osources (cfg_outputs (nconfig x) ! i) ! j) = from"
    and "\<forall>(a, b) \<in> set as. src_node_id (osources (cfg_outputs (nconfig x) ! a) ! b) \<noteq> from"
  shows "sensor_loop ps frame from x = sensor_apply i j frame x"
  using assms by (induction as arbitrary: ps) auto

lemma sensor_apply_state:
  assumes "fdata frame = sty # idx # value_bytes v @ d" "6 \<le> data_length frame"
    and "c = osources (cfg_outputs (nconfig x) ! i) ! j" "sty = sensor_type c" "idx = sensor_idx c"
    and "i < length (outputs x)" "j < length (osrcs (outputs x ! i))"
  shows "osrcs (outputs (sensor_apply i j frame x) ! i) ! j \<longleftrightarrow>
     (if osrcs (outputs x ! i) ! j then off_value c \<le>s v else on_value c <s v)"
proof -
  have v: "frame_value (fdata frame) = v" using frame_value_bytes assms(1) by simp
  have "\<not> data_length frame < 6" "fdata frame ! 0 = sty" "fdata frame ! Suc 0 = idx" using assms(1,2) by auto
  then show ?thesis using assms(4-7) v assms(3)
    by (simp add: sensor_apply_def Let_def set_src_def word_sless_alt word_sle_eq leD)
qed

lemma sensor_apply_other:
  "\<forall>a b. (a, b) \<noteq> (i, j) \<longrightarrow> osrcs (outputs (sensor_apply i j frame x) ! a) ! b = osrcs (outputs x ! a) ! b"
  by (auto simp: sensor_apply_def Let_def set_src_def upd_nth)

section \<open>The work loop\<close>

lemma send_ok: "can_node_valid_id to \<Longrightarrow> length data \<le> 8 \<Longrightarrow>
    can_node_send topic to data x = Inr (x\<lparr>sent := sent x @ [\<lparr>fid = can_id_build (node_id x) to topic, fflags = CAN_FRAME_FLAG_EXT,
      data_length = of_nat (length data), fdata = take 8 (data @ junk x)\<rparr>]\<rparr>)"
  by (simp add: can_node_send_def)

lemma valid_0 [simp]: "can_node_valid_id 0"
  by (simp add: can_node_valid_id_def)

lemma publish_value_sends:
  "publish_value cap sty idx r x = Inr (x\<lparr>sent := sent x @
     (case r of Some v \<Rightarrow> if cap then [\<lparr>fid = can_id_build (node_id x) 0 500, fflags = CAN_FRAME_FLAG_EXT, data_length = 6,
        fdata = take 8 (sty # idx # value_bytes v @ junk x)\<rparr>] else [] | None \<Rightarrow> [])\<rparr>)"
  by (auto simp: publish_value_def send_ok value_bytes_def split: option.split)

definition extends :: "nstate \<Rightarrow> nstate \<Rightarrow> bool" where
  "extends x y \<longleftrightarrow> (\<exists>fs. y = x\<lparr>sent := sent x @ fs\<rparr>)"

lemma extends_refl: "extends x x"
  by (auto simp: extends_def intro: exI [of _ "[]"])

lemma extends_trans: "extends x y \<Longrightarrow> extends y z \<Longrightarrow> extends x z"
  by (auto simp: extends_def)

lemma publish_extends: "\<exists>y. can_node_loop_publish_sensor s idx x = Inr (idx + 1, y) \<and> extends x y"
  by (auto simp: can_node_loop_publish_sensor_def publish_value_sends extends_def)

lemma sensors_extends: "\<exists>y. sensors_for_each can_node_loop_publish_sensor ss c x = Inr y \<and> extends x y"
proof (induction ss arbitrary: c x)
  case Nil
  then show ?case by (simp add: extends_refl)
next
  case (Cons s ss)
  obtain y where "can_node_loop_publish_sensor s c x = Inr (c + 1, y)" "extends x y" using publish_extends by blast
  then show ?case using Cons.IH [of "c + 1" y] extends_trans by auto
qed

text \<open>An output's pin shows its state, and no two outputs share a pin.\<close>

definition pins_ok :: "nstate \<Rightarrow> bool" where
  "pins_ok x \<longleftrightarrow> (\<forall>i < length (outputs x). gpio x (opin (outputs x ! i)) = ostate (outputs x ! i))
     \<and> distinct (map opin (outputs x))"

definition settle :: "nat \<Rightarrow> nstate \<Rightarrow> nstate" where
  "settle i x = x\<lparr>outputs := (outputs x)[i := (outputs x ! i)\<lparr>ostate := desired_state i x\<rparr>],
     gpio := (gpio x)(opin (outputs x ! i) := desired_state i x)\<rparr>"

definition status_frame :: "nat \<Rightarrow> nstate \<Rightarrow> can_frame" where
  "status_frame i x = \<lparr>fid = can_id_build (node_id x) 0 499, fflags = CAN_FRAME_FLAG_EXT, data_length = 2,
     fdata = take 8 ([of_nat i, (if desired_state i x then 1 else 0) OR
       (if omode (cfg_outputs (nconfig x) ! i) = kCanNodeOutputModeManual then 2 else 0)] @ junk x)\<rparr>"

lemma output_step_settles:
  assumes "pins_ok x" "i < length (outputs x)"
  shows "output_step reqs i x = Inr ((settle i x)\<lparr>sent := sent x @
     (if reqs AND kCanNodeWorkReqOutputResponse \<noteq> 0 then [status_frame i x] else [])\<rparr>)"
proof (cases "ostate (outputs x ! i) = desired_state i x")
  case True
  then have "(gpio x)(opin (outputs x ! i) := desired_state i x) = gpio x"
    using assms by (auto simp: pins_ok_def fun_eq_iff)
  moreover have "(outputs x ! i)\<lparr>ostate := desired_state i x\<rparr> = outputs x ! i"
    using True by (cases "outputs x ! i") simp
  ultimately have "settle i x = x" by (cases x) (simp add: settle_def)
  then show ?thesis using True by (simp add: output_step_def send_ok status_frame_def)
next
  case False
  then show ?thesis using assms(2)
    by (simp add: output_step_def send_ok status_frame_def settle_def Let_def)
qed

lemma settle_fields [simp]:
  "nconfig (settle i x) = nconfig x" "node_id (settle i x) = node_id x" "junk (settle i x) = junk x"
  "length (outputs (settle i x)) = length (outputs x)"
  "opin (outputs (settle i x) ! j) = opin (outputs x ! j)"
  "ostate (outputs (settle i x) ! j) = (if i = j \<and> i < length (outputs x) then desired_state i x else ostate (outputs x ! j))"
  by (auto simp: settle_def upd_nth)

lemma settle_desired [simp]: "desired_state j (settle i x) = desired_state j x"
  by (auto simp: settle_def desired_state_def upd_nth)

lemma desired_sent [simp]: "desired_state j (x\<lparr>sent := fs\<rparr>) = desired_state j x"
  by (simp add: desired_state_def)

lemma status_frame_settle [simp]: "status_frame j ((settle i x)\<lparr>sent := fs\<rparr>) = status_frame j x"
  by (simp add: status_frame_def)

lemma settle_pins: "pins_ok x \<Longrightarrow> i < length (outputs x) \<Longrightarrow> pins_ok ((settle i x)\<lparr>sent := fs\<rparr>)"
  by (auto simp: pins_ok_def settle_def map_update list_update_id distinct_conv_nth upd_nth)

lemma outputs_loop_settles:
  assumes "pins_ok x" "distinct is" "set is \<subseteq> {..<length (outputs x)}"
  shows "\<exists>y. outputs_loop reqs is x = Inr y \<and> pins_ok y \<and> length (outputs y) = length (outputs x)
     \<and> (\<forall>i. opin (outputs y ! i) = opin (outputs x ! i)) \<and> nreqs y = nreqs x
     \<and> (\<forall>i. ostate (outputs y ! i) = (if i \<in> set is then desired_state i x else ostate (outputs x ! i)))
     \<and> sent y = sent x @ (if reqs AND kCanNodeWorkReqOutputResponse \<noteq> 0 then map (\<lambda>i. status_frame i x) is else [])"
  using assms
proof (induction "is" arbitrary: x)
  case Nil
  then show ?case by simp
next
  case (Cons i "is")
  let ?fs = "if reqs AND kCanNodeWorkReqOutputResponse \<noteq> 0 then [status_frame i x] else []"
  let ?x = "(settle i x)\<lparr>sent := sent x @ ?fs\<rparr>"
  have i: "i < length (outputs x)" using Cons.prems(3) by simp
  then have "pins_ok ?x" using settle_pins Cons.prems(1) by blast
  then obtain y where y: "outputs_loop reqs is ?x = Inr y" "pins_ok y" "length (outputs y) = length (outputs ?x)"
     "\<forall>i. opin (outputs y ! i) = opin (outputs ?x ! i)" "nreqs y = nreqs ?x"
     "\<forall>i. ostate (outputs y ! i) = (if i \<in> set is then desired_state i ?x else ostate (outputs ?x ! i))"
     "sent y = sent ?x @ (if reqs AND kCanNodeWorkReqOutputResponse \<noteq> 0 then map (\<lambda>i. status_frame i ?x) is else [])"
    using Cons.IH [of ?x] Cons.prems(2,3) by auto
  have "nreqs ?x = nreqs x" by (simp add: settle_def)
  then show ?case using y i output_step_settles [OF Cons.prems(1) i] Cons.prems(2) by auto
qed

lemma extends_fields:
  assumes "extends x y"
  shows "outputs y = outputs x" "nreqs y = nreqs x" "desired_state i y = desired_state i x"
    "status_frame i y = status_frame i x" "pins_ok y = pins_ok x" "\<exists>fs. sent y = sent x @ fs"
  using assms by (auto simp: extends_def status_frame_def pins_ok_def)

lemma work_settles:
  assumes "pins_ok x" "nreqs x AND 6 \<noteq> 0"
  shows "\<exists>y fs. can_node_work ss x = Inr y \<and> nreqs y = 0
     \<and> (\<forall>i < length (outputs x). ostate (outputs y ! i) = desired_state i x
          \<and> gpio y (opin (outputs x ! i)) = desired_state i x)
     \<and> sent y = sent x @ fs @ (if bit (nreqs x) 2 then map (\<lambda>i. status_frame i x) [0..<length (outputs x)] else [])"
proof -
  obtain x0 where x0: "x0 = snd (can_node_fetch_clear_reqs x)" "can_node_fetch_clear_reqs x = (nreqs x, x0)"
    by (simp add: can_node_fetch_clear_reqs_def)
  have f: "outputs x0 = outputs x" "gpio x0 = gpio x" "nconfig x0 = nconfig x" "sent x0 = sent x" "nreqs x0 = 0"
    "node_id x0 = node_id x" "junk x0 = junk x"
    by (simp_all add: x0(1) can_node_fetch_clear_reqs_def)
  then have d: "desired_state i x0 = desired_state i x" "status_frame i x0 = status_frame i x" "pins_ok x0 = pins_ok x" for i
    by (simp_all add: desired_state_def status_frame_def pins_ok_def)
  obtain x1 where x1: "(if nreqs x AND kCanNodeWorkReqSensors \<noteq> 0
      then sensors_for_each can_node_loop_publish_sensor ss 0 x0 else Inr x0) = Inr x1" "extends x0 x1"
    using sensors_extends [of ss 0 x0] extends_refl [of x0] by (cases "nreqs x AND kCanNodeWorkReqSensors \<noteq> 0") auto
  note e = extends_fields [OF x1(2)]
  obtain y where y: "outputs_loop (nreqs x) [0..<length (outputs x1)] x1 = Inr y" "pins_ok y" "length (outputs y) = length (outputs x1)"
     "\<forall>i. opin (outputs y ! i) = opin (outputs x1 ! i)" "nreqs y = nreqs x1"
     "\<forall>i. ostate (outputs y ! i) = (if i \<in> set [0..<length (outputs x1)] then desired_state i x1 else ostate (outputs x1 ! i))"
     "sent y = sent x1 @ (if nreqs x AND kCanNodeWorkReqOutputResponse \<noteq> 0 then map (\<lambda>i. status_frame i x1) [0..<length (outputs x1)] else [])"
    using outputs_loop_settles [of x1 "[0..<length (outputs x1)]" "nreqs x"] e(5) d(3) assms(1) by fastforce
  have b2: "nreqs x AND 4 \<noteq> 0 \<longleftrightarrow> bit (nreqs x) 2" using and_exp_eq_0_iff [of "nreqs x" 2] by simp
  obtain fs where fs: "sent x1 = sent x @ fs" using e(6) f(4) by auto
  let ?y = "if nreqs x AND kCanNodeWorkReqSaveConfig \<noteq> 0 then y\<lparr>saves := saves y + 1\<rparr> else y"
  have out: "(if nreqs x AND (kCanNodeWorkReqOutput OR kCanNodeWorkReqOutputResponse) \<noteq> 0
      then outputs_loop (nreqs x) [0..<length (outputs x1)] x1 else Inr x1) = Inr y" using y(1) assms(2) by simp
  have "can_node_work ss x = Inr ?y"
    unfolding can_node_work_def x0(2) Let_def prod.case x1(1) sum.case out by (rule refl)
  moreover have "gpio y (opin (outputs x ! i)) = desired_state i x" if "i < length (outputs x)" for i
    using y(2,3,4,6) that e(1,3) f(1) d(1) by (auto simp: pins_ok_def)
  ultimately show ?thesis using y(3,5,6,7) e f d fs b2
    by (intro exI [of _ ?y] exI [of _ fs]) auto
qed

section \<open>Properties\<close>

text \<open>A node with one output and one source for the examples.\<close>

definition demo_config :: node_config where
  "demo_config = \<lparr>cfg_node_id = 9, cfg_speed = 125000, cfg_sensor_interval = 30,
     cfg_outputs = [\<lparr>omode = 0, osources = [\<lparr>src_node_id = 5, sensor_type = 0, sensor_idx = 0, off_value = 20, on_value = 30\<rparr>]\<rparr>]\<rparr>"

definition demo_node :: nstate where
  "demo_node = \<lparr>node_id = 9, nsem = semaphore_init 0, nreqs = 0,
     outputs = [\<lparr>ostate = False, manual_state = False, opin = 4, osrcs = [False]\<rparr>],
     config_sn = 1, nconfig = demo_config, nkern = demo_kernel, sent = [], gpio = (\<lambda>_. False), saves = 0, junk = replicate 8 0, ncan = drv (can_start demo_kernel)\<rparr>"

lemma demo_pins: "pins_ok demo_node"
  by (simp add: pins_ok_def demo_node_def)

text \<open>
  Identifiers survive the bus: the identifier built for valid node ids and a 9 bit topic fits
  the 29 bits of an extended frame, and sender, receiver and topic are extracted from it unchanged.
\<close>

theorem can_id_roundtrip:
  assumes "can_node_valid_id from" "can_node_valid_id to" "topic AND 0x1FF = topic"
  shows "can_id_extract_from (can_id_build from to topic) = from
     \<and> can_id_extract_to (can_id_build from to topic) = to
     \<and> can_id_extract_topic (can_id_build from to topic) = topic
     \<and> can_id_build from to topic AND 0x1FFFFFFF = can_id_build from to topic"
  using assms by (simp add: can_id_extract_build valid_id_masked can_id_build_29)

theorem can_id_roundtrip_witness: "can_id_extract_from (can_id_build 0x155 0x2AA 500) = 0x155"
  using can_id_roundtrip [of "0x155" "0x2AA" 500] by (simp add: can_node_valid_id_def)

text \<open>
  C30. Every frame of the node protocol reaches its callback and no other: after \<open>can_node_init\<close> on a
  driver with nothing registered, a frame from any node to any node on any topic is accepted by the
  message object of the discovery callback when the topic is 511, of the sensor callback when the
  topic is 500 and the frame goes to all nodes, of the output callback when the topic is 499 and
  the frame goes to this node, and by no message object otherwise.
\<close>

theorem frames_reach_their_callback:
  assumes "can_node_init (\<lambda>_. (True, c)) nid x = Inr (True, y)" "outputs x \<noteq> []"
    and "receive_conf c = replicate 31 (0, 0)" "rx_objects c = []"
    and "can_node_valid_id to" "topic AND 0x1FF = topic"
  shows "callbacks_for (can_id_build from to topic) (ncan y) =
    (if topic = 511 then [discovery_cb]
     else if topic = 500 \<and> to = CAN_NODE_BROADCAST_ID then [sensor_cb]
     else if topic = 499 \<and> to = nid then [output_cb] else [])"
proof -
  have nid: "can_node_valid_id nid" and y: "ncan y = register_callbacks (length (outputs x)) nid c"
    using assms(1) by (auto simp: can_node_init_def can_node_send_discovery_response_def can_node_send_def split: if_splits)
  have "0 < length (outputs x)" using assms(2) by simp
  note reg = registered_objects [OF assms(3,4) this, of nid, folded y]
  have "to AND 0x3FF = to" "nid AND 0x3FF = nid" using assms(5) nid valid_id_masked by blast+
  then show ?thesis
    using assms(6) reg(1-3) unfolding callbacks_for_def reg(4) by (simp add: accepts_iff)
qed

theorem frames_reach_their_callback_witness:
  "\<exists>y. can_node_init (\<lambda>c. (True, c)) 9 demo_node = Inr (True, y)
     \<and> callbacks_for (can_id_build 5 9 499) (ncan y) = [output_cb]
     \<and> callbacks_for (can_id_build 5 8 499) (ncan y) = []"
proof -
  let ?c = "drv (can_start demo_kernel)"
  obtain y where y: "can_node_init (\<lambda>_. (True, ?c)) 9 demo_node = Inr (True, y)"
    by (simp add: can_node_init_def can_node_send_discovery_response_def can_node_send_def can_node_valid_id_def demo_node_def)
  have "ncan demo_node = ?c" by (simp add: demo_node_def)
  then have "can_node_init (\<lambda>c. (True, c)) 9 demo_node = can_node_init (\<lambda>_. (True, ?c)) 9 demo_node"
    by (simp only: can_node_init_def)
  with y have c: "can_node_init (\<lambda>c. (True, c)) 9 demo_node = Inr (True, y)" by simp
  show ?thesis
    using c frames_reach_their_callback [OF y, of 9 499 5] frames_reach_their_callback [OF y, of 8 499 5]
    by (intro exI [of _ y]) (simp add: demo_node_def can_start_def can_node_valid_id_def)
qed

text \<open>
  C31. A reading published by one node switches the sources of another with hysteresis: the frame
  that \<open>publish_value\<close> sends is decoded by the receiver's sensor callback to the same signed value;
  the first source configured for the sender, if it is for this type and index of sensor, goes off
  when the value is below its off value, on when it is above its on value, and stays otherwise. No
  other source changes: further sources of the same sender are never looked at.
\<close>

theorem reading_switches_source:
  assumes "publish_value True sty idx (Some v) x = Inr x'" "frame = last (sent x')" "can_node_valid_id (node_id x)"
    and "all_sources (nconfig z) = as @ (i, j) # bs" "c = osources (cfg_outputs (nconfig z) ! i) ! j"
    and "src_node_id c = node_id x" "\<forall>(a, b) \<in> set as. src_node_id (osources (cfg_outputs (nconfig z) ! a) ! b) \<noteq> node_id x"
    and "sensor_type c = sty" "sensor_idx c = idx"
    and "i < length (outputs z)" "j < length (osrcs (outputs z ! i))"
  shows "(osrcs (outputs (can_node_sensor_callback frame z) ! i) ! j \<longleftrightarrow>
       (if osrcs (outputs z ! i) ! j then off_value c \<le>s v else on_value c <s v))
     \<and> (\<forall>a b. (a, b) \<noteq> (i, j) \<longrightarrow>
          osrcs (outputs (can_node_sensor_callback frame z) ! a) ! b = osrcs (outputs z ! a) ! b)"
proof -
  have fr: "frame = \<lparr>fid = can_id_build (node_id x) 0 500, fflags = CAN_FRAME_FLAG_EXT, data_length = 6, fdata = take 8 (sty # idx # value_bytes v @ junk x)\<rparr>"
    using assms(1,2) by (auto simp: publish_value_sends)
  then have "can_id_extract_from (fid frame) = node_id x" using valid_id_masked assms(3) by (simp add: can_id_extract_build)
  then have cb: "can_node_sensor_callback frame z = sensor_apply i j frame z"
    using sensor_loop_first [OF assms(4)] assms(5-7) by (simp add: can_node_sensor_callback_def)
  have "fdata frame = sty # idx # value_bytes v @ take 2 (junk x)" using fr by (simp add: value_bytes_def)
  then show ?thesis unfolding cb
    using sensor_apply_state [of frame sty idx v "take 2 (junk x)" c z i j] sensor_apply_other assms(5,8-) fr by simp
qed

theorem reading_switches_source_witness:
  "osrcs (outputs (can_node_sensor_callback
      (last (sent (demo_node\<lparr>node_id := 5, sent := [\<lparr>fid = can_id_build 5 0 500, fflags = CAN_FRAME_FLAG_EXT, data_length = 6, fdata = take 8 (0 # 0 # value_bytes 31 @ replicate 8 0)\<rparr>]\<rparr>)))
      demo_node) ! 0) ! 0"
  using reading_switches_source [where x = "demo_node\<lparr>node_id := 5\<rparr>" and sty = 0 and idx = 0 and v = 31 and z = demo_node
      and as = "[]" and i = 0 and j = 0 and bs = "[]", OF publish_value_sends refl]
  by (simp add: demo_node_def demo_config_def can_node_valid_id_def all_sources_def)

text \<open>
  The work loop brings the outputs to the state they should have: one run with an output
  request pending ends without a failed assertion, whatever the sensors return, leaves no request
  pending, and every output, its stored state and its pin, has the commanded state in manual mode
  and otherwise is on exactly when one of its sources is on. Status frames for all outputs are sent
  when a response was requested and not otherwise, so a change of state alone is not reported.
\<close>

theorem work_loop_settles_outputs:
  assumes "pins_ok x" "nreqs x AND (kCanNodeWorkReqOutput OR kCanNodeWorkReqOutputResponse) \<noteq> 0"
  shows "\<exists>y fs. can_node_work ss x = Inr y \<and> nreqs y = 0
     \<and> (\<forall>i < length (outputs x). ostate (outputs y ! i) = desired_state i x
          \<and> gpio y (opin (outputs x ! i)) = desired_state i x)
     \<and> sent y = sent x @ fs @ (if bit (nreqs x) 2 then map (\<lambda>i. status_frame i x) [0..<length (outputs x)] else [])"
  using work_settles [OF assms(1), of ss] assms(2) by simp

theorem work_loop_settles_outputs_witness:
  "\<exists>y. can_node_work [] (demo_node\<lparr>nreqs := 2, outputs := [\<lparr>ostate = False, manual_state = False, opin = 4, osrcs = [True]\<rparr>]\<rparr>) = Inr y \<and> gpio y 4"
  using work_loop_settles_outputs [of "demo_node\<lparr>nreqs := 2, outputs := [\<lparr>ostate = False, manual_state = False, opin = 4, osrcs = [True]\<rparr>]\<rparr>" "[]"]
  by (auto simp: pins_ok_def demo_node_def demo_config_def desired_state_def)

text \<open>
  C32. A command reaches the pin: after an output frame addressed to this node with the manual flag,
  the next run of the work loop sets the pin of the addressed output to the commanded state and
  sends the status of all outputs.
\<close>

theorem output_command_reaches_pin:
  assumes "pins_ok x" "can_id_extract_to (fid frame) = node_id x" "data_length frame = 2"
    and "idx = unat (fdata frame ! 0)" "idx < length (outputs x)" "length (cfg_outputs (nconfig x)) = length (outputs x)"
    and "bit (fdata frame ! 1) 1" "x1 = can_node_output_callback frame x"
  shows "\<exists>y fs. can_node_work ss x1 = Inr y \<and> gpio y (opin (outputs x ! idx)) = bit (fdata frame ! 1) 0
     \<and> sent y = sent x @ fs @ map (\<lambda>i. status_frame i x1) [0..<length (outputs x)]"
proof -
  have b: "fdata frame ! 1 AND 2 \<noteq> 0" "fdata frame ! 1 AND 1 \<noteq> 0 \<longleftrightarrow> bit (fdata frame ! 1) 0"
    using and_exp_eq_0_iff [of "fdata frame ! 1" 1] and_exp_eq_0_iff [of "fdata frame ! 1" 0] assms(7) by simp_all
  have out: "outputs x1 = (outputs x)[idx := (outputs x ! idx)\<lparr>manual_state := bit (fdata frame ! 1) 0\<rparr>]"
    "sent x1 = sent x" "gpio x1 = gpio x" "bit (nreqs x1) 2" "omode (cfg_outputs (nconfig x1) ! idx) = 1"
    using assms(2-6) b unfolding assms(8) can_node_output_callback_def Let_def
    by (simp_all add: bit_simps)
  have "pins_ok x1" using assms(1) out(1,3) by (simp add: pins_ok_def upd_nth map_update) (auto simp: upd_nth distinct_conv_nth)
  moreover have "nreqs x1 AND 6 \<noteq> 0"
  proof
    assume "nreqs x1 AND 6 = 0"
    then have "\<not> bit (nreqs x1 AND 6) 2" by simp
    then show False using out(4) by (simp add: bit_simps)
  qed
  ultimately obtain y fs where y: "can_node_work ss x1 = Inr y"
    "\<forall>i < length (outputs x1). gpio y (opin (outputs x1 ! i)) = desired_state i x1"
    "sent y = sent x1 @ fs @ (if bit (nreqs x1) 2 then map (\<lambda>i. status_frame i x1) [0..<length (outputs x1)] else [])"
    using work_settles [of x1 ss] by auto
  have "desired_state idx x1 = bit (fdata frame ! 1) 0" using out(1,5) assms(5) by (simp add: desired_state_def)
  then show ?thesis using y out assms(5) by auto
qed

theorem output_command_reaches_pin_witness:
  "\<exists>y. can_node_work [] (can_node_output_callback \<lparr>fid = can_id_build 5 9 499, fflags = CAN_FRAME_FLAG_EXT, data_length = 2, fdata = [0, 3, 0, 0, 0, 0, 0, 0]\<rparr> demo_node) = Inr y
     \<and> gpio y 4"
  using output_command_reaches_pin [OF demo_pins, of "\<lparr>fid = can_id_build 5 9 499, fflags = CAN_FRAME_FLAG_EXT, data_length = 2, fdata = [0, 3, 0, 0, 0, 0, 0, 0]\<rparr>" 0 _ "[]"]
  by (auto simp: can_id_extract_build demo_node_def demo_config_def)

end
