(* ===== verification/Lib_Crc8.thy ===== *)
theory Lib_Crc8
  imports FW_Prelude
begin

text \<open>
  The checksum of the configuration and of the SHT2x sensor: \<^verbatim>\<open>src/lib/crc/crc8_maxim.c\<close>.

  The byte-wise code is shown equivalent to a bit-serial shift register for the polynomial
  $x^8 + x^5 + x^4 + 1$, most significant bit first; from its linearity follows which errors the
  checksum detects. The data pointer and the length are the list of the bytes.
\<close>

declare push_bit_Suc [simp del]

section \<open>The code\<close>

abbreviation kCRCPolynomial :: u8 where "kCRCPolynomial \<equiv> 0x31"

definition crc8_bit :: "u8 \<Rightarrow> u8" where
  "crc8_bit crc = (if crc AND 0x80 \<noteq> 0 then push_bit 1 crc XOR kCRCPolynomial else push_bit 1 crc)"

fun crc8_bits :: "nat \<Rightarrow> u8 \<Rightarrow> u8" where
  "crc8_bits 0 crc = crc"
| "crc8_bits (Suc i) crc = crc8_bits i (crc8_bit crc)"

fun crc8_loop :: "u8 list \<Rightarrow> u8 \<Rightarrow> u8" where
  "crc8_loop [] crc = crc"
| "crc8_loop (d # ds) crc = crc8_loop ds (crc8_bits 8 (crc XOR d))"

definition crc8_maxim :: "u8 list \<Rightarrow> u8" where
  "crc8_maxim data = crc8_loop data 0"

section \<open>Reference: a bit-serial shift register\<close>

definition lfsr :: "u8 \<Rightarrow> bool \<Rightarrow> u8" where
  "lfsr r b = push_bit 1 r XOR (if bit r 7 \<noteq> b then 0x31 else 0)"

fun msb_bits :: "nat \<Rightarrow> u8 \<Rightarrow> bool list" where
  "msb_bits 0 w = []"
| "msb_bits (Suc k) w = bit w 7 # msb_bits k (push_bit 1 w)"

definition message_bits :: "u8 list \<Rightarrow> bool list" where
  "message_bits ds = concat (map (msb_bits 8) ds)"

lemma crc8_bit_eq: "crc8_bit r = lfsr r False"
  using and_exp_eq_0_iff [of r 7] by (simp add: crc8_bit_def lfsr_def)

lemma crc8_bit_xor: "crc8_bit (r XOR w) = lfsr r (bit w 7) XOR push_bit 1 w"
  by (simp add: crc8_bit_eq lfsr_def push_bit_xor bit_xor_iff ac_simps)

lemma crc8_bits_xor: "crc8_bits k (r XOR w) = foldl lfsr r (msb_bits k w) XOR push_bit k w"
  by (induction k arbitrary: r w) (simp_all add: crc8_bit_xor)

lemma push_bit_8: "push_bit 8 (w :: u8) = 0"
  by (rule bit_word_eqI) (simp add: bit_simps)

lemma crc8_loop_bits: "crc8_loop ds r = foldl lfsr r (message_bits ds)"
  by (induction ds arbitrary: r) (simp_all add: message_bits_def crc8_bits_xor push_bit_8 del: crc8_bits.simps)

section \<open>Linearity and injectivity\<close>

lemma xor_cancel_right: "a XOR c = b XOR c \<longleftrightarrow> a = b" for a b c :: "'a::len word"
  by (metis xor.assoc xor.right_neutral xor_self_eq)

lemma lfsr_xor: "lfsr (r XOR s) (b \<noteq> c) = lfsr r b XOR lfsr s c"
  by (auto simp: lfsr_def push_bit_xor bit_xor_iff ac_simps)

lemma lfsr_inj: "lfsr r b = lfsr s b \<Longrightarrow> r = s"
proof (rule bit_word_eqI)
  fix n assume eq: "lfsr r b = lfsr s b" and n: "n < LENGTH(8)"
  have "bit (lfsr r b) 0 = bit (lfsr s b) 0" using eq by simp
  then have top: "bit r 7 = bit s 7" by (simp add: lfsr_def bit_simps split: if_splits)
  then have "push_bit 1 r = push_bit 1 s" using eq by (simp add: lfsr_def xor_cancel_right)
  then have "bit (push_bit 1 r) (Suc n) = bit (push_bit 1 s) (Suc n)" by simp
  then show "bit r n = bit s n" using top n by (cases "n = 7") (simp_all add: bit_simps)
qed

lemma foldl_lfsr_xor:
  "length as = length bs \<Longrightarrow>
     foldl lfsr (r XOR s) (map2 (\<noteq>) as bs) = foldl lfsr r as XOR foldl lfsr s bs"
  by (induction as bs arbitrary: r s rule: list_induct2) (simp_all add: lfsr_xor [simplified])

lemma foldl_lfsr_inj: "foldl lfsr r bs = foldl lfsr s bs \<Longrightarrow> r = s"
  by (induction bs arbitrary: r s) (auto dest: lfsr_inj)

lemma lfsr_zero: "foldl lfsr 0 (replicate n False) = 0"
  by (induction n) (simp_all add: lfsr_def)

lemma msb_bits_inv: "length bs \<le> 8 \<Longrightarrow> \<exists>w. bs = msb_bits (length bs) w \<and> (\<forall>i < 8 - length bs. \<not> bit w i)"
proof (induction bs)
  case Nil
  then show ?case by (intro exI [of _ 0]) simp
next
  case (Cons b bs)
  then obtain w where w: "bs = msb_bits (length bs) w" "\<forall>i < 8 - length bs. \<not> bit w i" by auto
  let ?v = "drop_bit 1 w OR push_bit 7 (of_bool b) :: u8"
  have "\<not> bit w 0" using w(2) Cons.prems by simp
  then have "push_bit 1 ?v = w"
    by (intro bit_word_eqI; case_tac n) (auto simp: bit_simps)
  moreover have "bit ?v 7 = b" by (auto simp: bit_simps dest: bit_imp_le_length)
  moreover have "\<forall>i < 8 - length (b # bs). \<not> bit ?v i" using w(2) by (auto simp: bit_simps)
  ultimately show ?case using w(1) by (intro exI [of _ ?v] conjI) simp_all
qed

lemma crc8_bits_lfsr: "crc8_bits k r = foldl lfsr r (replicate k False)"
  by (induction k arbitrary: r) (simp_all add: crc8_bit_eq)

lemma msb_bits_0: "msb_bits k 0 = replicate k False"
  by (induction k) simp_all

lemma short_burst_nonzero: "length bs \<le> 8 \<Longrightarrow> foldl lfsr 0 bs = 0 \<Longrightarrow> bs = replicate (length bs) False"
proof -
  assume bs: "length bs \<le> 8" "foldl lfsr 0 bs = 0"
  let ?bs = "bs @ replicate (8 - length bs) False"
  have l: "length ?bs = 8" using bs(1) by simp
  obtain w where w: "?bs = msb_bits 8 w" using msb_bits_inv [of ?bs] unfolding l by auto
  have "foldl lfsr 0 (msb_bits 8 w) = 0" using bs(2) by (simp only: w [symmetric] foldl_append lfsr_zero)
  then have "crc8_bits 8 w = 0" using crc8_bits_xor [of 8 0 w] by (simp only: push_bit_8) simp
  then have "foldl lfsr w (replicate 8 False) = foldl lfsr 0 (replicate 8 False)"
    by (simp only: crc8_bits_lfsr lfsr_zero)
  then have "w = 0" by (rule foldl_lfsr_inj)
  then have "?bs = replicate 8 False" using w by (simp only: msb_bits_0)
  then have "take (length bs) ?bs = take (length bs) (replicate 8 False)" by simp
  then show ?thesis using bs(1) by (simp add: min_def)
qed

lemma burst_nonzero:
  assumes "foldl lfsr 0 (replicate n False @ burst @ replicate k False) = 0" "length burst \<le> 8"
  shows "True \<notin> set burst"
proof -
  have "foldl lfsr (foldl lfsr 0 burst) (replicate k False) = foldl lfsr 0 (replicate k False)"
    using assms(1) by (simp add: lfsr_zero)
  then have "foldl lfsr 0 burst = 0" by (rule foldl_lfsr_inj)
  then have "burst = replicate (length burst) False" using short_burst_nonzero assms(2) by blast
  then show ?thesis by (metis in_set_replicate)
qed

lemma length_msb_bits: "length (msb_bits k w) = k"
  by (induction k arbitrary: w) simp_all

lemma length_message_bits: "length (message_bits ds) = 8 * length ds"
  by (induction ds) (simp_all add: message_bits_def length_msb_bits del: msb_bits.simps)

lemma crc8_maxim_diff:
  assumes "length as = length bs"
  shows "crc8_maxim as XOR crc8_maxim bs = foldl lfsr 0 (map2 (\<noteq>) (message_bits as) (message_bits bs))"
  using foldl_lfsr_xor [of "message_bits as" "message_bits bs" 0 0] assms
  by (simp add: crc8_maxim_def crc8_loop_bits length_message_bits)

lemma crc8_bits_0: "crc8_bits k 0 = 0"
  by (simp add: crc8_bits_lfsr lfsr_zero)

lemma crc8_loop_append: "crc8_loop (as @ bs) r = crc8_loop bs (crc8_loop as r)"
  by (induction as arbitrary: r) (simp_all del: crc8_bits.simps)

section \<open>Properties\<close>

text \<open>
  C26. The byte-wise checksum is the bit-serial shift register of its polynomial run over the
  bits of the message, most significant bit first, from 0; a message followed by its own
  checksum has checksum 0, which is how a receiver can check it.
\<close>

theorem crc8_is_shift_register:
  "crc8_maxim data = foldl lfsr 0 (message_bits data) \<and> crc8_maxim (data @ [crc8_maxim data]) = 0"
  by (simp add: crc8_maxim_def crc8_loop_bits [symmetric] crc8_loop_append crc8_bits_0 del: crc8_bits.simps)

text \<open>
  The checksum detects every burst of up to eight bits: two messages of the same length
  whose bits differ, with all differences within eight consecutive bits (also across a byte
  boundary), have different checksums.
\<close>

theorem crc8_detects_bursts:
  assumes "length as = length bs"
    and "map2 (\<noteq>) (message_bits as) (message_bits bs) = replicate n False @ burst @ replicate k False"
    and "length burst \<le> 8" "True \<in> set burst"
  shows "crc8_maxim as \<noteq> crc8_maxim bs"
  using crc8_maxim_diff [OF assms(1)] burst_nonzero [of n burst k] assms(2-) by auto

theorem crc8_detects_bursts_witness: "crc8_maxim [0x12, 0x34] \<noteq> crc8_maxim [0x13, 0xB4]"
  by (rule crc8_detects_bursts [where n = 7 and burst = "[True, True]" and k = 7])
    (simp_all add: message_bits_def numeral_eq_Suc bit_simps)

end
