(* ===== verification/Lib_Config.thy ===== *)
theory Lib_Config
  imports Lib_Crc8
begin

text \<open>
  The stored configuration and the EEPROM it is stored in: \<^verbatim>\<open>src/lib/config/config.c\<close> and the driver
  \<^verbatim>\<open>src/device/24xx64/24xx64.c\<close>.

  \<^item> \<open>i2c_dev_transfer\<close> and the chip behind it are a parameter \<open>xfer\<close>: address, bytes to send and
    number of bytes to receive to status (0 is \<open>STATUS_OK\<close>), received bytes and new device.
    \<open>chip_24xx64\<close> states what the data sheet promises of it: sequential reads, writes within a page
    of 32 bytes, and a busy time after a write in which it does not answer.
  \<^item> The \<open>struct config_t\<close> is the list of its bytes; \<open>config_eeprom\<close> is the pair of the driver's
    functions. A variable that is read before it was written has the value \<open>junk\<close>.
\<close>

type_synonym 'd xfer = "u8 \<Rightarrow> u8 list \<Rightarrow> nat \<Rightarrow> 'd \<Rightarrow> u32 \<times> u8 list \<times> 'd"

section \<open>The driver\<close>

abbreviation kMCP24XX64Address :: u8 where "kMCP24XX64Address \<equiv> 0xA0"
abbreviation kPageSize :: nat where "kPageSize \<equiv> 32"

definition addr_bytes :: "u16 \<Rightarrow> u8 list" where
  "addr_bytes address = [ucast (drop_bit 8 address AND 0xFF), ucast (address AND 0xFF)]"

text \<open>The loop of \<open>mcp24xx64_read\<close>: the status, the buffer from here on and the device.\<close>

function eeprom_read_loop :: "'d xfer \<Rightarrow> u16 \<Rightarrow> u8 list \<Rightarrow> 'd \<Rightarrow> u32 \<times> u8 list \<times> 'd" where
  "eeprom_read_loop xfer address buffer d =
     (if length buffer > 0
      then let len = (if length buffer < kPageSize then length buffer else kPageSize);
               (status, rx, d) = xfer kMCP24XX64Address (addr_bytes address) len d
           in if status \<noteq> 0 then (status, buffer, d)
              else let (status, rest, d) = eeprom_read_loop xfer (address + of_nat kPageSize) (drop len buffer) d
                   in (status, rx @ rest, d)
      else (0, [], d))"
  by auto

termination
  by (relation "measure (\<lambda>(xfer, address, buffer, d). length buffer)") auto

definition mcp24xx64_read :: "'d xfer \<Rightarrow> u16 \<Rightarrow> u8 list \<Rightarrow> 'd \<Rightarrow> u32 \<times> u8 list \<times> 'd" where
  "mcp24xx64_read xfer address buffer d = eeprom_read_loop xfer address buffer d"

text \<open>The inner loop of \<open>mcp24xx64_write\<close> sends until the chip accepts.\<close>

partial_function (option) send_until_ok :: "'d xfer \<Rightarrow> u8 list \<Rightarrow> 'd \<Rightarrow> 'd option" where
  "send_until_ok xfer buf d =
     (let (status, rx, d) = xfer kMCP24XX64Address buf 0 d
      in if status \<noteq> 0 then send_until_ok xfer buf d else Some d)"

function eeprom_write_loop :: "'d xfer \<Rightarrow> u16 \<Rightarrow> u8 list \<Rightarrow> 'd \<Rightarrow> 'd option" where
  "eeprom_write_loop xfer address buffer d =
     (if length buffer > 0
      then let len = (if length buffer < kPageSize then length buffer else kPageSize)
           in Option.bind (send_until_ok xfer (addr_bytes address @ take len buffer) d)
                (\<lambda>d. eeprom_write_loop xfer (address + of_nat kPageSize) (drop len buffer) d)
      else Some d)"
  by auto

termination
  by (relation "measure (\<lambda>(xfer, address, buffer, d). length buffer)") auto

declare eeprom_read_loop.simps [simp del] eeprom_write_loop.simps [simp del]

definition mcp24xx64_write :: "'d xfer \<Rightarrow> u16 \<Rightarrow> u8 list \<Rightarrow> 'd \<Rightarrow> (u32 \<times> 'd) option" where
  "mcp24xx64_write xfer address buffer d = map_option (Pair 0) (eeprom_write_loop xfer address buffer d)"

section \<open>The configuration\<close>

record 'd cfg =
  config :: "u8 list"
  edev :: 'd

text \<open>
  The defaults: all 0 but, with CAN support, the speed 125000 and the sensor interval 30 at their
  offsets: the serial number has 4 bytes, the CAN configuration follows it with its fields aligned.
\<close>

definition config_load_defaults :: "bool \<Rightarrow> u8 list \<Rightarrow> u8 list" where
  "config_load_defaults have_can c =
     (let z = replicate (length c) 0
      in if have_can then z[8 := 0x48, 9 := 0xE8, 10 := 0x01, 11 := 0, 12 := 30] else z)"

definition config_load :: "'d xfer \<Rightarrow> bool \<Rightarrow> u8 \<Rightarrow> 'd cfg \<Rightarrow> 'd cfg" where
  "config_load xfer have_can junk x =
     (let (status, c, d) = mcp24xx64_read xfer 0 (config x) (edev x);
          x = x\<lparr>config := c, edev := d\<rparr>
      in if status \<noteq> 0 then x
         else let crc_expected = crc8_maxim (config x);
                  (status, crc_actual, d) = mcp24xx64_read xfer (of_nat (length (config x))) [junk] (edev x);
                  x = x\<lparr>edev := d\<rparr>
              in if crc_actual ! 0 \<noteq> crc_expected
                 then x\<lparr>config := config_load_defaults have_can (config x)\<rparr>
                 else x)"

definition config_save :: "'d xfer \<Rightarrow> 'd cfg \<Rightarrow> 'd cfg option" where
  "config_save xfer x =
     Option.bind (mcp24xx64_write xfer 0 (config x) (edev x)) (\<lambda>(_, d).
       map_option (\<lambda>(_, d). x\<lparr>edev := d\<rparr>)
         (mcp24xx64_write xfer (of_nat (length (config x))) [crc8_maxim (config x)] d))"

section \<open>The chip\<close>

text \<open>
  \<open>contents\<close> are the 8192 bytes of the chip, \<open>busy\<close> how many transfers it will not answer. A read
  of an idle chip returns the bytes from the address on; a write that stays within one page stores
  them; a busy chip refuses, changes nothing, and will not be busy for ever.
\<close>

definition store_at :: "nat \<Rightarrow> u8 list \<Rightarrow> (nat \<Rightarrow> u8) \<Rightarrow> nat \<Rightarrow> u8" where
  "store_at a bs f = (\<lambda>i. if a \<le> i \<and> i < a + length bs then bs ! (i - a) else f i)"

definition chip_24xx64 :: "'d xfer \<Rightarrow> ('d \<Rightarrow> nat \<Rightarrow> u8) \<Rightarrow> ('d \<Rightarrow> nat) \<Rightarrow> bool" where
  "chip_24xx64 xfer contents busy \<longleftrightarrow>
     (\<forall>d a n. unat a + n \<le> 8192 \<longrightarrow> busy d = 0 \<longrightarrow>
        (\<exists>d'. xfer 0xA0 (addr_bytes a) n d = (0, map (contents d) [unat a..<unat a + n], d')
           \<and> contents d' = contents d \<and> busy d' = 0))
   \<and> (\<forall>d a bs. unat a + length bs \<le> 8192 \<longrightarrow> unat a mod 32 + length bs \<le> 32 \<longrightarrow> bs \<noteq> [] \<longrightarrow>
        (\<exists>st rx d'. xfer 0xA0 (addr_bytes a @ bs) 0 d = (st, rx, d')
           \<and> (if busy d = 0 then st = 0 \<and> contents d' = store_at (unat a) bs (contents d)
              else st \<noteq> 0 \<and> contents d' = contents d \<and> busy d' < busy d)))"

lemma store_at_append: "store_at (a + length bs) cs (store_at a bs f) = store_at a (bs @ cs) f"
  by (auto simp: store_at_def nth_append fun_eq_iff)

lemma store_at_Nil [simp]: "store_at a [] f = f"
  by (rule ext) (auto simp: store_at_def)

lemma chip_reads:
  assumes "chip_24xx64 xfer contents busy" "unat a + n \<le> 8192" "busy d = 0"
  shows "\<exists>d'. xfer 0xA0 (addr_bytes a) n d = (0, map (contents d) [unat a..<unat a + n], d')
     \<and> contents d' = contents d \<and> busy d' = 0"
  using assms unfolding chip_24xx64_def by blast

text \<open>The length of a chunk of a nonempty buffer.\<close>

lemma chunk_cases:
  assumes "bs \<noteq> []"
  obtains l where "l = (if length bs < kPageSize then length bs else kPageSize)" "0 < l" "l \<le> length bs" "l \<le> 32"
    "length bs \<le> 32 \<Longrightarrow> l = length bs" "\<not> length bs \<le> 32 \<Longrightarrow> l = 32"
  using assms by (cases "length bs < 32") auto

lemma map_store_at: "map (store_at a bs f) [a..<a + length bs] = bs"
  by (auto simp: store_at_def intro!: nth_equalityI)

lemma send_until_ok_writes:
  assumes "chip_24xx64 xfer contents busy" "unat a + length bs \<le> 8192" "unat a mod 32 + length bs \<le> 32" "bs \<noteq> []"
  shows "\<exists>d'. send_until_ok xfer (addr_bytes a @ bs) d = Some d' \<and> contents d' = store_at (unat a) bs (contents d)"
proof (induction "busy d" arbitrary: d rule: less_induct)
  case less
  obtain st rx d' where t: "xfer 0xA0 (addr_bytes a @ bs) 0 d = (st, rx, d')"
    "if busy d = 0 then st = 0 \<and> contents d' = store_at (unat a) bs (contents d)
     else st \<noteq> 0 \<and> contents d' = contents d \<and> busy d' < busy d"
    using assms unfolding chip_24xx64_def by meson
  show ?case
  proof (cases "busy d = 0")
    case True
    then show ?thesis using t by (subst send_until_ok.simps) simp
  next
    case False
    then show ?thesis using t less [of d'] by (subst send_until_ok.simps) simp
  qed
qed

lemma addr_step: "unat (a :: u16) + 32 \<le> 8192 \<Longrightarrow> unat (a + of_nat 32) = unat a + 32"
  by (simp add: unat_word_ariths)

lemma eeprom_write_loop_writes:
  assumes "chip_24xx64 xfer contents busy" "unat a + length bs \<le> 8192" "unat a mod 32 = 0 \<or> length bs \<le> 1"
  shows "\<exists>d'. eeprom_write_loop xfer a bs d = Some d' \<and> contents d' = store_at (unat a) bs (contents d)"
  using assms(2,3)
proof (induction "length bs" arbitrary: a bs d rule: less_induct)
  case less
  show ?case
  proof (cases "bs = []")
    case True
    then show ?thesis by (subst eeprom_write_loop.simps) simp
  next
    case False
    then obtain l where l: "l = (if length bs < kPageSize then length bs else kPageSize)" "0 < l" "l \<le> length bs" "l \<le> 32"
      "length bs \<le> 32 \<Longrightarrow> l = length bs" "\<not> length bs \<le> 32 \<Longrightarrow> l = 32" by (rule chunk_cases) blast
    have "unat a mod 32 < 32" by simp
    then have "unat a mod 32 + length (take l bs) \<le> 32" using less.prems(2) l by fastforce
    moreover have "unat a + length (take l bs) \<le> 8192" using less.prems(1) l(3) by simp
    moreover have "take l bs \<noteq> []" using False l(2) by simp
    ultimately obtain d1 where d1: "send_until_ok xfer (addr_bytes a @ take l bs) d = Some d1"
      "contents d1 = store_at (unat a) (take l bs) (contents d)"
      using send_until_ok_writes [OF assms(1)] by blast
    have step: "eeprom_write_loop xfer a bs d = eeprom_write_loop xfer (a + of_nat 32) (drop l bs) d1"
      using False d1(1) unfolding eeprom_write_loop.simps [of xfer a bs d] Let_def l(1) [symmetric] by simp
    show ?thesis
    proof (cases "length bs \<le> 32")
      case True
      then show ?thesis using step d1(2) l(5) by (simp add: eeprom_write_loop.simps [of xfer _ "[]"])
    next
      case large: False
      then have u: "unat (a + of_nat 32) = unat a + 32" using less.prems(1) by (intro addr_step) simp
      have lt: "length (drop 32 bs) < length bs" using large by simp
      obtain d' where "eeprom_write_loop xfer (a + of_nat 32) (drop 32 bs) d1 = Some d'"
        "contents d' = store_at (unat a + 32) (drop 32 bs) (contents d1)"
        using less.hyps [OF lt, of "a + of_nat 32" d1] u less.prems large by auto
      then show ?thesis
        using step l(6) [OF large] large d1(2) store_at_append [of "unat a" "take 32 bs" "drop 32 bs" "contents d"] by simp
    qed
  qed
qed

lemma eeprom_read_loop_reads:
  assumes "chip_24xx64 xfer contents busy" "unat a + length bs \<le> 8192" "busy d = 0"
  shows "\<exists>d'. eeprom_read_loop xfer a bs d = (0, map (contents d) [unat a..<unat a + length bs], d')
     \<and> contents d' = contents d \<and> busy d' = 0"
  using assms(2,3)
proof (induction "length bs" arbitrary: a bs d rule: less_induct)
  case less
  show ?case
  proof (cases "bs = []")
    case True
    then show ?thesis using less.prems by (subst eeprom_read_loop.simps) simp
  next
    case False
    then obtain l where l: "l = (if length bs < kPageSize then length bs else kPageSize)" "0 < l" "l \<le> length bs" "l \<le> 32"
      "length bs \<le> 32 \<Longrightarrow> l = length bs" "\<not> length bs \<le> 32 \<Longrightarrow> l = 32" by (rule chunk_cases) blast
    have "unat a + l \<le> 8192" using less.prems(1) l(3) by simp
    then obtain d1 where d1: "xfer 0xA0 (addr_bytes a) l d = (0, map (contents d) [unat a..<unat a + l], d1)"
      "contents d1 = contents d" "busy d1 = 0"
      using chip_reads [OF assms(1)] less.prems(2) by blast
    have step: "eeprom_read_loop xfer a bs d =
        (let (status, rest, d) = eeprom_read_loop xfer (a + of_nat 32) (drop l bs) d1
         in (status, map (contents d1) [unat a..<unat a + l] @ rest, d))"
      using False d1(1,2) unfolding eeprom_read_loop.simps [of xfer a bs d] Let_def l(1) [symmetric] by simp
    show ?thesis
    proof (cases "length bs \<le> 32")
      case True
      then show ?thesis using step d1(2,3) l(5) by (simp add: eeprom_read_loop.simps [of xfer _ "[]"])
    next
      case large: False
      then have u: "unat (a + of_nat 32) = unat a + 32" using less.prems(1) by (intro addr_step) simp
      have lt: "length (drop 32 bs) < length bs" using large by simp
      obtain d' where d': "eeprom_read_loop xfer (a + of_nat 32) (drop 32 bs) d1 =
          (0, map (contents d1) [unat a + 32..<unat a + 32 + length (drop 32 bs)], d')"
        "contents d' = contents d1" "busy d' = 0"
        using less.hyps [OF lt, of "a + of_nat 32" d1] u less.prems large d1(3) by auto
      have "[unat a..<unat a + length bs] = [unat a..<unat a + 32] @ [unat a + 32..<unat a + 32 + length (drop 32 bs)]"
        using upt_add_eq_append [of "unat a" "unat a + 32" "length bs - 32"] large by simp
      then show ?thesis using step l(6) [OF large] d1(2) d' by simp
    qed
  qed
qed

section \<open>Saving and loading\<close>

lemma config_save_stores:
  assumes "chip_24xx64 xfer contents busy" "length (config x) < 8192"
  shows "\<exists>d. config_save xfer x = Some (x\<lparr>edev := d\<rparr>)
     \<and> contents d = store_at 0 (config x @ [crc8_maxim (config x)]) (contents (edev x))"
proof -
  have u: "unat (of_nat (length (config x)) :: u16) = length (config x)" using assms(2) by (simp add: unat_of_nat)
  obtain d1 where d1: "eeprom_write_loop xfer 0 (config x) (edev x) = Some d1"
    "contents d1 = store_at 0 (config x) (contents (edev x))"
    using eeprom_write_loop_writes [OF assms(1), of 0 "config x" "edev x"] assms(2) by auto
  obtain d2 where d2: "eeprom_write_loop xfer (of_nat (length (config x))) [crc8_maxim (config x)] d1 = Some d2"
    "contents d2 = store_at (length (config x)) [crc8_maxim (config x)] (contents d1)"
    using eeprom_write_loop_writes [OF assms(1), of "of_nat (length (config x))" "[crc8_maxim (config x)]" d1] assms(2)
    by (auto simp: u)
  show ?thesis
    using d1 d2 store_at_append [of 0 "config x" "[crc8_maxim (config x)]" "contents (edev x)"]
    by (intro exI [of _ d2]) (simp add: config_save_def mcp24xx64_write_def)
qed

lemma config_load_reads:
  assumes "chip_24xx64 xfer contents busy" "length (config y) = n" "n < 8192" "busy (edev y) = 0"
    and "c = map (contents (edev y)) [0..<n]"
  shows "config (config_load xfer have_can junk y) =
     (if contents (edev y) n = crc8_maxim c then c else config_load_defaults have_can c)"
proof -
  have u: "unat (of_nat n :: u16) = n" using assms(3) by (simp add: unat_of_nat)
  obtain d1 where d1: "eeprom_read_loop xfer 0 (config y) (edev y) = (0, c, d1)"
    "contents d1 = contents (edev y)" "busy d1 = 0"
    using eeprom_read_loop_reads [OF assms(1), of 0 "config y" "edev y"] assms(2-) by auto
  obtain d2 where "eeprom_read_loop xfer (of_nat n) [junk] d1 = (0, [contents d1 n], d2)"
    using eeprom_read_loop_reads [OF assms(1), of "of_nat n" "[junk]" d1] assms(3) d1(3) by (auto simp: u)
  then show ?thesis using d1 assms(2,5)
    by (simp add: config_load_def mcp24xx64_read_def Let_def)
qed

section \<open>Properties\<close>

text \<open>
  A chip as the data sheet describes it: the low 13 bits of the two address bytes select the byte,
  writes wrap around within the page, and after a write the chip does not answer for a while.
\<close>

definition demo_chip :: "((nat \<Rightarrow> u8) \<times> nat) xfer" where
  "demo_chip dev tx n d =
     (let (mem, busy) = d; a = (unat (tx ! 0) * 256 + unat (tx ! 1)) mod 8192; data = drop 2 tx
      in if busy > 0 then (1, [], mem, busy - 1)
         else if data = [] then (0, map (\<lambda>i. mem ((a + i) mod 8192)) [0..<n], mem, busy)
         else (0, [], \<lambda>i. if i div 32 = a div 32 \<and> (i + 32 - a mod 32) mod 32 < length data
                          then data ! ((i + 32 - a mod 32) mod 32) else mem i, 3))"

text \<open>
  The EEPROM driver stores and reads back: with a chip that behaves as its data sheet says,
  \<open>mcp24xx64_write\<close> at a page boundary returns, however long the chip is busy after each page, and
  stores exactly the given bytes; \<open>mcp24xx64_read\<close> of an idle chip, at any address, returns exactly
  the bytes stored there.
\<close>

theorem eeprom_driver_stores:
  assumes "chip_24xx64 xfer contents busy" "unat a + length bs \<le> 8192" "unat a mod 32 = 0"
  shows "(\<exists>d'. mcp24xx64_write xfer a bs d = Some (0, d') \<and> contents d' = store_at (unat a) bs (contents d))
     \<and> (busy e = 0 \<and> unat b + length buf \<le> 8192 \<longrightarrow>
          (\<exists>e'. mcp24xx64_read xfer b buf e = (0, map (contents e) [unat b..<unat b + length buf], e')))"
  using eeprom_write_loop_writes [OF assms(1,2), of d] assms(3) eeprom_read_loop_reads [OF assms(1), of b buf e]
  by (auto simp: mcp24xx64_write_def mcp24xx64_read_def)

lemma addr_decode: "unat (ucast (drop_bit 8 a AND 0xFF) :: u8) * 256 + unat (ucast (a AND 0xFF) :: u8) = unat a" for a :: u16
proof -
  have m: "(0xFF :: u16) = mask 8" by (simp add: mask_eq_exp_minus_1)
  have "unat (ucast (drop_bit 8 a AND 0xFF) :: u8) = unat a div 256"
  proof -
    have "ucast (drop_bit 8 a AND 0xFF) = (ucast (drop_bit 8 a) :: u8)"
      unfolding m by (rule bit_word_eqI) (auto simp: bit_simps)
    moreover have "unat a div 256 < 256" using unsigned_less [of a, where 'a = nat] by simp
    ultimately show ?thesis by (simp add: unsigned_ucast_eq take_bit_eq_mod drop_bit_eq_div unat_div)
  qed
  moreover have "unat (ucast (a AND 0xFF) :: u8) = unat a mod 256"
  proof -
    have "ucast (a AND 0xFF) = (ucast a :: u8)"
      unfolding m by (rule bit_word_eqI) (auto simp: bit_simps)
    then show ?thesis by (simp add: unsigned_ucast_eq take_bit_eq_mod)
  qed
  ultimately show ?thesis by simp
qed

lemma page_offset:
  assumes "s + n \<le> 32" "r < 32" "s < (32 :: nat)"
  shows "(r + 32 - s) mod 32 < n \<longleftrightarrow> s \<le> r \<and> r < s + n" "s \<le> r \<Longrightarrow> (r + 32 - s) mod 32 = r - s"
proof -
  have "(r + 32 - s) mod 32 = (if s \<le> r then r - s else r + 32 - s)"
    using assms(2,3) by (cases "s \<le> r") (simp_all add: mod_nat_eqI le_mod_geq)
  then show "(r + 32 - s) mod 32 < n \<longleftrightarrow> s \<le> r \<and> r < s + n" "s \<le> r \<Longrightarrow> (r + 32 - s) mod 32 = r - s"
    using assms by auto
qed

lemma page_index:
  assumes "a mod 32 + n \<le> (32 :: nat)"
  shows "i div 32 = a div 32 \<and> (i + 32 - a mod 32) mod 32 < n \<longleftrightarrow> a \<le> i \<and> i < a + n"
    and "a \<le> i \<Longrightarrow> i < a + n \<Longrightarrow> (i + 32 - a mod 32) mod 32 = i - a"
proof -
  obtain p s where a: "a = 32 * p + s" "s < 32" "a div 32 = p" "a mod 32 = s"
    by (metis mod_less_divisor mult_div_mod_eq zero_less_numeral)
  obtain q r where i: "i = 32 * q + r" "r < 32" "i div 32 = q"
    by (metis mod_less_divisor mult_div_mod_eq zero_less_numeral)
  have sn: "s + n \<le> 32" using assms a(4) by simp
  have e: "(i + 32 - s) mod 32 = (r + 32 - s) mod 32"
  proof -
    have "i + 32 - s = (r + 32 - s) + 32 * q" using i(1) a(2) by linarith
    then show ?thesis by (simp only: mod_mult_self2)
  qed
  have pq: "p = q" if "a \<le> i" "i < a + n" using that a(1,2) i(1,2) assms a(4) by linarith
  show "i div 32 = a div 32 \<and> (i + 32 - a mod 32) mod 32 < n \<longleftrightarrow> a \<le> i \<and> i < a + n"
  proof (cases "p = q")
    case True
    then have "a \<le> i \<and> i < a + n \<longleftrightarrow> s \<le> r \<and> r < s + n" using a(1) i(1) by auto
    then show ?thesis unfolding a(3,4) i(3) e using page_offset(1) [OF sn i(2) a(2)] True by blast
  next
    case False
    then show ?thesis unfolding a(3) i(3) using pq by blast
  qed
  assume "a \<le> i" "i < a + n"
  then have "p = q" by (rule pq)
  then have "s \<le> r" "i - a = r - s" using \<open>a \<le> i\<close> unfolding a(1) i(1) by simp_all
  then show "(i + 32 - a mod 32) mod 32 = i - a"
    unfolding a(4) e using page_offset(2) [OF sn i(2) a(2)] by simp
qed

lemma demo_chip_ok: "chip_24xx64 demo_chip fst snd"
  unfolding chip_24xx64_def
proof (intro conjI allI impI)
  fix d :: "(nat \<Rightarrow> u8) \<times> nat" and a :: u16 and n
  assume n: "unat a + n \<le> 8192" "snd d = 0"
  have "map (\<lambda>i. fst d ((unat a mod 8192 + i) mod 8192)) [0..<n] = map (fst d) [unat a..<unat a + n]"
    using n(1) by (intro nth_equalityI) (auto simp: mod_add_left_eq)
  then show "\<exists>d'. demo_chip 0xA0 (addr_bytes a) n d = (0, map (fst d) [unat a..<unat a + n], d') \<and> fst d' = fst d \<and> snd d' = 0"
    using n(2) addr_decode [of a] by (simp add: demo_chip_def addr_bytes_def Let_def split: prod.split) auto
next
  fix d :: "(nat \<Rightarrow> u8) \<times> nat" and a :: u16 and bs :: "u8 list"
  assume b: "unat a + length bs \<le> 8192" "unat a mod 32 + length bs \<le> 32" "bs \<noteq> []"
  have "unat a < 8192" using b(1,3) by (cases bs) auto
  then have "demo_chip 0xA0 (addr_bytes a @ bs) 0 d = (if snd d > 0 then (1, [], fst d, snd d - 1)
      else (0, [], store_at (unat a) bs (fst d), 3))"
    using page_index [OF b(2)] b(3) addr_decode [of a]
    by (auto simp: demo_chip_def addr_bytes_def Let_def store_at_def fun_eq_iff split: prod.split)
  then show "\<exists>st rx d'. demo_chip 0xA0 (addr_bytes a @ bs) 0 d = (st, rx, d')
       \<and> (if snd d = 0 then st = 0 \<and> fst d' = store_at (unat a) bs (fst d)
          else st \<noteq> 0 \<and> fst d' = fst d \<and> snd d' < snd d)"
    by auto
qed

theorem eeprom_driver_stores_witness:
  "\<exists>d'. mcp24xx64_write demo_chip 64 (replicate 50 7) (\<lambda>_. 0, 9) = Some (0, d') \<and> fst d' 113 = 7 \<and> fst d' 114 = 0"
proof -
  obtain d' where "mcp24xx64_write demo_chip 64 (replicate 50 7) (\<lambda>_. 0, 9) = Some (0, d')"
    "fst d' = store_at 64 (replicate 50 7) (\<lambda>_. 0)"
    using eeprom_driver_stores [OF demo_chip_ok, of 64 "replicate 50 7" "(\<lambda>_. 0, 9)" "(\<lambda>_. 0, 0)" 0 "[]"] by auto
  then show ?thesis by (intro exI [of _ d']) (simp add: store_at_def)
qed

text \<open>
  The configuration survives a restart: what \<open>config_save\<close> stores, \<open>config_load\<close> brings back
  once the chip is idle again, whatever the memory of the configuration held before the load.
\<close>

theorem config_survives_restart:
  assumes "chip_24xx64 xfer contents busy" "length (config x) < 8192"
  shows "\<exists>x'. config_save xfer x = Some x'
     \<and> (\<forall>y. contents (edev y) = contents (edev x') \<and> busy (edev y) = 0 \<and> length (config y) = length (config x) \<longrightarrow>
          config (config_load xfer have_can junk y) = config x)"
proof -
  let ?bs = "config x @ [crc8_maxim (config x)]"
  obtain d where d: "config_save xfer x = Some (x\<lparr>edev := d\<rparr>)" "contents d = store_at 0 ?bs (contents (edev x))"
    using config_save_stores [OF assms] by blast
  have "map (contents d) [0..<length (config x)] = config x" "contents d (length (config x)) = crc8_maxim (config x)"
    unfolding d(2) by (auto simp: store_at_def nth_append intro!: nth_equalityI)
  then show ?thesis using config_load_reads [OF assms(1) _ assms(2)] d(1) by auto
qed

theorem config_survives_restart_witness:
  "\<exists>x'. config_save demo_chip \<lparr>config = replicate 40 5, edev = (\<lambda>_. 0, 0)\<rparr> = Some x'
     \<and> config (config_load demo_chip True 0 \<lparr>config = replicate 40 0, edev = (fst (edev x'), 0)\<rparr>) = replicate 40 5"
  using config_survives_restart [OF demo_chip_ok, of "\<lparr>config = replicate 40 5, edev = (\<lambda>_. 0, 0)\<rparr>" True 0] by force

text \<open>
  C29. Corruption is detected: if the stored configuration has changed within eight consecutive bits,
  and its checksum has not, \<open>config_load\<close> loads the defaults.
\<close>

theorem config_detects_corruption:
  assumes "chip_24xx64 xfer contents busy" "length (config y) = n" "n < 8192" "busy (edev y) = 0"
    and "length c = n" "contents (edev y) n = crc8_maxim c" "c' = map (contents (edev y)) [0..<n]"
    and "map2 (\<noteq>) (message_bits c') (message_bits c) = replicate k False @ burst @ replicate l False"
    and "length burst \<le> 8" "True \<in> set burst"
  shows "config (config_load xfer have_can junk y) = config_load_defaults have_can c'"
proof -
  have "crc8_maxim c' \<noteq> crc8_maxim c"
    using crc8_maxim_diff [of c' c] burst_nonzero [of k burst l] assms(5,7-10) by auto
  then show ?thesis using config_load_reads [OF assms(1-4,7)] assms(6) by simp
qed

theorem config_detects_corruption_witness:
  "config (config_load demo_chip False 0 \<lparr>config = [0, 0], edev = ((\<lambda>i. [0x12, 0x34, crc8_maxim [0x13, 0xB4]] ! i), 0)\<rparr>) = [0, 0]"
proof -
  let ?y = "\<lparr>config = [0, 0], edev = ((\<lambda>i. [0x12, 0x34, crc8_maxim [0x13, 0xB4]] ! i), 0)\<rparr>"
  have c: "[0x12, 0x34] = map (fst (edev ?y)) [0..<2]" by (simp add: upt_rec)
  have "config (config_load demo_chip False 0 ?y) = config_load_defaults False [0x12, 0x34]"
    by (rule config_detects_corruption [OF demo_chip_ok, where n = 2 and c = "[0x13, 0xB4]" and k = 7 and burst = "[True, True]" and l = 7])
      (simp_all add: c message_bits_def numeral_eq_Suc bit_simps upt_rec)
  then show ?thesis by (simp add: config_load_defaults_def)
qed

end
