(* ===== verification/Dev_Sht2x.thy ===== *)
theory Dev_Sht2x
  imports Lib_Config
begin

text \<open>
  The temperature and humidity sensor: \<^verbatim>\<open>src/device/sht2x/sht2x.c\<close>. The transfer over the bus is
  the parameter \<open>xfer\<close> of \<^verbatim>\<open>Lib_Config\<close>; a received buffer that is shorter than requested has
  unspecified bytes, so the theorems are about transfers that deliver what was asked for. Creating
  the device only stores pointers. Results are \<open>int32_t\<close> words.
\<close>

abbreviation kSHT2xAddress :: u8 where "kSHT2xAddress \<equiv> 0x80"

definition check_crc :: "u8 list \<Rightarrow> u8 \<Rightarrow> bool" where
  "check_crc data checksum = (crc8_maxim data = checksum)"

definition raw_value :: "u8 list \<Rightarrow> u16" where
  "raw_value buf = (push_bit 8 (ucast (buf ! 0)) OR ucast (buf ! 1)) AND NOT 3"

text \<open>Status, the result if it is written, and the device.\<close>

definition sht2x_get_temp :: "'d xfer \<Rightarrow> 'd \<Rightarrow> u32 \<times> i32 option \<times> 'd" where
  "sht2x_get_temp xfer d =
     (let (status, buf, d) = xfer kSHT2xAddress [0xE3] 3 d in
      if status \<noteq> 0 then (- 1, None, d)
      else if \<not> check_crc (take 2 buf) (buf ! 2) then (1, None, d)
      else (0, Some (signed_drop_bit 13 (21965 * ucast (raw_value buf)) - 46850), d))"

definition sht2x_get_humidity :: "'d xfer \<Rightarrow> 'd \<Rightarrow> u32 \<times> i32 option \<times> 'd" where
  "sht2x_get_humidity xfer d =
     (let (status, buf, d) = xfer kSHT2xAddress [0xE5] 3 d in
      if status \<noteq> 0 then (- 1, None, d)
      else if \<not> check_crc (take 2 buf) (buf ! 2) then (1, None, d)
      else (0, Some (signed_drop_bit 13 (15625 * ucast (raw_value buf)) - 6000), d))"

definition sht2x_read_serial_number :: "'d xfer \<Rightarrow> 'd \<Rightarrow> 64 word \<times> 'd" where
  "sht2x_read_serial_number xfer d =
     (let (status, buf1, d) = xfer kSHT2xAddress [0xFA, 0x0F] 8 d in
      if status \<noteq> 0 then (- 1, d)
      else let (status, buf2, d) = xfer kSHT2xAddress [0xFC, 0xC9] 6 d in
        if status \<noteq> 0 then (- 1, d)
        else (push_bit 56 (ucast (buf2 ! 3)) OR push_bit 48 (ucast (buf2 ! 4)) OR push_bit 40 (ucast (buf1 ! 0))
              OR push_bit 32 (ucast (buf1 ! 2)) OR push_bit 24 (ucast (buf1 ! 4)) OR push_bit 16 (ucast (buf1 ! 6))
              OR push_bit 8 (ucast (buf2 ! 0)) OR ucast (buf2 ! 1), d))"

definition sht2x_write_config :: "'d xfer \<Rightarrow> u8 \<Rightarrow> 'd \<Rightarrow> 'd" where
  "sht2x_write_config xfer conf d = snd (snd (xfer kSHT2xAddress [0xE7, conf] 0 d))"

definition sht2x_soft_reset :: "'d xfer \<Rightarrow> 'd \<Rightarrow> 'd" where
  "sht2x_soft_reset xfer d = snd (snd (xfer kSHT2xAddress [0xFE] 0 d))"

section \<open>Fixed-point conversion\<close>

lemma scaled_value:
  fixes raw :: u16
  assumes "0 \<le> k" "k \<le> 30000" "0 \<le> off" "off < 2 ^ 30"
  shows "sint (signed_drop_bit 13 (word_of_int k * ucast raw :: i32) - word_of_int off) = k * uint raw div 8192 - off"
proof -
  have r: "uint raw < 65536" "0 \<le> uint raw" using uint_bounded [of raw] by simp_all
  then have p: "0 \<le> k * uint raw" "k * uint raw < 2 ^ 31"
    using assms(1,2) mult_mono [of k 30000 "uint raw" 65535] by auto
  have "word_of_int k * ucast raw = (word_of_int (k * uint raw) :: i32)" by simp
  then have s: "sint (word_of_int k * ucast raw :: i32) = k * uint raw"
    using p by (simp only: sint_sbintrunc') (simp add: signed_take_bit_int_eq_self)
  let ?q = "k * uint raw div 8192"
  have q: "0 \<le> ?q" "?q < 2 ^ 31" using p by (simp_all add: div_less_dividend)
  have "sint (signed_drop_bit 13 (word_of_int k * ucast raw :: i32)) = ?q"
    using s by (simp add: sint_signed_drop_bit_eq drop_bit_eq_div)
  then have "(of_int (sint (signed_drop_bit 13 (word_of_int k * ucast raw :: i32))) :: i32) = of_int ?q"
    by (simp only:)
  then have "signed_drop_bit 13 (word_of_int k * ucast raw :: i32) = word_of_int ?q"
    by (simp only: of_int_sint scast_id)
  then have "signed_drop_bit 13 (word_of_int k * ucast raw :: i32) - word_of_int off = word_of_int (?q - off)" by simp
  then show ?thesis using q assms(3,4)
    by (simp only: sint_sbintrunc') (simp add: signed_take_bit_int_eq_self)
qed

lemma low_bits_cleared:
  fixes x y :: int
  assumes "0 \<le> x" "0 \<le> y" "x < 256" "y < 256"
  shows "(256 * x + y) div 4 * 4 mod 65536 = 256 * x + 4 * (y div 4)"
proof -
  have "(256 * x + y) div 4 = 64 * x + y div 4"
    using div_mult_self1 [of 4 y "64 * x"] by (simp add: ac_simps)
  moreover have "0 \<le> y div 4" "4 * (y div 4) \<le> y" using assms by (simp_all add: pos_imp_zdiv_nonneg_iff)
  ultimately show ?thesis using assms by (simp add: mod_pos_pos_trivial)
qed

lemma raw_value_eq: "uint (raw_value [a, b, c]) = 256 * uint a + 4 * (uint b div 4)"
proof -
  let ?x = "push_bit 8 (ucast a) OR ucast b :: u16"
  have ab: "uint a < 256" "uint b < 256" "0 \<le> uint a" "0 \<le> uint b" using uint_bounded [of a] uint_bounded [of b] by simp_all
  have "?x = push_bit 8 (ucast a) + ucast b"
    by (rule disjunctive_add [symmetric]) (auto simp: bit_simps dest: bit_imp_le_length)
  then have x: "uint ?x = 256 * uint a + uint b"
    using ab by (simp add: push_bit_eq_mult uint_word_ariths unsigned_ucast_eq take_bit_int_eq_self)
  have "w AND NOT (mask 2) = push_bit 2 (drop_bit 2 w)" for w :: u16
    by (rule bit_word_eqI) (auto simp: bit_simps Suc_diff_Suc numeral_2_eq_2)
  then have "?x AND NOT 3 = push_bit 2 (drop_bit 2 ?x)" by (simp add: mask_eq_exp_minus_1)
  then have "uint (?x AND NOT 3) = uint ?x div 4 * 4 mod 65536"
    by (simp add: push_bit_eq_mult drop_bit_eq_div uint_word_ariths uint_div)
  then show ?thesis using x low_bits_cleared [OF ab(3,4,1,2)] by (simp add: raw_value_def)
qed

lemma raw_value_bounds: "0 \<le> uint (raw_value buf)" "uint (raw_value buf) \<le> 65535"
  using uint_bounded [of "raw_value buf"] by simp_all

section \<open>Properties\<close>

text \<open>
  C38. The readings are exact: for a transfer that delivers three bytes to the command of the measurement,
  temperature and humidity, each from its own transfer, are the linear formulas of the code on the 14 measured bits
  (the two status bits are cleared) evaluated without overflow, rounded
  towards minus infinity, for every raw value; they lie between -46850 and 128867 and between -6000
  and 118998. With a checksum that does not match, no result is stored and an error is returned.
\<close>

theorem sht2x_readings_exact:
  assumes "xfer 0x80 [0xE3] 3 d = (0, [a, b, c], d1)" "xfer 0x80 [0xE5] 3 e = (0, [a', b', c'], e1)"
  shows "(if crc8_maxim [a, b] = c
      then \<exists>t. sht2x_get_temp xfer d = (0, Some t, d1)
        \<and> sint t = 21965 * (256 * uint a + 4 * (uint b div 4)) div 8192 - 46850 \<and> - 46850 \<le> sint t \<and> sint t \<le> 128867
      else sht2x_get_temp xfer d = (1, None, d1))
    \<and> (if crc8_maxim [a', b'] = c'
      then \<exists>h. sht2x_get_humidity xfer e = (0, Some h, e1)
        \<and> sint h = 15625 * (256 * uint a' + 4 * (uint b' div 4)) div 8192 - 6000 \<and> - 6000 \<le> sint h \<and> sint h \<le> 118998
      else sht2x_get_humidity xfer e = (1, None, e1))"
proof -
  have "if crc8_maxim [a, b] = c
      then \<exists>t. sht2x_get_temp xfer d = (0, Some t, d1)
        \<and> sint t = 21965 * (256 * uint a + 4 * (uint b div 4)) div 8192 - 46850 \<and> - 46850 \<le> sint t \<and> sint t \<le> 128867
      else sht2x_get_temp xfer d = (1, None, d1)"
    using assms(1) scaled_value [of 21965 46850 "raw_value [a, b, c]"] raw_value_eq [of a b c] raw_value_bounds [of "[a, b, c]"]
    by (simp add: sht2x_get_temp_def check_crc_def) linarith
  moreover have "if crc8_maxim [a', b'] = c'
      then \<exists>h. sht2x_get_humidity xfer e = (0, Some h, e1)
        \<and> sint h = 15625 * (256 * uint a' + 4 * (uint b' div 4)) div 8192 - 6000 \<and> - 6000 \<le> sint h \<and> sint h \<le> 118998
      else sht2x_get_humidity xfer e = (1, None, e1)"
    using assms(2) scaled_value [of 15625 6000 "raw_value [a', b', c']"] raw_value_eq [of a' b' c'] raw_value_bounds [of "[a', b', c']"]
    by (simp add: sht2x_get_humidity_def check_crc_def) linarith
  ultimately show ?thesis by blast
qed

text \<open>A sensor that answers the two commands with readings of their kind: status bit 1 marks a humidity.\<close>

definition demo_sensor :: "unit xfer" where
  "demo_sensor = (\<lambda>addr cmd n d.
     (0, if cmd = [0xE3] then [0x68, 0x38, crc8_maxim [0x68, 0x38]] else [0x4E, 0x86, crc8_maxim [0x4E, 0x86]], d))"

theorem sht2x_readings_exact_witness:
  "\<exists>t h. sht2x_get_temp demo_sensor () = (0, Some t, ()) \<and> sint t = 24686
     \<and> sht2x_get_humidity demo_sensor () = (0, Some h, ()) \<and> sint h = 32337"
proof -
  have "demo_sensor 0x80 [0xE3] 3 () = (0, [0x68, 0x38, crc8_maxim [0x68, 0x38]], ())"
    "demo_sensor 0x80 [0xE5] 3 () = (0, [0x4E, 0x86, crc8_maxim [0x4E, 0x86]], ())"
    by (simp_all add: demo_sensor_def)
  from sht2x_readings_exact [of demo_sensor, OF this] show ?thesis by (simp only: refl if_True) auto
qed

end
