(* ===== verification/Plat_Gpio.thy ===== *)
theory Plat_Gpio
  imports Core_Malloc
begin

text \<open>
  Pins, the analog to digital converter and what is built on them:
  \<^verbatim>\<open>src/platform/lpc11xx/gpio.c\<close>, \<^verbatim>\<open>src/platform/lpc11xx/adc.c\<close>, the voltage sensor of
  \<^verbatim>\<open>src/lib/sensor/sensor.c\<close> and the valves of \<^verbatim>\<open>src/target/valve-controller/valve.c\<close>.

  \<^item> The four ports are a list of register pairs. An access through \<open>MASKED_ACCESS[mask]\<close> reads
    and writes the bits of \<open>DATA\<close> that are in the mask; the array has 4096 entries.
  \<^item> \<open>LPC_IOCON\<close> is a memory of words by byte offset.
  \<^item> The data register of the converter is the sequence of values its next reads return; a wait
    for the done bit that is not in the sequence has no result.
  \<^item> \<open>delay\<close> of the scheduler is a parameter: what happens to the hardware while the thread waits.

  Shown: pins are independent, the voltage sensor computes the documented value without overflow,
  and what valves created by \<open>valve_create\<close> do.
\<close>

section \<open>Hardware\<close>

record port =
  DIR :: u32
  DATA :: u32

record hw =
  ports :: "port list"
  iocon :: "nat \<Rightarrow> u32"
  adc_cr :: u32
  adc_gdr :: "u32 list"
  adc_setup :: "u32 \<times> u32"
  hw_heap :: mheap

datatype gpio_direction_t = GPIO_DIRECTION_IN | GPIO_DIRECTION_OUT
datatype gpio_pull_t = GPIO_PULL_NONE | GPIO_PULL_UP | GPIO_PULL_DOWN

section \<open>Pins (gpio.c)\<close>

text \<open>The macro \<open>PIN\<close>; the package number of the pin is its third argument.\<close>

definition PIN :: "u32 \<Rightarrow> u32 \<Rightarrow> u32 \<Rightarrow> u32" where
  "PIN port pin number = push_bit 24 port OR push_bit 8 pin OR number"

definition pin_get_port :: "u32 \<Rightarrow> u8" where
  "pin_get_port pin = ucast (drop_bit 24 pin)"

definition pin_get_pin :: "u32 \<Rightarrow> u8" where
  "pin_get_pin pin = ucast (drop_bit 8 pin AND 0xFFFF)"

definition pin_get_number :: "u32 \<Rightarrow> u8" where
  "pin_get_number pin = ucast (pin AND 0xFF)"

definition with_port :: "u32 \<Rightarrow> (nat \<Rightarrow> port \<Rightarrow> fault + port) \<Rightarrow> hw \<Rightarrow> fault + hw" where
  "with_port pin f h =
     (let port = unat (pin_get_port pin); n = unat (pin_get_pin pin)
      in if n \<ge> 32 then Inl Undefined_Shift
         else if port \<ge> length (ports h) then Inl Out_Of_Bounds
         else map_sum id (\<lambda>p. h\<lparr>ports := (ports h)[port := p]\<rparr>) (f n (ports h ! port)))"

definition gpio_set_direction :: "u32 \<Rightarrow> gpio_direction_t \<Rightarrow> hw \<Rightarrow> fault + hw" where
  "gpio_set_direction pin direction =
     with_port pin (\<lambda>n p. Inr
       (if direction = GPIO_DIRECTION_OUT then p\<lparr>DIR := DIR p OR push_bit n 1\<rparr>
        else p\<lparr>DIR := DIR p AND NOT (push_bit n 1)\<rparr>))"

definition gpio_set_pull :: "u32 \<Rightarrow> gpio_pull_t \<Rightarrow> hw \<Rightarrow> fault + hw" where
  "gpio_set_pull pin pull h =
     (let offset = unat (pin_get_number pin);
          offset = (if offset \<ge> 4 then offset + 4 else offset);
          offset = (if offset \<ge> 6 * 4 then offset + 4 else offset);
          conf = iocon h offset
      in if offset mod 4 \<noteq> 0 then Inl Unaligned_Access
         else Inr (h\<lparr>iocon := (iocon h)(offset :=
           (case pull of
              GPIO_PULL_NONE \<Rightarrow> conf AND 0xFFFFFFE7
            | GPIO_PULL_DOWN \<Rightarrow> (conf AND 0xFFFFFFE7) OR 0x8
            | GPIO_PULL_UP \<Rightarrow> (conf AND 0xFFFFFFE7) OR 0x10))\<rparr>))"

text \<open>\<open>MASKED_ACCESS\<close> of a port\<close>

definition masked_write :: "nat \<Rightarrow> u32 \<Rightarrow> port \<Rightarrow> fault + port" where
  "masked_write msk v p =
     (if msk \<ge> 4096 then Inl Out_Of_Bounds
      else Inr (p\<lparr>DATA := (DATA p AND NOT (of_nat msk)) OR (v AND of_nat msk)\<rparr>))"

definition masked_read :: "nat \<Rightarrow> port \<Rightarrow> fault + u32" where
  "masked_read msk p =
     (if msk \<ge> 4096 then Inl Out_Of_Bounds else Inr (DATA p AND of_nat msk))"

definition gpio_set :: "u32 \<Rightarrow> bool \<Rightarrow> hw \<Rightarrow> fault + hw" where
  "gpio_set pin on = with_port pin (\<lambda>n. masked_write (2 ^ n) (push_bit n (of_bool on)))"

definition gpio_get :: "u32 \<Rightarrow> hw \<Rightarrow> fault + bool" where
  "gpio_get pin h =
     (let port = unat (pin_get_port pin); n = unat (pin_get_pin pin)
      in if n \<ge> 32 then Inl Undefined_Shift
         else if port \<ge> length (ports h) then Inl Out_Of_Bounds
         else map_sum id (\<lambda>v. drop_bit n v \<noteq> 0) (masked_read (2 ^ n) (ports h ! port)))"

definition gpio_strobe :: "(int \<Rightarrow> hw \<Rightarrow> hw) \<Rightarrow> u32 \<Rightarrow> bool \<Rightarrow> int \<Rightarrow> hw \<Rightarrow> fault + hw" where
  "gpio_strobe wait pin on time h =
     (case gpio_set pin on h of
        Inl e \<Rightarrow> Inl e
      | Inr h \<Rightarrow> gpio_set pin (\<not> on) (wait time h))"

section \<open>The converter (adc.c)\<close>

text \<open>
  \<open>adc_create\<close> allocates the converter and sets its registers; the clock is \<open>SystemCoreClock\<close>,
  \<open>ahb_div\<close> the divider register.
\<close>

definition adc_create :: "nat \<Rightarrow> u32 \<Rightarrow> u32 \<Rightarrow> hw \<Rightarrow> (fault + (nat option \<times> hw)) option" where
  "adc_create sizeof_adc clock ahb_div h =
     (case malloc_raw sizeof_adc (hw_heap h) of
        None \<Rightarrow> None
      | Some (Inl e) \<Rightarrow> Some (Inl e)
      | Some (Inr (None, hp)) \<Rightarrow> Some (Inr (None, h\<lparr>hw_heap := hp\<rparr>))
      | Some (Inr (Some p, hp)) \<Rightarrow>
          (let h = h\<lparr>hw_heap := hp,
                 adc_setup := (fst (adc_setup h) AND NOT (push_bit 4 1), snd (adc_setup h) OR push_bit 13 1)\<rparr>
           in if ahb_div = 0 then Some (Inl Div_By_Zero)
              else Some (Inr (Some p, h\<lparr>adc_cr := push_bit 8 (clock div ahb_div div 4500000 - 1),
                iocon := (iocon h)(0x98 := 0x01)\<rparr>))))"

fun adc_wait :: "u32 list \<Rightarrow> (u32 \<times> u32 list) option" where
  "adc_wait [] = None"
| "adc_wait (val # rest) = (if bit val 31 then Some (val, rest) else adc_wait rest)"

definition adc_read :: "hw \<Rightarrow> (u32 \<times> hw) option" where
  "adc_read h =
     (let h = h\<lparr>adc_cr := adc_cr h AND 0xFFFFFF00\<rparr>;
          h = h\<lparr>adc_cr := adc_cr h OR (push_bit 24 1 OR push_bit 7 1)\<rparr>
      in case adc_wait (adc_gdr h) of
           None \<Rightarrow> None
         | Some (val, rest) \<Rightarrow>
             Some (drop_bit 6 val AND 0x3FF, h\<lparr>adc_gdr := rest, adc_cr := adc_cr h AND 0xF8FFFFFF\<rparr>))"

definition adc_resolution :: u8 where
  "adc_resolution = 10"

section \<open>The voltage sensor (sensor.c)\<close>

record adc_sensor =
  mult :: u32
  sdiv :: u32
  ref :: u32

definition sensor_adc_get_voltage :: "adc_sensor \<Rightarrow> hw \<Rightarrow> (fault + (i32 \<times> hw)) option" where
  "sensor_adc_get_voltage s h =
     (case adc_read h of
        None \<Rightarrow> None
      | Some (val, h) \<Rightarrow>
          if sdiv s = 0 then Some (Inl Div_By_Zero)
          else Some (Inr (drop_bit (unat adc_resolution) (val * mult s * ref s div sdiv s), h)))"

definition sensor_from_adc ::
    "nat \<Rightarrow> u32 \<Rightarrow> u32 \<Rightarrow> u32 \<Rightarrow> hw \<Rightarrow> (fault + ((nat \<times> adc_sensor) \<times> hw)) option" where
  "sensor_from_adc sizeof_sensor m d r h =
     (case malloc sizeof_sensor (hw_heap h) of
        None \<Rightarrow> None
      | Some (Inl e) \<Rightarrow> Some (Inl e)
      | Some (Inr (p, hp)) \<Rightarrow> Some (Inr ((p, \<lparr>mult = m, sdiv = d, ref = r\<rparr>), h\<lparr>hw_heap := hp\<rparr>)))"

section \<open>Valves (valve.c)\<close>

record valve =
  is_open :: bool
  polarity :: bool
  open_power :: u32
  close_power :: u32
  pin_a :: u32
  pin_b :: u32
  min_voltage :: i32
  max_voltage :: i32
  vadc :: nat

definition valve_move :: "(int \<Rightarrow> hw \<Rightarrow> hw) \<Rightarrow> u32 \<Rightarrow> valve \<Rightarrow> hw \<Rightarrow> (fault + (bool \<times> hw)) option" where
  "valve_move wait pw v h =
     (case adc_read h of
        None \<Rightarrow> None
      | Some (volt, h) \<Rightarrow>
          if volt < min_voltage v \<or> volt > max_voltage v then Some (Inr (False, h))
          else if volt = 0 then Some (Inl Div_By_Zero)
          else
            (let duration = pw div volt;
                 pin = (if polarity v then pin_a v else pin_b v)
             in Some (map_sum id (\<lambda>h. (True, h)) (gpio_strobe wait pin True (sint duration) h))))"

definition valve_close :: "(int \<Rightarrow> hw \<Rightarrow> hw) \<Rightarrow> valve \<Rightarrow> hw \<Rightarrow> (fault + (bool \<times> hw)) option" where
  "valve_close wait v h = valve_move wait (close_power v) v h"

definition valve_open :: "(int \<Rightarrow> hw \<Rightarrow> hw) \<Rightarrow> valve \<Rightarrow> hw \<Rightarrow> (fault + (bool \<times> hw)) option" where
  "valve_open wait v h = valve_move wait (open_power v) v h"

abbreviation VALVE_GARDENA_9V_TYPE :: u8 where "VALVE_GARDENA_9V_TYPE \<equiv> 1"

text \<open>The fields \<open>valve_create\<close> sets; the two pins it is given are not among them.\<close>

definition valve_fields :: "u8 \<Rightarrow> nat \<Rightarrow> valve" where
  "valve_fields valve_type adc =
     (let v = \<lparr>is_open = False, polarity = False, open_power = 0, close_power = 0, pin_a = 0, pin_b = 0,
               min_voltage = 0, max_voltage = 0, vadc = adc\<rparr>
      in if valve_type = VALVE_GARDENA_9V_TYPE
         then v\<lparr>open_power := 20 * 10000, close_power := 55000, min_voltage := 7000, max_voltage := 14000\<rparr>
         else v)"

definition valve_create ::
    "nat \<Rightarrow> (int \<Rightarrow> hw \<Rightarrow> hw) \<Rightarrow> u32 \<Rightarrow> u32 \<Rightarrow> u8 \<Rightarrow> nat \<Rightarrow> hw \<Rightarrow> (fault + (valve option \<times> hw)) option" where
  "valve_create sizeof_valve wait pa pb valve_type adc h =
     (case malloc_raw sizeof_valve (hw_heap h) of
        None \<Rightarrow> None
      | Some (Inl e) \<Rightarrow> Some (Inl e)
      | Some (Inr (None, hp)) \<Rightarrow> Some (Inr (None, h\<lparr>hw_heap := hp\<rparr>))
      | Some (Inr (Some p, hp)) \<Rightarrow>
          (let v = valve_fields valve_type adc
           in case gpio_set_direction (pin_a v) GPIO_DIRECTION_OUT (h\<lparr>hw_heap := hp\<rparr>) of
                Inl e \<Rightarrow> Some (Inl e)
              | Inr h \<Rightarrow>
                  (case gpio_set_direction (pin_b v) GPIO_DIRECTION_OUT h of
                     Inl e \<Rightarrow> Some (Inl e)
                   | Inr h \<Rightarrow>
                       (case valve_close wait v h of
                          None \<Rightarrow> None
                        | Some (Inl e) \<Rightarrow> Some (Inl e)
                        | Some (Inr (_, h)) \<Rightarrow>
                            (case valve_close wait (v\<lparr>polarity := \<not> polarity v\<rparr>) h of
                               None \<Rightarrow> None
                             | Some (Inl e) \<Rightarrow> Some (Inl e)
                             | Some (Inr (_, h)) \<Rightarrow> Some (Inr (Some v, h)))))))"

section \<open>Pins are independent\<close>

lemma pin_get_PIN:
  assumes "p < 256" "n < 256" "k < 256"
  shows "pin_get_port (PIN p n k) = ucast p" "pin_get_pin (PIN p n k) = ucast n" "pin_get_number (PIN p n k) = ucast k"
proof -
  have hi: "\<not> bit w i" if "w < 256" "8 \<le> i" for w :: u32 and i
  proof -
    have "take_bit 8 (unat w) = unat w" using that(1) by (simp add: word_less_nat_alt take_bit_nat_eq_self)
    then have "bit (unat w) i \<longleftrightarrow> i < 8 \<and> bit (unat w) i" by (metis bit_take_bit_iff)
    with that(2) show ?thesis by (simp add: bit_unsigned_iff)
  qed
  have m: "(0xFFFF :: u32) = Bit_Operations.mask 16" "(0xFF :: u32) = Bit_Operations.mask 8" by (simp_all add: mask_eq_exp_minus_1)
  show "pin_get_port (PIN p n k) = ucast p" "pin_get_pin (PIN p n k) = ucast n" "pin_get_number (PIN p n k) = ucast k"
    unfolding pin_get_port_def pin_get_pin_def pin_get_number_def PIN_def m
    by (rule bit_word_eqI; auto simp: bit_simps hi assms)+
qed


text \<open>A pin of a port, by their numbers, and its level.\<close>

definition level :: "hw \<Rightarrow> nat \<Rightarrow> nat \<Rightarrow> bool" where
  "level h p n \<longleftrightarrow> bit (DATA (ports h ! p)) n"

lemma small_ucast: "w < 256 \<Longrightarrow> unat (ucast w :: u8) = unat w" for w :: u32
  by (simp add: unsigned_ucast_eq take_bit_nat_eq_self word_less_nat_alt)

lemma exp_small: "n < 12 \<Longrightarrow> (2::nat) ^ n < 4096"
  using power_strict_increasing [of n 12 "2::nat"] by simp

lemma gpio_get_level:
  assumes "p < of_nat (length (ports h))" "length (ports h) = 4" "n < 12" "k < 256"
  shows "gpio_get (PIN p n k) h = Inr (level h (unat p) (unat n))"
proof -
  have s: "p < 256" "n < 256" "unat p < 4" "unat n < 12"
    using assms by (auto simp: word_less_nat_alt)
  have "drop_bit (unat n) (w AND 2 ^ unat n) \<noteq> 0 \<longleftrightarrow> bit w (unat n)" for w :: u32
  proof
    assume "drop_bit (unat n) (w AND 2 ^ unat n) \<noteq> 0"
    then have "w AND 2 ^ unat n \<noteq> 0" by (metis drop_bit_of_0)
    then show "bit w (unat n)" by (simp add: and_exp_eq_0_iff)
  next
    assume "bit w (unat n)"
    then have "bit (drop_bit (unat n) (w AND 2 ^ unat n)) 0" using s(4) by (simp add: bit_simps)
    then show "drop_bit (unat n) (w AND 2 ^ unat n) \<noteq> 0" by auto
  qed
  then show ?thesis
    using s assms(2,4) exp_small [OF s(4)]
    by (simp add: gpio_get_def Let_def pin_get_PIN small_ucast masked_read_def level_def)
qed

lemma gpio_set_ok:
  assumes "p < 4" "length (ports h) = 4" "n < 12" "k < 256"
  shows "gpio_set (PIN p n k) on h = Inr (h\<lparr>ports := (ports h)[unat p :=
     (ports h ! unat p)\<lparr>DATA := put_bit (unat n) on (DATA (ports h ! unat p))\<rparr>]\<rparr>)"
proof -
  have s: "p < 256" "n < 256" "unat p < 4" "unat n < 12"
    using assms by (auto simp: word_less_nat_alt)
  have "(w AND NOT (2 ^ unat n)) OR (push_bit (unat n) (of_bool on) AND 2 ^ unat n) = put_bit (unat n) on w" for w :: u32
    using s(4) by (intro bit_word_eqI) (auto simp: bit_simps bit_put_bit)
  then show ?thesis
    using s assms(2,4) exp_small [OF s(4)]
    by (simp add: gpio_set_def with_port_def Let_def pin_get_PIN small_ucast masked_write_def)
qed

lemma level_set:
  assumes "p < 4" "length (ports h) = 4" "n < 12" "k < 256" "gpio_set (PIN p n k) on h = Inr h'"
  shows "length (ports h') = 4" "level h' q m \<longleftrightarrow> (if q = unat p \<and> m = unat n then on else level h q m)"
    "map DIR (ports h') = map DIR (ports h)"
proof -
  have s: "unat p < 4" "unat n < 12" using assms by (auto simp: word_less_nat_alt)
  note h' = assms(5) [unfolded gpio_set_ok [OF assms(1-4)], simplified, symmetric]
  show "length (ports h') = 4" using assms(2) by (simp add: h')
  show "level h' q m \<longleftrightarrow> (if q = unat p \<and> m = unat n then on else level h q m)"
    using s assms(2) by (auto simp: h' level_def bit_put_bit nth_list_update)
  show "map DIR (ports h') = map DIR (ports h)"
    using s assms(2) by (simp add: h' map_update list_update_same_conv)
qed

section \<open>Conversions are bounded\<close>

lemma adc_wait_ends: "(\<exists>r. adc_wait xs = Some r) \<longleftrightarrow> (\<exists>x \<in> set xs. bit x 31)"
  by (induction xs) auto

lemma adc_read_bound:
  assumes "adc_read h = Some (val, h')"
  shows "unat val < 2 ^ 10" "ports h' = ports h" "hw_heap h' = hw_heap h"
proof -
  obtain w rest where w: "val = drop_bit 6 w AND 0x3FF" "ports h' = ports h" "hw_heap h' = hw_heap h"
    using assms by (auto simp: adc_read_def Let_def split: option.splits prod.splits)
  have "(0x3FF :: u32) = Bit_Operations.mask 10" by (simp add: mask_eq_exp_minus_1)
  then have "val = take_bit 10 (drop_bit 6 w)" by (simp add: w(1) take_bit_eq_mask)
  then have "unat val = take_bit 10 (unat (drop_bit 6 w))" by (simp add: unsigned_take_bit_eq)
  then show "unat val < 2 ^ 10" using take_bit_nat_less_exp [of 10] by metis
  from w(2,3) show "ports h' = ports h" "hw_heap h' = hw_heap h" by simp_all
qed

text \<open>Reading below the lower bound of a valve: it does not move.\<close>

lemma valve_move_low:
  assumes "adc_read h = Some (val, h')" "2 ^ 10 \<le> unat (min_voltage v)"
  shows "valve_move wait pw v h = Some (Inr (False, h'))"
  using adc_read_bound(1) [OF assms(1)] assms by (simp add: valve_move_def word_less_nat_alt)

lemma valve_move_zero_range:
  assumes "adc_read h = Some (val, h')" "min_voltage v = 0" "max_voltage v = 0"
  shows "valve_move wait pw v h = (if val = 0 then Some (Inl Div_By_Zero) else Some (Inr (False, h')))"
  using assms by (auto simp: valve_move_def word_gt_0)

text \<open>A reading in the range: one pulse on the pin the polarity selects.\<close>

lemma valve_move_pulse:
  assumes "adc_read h = Some (val, h')" "min_voltage v \<le> val" "val \<le> max_voltage v" "val \<noteq> 0"
  shows "valve_move wait pw v h = Some (map_sum id (\<lambda>h. (True, h))
    (gpio_strobe wait (if polarity v then pin_a v else pin_b v) True (sint (pw div val)) h'))"
  using assms by (simp add: valve_move_def not_less [symmetric])

lemma valve_fields_move:
  assumes "adc_read g = Some (volt, g')" "v = valve_fields ty adc \<or> v = valve_fields ty adc\<lparr>polarity := b\<rparr>"
  shows "valve_move wait pw v g =
     (if ty = VALVE_GARDENA_9V_TYPE \<or> volt \<noteq> 0 then Some (Inr (False, g')) else Some (Inl Div_By_Zero))"
proof (cases "ty = VALVE_GARDENA_9V_TYPE")
  case True
  then have "2 ^ 10 \<le> unat (min_voltage v)" using assms(2) by (auto simp: valve_fields_def)
  with True show ?thesis using valve_move_low [OF assms(1)] by simp
next
  case False
  then have "min_voltage v = 0" "max_voltage v = 0" using assms(2) by (auto simp: valve_fields_def)
  with False show ?thesis using valve_move_zero_range [OF assms(1)] by simp
qed

lemma valve_fields_close:
  assumes "valve_close wait v g = Some (Inr (c, g'))"
    and "v = valve_fields ty adc \<or> v = valve_fields ty adc\<lparr>polarity := b\<rparr>"
  shows "ports g' = ports g"
proof (cases "adc_read g")
  case None
  with assms(1) show ?thesis by (simp add: valve_close_def valve_move_def)
next
  case (Some r)
  then obtain volt g1 where r: "adc_read g = Some (volt, g1)" by (cases r) simp
  with valve_fields_move [OF r assms(2)] assms(1) have "g' = g1"
    by (auto simp: valve_close_def split: if_splits)
  with adc_read_bound(2) [OF r] show ?thesis by simp
qed

lemma pins_zero [simp]: "pin_a (valve_fields ty adc) = 0" "pin_b (valve_fields ty adc) = 0"
  by (simp_all add: valve_fields_def Let_def)

lemma set_direction_pin_0:
  assumes "length (ports h) = 4"
  shows "gpio_set_direction 0 GPIO_DIRECTION_OUT h =
     Inr (h\<lparr>ports := (ports h)[0 := (ports h ! 0)\<lparr>DIR := DIR (ports h ! 0) OR 1\<rparr>]\<rparr>)"
  using assms
  by (simp add: gpio_set_direction_def with_port_def pin_get_port_def pin_get_pin_def map_sum_def)

section \<open>Properties\<close>

definition demo_hw :: hw where
  "demo_hw = \<lparr>ports = replicate 4 \<lparr>DIR = 0, DATA = 0\<rparr>, iocon = (\<lambda>_. 0xD0), adc_cr = 0,
     adc_gdr = [0, 0x8000C800, 0, 0xFFFFFFFF, 0x80000000, 0x80000000], adc_setup = (0x10, 0),
     hw_heap = \<lparr>free_head = Some 0x1000, hsize = (\<lambda>_. 0x1000), hnext = (\<lambda>_. None)\<rparr>\<rparr>"

text \<open>
  Pins are independent: for the pins that exist (four ports of twelve pins), whatever package
  number the macro \<open>PIN\<close> adds, setting a pin succeeds, reading it back gives the level that was
  set, no other pin of any port and no direction changes; a pulse leaves the pin at the opposite
  level with every other pin as the wait left it, and during the wait it has the level asked for.
\<close>

theorem pins_independent:
  assumes "p < 4" "n < 12" "k < 256" "length (ports h) = 4"
  shows "\<exists>h'. gpio_set (PIN p n k) on h = Inr h' \<and> gpio_get (PIN p n k) h' = Inr on
     \<and> map DIR (ports h') = map DIR (ports h)
     \<and> (\<forall>q m j. q < 4 \<and> m < 12 \<and> j < 256 \<and> (q, m) \<noteq> (p, n) \<longrightarrow>
          gpio_get (PIN q m j) h' = gpio_get (PIN q m j) h)
     \<and> (length (ports (wait time h')) = 4 \<longrightarrow>
          (\<exists>h''. gpio_strobe wait (PIN p n k) on time h = Inr h'' \<and> gpio_get (PIN p n k) h'' = Inr (\<not> on)
             \<and> (\<forall>q m j. q < 4 \<and> m < 12 \<and> j < 256 \<and> (q, m) \<noteq> (p, n) \<longrightarrow>
                  gpio_get (PIN q m j) h'' = gpio_get (PIN q m j) (wait time h'))))"
proof -
  have neq: "unat q \<noteq> unat p \<or> unat m \<noteq> unat n" if "(q, m) \<noteq> (p, n)" for q m :: u32
    using that by (auto simp: word_unat_eq_iff)
  have get: "gpio_get (PIN q m j) g = Inr (level g (unat q) (unat m))"
    if "q < 4" "m < 12" "j < 256" "length (ports g) = 4" for q m j g
    using that gpio_get_level [of q g m j] by simp
  have one: "\<exists>g'. gpio_set (PIN p n k) b g = Inr g' \<and> gpio_get (PIN p n k) g' = Inr b
     \<and> length (ports g') = 4 \<and> map DIR (ports g') = map DIR (ports g)
     \<and> (\<forall>q m j. q < 4 \<and> m < 12 \<and> j < 256 \<and> (q, m) \<noteq> (p, n) \<longrightarrow>
          gpio_get (PIN q m j) g' = gpio_get (PIN q m j) g)" if "length (ports g) = 4" for g b
  proof -
    note L = that
    obtain g' where g': "gpio_set (PIN p n k) b g = Inr g'"
      using gpio_set_ok [OF assms(1) L assms(2,3)] by blast
    note lv = level_set [OF assms(1) L assms(2,3) g']
    show ?thesis using g' lv neq assms(1-3) L by (intro exI [of _ g']) (auto simp: get)
  qed
  from one [OF assms(4), of on] one [of "wait time h'" "\<not> on" for h'] show ?thesis
    by (fastforce simp: gpio_strobe_def)
qed

lemma demo_ports: "length (ports demo_hw) = 4"
  by (simp add: demo_hw_def)

theorem pins_independent_witness:
  "\<exists>h'. gpio_set (PIN 2 7 11) True demo_hw = Inr h' \<and> gpio_get (PIN 2 7 11) h' = Inr True
     \<and> gpio_get (PIN 2 6 1) h' = Inr False"
proof -
  obtain h' where h': "gpio_set (PIN 2 7 11) True demo_hw = Inr h'" "gpio_get (PIN 2 7 11) h' = Inr True"
    "\<forall>q m j. q < 4 \<and> m < 12 \<and> j < 256 \<and> (q, m) \<noteq> (2, 7) \<longrightarrow>
          gpio_get (PIN q m j) h' = gpio_get (PIN q m j) demo_hw"
    using pins_independent [of 2 7 11 demo_hw True "\<lambda>_ h. h" 0] by (fastforce simp: demo_ports)
  have "gpio_get (PIN 2 6 1) demo_hw = Inr False"
    using gpio_get_level [of 2 demo_hw 6 1] by (simp add: demo_hw_def level_def)
  with h' show ?thesis by auto
qed

text \<open>
  The voltage sensor computes what its factors say: the conversion ends exactly when the done bit
  appears in one of the reads, the reading is below \<open>2 ^ 10\<close>, and when \<open>1023 * mult * ref\<close> fits
  32 bits, which the factors 16 and 3300 of the bus controller do, the result is the rounded down
  quotient \<open>reading * mult * ref / (div * 1024)\<close> with no step wrapping; a zero divider
  divides by zero.
\<close>

theorem sensor_voltage_exact:
  assumes "1023 * unat (mult s) * unat (ref s) < 2 ^ 32"
  shows "(adc_read h = None \<longleftrightarrow> (\<forall>x \<in> set (adc_gdr h). \<not> bit x 31))
     \<and> (\<forall>val h'. adc_read h = Some (val, h') \<longrightarrow> unat val < 2 ^ 10
          \<and> (if sdiv s = 0 then sensor_adc_get_voltage s h = Some (Inl Div_By_Zero)
             else \<exists>r. sensor_adc_get_voltage s h = Some (Inr (r, h'))
               \<and> unat r = unat val * unat (mult s) * unat (ref s) div (unat (sdiv s) * 1024)))"
proof (intro conjI allI impI)
  show "adc_read h = None \<longleftrightarrow> (\<forall>x \<in> set (adc_gdr h). \<not> bit x 31)"
    using adc_wait_ends [of "adc_gdr h"] by (auto simp: adc_read_def Let_def split: option.splits)
  fix val h'
  assume rd: "adc_read h = Some (val, h')"
  note b = adc_read_bound(1) [OF rd]
  from b show "unat val < 2 ^ 10" .
  show "if sdiv s = 0 then sensor_adc_get_voltage s h = Some (Inl Div_By_Zero)
        else \<exists>r. sensor_adc_get_voltage s h = Some (Inr (r, h'))
          \<and> unat r = unat val * unat (mult s) * unat (ref s) div (unat (sdiv s) * 1024)"
  proof (cases "sdiv s = 0")
    case True
    with rd show ?thesis by (simp add: sensor_adc_get_voltage_def)
  next
    case False
    have le: "unat val * unat (mult s) * unat (ref s) < 2 ^ 32"
    proof -
      have "unat val \<le> 1023" using b by simp
      from mult_le_mono1 [OF this] have "unat val * (unat (mult s) * unat (ref s)) \<le> 1023 * (unat (mult s) * unat (ref s))" .
      also have "\<dots> < 2 ^ 32" using assms by (simp only: mult.assoc)
      finally show ?thesis by (simp only: mult.assoc)
    qed
    have "unat (val * mult s * ref s) = unat val * unat (mult s) * unat (ref s)"
      using le by (simp add: unat_word_ariths mod_mult_left_eq)
    then have "unat (drop_bit 10 (val * mult s * ref s div sdiv s))
        = unat val * unat (mult s) * unat (ref s) div (unat (sdiv s) * 1024)"
      by (simp add: unsigned_drop_bit_eq drop_bit_eq_div unat_div div_mult2_eq)
    with False rd show ?thesis by (simp add: sensor_adc_get_voltage_def adc_resolution_def)
  qed
qed

theorem sensor_voltage_exact_witness:
  "\<exists>r h'. sensor_adc_get_voltage \<lparr>mult = 16, sdiv = 1, ref = 3300\<rparr> demo_hw = Some (Inr (r, h')) \<and> unat r = 41250"
proof -
  have "\<exists>h'. adc_read demo_hw = Some (0x320, h')"
    by (simp add: adc_read_def demo_hw_def)
  then show ?thesis
    using sensor_voltage_exact [of "\<lparr>mult = 16, sdiv = 1, ref = 3300\<rparr>" demo_hw] by auto
qed

text \<open>
  No valve that \<open>valve_create\<close> makes is ever moved. The pins it is given are not stored: it makes
  pin 0 of port 0 an output and leaves every level as it is. For the only type there is, each
  later call of \<open>valve_open\<close> or \<open>valve_close\<close> returns false and touches no pin, because the
  converter returns a raw reading below 1024 while the valve expects millivolts above 7000; for
  every other type number a call either returns false or, at a reading of zero, divides by zero.
\<close>

theorem created_valve_never_moves:
  assumes "valve_create sz wait pa pb ty adc h = Some (Inr (Some v, h'))" "length (ports h) = 4"
  shows "pin_a v = 0 \<and> pin_b v = 0
     \<and> ports h' = (ports h)[0 := (ports h ! 0)\<lparr>DIR := DIR (ports h ! 0) OR 1\<rparr>]
     \<and> (\<forall>g volt g'. adc_read g = Some (volt, g') \<longrightarrow> ports g' = ports g
          \<and> (if ty = VALVE_GARDENA_9V_TYPE \<or> volt \<noteq> 0
             then valve_open wait v g = Some (Inr (False, g')) \<and> valve_close wait v g = Some (Inr (False, g'))
             else valve_open wait v g = Some (Inl Div_By_Zero) \<and> valve_close wait v g = Some (Inl Div_By_Zero)))"
proof -
  let ?v = "valve_fields ty adc"
  obtain hp h1 h2 c2 h3 c4 where v: "v = ?v"
    and dir: "gpio_set_direction 0 GPIO_DIRECTION_OUT (h\<lparr>hw_heap := hp\<rparr>) = Inr h1"
    "gpio_set_direction 0 GPIO_DIRECTION_OUT h1 = Inr h2"
    and cl: "valve_close wait ?v h2 = Some (Inr (c2, h3))"
    "valve_close wait (?v\<lparr>polarity := \<not> polarity ?v\<rparr>) h3 = Some (Inr (c4, h'))"
    using assms(1) unfolding valve_create_def Let_def pins_zero
    by (auto split: option.split_asm sum.split_asm prod.split_asm)
  have p: "ports h' = ports h2"
    using valve_fields_close [OF cl(1), of ty adc] valve_fields_close [OF cl(2) disjI2, OF refl] by simp
  have h1: "h1 = h\<lparr>hw_heap := hp, ports := (ports h)[0 := (ports h ! 0)\<lparr>DIR := DIR (ports h ! 0) OR 1\<rparr>]\<rparr>"
    using dir(1) set_direction_pin_0 [of "h\<lparr>hw_heap := hp\<rparr>"] assms(2) by simp
  have out: "ports h2 = (ports h)[0 := (ports h ! 0)\<lparr>DIR := DIR (ports h ! 0) OR 1\<rparr>]"
    using dir(2) set_direction_pin_0 [of h1] assms(2) by (auto simp: h1 or.assoc)
  have mv: "valve_move wait pw v g =
      (if ty = VALVE_GARDENA_9V_TYPE \<or> volt \<noteq> 0 then Some (Inr (False, g')) else Some (Inl Div_By_Zero))"
    "ports g' = ports g" if "adc_read g = Some (volt, g')" for pw g volt g'
    using valve_fields_move [OF that] adc_read_bound(2) [OF that] v by blast+
  show ?thesis
    unfolding valve_open_def valve_close_def using p out mv by (simp add: v)
qed

theorem created_valve_never_moves_witness:
  "\<exists>v h'. valve_create 36 (\<lambda>_ h. h) (PIN 1 5 45) (PIN 1 6 46) VALVE_GARDENA_9V_TYPE 0 demo_hw = Some (Inr (Some v, h'))
     \<and> pin_a v = 0 \<and> (\<exists>g'. valve_open (\<lambda>_ h. h) v h' = Some (Inr (False, g')))"
proof -
  let ?create = "valve_create 36 (\<lambda>_ h. h) (PIN 1 5 45) (PIN 1 6 46) VALVE_GARDENA_9V_TYPE 0 demo_hw"
  have "\<exists>v h'. ?create = Some (Inr (Some v, h')) \<and> (\<exists>volt g'. adc_read h' = Some (volt, g'))"
    by (simp add: valve_create_def valve_close_def valve_move_def adc_read_def demo_hw_def valve_fields_def
        gpio_set_direction_def with_port_def pin_get_port_def pin_get_pin_def malloc_eval Let_def)
  then show ?thesis
    using created_valve_never_moves [of 36 "\<lambda>_ h. h" "PIN 1 5 45" "PIN 1 6 46" VALVE_GARDENA_9V_TYPE 0 demo_hw] demo_ports
    by (metis (no_types, lifting))
qed

end
