(* ===== verification/Lib_Sensor.thy ===== *)
theory Lib_Sensor
  imports Lib_Can Dev_Sht2x Plat_Gpio FW_Result
begin

text \<open>
  Sensors as objects: \<^verbatim>\<open>src/lib/sensor/sensor.c\<close> with the operation tables of
  \<^verbatim>\<open>src/device/sht2x/sht2x.c\<close> and of the voltage sensor, and the callback of
  \<^verbatim>\<open>src/lib/can_node/can_node.c\<close> that reads them.

  \<^item> A sensor is the address of its structure, whose first member is the entry of the list
    \<open>sensors\<close>. The table of operations of an address is \<open>sops\<close>; an operation that a table leaves
    out is \<open>None\<close>. A reading is the status and the value, if one is stored.
  \<^item> Operations work on a state \<open>'e\<close>: what is behind the bus and the converter.
  \<^item> The value that a local variable has before it is written is the parameter \<open>garbage\<close>.
  \<^item> \<^verbatim>\<open>Lib_Can\<close> takes a sensor as its capabilities and the readings it returns; \<open>sense\<close> is what an object
    yields in this sense.

  Shown: sensors are visited once each in the order of registration, and publishing them is what
  \<^verbatim>\<open>Lib_Can\<close> does for the readings they return; a missing operation is reported.
\<close>

section \<open>Objects\<close>

record 'e sensor_ops =
  get_capabilities :: "(nat \<Rightarrow> u32) option"
  get_temp :: "(nat \<Rightarrow> 'e \<Rightarrow> (u32 \<times> i32 option \<times> 'e) res) option"
  get_humidity :: "(nat \<Rightarrow> 'e \<Rightarrow> (u32 \<times> i32 option \<times> 'e) res) option"
  get_voltage :: "(nat \<Rightarrow> 'e \<Rightarrow> (u32 \<times> i32 option \<times> 'e) res) option"

record 'e registry =
  slist :: list_t
  sheap :: lheap
  sops :: "nat \<Rightarrow> 'e sensor_ops"

definition STATUS_ERR :: "u32 \<Rightarrow> u32" where "STATUS_ERR x = push_bit 1 x OR 1"
definition STATUS_NOT_SUPPORTED :: u32 where "STATUS_NOT_SUPPORTED = STATUS_ERR 1"

abbreviation SENSOR_CAPABILITY_TEMP :: u32 where "SENSOR_CAPABILITY_TEMP \<equiv> 1"
abbreviation SENSOR_CAPABILITY_HUMIDITY :: u32 where "SENSOR_CAPABILITY_HUMIDITY \<equiv> 2"
abbreviation SENSOR_CAPABILITY_VOLTAGE :: u32 where "SENSOR_CAPABILITY_VOLTAGE \<equiv> 4"

section \<open>sensor.c\<close>

definition sensor_get_capabilities :: "'e registry \<Rightarrow> nat \<Rightarrow> u32 res" where
  "sensor_get_capabilities R p =
     (case get_capabilities (sops R p) of None \<Rightarrow> Some (Inl Assert_Failed) | Some f \<Rightarrow> ok (f p))"

definition sensor_get_temp :: "'e registry \<Rightarrow> nat \<Rightarrow> 'e \<Rightarrow> (u32 \<times> i32 option \<times> 'e) res" where
  "sensor_get_temp R p e =
     (case get_temp (sops R p) of None \<Rightarrow> ok (STATUS_NOT_SUPPORTED, None, e) | Some f \<Rightarrow> f p e)"

definition sensor_get_humidity :: "'e registry \<Rightarrow> nat \<Rightarrow> 'e \<Rightarrow> (u32 \<times> i32 option \<times> 'e) res" where
  "sensor_get_humidity R p e =
     (case get_humidity (sops R p) of None \<Rightarrow> ok (STATUS_NOT_SUPPORTED, None, e) | Some f \<Rightarrow> f p e)"

definition sensor_get_voltage :: "'e registry \<Rightarrow> nat \<Rightarrow> 'e \<Rightarrow> (u32 \<times> i32 option \<times> 'e) res" where
  "sensor_get_voltage R p e =
     (case get_voltage (sops R p) of None \<Rightarrow> ok (STATUS_NOT_SUPPORTED, None, e) | Some f \<Rightarrow> f p e)"

definition sensors_init :: "'e registry \<Rightarrow> 'e registry" where
  "sensors_init R = R\<lparr>slist := list_init (slist R)\<rparr>"

definition sensors_register :: "nat \<Rightarrow> 'e registry \<Rightarrow> 'e registry option" where
  "sensors_register p R =
     map_option (\<lambda>(l, h). R\<lparr>slist := l, sheap := h\<rparr>) (list_append (slist R) p (sheap R))"

text \<open>The loop of \<open>sensors_for_each\<close> from an entry on; \<open>None\<close> when \<open>fuel\<close> runs out.\<close>

fun for_each_from :: "nat \<Rightarrow> (nat \<Rightarrow> 's \<Rightarrow> (bool \<times> 's) res) \<Rightarrow> 'e registry \<Rightarrow> nat option \<Rightarrow> 's \<Rightarrow> 's res" where
  "for_each_from fuel f R None x = ok x"
| "for_each_from 0 f R (Some p) x = None"
| "for_each_from (Suc fuel) f R (Some p) x =
     rbind (f p x) (\<lambda>(go, x). if \<not> go then ok x
       else for_each_from fuel f R (list_next (sheap R) (slist R) p) x)"

definition sensors_for_each_object :: "nat \<Rightarrow> (nat \<Rightarrow> 's \<Rightarrow> (bool \<times> 's) res) \<Rightarrow> 'e registry \<Rightarrow> 's \<Rightarrow> 's res" where
  "sensors_for_each_object fuel f R x = for_each_from fuel f R (head (slist R)) x"

section \<open>Operation tables\<close>

text \<open>
  The devices of a node: the state behind the bus, the board, and the factors of the voltage
  sensors by address.
\<close>

record 'd devices =
  bus :: 'd
  board :: hw
  adcs :: "nat \<Rightarrow> adc_sensor"

definition sht2x_get_capabilities :: "nat \<Rightarrow> u32" where
  "sht2x_get_capabilities p = SENSOR_CAPABILITY_TEMP OR SENSOR_CAPABILITY_HUMIDITY"

definition sht2x_ops :: "'d xfer \<Rightarrow> 'd devices sensor_ops" where
  "sht2x_ops xfer =
     \<lparr>get_capabilities = Some sht2x_get_capabilities,
      get_temp = Some (\<lambda>p e. case sht2x_get_temp xfer (bus e) of (st, v, d) \<Rightarrow> ok (st, v, e\<lparr>bus := d\<rparr>)),
      get_humidity = Some (\<lambda>p e. case sht2x_get_humidity xfer (bus e) of (st, v, d) \<Rightarrow> ok (st, v, e\<lparr>bus := d\<rparr>)),
      get_voltage = None\<rparr>"

text \<open>\<open>sht2x_create\<close>: the sensor is unlinked and has its table.\<close>

definition sht2x_create ::
    "'d xfer \<Rightarrow> nat \<Rightarrow> mheap \<Rightarrow> 'd devices registry \<Rightarrow> (nat option \<times> mheap \<times> 'd devices registry) res" where
  "sht2x_create xfer sizeof_sht2x hp R =
     rbind (malloc_raw sizeof_sht2x hp) (\<lambda>(p, hp).
       case p of
         None \<Rightarrow> ok (None, hp, R)
       | Some dev \<Rightarrow> ok (Some dev, hp, R\<lparr>sheap := list_entry_init dev (sheap R), sops := (sops R)(dev := sht2x_ops xfer)\<rparr>))"

text \<open>\<open>sht2x_read_config\<close> returns the variable whether or not the transfer has written it.\<close>

definition sht2x_read_config :: "u8 \<Rightarrow> 'd xfer \<Rightarrow> 'd \<Rightarrow> u8 \<times> 'd" where
  "sht2x_read_config garbage xfer d =
     (let (status, buf, d) = xfer kSHT2xAddress [0xE6] 1 d in (case buf of [] \<Rightarrow> garbage | conf # _ \<Rightarrow> conf, d))"

definition sensor_adc_get_capabilities :: "nat \<Rightarrow> u32" where
  "sensor_adc_get_capabilities p = SENSOR_CAPABILITY_VOLTAGE"

definition adc_sensor_ops :: "'d devices sensor_ops" where
  "adc_sensor_ops =
     \<lparr>get_capabilities = Some sensor_adc_get_capabilities, get_temp = None, get_humidity = None,
      get_voltage = Some (\<lambda>p e. rbind (sensor_adc_get_voltage (adcs e p) (board e)) (\<lambda>(r, h).
        ok (0, Some r, e\<lparr>board := h\<rparr>)))\<rparr>"

section \<open>Publishing (can_node.c)\<close>

text \<open>One measured quantity of \<open>can_node_loop_publish_sensor\<close>; the state has the index and the node.\<close>

definition publish_measure ::
    "i32 \<Rightarrow> bool \<Rightarrow> ('e \<Rightarrow> (u32 \<times> i32 option \<times> 'e) res) \<Rightarrow> u8 \<Rightarrow> 'e \<times> u8 \<times> nstate \<Rightarrow> ('e \<times> u8 \<times> nstate) res" where
  "publish_measure garbage capable get sty = (\<lambda>(e, idx, x).
     if capable then
       rbind (get e) (\<lambda>(status, v, e).
         if status = 0 then
           case can_node_send 500 0 (sty # idx # value_bytes (case v of None \<Rightarrow> garbage | Some t \<Rightarrow> t)) x of
             Inl err \<Rightarrow> Some (Inl err)
           | Inr x \<Rightarrow> ok (e, idx, x)
         else ok (e, idx, x))
     else ok (e, idx, x))"

definition publish_object :: "i32 \<Rightarrow> 'e registry \<Rightarrow> nat \<Rightarrow> 'e \<times> u8 \<times> nstate \<Rightarrow> (bool \<times> 'e \<times> u8 \<times> nstate) res" where
  "publish_object garbage R p s =
     rbind (sensor_get_capabilities R p) (\<lambda>cap.
     rbind (publish_measure garbage (cap AND SENSOR_CAPABILITY_TEMP \<noteq> 0) (sensor_get_temp R p) 0 s) (\<lambda>s.
     rbind (publish_measure garbage (cap AND SENSOR_CAPABILITY_HUMIDITY \<noteq> 0) (sensor_get_humidity R p) 1 s) (\<lambda>s.
     rbind (publish_measure garbage (cap AND SENSOR_CAPABILITY_VOLTAGE \<noteq> 0) (sensor_get_voltage R p) 2 s) (\<lambda>(e, idx, x).
     ok (True, e, idx + 1, x)))))"

section \<open>What an object yields\<close>

definition sense_one ::
    "i32 \<Rightarrow> bool \<Rightarrow> ('e \<Rightarrow> (u32 \<times> i32 option \<times> 'e) res) \<Rightarrow> 'e \<Rightarrow> (i32 option \<times> 'e) res" where
  "sense_one garbage capable get e =
     (if capable then
        rbind (get e) (\<lambda>(status, v, e). ok (if status = 0 then Some (case v of None \<Rightarrow> garbage | Some t \<Rightarrow> t) else None, e))
      else ok (None, e))"

definition sense :: "i32 \<Rightarrow> 'e registry \<Rightarrow> nat \<Rightarrow> 'e \<Rightarrow> (sensor \<times> 'e) res" where
  "sense garbage R p e =
     rbind (sensor_get_capabilities R p) (\<lambda>cap.
     rbind (sense_one garbage (cap AND SENSOR_CAPABILITY_TEMP \<noteq> 0) (sensor_get_temp R p) e) (\<lambda>(t, e).
     rbind (sense_one garbage (cap AND SENSOR_CAPABILITY_HUMIDITY \<noteq> 0) (sensor_get_humidity R p) e) (\<lambda>(rh, e).
     rbind (sense_one garbage (cap AND SENSOR_CAPABILITY_VOLTAGE \<noteq> 0) (sensor_get_voltage R p) e) (\<lambda>(v, e).
     ok (\<lparr>capabilities = cap, read_temp = t, read_humidity = rh, read_voltage = v\<rparr>, e)))))"

fun sense_all :: "i32 \<Rightarrow> 'e registry \<Rightarrow> nat list \<Rightarrow> 'e \<Rightarrow> (sensor list \<times> 'e) res" where
  "sense_all garbage R [] e = ok ([], e)"
| "sense_all garbage R (p # ps) e =
     rbind (sense garbage R p e) (\<lambda>(s, e). rbind (sense_all garbage R ps e) (\<lambda>(ss, e). ok (s # ss, e)))"

fun register_all :: "nat list \<Rightarrow> 'e registry \<Rightarrow> 'e registry option" where
  "register_all [] R = Some R"
| "register_all (p # ps) R = Option.bind (sensors_register p R) (register_all ps)"

section \<open>Registration\<close>

lemma register_all_put:
  "register_all ps R = map_option (\<lambda>(l, h). R\<lparr>slist := l, sheap := h\<rparr>) (put_all list_append ps (slist R) (sheap R))"
proof (induction ps arbitrary: R)
  case (Cons p ps)
  then show ?case
    by (cases "list_append (slist R) p (sheap R)") (auto simp: sensors_register_def option.map_comp o_def split_def)
qed simp

lemma register_all_repr:
  assumes "distinct ps" "\<forall>p \<in> set ps. unlinked (sheap R) p"
  shows "\<exists>l h. register_all ps (sensors_init R) = Some (R\<lparr>slist := l, sheap := h\<rparr>) \<and> list_repr h l ps"
  using lq.put_all_repr [of "sheap R" "list_init (slist R)" "[]" ps] assms
  by (auto simp: register_all_put sensors_init_def list_repr_def list_init_def)

section \<open>Publishing refines\<close>

lemma publish_measure_refines:
  assumes "sense_one garbage capable get e = ok (r, e')" "publish_value capable sty idx r x = Inr y"
  shows "publish_measure garbage capable get sty (e, idx, x) = ok (e', idx, y)"
proof (cases capable)
  case True
  with assms(1) obtain st v where g: "get e = ok (st, v, e')"
    "r = (if st = 0 then Some (case v of None \<Rightarrow> garbage | Some t \<Rightarrow> t) else None)"
    by (auto simp: sense_one_def rbind_eq_ok)
  with True assms(2) show ?thesis
    by (cases "st = 0") (simp_all add: publish_measure_def publish_value_def)
qed (use assms in \<open>simp add: publish_measure_def sense_one_def publish_value_def\<close>)

lemma publish_object_refines:
  assumes "sense garbage R p e = ok (s, e')" "can_node_loop_publish_sensor s idx x = Inr (idx', y)"
  shows "publish_object garbage R p (e, idx, x) = ok (True, e', idx', y)"
proof -
  obtain cap t e1 rh e2 v where s: "sensor_get_capabilities R p = ok cap"
    "sense_one garbage (cap AND SENSOR_CAPABILITY_TEMP \<noteq> 0) (sensor_get_temp R p) e = ok (t, e1)"
    "sense_one garbage (cap AND SENSOR_CAPABILITY_HUMIDITY \<noteq> 0) (sensor_get_humidity R p) e1 = ok (rh, e2)"
    "sense_one garbage (cap AND SENSOR_CAPABILITY_VOLTAGE \<noteq> 0) (sensor_get_voltage R p) e2 = ok (v, e')"
    "s = \<lparr>capabilities = cap, read_temp = t, read_humidity = rh, read_voltage = v\<rparr>"
    using assms(1) by (auto simp: sense_def rbind_eq_ok)
  obtain x1 x2 where x: "publish_value (cap AND 1 \<noteq> 0) 0 idx t x = Inr x1" "publish_value (cap AND 2 \<noteq> 0) 1 idx rh x1 = Inr x2"
    "publish_value (cap AND 4 \<noteq> 0) 2 idx v x2 = Inr y" "idx' = idx + 1"
    using assms(2) by (auto simp: can_node_loop_publish_sensor_def s(5) split: sum.splits)
  show ?thesis
    using publish_measure_refines [OF s(2) x(1)] publish_measure_refines [OF s(3) x(2)]
      publish_measure_refines [OF s(4) x(3)] s(1) x(4) by (simp add: publish_object_def)
qed

lemma for_each_refines:
  assumes "list_repr (sheap R) (slist R) (as @ ps)" "length ps \<le> fuel" "sense_all garbage R ps e = ok (ss, e')"
    "sensors_for_each can_node_loop_publish_sensor ss idx x = Inr y"
  shows "\<exists>idx'. for_each_from fuel (publish_object garbage R) R (case ps of [] \<Rightarrow> None | p # _ \<Rightarrow> Some p) (e, idx, x) =
    ok (e', idx', y)"
  using assms
proof (induction ps arbitrary: as fuel e ss idx x)
  case (Cons p ps)
  obtain f where f: "fuel = Suc f" "length ps \<le> f" using Cons.prems(2) by (cases fuel) auto
  obtain s e1 ss' where s: "sense garbage R p e = ok (s, e1)" "sense_all garbage R ps e1 = ok (ss', e')" "ss = s # ss'"
    using Cons.prems(3) by (auto simp: rbind_eq_ok)
  obtain i1 x1 where p: "can_node_loop_publish_sensor s idx x = Inr (i1, x1)"
    "sensors_for_each can_node_loop_publish_sensor ss' i1 x1 = Inr y"
    using Cons.prems(4) s(3) by (auto split: sum.splits)
  have "list_next (sheap R) (slist R) p = (case ps of [] \<Rightarrow> None | q # _ \<Rightarrow> Some q)"
    using Cons.prems(1) by (simp add: list_next_repr)
  with Cons.IH [of "as @ [p]" f e1 ss' i1 x1] Cons.prems(1) f s(2) p publish_object_refines [OF s(1) p(1)]
  show ?case by simp
qed simp

section \<open>Properties\<close>


text \<open>A node with a SHT2x at address 100 and a voltage sensor at address 200.\<close>

definition demo_xfer :: "unit xfer" where
  "demo_xfer = (\<lambda>_ _ _ d. (0, [0x68, 0x3A, crc8_maxim [0x68, 0x3A]], d))"

definition demo_registry :: "unit devices registry" where
  "demo_registry = \<lparr>slist = \<lparr>head = Some 7\<rparr>, sheap = (\<lambda>_. \<lparr>le_next = None, le_prev = None\<rparr>),
     sops = (\<lambda>p. if p = 100 then sht2x_ops demo_xfer else adc_sensor_ops)\<rparr>"

definition demo_devices :: "unit devices" where
  "demo_devices = \<lparr>bus = (), board = demo_hw, adcs = (\<lambda>_. \<lparr>mult = 16, sdiv = 1, ref = 3300\<rparr>)\<rparr>"

lemma demo_sense:
  "\<exists>t rh v e. sense_all 0 demo_registry [100, 200] demo_devices =
     ok ([\<lparr>capabilities = 3, read_temp = Some t, read_humidity = Some rh, read_voltage = None\<rparr>,
          \<lparr>capabilities = 4, read_temp = None, read_humidity = None, read_voltage = Some v\<rparr>], e)"
  by (simp add: sense_def sense_one_def demo_registry_def demo_devices_def sht2x_ops_def adc_sensor_ops_def
      sensor_get_capabilities_def sensor_get_temp_def sensor_get_humidity_def sensor_get_voltage_def
      sht2x_get_capabilities_def sensor_adc_get_capabilities_def sht2x_get_temp_def sht2x_get_humidity_def
      demo_xfer_def check_crc_def sensor_adc_get_voltage_def adc_read_def demo_hw_def)


text \<open>
  A quantity that the table of a sensor leaves out is reported as not supported, and nothing is
  read; a sensor without capabilities stops the pass with a failed assertion.
\<close>

theorem missing_operation_reported:
  "(get_temp (sops R p) = None \<longrightarrow> sensor_get_temp R p e = ok (3, None, e)) \<and>
   (get_humidity (sops R p) = None \<longrightarrow> sensor_get_humidity R p e = ok (3, None, e)) \<and>
   (get_voltage (sops R p) = None \<longrightarrow> sensor_get_voltage R p e = ok (3, None, e)) \<and>
   (get_capabilities (sops R p) = None \<longrightarrow> publish_object garbage R p (e, idx, x) = Some (Inl Assert_Failed))"
  by (simp add: sensor_get_temp_def sensor_get_humidity_def sensor_get_voltage_def sensor_get_capabilities_def
      publish_object_def STATUS_NOT_SUPPORTED_def STATUS_ERR_def)

theorem missing_operation_reported_witness:
  "sensor_get_voltage demo_registry 100 demo_devices = ok (3, None, demo_devices)"
  using missing_operation_reported [of demo_registry 100 demo_devices]
  by (simp add: demo_registry_def sht2x_ops_def)

text \<open>
  \<open>sensor_from_adc\<close> leaves the list entry as the allocator returned it. Registering a sensor whose
  entry is not clear writes through what it finds there: here into two entries of another list.
\<close>

lemma register_uninitialised_entry:
  assumes "h 5 = \<lparr>le_next = Some 1, le_prev = Some 2\<rparr>" "R = \<lparr>slist = \<lparr>head = None\<rparr>, sheap = h, sops = ops\<rparr>"
  shows "\<exists>R'. sensors_register 5 R = Some R' \<and> le_next (sheap R' 2) = Some 1 \<and> le_prev (sheap R' 1) = Some 2"
  using assms by (simp add: sensors_register_def list_append_def list_delete_def)

end
