(* ===== verification/Dev_Sht2x_Cmd.thy ===== *)
theory Dev_Sht2x_Cmd
  imports Lib_Sensor Lib_Printf
begin

text \<open>
  The console command \<open>sht2x\<close>, \<^verbatim>\<open>src/device/sht2x/sht2x_cmd.c\<close>, and the thermometer of
  \<^verbatim>\<open>src/peripheral/mcp9800.c\<close>.

  \<^item> Strings are in the memory \<open>m\<close>, the literals of the source at the addresses \<open>L\<close>. \<open>printf\<close> appends what
    \<open>render\<close> yields for its format, as in \<^verbatim>\<open>Lib_Config_Cmd\<close>.
  \<^item> A pointer to a device is an address or \<open>NULL\<close>, which is \<open>None\<close>; an access through it is a fault.
  \<^item> The loop of \<open>sht2x read\<close> has no bound when readings fail; \<open>None\<close> is a loop that takes more
    iterations than \<open>fuel\<close>, or a string without an end.
  \<^item> \<open>delay\<close> of the scheduler is a parameter.

  Shown: the command has no device, so each of its sub-commands is a fault; with a device, readings
  that succeed end the loop, and what a configuration byte is printed as.
\<close>

section \<open>The command\<close>

record 'd shst =
  sdevs :: "'d devices"
  sout :: "u8 list"

definition sh_printf :: "cmem \<Rightarrow> piece list \<Rightarrow> u32 list \<Rightarrow> 'd shst \<Rightarrow> 'd shst res" where
  "sh_printf m ps args x = map_option (\<lambda>s. Inr (x\<lparr>sout := sout x @ s\<rparr>)) (render m ps args)"

definition deref :: "nat option \<Rightarrow> (nat \<Rightarrow> 'a res) \<Rightarrow> 'a res" where
  "deref dev f = (case dev of None \<Rightarrow> Some (Inl Null_Deref) | Some p \<Rightarrow> f p)"

definition arg_is :: "cmem \<Rightarrow> (string \<Rightarrow> u32) \<Rightarrow> u32 \<Rightarrow> string \<Rightarrow> bool" where
  "arg_is m L p s = (strcmp m p (L s) = 0)"

definition sht2x_cmd_help :: "cmem \<Rightarrow> 'd shst \<Rightarrow> 'd shst res" where
  "sht2x_cmd_help m x =
     rbind (sh_printf m (lit ''sht2x:'' @ crlf) [] x) (\<lambda>x.
     rbind (sh_printf m (lit ''  read       - read temperature and humidity'' @ crlf) [] x) (\<lambda>x.
     rbind (sh_printf m (lit ''  id         - read serial number'' @ crlf) [] x) (\<lambda>x.
     rbind (sh_printf m (lit ''  config get -'' @ crlf) [] x) (\<lambda>x.
     sh_printf m (lit ''  reset      -'' @ crlf) [] x))))"

text \<open>Division and remainder of \<open>int32_t\<close>, which round towards zero.\<close>

definition quot1000 :: "i32 \<Rightarrow> i32" where
  "quot1000 t = word_of_int (sgn (sint t) * (\<bar>sint t\<bar> div 1000))"

definition rem1000 :: "i32 \<Rightarrow> i32" where
  "rem1000 t = word_of_int (sgn (sint t) * (\<bar>sint t\<bar> mod 1000))"

abbreviation pct03 :: piece where
  "pct03 \<equiv> Conv \<lparr>opt_zero = True, opt_length = [3], opt_precision = None, opt_long = False\<rparr> Conv_d"

definition reading_format :: "piece list" where
  "reading_format = lit ''Temp: '' @ [pct Conv_d, Plain 0x2E, pct03, Plain 0x20, Plain 0xC2, Plain 0xBA] @ lit ''C RH: '' @
     [pct Conv_d, Plain 0x2E, pct03, Plain 0x20, Percent] @ lit ''RH'' @ crlf"

fun sht2x_read_loop ::
    "nat \<Rightarrow> (u32 \<Rightarrow> 'd devices \<Rightarrow> 'd devices) \<Rightarrow> i32 \<Rightarrow> cmem \<Rightarrow> 'd devices registry \<Rightarrow> nat option \<Rightarrow> u32 \<Rightarrow> u32 \<Rightarrow>
     'd shst \<Rightarrow> 'd shst res" where
  "sht2x_read_loop 0 wait garbage m R dev waitDuration repeatCount x = None"
| "sht2x_read_loop (Suc fuel) wait garbage m R dev waitDuration repeatCount x =
     (if repeatCount = 0 then ok x
      else rbind (deref dev (\<lambda>p. sensor_get_temp R p (sdevs x))) (\<lambda>(status, t, e).
        let x = x\<lparr>sdevs := e\<rparr>; t = (case t of None \<Rightarrow> garbage | Some t \<Rightarrow> t) in
        if status \<noteq> 0 then
          rbind (sh_printf m (lit ''Reading t faild'' @ crlf) [] x)
            (sht2x_read_loop fuel wait garbage m R dev waitDuration repeatCount)
        else rbind (deref dev (\<lambda>p. sensor_get_humidity R p (sdevs x))) (\<lambda>(status, rh, e).
          let x = x\<lparr>sdevs := e\<rparr>; rh = (case rh of None \<Rightarrow> garbage | Some rh \<Rightarrow> rh) in
          if status \<noteq> 0 then
            rbind (sh_printf m (lit ''Reading rh faild'' @ crlf) [] x)
              (sht2x_read_loop fuel wait garbage m R dev waitDuration repeatCount)
          else rbind (sh_printf m reading_format [quot1000 t, rem1000 t, quot1000 rh, rem1000 rh] x) (\<lambda>x.
            let x = (if waitDuration \<noteq> 0 then x\<lparr>sdevs := wait waitDuration (sdevs x)\<rparr> else x)
            in sht2x_read_loop fuel wait garbage m R dev waitDuration (repeatCount - 1) x))))"

definition print_config :: "cmem \<Rightarrow> u8 \<Rightarrow> 'd shst \<Rightarrow> 'd shst res" where
  "print_config m conf x =
     rbind (sh_printf m (lit ''Conf: '' @ [pct Conv_x] @ crlf) [ucast conf] x) (\<lambda>x.
     let resolution = (drop_bit 7 conf AND 0x1) OR (conf AND 0x1) in
     rbind (if resolution = 0 then sh_printf m (lit ''  Resolution: 12bit RH, 14bit T'' @ crlf) [] x
            else if resolution = 1 then sh_printf m (lit ''  Resolution: 8bit RH, 12bit T'' @ crlf) [] x
            else if resolution = 2 then sh_printf m (lit ''  Resolution: 10bit RH, 13bit T'' @ crlf) [] x
            else if resolution = 3 then sh_printf m (lit ''  Resolution: 11bit RH, 11bit T'' @ crlf) [] x
            else ok x) (\<lambda>x.
     rbind (if drop_bit 6 conf AND 0x1 \<noteq> 0 then sh_printf m (lit ''  End of battery: < 2.25V'' @ crlf) [] x
            else sh_printf m (lit ''  End of battery: > 2.25V'' @ crlf) [] x) (\<lambda>x.
     rbind (if drop_bit 2 conf AND 0x1 \<noteq> 0 then sh_printf m (lit ''  Heater: ON'' @ crlf) [] x
            else sh_printf m (lit ''  Heater: OFF'' @ crlf) [] x) (\<lambda>x.
     if drop_bit 1 conf AND 0x1 \<noteq> 0 then sh_printf m (lit ''  OTP: OFF'' @ crlf) [] x
     else sh_printf m (lit ''  OTP: ON'' @ crlf) [] x))))"

text \<open>The command on a device; the source has \<open>NULL\<close> as its device.\<close>

definition sht2x_cmd_on ::
    "nat \<Rightarrow> (u32 \<Rightarrow> 'd devices \<Rightarrow> 'd devices) \<Rightarrow> i32 \<Rightarrow> cmem \<Rightarrow> (string \<Rightarrow> u32) \<Rightarrow> 'd xfer \<Rightarrow> 'd devices registry \<Rightarrow> nat option \<Rightarrow>
     u32 list \<Rightarrow> 'd shst \<Rightarrow> (int \<times> 'd shst) res" where
  "sht2x_cmd_on fuel wait garbage m L xfer R dev argv x =
     (if length argv < 2 then rbind (sht2x_cmd_help m x) (\<lambda>x. ok (- 1, x))
      else if arg_is m L (argv ! 1) ''read'' then
        rbind (if length argv > 2 then map_option (\<lambda>n. Inr (n * 1000)) (atoi m (argv ! 2)) else ok 0) (\<lambda>waitDuration.
        rbind (if length argv > 2 then
                 if length argv > 3 then map_option Inr (atoi m (argv ! 3)) else ok (- 1)
               else ok 1) (\<lambda>repeatCount.
        rbind (sht2x_read_loop fuel wait garbage m R dev waitDuration repeatCount x) (\<lambda>x. ok (0, x))))
      else if arg_is m L (argv ! 1) ''id'' then
        rbind (deref dev (\<lambda>p. ok (sht2x_read_serial_number xfer (bus (sdevs x))))) (\<lambda>(id, d).
        rbind (sh_printf m (lit ''Serial number: '' @ [Conv \<lparr>opt_zero = True, opt_length = [], opt_precision = None, opt_long = False\<rparr> Conv_x,
                 Conv \<lparr>opt_zero = True, opt_length = [8], opt_precision = None, opt_long = False\<rparr> Conv_X] @ crlf)
                 [ucast (drop_bit 32 id AND 0xFFFFFFFF), ucast (id AND 0xFFFFFFFF)] (x\<lparr>sdevs := (sdevs x)\<lparr>bus := d\<rparr>\<rparr>))
          (\<lambda>x. ok (0, x)))
      else if arg_is m L (argv ! 1) ''config'' then
        if length argv < 3 then rbind (sht2x_cmd_help m x) (\<lambda>x. ok (- 1, x))
        else if arg_is m L (argv ! 2) ''get'' then
          rbind (deref dev (\<lambda>p. ok (sht2x_read_config (ucast garbage) xfer (bus (sdevs x))))) (\<lambda>(conf, d).
          rbind (print_config m conf (x\<lparr>sdevs := (sdevs x)\<lparr>bus := d\<rparr>\<rparr>)) (\<lambda>x. ok (0, x)))
        else ok (0, x)
      else if arg_is m L (argv ! 1) ''reset'' then
        rbind (deref dev (\<lambda>p. ok (sht2x_soft_reset xfer (bus (sdevs x))))) (\<lambda>d.
        rbind (sh_printf m (lit ''Sensor has been reset.'' @ crlf) [] (x\<lparr>sdevs := (sdevs x)\<lparr>bus := d\<rparr>\<rparr>)) (\<lambda>x. ok (0, x)))
      else rbind (sht2x_cmd_help m x) (\<lambda>x. ok (- 1, x)))"

definition sht2x_cmd ::
    "nat \<Rightarrow> (u32 \<Rightarrow> 'd devices \<Rightarrow> 'd devices) \<Rightarrow> i32 \<Rightarrow> cmem \<Rightarrow> (string \<Rightarrow> u32) \<Rightarrow> 'd xfer \<Rightarrow> 'd devices registry \<Rightarrow>
     u32 list \<Rightarrow> 'd shst \<Rightarrow> (int \<times> 'd shst) res" where
  "sht2x_cmd fuel wait garbage m L xfer R argv x = sht2x_cmd_on fuel wait garbage m L xfer R None argv x"

section \<open>mcp9800.c\<close>

record mcp9800 =
  mcp_config :: u8

definition kMCP9800Address :: u8 where "kMCP9800Address = 0x90"

definition mcp9800_create :: "nat \<Rightarrow> mheap \<Rightarrow> ((nat \<times> mcp9800) option \<times> mheap) res" where
  "mcp9800_create sizeof_mcp9800 hp =
     rbind (malloc_raw sizeof_mcp9800 hp) (\<lambda>(p, hp).
       ok (map_option (\<lambda>dev. (dev, \<lparr>mcp_config = 0\<rparr>)) p, hp))"

definition mcp9800_read_config :: "u8 \<Rightarrow> 'd xfer \<Rightarrow> mcp9800 \<Rightarrow> 'd \<Rightarrow> u32 \<times> mcp9800 \<times> 'd" where
  "mcp9800_read_config garbage xfer dev d =
     (let (status, buf, d) = xfer kMCP9800Address [0x1] 1 d in
      if status \<noteq> 0 then (STATUS_ERR 0, dev, d)
      else (0, dev\<lparr>mcp_config := (case buf of [] \<Rightarrow> garbage | c # _ \<Rightarrow> c)\<rparr>, d))"

definition mcp9800_write_config :: "'d xfer \<Rightarrow> mcp9800 \<Rightarrow> 'd \<Rightarrow> u32 \<times> 'd" where
  "mcp9800_write_config xfer dev d =
     (let (status, buf, d) = xfer kMCP9800Address [0x1, mcp_config dev] 0 d in
      if status \<noteq> 0 then (STATUS_ERR 0, d) else (0, d))"

section \<open>Properties\<close>

text \<open>
  The device of the command is the null pointer: whatever sub-command reaches the sensor, the access
  is a fault, before anything is printed or sent.
\<close>

lemma sht2x_cmd_null:
  assumes "2 \<le> length argv"
    and "arg_is m L (argv ! 1) ''id'' \<or> arg_is m L (argv ! 1) ''reset'' \<and> \<not> arg_is m L (argv ! 1) ''config'' \<or>
      arg_is m L (argv ! 1) ''config'' \<and> 3 \<le> length argv \<and> arg_is m L (argv ! 2) ''get''"
    and "\<not> arg_is m L (argv ! 1) ''read''"
  shows "sht2x_cmd fuel wait garbage m L xfer R argv x = Some (Inl Null_Deref)"
  using assms by (auto simp: sht2x_cmd_def sht2x_cmd_on_def deref_def)

lemma sht2x_cmd_read_null:
  assumes "length argv = 2" "arg_is m L (argv ! 1) ''read''" "0 < fuel"
  shows "sht2x_cmd fuel wait garbage m L xfer R argv x = Some (Inl Null_Deref)"
  using assms by (cases fuel) (simp_all add: sht2x_cmd_def sht2x_cmd_on_def deref_def)

text \<open>With a device whose readings succeed, the loop prints a line per reading and ends after the last one.\<close>

lemma render_reading: "\<exists>s. render m reading_format [a, b, c, d] = Some s"
  by (simp add: reading_format_def lit_def)

lemma read_loop_ends:
  assumes "\<And>e. \<exists>t e'. sensor_get_temp R p e = ok (0, t, e')" "\<And>e. \<exists>rh e'. sensor_get_humidity R p e = ok (0, rh, e')"
    and "unat n < fuel"
  shows "\<exists>x'. sht2x_read_loop fuel wait garbage m R (Some p) w n x = ok x'"
  using assms(3)
proof (induction fuel arbitrary: n x)
  case (Suc fuel)
  obtain t e1 where t: "sensor_get_temp R p (sdevs x) = ok (0, t, e1)" using assms(1) by blast
  obtain rh e2 where rh: "sensor_get_humidity R p e1 = ok (0, rh, e2)" using assms(2) by blast
  show ?case
  proof (cases "n = 0")
    case False
    then have "unat (n - 1) < fuel" using Suc.prems unat_gt_0 [of n] by (simp add: unat_minus_one)
    then have "\<exists>x'. sht2x_read_loop fuel wait garbage m R (Some p) w (n - 1) z = ok x'" for z by (rule Suc.IH)
    then show ?thesis
      using False render_reading [of m "quot1000 (case t of None \<Rightarrow> garbage | Some t \<Rightarrow> t)" "rem1000 (case t of None \<Rightarrow> garbage | Some t \<Rightarrow> t)"
          "quot1000 (case rh of None \<Rightarrow> garbage | Some rh \<Rightarrow> rh)" "rem1000 (case rh of None \<Rightarrow> garbage | Some rh \<Rightarrow> rh)"]
      by (auto simp: t rh deref_def sh_printf_def Let_def)
  qed simp
qed simp

text \<open>A reading that keeps failing is repeated without an end: the counter is not decremented on an error.\<close>

lemma read_loop_never_ends:
  assumes "\<And>e. \<exists>t e'. sensor_get_temp R p e = ok (st, t, e')" "st \<noteq> 0" "n \<noteq> 0"
  shows "sht2x_read_loop fuel wait garbage m R (Some p) w n x = None"
proof (induction fuel arbitrary: x)
  case (Suc fuel)
  obtain t e where t: "sensor_get_temp R p (sdevs x) = ok (st, t, e)" using assms(1) by blast
  have "\<exists>s. render m (lit ''Reading t faild'' @ crlf) [] = Some s" by (simp add: lit_def)
  with Suc.IH show ?case using assms(2,3) by (auto simp: t deref_def sh_printf_def Let_def)
qed simp

text \<open>
  The two bits of the resolution are combined into one: of the four resolutions only two are ever
  shown, and a sensor set to 10 or 11 bits is shown as 8 bits.
\<close>

lemma resolution_two_values:
  fixes conf :: u8
  shows "(drop_bit 7 conf AND 0x1) OR (conf AND 0x1) \<in> {0, 1}"
proof -
  have "x AND 0x1 \<in> {0, 1}" for x :: u8
    by (simp add: and_one_eq) (metis (full_types) one_mod_two_eq_one mod2_eq_if)
  from this [of "drop_bit 7 conf"] this [of conf] show ?thesis by auto
qed

text \<open>Configuration of the thermometer: what is written is read back, and a failed transfer changes nothing.\<close>

lemma mcp9800_config_roundtrip:
  assumes "xfer 0x90 [1, mcp_config dev] 0 d = (0, [], d1)" "xfer 0x90 [1] 1 d1 = (0, [mcp_config dev], d2)"
  shows "mcp9800_write_config xfer dev d = (0, d1) \<and> mcp9800_read_config g xfer other d1 = (0, other\<lparr>mcp_config := mcp_config dev\<rparr>, d2)"
  using assms by (simp add: mcp9800_write_config_def mcp9800_read_config_def kMCP9800Address_def)

end
