(* ===== verification/Plat_I2c.thy ===== *)
theory Plat_I2c
  imports Core_Kernel
begin

text \<open>
  The I2C master driver of the LPC11xx: \<^verbatim>\<open>src/platform/lpc11xx/i2c.c\<close>.

  \<^item> \<open>i2c_dev\<close> is \<open>struct i2c_dev\<close> with the kernel its semaphores belong to; a buffer and its length
    are a list. \<open>acts\<close> are the register writes of the last piece of code that ran, in order.
  \<^item> The interrupt handler is a function of the status and data registers it reads. It runs when
    the controller raises an interrupt; \<open>next_ok\<close> is the table of the user manual that says which
    status of a regular transfer can follow which register writes; every other status (a refusal, the
    loss of the bus, a bus error, being addressed as a slave) may come at any time.
  \<^item> \<open>i2c_dev_transfer\<close> blocks twice: \<open>transfer_begin\<close> is the part up to waiting for \<open>done\<close>,
    \<open>transfer_end\<close> the rest. The set-up is in \<^verbatim>\<open>Plat_I2c_Setup\<close>. Logging is left out.
\<close>

section \<open>Driver\<close>

datatype reg_write = CONSET u8 | CONCLR u8 | DAT u8

abbreviation kCONSET_AA :: u8 where "kCONSET_AA \<equiv> 0x04"
abbreviation kCONSET_STO :: u8 where "kCONSET_STO \<equiv> 0x10"
abbreviation kCONSET_STA :: u8 where "kCONSET_STA \<equiv> 0x20"
abbreviation kCONCLR_ACC :: u8 where "kCONCLR_ACC \<equiv> 0x04"
abbreviation kCONCLR_SIC :: u8 where "kCONCLR_SIC \<equiv> 0x08"
abbreviation kCONCLR_STAC :: u8 where "kCONCLR_STAC \<equiv> 0x20"

record i2c_dev =
  i_lock :: semaphore
  i_done :: semaphore
  i_status :: u32
  i_addr :: u8
  writeBuffer :: "u8 list"
  writeBufferIndex :: nat
  readBuffer :: "u8 list"
  readBufferIndex :: nat
  i_kern :: kernel
  acts :: "reg_write list"

definition signal_done :: "u32 \<Rightarrow> i2c_dev \<Rightarrow> i2c_dev" where
  "signal_done st d =
     (let (s, k) = semaphore_signal (i_done d) (i_kern d)
      in d\<lparr>i_status := st, i_done := s, i_kern := k\<rparr>)"

definition store_byte :: "u8 \<Rightarrow> i2c_dev \<Rightarrow> fault + i2c_dev" where
  "store_byte dat d =
     (if readBufferIndex d < length (readBuffer d)
      then Inr (d\<lparr>readBuffer := (readBuffer d)[readBufferIndex d := dat],
                  readBufferIndex := readBufferIndex d + 1\<rparr>)
      else Inl Out_Of_Bounds)"

definition ack_or_nack :: "i2c_dev \<Rightarrow> reg_write" where
  "ack_or_nack d =
     (if readBufferIndex d + 1 < length (readBuffer d) then CONSET kCONSET_AA else CONCLR kCONCLR_ACC)"

definition i2c_dev_isr :: "u8 \<Rightarrow> u8 \<Rightarrow> i2c_dev \<Rightarrow> fault + i2c_dev" where
  "i2c_dev_isr state dat d =
     (if state = 0x08
      then Inr (d\<lparr>writeBufferIndex := 0, acts := [DAT (i_addr d), CONCLR (kCONCLR_SIC OR kCONCLR_STAC)]\<rparr>)
      else if state = 0x10
      then Inr (d\<lparr>readBufferIndex := 0, acts := [DAT (i_addr d OR 1), CONCLR (kCONCLR_SIC OR kCONCLR_STAC)]\<rparr>)
      else if state = 0x18
      then Inr (if writeBufferIndex d < length (writeBuffer d)
                then d\<lparr>writeBufferIndex := writeBufferIndex d + 1,
                       acts := [DAT (writeBuffer d ! writeBufferIndex d), CONCLR kCONCLR_SIC]\<rparr>
                else d\<lparr>acts := [CONSET kCONSET_STO, CONCLR kCONCLR_SIC]\<rparr>)
      else if state = 0x28
      then Inr (if writeBufferIndex d < length (writeBuffer d)
                then d\<lparr>writeBufferIndex := writeBufferIndex d + 1,
                       acts := [DAT (writeBuffer d ! writeBufferIndex d), CONCLR kCONCLR_SIC]\<rparr>
                else if length (readBuffer d) > 0
                then d\<lparr>acts := [CONSET kCONSET_STA, CONCLR kCONCLR_SIC]\<rparr>
                else (signal_done 0 d)\<lparr>acts := [CONSET kCONSET_STO, CONCLR kCONCLR_SIC]\<rparr>)
      else if state = 0x40
      then Inr (d\<lparr>acts := [ack_or_nack d, CONCLR kCONCLR_SIC]\<rparr>)
      else if state = 0x50
      then case store_byte dat d of
             Inl e \<Rightarrow> Inl e
           | Inr d \<Rightarrow> Inr (d\<lparr>acts := [ack_or_nack d, CONCLR kCONCLR_SIC]\<rparr>)
      else if state = 0x58
      then case store_byte dat d of
             Inl e \<Rightarrow> Inl e
           | Inr d \<Rightarrow> Inr ((signal_done 0 d)\<lparr>acts := [CONSET kCONSET_STO, CONCLR kCONCLR_SIC]\<rparr>)
      else Inr ((signal_done 1 d)\<lparr>acts := [CONSET kCONSET_STO, CONCLR kCONCLR_SIC]\<rparr>))"

definition transfer_begin :: "u8 \<Rightarrow> u8 list \<Rightarrow> u8 list \<Rightarrow> i2c_dev \<Rightarrow> i2c_dev" where
  "transfer_begin addr wbuf rbuf d =
     (let (l, k) = semaphore_wait (i_lock d) (i_kern d);
          d = d\<lparr>i_lock := l, i_kern := k, i_addr := addr, writeBuffer := wbuf, readBuffer := rbuf,
                 acts := [CONSET kCONSET_STA]\<rparr>;
          (s, k) = semaphore_wait (i_done d) (i_kern d)
      in d\<lparr>i_done := s, i_kern := k\<rparr>)"

definition transfer_end :: "i2c_dev \<Rightarrow> u32 \<times> i2c_dev" where
  "transfer_end d =
     (let (l, k) = semaphore_signal (i_lock d) (i_kern d)
      in (i_status d, d\<lparr>i_lock := l, i_kern := k\<rparr>))"

text \<open>What \<open>i2c_dev_create\<close> sets of the structure in the memory it has allocated; the rest of it is in \<^verbatim>\<open>Plat_I2c_Setup\<close>.\<close>

definition i2c_dev_init :: "i2c_dev \<Rightarrow> i2c_dev" where
  "i2c_dev_init d = d\<lparr>i_lock := semaphore_init 1, i_done := semaphore_init 0\<rparr>"

section \<open>The controller\<close>

text \<open>
  The status values of a transfer that proceeds as the driver wants. Every other one is a refusal of
  the address or of a byte (0x20, 0x30, 0x48), the loss of the bus to another master (0x38), a bus
  error (0x00) or being addressed as a slave; 0xF8 says that there is nothing to report and comes
  with no interrupt.
\<close>

definition progress :: "u8 \<Rightarrow> bool" where
  "progress st \<longleftrightarrow> st \<in> {0x08, 0x10, 0x18, 0x28, 0x40, 0x50, 0x58}"

text \<open>
  Which status can follow the status \<open>st\<close> (0xF8 when idle) after given register writes. A stop
  condition is the end.
\<close>

definition next_ok :: "u8 \<Rightarrow> reg_write list \<Rightarrow> u8 \<Rightarrow> bool" where
  "next_ok st as st' \<longleftrightarrow>
     CONSET kCONSET_STO \<notin> set as \<and>
     (\<not> progress st' \<and> st' \<noteq> 0xF8 \<or>
      (if st = 0xF8 then CONSET kCONSET_STA \<in> set as \<and> st' = 0x08
       else if st = 0x08 \<or> st = 0x10
       then (case hd as of DAT a \<Rightarrow> if bit a 0 then st' = 0x40 else st' = 0x18 | _ \<Rightarrow> False)
       else if st = 0x18 \<or> st = 0x28
       then (if CONSET kCONSET_STA \<in> set as then st' = 0x10 else st' = 0x28)
       else if st = 0x40 \<or> st = 0x50
       then (if CONSET kCONSET_AA \<in> set as then st' = 0x50 else st' = 0x58)
       else False))"

text \<open>
  A run: the interrupts taken so far, each with the status and the data register it saw and the
  register writes it made.
\<close>

type_synonym i2c_trace = "(u8 \<times> u8 \<times> reg_write list) list"

definition bus_state :: "i2c_trace \<Rightarrow> u8" where
  "bus_state tr = (if tr = [] then 0xF8 else fst (last tr))"

inductive i2c_run :: "i2c_dev \<Rightarrow> i2c_trace \<Rightarrow> i2c_dev \<Rightarrow> bool" where
  run_start: "i2c_run d [] d"
| run_irq: "i2c_run d0 tr d \<Longrightarrow> next_ok (bus_state tr) (acts d) st \<Longrightarrow>
    i2c_dev_isr st dat d = Inr d' \<Longrightarrow> i2c_run d0 (tr @ [(st, dat, acts d')]) d'"

text \<open>The bytes that went out on the bus, and the bytes that came in.\<close>

definition dat_writes :: "reg_write list \<Rightarrow> u8 list" where
  "dat_writes as = concat (map (\<lambda>a. case a of DAT b \<Rightarrow> [b] | _ \<Rightarrow> []) as)"

definition sent_bytes :: "i2c_trace \<Rightarrow> u8 list" where
  "sent_bytes tr = concat (map (\<lambda>(st, dat, as). dat_writes as) tr)"

definition got_bytes :: "i2c_trace \<Rightarrow> u8 list" where
  "got_bytes tr = map (\<lambda>(st, dat, as). dat) (filter (\<lambda>(st, dat, as). st = 0x50 \<or> st = 0x58) tr)"

text \<open>Some interrupt of the run reported something other than progress.\<close>

definition disturbed :: "i2c_trace \<Rightarrow> bool" where
  "disturbed tr \<longleftrightarrow> list_ex (\<lambda>(st, dat, as). \<not> progress st) tr"

lemma trace_simps [simp]:
  "sent_bytes [] = []" "sent_bytes (tr @ [(st, dat, as)]) = sent_bytes tr @ dat_writes as"
  "got_bytes [] = []" "got_bytes (tr @ [(st, dat, as)]) = got_bytes tr @ (if st = 0x50 \<or> st = 0x58 then [dat] else [])"
  "bus_state [] = 0xF8" "bus_state (tr @ [(st, dat, as)]) = st"
  "disturbed [] = False" "disturbed (tr @ [(st, dat, as)]) \<longleftrightarrow> disturbed tr \<or> \<not> progress st"
  by (auto simp: sent_bytes_def got_bytes_def bus_state_def disturbed_def)

lemmas trace_single [simp] = trace_simps(2,4,6,8) [of "[]", simplified]

lemma dat_writes_simps [simp]:
  "dat_writes [] = []" "dat_writes (DAT b # as) = b # dat_writes as"
  "dat_writes (CONSET b # as) = dat_writes as" "dat_writes (CONCLR b # as) = dat_writes as"
  by (simp_all add: dat_writes_def)

section \<open>Phases of a transfer\<close>

datatype phase = Idle | Addressed | Writing nat | Restarting | Readdressed | Reading nat | Ended u32

text \<open>
  What holds in each phase of a transfer that was started in the state \<open>d1\<close>: the registers just
  written, what went over the bus, the indices, and whether \<open>done\<close> was signalled.
\<close>

definition untouched :: "i2c_dev \<Rightarrow> i2c_dev \<Rightarrow> bool" where
  "untouched d1 d \<longleftrightarrow> i_done d = i_done d1 \<and> i_kern d = i_kern d1"

definition signalled :: "i2c_dev \<Rightarrow> i2c_dev \<Rightarrow> bool" where
  "signalled d1 d \<longleftrightarrow> (i_done d, i_kern d) = semaphore_signal (i_done d1) (i_kern d1)"

definition frame_ok :: "i2c_dev \<Rightarrow> i2c_dev \<Rightarrow> bool" where
  "frame_ok d1 d \<longleftrightarrow> writeBuffer d = writeBuffer d1 \<and> i_addr d = i_addr d1
     \<and> length (readBuffer d) = length (readBuffer d1) \<and> i_lock d = i_lock d1"

fun in_phase :: "phase \<Rightarrow> i2c_dev \<Rightarrow> i2c_trace \<Rightarrow> i2c_dev \<Rightarrow> bool" where
  "in_phase Idle d1 tr d \<longleftrightarrow> tr = [] \<and> d = d1"
| "in_phase Addressed d1 tr d \<longleftrightarrow> frame_ok d1 d \<and> untouched d1 d \<and> \<not> disturbed tr \<and> bus_state tr = 0x08 \<and> length tr = 1
     \<and> acts d = [DAT (i_addr d1), CONCLR 0x28] \<and> writeBufferIndex d = 0
     \<and> sent_bytes tr = [i_addr d1] \<and> got_bytes tr = []"
| "in_phase (Writing k) d1 tr d \<longleftrightarrow> frame_ok d1 d \<and> untouched d1 d \<and> \<not> disturbed tr \<and> (bus_state tr = 0x18 \<or> bus_state tr = 0x28)
     \<and> length tr = k + 1 \<and> 0 < k \<and> k \<le> length (writeBuffer d1) \<and> writeBufferIndex d = k
     \<and> acts d = [DAT (writeBuffer d1 ! (k - 1)), CONCLR 0x08]
     \<and> sent_bytes tr = i_addr d1 # take k (writeBuffer d1) \<and> got_bytes tr = []"
| "in_phase Restarting d1 tr d \<longleftrightarrow> frame_ok d1 d \<and> untouched d1 d \<and> \<not> disturbed tr \<and> bus_state tr = 0x28
     \<and> length tr = length (writeBuffer d1) + 2 \<and> readBuffer d1 \<noteq> []
     \<and> acts d = [CONSET 0x20, CONCLR 0x08]
     \<and> sent_bytes tr = i_addr d1 # writeBuffer d1 \<and> got_bytes tr = []"
| "in_phase Readdressed d1 tr d \<longleftrightarrow> frame_ok d1 d \<and> untouched d1 d \<and> \<not> disturbed tr \<and> bus_state tr = 0x10
     \<and> length tr = length (writeBuffer d1) + 3 \<and> readBuffer d1 \<noteq> [] \<and> readBufferIndex d = 0
     \<and> acts d = [DAT (i_addr d1 OR 1), CONCLR 0x28]
     \<and> sent_bytes tr = i_addr d1 # writeBuffer d1 @ [i_addr d1 OR 1] \<and> got_bytes tr = []"
| "in_phase (Reading k) d1 tr d \<longleftrightarrow> frame_ok d1 d \<and> untouched d1 d \<and> \<not> disturbed tr \<and> (bus_state tr = 0x40 \<or> bus_state tr = 0x50)
     \<and> length tr = length (writeBuffer d1) + 4 + k \<and> k < length (readBuffer d1) \<and> readBufferIndex d = k
     \<and> acts d = [ack_or_nack d, CONCLR 0x08] \<and> length (got_bytes tr) = k
     \<and> take k (readBuffer d) = got_bytes tr
     \<and> sent_bytes tr = i_addr d1 # writeBuffer d1 @ [i_addr d1 OR 1]"
| "in_phase (Ended s) d1 tr d \<longleftrightarrow> frame_ok d1 d \<and> signalled d1 d \<and> acts d = [CONSET 0x10, CONCLR 0x08]
     \<and> length tr \<le> length (writeBuffer d1) + length (readBuffer d1) + 4 \<and> i_status d = s
     \<and> (if disturbed tr then s = 1
        else s = 0 \<and> readBuffer d = got_bytes tr
          \<and> sent_bytes tr = i_addr d1 # writeBuffer d1 @ (if readBuffer d1 = [] then [] else [i_addr d1 OR 1]))"

lemma signal_done_fields [simp]:
  "writeBuffer (signal_done s d) = writeBuffer d" "readBuffer (signal_done s d) = readBuffer d"
  "i_addr (signal_done s d) = i_addr d" "i_lock (signal_done s d) = i_lock d" "i_status (signal_done s d) = s"
  by (simp_all add: signal_done_def split: prod.split)

lemma signalled_done: "untouched d1 d \<Longrightarrow> signalled d1 ((signal_done s d)\<lparr>acts := as\<rparr>)"
  by (simp add: untouched_def signalled_def signal_done_def split: prod.split)

lemmas phase_defs = i2c_dev_isr_def next_ok_def frame_ok_def untouched_def progress_def

lemma step_error:
  assumes "frame_ok d1 d" "untouched d1 d" "length tr < length (writeBuffer d1) + length (readBuffer d1) + 4"
    and "\<not> progress st"
  shows "\<exists>d' p'. i2c_dev_isr st dat d = Inr d' \<and> in_phase p' d1 (tr @ [(st, dat, acts d')]) d'"
  using assms signalled_done [OF assms(2), where s = 1]
  by (intro exI [of _ "(signal_done 1 d)\<lparr>acts := [CONSET 0x10, CONCLR 0x08]\<rparr>"] exI [of _ "Ended 1"])
    (auto simp: i2c_dev_isr_def frame_ok_def progress_def)

text \<open>A phase that has not ended takes every status that is no progress to the end.\<close>

lemma phase_error:
  assumes "in_phase p d1 tr d" "next_ok (bus_state tr) (acts d) st" "\<not> progress st"
  shows "\<exists>d' p'. i2c_dev_isr st dat d = Inr d' \<and> in_phase p' d1 (tr @ [(st, dat, acts d')]) d'"
proof (cases "\<exists>s. p = Ended s")
  case True
  then show ?thesis using assms by (auto simp: next_ok_def)
next
  case False
  then have "frame_ok d1 d" "untouched d1 d" "length tr < length (writeBuffer d1) + length (readBuffer d1) + 4"
    using assms(1) by (cases p; auto simp: frame_ok_def untouched_def)+
  then show ?thesis using assms(3) by (rule step_error)
qed

lemma phase_progress:
  assumes "in_phase p d1 tr d" "next_ok (bus_state tr) (acts d) st" "progress st"
    and "writeBuffer d1 \<noteq> []" "\<not> bit (i_addr d1) 0" "acts d1 = [CONSET 0x20]"
  shows "\<exists>d' p'. i2c_dev_isr st dat d = Inr d' \<and> in_phase p' d1 (tr @ [(st, dat, acts d')]) d'"
proof (cases p)
  case Idle
  then show ?thesis using assms by (intro exI [of _ "d1\<lparr>writeBufferIndex := 0, acts := [DAT (i_addr d1), CONCLR 0x28]\<rparr>"] exI [of _ Addressed])
      (auto simp: phase_defs)
next
  case Addressed
  then have "st = 0x18" using assms by (auto simp: next_ok_def split: if_splits)
  then show ?thesis using Addressed assms
    by (intro exI [of _ "d\<lparr>writeBufferIndex := 1, acts := [DAT (writeBuffer d ! 0), CONCLR 0x08]\<rparr>"] exI [of _ "Writing 1"])
      (auto simp: phase_defs take_Suc hd_conv_nth Suc_le_eq)
next
  case (Writing k)
  then have st: "st = 0x28" using assms by (auto simp: next_ok_def split: if_splits)
  consider "k < length (writeBuffer d1)" | "k = length (writeBuffer d1)" "readBuffer d1 \<noteq> []"
    | "k = length (writeBuffer d1)" "readBuffer d1 = []" using Writing assms(1) by force
  then show ?thesis
  proof cases
    case 1
    then show ?thesis using Writing assms st
      by (intro exI [of _ "d\<lparr>writeBufferIndex := k + 1, acts := [DAT (writeBuffer d ! k), CONCLR 0x08]\<rparr>"] exI [of _ "Writing (k + 1)"])
        (auto simp: phase_defs take_Suc_conv_app_nth)
  next
    case 2
    then show ?thesis using Writing assms st
      by (intro exI [of _ "d\<lparr>acts := [CONSET 0x20, CONCLR 0x08]\<rparr>"] exI [of _ Restarting]) (auto simp: phase_defs)
  next
    case 3
    then show ?thesis using Writing assms st signalled_done [of d1 d, where s = 0]
      by (intro exI [of _ "(signal_done 0 d)\<lparr>acts := [CONSET 0x10, CONCLR 0x08]\<rparr>"] exI [of _ "Ended 0"])
        (auto simp: i2c_dev_isr_def frame_ok_def)
  qed
next
  case Restarting
  then have "st = 0x10" using assms by (auto simp: next_ok_def split: if_splits)
  then show ?thesis using Restarting assms
    by (intro exI [of _ "d\<lparr>readBufferIndex := 0, acts := [DAT (i_addr d OR 1), CONCLR 0x28]\<rparr>"] exI [of _ Readdressed])
      (auto simp: phase_defs)
next
  case Readdressed
  have "bit (i_addr d1 OR 1) 0" by (simp add: bit_or_iff)
  then have "st = 0x40" using Readdressed assms by (auto simp: next_ok_def split: if_splits)
  then show ?thesis using Readdressed assms
    by (intro exI [of _ "d\<lparr>acts := [ack_or_nack d, CONCLR 0x08]\<rparr>"] exI [of _ "Reading 0"])
      (auto simp: phase_defs ack_or_nack_def)
next
  case (Reading k)
  let ?r = "d\<lparr>readBuffer := (readBuffer d)[k := dat], readBufferIndex := k + 1\<rparr>"
  have sb: "store_byte dat d = Inr ?r" and tk: "take (k + 1) (readBuffer ?r) = got_bytes tr @ [dat]"
    using Reading assms(1) by (auto simp: store_byte_def frame_ok_def take_Suc_conv_app_nth)
  show ?thesis
  proof (cases "k + 1 < length (readBuffer d1)")
    case True
    then have "st = 0x50" using Reading assms(1-3) by (auto simp: next_ok_def ack_or_nack_def frame_ok_def)
    then show ?thesis using True Reading assms(1) sb tk
      by (intro exI [of _ "?r\<lparr>acts := [ack_or_nack ?r, CONCLR 0x08]\<rparr>"] exI [of _ "Reading (k + 1)"])
        (auto simp: phase_defs ack_or_nack_def)
  next
    case False
    then have "st = 0x58" using Reading assms(1-3) by (auto simp: next_ok_def ack_or_nack_def frame_ok_def)
    moreover have "untouched d1 ?r" using Reading assms(1) by (simp add: untouched_def)
    ultimately show ?thesis using False Reading assms(1,3) sb tk signalled_done [of d1 ?r, where s = 0]
      by (intro exI [of _ "(signal_done 0 ?r)\<lparr>acts := [CONSET 0x10, CONCLR 0x08]\<rparr>"] exI [of _ "Ended 0"])
        (auto simp: i2c_dev_isr_def frame_ok_def)
  qed
next
  case (Ended s)
  then show ?thesis using assms by (auto simp: next_ok_def)
qed

lemma phase_step:
  assumes "in_phase p d1 tr d" "next_ok (bus_state tr) (acts d) st"
    and "writeBuffer d1 \<noteq> []" "\<not> bit (i_addr d1) 0" "acts d1 = [CONSET 0x20]"
  shows "\<exists>d' p'. i2c_dev_isr st dat d = Inr d' \<and> in_phase p' d1 (tr @ [(st, dat, acts d')]) d'"
  using phase_error [OF assms(1,2)] phase_progress [OF assms(1,2) _ assms(3-5)] by blast

lemma run_phase:
  assumes "i2c_run d1 tr d" "writeBuffer d1 \<noteq> []" "\<not> bit (i_addr d1) 0" "acts d1 = [CONSET 0x20]"
  shows "\<exists>p. in_phase p d1 tr d"
  using assms
proof (induction rule: i2c_run.induct)
  case (run_start d)
  have "in_phase Idle d [] d" by simp
  then show ?case ..
next
  case (run_irq d0 tr d st dat d')
  then obtain p where "in_phase p d0 tr d" by auto
  from phase_step [OF this run_irq.hyps(2) run_irq.prems, of dat] run_irq.hyps(3) show ?case by auto
qed

lemma phase_length:
  "in_phase p d1 tr d \<Longrightarrow> length tr \<le> length (writeBuffer d1) + length (readBuffer d1) + 4"
  by (cases p) (auto simp: Suc_le_eq)

text \<open>The status that carries on from a phase.\<close>

fun phase_next :: "phase \<Rightarrow> i2c_dev \<Rightarrow> u8" where
  "phase_next Idle d = 0x08"
| "phase_next Addressed d = 0x18"
| "phase_next (Writing k) d = 0x28"
| "phase_next Restarting d = 0x10"
| "phase_next Readdressed d = 0x40"
| "phase_next (Reading k) d = (if k + 1 < length (readBuffer d) then 0x50 else 0x58)"
| "phase_next (Ended s) d = 0xF8"

lemma phase_can_go_on:
  assumes "in_phase p d1 tr d" "\<not> bit (i_addr d1) 0" "acts d1 = [CONSET 0x20]" "\<nexists>s. p = Ended s"
  shows "untouched d1 d" "\<not> disturbed tr"
    and "progress (phase_next p d)" "next_ok (bus_state tr) (acts d) (phase_next p d)"
proof -
  have "bit (i_addr d1 OR 1) 0" by (simp add: bit_or_iff)
  then show "next_ok (bus_state tr) (acts d) (phase_next p d)" using assms
    by (cases p) (auto simp: next_ok_def ack_or_nack_def)
  show "untouched d1 d" "\<not> disturbed tr" using assms by (cases p; simp add: untouched_def)+
  show "progress (phase_next p d)" using assms(4) by (cases p) (simp_all add: progress_def)
qed

lemma transfer_begin_state:
  "writeBuffer (transfer_begin addr ws rs d) = ws" "readBuffer (transfer_begin addr ws rs d) = rs"
  "i_addr (transfer_begin addr ws rs d) = addr" "acts (transfer_begin addr ws rs d) = [CONSET 0x20]"
  by (simp_all add: transfer_begin_def Let_def case_prod_beta)

section \<open>Properties\<close>

text \<open>
  C8. A transfer that writes at least one byte to a (write, that is even) address comes to an end and
  reports the truth, whatever happens on the bus, provided the controller keeps raising interrupts:
  in every run that the controller allows, with refusals, loss of the bus and bus errors at any time,
  \<^item> the handler never leaves the read buffer, and there are at most as many interrupts as bytes plus 4;
  \<^item> as long as the bus is not released, \<open>done\<close> is not signalled, all interrupts so far reported progress
    and another one that does can come;
  \<^item> when it is released, \<open>done\<close> was signalled exactly once; the status is an error if and only if some
    interrupt reported something other than progress, and if it is \<open>STATUS_OK\<close>, the
    address, exactly the bytes to write and, if bytes were to be read, the read address went
    over the bus in this order, and the read buffer holds the received bytes, in order.

  A transfer that writes nothing is excluded: \<open>empty_write_hangs\<close> below shows that it never ends.
\<close>

theorem transfer_completes:
  assumes "i2c_run d1 tr d" "d1 = transfer_begin addr ws rbuf d0" "ws \<noteq> []" "\<not> bit addr 0"
  shows "length tr \<le> length ws + length rbuf + 4
     \<and> (\<forall>st dat. next_ok (bus_state tr) (acts d) st \<longrightarrow> (\<exists>d'. i2c_dev_isr st dat d = Inr d'))
     \<and> (if \<exists>st. next_ok (bus_state tr) (acts d) st
        then i_done d = i_done d1 \<and> i_kern d = i_kern d1 \<and> \<not> disturbed tr
          \<and> (\<exists>st. progress st \<and> next_ok (bus_state tr) (acts d) st)
        else (i_done d, i_kern d) = semaphore_signal (i_done d1) (i_kern d1)
          \<and> (if disturbed tr then i_status d = 1
             else i_status d = 0 \<and> readBuffer d = got_bytes tr \<and> length (readBuffer d) = length rbuf
               \<and> sent_bytes tr = addr # ws @ (if rbuf = [] then [] else [addr OR 1])))"
proof -
  note st = transfer_begin_state [of addr ws rbuf d0, folded assms(2)]
  have ok: "writeBuffer d1 \<noteq> []" "\<not> bit (i_addr d1) 0" "acts d1 = [CONSET 0x20]" using st assms(3,4) by simp_all
  obtain p where p: "in_phase p d1 tr d" using run_phase [OF assms(1) ok] ..
  have safe: "\<forall>st dat. next_ok (bus_state tr) (acts d) st \<longrightarrow> (\<exists>d'. i2c_dev_isr st dat d = Inr d')"
    using phase_step [OF p _ ok] by blast
  show ?thesis
  proof (cases "\<exists>s. p = Ended s")
    case True
    then obtain s where "in_phase (Ended s) d1 tr d" using p by blast
    moreover from this have "\<nexists>st. next_ok (bus_state tr) (acts d) st" by (simp add: next_ok_def)
    ultimately show ?thesis using st safe phase_length [OF p]
      by (simp only: if_False) (simp add: signalled_def frame_ok_def split: if_split_asm; metis)
  next
    case False
    then have "untouched d1 d" "\<not> disturbed tr" "\<exists>st. progress st \<and> next_ok (bus_state tr) (acts d) st"
      using phase_can_go_on [OF p ok(2,3) False] by blast+
    moreover from this(3) have "\<exists>st. next_ok (bus_state tr) (acts d) st" by blast
    ultimately show ?thesis using st safe phase_length [OF p]
      by (simp only: if_True) (simp add: untouched_def)
  qed
qed

text \<open>Running a given sequence of interrupts, if the controller allows it.\<close>

fun i2c_exec :: "(u8 \<times> u8) list \<Rightarrow> i2c_trace \<Rightarrow> i2c_dev \<Rightarrow> (i2c_trace \<times> i2c_dev) option" where
  "i2c_exec [] tr d = Some (tr, d)"
| "i2c_exec ((st, dat) # evs) tr d =
     (if next_ok (bus_state tr) (acts d) st
      then case i2c_dev_isr st dat d of Inl e \<Rightarrow> None | Inr d' \<Rightarrow> i2c_exec evs (tr @ [(st, dat, acts d')]) d'
      else None)"

lemma i2c_exec_run: "i2c_run d0 tr d \<Longrightarrow> i2c_exec evs tr d = Some (tr', d') \<Longrightarrow> i2c_run d0 tr' d'"
proof (induction evs tr d rule: i2c_exec.induct)
  case (2 st dat evs tr d)
  then show ?case by (auto split: if_splits sum.splits intro: run_irq)
qed simp

definition demo_i2c_dev :: i2c_dev where
  "demo_i2c_dev = \<lparr>i_lock = semaphore_init 0, i_done = semaphore_init 0, i_status = 7, i_addr = 7, writeBuffer = [],
     writeBufferIndex = 7, readBuffer = [], readBufferIndex = 7, i_kern = demo_kernel, acts = []\<rparr>"

definition demo_i2c :: i2c_dev where
  "demo_i2c = transfer_begin 0x80 [0xE3] [0, 0] (i2c_dev_init demo_i2c_dev)"

lemma demo_i2c_exec:
  "\<exists>tr d. i2c_exec [(0x08, 0), (0x18, 0), (0x28, 0), (0x10, 0), (0x40, 0), (0x50, 0x68), (0x58, 0x3A)] [] demo_i2c = Some (tr, d)
     \<and> acts d = [CONSET 0x10, CONCLR 0x08] \<and> i_status d = 0 \<and> got_bytes tr = [0x68, 0x3A] \<and> \<not> disturbed tr"
  by (simp add: next_ok_def progress_def disturbed_def i2c_dev_isr_def demo_i2c_def transfer_begin_state ack_or_nack_def store_byte_def
      bus_state_def got_bytes_def Let_def del: trace_simps trace_single)

theorem transfer_completes_witness:
  "\<exists>tr d. i2c_run demo_i2c tr d \<and> readBuffer d = [0x68, 0x3A] \<and> sent_bytes tr = [0x80, 0xE3, 0x81]"
proof -
  obtain tr d where ex: "i2c_exec [(0x08, 0), (0x18, 0), (0x28, 0), (0x10, 0), (0x40, 0), (0x50, 0x68), (0x58, 0x3A)] [] demo_i2c = Some (tr, d)"
    and d: "acts d = [CONSET 0x10, CONCLR 0x08]" "\<not> disturbed tr" "got_bytes tr = [0x68, 0x3A]"
    using demo_i2c_exec by blast
  have run: "i2c_run demo_i2c tr d" by (rule i2c_exec_run [OF run_start ex])
  have "\<not> next_ok (bus_state tr) (acts d) st" for st using d by (simp add: next_ok_def)
  then show ?thesis using transfer_completes [OF run demo_i2c_def] run d by auto
qed

text \<open>
  A transfer that writes nothing is never reported: after the address the handler sets the stop
  flag without signalling \<open>done\<close>, no further interrupt comes, and the caller waits for ever.
\<close>

lemma empty_write_hangs:
  assumes "d1 = transfer_begin addr [] rbuf d0" "\<not> bit addr 0"
  shows "\<exists>tr d. i2c_run d1 tr d \<and> (\<forall>st. \<not> next_ok (bus_state tr) (acts d) st)
     \<and> i_done d = i_done d1 \<and> i_kern d = i_kern d1"
proof -
  note st = transfer_begin_state [of addr "[]" rbuf d0, folded assms(1)]
  let ?a = "d1\<lparr>writeBufferIndex := 0, acts := [DAT addr, CONCLR 0x28]\<rparr>"
  let ?b = "?a\<lparr>acts := [CONSET 0x10, CONCLR 0x08]\<rparr>"
  have "i2c_exec [(0x08, 0), (0x18, 0)] [] d1 = Some ([(0x08, 0, acts ?a), (0x18, 0, acts ?b)], ?b)"
    using st assms(2) by (simp add: next_ok_def i2c_dev_isr_def bus_state_def del: trace_simps trace_single)
  from i2c_exec_run [OF run_start this] show ?thesis
    by (intro exI [of _ "[(0x08, 0, acts ?a), (0x18, 0, acts ?b)]"] exI [of _ ?b]) (simp add: next_ok_def)
qed

end
