(* ===== verification/Top_Init.thy ===== *)
theory Top_Init
  imports FW_Prelude "HOL-Library.Product_Lexorder"
begin

text \<open>
  Start-up hooks: \<^verbatim>\<open>src/top/init.c\<close>, \<^verbatim>\<open>src/include/fw/init.h\<close>.

  The linker collects the hooks in a table; \<open>fw_init_run\<close> calls those up to a level that were not called yet. A pointer into the
  table is an index. A hook works on a state \<open>'s\<close> and may fault or not return. \<open>last_level\<close> is part of the state of \<open>fw_init_run\<close>.
\<close>

section \<open>The code\<close>

record 's fw_init_hook =
  level :: u32
  hook :: "u32 \<Rightarrow> 's \<Rightarrow> (fault + 's) option"

abbreviation kFWInitLevelEarliest :: u32 where "kFWInitLevelEarliest \<equiv> 1"
abbreviation kFWInitLevelThreading :: u32 where "kFWInitLevelThreading \<equiv> 0x1000"
abbreviation kFWInitLevelLast :: u32 where "kFWInitLevelLast \<equiv> - 1"

text \<open>The inner loop over the table, from the hook with index \<open>ptr\<close> on; \<open>found\<close> has the level of the hook found, too.\<close>

fun find_hook ::
    "'s fw_init_hook list \<Rightarrow> nat \<Rightarrow> u32 \<Rightarrow> u32 \<Rightarrow> u32 \<Rightarrow> nat option \<Rightarrow> (nat \<times> u32) option \<Rightarrow> bool \<Rightarrow> nat option" where
  "find_hook [] ptr lv last_level last_called_level last_hook found seen_last = map_option fst found"
| "find_hook (h # hs) ptr lv last_level last_called_level last_hook found seen_last =
     (let seen_last = (if Some ptr = last_hook then True else seen_last) in
      if lv < level h then find_hook hs (ptr + 1) lv last_level last_called_level last_hook found seen_last
      else if level h < last_called_level then find_hook hs (ptr + 1) lv last_level last_called_level last_hook found seen_last
      else if (case found of None \<Rightarrow> False | Some (_, l) \<Rightarrow> l \<le> level h)
      then find_hook hs (ptr + 1) lv last_level last_called_level last_hook found seen_last
      else if last_level < level h \<and> last_called_level < level h
      then find_hook hs (ptr + 1) lv last_level last_called_level last_hook (Some (ptr, level h)) seen_last
      else if level h = last_called_level \<and> Some ptr \<noteq> last_hook \<and> seen_last then Some ptr
      else find_hook hs (ptr + 1) lv last_level last_called_level last_hook found seen_last)"

partial_function (option) run_hooks ::
    "'s fw_init_hook list \<Rightarrow> u32 \<Rightarrow> u32 \<Rightarrow> u32 \<Rightarrow> nat option \<Rightarrow> 's \<Rightarrow> (fault + 's) option" where
  "run_hooks hooks lv last_level last_called_level last_hook s =
     (case find_hook hooks 0 lv last_level last_called_level last_hook None False of
        None \<Rightarrow> Some (Inr s)
      | Some i \<Rightarrow>
          Option.bind (hook (hooks ! i) (level (hooks ! i)) s) (\<lambda>r.
            case r of Inl e \<Rightarrow> Some (Inl e)
            | Inr s \<Rightarrow> run_hooks hooks lv last_level (level (hooks ! i)) (Some i) s))"

definition fw_init_run ::
    "'s fw_init_hook list \<Rightarrow> u32 \<Rightarrow> u32 \<times> 's \<Rightarrow> (fault + (u32 \<times> 's)) option" where
  "fw_init_run hooks lv x =
     (case x of (last_level, s) \<Rightarrow>
        map_option (map_sum id (Pair lv)) (run_hooks hooks lv last_level last_level None s))"

section \<open>Specification: stable sorting\<close>

fun call_hooks :: "'s fw_init_hook list \<Rightarrow> 's \<Rightarrow> (fault + 's) option" where
  "call_hooks [] s = Some (Inr s)"
| "call_hooks (h # hs) s =
     Option.bind (hook h (level h) s) (\<lambda>r. case r of Inl e \<Rightarrow> Some (Inl e) | Inr s \<Rightarrow> call_hooks hs s)"

definition due :: "u32 \<Rightarrow> u32 \<Rightarrow> 's fw_init_hook list \<Rightarrow> 's fw_init_hook list" where
  "due from to hooks = sort_key level (filter (\<lambda>h. from < level h \<and> level h \<le> to) hooks)"

section \<open>The inner loop finds the next hook\<close>

text \<open>Hooks still to be called: of a higher level than the last one, or of the same level and behind it.\<close>

definition pending :: "'s fw_init_hook list \<Rightarrow> u32 \<Rightarrow> u32 \<Rightarrow> nat option \<Rightarrow> nat \<Rightarrow> (u32 \<times> nat) set" where
  "pending hooks lv lcl last_hook n = {(level (hooks ! j), j) | j. j < n \<and> level (hooks ! j) \<le> lv
     \<and> (lcl < level (hooks ! j) \<or> level (hooks ! j) = lcl \<and> (\<exists>i. last_hook = Some i \<and> i < j))}"

definition least :: "(u32 \<times> nat) set \<Rightarrow> nat option \<Rightarrow> bool" where
  "least S r \<longleftrightarrow> (case r of None \<Rightarrow> S = {} | Some j \<Rightarrow> \<exists>l. (l, j) \<in> S \<and> (\<forall>x \<in> S. (l, j) \<le> x))"

lemma pending_Suc:
  "pending hooks lv lcl last_hook (Suc n) = pending hooks lv lcl last_hook n \<union>
     (if level (hooks ! n) \<le> lv \<and> (lcl < level (hooks ! n) \<or> level (hooks ! n) = lcl \<and> (\<exists>i. last_hook = Some i \<and> i < n))
      then {(level (hooks ! n), n)} else {})"
  by (auto simp: pending_def less_Suc_eq)

lemma least_keep: "least S (Some j) \<Longrightarrow> (\<And>l. (l, j) \<in> S \<Longrightarrow> (l, j) \<le> x) \<Longrightarrow> least (insert x S) (Some j)"
  by (auto simp: least_def)

lemma least_new: "(\<And>y. y \<in> S \<Longrightarrow> (l, j) \<le> y) \<Longrightarrow> least (insert (l, j) S) (Some j)"
  by (auto simp: least_def)

lemma find_hook_least:
  assumes "last_level \<le> lcl" "ptr \<le> length hooks" "hs = drop ptr hooks" "seen \<longleftrightarrow> (\<exists>i. last_hook = Some i \<and> i < ptr)"
    and "least (pending hooks lv lcl last_hook ptr) (map_option fst found)"
    and "\<forall>j l. found = Some (j, l) \<longrightarrow> l = level (hooks ! j) \<and> lcl < l"
  shows "least (pending hooks lv lcl last_hook (length hooks)) (find_hook hs ptr lv last_level lcl last_hook found seen)"
  using assms(2-)
proof (induction hs arbitrary: ptr found seen)
  case Nil
  then show ?case by simp
next
  case (Cons h hs)
  let ?P = "pending hooks lv lcl last_hook"
  define sn where "sn = (if Some ptr = last_hook then True else seen)"
  note step = find_hook.simps(2) [of h hs ptr lv last_level lcl last_hook found seen, folded sn_def, unfolded Let_def]
  have ptr: "ptr < length hooks" "h = hooks ! ptr" "hs = drop (ptr + 1) hooks"
    using Cons.prems(1,2) by (metis drop_all leI list.distinct(1), metis drop_all leI list.distinct(1) nth_via_drop, metis drop_Suc tl_drop list.sel(3) Suc_eq_plus1)
  have seen: "sn \<longleftrightarrow> (\<exists>i. last_hook = Some i \<and> i < ptr + 1)" using Cons.prems(3) by (auto simp: sn_def)
  note IH = Cons.IH [OF _ ptr(3) seen]
  have old: "j < ptr \<and> l = level (hooks ! j)" if "(l, j) \<in> ?P ptr" for l j using that by (auto simp: pending_def)
  have high: "lcl < l" if "(l, j) \<in> ?P ptr" for l j
  proof (cases found)
    case (Some a)
    then obtain la where la: "(la, fst a) \<in> ?P ptr" "\<forall>x \<in> ?P ptr. (la, fst a) \<le> x" using Cons.prems(4) by (auto simp: least_def)
    then have "(la, fst a) \<le> (l, j)" using that by blast
    then show ?thesis using la(1) old Cons.prems(5) Some by (cases a) (auto simp: less_eq_prod_def)
  qed (use that Cons.prems(4) in \<open>simp add: least_def\<close>)
  have skip: "least (?P (length hooks)) (find_hook hs (ptr + 1) lv last_level lcl last_hook found sn)" if "?P (ptr + 1) = ?P ptr"
    using IH [of found] ptr(1) Cons.prems(4,5) that by simp
  consider "lv < level h \<or> level h < lcl"
    | l j where "\<not> lv < level h" "\<not> level h < lcl" "found = Some (j, l)" "l \<le> level h"
    | "\<not> lv < level h" "lcl < level h" "\<forall>j l. found = Some (j, l) \<longrightarrow> level h < l"
    | "\<not> lv < level h" "level h = lcl" "\<forall>j l. found = Some (j, l) \<longrightarrow> level h < l"
    by (metis linorder_less_linear linorder_not_less surj_pair)
  then show ?case
  proof cases
    case 1
    then have "?P (ptr + 1) = ?P ptr" by (auto simp: pending_Suc ptr(2))
    then show ?thesis unfolding step using 1 skip by auto
  next
    case 2
    have "lcl < level h" using 2(3,4) Cons.prems(5) by fastforce
    then have ins: "?P (ptr + 1) = insert (level h, ptr) (?P ptr)" using 2(1) by (auto simp: pending_Suc ptr(2))
    have "(l', j) \<le> (level h, ptr)" if "(l', j) \<in> ?P ptr" for l'
      using old [OF that] 2(3,4) Cons.prems(5) by (auto simp: less_eq_prod_def)
    then have "least (?P (ptr + 1)) (map_option fst found)"
      using Cons.prems(4) 2(3) unfolding ins by (simp add: least_keep)
    then have "least (?P (length hooks)) (find_hook hs (ptr + 1) lv last_level lcl last_hook found sn)"
      using IH [of found] ptr(1) Cons.prems(5) by simp
    then show ?thesis unfolding step using 2 by simp
  next
    case 3
    then have ins: "?P (ptr + 1) = insert (level h, ptr) (?P ptr)" by (auto simp: pending_Suc ptr(2))
    have "(level h, ptr) \<le> y" if y: "y \<in> ?P ptr" for y
    proof (cases found)
      case (Some a)
      then obtain l where "(l, fst a) \<in> ?P ptr" "(l, fst a) \<le> y" using Cons.prems(4) y by (auto simp: least_def simp del: less_eq_prod_simp)
      moreover have "level h < l" using 3(3) Some calculation(1) old Cons.prems(5) by (cases a) auto
      ultimately show ?thesis by (cases y) (auto simp: less_eq_prod_def)
    qed (use y Cons.prems(4) in \<open>simp add: least_def\<close>)
    then have new: "least (?P (ptr + 1)) (map_option fst (Some (ptr, level h)))" unfolding ins by (simp add: least_new)
    have "least (?P (length hooks)) (find_hook hs (ptr + 1) lv last_level lcl last_hook (Some (ptr, level h)) sn)"
      by (rule IH [OF _ new]) (use ptr(1) 3(2) in \<open>auto simp: ptr(2)\<close>)
    moreover have "\<not> (case found of None \<Rightarrow> False | Some (_, l) \<Rightarrow> l \<le> level h)" using 3(3) by (simp add: not_le split: option.splits)
    moreover have "last_level < level h" "\<not> level h < lcl" using assms(1) 3(2) by auto
    ultimately show ?thesis unfolding step using 3(1,2) by simp
  next
    case 4
    have nf: "\<not> (case found of None \<Rightarrow> False | Some (_, l) \<Rightarrow> l \<le> level h)" using 4(3) by (simp add: not_le split: option.splits)
    show ?thesis
    proof (cases "Some ptr \<noteq> last_hook \<and> seen")
      case True
      then have "(lcl, ptr) \<in> ?P (length hooks)" using 4(1,2) ptr Cons.prems(3) by (auto simp: pending_def)
      moreover have "(lcl, ptr) \<le> (l, j)" if "(l, j) \<in> ?P (length hooks)" for l j
      proof (cases "j < ptr")
        case True
        then have "(l, j) \<in> ?P ptr" using that by (auto simp: pending_def)
        then show ?thesis using high by (simp add: less_eq_prod_def)
      qed (use that in \<open>auto simp: pending_def less_eq_prod_def\<close>)
      ultimately have "least (?P (length hooks)) (Some ptr)" by (auto simp: least_def)
      then show ?thesis unfolding step using True 4(1,2) nf by (simp add: sn_def)
    next
      case False
      then have "?P (ptr + 1) = ?P ptr" using 4 Cons.prems(3) by (auto simp: pending_Suc ptr(2))
      moreover have "\<not> (Some ptr \<noteq> last_hook \<and> sn)" using False by (auto simp: sn_def)
      ultimately show ?thesis unfolding step using skip 4(1,2) nf by auto
    qed
  qed
qed

lemma finite_pending: "finite (pending hooks lv lcl last_hook n)"
  by (rule finite_subset [of _ "(\<lambda>j. (level (hooks ! j), j)) ` {..<n}"]) (auto simp: pending_def)

lemma least_Min:
  assumes "finite S" "least S r"
  shows "r = (if S = {} then None else Some (snd (Min S)))"
proof (cases r)
  case (Some j)
  then obtain l where l: "(l, j) \<in> S" "\<forall>x \<in> S. (l, j) \<le> x" using assms(2) by (auto simp: least_def)
  then have "Min S = (l, j)" using assms(1) by (intro Min_eqI) blast+
  then show ?thesis using Some l(1) by auto
qed (use assms(2) in \<open>simp add: least_def\<close>)

lemma find_hook_Min:
  assumes "last_level \<le> lcl"
  shows "find_hook hooks 0 lv last_level lcl last_hook None False =
     (let S = pending hooks lv lcl last_hook (length hooks) in if S = {} then None else Some (snd (Min S)))"
  unfolding Let_def
  by (rule least_Min [OF finite_pending], rule find_hook_least [OF assms])
    (simp_all add: least_def pending_def)

lemma pending_next:
  assumes "S = pending hooks lv lcl last_hook n" "S \<noteq> {}" "Min S = (l, j)"
  shows "j < n" "l = level (hooks ! j)" "lcl \<le> l" "S - {Min S} = pending hooks lv l (Some j) n"
proof -
  have fin: "finite S" using assms(1) finite_pending by blast
  have mem: "(l, j) \<in> S" using Min_in [OF fin assms(2)] assms(3) by simp
  have le: "(l, j) \<le> x" if "x \<in> S" for x using Min_le [OF fin that] assms(3) by simp
  show "j < n" "l = level (hooks ! j)" "lcl \<le> l" using mem assms(1) by (auto simp: pending_def)
  show "S - {Min S} = pending hooks lv l (Some j) n"
  proof (intro set_eqI iffI)
    fix x assume x: "x \<in> S - {Min S}"
    then obtain k where k: "x = (level (hooks ! k), k)" "k < n" "level (hooks ! k) \<le> lv" using assms(1) by (auto simp: pending_def)
    have "(l, j) \<le> x" "x \<noteq> (l, j)" using x le assms(3) by auto
    then show "x \<in> pending hooks lv l (Some j) n" using k by (auto simp: pending_def)
  next
    fix x assume "x \<in> pending hooks lv l (Some j) n"
    then show "x \<in> S - {Min S}" using mem assms(1,3) by (auto simp: pending_def)
  qed
qed

lemma run_hooks_pending:
  "last_level \<le> lcl \<Longrightarrow> run_hooks hooks lv last_level lcl last_hook s =
     call_hooks (map (\<lambda>x. hooks ! snd x) (sorted_list_of_set (pending hooks lv lcl last_hook (length hooks)))) s"
proof (induction "card (pending hooks lv lcl last_hook (length hooks))" arbitrary: lcl last_hook s)
  case 0
  then have "pending hooks lv lcl last_hook (length hooks) = {}" using card_0_eq [OF finite_pending, of hooks lv lcl last_hook "length hooks"] by simp
  then show ?case by (subst run_hooks.simps) (simp add: find_hook_Min [OF 0(2)])
next
  case (Suc n)
  define S where "S = pending hooks lv lcl last_hook (length hooks)"
  have S: "S \<noteq> {}" "finite S" using Suc.hyps(2) finite_pending by (auto simp: S_def)
  obtain l j where m: "Min S = (l, j)" by (cases "Min S")
  note nx = pending_next [OF S_def S(1) m]
  have "n = card (pending hooks lv l (Some j) (length hooks))"
    using Suc.hyps(2) S Min_in [OF S(2,1)] unfolding nx(4) [symmetric] by (simp add: S_def [symmetric])
  then have IH: "run_hooks hooks lv last_level l (Some j) =
      call_hooks (map (\<lambda>x. hooks ! snd x) (sorted_list_of_set (S - {(l, j)})))"
    using Suc.hyps(1) [of l "Some j"] Suc.prems nx(3) unfolding nx(4) [unfolded m] by (intro ext) simp
  have "sorted_list_of_set S = Min S # sorted_list_of_set (S - {Min S})" using S by (rule sorted_list_of_set_nonempty [rotated])
  then show ?case
    by (subst run_hooks.simps)
      (simp add: find_hook_Min [OF Suc.prems] S_def [symmetric] S m IH nx(2) [symmetric] Let_def cong: option.case_cong sum.case_cong)
qed

section \<open>The table in order\<close>

lemma insort_tagged: "(\<forall>y \<in> set ys. x < y) \<Longrightarrow> insort_key f x ys = insort_key (\<lambda>j. (f j, j)) x ys"
  for f :: "nat \<Rightarrow> u32"
  by (induction ys) auto

lemma sort_tagged: "sorted_wrt (<) xs \<Longrightarrow> sort_key f xs = sort_key (\<lambda>j. (f j, j)) xs"
  for f :: "nat \<Rightarrow> u32"
  by (induction xs) (simp_all add: insort_tagged)

lemma sort_key_map: "sort_key f (map g xs) = map g (sort_key (f \<circ> g) xs)"
proof (induction xs)
  case (Cons x xs)
  have "insort_key f (g x) (map g ys) = map g (insort_key (f \<circ> g) x ys)" for ys by (induction ys) auto
  then show ?case using Cons by (simp add: comp_def)
qed simp

lemma due_pending:
  "due from to hooks = map (\<lambda>x. hooks ! snd x) (sorted_list_of_set (pending hooks to from None (length hooks)))"
proof -
  let ?f = "\<lambda>j. level (hooks ! j)" and ?Q = "\<lambda>h. from < level h \<and> level h \<le> to"
  let ?xs = "filter (\<lambda>j. ?Q (hooks ! j)) [0..<length hooks]"
  let ?ys = "map (\<lambda>j. (?f j, j)) (sort_key ?f ?xs)"
  have "filter ?Q hooks = map ((!) hooks) ?xs"
    using filter_map [of ?Q "(!) hooks" "[0..<length hooks]"] by (simp add: map_nth comp_def)
  then have "due from to hooks = map ((!) hooks) (sort_key ?f ?xs)" by (simp add: due_def sort_key_map comp_def)
  moreover have "sort_key ?f ?xs = sort_key (\<lambda>j. (?f j, j)) ?xs" by (rule sort_tagged) (simp add: sorted_wrt_filter)
  then have "sorted ?ys" by simp
  moreover have "distinct ?ys" by (simp add: distinct_map inj_on_def)
  moreover have "set ?ys = pending hooks to from None (length hooks)" by (auto simp: pending_def)
  ultimately show ?thesis using sorted_list_of_set.idem_if_sorted_distinct [of ?ys] by (simp add: comp_def)
qed

lemma due_append:
  assumes "a \<le> b" "b \<le> c"
  shows "due a b hooks @ due b c hooks = due a c hooks"
proof -
  let ?S = "\<lambda>x y. pending hooks y x None (length hooks)"
  let ?l = "sorted_list_of_set (?S a b) @ sorted_list_of_set (?S b c)"
  have less: "x < y" if "x \<in> ?S a b" "y \<in> ?S b c" for x y using that by (auto simp: pending_def)
  have "?S a c = ?S a b \<union> ?S b c" using assms by (auto simp: pending_def)
  then have "set ?l = ?S a c" by (simp add: finite_pending)
  moreover have "sorted ?l" "distinct ?l"
    using less by (auto simp: sorted_append finite_pending intro: order.strict_implies_order)
  ultimately show ?thesis using sorted_list_of_set.idem_if_sorted_distinct [of ?l] by (simp add: due_pending flip: map_append)
qed

lemma call_hooks_append:
  "call_hooks (xs @ ys) s = Option.bind (call_hooks xs s) (\<lambda>r. case r of Inl e \<Rightarrow> Some (Inl e) | Inr s \<Rightarrow> call_hooks ys s)"
  by (induction xs arbitrary: s) (auto split: Option.bind_split sum.splits)

lemma fw_init_run_due:
  "fw_init_run hooks lv (last_level, s) = map_option (map_sum id (Pair lv)) (call_hooks (due last_level lv hooks) s)"
  by (simp add: fw_init_run_def run_hooks_pending due_pending)

section \<open>Properties\<close>

text \<open>
  C27. \<open>fw_init_run\<close> is a stable sort: it calls the hooks of the levels above those of the last call and up to the given one, ordered by
  level, those of the same level in the order of the table, each exactly once, and stops with the first hook that faults or
  does not return; when all return, it returns.
\<close>

theorem fw_init_run_sorts:
  "fw_init_run hooks lv (last_level, s) = map_option (map_sum id (Pair lv)) (call_hooks (due last_level lv hooks) s)"
  by (rule fw_init_run_due)

end
