(* ===== verification/Top_Boot.thy ===== *)
theory Top_Boot
  imports Top_Init Arch_Arm FW_Result
begin

text \<open>
  Start-up: \<open>firmware_main\<close> of \<^verbatim>\<open>src/top/main.c\<close> with \<open>arch_early_init\<close> and the hook for the idle thread of
  \<^verbatim>\<open>src/arch/arm-m/arch.c\<close>, \<open>systick_get_timer\<close> of \<^verbatim>\<open>src/arch/arm-m/systick.c\<close> and \<open>console_spawn\<close> of \<^verbatim>\<open>src/lib/console/console.c\<close>.

  \<^item> \<open>boot\<close> has the kernel, the table of handlers, the two stack pointers, the consoles, and the state \<open>'p\<close> of platform and target.
  \<^item> \<open>layout\<close> has what the linker decides: addresses of the heap, of stacks, functions and names, and the sizes of structures.
  \<^item> The functions of platform and target are weak symbols, which a build replaces: \<open>port\<close>. Messages to the log are left out.
\<close>

section \<open>State\<close>

record console =
  con_file :: nat
  con_thread :: nat

record 'p boot =
  bkern :: kernel
  irqs :: irq_table
  systick_initialized :: bool
  bpsp :: nat
  bmsp :: nat
  consoles :: "nat \<Rightarrow> console"
  global_console :: nat
  bport :: 'p

record layout =
  HeapStart :: nat
  MainStackTop :: nat
  isr_stack :: nat
  idle_stack :: nat
  idle_thread_struct :: nat
  arch_idle_thread :: u32
  error_handler :: nat
  systick_handler :: nat
  console_main :: u32
  sizeof_thread :: nat
  sizeof_console :: nat
  name_main :: nat
  name_idle :: nat
  name_console :: nat

abbreviation STACK_SIZE_MAIN :: nat where "STACK_SIZE_MAIN \<equiv> 2048"
abbreviation STACK_SIZE_ISR :: nat where "STACK_SIZE_ISR \<equiv> 2048"
abbreviation STACK_SIZE_CONSOLE :: nat where "STACK_SIZE_CONSOLE \<equiv> STACK_SIZE_MAIN"
abbreviation IRQ_HARDFAULT :: u8 where "IRQ_HARDFAULT \<equiv> 3"
abbreviation IRQ_SYSTICK :: u8 where "IRQ_SYSTICK \<equiv> 6"

definition on_kernel :: "(kernel \<Rightarrow> kernel) \<Rightarrow> 'p boot \<Rightarrow> 'p boot" where
  "on_kernel f b = b\<lparr>bkern := f (bkern b)\<rparr>"

section \<open>The code\<close>

definition systick_init :: "layout \<Rightarrow> 'p boot \<Rightarrow> 'p boot res" where
  "systick_init L b =
     (case irq_register IRQ_SYSTICK (systick_handler L) (irqs b) of
        (False, _) \<Rightarrow> Some (Inl Assert_Failed)
      | (True, es) \<Rightarrow> ok (b\<lparr>irqs := es, systick_initialized := True\<rparr>))"

definition systick_get_timer :: "layout \<Rightarrow> 'p boot \<Rightarrow> 'p boot res" where
  "systick_get_timer L b = (if \<not> systick_initialized b then systick_init L b else ok b)"

definition arch_early_init :: "layout \<Rightarrow> 'p boot \<Rightarrow> 'p boot res" where
  "arch_early_init L b =
     rbind (malloc_init (HeapStart L) (sub32 (MainStackTop L) STACK_SIZE_MAIN) (heap (bkern b))) (\<lambda>hp.
     let b = on_kernel (\<lambda>k. k\<lparr>heap := hp\<rparr>) b;
         b = b\<lparr>bpsp := bmsp b\<rparr>;
         b = b\<lparr>bmsp := isr_stack L + STACK_SIZE_ISR - 1\<rparr>
     in systick_get_timer L b)"

definition arch_init_idle_thread :: "layout \<Rightarrow> u32 \<Rightarrow> 'p boot \<Rightarrow> 'p boot res" where
  "arch_init_idle_thread L lv b =
     (let b = b\<lparr>irqs := snd (irq_register IRQ_HARDFAULT (error_handler L) (irqs b))\<rparr> in
      rbind (thread_struct_init (idle_thread_struct L) (name_idle L) 68 (idle_stack L) (bkern b)) (\<lambda>k.
      let k = thread_set_function_v (idle_thread_struct L) (arch_idle_thread L) 0 0 k;
          k = scheduler_set_idle_thread (idle_thread_struct L) k
      in ok (b\<lparr>bkern := k\<rparr>)))"

definition idle_hook :: "layout \<Rightarrow> 'p boot fw_init_hook" where
  "idle_hook L = \<lparr>level = kFWInitLevelThreading, hook = arch_init_idle_thread L\<rparr>"

definition console_spawn :: "layout \<Rightarrow> nat \<Rightarrow> 'p boot \<Rightarrow> (nat \<times> 'p boot) res" where
  "console_spawn L file b =
     (if file = 0 then Some (Inl Assert_Failed)
      else rbind (malloc_raw (sizeof_console L) (heap (bkern b))) (\<lambda>(p, hp).
        let b = on_kernel (\<lambda>k. k\<lparr>heap := hp\<rparr>) b in
        case p of
          None \<Rightarrow> ok (0, b)
        | Some con \<Rightarrow>
            let b = b\<lparr>consoles := (consoles b)(con := (consoles b con)\<lparr>con_file := file\<rparr>)\<rparr> in
            rbind (thread_create (sizeof_thread L) (name_console L) STACK_SIZE_CONSOLE 0 (bkern b)) (\<lambda>(t, k).
            let b = b\<lparr>bkern := k, consoles := (consoles b)(con := (consoles b con)\<lparr>con_thread := t\<rparr>)\<rparr> in
            if t = 0 then ok (0, b)
            else let b = on_kernel (thread_set_function_v t (console_main L) 1 (of_nat con)) b;
                     b = on_kernel (thread_wakeup t) b;
                     b = b\<lparr>global_console := con\<rparr>
                 in ok (con, b))))"

record 'p port =
  platform_early_init :: "'p boot \<Rightarrow> 'p boot res"
  target_early_init :: "'p boot \<Rightarrow> 'p boot res"
  platform_init :: "'p boot \<Rightarrow> 'p boot res"
  target_init :: "'p boot \<Rightarrow> 'p boot res"
  target_main :: "'p boot \<Rightarrow> 'p boot res"

text \<open>\<open>firmware_main\<close> up to the endless loop at its end; \<open>last_level\<close> is the variable of \<^verbatim>\<open>init.c\<close>.\<close>

definition firmware_main ::
    "layout \<Rightarrow> 'p port \<Rightarrow> 'p boot fw_init_hook list \<Rightarrow> nat \<Rightarrow> 'p boot \<Rightarrow> 'p boot res" where
  "firmware_main L P hooks debug_serial b =
     (let b = on_kernel scheduler_enter_isr b in
      rbind (fw_init_run hooks kFWInitLevelEarliest (0, b)) (\<lambda>(last_level, b).
      let b = on_kernel thread_early_init b in
      rbind (arch_early_init L b) (\<lambda>b.
      rbind (platform_early_init P b) (\<lambda>b.
      rbind (target_early_init P b) (\<lambda>b.
      rbind (scheduler_init (sizeof_thread L) (name_main L) (bkern b)) (\<lambda>k.
      rbind (fw_init_run hooks kFWInitLevelThreading (last_level, b\<lparr>bkern := k\<rparr>)) (\<lambda>(last_level, b).
      let b = on_kernel scheduler_leave_isr b in
      rbind (platform_init P b) (\<lambda>b.
      rbind (target_init P b) (\<lambda>b.
      rbind (console_spawn L debug_serial b) (\<lambda>(_, b).
      rbind (fw_init_run hooks kFWInitLevelLast (last_level, b)) (\<lambda>(_, b).
      rbind (target_main P b) (\<lambda>b.
      ok (on_kernel thread_block b)))))))))))))"

section \<open>Allocating from one block\<close>

definition single :: "nat \<Rightarrow> nat \<Rightarrow> mheap \<Rightarrow> bool" where
  "single a n s \<longleftrightarrow> wf_heap s [a] \<and> hsize s a = n"

lemma single_init:
  assumes "free_head s = None" "0 < a" "a + 8 \<le> z" "z < 2 ^ 32"
  shows "\<exists>s'. malloc_init a z s = ok s' \<and> single a (z - a) s'"
  using free_raw_empty [OF assms(1), of a "z - a"] assms(2-) by (auto simp: malloc_init_def single_def block_ok_def)

lemma single_malloc:
  assumes "single a n s" "8 \<le> sz" "sz + 8 \<le> n"
  shows "\<exists>s'. malloc_raw sz s = ok (Some a, s') \<and> single (a + sz) (n - sz) s'"
proof -
  have a: "block_ok (a, n)" using assms(1) by (auto simp: single_def wf_heap_def)
  obtain s1 where s1: "malloc_raw sz s = malloc_raw_split a sz s1" "wf_heap s1 []" "hsize s1 = hsize s"
    using malloc_raw_first_fit [of s "[]" a "[]" sz] assms by (auto simp: single_def)
  have ok: "block_ok (a + sz, n - sz)" using a assms(2,3) by (simp add: block_ok_def)
  obtain s2 where s2: "free_raw (Some (a + sz)) (n - sz) s1 = ok s2" "wf_heap s2 [a + sz]" "blocks s2 [a + sz] = [(a + sz, n - sz)]"
    using free_raw_empty [OF _ ok, of s1] s1(2) by (auto simp: wf_heap_def)
  have ar: "add32 a sz = a + sz" "sub32 n sz = n - sz" using a assms(3) by (simp_all add: block_ok_def)
  have "malloc_raw sz s = ok (Some a, put_size a (sub32 (hsize s2 a) sz) s2)"
    using s1 s2(1) assms(1,3) ar a by (simp add: malloc_raw_split_def single_def block_ok_def)
  moreover have "single (a + sz) (n - sz) (put_size a v s2)" for v
    using wf_put_size [OF s2(2), of a v] s2(3) assms(2) by (auto simp: single_def)
  ultimately show ?thesis by blast
qed

section \<open>Threads\<close>

definition same_sched :: "kernel \<Rightarrow> kernel \<Rightarrow> bool" where
  "same_sched k k' \<longleftrightarrow> running_queue k' = running_queue k \<and> current_thread k' = current_thread k \<and> idle_thread k' = idle_thread k
     \<and> in_isr_count k' = in_isr_count k \<and> pend_sv k' = pend_sv k"

text \<open>\<open>k'\<close> is \<open>k\<close> with the new thread \<open>t\<close>.\<close>

definition with_thread :: "nat \<Rightarrow> thread \<Rightarrow> kernel \<Rightarrow> kernel \<Rightarrow> bool" where
  "with_thread t th k k' \<longleftrightarrow> same_sched k k' \<and> threads k' = (threads k)(t := th\<lparr>tid := next_tid k, tstate := THREAD_STATE_STOPPED\<rparr>)
     \<and> next_tid k' = next_tid k + 1 \<and> thread_list k' = seq_append t (thread_list k)"

lemmas thread_defs = thread_struct_init_def upd_thread_def scheduler_thread_data_init_def
  thread_stack_utilisation_reset_def put_mem_def with_thread_def same_sched_def

lemma thread_create_main:
  assumes "single a n (heap k)" "8 \<le> sz" "sz + 8 \<le> n"
  shows "\<exists>k'. thread_create sz nm 0 0 k = ok (a, k') \<and> with_thread a (zero_thread\<lparr>tname := nm\<rparr>) k k' \<and> single (a + sz) (n - sz) (heap k')"
proof -
  obtain hp where "malloc_raw sz (heap k) = ok (Some a, hp)" "single (a + sz) (n - sz) hp" using single_malloc [OF assms] by blast
  then show ?thesis by (simp add: thread_create_def thread_defs Let_def zero_thread_def)
qed

lemma thread_create_stack:
  assumes "single a n (heap k)" "8 \<le> sz" "4 \<le> ss" "sz + (ss + 4) + 8 \<le> n"
  shows "\<exists>k'. thread_create sz nm ss 0 k = ok (a, k')
     \<and> with_thread a (zero_thread\<lparr>tname := nm, stack := a + sz + ss, stack_protector := a + sz, stack_size := ss\<rparr>) k k'
     \<and> single (a + sz + (ss + 4)) (n - sz - (ss + 4)) (heap k')"
proof -
  obtain hp where hp: "malloc_raw sz (heap k) = ok (Some a, hp)" "single (a + sz) (n - sz) hp"
    using single_malloc [OF assms(1,2)] assms(4) by auto
  have "ss + 4 + 8 \<le> n - sz" using assms(4) by linarith
  then obtain hp' where hp': "malloc_raw (ss + 4) hp = ok (Some (a + sz), hp')" "single (a + sz + (ss + 4)) (n - sz - (ss + 4)) hp'"
    using single_malloc [OF hp(2), of "ss + 4"] assms(3) by auto
  have "block_ok (a, n)" using assms(1) by (auto simp: single_def wf_heap_def)
  then have "add32 ss 4 = ss + 4" "add32 (a + sz) ss = a + sz + ss" using assms(4) by (simp_all add: block_ok_def)
  then show ?thesis using hp hp' assms(3) by (auto simp: thread_create_def thread_defs Let_def zero_thread_def)
qed

lemma set_function_fields:
  "same_sched k (thread_set_function_v t f n x k)" "heap (thread_set_function_v t f n x k) = heap k"
  "thread_list (thread_set_function_v t f n x k) = thread_list k" "next_tid (thread_set_function_v t f n x k) = next_tid k"
  "\<exists>st. threads (thread_set_function_v t f n x k) = (threads k)(t := (threads k t)\<lparr>stack := st\<rparr>)"
  by (auto simp: thread_set_function_v_def same_sched_def upd_thread_def put_mem_def Let_def)

lemma wakeup_fields:
  assumes "tstate (threads k t) = THREAD_STATE_STOPPED"
  shows "threads (thread_wakeup t k) = (threads k)(t := (threads k t)\<lparr>tstate := THREAD_STATE_RUNNING\<rparr>)"
    "running_queue (thread_wakeup t k) = seq_append t (running_queue k)"
    "current_thread (thread_wakeup t k) = current_thread k" "idle_thread (thread_wakeup t k) = idle_thread k"
    "in_isr_count (thread_wakeup t k) = in_isr_count k" "heap (thread_wakeup t k) = heap k"
    "thread_list (thread_wakeup t k) = thread_list k" "next_tid (thread_wakeup t k) = next_tid k"
    "pend_sv k \<Longrightarrow> pend_sv (thread_wakeup t k)"
  using assms by (simp_all add: thread_wakeup_def thread_set_state_def scheduler_thread_changed_state_def upd_thread_def scheduler_lock_def
      scheduler_unlock_def yield_def Let_def)

section \<open>The stages\<close>

lemma early_stage:
  assumes "free_head (heap (bkern b)) = None" "0 < HeapStart L" "HeapStart L + 8 \<le> z" "z < 2 ^ 32"
    and "sub32 (MainStackTop L) STACK_SIZE_MAIN = z" "\<not> systick_initialized b" "6 < length (irqs b)" "irqs b ! 6 = 0"
  shows "\<exists>hp. arch_early_init L b = ok (b\<lparr>bkern := (bkern b)\<lparr>heap := hp\<rparr>, bpsp := bmsp b, bmsp := 2047 + isr_stack L,
       irqs := (irqs b)[6 := systick_handler L], systick_initialized := True\<rparr>) \<and> single (HeapStart L) (z - HeapStart L) hp"
proof -
  obtain hp where "malloc_init (HeapStart L) z (heap (bkern b)) = ok hp" "single (HeapStart L) (z - HeapStart L) hp"
    using single_init [OF assms(1-4)] by blast
  then show ?thesis using assms(5-8)
    by (intro exI [of _ hp]) (simp add: arch_early_init_def on_kernel_def systick_get_timer_def systick_init_def irq_register_def)
qed

lemma scheduler_stage:
  assumes "single a n (heap k)" "8 \<le> sz" "sz + 8 \<le> n" "a \<noteq> 0"
  shows "\<exists>k'. scheduler_init sz nm k = ok k' \<and> single (a + sz) (n - sz) (heap k') \<and> running_queue k' = [a] \<and> current_thread k' = a
     \<and> thread_list k' = seq_append a (thread_list k) \<and> next_tid k' = next_tid k + 1 \<and> idle_thread k' = idle_thread k
     \<and> in_isr_count k' = in_isr_count k \<and> pend_sv k'
     \<and> threads k' = (threads k)(a := zero_thread\<lparr>tname := nm, tid := next_tid k, tstate := THREAD_STATE_RUNNING\<rparr>)"
proof -
  obtain k1 where k1: "thread_create sz nm 0 0 (k\<lparr>running_queue := []\<rparr>) = ok (a, k1)"
    "with_thread a (zero_thread\<lparr>tname := nm\<rparr>) (k\<lparr>running_queue := []\<rparr>) k1" "single (a + sz) (n - sz) (heap k1)"
    using thread_create_main [of a n "k\<lparr>running_queue := []\<rparr>" sz nm] assms(1-3) by auto
  have st: "tstate (threads (k1\<lparr>current_thread := a\<rparr>) a) = THREAD_STATE_STOPPED" using k1(2) by (simp add: with_thread_def)
  show ?thesis using k1 assms(4) wakeup_fields [OF st]
    by (simp add: scheduler_init_def with_thread_def same_sched_def yield_def seq_append_def zero_thread_def)
qed

lemma idle_stage:
  assumes "0 < idle_stack L"
  shows "\<exists>k'. arch_init_idle_thread L lv b =
       ok (b\<lparr>irqs := snd (irq_register IRQ_HARDFAULT (error_handler L) (irqs b)), bkern := k'\<rparr>)
     \<and> running_queue k' = running_queue (bkern b) \<and> current_thread k' = current_thread (bkern b) \<and> idle_thread k' = idle_thread_struct L
     \<and> in_isr_count k' = in_isr_count (bkern b) \<and> pend_sv k' = pend_sv (bkern b) \<and> heap k' = heap (bkern b)
     \<and> thread_list k' = seq_append (idle_thread_struct L) (thread_list (bkern b)) \<and> next_tid k' = next_tid (bkern b) + 1
     \<and> (\<exists>st. threads k' = (threads (bkern b))(idle_thread_struct L := zero_thread\<lparr>tname := name_idle L, tid := next_tid (bkern b),
           tstate := THREAD_STATE_STOPPED, stack := st\<rparr>))"
proof -
  let ?i = "idle_thread_struct L" and ?k = "bkern b"
  obtain k1 where k1: "thread_struct_init ?i (name_idle L) 68 (idle_stack L) ?k = ok k1" "heap k1 = heap ?k"
    "with_thread ?i (zero_thread\<lparr>tname := name_idle L, stack := sub32 (add32 (idle_stack L) 68) 4\<rparr>) ?k k1"
    using assms by (simp add: thread_defs Let_def zero_thread_def)
  let ?k2 = "thread_set_function_v ?i (arch_idle_thread L) 0 0 k1"
  obtain st where "threads ?k2 = (threads k1)(?i := (threads k1 ?i)\<lparr>stack := st\<rparr>)" using set_function_fields(5) by blast
  then have "threads ?k2 = (threads ?k)(?i := zero_thread\<lparr>tname := name_idle L, tid := next_tid ?k, tstate := THREAD_STATE_STOPPED, stack := st\<rparr>)"
    using k1(3) by (simp add: with_thread_def)
  moreover have "arch_init_idle_thread L lv b =
      ok (b\<lparr>irqs := snd (irq_register IRQ_HARDFAULT (error_handler L) (irqs b)), bkern := ?k2\<lparr>idle_thread := ?i\<rparr>\<rparr>)"
    by (simp add: arch_init_idle_thread_def k1(1) scheduler_set_idle_thread_def)
  ultimately show ?thesis
    using k1(2,3)
    by (intro exI [of _ "?k2\<lparr>idle_thread := ?i\<rparr>"])
      (auto simp: with_thread_def same_sched_def set_function_fields(2-4) set_function_fields(1) [unfolded same_sched_def])
qed

lemma console_stage:
  assumes "ds \<noteq> 0" "single a n (heap (bkern b))" "8 \<le> sizeof_console L" "8 \<le> sizeof_thread L" "a \<noteq> 0"
    and "sizeof_console L + sizeof_thread L + (STACK_SIZE_CONSOLE + 4) + 8 \<le> n"
    and t: "t = a + sizeof_console L"
  shows "\<exists>b'. console_spawn L ds b = ok (a, b') \<and> running_queue (bkern b') = seq_append t (running_queue (bkern b))
     \<and> current_thread (bkern b') = current_thread (bkern b) \<and> idle_thread (bkern b') = idle_thread (bkern b)
     \<and> in_isr_count (bkern b') = in_isr_count (bkern b) \<and> (pend_sv (bkern b) \<longrightarrow> pend_sv (bkern b'))
     \<and> thread_list (bkern b') = seq_append t (thread_list (bkern b))
     \<and> (\<exists>th. threads (bkern b') = (threads (bkern b))(t := th) \<and> tid th = next_tid (bkern b) \<and> tstate th = THREAD_STATE_RUNNING)
     \<and> single (t + sizeof_thread L + (STACK_SIZE_CONSOLE + 4)) (n - sizeof_console L - sizeof_thread L - (STACK_SIZE_CONSOLE + 4)) (heap (bkern b'))
     \<and> irqs b' = irqs b \<and> global_console b' = a \<and> consoles b' = (consoles b)(a := \<lparr>con_file = ds, con_thread = t\<rparr>)"
proof -
  obtain hp where hp: "malloc_raw (sizeof_console L) (heap (bkern b)) = ok (Some a, hp)" "single t (n - sizeof_console L) hp"
    using single_malloc [OF assms(2,3)] assms(6) t by auto
  let ?k0 = "(bkern b)\<lparr>heap := hp\<rparr>"
  have "sizeof_thread L + (STACK_SIZE_CONSOLE + 4) + 8 \<le> n - sizeof_console L" using assms(6) by linarith
  then obtain k1 where k1: "thread_create (sizeof_thread L) (name_console L) STACK_SIZE_CONSOLE 0 ?k0 = ok (t, k1)"
    "\<exists>th. with_thread t th ?k0 k1"
    "single (t + sizeof_thread L + (STACK_SIZE_CONSOLE + 4)) (n - sizeof_console L - sizeof_thread L - (STACK_SIZE_CONSOLE + 4)) (heap k1)"
    using thread_create_stack [of t "n - sizeof_console L" ?k0 "sizeof_thread L" STACK_SIZE_CONSOLE "name_console L"] hp(2) assms(4) by auto
  let ?k2 = "thread_set_function_v t (console_main L) 1 (of_nat a) k1"
  obtain st where st: "threads ?k2 = (threads k1)(t := (threads k1 t)\<lparr>stack := st\<rparr>)" using set_function_fields(5) by blast
  then have "tstate (threads ?k2 t) = THREAD_STATE_STOPPED" using k1(2) by (auto simp: with_thread_def)
  note wake = wakeup_fields [OF this]
  have "t \<noteq> 0" using t assms(3) by simp
  then show ?thesis using k1(2,3) wake st assms(1)
    by (auto simp: console_spawn_def hp(1) on_kernel_def k1(1) with_thread_def same_sched_def set_function_fields(2-4)
        set_function_fields(1) [unfolded same_sched_def])
qed

text \<open>A function of the port that returns, allocates \<open>d\<close> bytes and leaves threads, consoles and system exceptions alone.\<close>

definition uses :: "nat \<Rightarrow> ('p boot \<Rightarrow> 'p boot res) \<Rightarrow> bool" where
  "uses d f \<longleftrightarrow> (\<forall>b a n. single a n (heap (bkern b)) \<and> d + 8 \<le> n \<longrightarrow>
     (\<exists>b' hp. f b = ok b' \<and> bkern b' = (bkern b)\<lparr>heap := hp\<rparr> \<and> single (a + d) (n - d) hp \<and> length (irqs b') = length (irqs b)
       \<and> (\<forall>i \<le> 6. irqs b' ! i = irqs b ! i) \<and> consoles b' = consoles b \<and> global_console b' = global_console b))"

lemma usesD:
  assumes "uses d f" "single a n (heap (bkern b))" "d + 8 \<le> n"
  obtains b' hp where "f b = ok b'" "bkern b' = (bkern b)\<lparr>heap := hp\<rparr>" "single (a + d) (n - d) hp" "length (irqs b') = length (irqs b)"
    "\<forall>i \<le> 6. irqs b' ! i = irqs b ! i" "consoles b' = consoles b" "global_console b' = global_console b"
  using assms unfolding uses_def by blast

lemma due_idle:
  "due 0 kFWInitLevelEarliest [idle_hook L] = []" "due kFWInitLevelEarliest kFWInitLevelThreading [idle_hook L] = [idle_hook L]"
  "due kFWInitLevelThreading kFWInitLevelLast [idle_hook L] = []"
  by (simp_all add: due_def idle_hook_def word_le_nat_alt)

text \<open>The machine when the kernel runs: up to the end of the second \<open>fw_init_run\<close>, and from there to the end.\<close>

definition kernel_up :: "layout \<Rightarrow> nat \<Rightarrow> nat \<Rightarrow> nat \<Rightarrow> 'p boot \<Rightarrow> bool" where
  "kernel_up L m a n b \<longleftrightarrow> single a n (heap (bkern b)) \<and> running_queue (bkern b) = [m] \<and> current_thread (bkern b) = m
     \<and> idle_thread (bkern b) = idle_thread_struct L \<and> thread_list (bkern b) = [m, idle_thread_struct L] \<and> next_tid (bkern b) = 3
     \<and> tid (threads (bkern b) m) = 1 \<and> tid (threads (bkern b) (idle_thread_struct L)) = 2 \<and> tstate (threads (bkern b) m) = THREAD_STATE_RUNNING
     \<and> tstate (threads (bkern b) (idle_thread_struct L)) = THREAD_STATE_STOPPED \<and> in_isr_count (bkern b) = 1 \<and> pend_sv (bkern b)
     \<and> 6 < length (irqs b) \<and> irqs b ! 3 = error_handler L \<and> irqs b ! 6 = systick_handler L"

lemma first_half:
  assumes L: "0 < HeapStart L" "8 \<le> sizeof_thread L" "0 < idle_stack L"
    "sub32 (MainStackTop L) STACK_SIZE_MAIN = z" "z < 2 ^ 32" "HeapStart L + d1 + d2 + sizeof_thread L + 8 \<le> z"
    and i: "idle_thread_struct L \<noteq> HeapStart L + d1 + d2"
    and P: "uses d1 (platform_early_init P)" "uses d2 (target_early_init P)"
    and b: "free_head (heap (bkern b)) = None" "in_isr_count (bkern b) = 1" "irqs b = replicate N 0" "6 < N" "\<not> systick_initialized b"
    and m: "m = HeapStart L + d1 + d2"
  shows "\<exists>b'. rbind (arch_early_init L (on_kernel thread_early_init b)) (\<lambda>b.
      rbind (platform_early_init P b) (\<lambda>b.
      rbind (target_early_init P b) (\<lambda>b.
      rbind (scheduler_init (sizeof_thread L) (name_main L) (bkern b)) (\<lambda>k.
      fw_init_run [idle_hook L] kFWInitLevelThreading (kFWInitLevelEarliest, b\<lparr>bkern := k\<rparr>))))) = ok (kFWInitLevelThreading, b')
    \<and> kernel_up L m (m + sizeof_thread L) (z - (m + sizeof_thread L)) b'"
proof -
  obtain b1 where b1: "arch_early_init L (on_kernel thread_early_init b) = ok b1" "single (HeapStart L) (z - HeapStart L) (heap (bkern b1))"
    "thread_list (bkern b1) = []" "next_tid (bkern b1) = 1" "in_isr_count (bkern b1) = 1" "irqs b1 = (replicate N 0)[6 := systick_handler L]"
    using early_stage [of "on_kernel thread_early_init b" L z] L b by (auto simp: on_kernel_def thread_early_init_def)
  have c: "d1 + 8 \<le> z - HeapStart L" "d2 + 8 \<le> z - HeapStart L - d1" "sizeof_thread L + 8 \<le> z - HeapStart L - d1 - d2" using L(6) by linarith+
  obtain b2 hp2 where b2: "platform_early_init P b1 = ok b2" "bkern b2 = (bkern b1)\<lparr>heap := hp2\<rparr>" "single (HeapStart L + d1) (z - HeapStart L - d1) hp2"
    "length (irqs b2) = length (irqs b1)" "\<forall>i \<le> 6. irqs b2 ! i = irqs b1 ! i"
    by (rule usesD [OF P(1) b1(2) c(1)])
  have h2: "single (HeapStart L + d1) (z - HeapStart L - d1) (heap (bkern b2))" using b2(2,3) by simp
  obtain b3 hp3 where b3: "target_early_init P b2 = ok b3" "bkern b3 = (bkern b2)\<lparr>heap := hp3\<rparr>" "single m (z - HeapStart L - d1 - d2) hp3"
    "length (irqs b3) = length (irqs b2)" "\<forall>i \<le> 6. irqs b3 ! i = irqs b2 ! i"
    unfolding m by (rule usesD [OF P(2) h2 c(2)])
  have h3: "single m (z - HeapStart L - d1 - d2) (heap (bkern b3))" "m \<noteq> 0" using b3(2,3) L(1) m by simp_all
  have base: "thread_list (bkern b3) = []" "next_tid (bkern b3) = 1" "in_isr_count (bkern b3) = 1" using b1(3-5) b2(2) b3(2) by simp_all
  obtain k where k0: "scheduler_init (sizeof_thread L) (name_main L) (bkern b3) = ok k"
    "single (m + sizeof_thread L) (z - HeapStart L - d1 - d2 - sizeof_thread L) (heap k)" "running_queue k = [m]" "current_thread k = m"
    "thread_list k = seq_append m (thread_list (bkern b3))" "next_tid k = next_tid (bkern b3) + 1" "in_isr_count k = in_isr_count (bkern b3)" "pend_sv k"
    "threads k = (threads (bkern b3))(m := zero_thread\<lparr>tname := name_main L, tid := next_tid (bkern b3), tstate := THREAD_STATE_RUNNING\<rparr>)"
    using scheduler_stage [OF h3(1) L(2) c(3) h3(2), of "name_main L"] by blast
  have k: "thread_list k = [m]" "next_tid k = 2" "in_isr_count k = 1" "tid (threads k m) = 1" "tstate (threads k m) = THREAD_STATE_RUNNING"
    using k0(5-7,9) base by (simp_all add: seq_append_def)
  define b4 where "b4 = b3\<lparr>bkern := k\<rparr>"
  have irq: "length (irqs b4) = N" "irqs b4 ! 3 = 0" "irqs b4 ! 6 = systick_handler L"
    using b2(4,5) b3(4,5) b1(6) b(4) by (simp_all add: b4_def)
  obtain k' st where k': "arch_init_idle_thread L kFWInitLevelThreading b4 =
       ok (b4\<lparr>irqs := snd (irq_register IRQ_HARDFAULT (error_handler L) (irqs b4)), bkern := k'\<rparr>)"
     "running_queue k' = [m]" "current_thread k' = m" "idle_thread k' = idle_thread_struct L" "in_isr_count k' = 1" "pend_sv k'" "heap k' = heap k"
     "thread_list k' = seq_append (idle_thread_struct L) [m]" "next_tid k' = 3"
     "threads k' = (threads k)(idle_thread_struct L := zero_thread\<lparr>tname := name_idle L, tid := 2, tstate := THREAD_STATE_STOPPED, stack := st\<rparr>)"
    using idle_stage [OF L(3), of kFWInitLevelThreading b4] k(1-3) k0(3,4,8) by (auto simp: b4_def)
  have r: "snd (irq_register IRQ_HARDFAULT (error_handler L) (irqs b4)) = (irqs b4)[3 := error_handler L]"
    using irq b(4) by (simp add: irq_register_def)
  have "kernel_up L m (m + sizeof_thread L) (z - (m + sizeof_thread L)) (b4\<lparr>irqs := (irqs b4)[3 := error_handler L], bkern := k'\<rparr>)"
    using k0(2) k(4,5) k'(2-) irq b(4) i m by (auto simp: kernel_up_def seq_append_def)
  moreover have "fw_init_run [idle_hook L] kFWInitLevelThreading (kFWInitLevelEarliest, b4) =
      ok (kFWInitLevelThreading, b4\<lparr>irqs := (irqs b4)[3 := error_handler L], bkern := k'\<rparr>)"
    unfolding fw_init_run_due due_idle using k'(1) r by (simp add: idle_hook_def)
  ultimately show ?thesis by (simp add: b1(1) b2(1) b3(1) k0(1) b4_def [symmetric])
qed

definition started :: "layout \<Rightarrow> nat \<Rightarrow> 'p boot \<Rightarrow> bool" where
  "started L debug_serial b \<longleftrightarrow> (\<exists>m t. let k = bkern b; i = idle_thread_struct L in
       distinct [m, i, t] \<and> thread_list k = [m, i, t] \<and> map (\<lambda>u. tid (threads k u)) [m, i, t] = [1, 2, 3]
     \<and> map (\<lambda>u. tstate (threads k u)) [m, i, t] = [THREAD_STATE_BLOCKED, THREAD_STATE_STOPPED, THREAD_STATE_RUNNING]
     \<and> running_queue k = [t] \<and> current_thread k = m \<and> idle_thread k = i \<and> in_isr_count k = 0 \<and> pend_sv k
     \<and> current_thread (schedule_next k) = t
     \<and> consoles b (global_console b) = \<lparr>con_file = debug_serial, con_thread = t\<rparr>
     \<and> irqs b ! 3 = error_handler L \<and> irqs b ! 6 = systick_handler L)"

lemma block_fields:
  assumes "current_thread k = m" "tstate (threads k m) = THREAD_STATE_RUNNING"
  shows "threads (thread_block k) = (threads k)(m := (threads k m)\<lparr>tstate := THREAD_STATE_BLOCKED\<rparr>)"
    "running_queue (thread_block k) = remove1 m (running_queue k)" "current_thread (thread_block k) = m"
    "idle_thread (thread_block k) = idle_thread k" "in_isr_count (thread_block k) = in_isr_count k" "pend_sv (thread_block k)"
    "thread_list (thread_block k) = thread_list k"
  using assms by (simp_all add: thread_block_def thread_set_state_def scheduler_thread_changed_state_def upd_thread_def scheduler_lock_def
      scheduler_unlock_def yield_def Let_def)

lemma second_half:
  assumes L: "8 \<le> sizeof_thread L" "8 \<le> sizeof_console L" "ds \<noteq> 0" "m \<noteq> idle_thread_struct L" "m < a"
    and fit: "d3 + d4 + sizeof_console L + sizeof_thread L + (STACK_SIZE_CONSOLE + 4) + 8 \<le> n"
    and i: "idle_thread_struct L \<noteq> a + d3 + d4 + sizeof_console L"
    and P: "uses d3 (platform_init P)" "uses d4 (target_init P)" "uses 0 (target_main P)"
    and b: "kernel_up L m a n b"
  shows "\<exists>b'. rbind (platform_init P (on_kernel scheduler_leave_isr b)) (\<lambda>b.
      rbind (target_init P b) (\<lambda>b.
      rbind (console_spawn L ds b) (\<lambda>(_, b).
      rbind (fw_init_run [idle_hook L] kFWInitLevelLast (kFWInitLevelThreading, b)) (\<lambda>(_, b).
      rbind (target_main P b) (\<lambda>b. ok (on_kernel thread_block b)))))) = ok b' \<and> started L ds b'"
proof -
  let ?b0 = "on_kernel scheduler_leave_isr b" and ?i = "idle_thread_struct L"
  have h0: "single a n (heap (bkern ?b0))" using b by (simp add: kernel_up_def on_kernel_def scheduler_leave_isr_def)
  have c: "d3 + 8 \<le> n" "d4 + 8 \<le> n - d3" "sizeof_console L + sizeof_thread L + (STACK_SIZE_CONSOLE + 4) + 8 \<le> n - d3 - d4" using fit by linarith+
  obtain b1 hp1 where b1: "platform_init P ?b0 = ok b1" "bkern b1 = (bkern ?b0)\<lparr>heap := hp1\<rparr>" "single (a + d3) (n - d3) hp1"
    "length (irqs b1) = length (irqs ?b0)" "\<forall>i \<le> 6. irqs b1 ! i = irqs ?b0 ! i"
    by (rule usesD [OF P(1) h0 c(1)])
  have h1: "single (a + d3) (n - d3) (heap (bkern b1))" using b1(2,3) by simp
  obtain b2 hp2 where b2: "target_init P b1 = ok b2" "bkern b2 = (bkern b1)\<lparr>heap := hp2\<rparr>" "single (a + d3 + d4) (n - d3 - d4) hp2"
    "length (irqs b2) = length (irqs b1)" "\<forall>i \<le> 6. irqs b2 ! i = irqs b1 ! i"
    by (rule usesD [OF P(2) h1 c(2)])
  let ?con = "a + d3 + d4" and ?t = "a + d3 + d4 + sizeof_console L"
  have h2: "single ?con (n - d3 - d4) (heap (bkern b2))" "?con \<noteq> 0" using b2(2,3) L(5) by simp_all
  have k2: "running_queue (bkern b2) = [m]" "current_thread (bkern b2) = m" "idle_thread (bkern b2) = ?i" "thread_list (bkern b2) = [m, ?i]"
    "next_tid (bkern b2) = 3" "in_isr_count (bkern b2) = 0" "pend_sv (bkern b2)" "threads (bkern b2) = threads (bkern b)"
    "irqs b2 ! 3 = error_handler L" "irqs b2 ! 6 = systick_handler L"
    using b b1(2,5) b2(2,5) by (simp_all add: kernel_up_def on_kernel_def scheduler_leave_isr_def)
  obtain b3 th where b3: "console_spawn L ds b2 = ok (?con, b3)" "running_queue (bkern b3) = seq_append ?t [m]" "current_thread (bkern b3) = m"
    "idle_thread (bkern b3) = ?i" "in_isr_count (bkern b3) = 0" "thread_list (bkern b3) = seq_append ?t [m, ?i]"
    "threads (bkern b3) = (threads (bkern b))(?t := th)" "tid th = 3" "tstate th = THREAD_STATE_RUNNING"
    "single (?t + sizeof_thread L + (STACK_SIZE_CONSOLE + 4)) (n - d3 - d4 - sizeof_console L - sizeof_thread L - (STACK_SIZE_CONSOLE + 4)) (heap (bkern b3))"
    "irqs b3 = irqs b2" "global_console b3 = ?con" "consoles b3 = (consoles b2)(?con := \<lparr>con_file = ds, con_thread = ?t\<rparr>)"
    using console_stage [OF L(3) h2(1) L(2,1) h2(2) c(3) refl] unfolding k2 by blast
  have "0 + 8 \<le> n - d3 - d4 - sizeof_console L - sizeof_thread L - (STACK_SIZE_CONSOLE + 4)" using c(3) by linarith
  then obtain b4 hp4 where b4: "target_main P b3 = ok b4" "bkern b4 = (bkern b3)\<lparr>heap := hp4\<rparr>" "\<forall>i \<le> 6. irqs b4 ! i = irqs b3 ! i"
    "consoles b4 = consoles b3" "global_console b4 = global_console b3"
    by (rule usesD [OF P(3) b3(10)])
  have ne: "?t \<noteq> m" "?t \<noteq> ?i" using L(2,5) i by auto
  have m4: "current_thread (bkern b4) = m" "tstate (threads (bkern b4) m) = THREAD_STATE_RUNNING"
    using b b3(3,7) b4(2) ne by (simp_all add: kernel_up_def)
  let ?k = "thread_block (bkern b4)"
  have k4: "running_queue ?k = [?t]" "current_thread ?k = m" "idle_thread ?k = ?i" "in_isr_count ?k = 0" "pend_sv ?k" "thread_list ?k = [m, ?i, ?t]"
    "threads ?k = (threads (bkern b))(?t := th, m := (threads (bkern b) m)\<lparr>tstate := THREAD_STATE_BLOCKED\<rparr>)"
    using block_fields [OF m4] b3(2-7) b4(2) ne by (simp_all add: seq_append_def)
  have "started L ds (on_kernel thread_block b4)"
    unfolding started_def Let_def
    by (rule exI [of _ m], rule exI [of _ ?t])
      (use k4 b b3(8,9,11,12,13) b4(3-5) k2(9,10) ne L(4) in \<open>simp add: kernel_up_def on_kernel_def schedule_next_def\<close>)
  then show ?thesis by (simp add: b1(1) b2(1) b3(1) b4(1) fw_init_run_due due_idle)
qed

lemma uses_weak: "uses 0 (\<lambda>b. ok b)"
proof -
  have "\<exists>hp. bkern b = (bkern b)\<lparr>heap := hp\<rparr> \<and> single a n hp" if "single a n (heap (bkern b))" for b a n
    using that by (intro exI [of _ "heap (bkern b)"]) simp
  then show ?thesis by (auto simp: uses_def)
qed

section \<open>Properties\<close>


definition demo_layout :: layout where
  "demo_layout = \<lparr>HeapStart = 0x10001000, MainStackTop = 0x10004000, isr_stack = 0x10000000, idle_stack = 0x10000800,
     idle_thread_struct = 0x10000900, arch_idle_thread = 0x201, error_handler = 0x301, systick_handler = 0x401, console_main = 0x501,
     sizeof_thread = 48, sizeof_console = 8, name_main = 0x600, name_idle = 0x608, name_console = 0x610\<rparr>"

definition weak_port :: "unit port" where
  "weak_port = \<lparr>platform_early_init = ok, target_early_init = ok, platform_init = ok, target_init = ok, target_main = ok\<rparr>"

definition demo_boot :: "unit boot" where
  "demo_boot = \<lparr>bkern = demo_kernel\<lparr>in_isr_count := 0, heap := (heap demo_kernel)\<lparr>free_head := None\<rparr>\<rparr>, irqs = replicate 39 0,
     systick_initialized = False, bpsp = 0, bmsp = 0x10004000, consoles = (\<lambda>_. \<lparr>con_file = 0, con_thread = 0\<rparr>), global_console = 0, bport = ()\<rparr>"


end
