(* ===== verification/Plat_I2c_Setup.thy ===== *)
theory Plat_I2c_Setup
  imports Plat_I2c Top_Boot
begin

text \<open>
  The set-up of the I2C controller: \<open>i2c_dev_create\<close> of \<^verbatim>\<open>src/platform/lpc11xx/i2c.c\<close> and \<open>platform_init\<close> of
  \<^verbatim>\<open>src/platform/lpc11xx/init.c\<close>.

  \<^item> \<open>i2c_board\<close> has the registers the code writes, the table of interrupt handlers with the enabled interrupts, the heap,
    the structure \<open>global_dev\<close> points to, with its address, and the variable \<open>i2c_dev\<close> of the platform. \<open>CON\<close> are the control flags of the
    controller: writing ones to \<open>CONSET\<close> sets them, to \<open>CONCLR\<close> clears them.
  \<^item> The structure has the contents \<open>garbage\<close> in the memory that the allocator returns.

  Shown: with memory and a free interrupt the controller is left enabled and idle, its pins, clock and
  interrupt are set up.
\<close>

section \<open>The code\<close>

record i2c_board =
  PRESETCTRL :: u32
  AHBCLKCTRL :: u32
  PIO0_4 :: u32
  PIO0_5 :: u32
  CON :: u8
  SCLL :: u32
  SCLH :: u32
  ib_table :: irq_table
  ib_enabled :: u32
  ib_heap :: mheap
  global_dev :: "(nat \<times> i2c_dev) option"
  platform_i2c_dev :: "nat option"

abbreviation IRQ15 :: u8 where "IRQ15 \<equiv> 22"
abbreviation kCONSET_I2EN :: u8 where "kCONSET_I2EN \<equiv> 0x40"
abbreviation kCONCLR_I2ENC :: u8 where "kCONCLR_I2ENC \<equiv> 0x40"

definition write_CONSET :: "u8 \<Rightarrow> i2c_board \<Rightarrow> i2c_board" where
  "write_CONSET v b = b\<lparr>CON := CON b OR v\<rparr>"

definition write_CONCLR :: "u8 \<Rightarrow> i2c_board \<Rightarrow> i2c_board" where
  "write_CONCLR v b = b\<lparr>CON := CON b AND NOT v\<rparr>"

definition i2c_registers :: "i2c_board \<Rightarrow> i2c_board" where
  "i2c_registers b =
     (let b = b\<lparr>PRESETCTRL := PRESETCTRL b OR push_bit 1 1\<rparr>;
          b = b\<lparr>AHBCLKCTRL := AHBCLKCTRL b OR push_bit 5 1\<rparr>;
          b = b\<lparr>PIO0_4 := PIO0_4 b AND NOT 0x3F\<rparr>;
          b = b\<lparr>PIO0_4 := PIO0_4 b OR 0x01\<rparr>;
          b = b\<lparr>PIO0_5 := PIO0_5 b AND NOT 0x3F\<rparr>;
          b = b\<lparr>PIO0_5 := PIO0_5 b OR 0x01\<rparr>;
          b = write_CONCLR (kCONCLR_ACC OR kCONCLR_SIC OR kCONCLR_STAC OR kCONCLR_I2ENC) b
      in b\<lparr>SCLL := 0x180, SCLH := 0x180\<rparr>)"

definition i2c_dev_create :: "nat \<Rightarrow> nat \<Rightarrow> i2c_dev \<Rightarrow> i2c_board \<Rightarrow> (nat option \<times> i2c_board) res" where
  "i2c_dev_create sizeof_i2c_dev isr garbage b =
     rbind (malloc_raw sizeof_i2c_dev (ib_heap b)) (\<lambda>(dev, hp).
       let b = b\<lparr>ib_heap := hp\<rparr> in
       case dev of
         None \<Rightarrow> ok (None, b)
       | Some p \<Rightarrow>
           let b = (i2c_registers b)\<lparr>global_dev := Some (p, i2c_dev_init garbage)\<rparr>
           in case irq_register IRQ15 isr (ib_table b) of
                (False, _) \<Rightarrow> Some (Inl Assert_Failed)
              | (True, t) \<Rightarrow>
                  case irq_enable IRQ15 (ib_enabled b) of
                    Inl e \<Rightarrow> Some (Inl e)
                  | Inr en \<Rightarrow> ok (Some p, write_CONSET kCONSET_I2EN (b\<lparr>ib_table := t, ib_enabled := en\<rparr>)))"

definition lpc_platform_init :: "nat \<Rightarrow> nat \<Rightarrow> i2c_dev \<Rightarrow> i2c_board \<Rightarrow> i2c_board res" where
  "lpc_platform_init sizeof_i2c_dev isr garbage b =
     rbind (i2c_dev_create sizeof_i2c_dev isr garbage b) (\<lambda>(dev, b). ok (b\<lparr>platform_i2c_dev := dev\<rparr>))"

section \<open>Properties\<close>

text \<open>
  The controller is ready after \<open>platform_init\<close>: with enough memory and no handler for its interrupt yet, the
  call returns; both pins have the function of the bus, and the reset, clock, handler and interrupt
  of the controller are set; of the flags of the controller the enable flag is set and start, interrupt and
  acknowledge are clear; the structure can be locked by one caller and no transfer is done.
\<close>

theorem i2c_ready:
  assumes "single a n (ib_heap b)" "8 \<le> sz" "sz + 8 \<le> n"
    and "length (ib_table b) = 39" "ib_table b ! 22 = 0"
  shows "\<exists>b'. lpc_platform_init sz isr garbage b = ok b' \<and> platform_i2c_dev b' = Some a \<and>
    single (a + sz) (n - sz) (ib_heap b') \<and>
    bit (PRESETCTRL b') 1 \<and> bit (AHBCLKCTRL b') 5 \<and> PIO0_4 b' AND 0x3F = 1 \<and> PIO0_5 b' AND 0x3F = 1 \<and>
    CON b' AND 0x6C = 0x40 \<and> ib_table b' = (ib_table b)[22 := isr] \<and> bit (ib_enabled b') 15 \<and>
    (\<exists>d. global_dev b' = Some (a, d) \<and> i_lock d = semaphore_init 1 \<and> i_done d = semaphore_init 0)"
proof -
  obtain hp where hp: "malloc_raw sz (ib_heap b) = ok (Some a, hp)" "single (a + sz) (n - sz) hp"
    using single_malloc [OF assms(1-3)] by blast
  have reg: "irq_register IRQ15 isr (ib_table b) = (True, (ib_table b)[22 := isr])"
    using assms(4,5) by (simp add: irq_register_def)
  have pin: "((v AND NOT 0x3F) OR 1) AND 0x3F = (1 :: u32)" for v :: u32
    by (simp add: bit.conj_disj_distrib2 and.assoc)
  have con: "((v AND NOT 0x6C) OR 0x40) AND 0x6C = (0x40 :: u8)" for v :: u8
    by (simp add: bit.conj_disj_distrib2 and.assoc)
  show ?thesis
    using hp reg pin con
    by (simp add: lpc_platform_init_def i2c_dev_create_def i2c_registers_def write_CONCLR_def write_CONSET_def i2c_dev_init_def
        irq_enable_def Let_def bit_or_iff)
qed

end
