(* ===== verification/Core_Lock.thy ===== *)
theory Core_Lock
  imports Core_Kernel
begin

text \<open>
  Semaphores as locks: the drivers create a semaphore with value 1, wait on it before and signal it
  behind a section only one thread may be in. The locale is what such a section relies on, the interpretation
  shows that \<^verbatim>\<open>src/core/semaphore.c\<close> provides it.

  \<open>inside t\<close> says that thread \<open>t\<close> has called \<open>wait\<close> and not yet \<open>signal\<close>; \<open>lock_state s inside owner\<close> that
  the lock \<open>s\<close> agrees with it, held by \<open>owner\<close>; \<open>room s\<close> that one more thread can wait.
\<close>

locale lock =
  fixes wait :: "'s \<Rightarrow> 'k \<Rightarrow> 's" and signal :: "'s \<Rightarrow> 'k \<Rightarrow> 's"
    and caller :: "'k \<Rightarrow> nat" and queue :: "'s \<Rightarrow> nat list" and room :: "'s \<Rightarrow> bool"
    and lock_state :: "'s \<Rightarrow> (nat \<Rightarrow> bool) \<Rightarrow> nat option \<Rightarrow> bool"
  assumes free_empty: "lock_state s inside None \<Longrightarrow> \<not> inside t"
    and taken_inside: "lock_state s inside (Some t) \<Longrightarrow> inside u \<longleftrightarrow> u = t \<or> u \<in> set (queue s)"
    and owner_runs: "lock_state s inside (Some t) \<Longrightarrow> t \<notin> set (queue s)"
    and wait_free: "lock_state s inside None \<Longrightarrow> lock_state (wait s k) (inside(caller k := True)) (Some (caller k))"
    and wait_taken: "lock_state s inside (Some t) \<Longrightarrow> \<not> inside (caller k) \<Longrightarrow> room s \<Longrightarrow>
      lock_state (wait s k) (inside(caller k := True)) (Some t)"
    and signal_next: "lock_state s inside (Some t) \<Longrightarrow>
      lock_state (signal s k) (inside(t := False)) (case queue s of [] \<Rightarrow> None | u # q \<Rightarrow> Some u)"
begin

text \<open>Whoever is inside and not in the queue is the owner; there is one at most.\<close>

lemma runner_is_owner: "lock_state s inside ow \<Longrightarrow> inside u \<Longrightarrow> u \<notin> set (queue s) \<Longrightarrow> ow = Some u"
  using free_empty [of s inside u] taken_inside [of s inside "the ow" u] by (cases ow) auto

lemma exclusive:
  "lock_state s inside ow \<Longrightarrow> inside t \<Longrightarrow> t \<notin> set (queue s) \<Longrightarrow> inside u \<Longrightarrow> u \<notin> set (queue s) \<Longrightarrow> t = u"
  using runner_is_owner [of s inside ow t] runner_is_owner [of s inside ow u] by simp

text \<open>Entering: the owner stays, or the caller becomes it.\<close>

lemma wait_enters:
  "lock_state s inside ow \<Longrightarrow> \<not> inside (caller k) \<Longrightarrow> room s \<Longrightarrow>
     lock_state (wait s k) (inside(caller k := True)) (Some (case ow of None \<Rightarrow> caller k | Some t \<Rightarrow> t))"
  using wait_free wait_taken by (cases ow) auto

lemma next_owner_waits:
  "lock_state s inside (Some t) \<Longrightarrow> queue s = u # q \<Longrightarrow> inside u \<and> u \<noteq> t"
  using taken_inside owner_runs by fastforce

end

definition sem_lock_state :: "semaphore \<Rightarrow> (nat \<Rightarrow> bool) \<Rightarrow> nat option \<Rightarrow> bool" where
  "sem_lock_state s inside ow =
     (case ow of
        None \<Rightarrow> s = semaphore_init 1 \<and> (\<forall>t. \<not> inside t)
      | Some t \<Rightarrow> sint (svalue s) = - int (length (squeue s)) \<and> distinct (t # squeue s)
          \<and> (\<forall>u. inside u \<longleftrightarrow> u \<in> set (t # squeue s)))"

definition sem_room :: "semaphore \<Rightarrow> bool" where
  "sem_room s \<longleftrightarrow> - 128 < sint (svalue s)"

definition sem_wait :: "semaphore \<Rightarrow> kernel \<Rightarrow> semaphore" where
  "sem_wait s k = fst (semaphore_wait s k)"

definition sem_signal :: "semaphore \<Rightarrow> kernel \<Rightarrow> semaphore" where
  "sem_signal s k = fst (semaphore_signal s k)"

lemma sem_value_0: "sint (svalue s) = 0 \<Longrightarrow> squeue s = [] \<Longrightarrow> s = semaphore_init 0"
  by (cases s) (simp add: semaphore_init_def signed_eq_0_iff)

interpretation sem_lock: lock sem_wait sem_signal current_thread squeue sem_room sem_lock_state
proof
  fix s :: semaphore and inside :: "nat \<Rightarrow> bool" and t u :: nat and k :: kernel
  show "sem_lock_state s inside None \<Longrightarrow> \<not> inside t" by (simp add: sem_lock_state_def)
  show "sem_lock_state s inside (Some t) \<Longrightarrow> inside u \<longleftrightarrow> u = t \<or> u \<in> set (squeue s)"
    "sem_lock_state s inside (Some t) \<Longrightarrow> t \<notin> set (squeue s)" by (simp_all add: sem_lock_state_def)
  show "sem_lock_state s inside None \<Longrightarrow>
      sem_lock_state (sem_wait s k) (inside(current_thread k := True)) (Some (current_thread k))"
    by (auto simp: sem_lock_state_def sem_wait_def semaphore_init_def wait_fields)
  show "sem_lock_state (sem_wait s k) (inside(current_thread k := True)) (Some t)"
    if "sem_lock_state s inside (Some t)" "\<not> inside (current_thread k)" "sem_room s"
  proof -
    have "sint (svalue s - 1) = sint (svalue s) - 1" using that(3) by (intro sint_sub1) (simp add: sem_room_def)
    then show ?thesis using that(1,2) by (auto simp: sem_lock_state_def sem_wait_def wait_fields)
  qed
  show "sem_lock_state (sem_signal s k) (inside(t := False)) (case squeue s of [] \<Rightarrow> None | u # q \<Rightarrow> Some u)"
    if "sem_lock_state s inside (Some t)"
  proof (cases "squeue s")
    case Nil
    then have "s = semaphore_init 0" using that by (intro sem_value_0) (simp_all add: sem_lock_state_def)
    then show ?thesis using that Nil
      by (auto simp: sem_lock_state_def sem_signal_def semaphore_init_def semaphore_signal_def)
  next
    case (Cons u q)
    have "sint (svalue s + 1) = sint (svalue s) + 1" using that by (intro sint_add1) (auto simp: sem_lock_state_def)
    then show ?thesis using that Cons by (auto simp: sem_lock_state_def sem_signal_def signal_fields)
  qed
qed

end
