(* ===== verification/Plat_Uart.thy ===== *)
theory Plat_Uart
  imports Core_Lock Arch_Arm Lib_Printf
begin

text \<open>
  The serial port of the LPC11xx: \<^verbatim>\<open>src/platform/lpc11xx/printk.c\<close>.

  \<^item> \<open>uart\<close> is the structure of the driver with the kernel; \<open>uhw\<close> are the registers and the two FIFOs of
    16 bytes of the device, as the data sheet describes them: the interrupt of the transmitter is pending when its FIFO
    has become empty, or is empty when the interrupt is enabled, until \<open>IIR\<close> or \<open>THR\<close> is accessed; reading \<open>RBR\<close>
    takes a byte. A byte for a full FIFO is \<open>dropped\<close>.
  \<^item> Interrupts and other threads come in between any two accesses of a call, in particular between the load
    and the store of \<open>IER |= x\<close>. \<open>uart_pc\<close> is where a thread is, with its buffer and the loaded value; \<open>write_run\<close> and \<open>read_run\<close>
    execute it up to the next access. \<open>thr_log\<close> and \<open>rbr_log\<close> are the bytes written to \<open>THR\<close> and read from
    \<open>RBR\<close>, \<open>rx_log\<close> those the device has received; \<open>wdone\<close> and \<open>rdone\<close> the buffers of the calls that returned.
  \<^item> In an interrupt the driver polls; the device is then a parameter: reading \<open>LSR\<close>, writing \<open>THR\<close>, reading \<open>RBR\<close>.
\<close>

section \<open>State\<close>

abbreviation IER_RBR :: u32 where "IER_RBR \<equiv> 1"
abbreviation IER_THRE :: u32 where "IER_THRE \<equiv> 2"
abbreviation IIR_RBR :: u32 where "IIR_RBR \<equiv> 4"
abbreviation IIR_THRE :: u32 where "IIR_THRE \<equiv> 2"
abbreviation LSR_RDR :: u32 where "LSR_RDR \<equiv> 1"
abbreviation LSR_THRE :: u32 where "LSR_THRE \<equiv> 0x20"
abbreviation LSR_TEMT :: u32 where "LSR_TEMT \<equiv> 0x40"
abbreviation IRQ21 :: u8 where "IRQ21 \<equiv> 28"

record uart =
  read_buf :: u8
  read_sem :: semaphore
  read_lock :: semaphore
  write_sem :: semaphore
  write_lock :: semaphore

record uhw =
  ier :: u32
  thre_pending :: bool
  tx_fifo :: "u8 list"
  rx_fifo :: "u8 list"
  sent_bytes :: "u8 list"
  dropped :: "u8 list"
  thr_log :: "u8 list"
  rbr_log :: "u8 list"
  rx_log :: "u8 list"

section \<open>The device\<close>

definition IIR :: "uhw \<Rightarrow> u32" where
  "IIR h =
     (if ier h AND IER_RBR \<noteq> 0 \<and> rx_fifo h \<noteq> [] then IIR_RBR
      else if ier h AND IER_THRE \<noteq> 0 \<and> thre_pending h then IIR_THRE
      else 1)"

definition read_IIR :: "uhw \<Rightarrow> u32 \<times> uhw" where
  "read_IIR h = (IIR h, if IIR h = IIR_THRE then h\<lparr>thre_pending := False\<rparr> else h)"

definition read_RBR :: "uhw \<Rightarrow> u8 \<times> uhw" where
  "read_RBR h = (case rx_fifo h of [] \<Rightarrow> (0, h) | b # r \<Rightarrow> (b, h\<lparr>rx_fifo := r, rbr_log := rbr_log h @ [b]\<rparr>))"

definition write_THR :: "u8 \<Rightarrow> uhw \<Rightarrow> uhw" where
  "write_THR b h =
     (let h = h\<lparr>thr_log := thr_log h @ [b], thre_pending := False\<rparr>
      in if length (tx_fifo h) < 16 then h\<lparr>tx_fifo := tx_fifo h @ [b]\<rparr> else h\<lparr>dropped := dropped h @ [b]\<rparr>)"

definition write_IER :: "u32 \<Rightarrow> uhw \<Rightarrow> uhw" where
  "write_IER v h =
     h\<lparr>ier := v, thre_pending := thre_pending h \<or> v AND IER_THRE \<noteq> 0 \<and> ier h AND IER_THRE = 0 \<and> tx_fifo h = []\<rparr>"

text \<open>The device sends a byte, or receives one.\<close>

definition tx_step :: "uhw \<Rightarrow> uhw option" where
  "tx_step h = (case tx_fifo h of [] \<Rightarrow> None
     | b # r \<Rightarrow> Some (h\<lparr>tx_fifo := r, sent_bytes := sent_bytes h @ [b], thre_pending := (r = [] \<or> thre_pending h)\<rparr>))"

definition rx_step :: "u8 \<Rightarrow> uhw \<Rightarrow> uhw option" where
  "rx_step b h = (if length (rx_fifo h) < 16 then Some (h\<lparr>rx_fifo := rx_fifo h @ [b], rx_log := rx_log h @ [b]\<rparr>) else None)"

section \<open>The interrupt\<close>

definition uart_isr :: "kernel \<Rightarrow> uart \<Rightarrow> uhw \<Rightarrow> uart \<times> uhw" where
  "uart_isr k u h =
     (let (status, h) = read_IIR h;
          (u, h) = (if status AND IIR_RBR = IIR_RBR
                    then let h = write_IER (ier h AND NOT IER_RBR) h;
                             (b, h) = read_RBR h
                         in (u\<lparr>read_buf := b, read_sem := sem_signal (read_sem u) k\<rparr>, h)
                    else (u, h));
          u = (if status AND IIR_THRE = IIR_THRE then u\<lparr>write_sem := sem_signal (write_sem u) k\<rparr> else u)
      in (u, h))"

section \<open>Polling\<close>

text \<open>
  In an interrupt, and during set-up, the driver waits for the device in a loop. \<open>lsr\<close> reads the line status,
  \<open>thr\<close> writes a byte, \<open>rbr\<close> reads one; \<open>None\<close> is a loop that does not end.
\<close>

partial_function (option) wait_lsr :: "('h \<Rightarrow> u32 \<times> 'h) \<Rightarrow> u32 \<Rightarrow> 'h \<Rightarrow> 'h option" where
  "wait_lsr lsr bits h = (let (v, h) = lsr h in if v AND bits = bits then Some h else wait_lsr lsr bits h)"

partial_function (option) dump_rx :: "('h \<Rightarrow> u32 \<times> 'h) \<Rightarrow> ('h \<Rightarrow> u8 \<times> 'h) \<Rightarrow> 'h \<Rightarrow> 'h option" where
  "dump_rx lsr rbr h = (let (v, h) = lsr h in if v AND LSR_RDR \<noteq> 0 then dump_rx lsr rbr (snd (rbr h)) else Some h)"

fun poll_write :: "('h \<Rightarrow> u32 \<times> 'h) \<Rightarrow> (u8 \<Rightarrow> 'h \<Rightarrow> 'h) \<Rightarrow> u8 list \<Rightarrow> 'h \<Rightarrow> 'h option" where
  "poll_write lsr thr [] h = Some h"
| "poll_write lsr thr (b # buf) h = Option.bind (wait_lsr lsr LSR_THRE h) (\<lambda>h. poll_write lsr thr buf (thr b h))"

fun poll_read :: "('h \<Rightarrow> u32 \<times> 'h) \<Rightarrow> ('h \<Rightarrow> u8 \<times> 'h) \<Rightarrow> nat \<Rightarrow> 'h \<Rightarrow> (u8 list \<times> 'h) option" where
  "poll_read lsr rbr 0 h = Some ([], h)"
| "poll_read lsr rbr (Suc n) h =
     Option.bind (wait_lsr lsr LSR_RDR h) (\<lambda>h.
       let (b, h) = rbr h in map_option (\<lambda>(buf, h). (b # buf, h)) (poll_read lsr rbr n h))"

section \<open>Set-up\<close>

record uregs =
  PIO1_6 :: u32
  PIO1_7 :: u32
  SYSAHBCLKCTRL :: u32
  UARTCLKDIV :: u32
  DLM :: u8
  DLL :: u8
  FDR :: u32
  LCR :: u32
  FCR :: u32

definition uart_divisor :: "u32 \<Rightarrow> u32 \<Rightarrow> u32 \<Rightarrow> fault + u32" where
  "uart_divisor clock clkdiv baud =
     (if clkdiv = 0 \<or> baud = 0 then Inl Div_By_Zero else Inr (((clock div clkdiv) div 16) div baud))"

definition uart_registers :: "u32 \<Rightarrow> u32 \<Rightarrow> uregs \<Rightarrow> fault + uregs" where
  "uart_registers clock baud r =
     (let r = r\<lparr>PIO1_6 := (PIO1_6 r AND NOT 7) OR 1, PIO1_7 := (PIO1_7 r AND NOT 7) OR 1,
                SYSAHBCLKCTRL := SYSAHBCLKCTRL r OR 0x1000, UARTCLKDIV := 1, LCR := 0x83\<rparr>
      in case uart_divisor clock (UARTCLKDIV r) baud of
           Inl e \<Rightarrow> Inl e
         | Inr fdiv \<Rightarrow> Inr (r\<lparr>DLM := ucast (fdiv div 256), DLL := ucast (fdiv mod 256), FDR := 0x10,
                              LCR := 3, FCR := 7\<rparr>))"

definition uart_init :: "uart" where
  "uart_init = \<lparr>read_buf = 0, read_sem = semaphore_init 0, read_lock = semaphore_init 1,
     write_sem = semaphore_init 0, write_lock = semaphore_init 1\<rparr>"

text \<open>The whole of \<open>printk_init\<close>; \<open>isr\<close> is the address of \<open>uart_isr\<close>, \<open>h\<close> the device.\<close>

definition printk_init ::
    "('h \<Rightarrow> u32 \<times> 'h) \<Rightarrow> ('h \<Rightarrow> u8 \<times> 'h) \<Rightarrow> nat \<Rightarrow> u32 \<Rightarrow> u32 \<Rightarrow> irq_table \<Rightarrow> u32 \<Rightarrow> uregs \<Rightarrow> 'h \<Rightarrow>
      (fault + (irq_table \<times> u32 \<times> uregs \<times> uart \<times> 'h)) option" where
  "printk_init lsr rbr isr clock baud entries enabled r h =
     (case uart_registers clock baud r of
        Inl e \<Rightarrow> Some (Inl e)
      | Inr r \<Rightarrow>
          (let (_, h) = lsr h in
           Option.bind (wait_lsr lsr (LSR_THRE OR LSR_TEMT) h) (\<lambda>h.
           Option.bind (dump_rx lsr rbr h) (\<lambda>h.
             case irq_register IRQ21 isr entries of
               (False, _) \<Rightarrow> Some (Inl Assert_Failed)
             | (True, entries) \<Rightarrow>
                 Some (map_sum id (\<lambda>enabled. (entries, enabled, r, uart_init, h)) (irq_enable IRQ21 enabled))))))"

section \<open>Reading and writing in a thread\<close>

datatype uart_pc =
    Idle
  | WLock "u8 list" | WHead "u8 list" nat | WLoad "u8 list" nat u32 | WArm "u8 list" nat
  | WWait "u8 list" nat | WSent "u8 list" nat | WClear "u8 list" nat u32
  | RLock nat | RHead nat "u8 list" | RLoad nat "u8 list" u32 | RArm nat "u8 list" | RWait nat "u8 list"

record usys =
  udrv :: uart
  uhwr :: uhw
  upc :: "nat \<Rightarrow> uart_pc"
  wdone :: "u8 list list"
  rdone :: "u8 list list"

definition goto :: "nat \<Rightarrow> uart_pc \<Rightarrow> usys \<Rightarrow> usys" where
  "goto t pc x = x\<lparr>upc := (upc x)(t := pc)\<rparr>"

text \<open>\<open>semaphore_wait(&uart.write_lock)\<close> and \<open>semaphore_wait(&uart.read_lock)\<close>, the beginning of both calls.\<close>

definition write_begin :: "kernel \<Rightarrow> nat \<Rightarrow> u8 list \<Rightarrow> usys \<Rightarrow> usys" where
  "write_begin k t buf x =
     goto t (WLock buf) (x\<lparr>udrv := (udrv x)\<lparr>write_lock := sem_wait (write_lock (udrv x)) k\<rparr>\<rparr>)"

definition read_begin :: "kernel \<Rightarrow> nat \<Rightarrow> nat \<Rightarrow> usys \<Rightarrow> usys" where
  "read_begin k t n x =
     goto t (RLock n) (x\<lparr>udrv := (udrv x)\<lparr>read_lock := sem_wait (read_lock (udrv x)) k\<rparr>\<rparr>)"

text \<open>The loop of \<open>write_op\<close> and what follows it, up to the next access.\<close>

definition write_run :: "kernel \<Rightarrow> nat \<Rightarrow> usys \<Rightarrow> usys option" where
  "write_run k t x =
     (let u = udrv x; h = uhwr x in
      case upc x t of
        WLock buf \<Rightarrow> if t \<in> set (squeue (write_lock u)) then None else Some (goto t (WHead buf 0) x)
      | WHead buf i \<Rightarrow>
          if i < length buf then Some (goto t (WLoad buf i (ier h)) x)
          else Some (goto t Idle (x\<lparr>udrv := u\<lparr>write_lock := sem_signal (write_lock u) k\<rparr>, wdone := wdone x @ [buf]\<rparr>))
      | WLoad buf i v \<Rightarrow> Some (goto t (WArm buf i) (x\<lparr>uhwr := write_IER (v OR IER_THRE) h\<rparr>))
      | WArm buf i \<Rightarrow> Some (goto t (WWait buf i) (x\<lparr>udrv := u\<lparr>write_sem := sem_wait (write_sem u) k\<rparr>\<rparr>))
      | WWait buf i \<Rightarrow>
          if t \<in> set (squeue (write_sem u)) then None
          else Some (goto t (WSent buf i) (x\<lparr>uhwr := write_THR (buf ! i) h\<rparr>))
      | WSent buf i \<Rightarrow> Some (goto t (WClear buf i (ier h)) x)
      | WClear buf i v \<Rightarrow> Some (goto t (WHead buf (i + 1)) (x\<lparr>uhwr := write_IER (v AND NOT IER_THRE) h\<rparr>))
      | _ \<Rightarrow> None)"

text \<open>The same for \<open>read_op\<close>.\<close>

definition read_run :: "kernel \<Rightarrow> nat \<Rightarrow> usys \<Rightarrow> usys option" where
  "read_run k t x =
     (let u = udrv x; h = uhwr x in
      case upc x t of
        RLock n \<Rightarrow> if t \<in> set (squeue (read_lock u)) then None else Some (goto t (RHead n []) x)
      | RHead n got \<Rightarrow>
          if length got < n then Some (goto t (RLoad n got (ier h)) x)
          else Some (goto t Idle (x\<lparr>udrv := u\<lparr>read_lock := sem_signal (read_lock u) k\<rparr>, rdone := rdone x @ [got]\<rparr>))
      | RLoad n got v \<Rightarrow> Some (goto t (RArm n got) (x\<lparr>uhwr := write_IER (v OR IER_RBR) h\<rparr>))
      | RArm n got \<Rightarrow> Some (goto t (RWait n got) (x\<lparr>udrv := u\<lparr>read_sem := sem_wait (read_sem u) k\<rparr>\<rparr>))
      | RWait n got \<Rightarrow>
          if t \<in> set (squeue (read_sem u)) then None
          else Some (goto t (RHead n (got @ [read_buf u])) x)
      | _ \<Rightarrow> None)"

section \<open>Interleaving\<close>

datatype uart_event = Begin_write nat "u8 list" | Begin_read nat nat | Run nat | Irq | Tx | Rx u8

text \<open>
  An event, with the kernel as the scheduler has left it. An interrupt needs a pending one.
\<close>

definition uart_event :: "kernel \<Rightarrow> uart_event \<Rightarrow> usys \<Rightarrow> usys option" where
  "uart_event k e x =
     (case e of
        Begin_write t buf \<Rightarrow>
          if upc x t = Idle \<and> sem_room (write_lock (udrv x)) then Some (write_begin (k\<lparr>current_thread := t\<rparr>) t buf x) else None
      | Begin_read t n \<Rightarrow>
          if upc x t = Idle \<and> sem_room (read_lock (udrv x)) then Some (read_begin (k\<lparr>current_thread := t\<rparr>) t n x) else None
      | Run t \<Rightarrow>
          (case write_run (k\<lparr>current_thread := t\<rparr>) t x of Some y \<Rightarrow> Some y
           | None \<Rightarrow> read_run (k\<lparr>current_thread := t\<rparr>) t x)
      | Irq \<Rightarrow> if IIR (uhwr x) = 1 then None
               else Some (let (u, h) = uart_isr k (udrv x) (uhwr x) in x\<lparr>udrv := u, uhwr := h\<rparr>)
      | Tx \<Rightarrow> map_option (\<lambda>h. x\<lparr>uhwr := h\<rparr>) (tx_step (uhwr x))
      | Rx b \<Rightarrow> map_option (\<lambda>h. x\<lparr>uhwr := h\<rparr>) (rx_step b (uhwr x)))"

text \<open>The first argument restricts the events.\<close>

inductive uart_step :: "(uart_event \<Rightarrow> bool) \<Rightarrow> usys \<Rightarrow> usys \<Rightarrow> bool" for P where
  event: "P e \<Longrightarrow> uart_event k e x = Some y \<Longrightarrow> uart_step P x y"

definition uart_start :: usys where
  "uart_start =
     \<lparr>udrv = uart_init,
      uhwr = \<lparr>ier = 0, thre_pending = False, tx_fifo = [], rx_fifo = [], sent_bytes = [], dropped = [], thr_log = [], rbr_log = [], rx_log = []\<rparr>,
      upc = (\<lambda>_. Idle), wdone = [], rdone = []\<rparr>"

section \<open>Writes are exclusive\<close>

fun write_pc :: "uart_pc \<Rightarrow> bool" where
  "write_pc Idle = False"
| "write_pc (RLock n) = False" | "write_pc (RHead n g) = False" | "write_pc (RLoad n g v) = False"
| "write_pc (RArm n g) = False" | "write_pc (RWait n g) = False"
| "write_pc pc = True"

text \<open>What the owner has written of its buffer.\<close>

fun written :: "uart_pc \<Rightarrow> u8 list" where
  "written (WHead buf i) = take i buf" | "written (WLoad buf i v) = take i buf" | "written (WArm buf i) = take i buf"
| "written (WWait buf i) = take i buf" | "written (WSent buf i) = take (Suc i) buf" | "written (WClear buf i v) = take (Suc i) buf"
| "written pc = []"

fun in_buffer :: "uart_pc \<Rightarrow> bool" where
  "in_buffer (WHead buf i) = (i \<le> length buf)" | "in_buffer (WLoad buf i v) = (i < length buf)"
| "in_buffer (WArm buf i) = (i < length buf)" | "in_buffer (WWait buf i) = (i < length buf)"
| "in_buffer (WSent buf i) = (i < length buf)" | "in_buffer (WClear buf i v) = (i < length buf)"
| "in_buffer pc = True"

definition writes_ok :: "nat option \<Rightarrow> usys \<Rightarrow> bool" where
  "writes_ok ow x \<longleftrightarrow> sem_lock_state (write_lock (udrv x)) (\<lambda>t. write_pc (upc x t)) ow
     \<and> thr_log (uhwr x) = concat (wdone x) @ (case ow of None \<Rightarrow> [] | Some t \<Rightarrow> written (upc x t))
     \<and> (case ow of None \<Rightarrow> True | Some t \<Rightarrow> in_buffer (upc x t))
     \<and> (\<forall>u \<in> set (squeue (write_lock (udrv x))). \<exists>buf. upc x u = WLock buf)"

lemma device_logs [simp]:
  "thr_log (snd (read_IIR h)) = thr_log h" "thr_log (snd (read_RBR h)) = thr_log h" "thr_log (write_IER v h) = thr_log h"
  "thr_log (write_THR b h) = thr_log h @ [b]"
  "rbr_log (snd (read_IIR h)) = rbr_log h" "rbr_log (write_IER v h) = rbr_log h" "rbr_log (write_THR b h) = rbr_log h"
  by (simp_all add: read_IIR_def read_RBR_def write_IER_def write_THR_def Let_def split: list.split)

lemma isr_keeps_writes:
  "thr_log (snd (uart_isr k u h)) = thr_log h" "write_lock (fst (uart_isr k u h)) = write_lock u"
  "read_lock (fst (uart_isr k u h)) = read_lock u"
  by (auto simp: uart_isr_def read_IIR_def read_RBR_def Let_def split: prod.split list.split)

text \<open>A change that leaves lock, log and writing threads alone.\<close>

lemma writes_ok_frame:
  assumes "writes_ok ow x" "write_lock (udrv y) = write_lock (udrv x)" "thr_log (uhwr y) = thr_log (uhwr x)" "wdone y = wdone x"
    and "\<And>t. write_pc (upc x t) \<or> write_pc (upc y t) \<Longrightarrow> upc y t = upc x t"
  shows "writes_ok ow y"
proof -
  have "write_pc (upc y t) = write_pc (upc x t)" for t using assms(5) [of t] by auto
  moreover have "upc y t = upc x t" if "ow = Some t" for t
    using that assms(1,5) sem_lock.taken_inside [of "write_lock (udrv x)" "\<lambda>t. write_pc (upc x t)" t t] by (auto simp: writes_ok_def)
  moreover have "upc y u = upc x u" if "upc x u = WLock buf" for u buf using assms(5) [of u] that by simp
  ultimately show ?thesis using assms(1-4) by (auto simp: writes_ok_def split: option.splits)
qed

lemma write_begin_ok:
  assumes "writes_ok ow x" "upc x (current_thread k) = Idle" "sem_room (write_lock (udrv x))"
  shows "\<exists>ow. writes_ok ow (write_begin k (current_thread k) buf x)"
proof -
  let ?t = "current_thread k" and ?y = "write_begin k (current_thread k) buf x"
  let ?in = "\<lambda>t. write_pc (upc x t)"
  have s: "sem_lock_state (write_lock (udrv x)) ?in ow" using assms(1) by (simp add: writes_ok_def)
  have "sem_lock_state (sem_wait (write_lock (udrv x)) k) (?in(?t := True)) (Some (case ow of None \<Rightarrow> ?t | Some t \<Rightarrow> t))"
    using sem_lock.wait_enters [OF s _ assms(3), of k] assms(2) by simp
  moreover have "?in(?t := True) = (\<lambda>t. write_pc (upc ?y t))" by (auto simp: write_begin_def goto_def)
  ultimately have l: "sem_lock_state (write_lock (udrv ?y)) (\<lambda>t. write_pc (upc ?y t)) (Some (case ow of None \<Rightarrow> ?t | Some t \<Rightarrow> t))"
    by (simp add: write_begin_def goto_def)
  have q: "set (squeue (write_lock (udrv ?y))) \<subseteq> insert ?t (set (squeue (write_lock (udrv x))))"
    by (auto simp: write_begin_def goto_def sem_wait_def wait_fields)
  have "t \<noteq> ?t" if "ow = Some t" for t
    using that s assms(2) sem_lock.taken_inside [of _ ?in t t] by force
  then have "writes_ok (Some (case ow of None \<Rightarrow> ?t | Some t \<Rightarrow> t)) ?y"
    using assms(1) l q unfolding writes_ok_def
    by (auto simp: write_begin_def goto_def split: option.splits)
  then show ?thesis by blast
qed

lemma writer_owns:
  assumes "writes_ok ow x" "write_pc (upc x t)" "(\<forall>buf. upc x t \<noteq> WLock buf) \<or> t \<notin> set (squeue (write_lock (udrv x)))"
  shows "ow = Some t"
proof -
  have "t \<notin> set (squeue (write_lock (udrv x)))" using assms(1,3) by (auto simp: writes_ok_def)
  then show ?thesis
    using assms(1,2) sem_lock.runner_is_owner [of "write_lock (udrv x)" "\<lambda>t. write_pc (upc x t)" ow t] by (simp add: writes_ok_def)
qed

lemma writes_ok_owner:
  assumes "writes_ok (Some t) x" "write_lock (udrv y) = write_lock (udrv x)" "wdone y = wdone x" "upc y = (upc x)(t := pc)"
    and "write_pc pc" "in_buffer pc" "thr_log (uhwr y) = concat (wdone x) @ written pc"
  shows "writes_ok (Some t) y"
proof -
  let ?in = "\<lambda>t. write_pc (upc x t)"
  have s: "sem_lock_state (write_lock (udrv x)) ?in (Some t)" using assms(1) by (simp add: writes_ok_def)
  have "(\<lambda>u. write_pc (upc y u)) = ?in" using sem_lock.taken_inside [OF s, of t] assms(4,5) by auto
  then show ?thesis using assms sem_lock.owner_runs [OF s] by (auto simp: writes_ok_def)
qed

lemma writes_ok_finish:
  assumes "writes_ok (Some t) x" "upc x t = WHead buf (length buf)"
  shows "\<exists>ow. writes_ok ow (goto t Idle (x\<lparr>udrv := (udrv x)\<lparr>write_lock := sem_signal (write_lock (udrv x)) k\<rparr>, wdone := wdone x @ [buf]\<rparr>))"
    (is "\<exists>ow. writes_ok ow ?y")
proof -
  let ?in = "\<lambda>t. write_pc (upc x t)" and ?q = "squeue (write_lock (udrv x))"
  let ?ow = "case ?q of [] \<Rightarrow> None | u # q \<Rightarrow> Some u"
  have s: "sem_lock_state (write_lock (udrv x)) ?in (Some t)" using assms(1) by (simp add: writes_ok_def)
  have "?in(t := False) = (\<lambda>u. write_pc (upc ?y u))" by (auto simp: goto_def)
  then have l: "sem_lock_state (write_lock (udrv ?y)) (\<lambda>u. write_pc (upc ?y u)) ?ow"
    using sem_lock.signal_next [OF s, of k] by (simp add: goto_def)
  have n: "\<exists>b. upc x u = WLock b" "u \<noteq> t" if "u \<in> set ?q" for u
    using that assms(1) sem_lock.owner_runs [OF s] by (auto simp: writes_ok_def)
  have "squeue (write_lock (udrv ?y)) = tl ?q" by (simp add: goto_def sem_signal_def signal_fields)
  then have "\<forall>u \<in> set (squeue (write_lock (udrv ?y))). \<exists>b. upc ?y u = WLock b"
    using n by (cases ?q) (auto simp: goto_def)
  moreover have "thr_log (uhwr x) = concat (wdone x) @ buf" using assms by (simp add: writes_ok_def)
  ultimately have "writes_ok ?ow ?y" using l n unfolding writes_ok_def
    by (cases ?q) (fastforce simp: goto_def)+
  then show ?thesis by blast
qed

lemma write_run_ok:
  assumes "writes_ok ow x" "write_run k t x = Some y"
  shows "\<exists>ow. writes_ok ow y"
proof -
  have pc: "write_pc (upc x t)" using assms(2) by (cases "upc x t") (auto simp: write_run_def)
  moreover have "(\<forall>buf. upc x t \<noteq> WLock buf) \<or> t \<notin> set (squeue (write_lock (udrv x)))"
    using assms(2) by (auto simp: write_run_def split: if_splits)
  ultimately have ow: "writes_ok (Some t) x" using writer_owns [OF assms(1)] assms(1) by blast
  then have l: "thr_log (uhwr x) = concat (wdone x) @ written (upc x t)" "in_buffer (upc x t)" by (auto simp: writes_ok_def)
  note keep = exI [where P = "\<lambda>ow. writes_ok ow y", OF writes_ok_owner [OF ow]]
  show ?thesis
  proof (cases "upc x t")
    case (WHead buf i)
    show ?thesis
    proof (cases "i < length buf")
      case True
      then show ?thesis using assms(2) WHead l by (intro keep) (auto simp: write_run_def Let_def goto_def)
    next
      case False
      then have "upc x t = WHead buf (length buf)" using l(2) WHead by simp
      then show ?thesis using writes_ok_finish [OF ow, of buf k] assms(2) by (simp add: write_run_def Let_def)
    qed
  next
    case (WLoad buf i v)
    then show ?thesis using assms(2) l by (intro keep) (auto simp: write_run_def Let_def goto_def)
  next
    case (WLock buf)
    then show ?thesis using assms(2) l by (intro keep) (auto simp: write_run_def Let_def goto_def split: if_splits)
  next
    case (WArm buf i)
    then show ?thesis using assms(2) l by (intro keep) (auto simp: write_run_def Let_def goto_def)
  next
    case (WWait buf i)
    then show ?thesis using assms(2) l
      by (intro keep) (auto simp: write_run_def Let_def goto_def take_Suc_conv_app_nth split: if_splits)
  next
    case (WSent buf i)
    then show ?thesis using assms(2) l by (intro keep) (auto simp: write_run_def Let_def goto_def)
  next
    case (WClear buf i v)
    then show ?thesis using assms(2) l by (intro keep) (auto simp: write_run_def Let_def goto_def)
  qed (use pc in simp_all)
qed

lemma read_run_pcs:
  assumes "read_run k t x = Some y"
  shows "write_lock (udrv y) = write_lock (udrv x)" "thr_log (uhwr y) = thr_log (uhwr x)" "wdone y = wdone x"
    "\<not> write_pc (upc x t)" "\<not> write_pc (upc y t)" "\<And>u. u \<noteq> t \<Longrightarrow> upc y u = upc x u"
  using assms by (cases "upc x t"; auto simp: read_run_def Let_def goto_def split: if_splits)+

lemma uart_event_writes_ok:
  assumes "writes_ok ow x" "uart_event k e x = Some y"
  shows "\<exists>ow. writes_ok ow y"
proof (cases e)
  case (Begin_write t buf)
  then show ?thesis using assms write_begin_ok [of ow x "k\<lparr>current_thread := t\<rparr>" buf]
    by (auto simp: uart_event_def split: if_splits)
next
  case (Begin_read t n)
  then have "upc x t = Idle" "y = read_begin (k\<lparr>current_thread := t\<rparr>) t n x" using assms(2) by (auto simp: uart_event_def split: if_splits)
  then show ?thesis by (intro exI [of _ ow] writes_ok_frame [OF assms(1)]) (auto simp: read_begin_def goto_def split: if_splits)
next
  case (Run t)
  then consider "write_run (k\<lparr>current_thread := t\<rparr>) t x = Some y" | "read_run (k\<lparr>current_thread := t\<rparr>) t x = Some y"
    using assms(2) by (auto simp: uart_event_def split: option.splits)
  then show ?thesis
  proof cases
    case 1
    then show ?thesis by (rule write_run_ok [OF assms(1)])
  next
    case 2
    show ?thesis
      by (intro exI [of _ ow] writes_ok_frame [OF assms(1)] read_run_pcs(1-3) [OF 2])
        (metis read_run_pcs(4-) [OF 2])
  qed
next
  case Irq
  then show ?thesis using assms(2)
    by (intro exI [of _ ow] writes_ok_frame [OF assms(1)]) (auto simp: uart_event_def isr_keeps_writes case_prod_beta split: if_splits)
next
  case Tx
  then show ?thesis using assms(2)
    by (intro exI [of _ ow] writes_ok_frame [OF assms(1)]) (auto simp: uart_event_def tx_step_def split: list.splits)
next
  case (Rx b)
  then show ?thesis using assms(2)
    by (intro exI [of _ ow] writes_ok_frame [OF assms(1)]) (auto simp: uart_event_def rx_step_def split: if_splits)
qed

lemma writes_ok_reachable: "(uart_step P)\<^sup>*\<^sup>* uart_start x \<Longrightarrow> \<exists>ow. writes_ok ow x"
proof (induction rule: rtranclp_induct)
  case base
  show ?case by (rule exI [of _ None]) (simp add: writes_ok_def uart_start_def uart_init_def sem_lock_state_def semaphore_init_def)
next
  case (step y z)
  then show ?case using uart_event_writes_ok by (blast elim: uart_step.cases)
qed

section \<open>Reads without writers\<close>

fun read_pc :: "uart_pc \<Rightarrow> bool" where
  "read_pc (RLock n) = True" | "read_pc (RHead n g) = True" | "read_pc (RLoad n g v) = True"
| "read_pc (RArm n g) = True" | "read_pc (RWait n g) = True" | "read_pc pc = False"

fun got :: "uart_pc \<Rightarrow> u8 list" where
  "got (RHead n g) = g" | "got (RLoad n g v) = g" | "got (RArm n g) = g" | "got (RWait n g) = g" | "got pc = []"

abbreviation sem_at :: "8 word \<Rightarrow> nat list \<Rightarrow> semaphore" where
  "sem_at v q \<equiv> \<lparr>svalue = v, squeue = q\<rparr>"

text \<open>Nothing is asked for, and nothing is on its way.\<close>

definition quiet :: "u8 list \<Rightarrow> usys \<Rightarrow> bool" where
  "quiet g x \<longleftrightarrow> ier (uhwr x) = 0 \<and> read_sem (udrv x) = sem_at 0 [] \<and> rbr_log (uhwr x) = concat (rdone x) @ g"

text \<open>A byte is asked for; or it has been delivered.\<close>

definition asked :: "8 word \<Rightarrow> nat list \<Rightarrow> u8 list \<Rightarrow> usys \<Rightarrow> bool" where
  "asked v q g x \<longleftrightarrow> ier (uhwr x) = IER_RBR \<and> read_sem (udrv x) = sem_at v q \<and> rbr_log (uhwr x) = concat (rdone x) @ g"

definition delivered :: "8 word \<Rightarrow> u8 list \<Rightarrow> usys \<Rightarrow> bool" where
  "delivered v g x \<longleftrightarrow> ier (uhwr x) = 0 \<and> read_sem (udrv x) = sem_at v []
     \<and> rbr_log (uhwr x) = concat (rdone x) @ g @ [read_buf (udrv x)]"

fun reader_at :: "uart_pc \<Rightarrow> nat \<Rightarrow> usys \<Rightarrow> bool" where
  "reader_at (RLock n) t x = quiet [] x"
| "reader_at (RHead n g) t x = (quiet g x \<and> length g \<le> n)"
| "reader_at (RLoad n g v) t x = (quiet g x \<and> v = 0 \<and> length g < n)"
| "reader_at (RArm n g) t x = ((asked 0 [] g x \<or> delivered 1 g x) \<and> length g < n)"
| "reader_at (RWait n g) t x = ((asked (- 1) [t] g x \<or> delivered 0 g x) \<and> length g < n)"
| "reader_at pc t x = False"

definition reads_ok :: "nat option \<Rightarrow> usys \<Rightarrow> bool" where
  "reads_ok ow x \<longleftrightarrow> sem_lock_state (read_lock (udrv x)) (\<lambda>t. read_pc (upc x t)) ow
     \<and> (\<forall>t. \<not> write_pc (upc x t)) \<and> (\<forall>u \<in> set (squeue (read_lock (udrv x))). \<exists>n. upc x u = RLock n)
     \<and> (case ow of None \<Rightarrow> quiet [] x | Some t \<Rightarrow> reader_at (upc x t) t x)
     \<and> rx_log (uhwr x) = rbr_log (uhwr x) @ rx_fifo (uhwr x)"

lemma sem_steps:
  "sem_wait (sem_at 1 []) k = sem_at 0 []" "sem_wait (sem_at 0 []) k = sem_at (- 1) [current_thread k]"
  "sem_signal (sem_at 0 []) k = sem_at 1 []" "sem_signal (sem_at (- 1) [t]) k = sem_at 0 []"
  by (simp_all add: sem_wait_def sem_signal_def semaphore_wait_def semaphore_signal_def Let_def word_sle_eq)

lemma reader_owns:
  assumes "reads_ok ow x" "read_pc (upc x t)" "(\<forall>n. upc x t \<noteq> RLock n) \<or> t \<notin> set (squeue (read_lock (udrv x)))"
  shows "ow = Some t"
proof -
  have "t \<notin> set (squeue (read_lock (udrv x)))" using assms(1,3) by (auto simp: reads_ok_def)
  then show ?thesis
    using assms(1,2) sem_lock.runner_is_owner [of "read_lock (udrv x)" "\<lambda>t. read_pc (upc x t)" ow t] by (simp add: reads_ok_def)
qed

lemma reader_at_cong:
  "udrv y = (udrv x)\<lparr>read_lock := l\<rparr> \<Longrightarrow> uhwr y = uhwr x \<Longrightarrow> rdone y = rdone x \<Longrightarrow> reader_at pc t y = reader_at pc t x"
  by (cases pc) (simp_all add: quiet_def asked_def delivered_def)

lemma read_begin_ok:
  assumes "reads_ok ow x" "upc x (current_thread k) = Idle" "sem_room (read_lock (udrv x))"
  shows "\<exists>ow. reads_ok ow (read_begin k (current_thread k) n x)"
proof -
  let ?t = "current_thread k" and ?y = "read_begin k (current_thread k) n x"
  let ?in = "\<lambda>t. read_pc (upc x t)" and ?ow = "case ow of None \<Rightarrow> current_thread k | Some t \<Rightarrow> t"
  have s: "sem_lock_state (read_lock (udrv x)) ?in ow" using assms(1) by (simp add: reads_ok_def)
  have "?in(?t := True) = (\<lambda>t. read_pc (upc ?y t))" by (auto simp: read_begin_def goto_def)
  then have l: "sem_lock_state (read_lock (udrv ?y)) (\<lambda>t. read_pc (upc ?y t)) (Some ?ow)"
    using sem_lock.wait_enters [OF s _ assms(3), of k] assms(2) by (simp add: read_begin_def goto_def)
  have q: "set (squeue (read_lock (udrv ?y))) \<subseteq> insert ?t (set (squeue (read_lock (udrv x))))"
    by (auto simp: read_begin_def goto_def sem_wait_def wait_fields)
  have n: "t \<noteq> ?t" if "ow = Some t" for t using that s assms(2) sem_lock.taken_inside [of _ ?in t t] by force
  have "reader_at (upc ?y ?ow) ?ow ?y"
  proof (cases ow)
    case None
    then show ?thesis using assms(1) by (simp add: reads_ok_def read_begin_def goto_def quiet_def)
  next
    case (Some t)
    then have "reader_at (upc x t) t x" using assms(1) by (simp add: reads_ok_def)
    moreover have "upc ?y t = upc x t" using n [OF Some] by (simp add: read_begin_def goto_def)
    ultimately show ?thesis using Some reader_at_cong [of ?y "sem_wait (read_lock (udrv x)) k" x "upc x t" t]
      by (simp add: read_begin_def goto_def)
  qed
  then have "reads_ok (Some ?ow) ?y" using assms(1) l q unfolding reads_ok_def by (auto simp: read_begin_def goto_def)
  then show ?thesis by blast
qed

text \<open>The owner moves on.\<close>

lemma reads_ok_owner:
  assumes "reads_ok (Some t) x" "read_lock (udrv y) = read_lock (udrv x)" "upc y = (upc x)(t := pc)"
    and "read_pc pc" "reader_at pc t y" "rx_log (uhwr y) = rbr_log (uhwr y) @ rx_fifo (uhwr y)"
  shows "reads_ok (Some t) y"
proof -
  let ?in = "\<lambda>t. read_pc (upc x t)"
  have s: "sem_lock_state (read_lock (udrv x)) ?in (Some t)" using assms(1) by (simp add: reads_ok_def)
  have "(\<lambda>u. read_pc (upc y u)) = ?in" using sem_lock.taken_inside [OF s, of t] assms(3,4) by auto
  moreover have "\<not> write_pc pc" using assms(4) by (cases pc) simp_all
  ultimately show ?thesis using assms sem_lock.owner_runs [OF s] by (auto simp: reads_ok_def)
qed

lemma reads_ok_finish:
  assumes "reads_ok (Some t) x" "upc x t = RHead n g" "uhwr y = uhwr x" "rdone y = rdone x @ [g]" "upc y = (upc x)(t := Idle)"
    and "udrv y = (udrv x)\<lparr>read_lock := sem_signal (read_lock (udrv x)) k\<rparr>"
  shows "\<exists>ow. reads_ok ow y"
proof -
  let ?in = "\<lambda>t. read_pc (upc x t)"
  have s: "sem_lock_state (read_lock (udrv x)) ?in (Some t)" using assms(1) by (simp add: reads_ok_def)
  have "?in(t := False) = (\<lambda>u. read_pc (upc y u))" using assms(5) by auto
  then have l: "sem_lock_state (read_lock (udrv y)) (\<lambda>u. read_pc (upc y u)) (case squeue (read_lock (udrv x)) of [] \<Rightarrow> None | u # q \<Rightarrow> Some u)"
    using sem_lock.signal_next [OF s, of k] assms(6) by simp
  have n: "\<exists>b. upc y u = RLock b" if "u \<in> set (squeue (read_lock (udrv x)))" for u
    using that assms(1,5) sem_lock.owner_runs [OF s] by (auto simp: reads_ok_def)
  have q: "squeue (read_lock (udrv y)) = tl (squeue (read_lock (udrv x)))" using assms(6) by (simp add: sem_signal_def signal_fields)
  have c: "quiet [] y" "rx_log (uhwr y) = rbr_log (uhwr y) @ rx_fifo (uhwr y)" "\<forall>u. \<not> write_pc (upc y u)"
    using assms by (simp_all add: reads_ok_def quiet_def)
  show ?thesis
  proof (cases "squeue (read_lock (udrv x))")
    case Nil
    then have "reads_ok None y" using l q c by (simp add: reads_ok_def)
    then show ?thesis by blast
  next
    case (Cons u r)
    then obtain b where "upc y u = RLock b" using n by auto
    then have "reads_ok (Some u) y" using l q c n Cons by (simp add: reads_ok_def)
    then show ?thesis by blast
  qed
qed

lemma read_run_ok:
  assumes "reads_ok ow x" "read_run k t x = Some y" "current_thread k = t"
  shows "\<exists>ow. reads_ok ow y"
proof -
  have pc: "read_pc (upc x t)" using assms(2) by (cases "upc x t") (auto simp: read_run_def)
  moreover have "(\<forall>n. upc x t \<noteq> RLock n) \<or> t \<notin> set (squeue (read_lock (udrv x)))"
    using assms(2) by (auto simp: read_run_def split: if_splits)
  ultimately have ow: "reads_ok (Some t) x" using reader_owns [OF assms(1)] assms(1) by blast
  then have l: "reader_at (upc x t) t x" "rx_log (uhwr x) = rbr_log (uhwr x) @ rx_fifo (uhwr x)" by (auto simp: reads_ok_def)
  note keep = exI [where P = "\<lambda>ow. reads_ok ow y", OF reads_ok_owner [OF ow]]
  note defs = read_run_def Let_def goto_def quiet_def asked_def delivered_def write_IER_def sem_steps assms(3)
  show ?thesis
  proof (cases "upc x t")
    case (RHead n g)
    show ?thesis
    proof (cases "length g < n")
      case True
      then show ?thesis using assms(2) RHead l by (intro keep) (auto simp: defs)
    next
      case False
      then show ?thesis using assms(2) RHead by (intro reads_ok_finish [OF ow RHead, of y k]) (auto simp: read_run_def Let_def goto_def)
    qed
  next
    case (RLock n)
    then show ?thesis using assms(2) l by (intro keep) (auto simp: defs split: if_splits)
  next
    case (RLoad n g v)
    then show ?thesis using assms(2) l by (intro keep) (auto simp: defs)
  next
    case (RArm n g)
    then show ?thesis using assms(2) l by (intro keep) (auto simp: defs)
  next
    case (RWait n g)
    then show ?thesis using assms(2) l by (intro keep) (auto simp: defs split: if_splits)
  qed (use pc in simp_all)
qed

text \<open>The interrupt delivers the byte that was asked for.\<close>

lemma reads_ok_irq:
  assumes "reads_ok ow x" "IIR (uhwr x) \<noteq> 1" "uart_isr k (udrv x) (uhwr x) = (u, h)"
  shows "\<exists>ow. reads_ok ow (x\<lparr>udrv := u, uhwr := h\<rparr>)" (is "\<exists>ow. reads_ok ow ?y")
proof -
  have "ier (uhwr x) \<noteq> 0" using assms(2) by (auto simp: IIR_def split: if_splits)
  then obtain t where t: "ow = Some t" "reader_at (upc x t) t x" "ier (uhwr x) = IER_RBR"
    using assms(1) by (cases ow; cases "upc x (the ow)") (auto simp: reads_ok_def quiet_def asked_def delivered_def)
  then obtain b r where b: "rx_fifo (uhwr x) = b # r" using assms(2) by (cases "rx_fifo (uhwr x)") (auto simp: IIR_def)
  have e: "h = (uhwr x)\<lparr>ier := 0, rx_fifo := r, rbr_log := rbr_log (uhwr x) @ [b]\<rparr>"
    "u = (udrv x)\<lparr>read_buf := b, read_sem := sem_signal (read_sem (udrv x)) k\<rparr>"
    using assms(3) t(3) b by (auto simp: uart_isr_def read_IIR_def IIR_def read_RBR_def write_IER_def Let_def)
  have "reader_at (upc x t) t ?y"
    using t(2,3) by (cases "upc x t") (auto simp: e quiet_def asked_def delivered_def sem_steps)
  then have "reads_ok (Some t) ?y"
    using assms(1) t(1) b by (intro reads_ok_owner [of t x ?y "upc x t"]) (cases "upc x t"; auto simp: reads_ok_def e)+
  then show ?thesis by blast
qed

text \<open>No call writes.\<close>

fun no_writer :: "uart_event \<Rightarrow> bool" where
  "no_writer (Begin_write t buf) = False"
| "no_writer e = True"

lemma reads_ok_device:
  assumes "reads_ok ow x" "ier h = ier (uhwr x)" "rbr_log h = rbr_log (uhwr x)" "rx_log h = rbr_log h @ rx_fifo h"
  shows "reads_ok ow (x\<lparr>uhwr := h\<rparr>)"
proof -
  have "reader_at pc t (x\<lparr>uhwr := h\<rparr>) = reader_at pc t x" for pc t
    using assms(2,3) by (cases pc) (simp_all add: quiet_def asked_def delivered_def)
  then show ?thesis using assms by (simp add: reads_ok_def quiet_def split: option.splits)
qed

lemma uart_event_reads_ok:
  assumes "reads_ok ow x" "no_writer e" "uart_event k e x = Some y"
  shows "\<exists>ow. reads_ok ow y"
proof (cases e)
  case (Begin_read t n)
  then show ?thesis using assms read_begin_ok [of ow x "k\<lparr>current_thread := t\<rparr>" n]
    by (auto simp: uart_event_def split: if_splits)
next
  case (Run t)
  have "write_run (k\<lparr>current_thread := t\<rparr>) t x = None"
  proof -
    have "\<not> write_pc (upc x t)" using assms(1) by (simp add: reads_ok_def)
    then show ?thesis by (cases "upc x t") (simp_all add: write_run_def)
  qed
  then show ?thesis using Run assms(3) read_run_ok [OF assms(1), of "k\<lparr>current_thread := t\<rparr>" t y] by (simp add: uart_event_def)
next
  case Irq
  then show ?thesis using assms(1,3) reads_ok_irq [of ow x k]
    by (cases "uart_isr k (udrv x) (uhwr x)") (auto simp: uart_event_def split: if_splits)
next
  case Tx
  then obtain h where h: "tx_step (uhwr x) = Some h" "y = x\<lparr>uhwr := h\<rparr>" using assms(3) by (auto simp: uart_event_def)
  show ?thesis unfolding h(2)
    by (rule exI, rule reads_ok_device [OF assms(1)]) (use h(1) assms(1) in \<open>auto simp: tx_step_def reads_ok_def split: list.splits\<close>)
next
  case (Rx b)
  then obtain h where h: "rx_step b (uhwr x) = Some h" "y = x\<lparr>uhwr := h\<rparr>" using assms(3) by (auto simp: uart_event_def)
  show ?thesis unfolding h(2)
    by (rule exI, rule reads_ok_device [OF assms(1)]) (use h(1) assms(1) in \<open>auto simp: rx_step_def reads_ok_def split: if_splits\<close>)
qed (use assms(2) in simp)

lemma reads_ok_reachable: "(uart_step no_writer)\<^sup>*\<^sup>* uart_start x \<Longrightarrow> \<exists>ow. reads_ok ow x"
proof (induction rule: rtranclp_induct)
  case base
  show ?case
    by (rule exI [of _ None]) (simp add: reads_ok_def uart_start_def uart_init_def sem_lock_state_def quiet_def semaphore_init_def)
next
  case (step y z)
  then show ?case using uart_event_reads_ok by (blast elim: uart_step.cases)
qed

text \<open>A reader inside is not stuck, unless it waits for a byte and none has arrived.\<close>

lemma reader_goes_on:
  assumes "reads_ok ow x" "read_pc (upc x u)" "rx_fifo (uhwr x) \<noteq> []"
  shows "\<exists>e y. e \<in> insert Irq (range Run) \<and> uart_event k e x = Some y"
proof -
  obtain t where ow: "ow = Some t" "reader_at (upc x t) t x"
    using assms(1,2) sem_lock.free_empty [of "read_lock (udrv x)" "\<lambda>t. read_pc (upc x t)" u] by (cases ow) (auto simp: reads_ok_def)
  have tq: "t \<notin> set (squeue (read_lock (udrv x)))"
    using assms(1) ow(1) sem_lock.owner_runs [of "read_lock (udrv x)" "\<lambda>t. read_pc (upc x t)" t] by (simp add: reads_ok_def)
  show ?thesis
  proof (cases "ier (uhwr x) = IER_RBR")
    case True
    then have "IIR (uhwr x) \<noteq> 1" using assms(3) by (simp add: IIR_def)
    then have "\<exists>y. uart_event k Irq x = Some y" by (simp add: uart_event_def)
    then show ?thesis by blast
  next
    case False
    then have "\<exists>y. read_run (k\<lparr>current_thread := t\<rparr>) t x = Some y"
      using ow(2) tq by (cases "upc x t") (auto simp: read_run_def Let_def asked_def delivered_def)
    then have "\<exists>y. uart_event k (Run t) x = Some y" by (auto simp: uart_event_def split: option.split)
    then show ?thesis by blast
  qed
qed

section \<open>Running a schedule\<close>

fun uart_events :: "kernel \<Rightarrow> uart_event list \<Rightarrow> usys \<Rightarrow> usys option" where
  "uart_events k [] x = Some x"
| "uart_events k (e # es) x = (case uart_event k e x of None \<Rightarrow> None | Some y \<Rightarrow> uart_events k es y)"

lemma uart_events_reach: "uart_events k es x = Some y \<Longrightarrow> list_all P es \<Longrightarrow> (uart_step P)\<^sup>*\<^sup>* x y"
proof (induction es arbitrary: x)
  case (Cons e es)
  then obtain z where "uart_event k e x = Some z" "uart_events k es z = Some y" by (auto split: option.splits)
  then show ?case using Cons by (auto intro: converse_rtranclp_into_rtranclp uart_step.event)
qed simp

lemmas uart_eval = uart_event_def uart_start_def uart_init_def semaphore_init_def write_begin_def read_begin_def goto_def
  write_run_def read_run_def Let_def write_IER_def write_THR_def uart_isr_def read_IIR_def read_RBR_def IIR_def tx_step_def rx_step_def
  sem_room_def sem_wait_def sem_signal_def semaphore_wait_def semaphore_signal_def word_sle_eq

section \<open>Properties\<close>

text \<open>
  C40. Writes are exclusive and exact: however any number of threads in \<open>write_op\<close> and \<open>read_op\<close>, the interrupt and
  the device interleave, the bytes handed to the device are the whole buffers of the calls that returned,
  one after the other in the order of their returns, followed by a beginning of the buffer of at
  most one other call.
\<close>

theorem writes_exclusive:
  assumes "(uart_step P)\<^sup>*\<^sup>* uart_start x"
  shows "\<exists>part. thr_log (uhwr x) = concat (wdone x) @ part
     \<and> (part = [] \<or> (\<exists>t. part = written (upc x t) \<and> (\<forall>u. u \<noteq> t \<longrightarrow> written (upc x u) = [])))"
proof -
  obtain ow where ow: "writes_ok ow x" using writes_ok_reachable [OF assms] by blast
  show ?thesis
  proof (cases ow)
    case None
    then show ?thesis using ow by (auto simp: writes_ok_def)
  next
    case (Some t)
    have "written (upc x u) = []" if "u \<noteq> t" for u
    proof (cases "write_pc (upc x u) \<and> (\<forall>buf. upc x u \<noteq> WLock buf)")
      case True
      then show ?thesis using writer_owns [OF ow, of u] Some that by simp
    next
      case False
      then show ?thesis by (cases "upc x u") auto
    qed
    then show ?thesis using ow Some by (auto simp: writes_ok_def)
  qed
qed

theorem writes_exclusive_witness:
  "\<exists>x. (uart_step (\<lambda>_. True))\<^sup>*\<^sup>* uart_start x \<and> thr_log (uhwr x) = [1]
     \<and> (\<exists>part. [1] = concat (wdone x) @ part)"
proof -
  let ?es = "[Begin_write 1 [1, 2], Begin_write 2 [3], Run 1, Run 1, Run 1, Irq, Run 1, Run 1]"
  obtain x where x: "uart_events demo_kernel ?es uart_start = Some x" "thr_log (uhwr x) = [1]"
    by (simp add: uart_eval demo_kernel_def)
  have "(uart_step (\<lambda>_. True))\<^sup>*\<^sup>* uart_start x" using uart_events_reach [OF x(1)] by simp
  from this writes_exclusive [OF this] x(2) show ?thesis by auto
qed

text \<open>
  C37. Without writers no received byte is lost or delivered twice: however any number of threads in
  \<open>read_op\<close>, the interrupt and the device interleave, the bytes the device has received are those of the
  calls that returned, in the order of their returns, then those the reading thread has, at most one
  in the buffer of the driver, and those in the FIFO; and while a thread reads and a byte is in
  the FIFO, the interrupt is pending or a thread can go on.
\<close>

theorem reads_complete:
  assumes "(uart_step no_writer)\<^sup>*\<^sup>* uart_start x"
  shows "(\<exists>part pend. rx_log (uhwr x) = concat (rdone x) @ part @ pend @ rx_fifo (uhwr x) \<and> length pend \<le> 1
       \<and> (part = [] \<or> (\<exists>t. part = got (upc x t))))
     \<and> ((\<exists>u. read_pc (upc x u)) \<and> rx_fifo (uhwr x) \<noteq> [] \<longrightarrow>
          (\<exists>e y. e \<in> insert Irq (range Run) \<and> uart_event k e x = Some y))"
proof -
  obtain ow where ow: "reads_ok ow x" using reads_ok_reachable [OF assms] by blast
  have "\<exists>part pend. rx_log (uhwr x) = concat (rdone x) @ part @ pend @ rx_fifo (uhwr x) \<and> length pend \<le> 1
       \<and> (part = [] \<or> (\<exists>t. part = got (upc x t)))"
  proof (cases ow)
    case None
    then have "rx_log (uhwr x) = concat (rdone x) @ [] @ [] @ rx_fifo (uhwr x)" using ow by (simp add: reads_ok_def quiet_def)
    then show ?thesis by fastforce
  next
    case (Some t)
    then have "\<exists>pend. rx_log (uhwr x) = concat (rdone x) @ got (upc x t) @ pend @ rx_fifo (uhwr x) \<and> length pend \<le> 1"
      using ow by (cases "upc x t") (auto simp: reads_ok_def quiet_def asked_def delivered_def intro: exI [of _ "[]"] exI [of _ "[read_buf (udrv x)]"])
    then show ?thesis by blast
  qed
  then show ?thesis using reader_goes_on [OF ow] by blast
qed

theorem reads_complete_witness:
  "\<exists>x. (uart_step no_writer)\<^sup>*\<^sup>* uart_start x \<and> rdone x = [[0x61, 0x62]]
     \<and> (\<exists>part pend. rx_log (uhwr x) = [0x61, 0x62] @ part @ pend @ rx_fifo (uhwr x))"
proof -
  let ?es = "[Rx 0x61, Begin_read 1 2, Run 1, Run 1, Run 1, Irq, Run 1, Run 1, Run 1, Run 1, Run 1, Rx 0x62, Irq, Run 1, Run 1]"
  obtain x where x: "uart_events demo_kernel ?es uart_start = Some x" "rdone x = [[0x61, 0x62]]"
    by (simp add: uart_eval demo_kernel_def)
  have r: "(uart_step no_writer)\<^sup>*\<^sup>* uart_start x" using uart_events_reach [OF x(1)] by simp
  have "\<exists>part pend. rx_log (uhwr x) = concat (rdone x) @ part @ pend @ rx_fifo (uhwr x)"
    using reads_complete [OF r, of demo_kernel] by blast
  then show ?thesis using r x(2) by (intro exI [of _ x]) simp
qed

section \<open>Readers together with writers\<close>

text \<open>
  \<open>IER\<close> is changed by loading and storing it. A writer that is interrupted in between stores the bit for
  received bytes again that the interrupt has cleared, and a second interrupt overwrites the byte the
  reader has not fetched yet.
\<close>

theorem race_loses_byte:
  "\<exists>x. (uart_step (\<lambda>_. True))\<^sup>*\<^sup>* uart_start x \<and> rx_log (uhwr x) = [0x61, 0x62] \<and> rdone x = [[0x62, 0x62]]"
proof -
  let ?es = "[Begin_read 1 2, Run 1, Run 1, Run 1, Begin_write 2 [0x41], Run 2, Run 2, Rx 0x61, Irq, Run 2, Rx 0x62, Irq,
      Run 1, Run 1, Run 1, Run 1, Run 1, Run 1, Run 1]"
  obtain x where x: "uart_events demo_kernel ?es uart_start = Some x" "rx_log (uhwr x) = [0x61, 0x62]" "rdone x = [[0x62, 0x62]]"
    by (simp add: uart_eval demo_kernel_def)
  have "(uart_step (\<lambda>_. True))\<^sup>*\<^sup>* uart_start x" using uart_events_reach [OF x(1)] by simp
  with x(2,3) show ?thesis by blast
qed

text \<open>
  A reader that loaded \<open>IER\<close> before a writer has enabled the transmit interrupt disables it again. The
  writer then waits for an interrupt that cannot come, and keeps the lock.
\<close>

definition stuck_writer :: "nat \<Rightarrow> usys \<Rightarrow> bool" where
  "stuck_writer w x \<longleftrightarrow> writes_ok (Some w) x \<and> w \<in> set (squeue (write_sem (udrv x))) \<and> (\<exists>buf i. upc x w = WWait buf i)
     \<and> \<not> bit (ier (uhwr x)) 1 \<and> (\<forall>t n g v. upc x t = RLoad n g v \<longrightarrow> \<not> bit v 1)"

lemma thre_bit: "v AND IER_THRE = 0 \<longleftrightarrow> \<not> bit v 1"
  using and_exp_eq_0_iff [of v 1] by simp

lemma bit_1_or: "bit (v OR IER_RBR) (Suc 0) = bit v (Suc 0)" for v :: u32
  by (simp add: bit_simps)

lemma stuck_writer_step:
  assumes "stuck_writer w x" "uart_event k e x = Some y"
  shows "stuck_writer w y \<and> upc y w = upc x w \<and> wdone y = wdone x"
proof -
  have ow: "writes_ok (Some w) x" and q: "w \<in> set (squeue (write_sem (udrv x)))" and b: "\<not> bit (ier (uhwr x)) 1"
    and ld: "\<And>t n g v. upc x t = RLoad n g v \<Longrightarrow> \<not> bit v 1"
    using assms(1) by (auto simp: stuck_writer_def)
  obtain buf i where pc: "upc x w = WWait buf i" using assms(1) by (auto simp: stuck_writer_def)
  have others: "write_run (k\<lparr>current_thread := t\<rparr>) t x = None" for t
  proof (cases "write_pc (upc x t)")
    case True
    show ?thesis
    proof (cases "t = w")
      case False
      then obtain b' where "upc x t = WLock b'" "t \<in> set (squeue (write_lock (udrv x)))" using True writer_owns [OF ow, of t] by blast
      then show ?thesis by (simp add: write_run_def)
    qed (use pc q in \<open>simp add: write_run_def\<close>)
  next
    case False
    then show ?thesis by (cases "upc x t") (simp_all add: write_run_def)
  qed
  have y: "w \<in> set (squeue (write_sem (udrv y))) \<and> upc y w = WWait buf i \<and> \<not> bit (ier (uhwr y)) 1
      \<and> (\<forall>t n g v. upc y t = RLoad n g v \<longrightarrow> \<not> bit v 1) \<and> wdone y = wdone x"
  proof (cases e)
    case (Run t)
    then have r: "read_run (k\<lparr>current_thread := t\<rparr>) t x = Some y" using assms(2) others by (simp add: uart_event_def)
    moreover have "t \<noteq> w" using r pc by (auto simp: read_run_def)
    ultimately show ?thesis using q b pc ld
      by (cases "upc x t") (auto simp: read_run_def Let_def goto_def write_IER_def bit_1_or split: if_splits)
  next
    case Irq
    then have "IIR (uhwr x) = IIR_RBR" using assms(2) b by (auto simp: uart_event_def IIR_def thre_bit split: if_splits)
    then show ?thesis using Irq assms(2) q b pc ld
      by (auto simp: uart_event_def uart_isr_def read_IIR_def read_RBR_def write_IER_def Let_def bit_and_iff split: list.splits)
  next
    case Tx
    then show ?thesis using assms(2) q b pc ld by (auto simp: uart_event_def tx_step_def split: list.splits)
  next
    case (Rx c)
    then show ?thesis using assms(2) q b pc ld by (auto simp: uart_event_def rx_step_def split: if_splits)
  qed (use assms(2) q b pc ld in \<open>auto simp: uart_event_def write_begin_def read_begin_def goto_def split: if_splits\<close>)
  moreover obtain ow' where ow': "writes_ok ow' y" using uart_event_writes_ok [OF ow assms(2)] by blast
  moreover have "ow' = Some w" using writer_owns [OF ow', of w] y by simp
  ultimately show ?thesis using pc by (auto simp: stuck_writer_def)
qed

theorem race_hangs_writer:
  "\<exists>x. (uart_step (\<lambda>_. True))\<^sup>*\<^sup>* uart_start x \<and> upc x 2 = WWait [0x41] 0
     \<and> (\<forall>y. (uart_step (\<lambda>_. True))\<^sup>*\<^sup>* x y \<longrightarrow> upc y 2 \<noteq> Idle \<and> thr_log (uhwr y) = [])"
proof -
  let ?es = "[Begin_read 1 1, Run 1, Run 1, Begin_write 2 [0x41], Run 2, Run 2, Run 2, Run 1, Run 2]"
  obtain x where x: "uart_events demo_kernel ?es uart_start = Some x" "upc x 2 = WWait [0x41] 0"
    "2 \<in> set (squeue (write_sem (udrv x)))" "ier (uhwr x) = 1" "upc x = (\<lambda>_. Idle)(1 := RArm 1 [], 2 := WWait [0x41] 0)" "wdone x = []"
    by (simp add: uart_eval demo_kernel_def)
  have r: "(uart_step (\<lambda>_. True))\<^sup>*\<^sup>* uart_start x" using uart_events_reach [OF x(1)] by simp
  obtain ow where ow: "writes_ok ow x" using writes_ok_reachable [OF r] by blast
  have "ow = Some 2" using writer_owns [OF ow, of 2] x(2) by simp
  then have st: "stuck_writer 2 x" using ow x by (auto simp: stuck_writer_def bit_simps split: if_splits)
  have "stuck_writer 2 y \<and> wdone y = [] \<and> upc y 2 = WWait [0x41] 0" if "(uart_step (\<lambda>_. True))\<^sup>*\<^sup>* x y" for y
    using that
  proof (induction rule: rtranclp_induct)
    case (step y z)
    then obtain k e where e: "uart_event k e y = Some z" by (auto elim: uart_step.cases)
    then show ?case using stuck_writer_step [OF _ e, of 2] step.IH by auto
  qed (use st x in simp)
  then have "upc y 2 \<noteq> Idle \<and> thr_log (uhwr y) = []" if "(uart_step (\<lambda>_. True))\<^sup>*\<^sup>* x y" for y
    using that by (fastforce simp: stuck_writer_def writes_ok_def)
  then show ?thesis using r x(2) by blast
qed

section \<open>Polling a serial device\<close>

text \<open>
  What polling relies on: reading the status loses nothing, tells whether the transmitter can take a
  byte, and does so after finitely many reads; a byte written then is sent behind those before it.
\<close>

locale serial_device =
  fixes lsr :: "'h \<Rightarrow> u32 \<times> 'h" and thr :: "u8 \<Rightarrow> 'h \<Rightarrow> 'h"
    and sent :: "'h \<Rightarrow> u8 list" and free :: "'h \<Rightarrow> bool" and backlog :: "'h \<Rightarrow> nat"
  assumes lsr_keeps: "sent (snd (lsr h)) = sent h"
    and lsr_tells: "fst (lsr h) AND LSR_THRE = LSR_THRE \<longleftrightarrow> free (snd (lsr h))"
    and lsr_progress: "\<not> free (snd (lsr h)) \<Longrightarrow> backlog (snd (lsr h)) < backlog h"
    and thr_sends: "free h \<Longrightarrow> sent (thr b h) = sent h @ [b]"
begin

lemma wait_ends: "\<exists>h'. wait_lsr lsr LSR_THRE h = Some h' \<and> free h' \<and> sent h' = sent h"
proof (induction "backlog h" arbitrary: h rule: less_induct)
  case less
  obtain v h1 where l: "lsr h = (v, h1)" by (cases "lsr h")
  show ?case
  proof (cases "free h1")
    case True
    then show ?thesis using l lsr_tells [of h] lsr_keeps [of h] by (subst wait_lsr.simps) simp
  next
    case False
    then show ?thesis using l lsr_tells [of h] lsr_keeps [of h] lsr_progress [of h] less [of h1]
      by (subst wait_lsr.simps) auto
  qed
qed

lemma poll_write_sends: "\<exists>h'. poll_write lsr thr buf h = Some h' \<and> sent h' = sent h @ buf"
proof (induction buf arbitrary: h)
  case (Cons b buf)
  obtain h1 where h1: "wait_lsr lsr LSR_THRE h = Some h1" "free h1" "sent h1 = sent h" using wait_ends by blast
  obtain h2 where "poll_write lsr thr buf (thr b h1) = Some h2" "sent h2 = sent (thr b h1) @ buf" using Cons.IH by blast
  then show ?case using h1 thr_sends [OF h1(2), of b] by simp
qed simp

end

text \<open>The device: at every read of its status it may have sent a byte.\<close>

definition read_LSR :: "uhw \<Rightarrow> u32 \<times> uhw" where
  "read_LSR h =
     (let h = (case tx_step h of None \<Rightarrow> h | Some h \<Rightarrow> h)
      in ((if tx_fifo h = [] then LSR_THRE OR LSR_TEMT else 0) OR (if rx_fifo h = [] then 0 else LSR_RDR), h))"

interpretation serial: serial_device read_LSR write_THR "\<lambda>h. sent_bytes h @ tx_fifo h" "\<lambda>h. tx_fifo h = []" "\<lambda>h. length (tx_fifo h)"
  by unfold_locales (auto simp: read_LSR_def write_THR_def tx_step_def Let_def split: list.splits)

text \<open>
  Polled output is complete: a write from an interrupt ends, and behind what the device still had to
  send it has sent or holds exactly the given bytes.
\<close>

theorem polled_write_complete:
  "\<exists>h'. poll_write read_LSR write_THR buf h = Some h' \<and> sent_bytes h' @ tx_fifo h' = sent_bytes h @ tx_fifo h @ buf"
  using serial.poll_write_sends [of buf h] by simp

section \<open>The baud rate\<close>

text \<open>
  The divisor latches hold the largest divisor whose rate is not below the asked one: with \<open>n\<close> in
  the two latches, 16 times \<open>n\<close> times the baud rate is at most the clock, and more than the clock
  with \<open>n + 1\<close>.
\<close>

theorem uart_rate:
  assumes "unat clock div (16 * unat baud) < 65536" "baud \<noteq> 0"
  shows "\<exists>r'. uart_registers clock baud r = Inr r' \<and> LCR r' = 3
     \<and> (let n = unat (DLM r') * 256 + unat (DLL r') in 16 * n * unat baud \<le> unat clock \<and> unat clock < 16 * (n + 1) * unat baud)"
proof -
  define f where "f = clock div 16 div baud"
  have uf: "unat f = unat clock div (16 * unat baud)" by (simp add: f_def unat_div div_mult2_eq)
  have "unat (ucast (f div 256) :: u8) = unat f div 256" "unat (ucast (f mod 256) :: u8) = unat f mod 256"
    using assms(1) uf by (simp_all add: unsigned_ucast_eq unat_div unat_mod take_bit_nat_eq_self)
  then have n: "unat (ucast (f div 256) :: u8) * 256 + unat (ucast (f mod 256) :: u8) = unat f" by simp
  have b: "0 < 16 * unat baud" using assms(2) by (simp add: unat_gt_0)
  have "16 * unat baud * unat f \<le> unat clock" unfolding uf by (rule times_div_less_eq_dividend)
  then have "16 * unat f * unat baud \<le> unat clock" by (simp only: ac_simps)
  moreover have "unat clock < 16 * (unat f + 1) * unat baud"
    using dividend_less_times_div [OF b, of "unat clock"] unfolding uf by (simp add: algebra_simps)
  moreover obtain r' where r': "uart_registers clock baud r = Inr r'" "LCR r' = 3" "DLM r' = ucast (f div 256)" "DLL r' = ucast (f mod 256)"
    using assms(2) by (simp add: uart_registers_def uart_divisor_def Let_def f_def)
  ultimately show ?thesis by (intro exI [of _ r']) (simp only: Let_def r' n simp_thms)
qed

definition demo_uregs :: uregs where
  "demo_uregs = \<lparr>PIO1_6 = 0, PIO1_7 = 0, SYSAHBCLKCTRL = 0, UARTCLKDIV = 0, DLM = 0, DLL = 0, FDR = 0, LCR = 0, FCR = 0\<rparr>"

theorem uart_rate_witness: "\<exists>r'. uart_registers 48000000 57600 demo_uregs = Inr r' \<and> LCR r' = 3"
  using uart_rate [of 48000000 57600 demo_uregs] by auto

end
