(* ===== verification/Arch_Systick.thy ===== *)
theory Arch_Systick
  imports Core_Timer
begin

text \<open>
  The system tick timer, \<^verbatim>\<open>src/arch/arm-m/systick.c\<close>, with the clocks of
  \<^verbatim>\<open>src/platform/lpc11xx/clock.c\<close>, and its composition with the managed timeouts of
  \<^verbatim>\<open>Core_Timer\<close>.

  \<^item> The register block is a record; \<open>LOAD\<close> and \<open>VAL\<close> are the values written. Reading \<open>VAL\<close>
    on the hardware gives the current count, so \<open>systick_remaining\<close> takes the count from the
    record. \<open>SystemCoreClock\<close> (vendor code) is the parameter \<open>main\<close>.
  \<^item> \<open>herz_t\<close> is unsigned and \<open>millitime_t\<close> signed: mixed products are unsigned and wrap, a
    quotient assigned to a \<open>millitime_t\<close> is read with its sign.
  \<^item> The interrupt handler of the timer calls the handler that \<^verbatim>\<open>core/timer.c\<close> installed. That
    handler reprograms the hardware through \<open>timer->ops\<close>; \<open>drive\<close> applies the last request it
    made to the registers.

  \<^item> The counter counts from \<open>LOAD\<close> to 0, so a period of the hardware is \<open>LOAD + 1\<close> ticks
    (\<open>period_ticks\<close>); the code takes it for \<open>LOAD\<close>. The time between an interrupt and the moment its handler
    sets the timer again is not counted.

  Shown: every request fits the 24 bit counter, and a timeout of any length is reached by
  however many full periods it needs, one tick of the clock late for each period.
\<close>

section \<open>Registers and operations\<close>

record systick_regs =
  CTRL :: u32
  LOAD :: u32
  VAL :: u32

abbreviation kCtrlClockSource :: u32 where "kCtrlClockSource \<equiv> 4"
abbreviation kCtrlTickInt :: u32 where "kCtrlTickInt \<equiv> 2"
abbreviation kCtrlEnable :: u32 where "kCtrlEnable \<equiv> 1"
abbreviation kMaxLoadValue :: u32 where "kMaxLoadValue \<equiv> 0xFFFFFF"

definition clock_get_main :: "u32 \<Rightarrow> u32" where
  "clock_get_main main = main"

definition clock_systick_reference :: "u32 \<Rightarrow> u32" where
  "clock_systick_reference main = clock_get_main main div 2"

definition systick_clock :: "u32 \<Rightarrow> systick_regs \<Rightarrow> u32" where
  "systick_clock main r =
     (if CTRL r AND kCtrlClockSource \<noteq> 0 then clock_get_main main else clock_systick_reference main)"

definition systick_get :: "u32 \<Rightarrow> systick_regs \<Rightarrow> fault + int" where
  "systick_get main r =
     (if systick_clock main r = 0 then Inl Div_By_Zero
      else Inr (sint (LOAD r * 1000 div systick_clock main r)))"

definition systick_remaining :: "u32 \<Rightarrow> systick_regs \<Rightarrow> fault + int" where
  "systick_remaining main r =
     (if systick_clock main r = 0 then Inl Div_By_Zero
      else Inr (sint (VAL r * 1000 div systick_clock main r)))"

definition systick_enable :: "systick_regs \<Rightarrow> systick_regs" where
  "systick_enable r = r\<lparr>CTRL := CTRL r OR (kCtrlEnable OR kCtrlTickInt)\<rparr>"

definition systick_disable :: "systick_regs \<Rightarrow> systick_regs" where
  "systick_disable r = r\<lparr>CTRL := CTRL r AND NOT (kCtrlEnable OR kCtrlTickInt)\<rparr>"

definition systick_set :: "u32 \<Rightarrow> int \<Rightarrow> systick_regs \<Rightarrow> fault + systick_regs" where
  "systick_set main time r =
     (let clock = systick_clock main r
      in if clock = 0 then Inl Div_By_Zero
         else
           (let maxPossibleValue = sint (1000 * kMaxLoadValue div clock);
                time = (if time > maxPossibleValue then maxPossibleValue else time)
            in Inr (systick_enable (r\<lparr>LOAD := clock div 1000 * word_of_int time, VAL := 0\<rparr>))))"

section \<open>The interrupt\<close>

definition drive :: "u32 \<Rightarrow> tsys \<Rightarrow> systick_regs \<Rightarrow> fault + systick_regs" where
  "drive main x r =
     (case programmed x of
        Some time \<Rightarrow> systick_set main time r
      | None \<Rightarrow> Inr (systick_disable r))"

text \<open>
  \<open>systick_handle_irq\<close>; \<open>other\<close> stands for handlers installed with \<open>timer_set_handler\<close>, which
  get the elapsed time.
\<close>

definition systick_handle_irq ::
  "u32 \<Rightarrow> nat \<Rightarrow> (nat \<Rightarrow> int \<Rightarrow> tsys \<Rightarrow> tsys) \<Rightarrow> (nat \<Rightarrow> nat \<Rightarrow> tsys \<Rightarrow> tsys) \<Rightarrow> systick_regs \<times> tsys
     \<Rightarrow> (fault + ((systick_regs \<times> tsys) \<times> tmo list)) option" where
  "systick_handle_irq main sizeof_timeout other call = (\<lambda>(r, x).
     if timer_hd x = No_Handler then Some (Inr ((r, x), []))
     else case systick_get main r of
       Inl e \<Rightarrow> Some (Inl e)
     | Inr elapsed \<Rightarrow>
         (case (case timer_hd x of
                  Other_Handler h \<Rightarrow> Some (Inr (other h elapsed x, []))
                | _ \<Rightarrow> timer_managedhandler sizeof_timeout call elapsed x) of
            None \<Rightarrow> None
          | Some (Inl e) \<Rightarrow> Some (Inl e)
          | Some (Inr (x, fired)) \<Rightarrow> Some (map_sum id (\<lambda>r. ((r, x), fired)) (drive main x r))))"

text \<open>The length of a period of the hardware in ticks of its clock.\<close>

definition period_ticks :: "systick_regs \<Rightarrow> nat" where
  "period_ticks r = unat (LOAD r) + 1"

text \<open>A number of interrupts one after the other, with everything that fired.\<close>

fun interrupts ::
  "('s \<Rightarrow> (fault + ('s \<times> 'f list)) option) \<Rightarrow> nat \<Rightarrow> 's \<Rightarrow> (fault + ('s \<times> 'f list)) option" where
  "interrupts isr 0 s = Some (Inr (s, []))"
| "interrupts isr (Suc n) s =
     (case isr s of
        Some (Inr (s, fired)) \<Rightarrow>
          map_option (map_sum id (\<lambda>(s, more). (s, fired @ more))) (interrupts isr n s)
      | r \<Rightarrow> r)"

text \<open>
  The ticks that pass until the interrupt that follows \<open>n\<close> others: the periods that run before each of
  them and before the last one.
\<close>

fun ticks_until :: "('r \<Rightarrow> nat) \<Rightarrow> ('r \<times> 'x \<Rightarrow> (fault + (('r \<times> 'x) \<times> 'f list)) option) \<Rightarrow> nat \<Rightarrow> 'r \<times> 'x \<Rightarrow> nat" where
  "ticks_until ticks isr 0 s = ticks (fst s)"
| "ticks_until ticks isr (Suc n) s =
     ticks (fst s) + (case isr s of Some (Inr (s, fired)) \<Rightarrow> ticks_until ticks isr n s | _ \<Rightarrow> 0)"

section \<open>Arithmetic of the counter\<close>

text \<open>\<open>1000 * kMaxLoadValue\<close> does not fit 32 bits; what is left of it limits the period.\<close>

definition wrapped_max :: nat where
  "wrapped_max = 3892313112"

lemma wrapped_max_eq: "unat (1000 * kMaxLoadValue :: u32) = wrapped_max"
  by (simp add: wrapped_max_def)

definition longest :: "u32 \<Rightarrow> int" where
  "longest clock = int (wrapped_max div unat clock)"

lemma longest_less:
  assumes "2 \<le> unat clock"
  shows "longest clock < 2 ^ 31"
proof -
  have "wrapped_max div unat clock \<le> wrapped_max div 2"
    using assms by (intro div_le_mono2) simp_all
  then show ?thesis by (simp add: longest_def wrapped_max_def)
qed

lemma sint_small: "uint w < 2 ^ 31 \<Longrightarrow> sint w = uint w" for w :: u32
  using signed_take_bit_int_eq_self [of 31 "uint w"] by (simp add: sint_uint order_trans [OF _ uint_ge_0])

lemma sint_max:
  assumes "2 \<le> unat clock"
  shows "sint (1000 * kMaxLoadValue div clock) = longest clock"
proof -
  have u: "uint (1000 * kMaxLoadValue div clock) = longest clock"
    by (simp add: uint_div longest_def wrapped_max_def zdiv_int)
  show ?thesis using sint_small [of "1000 * kMaxLoadValue div clock"] longest_less [OF assms] u by simp
qed

lemma period_bounds:
  fixes c t :: nat
  assumes "0 < c" "t \<le> wrapped_max div c"
  shows "c div 1000 * t * 1000 \<le> wrapped_max" "c div 1000 * t \<le> wrapped_max div 1000"
proof -
  have "c div 1000 * 1000 * t \<le> c * (wrapped_max div c)"
    using assms(2) by (intro mult_le_mono) simp_all
  also have "\<dots> \<le> wrapped_max" by simp
  finally show 1: "c div 1000 * t * 1000 \<le> wrapped_max" by (simp add: algebra_simps)
  then show "c div 1000 * t \<le> wrapped_max div 1000" by (simp add: less_eq_div_iff_mult_less_eq)
qed

lemma clock_enable [simp]: "systick_clock main (systick_enable r) = systick_clock main r"
proof -
  have "(CTRL r OR (kCtrlEnable OR kCtrlTickInt)) AND kCtrlClockSource = CTRL r AND kCtrlClockSource"
    by (simp add: bit.conj_disj_distrib2)
  then show ?thesis by (simp add: systick_clock_def systick_enable_def)
qed

lemma clock_counter [simp]:
  "systick_clock main (r\<lparr>LOAD := l, VAL := v\<rparr>) = systick_clock main r"
  by (simp add: systick_clock_def)

text \<open>The value of the reload register, and what \<open>systick_get\<close> makes of it.\<close>

lemma systick_set_load:
  assumes "2 \<le> unat (systick_clock main r)" "0 \<le> t" "t < 2 ^ 31"
    and "n = unat (systick_clock main r) div 1000 * nat (min t (longest (systick_clock main r)))"
  shows "systick_set main t r = Inr (systick_enable (r\<lparr>LOAD := of_nat n, VAL := 0\<rparr>))"
    and "n * 1000 \<le> wrapped_max" "n \<le> wrapped_max div 1000" "unat (of_nat n :: u32) = n"
proof -
  define c where "c = systick_clock main r"
  have c: "2 \<le> unat c" "c \<noteq> 0" using assms(1) by (auto simp: c_def)
  obtain m where m: "min t (longest c) = int m"
    using nonneg_int_cases [of "min t (longest c)"] assms(2) by (auto simp: longest_def)
  have n: "n = unat c div 1000 * m" using assms(4) m by (simp add: c_def)
  have le: "m \<le> wrapped_max div unat c" using m by (simp add: longest_def min_def split: if_splits)
  show b: "n * 1000 \<le> wrapped_max" "n \<le> wrapped_max div 1000"
    using period_bounds [OF _ le] c(1) by (simp_all add: n)
  then have "n < 2 ^ 32" by (simp add: wrapped_max_def)
  then show "unat (of_nat n :: u32) = n" by (simp add: unat_of_nat)
  have "c div 1000 = (of_nat (unat c div 1000) :: u32)"
    using word_arith_nat_div [of c 1000] by simp
  then have load: "c div 1000 * word_of_int (min t (longest c)) = (of_nat n :: u32)"
    by (simp add: m n)
  have clip: "(if t > longest c then longest c else t) = min t (longest c)" by (simp add: min_def)
  show "systick_set main t r = Inr (systick_enable (r\<lparr>LOAD := of_nat n, VAL := 0\<rparr>))"
    unfolding systick_set_def Let_def c_def [symmetric] sint_max [OF c(1)] clip load using c(2) by simp
qed


lemma systick_get_load:
  assumes "n * 1000 \<le> wrapped_max" "2 \<le> unat (systick_clock main r)" "LOAD r = of_nat n"
  shows "systick_get main r = Inr (int (n * 1000 div unat (systick_clock main r)))"
proof -
  let ?c = "systick_clock main r"
  have "unat (of_nat n * 1000 :: u32) = n * 1000"
    using assms(1) by (simp add: wrapped_max_def unat_word_ariths unat_of_nat)
  then have u: "unat (LOAD r * 1000 div ?c) = n * 1000 div unat ?c"
    by (simp add: assms(3) unat_div)
  have "n * 1000 div unat ?c \<le> wrapped_max div unat ?c" using assms(1) by (rule div_le_mono)
  moreover have U: "uint (LOAD r * 1000 div ?c) = int (n * 1000 div unat ?c)"
    using u by (metis uint_nat)
  ultimately have "uint (LOAD r * 1000 div ?c) < 2 ^ 31"
    using longest_less [OF assms(2)] by (simp add: longest_def)
  then have "sint (LOAD r * 1000 div ?c) = int (n * 1000 div unat ?c)"
    using sint_small [of "LOAD r * 1000 div ?c"] U by simp
  moreover have "?c \<noteq> 0" using assms(2) by auto
  ultimately show ?thesis by (simp add: systick_get_def)
qed

section \<open>Timeouts longer than a period\<close>

text \<open>
  What the managed timeouts need of timer hardware: a time that was set is the time that is
  reported at the interrupt, up to a limit, and takes one tick more than that many milliseconds;
  the interrupt hands it to the handler and then follows its last request.
\<close>

locale timer_hardware =
  fixes set_hw :: "int \<Rightarrow> 'r \<Rightarrow> fault + 'r"
    and get_hw :: "'r \<Rightarrow> fault + int"
    and ticks :: "'r \<Rightarrow> nat"
    and isr :: "'r \<times> tsys \<Rightarrow> (fault + (('r \<times> tsys) \<times> tmo list)) option"
    and ready :: "'r \<Rightarrow> bool"
    and limit :: int
    and rate :: nat
    and sz :: nat
    and call :: "nat \<Rightarrow> nat \<Rightarrow> tsys \<Rightarrow> tsys"
  assumes limit_pos: "0 < limit"
    and set_then_get: "\<lbrakk>ready r; 0 < t; t < 2 ^ 31\<rbrakk> \<Longrightarrow>
      \<exists>r'. set_hw t r = Inr r' \<and> ready r' \<and> get_hw r' = Inr (min t limit)
        \<and> int (ticks r') = int rate * min t limit + 1"
    and isr_follows: "\<lbrakk>timer_hd x = Managed_Handler; get_hw r = Inr e;
        timer_managedhandler sz call e x = Some (Inr (x', fired)); programmed x' = Some t; set_hw t r = Inr r'\<rbrakk> \<Longrightarrow>
      isr (r, x) = Some (Inr ((r', x'), fired))"
    and isr_faults: "\<lbrakk>timer_hd x = Managed_Handler; get_hw r = Inr e;
        timer_managedhandler sz call e x = Some (Inl f)\<rbrakk> \<Longrightarrow> isr (r, x) = Some (Inl f)"
begin

lemma counts_down:
  "ready r \<Longrightarrow> get_hw r = Inr (min (remaining t) limit) \<Longrightarrow> int (ticks r) = int rate * min (remaining t) limit + 1 \<Longrightarrow>
   timer_hd x = Managed_Handler \<Longrightarrow>
   managed_timeouts x = t # ts \<Longrightarrow> int n * limit < remaining t \<Longrightarrow> remaining t < 2 ^ 31 \<Longrightarrow>
   \<exists>r' x'. interrupts isr n (r, x) = Some (Inr ((r', x'), [])) \<and> ready r' \<and> timer_hd x' = Managed_Handler
     \<and> managed_timeouts x' = t\<lparr>remaining := remaining t - int n * limit\<rparr> # ts
     \<and> get_hw r' = Inr (min (remaining t - int n * limit) limit) \<and> heap (tkern x') = heap (tkern x)
     \<and> int (ticks_until ticks isr n (r, x)) = int rate * min (remaining t) ((int n + 1) * limit) + int n + 1"
proof (induction n arbitrary: r x t)
  case (Suc n)
  have gt: "limit < remaining t"
  proof -
    have "0 \<le> int n * limit" using limit_pos by simp
    with Suc.prems(6) show ?thesis by (simp add: distrib_right)
  qed
  obtain x1 where x1: "timer_managedhandler sz call limit x = Some (Inr (x1, []))"
    "managed_timeouts x1 = t\<lparr>remaining := remaining t - limit\<rparr> # ts"
    "programmed x1 = Some (remaining t - limit)" "timer_hd x1 = timer_hd x" "heap (tkern x1) = heap (tkern x)"
    using handler_early [OF Suc.prems(5), of limit sz call] gt limit_pos Suc.prems(7) by auto
  obtain r1 where r1: "set_hw (remaining t - limit) r = Inr r1" "ready r1"
    "get_hw r1 = Inr (min (remaining t - limit) limit)" "int (ticks r1) = int rate * min (remaining t - limit) limit + 1"
    using set_then_get [OF Suc.prems(1), of "remaining t - limit"] gt limit_pos Suc.prems(7) by auto
  have isr: "isr (r, x) = Some (Inr ((r1, x1), []))"
    using isr_follows [OF Suc.prems(4) _ x1(1,3) r1(1)] Suc.prems(2) gt by simp
  obtain r2 x2 where i: "interrupts isr n (r1, x1) = Some (Inr ((r2, x2), []))" "ready r2"
    "timer_hd x2 = Managed_Handler"
    "managed_timeouts x2 = t\<lparr>remaining := remaining t - limit - int n * limit\<rparr> # ts"
    "get_hw r2 = Inr (min (remaining t - limit - int n * limit) limit)" "heap (tkern x2) = heap (tkern x1)"
    "int (ticks_until ticks isr n (r1, x1)) = int rate * min (remaining t - limit) ((int n + 1) * limit) + int n + 1"
    using Suc.IH [OF r1(2), of "t\<lparr>remaining := remaining t - limit\<rparr>" x1] r1(3,4) x1(2,4) Suc.prems limit_pos
    by (auto simp: algebra_simps)
  have "min (remaining t - limit) ((int n + 1) * limit) + limit = min (remaining t) ((int (Suc n) + 1) * limit)"
    by (simp add: min_def distrib_right)
  then have "int rate * limit + int rate * min (remaining t - limit) ((int n + 1) * limit) =
      int rate * min (remaining t) ((int (Suc n) + 1) * limit)"
    by (metis add.commute distrib_left)
  then have "int (ticks_until ticks isr (Suc n) (r, x)) = int rate * min (remaining t) ((int (Suc n) + 1) * limit) + int (Suc n) + 1"
    using isr i(7) Suc.prems(3) gt by simp
  then show ?case using isr i(1-6) x1(5) by (simp add: algebra_simps)
qed simp

text \<open>The number of full periods before the interrupt at which a timeout is due.\<close>

lemma full_periods:
  assumes "0 < r"
  shows "int (nat ((r - 1) div limit)) * limit < r" "r \<le> (int (nat ((r - 1) div limit)) + 1) * limit"
proof -
  have "0 \<le> (r - 1) div limit" using assms limit_pos by (simp add: pos_imp_zdiv_nonneg_iff)
  moreover have "(r - 1) div limit * limit \<le> r - 1" "r - 1 < ((r - 1) div limit + 1) * limit"
    using div_mult_mod_eq [of "r - 1" limit] pos_mod_bound [OF limit_pos, of "r - 1"]
      pos_mod_sign [OF limit_pos, of "r - 1"] unfolding distrib_right by linarith+
  ultimately show "int (nat ((r - 1) div limit)) * limit < r" "r \<le> (int (nat ((r - 1) div limit)) + 1) * limit"
    by simp_all
qed

lemma fires_on_time:
  assumes "ready r" "get_hw r = Inr (min (remaining t) limit)" "int (ticks r) = int rate * min (remaining t) limit + 1"
    and "timer_hd x = Managed_Handler" "managed_timeouts x = t # ts" "0 < remaining t" "delta_ok (t # ts)" "quiet call"
    and "\<forall>u \<in> set (due_with t ts). reset_ok u"
    and "release_all sz (due_with t ts) (heap (tkern x)) = Some (Inr hp)"
  defines "n \<equiv> nat ((remaining t - 1) div limit)"
  shows "\<exists>r' x'. interrupts isr n (r, x) = Some (Inr ((r', x'), []))
     \<and> get_hw r' = Inr (remaining t - int n * limit)
     \<and> int (ticks_until ticks isr n (r, x)) = int rate * remaining t + int n + 1
     \<and> (if not_due ts = [] \<and> (\<forall>u \<in> set (due_with t ts). reset_time u = 0)
        then isr (r', x') = Some (Inl Null_Deref)
        else \<exists>r'' x'' fired. isr (r', x') = Some (Inr ((r'', x''), fired))
          \<and> map tmo_addr fired = map tmo_addr (due_with t ts)
          \<and> get_hw r'' = Inr (min (remaining (hd (managed_timeouts x''))) limit))"
proof -
  note per = full_periods [OF assms(6), folded n_def]
  let ?t = "t\<lparr>remaining := remaining t - int n * limit\<rparr>"
  obtain r' x' where a: "interrupts isr n (r, x) = Some (Inr ((r', x'), []))" "ready r'"
    "timer_hd x' = Managed_Handler" "managed_timeouts x' = ?t # ts"
    "get_hw r' = Inr (min (remaining t - int n * limit) limit)" "heap (tkern x') = heap (tkern x)"
    "int (ticks_until ticks isr n (r, x)) = int rate * min (remaining t) ((int n + 1) * limit) + int n + 1"
    using counts_down [OF assms(1-5) per(1)] assms(7) by auto
  have due: "get_hw r' = Inr (remaining ?t)" using a(5) per(2) by (simp add: algebra_simps)
  have tk: "int (ticks_until ticks isr n (r, x)) = int rate * remaining t + int n + 1" using a(7) per(2) by (simp add: min_def)
  have nn: "0 \<le> int n * limit" using limit_pos by simp
  have p2: "delta_ok (?t # ts)" "remaining ?t < 2 ^ 31" using assms(7) per(1) nn by simp_all
  have p6: "\<forall>u \<in> set (due_with ?t ts). reset_ok u" using assms(9) by simp
  have p7: "release_all sz (due_with ?t ts) (heap (tkern x')) = Some (Inr hp)"
    using assms(10) a(6) by (simp only: release_all_remaining)
  note h = handler_due [OF a(4) p2(1) assms(8) order_refl p2(2) p6 p7]
  have same: "map tmo_addr (due_with ?t ts) = map tmo_addr (due_with t ts)"
    "(\<forall>u \<in> set (due_with ?t ts). reset_time u = 0) = (\<forall>u \<in> set (due_with t ts). reset_time u = 0)" by simp_all
  show ?thesis
  proof (cases "not_due ts = [] \<and> (\<forall>u \<in> set (due_with t ts). reset_time u = 0)")
    case True
    then have "isr (r', x') = Some (Inl Null_Deref)"
      using h [unfolded same if_P [OF True]] by (intro isr_faults [OF a(3) due])
    then show ?thesis using True a(1) due tk by (intro exI [of _ r'] exI [of _ x']) simp
  next
    case False
    from h [unfolded same if_not_P [OF False]] obtain x'' fired where
      x'': "timer_managedhandler sz call (remaining ?t) x' = Some (Inr (x'', fired))" "map tmo_addr fired = map tmo_addr (due_with t ts)"
        "managed_timeouts x'' = fold rearm_into (due_with ?t ts) (not_due ts)" "managed_timeouts x'' \<noteq> []"
        "0 < remaining (hd (managed_timeouts x''))" "programmed x'' = Some (remaining (hd (managed_timeouts x'')))" by blast
    have "delta_ok (managed_timeouts x'')"
      unfolding x''(3) using p6 not_due_ok(1) [of ts] assms(7) by (intro delta_ok_fold_rearm) simp_all
    then have small: "remaining (hd (managed_timeouts x'')) < 2 ^ 31"
      using x''(4) by (cases "managed_timeouts x''") simp_all
    obtain r'' where r'': "set_hw (remaining (hd (managed_timeouts x''))) r' = Inr r''"
      "get_hw r'' = Inr (min (remaining (hd (managed_timeouts x''))) limit)"
      using set_then_get [OF a(2) x''(5) small] by auto
    have "isr (r', x') = Some (Inr ((r'', x''), fired))" by (rule isr_follows [OF a(3) due x''(1,6) r''(1)])
    then have "\<exists>r'' x'' fired. isr (r', x') = Some (Inr ((r'', x''), fired)) \<and> map tmo_addr fired = map tmo_addr (due_with t ts)
        \<and> get_hw r'' = Inr (min (remaining (hd (managed_timeouts x''))) limit)"
      using x''(2) r''(2) by blast
    then show ?thesis using False a(1) due tk
      by (intro exI [of _ r'] exI [of _ x'] conjI) (simp, simp, simp, simp only: if_False)
  qed
qed

end

section \<open>The system tick as timer hardware\<close>

lemma systick_set_ticks:
  assumes "2 \<le> unat (systick_clock main r)" "0 \<le> t" "t < 2 ^ 31" "systick_set main t r = Inr r'"
  shows "int (period_ticks r') = int (unat (systick_clock main r) div 1000) * min t (longest (systick_clock main r)) + 1"
proof -
  have "0 \<le> longest (systick_clock main r)" by (simp add: longest_def)
  then show ?thesis
    using systick_set_load(1,4) [OF assms(1-3) refl] assms(2,4) by (auto simp: period_ticks_def systick_enable_def)
qed

lemma period_exists:
  assumes "2 \<le> unat (systick_clock main r)" "0 \<le> t" "t < 2 ^ 31"
  shows "\<exists>r' e. systick_set main t r = Inr r' \<and> systick_get main r' = Inr e
     \<and> unat (LOAD r') < 2 ^ 24 \<and> CTRL r' AND 3 = 3 \<and> systick_clock main r' = systick_clock main r
     \<and> int (unat (LOAD r')) * 1000 \<le> t * int (unat (systick_clock main r))
     \<and> e * int (unat (systick_clock main r)) \<le> int (unat (LOAD r')) * 1000 \<and> 0 \<le> e \<and> e \<le> t
     \<and> (1000 dvd unat (systick_clock main r) \<longrightarrow>
          e = min t (3892313112 div int (unat (systick_clock main r))))"
proof -
  define c where "c = systick_clock main r"
  obtain m where m: "min t (longest c) = int m"
    using nonneg_int_cases [of "min t (longest c)"] assms(2) by (auto simp: longest_def)
  define n where "n = unat c div 1000 * m"
  let ?r = "systick_enable (r\<lparr>LOAD := of_nat n, VAL := 0\<rparr>)"
  note load = systick_set_load [OF assms, of n, folded c_def, unfolded m nat_int, OF n_def]
  have L: "LOAD ?r = of_nat n" "unat (LOAD ?r) = n" using load(4) by (simp_all add: systick_enable_def)
  have C: "systick_clock main ?r = c" by (simp add: c_def)
  have get: "systick_get main ?r = Inr (int (n * 1000 div unat c))"
    using systick_get_load [OF load(2) _ L(1)] assms(1) C by (simp add: c_def)
  have mt: "int m \<le> t" using m by linarith
  have late: "n * 1000 \<le> m * unat c"
    using mult_le_mono1 [OF div_times_less_eq_dividend [of "unat c" 1000], of m]
    by (simp add: n_def algebra_simps)
  have "int (m * unat c) \<le> t * int (unat c)" using mt by (simp add: mult_right_mono)
  with late have load_le: "int n * 1000 \<le> t * int (unat c)" by linarith
  have e: "n * 1000 div unat c \<le> m"
    using div_le_mono [OF late, of "unat c"] assms(1) by (simp add: c_def)
  have ctrl: "CTRL ?r AND 3 = 3" by (simp add: systick_enable_def bit.conj_disj_distrib2)
  have exact: "int (n * 1000 div unat c) = min t (3892313112 div int (unat c))" if "1000 dvd unat c"
  proof -
    have "n * 1000 = m * unat c" using that by (auto simp: n_def elim!: dvdE)
    then show ?thesis using m assms(1) by (simp add: longest_def wrapped_max_def zdiv_int c_def)
  qed
  have "int (n * 1000 div unat c) * int (unat c) \<le> int n * 1000"
    by (metis div_times_less_eq_dividend of_nat_le_iff of_nat_mult of_nat_numeral)
  then show ?thesis
    using load(1,3) get L(2) ctrl C load_le e mt exact
    by (intro exI [of _ ?r] exI [of _ "int (n * 1000 div unat c)"])
      (simp add: wrapped_max_def c_def [symmetric])
qed

text \<open>A clock of whole kilohertz, slow enough for a period of at least one millisecond.\<close>

definition whole_khz :: "u32 \<Rightarrow> bool" where
  "whole_khz clock \<longleftrightarrow> 1000 dvd unat clock \<and> clock \<noteq> 0 \<and> clock \<le> 3892313112"

lemma whole_khz_longest:
  assumes "whole_khz clock"
  shows "0 < longest clock" "2 \<le> unat clock"
proof -
  have "unat clock \<noteq> 0" using assms by (simp add: whole_khz_def unat_eq_0)
  moreover have "1000 dvd unat clock" using assms by (simp add: whole_khz_def)
  ultimately have "1000 \<le> unat clock" by (meson dvd_imp_le neq0_conv)
  then show "2 \<le> unat clock" by simp
  have "unat clock \<le> wrapped_max"
    using assms by (simp add: whole_khz_def wrapped_max_def word_le_nat_alt)
  then show "0 < longest clock" using \<open>1000 \<le> unat clock\<close> by (simp add: longest_def div_greater_zero_iff)
qed

definition runs_at :: "u32 \<Rightarrow> u32 \<Rightarrow> systick_regs \<Rightarrow> bool" where
  "runs_at main clock r \<longleftrightarrow> systick_clock main r = clock \<and> whole_khz clock"

interpretation systick: timer_hardware "systick_set main" "systick_get main" period_ticks
  "systick_handle_irq main sz other call" "runs_at main clock" "max 1 (longest clock)" "unat clock div 1000" sz call
  for main clock sz other call
proof (unfold_locales, goal_cases)
  case (2 r t)
  then have "2 \<le> unat (systick_clock main r)" "max 1 (longest clock) = longest clock" "systick_clock main r = clock" "1000 dvd unat clock"
    using whole_khz_longest [of clock] by (auto simp: runs_at_def whole_khz_def)
  then show ?case
    using period_exists [of main r t] systick_set_ticks [of main r t] 2
    by (auto simp: runs_at_def longest_def wrapped_max_def zdiv_int)
next
  case (3 x r e x' fired t r')
  then show ?case by (simp add: systick_handle_irq_def drive_def)
next
  case (4 x r e f)
  then show ?case by (simp add: systick_handle_irq_def)
qed simp

section \<open>Properties\<close>

text \<open>
  The period that is programmed fits the counter and, measured in its reload value, is no longer than
  the time that was asked for (the hardware takes one tick more): for any clock of at least two hertz and any time, \<open>systick_set\<close> succeeds with a reload
  value below \<open>2 ^ 24\<close> (the width of the hardware register) and with the counter and its interrupt
  enabled; the period is at most the requested time, and \<open>systick_get\<close>, which is what the
  timer handler later takes as elapsed time, is at most the requested time too and is no more
  than the period that really passed. With a clock of whole kilohertz it is exactly the
  requested time up to the limit \<open>3892313112 div clock\<close> milliseconds.
\<close>

theorem systick_period:
  assumes "2 \<le> unat (systick_clock main r)" "0 \<le> t" "t < 2 ^ 31"
  shows "\<exists>r' e. systick_set main t r = Inr r' \<and> systick_get main r' = Inr e
     \<and> unat (LOAD r') < 2 ^ 24 \<and> CTRL r' AND 3 = 3 \<and> systick_clock main r' = systick_clock main r
     \<and> int (unat (LOAD r')) * 1000 \<le> t * int (unat (systick_clock main r))
     \<and> e * int (unat (systick_clock main r)) \<le> int (unat (LOAD r')) * 1000 \<and> 0 \<le> e \<and> e \<le> t
     \<and> (1000 dvd unat (systick_clock main r) \<longrightarrow>
          e = min t (3892313112 div int (unat (systick_clock main r))))"
  using assms by (rule period_exists)

theorem systick_period_witness:
  "\<exists>r' e. systick_set 48000000 1000 \<lparr>CTRL = 0, LOAD = 0, VAL = 0\<rparr> = Inr r'
     \<and> systick_get 48000000 r' = Inr e \<and> e = 162 \<and> unat (LOAD r') < 2 ^ 24"
  using systick_period [of 48000000 "\<lparr>CTRL = 0, LOAD = 0, VAL = 0\<rparr>" 1000]
  by (simp add: systick_clock_def clock_systick_reference_def clock_get_main_def) blast

text \<open>
  C13. A timeout of any length is reached: let the system tick run at a clock of whole
  kilohertz and be programmed for the first pending timeout, whether that and the timeouts due with
  it are one-shot or repeating, with callbacks that leave the timer alone and no other call of the timer
  functions until it fires. Then the interrupts that come
  before, \<open>n = (remaining - 1) div limit\<close> of them with \<open>limit\<close> milliseconds each, fire nothing; the
  interrupt after them fires the first timeout and all with the same deadline, and
  leaves the hardware programmed for the next one. Up to this interrupt the clock has ticked \<open>clock / 1000\<close> times per millisecond of the
  timeout and \<open>n + 1\<close> times more, since a period of the hardware is one tick longer than its reload value says
  (not counting the time from an interrupt to the end of its handler). If only one-shot timeouts are due and no other is pending, that
  interrupt dereferences \<open>NULL\<close> instead of returning.
\<close>

theorem timeout_reached:
  assumes "whole_khz clock" "systick_clock main r = clock" "systick_set main (remaining t) r = Inr r1"
    and "timer_hd x = Managed_Handler" "managed_timeouts x = t # ts" "0 < remaining t"
    and "delta_ok (t # ts)" "quiet call"
    and "due = t # takeWhile (\<lambda>u. remaining u = 0) ts" "rest = dropWhile (\<lambda>u. remaining u = 0) ts"
    and "\<forall>u \<in> set due. 0 \<le> reset_time u \<and> reset_time u < 2 ^ 31"
    and "release_all sz due (heap (tkern x)) = Some (Inr hp)"
    and "limit = 3892313112 div int (unat clock)" "n = nat ((remaining t - 1) div limit)"
  shows "\<exists>r' x'.
       interrupts (systick_handle_irq main sz other call) n (r1, x) = Some (Inr ((r', x'), []))
     \<and> systick_get main r1 = Inr (min (remaining t) limit)
     \<and> systick_get main r' = Inr (remaining t - int n * limit)
     \<and> int (ticks_until period_ticks (systick_handle_irq main sz other call) n (r1, x)) =
         int (unat clock div 1000) * remaining t + int n + 1
     \<and> (if rest = [] \<and> (\<forall>u \<in> set due. reset_time u = 0)
        then systick_handle_irq main sz other call (r', x') = Some (Inl Null_Deref)
        else \<exists>r'' x'' fired. systick_handle_irq main sz other call (r', x') = Some (Inr ((r'', x''), fired))
          \<and> map tmo_addr fired = map tmo_addr due
          \<and> systick_get main r'' = Inr (min (remaining (hd (managed_timeouts x''))) limit))"
proof -
  have L: "max 1 (longest clock) = limit"
    using whole_khz_longest(1) [OF assms(1)] assms(13) by (simp add: longest_def wrapped_max_def zdiv_int)
  have r: "runs_at main clock r" using assms(1,2) by (simp add: runs_at_def)
  have r1: "runs_at main clock r1" "systick_get main r1 = Inr (min (remaining t) limit)"
    "int (period_ticks r1) = int (unat clock div 1000) * min (remaining t) limit + 1"
    using systick.set_then_get [OF r assms(6)] assms(3,7) L by auto
  note fires = systick.fires_on_time [where clock = clock and main = main and sz = sz and other = other and call = call,
      unfolded L, OF r1 assms(4-8), folded assms(9,10,14), OF assms(11,12)]
  then show ?thesis using r1(2) by meson
qed

text \<open>A one-shot timeout of a second at 24 MHz, with another timeout pending: seven periods.\<close>

definition demo_second :: tsys where
  "demo_second = demo_timer\<lparr>managed_timeouts :=
     [\<lparr>tmo_addr = 0x3000, remaining = 1000, reset_time = 0, tmo_handler = 1, tmo_context = 1\<rparr>,
      \<lparr>tmo_addr = 80, remaining = 20, reset_time = 0, tmo_handler = 1, tmo_context = 3\<rparr>]\<rparr>"

theorem timeout_reached_witness:
  "\<exists>r1 r' x' r'' x'' fired.
       systick_set 48000000 1000 \<lparr>CTRL = 0, LOAD = 0, VAL = 0\<rparr> = Inr r1
     \<and> interrupts (systick_handle_irq 48000000 24 (\<lambda>_ _ x. x) (\<lambda>_ _ x. x)) 6 (r1, demo_second) = Some (Inr ((r', x'), []))
     \<and> int (ticks_until period_ticks (systick_handle_irq 48000000 24 (\<lambda>_ _ x. x) (\<lambda>_ _ x. x)) 6 (r1, demo_second)) = 24000007
     \<and> systick_handle_irq 48000000 24 (\<lambda>_ _ x. x) (\<lambda>_ _ x. x) (r', x') = Some (Inr ((r'', x''), fired))
     \<and> map tmo_addr fired = [0x3000]"
proof -
  let ?r = "\<lparr>CTRL = 0, LOAD = 0, VAL = 0\<rparr>"
  have c: "systick_clock 48000000 ?r = 24000000" "whole_khz 24000000"
    by (simp_all add: systick_clock_def clock_systick_reference_def clock_get_main_def whole_khz_def)
  obtain r1 where r1: "systick_set 48000000 1000 ?r = Inr r1"
    using period_exists [of 48000000 ?r 1000] c(1) by auto
  let ?t = "hd (managed_timeouts demo_second)" and ?ts = "tl (managed_timeouts demo_second)"
  obtain hp where "free_raw (Some 0x3000) 24 (heap demo_kernel) = Some (Inr hp)" using demo_free by blast
  then have f: "release_all 24 (due_with ?t ?ts) (heap (tkern demo_second)) = Some (Inr hp)"
    by (simp add: demo_second_def demo_timer_def)
  have p: "remaining ?t = 1000" "timer_hd demo_second = Managed_Handler" "managed_timeouts demo_second = ?t # ?ts"
    "delta_ok (?t # ?ts)" "quiet (\<lambda>_ _ x. x)" "\<forall>u \<in> set (due_with ?t ?ts). 0 \<le> reset_time u \<and> reset_time u < 2 ^ 31"
    "not_due ?ts \<noteq> []" "map tmo_addr (due_with ?t ?ts) = [0x3000]"
    by (simp_all add: demo_second_def demo_timer_def quiet_def)
  have n: "nat ((1000 - 1) div (3892313112 div int (unat (24000000 :: u32)))) = 6" by simp
  have nf: "\<not> (not_due ?ts = [] \<and> (\<forall>u \<in> set (due_with ?t ?ts). reset_time u = 0))" using p(7) by blast
  from timeout_reached [OF c(2,1), of ?t r1 demo_second ?ts "\<lambda>_ _ x. x", OF _ p(2,3) _ p(4,5) refl refl p(6) f refl refl,
      of "\<lambda>_ _ x. x", unfolded p(1) n if_not_P [OF nf] p(8)] r1
  obtain r' x' r'' x'' fired where
    "interrupts (systick_handle_irq 48000000 24 (\<lambda>_ _ x. x) (\<lambda>_ _ x. x)) 6 (r1, demo_second) = Some (Inr ((r', x'), []))"
    "int (ticks_until period_ticks (systick_handle_irq 48000000 24 (\<lambda>_ _ x. x) (\<lambda>_ _ x. x)) 6 (r1, demo_second)) =
       int (unat (24000000 :: u32) div 1000) * 1000 + int 6 + 1"
    "systick_handle_irq 48000000 24 (\<lambda>_ _ x. x) (\<lambda>_ _ x. x) (r', x') = Some (Inr ((r'', x''), fired))"
    "map tmo_addr fired = [0x3000]" by (elim meta_impE exE conjE) simp_all
  moreover have "int (unat (24000000 :: u32) div 1000) * 1000 + int 6 + 1 = 24000007" by simp
  ultimately show ?thesis using r1 by metis
qed

end
