(* ===== verification/Arch_Vectors.thy ===== *)
theory Arch_Vectors
  imports Arch_Arm
begin

text \<open>
  The vector table of \<^verbatim>\<open>src/arch/arm-m/arch.c\<close> and the names of the interrupts in
  \<^verbatim>\<open>src/arch/arm-m/include/arch/irq.h\<close>. Both depend on \<open>ARM_M_NUMBER_OF_IRQS\<close>, here \<open>irqs\<close>, which is 39 on
  every platform. The processor enters an exception through the word of the table with its number, and has
  that number in IPSR: \<open>take_exception\<close>.

  Shown: an exception runs the handler that was registered under its name, and the interrupted thread
  continues with its registers; the exceptions are the supervisor call and a table
  with too few interrupts.
\<close>

section \<open>The vector table\<close>

datatype vector = Vec_MainStackTop | Vec_reset | Vec_irq | Vec_pendsv | Vec_zero

definition g_pfnVectors :: "nat \<Rightarrow> vector list" where
  "g_pfnVectors irqs =
     [Vec_MainStackTop, Vec_reset, Vec_irq, Vec_irq,
      Vec_zero, Vec_zero, Vec_zero, Vec_zero, Vec_zero, Vec_zero, Vec_zero,
      Vec_irq, Vec_zero, Vec_zero, Vec_pendsv, Vec_irq]
     @ map (\<lambda>_. Vec_irq) (filter (\<lambda>n. n \<le> irqs) [7..<39])"

text \<open>The hardware: a word that is 0 is no handler, and behind the table there is something else.\<close>

definition take_exception ::
    "nat \<Rightarrow> (nat \<Rightarrow> kernel \<Rightarrow> fault + kernel) \<Rightarrow> irq_table \<Rightarrow> (nat \<Rightarrow> u32) \<Rightarrow> nat \<Rightarrow> cpu \<Rightarrow> fault + cpu" where
  "take_exception irqs code entries junk e c =
     (if length (g_pfnVectors irqs) \<le> e then Inl Out_Of_Bounds
      else case g_pfnVectors irqs ! e of
        Vec_irq \<Rightarrow> arch_handle_irq code entries (of_nat e) junk c
      | Vec_pendsv \<Rightarrow> arch_handle_pendsv junk c
      | _ \<Rightarrow> Inl Null_Deref)"

section \<open>Names and numbers\<close>

datatype irq_name = IRQ_NMI | IRQ_HARDFAULT | IRQ_SV | IRQ_PENDSV | IRQ_SYSTICK | IRQ nat

fun irq_define :: "nat \<Rightarrow> irq_name \<Rightarrow> u8 option" where
  "irq_define irqs IRQ_NMI = Some 2"
| "irq_define irqs IRQ_HARDFAULT = Some 3"
| "irq_define irqs IRQ_SV = Some 4"
| "irq_define irqs IRQ_PENDSV = Some 5"
| "irq_define irqs IRQ_SYSTICK = Some 6"
| "irq_define irqs (IRQ n) = (if n < 32 \<and> 7 + n \<le> irqs then Some (7 + of_nat n) else None)"

text \<open>The numbers of the architecture.\<close>

fun exception_number :: "irq_name \<Rightarrow> nat" where
  "exception_number IRQ_NMI = 2"
| "exception_number IRQ_HARDFAULT = 3"
| "exception_number IRQ_SV = 11"
| "exception_number IRQ_PENDSV = 14"
| "exception_number IRQ_SYSTICK = 15"
| "exception_number (IRQ n) = 16 + n"

lemma filter_le_upt: "filter (\<lambda>n. n \<le> k) [a..<b] = [a..<min b (Suc k)]"
  by (induction b) (auto simp: min_def not_less_eq_eq le_Suc_eq)

lemma vectors_external:
  assumes "n < 32" "7 + n \<le> irqs"
  shows "16 + n < length (g_pfnVectors irqs)" "g_pfnVectors irqs ! (16 + n) = Vec_irq"
  unfolding g_pfnVectors_def filter_le_upt using assms by (simp_all add: nth_append del: upt_rec_numeral)

text \<open>Every exception that is dispatched under its own name: all but the supervisor call and PendSV.\<close>

lemma own_number:
  assumes "irq_define irqs e = Some n" "e \<noteq> IRQ_SV" "e \<noteq> IRQ_PENDSV"
  shows "ucast (irq_number (of_nat (exception_number e))) = n \<and> unat n < 39
    \<and> exception_number e < length (g_pfnVectors irqs) \<and> g_pfnVectors irqs ! exception_number e = Vec_irq"
proof (cases e)
  case (IRQ k)
  then have k: "k < 32" "7 + k \<le> irqs" "n = 7 + of_nat k" using assms(1) by (auto split: if_splits)
  have "unat (7 + of_nat k :: u8) = 7 + k" "unat (7 + of_nat k :: u32) = 7 + k"
    using k(1) by (simp_all add: unat_word_ariths unat_of_nat)
  then have "ucast (7 + of_nat k :: u32) = (7 + of_nat k :: u8)"
    using k(1) by (intro word_unat_eq_iff [THEN iffD2]) (simp add: unsigned_ucast_eq take_bit_eq_mod)
  then show ?thesis
    using IRQ k vectors_external [OF k(1,2)] irq_number_external [OF k(1)] \<open>unat (7 + of_nat k :: u8) = 7 + k\<close> by simp
qed (use assms irq_number_cases in \<open>auto simp: g_pfnVectors_def nth_append\<close>)

lemma do_irq_registered:
  assumes "unat n < length entries" "entries ! unat n = h" "h \<noteq> 0"
  shows "do_irq code entries n x = code h x"
  using assms by (subst do_irq.simps) simp

section \<open>Interrupts run their handler and are transparent\<close>

text \<open>
  C14. An exception runs the handler that is registered under its name, between \<open>scheduler_enter_isr\<close> and
  \<open>scheduler_leave_isr\<close>, and the interrupted thread continues with its stack pointer and R4 to R11,
  for a handler that returns and does not write the 8 words below the stack pointer of the thread. It holds for
  the NMI, the hard fault, the system tick and the 32 external interrupts.
\<close>

theorem exception_runs_handler:
  assumes "irq_define 39 e = Some n" "e \<noteq> IRQ_SV" "e \<noteq> IRQ_PENDSV"
    and "length entries = 39" "entries ! unat n = h" "h \<noteq> 0"
    and "b = psp c - 32" "unat b + 32 < 2 ^ 32"
    and "code h (scheduler_enter_isr (kern (save_state c))) = Inr k"
    and "\<forall>a \<in> save_area (unat b). mem k a = mem (kern (save_state c)) a"
  shows "\<exists>c'. take_exception 39 code entries junk (exception_number e) c = Inr c'
     \<and> kern c' = scheduler_unlock (scheduler_leave_isr k)
     \<and> cpu_context c' = cpu_context c \<and> lr c' = lr c \<and> main_stack c' = main_stack c"
proof -
  let ?s = "save_state c"
  let ?r = "?s\<lparr>kern := scheduler_leave_isr k, gp := (gp ?s)(0 := b, 1 := junk 1, 2 := junk 2, 3 := junk 3, 12 := junk 12)\<rparr>"
  have own: "ucast (irq_number (of_nat (exception_number e))) = n" "unat n < 39"
    "exception_number e < length (g_pfnVectors 39)" "g_pfnVectors 39 ! exception_number e = Vec_irq"
    using own_number [OF assms(1-3)] by simp_all
  note sv = save_state_effect [OF refl assms(7,8)]
  have "arch_dispatch_irq code entries (of_nat (exception_number e)) (unat b) (kern ?s) = Inr (unat b, scheduler_leave_isr k)"
    using assms(4-6,9) own(1,2) by (simp add: arch_dispatch_irq_def do_irq_registered)
  then have "arch_handle_irq code entries (of_nat (exception_number e)) junk c = Inr (restore_state ?r)"
    using sv(1) by (simp add: arch_handle_irq_def call_c_def)
  then have t: "take_exception 39 code entries junk (exception_number e) c = Inr (restore_state ?r)"
    using own(3,4) by (simp add: take_exception_def)
  have "mem (scheduler_leave_isr k) a = mem k a" for a by (simp add: scheduler_leave_isr_def scheduler_unlock_def)
  then have "map (\<lambda>i. mem (scheduler_leave_isr k) (unat b + 4 * i)) [0..<8] = map (gp c) [4..<12]"
    unfolding sv(6) [symmetric] using assms(10) save_area_mem by (auto intro!: map_cong)
  with t restore_state_effect [OF refl refl, of ?r] assms(7,8) sv(3,4) show ?thesis
    by (simp add: cpu_context_def)
qed

theorem exception_runs_handler_witness:
  "\<exists>c'. take_exception 39 (\<lambda>h k. Inr (k\<lparr>current_thread := h\<rparr>)) ((replicate 39 0)[20 := 0x8000]) (\<lambda>_. 0) 29 demo_cpu = Inr c'
     \<and> current_thread (kern c') = 0x8000 \<and> cpu_context c' = (0x2000, [4, 5, 6, 7, 8, 9, 10, 11])"
proof -
  have b: "(0x1FE0 :: u32) = psp demo_cpu - 32" by (simp add: demo_cpu_def)
  let ?k = "(scheduler_enter_isr (kern (save_state demo_cpu)))\<lparr>current_thread := 0x8000\<rparr>"
  have m: "mem ?k a = mem (kern (save_state demo_cpu)) a" for a by (simp add: scheduler_enter_isr_def scheduler_lock_def)
  obtain c' where "take_exception 39 (\<lambda>h k. Inr (k\<lparr>current_thread := h\<rparr>)) ((replicate 39 0)[20 := 0x8000]) (\<lambda>_. 0) (exception_number (IRQ 13)) demo_cpu = Inr c'"
    "kern c' = scheduler_unlock (scheduler_leave_isr ?k)" "cpu_context c' = cpu_context demo_cpu"
    using exception_runs_handler [of "IRQ 13" 20 "(replicate 39 0)[20 := 0x8000]" "0x8000", OF _ _ _ _ _ _ b, of "\<lambda>h k. Inr (k\<lparr>current_thread := h\<rparr>)" ?k "\<lambda>_. 0"] m
    by (auto simp del: replicate.simps)
  then show ?thesis
    by (auto simp: scheduler_leave_isr_def scheduler_unlock_def cpu_context_def demo_cpu_def upt_8)
qed

text \<open>
  The names begin one too early: with 7 interrupts the name \<open>IRQ0\<close> and its vector are defined,
  with the number 7, which the table of handlers does not have.
\<close>

lemma first_irq_outside_table:
  assumes "length entries = 7"
  shows "irq_define 7 (IRQ 0) = Some 7" "irq_register 7 h entries = (False, entries)"
    "arch_dispatch_irq code entries (of_nat (exception_number (IRQ 0))) st k = Inl Out_Of_Bounds"
  using assms by (simp_all add: irq_register_def arch_dispatch_irq_def irq_number_def do_irq.simps)

end
