(* ===== verification/Core_Test.thy ===== *)
theory Core_Test
  imports Sim_Memory
begin

text \<open>
  The unit tests of the firmware on the simulator: \<^verbatim>\<open>src/core/test.c\<close>, \<^verbatim>\<open>src/platform/sim/test.c\<close> and the calls of
  \<open>test_do\<close> in \<^verbatim>\<open>src/core/bootstrap.c\<close>, against the unit test device of \<^verbatim>\<open>Sim_Mcu\<close>.

  \<^item> The firmware stores to the device through the bus of the simulated machine. A function that ends in
    \<open>unreachable()\<close> \<open>Leaves\<close> the C code; the machine then goes on where the device has put it, at the reset
    vector or at the end of the simulator.
  \<^item> Parameters: the functions of the tests (\<open>run\<close>, with the way each of them ends, \<open>None\<close> if it does not) and what the code of
    \<open>bootstrap\<close> before each call of \<open>test_do\<close> does to the machine (\<open>startup\<close>).
  \<^item> \<open>test_run\<close> boots the machine again after every reset. It models an image started by \<^verbatim>\<open>bootstrap.c\<close>, which is in the
    repository but not in the build: the start-up code that is built never runs the tests.
\<close>

section \<open>The device as the firmware sees it\<close>

abbreviation unittest_base :: u32 where "unittest_base \<equiv> 0xEE000000"
abbreviation STATUS_RUNNING :: u32 where "STATUS_RUNNING \<equiv> 0xDB6DB6DB"

definition unittest_store :: "u32 \<Rightarrow> u32 \<Rightarrow> mcu \<Rightarrow> fault + mcu" where
  "unittest_store off v m =
     (case mcu_write32 (unittest_base + off) v m of (ok, m) \<Rightarrow> if ok then Inr m else Inl Out_Of_Bounds)"

definition arch_test_set_test_count :: "u32 \<Rightarrow> mcu \<Rightarrow> fault + mcu" where
  "arch_test_set_test_count count m = unittest_store 0x4 count m"

definition arch_test_get_test_current :: "mcu \<Rightarrow> fault + i32" where
  "arch_test_get_test_current m =
     (case mcu_fetch32 (unittest_base + 0x0) m of None \<Rightarrow> Inl Out_Of_Bounds | Some v \<Rightarrow> Inr v)"

definition arch_test_set_desc :: "u32 \<Rightarrow> mcu \<Rightarrow> fault + mcu" where
  "arch_test_set_desc d m =
     (case unittest_store 0x8 d m of Inl e \<Rightarrow> Inl e | Inr m \<Rightarrow> unittest_store 0x12 STATUS_RUNNING m)"

definition arch_test_skip :: "u32 \<Rightarrow> mcu \<Rightarrow> fault + mcu" where
  "arch_test_skip reason m =
     (case unittest_store 0x16 reason m of Inl e \<Rightarrow> Inl e | Inr m \<Rightarrow> unittest_store 0x12 STATUS_SKIPPED m)"

definition arch_test_pass :: "u32 \<Rightarrow> mcu \<Rightarrow> fault + mcu" where
  "arch_test_pass reason m =
     (case unittest_store 0x16 reason m of Inl e \<Rightarrow> Inl e | Inr m \<Rightarrow> unittest_store 0x12 STATUS_PASSED m)"

definition arch_test_fail :: "u32 \<Rightarrow> mcu \<Rightarrow> fault + mcu" where
  "arch_test_fail reason m =
     (case unittest_store 0x16 reason m of Inl e \<Rightarrow> Inl e | Inr m \<Rightarrow> unittest_store 0x12 STATUS_FAILED m)"

section \<open>Tests\<close>

datatype test_type = TEST_AFTER_ARCH_EARLY_INIT | TEST_AFTER_ARCH_LATE_INIT | TEST_IN_MAIN_TASK

record test =
  test_desc :: u32
  test_type :: test_type
  test_func :: nat

datatype verdict = Passes | is_Fails: Fails u32 | is_Skips: Skips u32

type_synonym test_bodies = "nat \<Rightarrow> mcu \<Rightarrow> (verdict \<times> mcu) option"

datatype flow = Continues mcu | Leaves mcu | Faults fault | Hangs

fun leave :: "fault + mcu \<Rightarrow> flow" where
  "leave (Inl e) = Faults e"
| "leave (Inr m) = Leaves m"

definition test_fail :: "u32 \<Rightarrow> mcu \<Rightarrow> fault + mcu" where
  "test_fail reason m = arch_test_fail reason m"

definition test_do :: "test list \<Rightarrow> test_bodies \<Rightarrow> test_type \<Rightarrow> mcu \<Rightarrow> flow" where
  "test_do tests run ty m =
     (let count = of_nat (length tests) in
      case arch_test_get_test_current m of
        Inl e \<Rightarrow> Faults e
      | Inr test_number \<Rightarrow>
          if test_number <s 0 then leave (arch_test_set_test_count count m)
          else if \<not> unat test_number < length tests then Faults Out_Of_Bounds
          else (let t = tests ! unat test_number in
            if test_type t \<noteq> ty then Continues m
            else case arch_test_set_desc (test_desc t) m of
                Inl e \<Rightarrow> Faults e
              | Inr m \<Rightarrow>
                  (case run (test_func t) m of
                     None \<Rightarrow> Hangs
                   | Some (Passes, m) \<Rightarrow> leave (arch_test_pass 0 m)
                   | Some (Fails reason, m) \<Rightarrow> leave (test_fail reason m)
                   | Some (Skips reason, m) \<Rightarrow> leave (arch_test_skip reason m))))"

section \<open>Booting until the tests are done\<close>

fun next_flow :: "flow \<Rightarrow> (mcu \<Rightarrow> flow) \<Rightarrow> flow" where
  "next_flow (Continues m) f = f m"
| "next_flow r f = r"

definition bootstrap_tests :: "test list \<Rightarrow> test_bodies \<Rightarrow> (nat \<Rightarrow> mcu \<Rightarrow> mcu) \<Rightarrow> mcu \<Rightarrow> flow" where
  "bootstrap_tests tests run startup m =
     next_flow (test_do tests run TEST_AFTER_ARCH_EARLY_INIT (startup 0 m)) (\<lambda>m.
     next_flow (test_do tests run TEST_AFTER_ARCH_LATE_INIT (startup 1 m)) (\<lambda>m.
     test_do tests run TEST_IN_MAIN_TASK (startup 2 m)))"

partial_function (option) test_run ::
    "test list \<Rightarrow> test_bodies \<Rightarrow> (nat \<Rightarrow> mcu \<Rightarrow> mcu) \<Rightarrow> mcu \<Rightarrow> (fault + mcu) option" where
  "test_run tests run startup m =
     (case bootstrap_tests tests run startup m of
        Continues m \<Rightarrow> Some (Inr m)
      | Faults e \<Rightarrow> Some (Inl e)
      | Hangs \<Rightarrow> None
      | Leaves m \<Rightarrow> if exited m = None then test_run tests run startup m else Some (Inr m))"

section \<open>The device at the head of the bus\<close>

text \<open>The unit test device is the last one the simulator adds, so it is the first one found.\<close>

definition test_device :: "mcu \<Rightarrow> unittest_dev option" where
  "test_device m =
     (case mem_devs m of
        [] \<Rightarrow> None
      | d # _ \<Rightarrow> if offset d = unittest_base \<and> mem_length d = 0x20
                 then (case backend d of Unittest u \<Rightarrow> Some u | _ \<Rightarrow> None) else None)"

definition reset_vector :: "u32 \<Rightarrow> mcu \<Rightarrow> bool" where
  "reset_vector pc m \<longleftrightarrow> mcu_fetch32 0 m \<noteq> None \<and> mcu_fetch32 4 m = Some pc \<and> bit pc 0"

text \<open>What code that is not about the tests keeps.\<close>

definition test_ready :: "u32 \<Rightarrow> unittest_dev \<Rightarrow> mcu \<Rightarrow> bool" where
  "test_ready pc u m \<longleftrightarrow> test_device m = Some u \<and> reset_vector pc m \<and> exited m = None"

definition at_reset :: "u32 \<Rightarrow> mcu \<Rightarrow> bool" where
  "at_reset pc m \<longleftrightarrow> regs m REG_PC = (pc + 2) AND NOT 1 \<and> processor_mode m = processor_thread_mode"

lemma test_device_devs:
  assumes "test_device m = Some u"
  obtains d ds where "mem_devs m = d # ds" "offset d = unittest_base" "mem_length d = 0x20" "backend d = Unittest u"
  using assms by (auto simp: test_device_def split: list.splits if_splits backend.splits)

lemma unittest_find:
  assumes "test_device m = Some u" and "off < 0x20"
  shows "find_dev (mem_devs m) (unittest_base + off) = Some 0"
proof -
  obtain d ds where d: "mem_devs m = d # ds" "offset d = unittest_base" "mem_length d = 0x20"
    using assms(1) by (rule test_device_devs)
  have "unittest_base \<le> unittest_base + off" "unittest_base + off < unittest_base + 0x20"
    using assms(2) by (simp_all add: word_le_nat_alt word_less_nat_alt unat_word_ariths)
  then show ?thesis by (simp add: d in_window_def)
qed

lemma unittest_fetch:
  assumes "test_device m = Some u" and "off < 0x20"
  shows "mcu_fetch32 (unittest_base + off) m = unittest_dev_read32 u off"
proof -
  obtain d ds where "mem_devs m = d # ds" "offset d = unittest_base" "backend d = Unittest u"
    using assms(1) by (rule test_device_devs)
  then show ?thesis using unittest_find [OF assms] by (simp add: mcu_fetch32_def dev_fetch32_def)
qed

lemma unittest_write:
  assumes "test_device m = Some u" and "off < 0x20"
  shows "mcu_write32 (unittest_base + off) v m = unittest_dev_write32 0 u off v m"
proof -
  obtain d ds where "mem_devs m = d # ds" "offset d = unittest_base" "backend d = Unittest u"
    using assms(1) by (rule test_device_devs)
  then show ?thesis using unittest_find [OF assms] by (simp add: mcu_write32_def dev_write32_def)
qed

lemma set_test_backend:
  assumes "test_ready pc u m"
  shows "test_ready pc u' (set_backend 0 (Unittest u') m)" and "console (set_backend 0 (Unittest u') m) = console m"
proof -
  obtain d ds where d: "mem_devs m = d # ds" "offset d = unittest_base" "mem_length d = 0x20" "backend d = Unittest u"
    using assms by (auto simp: test_ready_def elim: test_device_devs)
  have fetch: "mcu_fetch32 a (set_backend 0 (Unittest u') m) = mcu_fetch32 a m" if "a < unittest_base" for a
  proof -
    have "\<not> in_window d a" "\<not> in_window (d\<lparr>backend := Unittest u'\<rparr>) a" using that d by (simp_all add: in_window_def not_le [symmetric])
    then show ?thesis by (simp add: mcu_fetch32_def set_backend_def d split: option.splits)
  qed
  show "test_ready pc u' (set_backend 0 (Unittest u') m)"
    using assms fetch [of 0] fetch [of 4] by (simp add: test_ready_def reset_vector_def) (simp add: set_backend_def test_device_def d)
  show "console (set_backend 0 (Unittest u') m) = console m" by (simp add: set_backend_def)
qed

lemma reset_lands:
  assumes "reset_vector pc m"
  shows "at_reset pc (snd (mcu_reset m))"
  using assms by (auto simp: reset_vector_def mcu_reset_def Let_def at_reset_def mcu_write_reg_def set_reg_def)

lemma reset_console [simp]: "console (snd (mcu_reset m)) = console m"
  by (simp add: mcu_reset_def Let_def mcu_write_reg_def set_reg_def set_undef_def split: option.splits)

lemma reset_exited [simp]: "exited (snd (mcu_reset m)) = exited m"
  by (simp add: mcu_reset_def Let_def mcu_write_reg_def set_reg_def set_undef_def split: option.splits)

lemma reset_fetch [simp]: "mcu_fetch32 a (snd (mcu_reset m)) = mcu_fetch32 a m"
  unfolding mcu_fetch32_def mcu_reset_frame ..

lemma reset_ready: "test_ready pc u (snd (mcu_reset m)) = test_ready pc u m"
  by (simp add: test_ready_def test_device_def reset_vector_def)

section \<open>One test\<close>

text \<open>
  \<open>stage\<close> is a machine that is ready for test number \<open>c\<close> of \<open>n\<close>, with \<open>s\<close> tests skipped and \<open>f\<close> failed so far and the
  given output on its console.
\<close>

definition stage :: "u32 \<Rightarrow> i32 \<Rightarrow> i32 \<Rightarrow> i32 \<Rightarrow> i32 \<Rightarrow> u8 list \<Rightarrow> mcu \<Rightarrow> bool" where
  "stage pc c n s f out m \<longleftrightarrow>
     (\<exists>u. test_ready pc u m \<and> current_test u = c \<and> total_tests u = n \<and> tests_skipped u = s \<and> tests_failed u = f)
     \<and> console m = out"

lemma stage_current: "stage pc c n s f out m \<Longrightarrow> arch_test_get_test_current m = Inr c"
  using unittest_fetch [of m _ 0] by (auto simp: stage_def test_ready_def arch_test_get_test_current_def unittest_dev_read32_def)

lemma stage_store:
  assumes "stage pc c n s f out m" and "off \<in> {0x8, 0x16} \<or> off = 0x12 \<and> v \<notin> {STATUS_SKIPPED, STATUS_PASSED, STATUS_FAILED}"
  shows "\<exists>m'. unittest_store off v m = Inr m' \<and> stage pc c n s f out m'"
proof -
  obtain u where u: "test_ready pc u m" "current_test u = c" "total_tests u = n" "tests_skipped u = s" "tests_failed u = f"
    "console m = out" using assms(1) by (auto simp: stage_def)
  have "off < 0x20" using assms(2) by auto
  then have w: "mcu_write32 (unittest_base + off) v m = unittest_dev_write32 0 u off v m"
    using u(1) by (simp add: unittest_write test_ready_def)
  obtain u' where "unittest_dev_write32 0 u off v m = (True, set_backend 0 (Unittest u') m)"
    "current_test u' = c" "total_tests u' = n" "tests_skipped u' = s" "tests_failed u' = f"
    using assms(2) u by (auto simp: unittest_dev_write32_def)
  then show ?thesis using set_test_backend [OF u(1), of u'] u(6) by (auto simp: unittest_store_def w stage_def)
qed

lemma stage_count:
  assumes "stage pc c n s f out m"
  shows "\<exists>m'. arch_test_set_test_count v m = Inr m' \<and> stage pc 0 v 0 0 out m' \<and> at_reset pc m'"
proof -
  obtain u where u: "test_ready pc u m" "console m = out" using assms by (auto simp: stage_def)
  let ?u = "u\<lparr>total_tests := v, current_test := 0, tests_failed := 0, tests_skipped := 0\<rparr>"
  let ?m = "set_backend 0 (Unittest ?u) m"
  have "arch_test_set_test_count v m = Inr (snd (mcu_reset ?m))"
    using u(1) unittest_write [of m u 4 v] by (simp add: test_ready_def arch_test_set_test_count_def unittest_store_def unittest_dev_write32_def)
  moreover have "test_ready pc ?u ?m" "console ?m = out" using set_test_backend [OF u(1), of ?u] u(2) by simp_all
  ultimately show ?thesis
    using reset_lands [of pc ?m] by (auto simp: stage_def reset_ready test_ready_def [of _ _ ?m] intro!: exI [of _ ?u])
qed

definition tests_over :: "i32 \<Rightarrow> i32 \<Rightarrow> i32 \<Rightarrow> u8 list \<Rightarrow> mcu \<Rightarrow> bool" where
  "tests_over n s f out m \<longleftrightarrow>
     (\<exists>u. test_device m = Some u \<and> total_tests u = n \<and> tests_skipped u = s \<and> tests_failed u = f)
     \<and> console m = out \<and> exited m = Some (if 0 <s f then -1 else 0)"

lemma stage_finish:
  assumes "stage pc c n s f out m" and v: "v \<in> {STATUS_SKIPPED, STATUS_PASSED, STATUS_FAILED}"
    and s': "s' = s + of_bool (v = STATUS_SKIPPED)" and f': "f' = f + of_bool (v = STATUS_FAILED)"
  shows "\<exists>m'. unittest_store 0x12 v m = Inr m' \<and>
     (if c + 1 <s n then stage pc (c + 1) n s' f' out m' \<and> at_reset pc m' else tests_over n s' f' out m')"
proof -
  obtain u where u: "test_ready pc u m" "current_test u = c" "total_tests u = n" "tests_skipped u = s" "tests_failed u = f"
    "console m = out" using assms(1) by (auto simp: stage_def)
  define u' where "u' = unittest_finish_test v (u\<lparr>status := v\<rparr>)"
  have u': "current_test u' = c + 1" "total_tests u' = n" "tests_skipped u' = s'" "tests_failed u' = f'"
    using v u by (auto simp: u'_def unittest_finish_test_def Let_def s' f')
  have w: "unittest_dev_write32 0 u 0x12 v m =
      (True, if c + 1 <s n then snd (mcu_reset (set_backend 0 (Unittest (u'\<lparr>desc := None\<rparr>)) m))
             else unittest_done u' (set_backend 0 (Unittest u') m))"
    using v u' by (simp add: unittest_dev_write32_def Let_def u'_def [symmetric])
  have st: "unittest_store 0x12 v m = Inr (snd (unittest_dev_write32 0 u 0x12 v m))"
    using u(1) unittest_write [of m u "0x12" v] by (simp add: test_ready_def unittest_store_def w)
  show ?thesis
  proof (cases "c + 1 <s n")
    case True
    let ?m = "set_backend 0 (Unittest (u'\<lparr>desc := None\<rparr>)) m"
    have "test_ready pc (u'\<lparr>desc := None\<rparr>) ?m" "console ?m = out" using set_test_backend [OF u(1)] u(6) by simp_all
    then show ?thesis
      using reset_lands [of pc ?m] u' True
      by (auto simp: st w stage_def reset_ready test_ready_def [of _ _ ?m] intro!: exI [of _ "u'\<lparr>desc := None\<rparr>"])
  next
    case False
    let ?m = "set_backend 0 (Unittest u') m"
    have "test_device ?m = Some u'" "console ?m = out" using set_test_backend [OF u(1)] u(6) by (simp_all add: test_ready_def)
    then show ?thesis using False u' by (simp add: st w tests_over_def test_device_def unittest_done_def)
  qed
qed

text \<open>The ways in which a test ends, as the device counts them.\<close>

fun verdict_status :: "verdict \<Rightarrow> u32" where
  "verdict_status Passes = STATUS_PASSED"
| "verdict_status (Fails r) = STATUS_FAILED"
| "verdict_status (Skips r) = STATUS_SKIPPED"

fun arch_end :: "verdict \<Rightarrow> mcu \<Rightarrow> fault + mcu" where
  "arch_end Passes m = arch_test_pass 0 m"
| "arch_end (Fails r) m = test_fail r m"
| "arch_end (Skips r) m = arch_test_skip r m"

lemma arch_end_store:
  "\<exists>r. arch_end v m = (case unittest_store 0x16 r m of Inl e \<Rightarrow> Inl e | Inr m \<Rightarrow> unittest_store 0x12 (verdict_status v) m)"
proof (cases v)
  case Passes
  then show ?thesis by (intro exI [of _ 0]) (simp add: arch_test_pass_def cong: sum.case_cong)
next
  case (Fails r)
  then show ?thesis by (intro exI [of _ r]) (simp add: test_fail_def arch_test_fail_def cong: sum.case_cong)
next
  case (Skips r)
  then show ?thesis by (intro exI [of _ r]) (simp add: arch_test_skip_def cong: sum.case_cong)
qed

lemma stage_end:
  assumes "stage pc c n s f out m"
    and "s' = s + of_bool (is_Skips v)" "f' = f + of_bool (is_Fails v)"
  shows "\<exists>m'. arch_end v m = Inr m' \<and>
     (if c + 1 <s n then stage pc (c + 1) n s' f' out m' \<and> at_reset pc m' else tests_over n s' f' out m')"
proof -
  obtain r where r: "arch_end v m = (case unittest_store 0x16 r m of Inl e \<Rightarrow> Inl e | Inr m \<Rightarrow> unittest_store 0x12 (verdict_status v) m)"
    using arch_end_store by blast
  obtain m1 where m1: "unittest_store 0x16 r m = Inr m1" "stage pc c n s f out m1" using stage_store [OF assms(1), of "0x16" r] by auto
  have v: "verdict_status v \<in> {STATUS_SKIPPED, STATUS_PASSED, STATUS_FAILED}" by (cases v) simp_all
  have "s' = s + of_bool (verdict_status v = STATUS_SKIPPED)" "f' = f + of_bool (verdict_status v = STATUS_FAILED)"
    using assms(2,3) by (cases v; simp)+
  then show ?thesis using stage_finish [OF m1(2) v] by (simp add: r m1(1))
qed

text \<open>\<open>test_do\<close> for a test of this type and of another type.\<close>

lemma test_do_eq:
  assumes "stage pc c n s f out m" and c: "\<not> c <s 0" "unat c < length tests"
  shows "test_do tests run ty m =
     (if test_type (tests ! unat c) \<noteq> ty then Continues m
      else case arch_test_set_desc (test_desc (tests ! unat c)) m of
          Inl e \<Rightarrow> Faults e
        | Inr m \<Rightarrow> (case run (test_func (tests ! unat c)) m of None \<Rightarrow> Hangs | Some (v, m) \<Rightarrow> leave (arch_end v m)))"
  using c by (simp add: test_do_def stage_current [OF assms(1)] Let_def split: option.splits sum.splits verdict.splits)

lemma stage_desc:
  assumes "stage pc c n s f out m"
  shows "\<exists>m'. arch_test_set_desc d m = Inr m' \<and> stage pc c n s f out m'"
proof -
  obtain m1 where m1: "unittest_store 0x8 d m = Inr m1" "stage pc c n s f out m1" using stage_store [OF assms, of "0x8" d] by auto
  then show ?thesis using stage_store [OF m1(2), of "0x12" STATUS_RUNNING] by (simp add: arch_test_set_desc_def)
qed

section \<open>All tests\<close>

text \<open>
  Code that has nothing to do with the tests: it may change registers and RAM and print \<open>out\<close>, but does not touch the test
  device, the reset vector and the simulator.
\<close>

definition keeps_tests :: "u8 list \<Rightarrow> mcu \<Rightarrow> mcu \<Rightarrow> bool" where
  "keeps_tests out m m' \<longleftrightarrow> test_device m' = test_device m \<and> mcu_fetch32 0 m' = mcu_fetch32 0 m \<and> mcu_fetch32 4 m' = mcu_fetch32 4 m
     \<and> exited m' = exited m \<and> console m' = console m @ out"

lemma stage_keeps: "stage pc c n s f out m \<Longrightarrow> keeps_tests out' m m' \<Longrightarrow> stage pc c n s f (out @ out') m'"
  by (simp add: stage_def test_ready_def reset_vector_def keeps_tests_def)

lemma test_do_runs:
  assumes st: "stage pc c n s f out m" and c: "\<not> c <s 0" "unat c < length tests" and t: "t = tests ! unat c" "test_type t = ty"
    and run: "\<And>m. \<exists>m'. run (test_func t) m = Some (v, m') \<and> keeps_tests out' m m'"
    and s': "s' = s + of_bool (is_Skips v)" and f': "f' = f + of_bool (is_Fails v)"
  shows "\<exists>m'. test_do tests run ty m = Leaves m' \<and>
     (if c + 1 <s n then stage pc (c + 1) n s' f' (out @ out') m' else tests_over n s' f' (out @ out') m')"
proof -
  obtain m1 where m1: "arch_test_set_desc (test_desc t) m = Inr m1" "stage pc c n s f out m1" using stage_desc [OF st] by blast
  obtain m2 where m2: "run (test_func t) m1 = Some (v, m2)" "keeps_tests out' m1 m2" using run by blast
  obtain m3 where "arch_end v m2 = Inr m3"
    "if c + 1 <s n then stage pc (c + 1) n s' f' (out @ out') m3 else tests_over n s' f' (out @ out') m3"
    using stage_end [OF stage_keeps [OF m1(2) m2(2)] s' f'] by (auto split: if_splits)
  then show ?thesis using t by (simp add: test_do_eq [OF st c] m1(1) m2(1) flip: t(1))
qed

lemma boot_runs:
  assumes st: "stage pc c n s f out m" and c: "\<not> c <s 0" "unat c < length tests" and t: "t = tests ! unat c"
    and startup: "\<And>i m. keeps_tests [] m (startup i m)"
    and run: "\<And>m. \<exists>m'. run (test_func t) m = Some (v, m') \<and> keeps_tests out' m m'"
    and "s' = s + of_bool (is_Skips v)" "f' = f + of_bool (is_Fails v)"
  shows "\<exists>m'. bootstrap_tests tests run startup m = Leaves m' \<and>
     (if c + 1 <s n then stage pc (c + 1) n s' f' (out @ out') m' else tests_over n s' f' (out @ out') m')"
proof -
  have next': "stage pc c n s f out (startup i m)" if "stage pc c n s f out m" for i m
    using stage_keeps [OF that startup, of i] by simp
  have skip: "test_do tests run ty m = Continues m" if "stage pc c n s f out m" "ty \<noteq> test_type t" for ty m
    using test_do_eq [OF that(1) c] that(2) t by simp
  have runs: "\<exists>m'. test_do tests run (test_type t) m = Leaves m' \<and>
     (if c + 1 <s n then stage pc (c + 1) n s' f' (out @ out') m' else tests_over n s' f' (out @ out') m')"
    if "stage pc c n s f out m" for m
    using that c t refl run assms(7,8) by (rule test_do_runs)
  show ?thesis
  proof (cases "test_type t")
    case TEST_AFTER_ARCH_EARLY_INIT
    then show ?thesis using runs [OF next' [OF st, of 0]] by (auto simp: bootstrap_tests_def)
  next
    case TEST_AFTER_ARCH_LATE_INIT
    then show ?thesis using runs [OF next' [OF next' [OF st, of 0], of "Suc 0"]] by (auto simp: bootstrap_tests_def skip [OF next' [OF st, of 0]])
  next
    case TEST_IN_MAIN_TASK
    note st0 = next' [OF st, of 0]
    note st1 = next' [OF st0, of "Suc 0"]
    show ?thesis using TEST_IN_MAIN_TASK runs [OF next' [OF st1, of 2]]
      by (auto simp: bootstrap_tests_def skip [OF st0] skip [OF st1])
  qed
qed

abbreviation skipped_in :: "(nat \<Rightarrow> verdict) \<Rightarrow> test list \<Rightarrow> nat" where
  "skipped_in result ts \<equiv> length (filter (\<lambda>t. is_Skips (result (test_func t))) ts)"

abbreviation failed_in :: "(nat \<Rightarrow> verdict) \<Rightarrow> test list \<Rightarrow> nat" where
  "failed_in result ts \<equiv> length (filter (\<lambda>t. is_Fails (result (test_func t))) ts)"

lemma small_index:
  assumes "k < n" "n < 2 ^ 31"
  shows "\<not> (of_nat k :: i32) <s 0" "unat (of_nat k :: i32) = k" "(of_nat k :: i32) + 1 <s of_nat n \<longleftrightarrow> k + 1 < n"
proof -
  have "sint (of_nat k + 1 :: i32) = int k + 1" using sint_of_nat_32 [of "k + 1"] assms by (simp add: add.commute)
  then show "(of_nat k :: i32) + 1 <s of_nat n \<longleftrightarrow> k + 1 < n"
    using sint_of_nat_32 [of n] assms by (simp add: word_sless_alt) linarith
qed (use sint_of_nat_32 [of k] assms in \<open>simp_all add: word_sless_alt unat_of_nat\<close>)

lemma runs_from:
  assumes n: "length tests < 2 ^ 31" and startup: "\<And>i m. keeps_tests [] m (startup i m)"
    and run: "\<And>t m. t \<in> set tests \<Longrightarrow> \<exists>m'. run (test_func t) m = Some (result (test_func t), m') \<and> keeps_tests (outp (test_func t)) m m'"
  shows "k < length tests \<Longrightarrow> stage pc (of_nat k) (of_nat (length tests)) s f out m \<Longrightarrow>
     \<exists>m'. test_run tests run startup m = Some (Inr m') \<and>
       tests_over (of_nat (length tests)) (s + of_nat (skipped_in result (drop k tests))) (f + of_nat (failed_in result (drop k tests)))
         (out @ concat (map (\<lambda>t. outp (test_func t)) (drop k tests))) m'"
proof (induction "length tests - k" arbitrary: k s f out m)
  case (Suc d)
  let ?t = "tests ! k" and ?c = "of_nat k :: i32"
  note c = small_index [OF Suc.prems(1) n]
  have drop: "drop k tests = ?t # drop (Suc k) tests" using Suc.prems(1) by (simp add: Cons_nth_drop_Suc)
  define v where "v = result (test_func ?t)"
  define s' f' where sf: "s' = s + of_bool (is_Skips v)" "f' = f + of_bool (is_Fails v)"
  have rest: "s + of_nat (skipped_in result (drop k tests)) = s' + of_nat (skipped_in result (drop (k + 1) tests))"
    "f + of_nat (failed_in result (drop k tests)) = f' + of_nat (failed_in result (drop (k + 1) tests))"
    "out @ concat (map (\<lambda>t. outp (test_func t)) (drop k tests)) =
       (out @ outp (test_func ?t)) @ concat (map (\<lambda>t. outp (test_func t)) (drop (k + 1) tests))"
    by (simp_all add: drop sf v_def)
  have body: "\<exists>m'. run (test_func ?t) m = Some (v, m') \<and> keeps_tests (outp (test_func ?t)) m m'" for m
    using run [of ?t m] Suc.prems(1) by (simp add: v_def)
  have "unat ?c < length tests" "?t = tests ! unat ?c" using Suc.prems(1) c(2) by simp_all
  with Suc.prems(2) c(1) have "\<exists>m'. bootstrap_tests tests run startup m = Leaves m' \<and>
      (if ?c + 1 <s of_nat (length tests) then stage pc (?c + 1) (of_nat (length tests)) s' f' (out @ outp (test_func ?t)) m'
       else tests_over (of_nat (length tests)) s' f' (out @ outp (test_func ?t)) m')"
    using startup body sf by (rule boot_runs)
  then obtain m1 where m1: "bootstrap_tests tests run startup m = Leaves m1"
    "if k + 1 < length tests then stage pc (?c + 1) (of_nat (length tests)) s' f' (out @ outp (test_func ?t)) m1
     else tests_over (of_nat (length tests)) s' f' (out @ outp (test_func ?t)) m1"
    unfolding c(3) by blast
  show ?case
  proof (cases "k + 1 < length tests")
    case True
    then have st: "stage pc (of_nat (k + 1)) (of_nat (length tests)) s' f' (out @ outp (test_func ?t)) m1" using m1(2) by (simp add: add.commute)
    then have "exited m1 = None" by (auto simp: stage_def test_ready_def)
    then have "test_run tests run startup m = test_run tests run startup m1" by (subst test_run.simps) (simp add: m1(1))
    then show ?thesis using Suc.hyps(1) [OF _ True st] Suc.hyps(2) unfolding rest by simp
  next
    case False
    then have over: "tests_over (of_nat (length tests)) s' f' (out @ outp (test_func ?t)) m1" using m1(2) by simp
    then have "test_run tests run startup m = Some (Inr m1)" by (subst test_run.simps) (simp add: m1(1) tests_over_def)
    then show ?thesis using over False unfolding rest by simp
  qed
qed simp

text \<open>
  What \<open>unittest_store\<close> stands for in the compiled firmware: one step of the simulator on \<open>STR R0, [R1]\<close> with the address of the
  device in \<open>R1\<close> is the store to the device, on the machine whose program counter has moved on.
\<close>

lemma store_is_step:
  assumes "\<not> mcu_is_halted m" "mcu_fetch16 (regs m REG_PC - 2) m = Some 0x6008"
    and "regs m 1 = unittest_base + off" "regs m 0 = v"
    and "unittest_store off v (mcu_write_reg REG_PC (regs m REG_PC + 2) m) = Inr m'"
  shows "idle_cb m = m'"
proof -
  have d: "decode mcu_instr16_cortex_m0p 0x6008 = Some instr_STR1" by (simp add: mcu_instr16_cortex_m0p_def)
  let ?m = "mcu_write_reg REG_PC (regs m REG_PC + 2) m"
  have r: "mcu_read_reg 1 ?m = unittest_base + off" "mcu_read_reg 0 ?m = v"
    using assms(3,4) by (simp_all add: mcu_read_reg_def mcu_write_reg_def set_reg_def Let_def)
  have "instr_STR1 0x6008 ?m = (True, m')"
    using assms(5) r by (simp add: instr_STR1_def Let_def str_at_def unittest_store_def split: prod.splits if_splits)
  then show ?thesis using assms(1,2) d
    by (simp add: idle_cb_def mcu_runloop_def mcu_instr_step_def mcu_read_reg_def is_thumb32_def run_impl_def Let_def)
qed

lemma created_tests:
  assumes "mcu_cortex_m0p_create ramsize ram0 = Some m"
  shows "\<exists>u. test_device m = Some u \<and> current_test u = -1" and "exited m = None"
  using assms by (auto simp: mcu_cortex_m0p_create_def Let_def mcu_add_mem_dev_def mcu_init_def mcu_zero_def test_device_def unittest_dev_create_def
      split: option.splits)

section \<open>Properties\<close>

text \<open>
  With the start-up code of \<^verbatim>\<open>bootstrap.c\<close>, all tests run. (The build does not include that file, and the start-up code of
  \<^verbatim>\<open>src/lib/firmware\<close> never calls \<open>test_do\<close>.) On a machine as it is created, with an image whose reset vector is a Thumb address, the
  simulator ends after every
  test of a non-empty table has run exactly once, in the order of the table, whatever registers and RAM the tests and the start-up code
  change: the console shows the output of the tests one after the other, the device has counted skipped and failed tests, and
  the exit status is 0 if and only if no test failed.
\<close>

theorem tests_all_run:
  assumes "test_ready pc u m" "current_test u = -1" "tests \<noteq> []" and n: "length tests < 2 ^ 31"
    and startup: "\<And>i m. keeps_tests [] m (startup i m)"
    and run: "\<And>t m. t \<in> set tests \<Longrightarrow> \<exists>m'. run (test_func t) m = Some (result (test_func t), m') \<and> keeps_tests (outp (test_func t)) m m'"
  shows "\<exists>m'. test_run tests run startup m = Some (Inr m')
     \<and> exited m' = Some (if \<exists>t \<in> set tests. is_Fails (result (test_func t)) then -1 else 0)
     \<and> console m' = console m @ concat (map (\<lambda>t. outp (test_func t)) tests)
     \<and> map_option (\<lambda>u. (total_tests u, tests_skipped u, tests_failed u)) (test_device m') =
         Some (of_nat (length tests), of_nat (skipped_in result tests), of_nat (failed_in result tests))"
proof -
  have st: "stage pc (-1) (total_tests u) (tests_skipped u) (tests_failed u) (console m) (startup 0 m)"
    using stage_keeps [OF _ startup [of m 0], of pc "-1" "total_tests u" "tests_skipped u" "tests_failed u" "console m"] assms(1,2)
    by (auto simp: stage_def)
  obtain m1 where m1: "arch_test_set_test_count (of_nat (length tests)) (startup 0 m) = Inr m1"
    "stage pc (of_nat 0) (of_nat (length tests)) 0 0 (console m) m1" using stage_count [OF st] by auto
  have "bootstrap_tests tests run startup m = Leaves m1"
    using stage_current [OF st] m1(1) by (simp add: bootstrap_tests_def test_do_def word_sless_alt)
  moreover have "exited m1 = None" using m1(2) by (auto simp: stage_def test_ready_def)
  ultimately have "test_run tests run startup m = test_run tests run startup m1" by (subst test_run.simps) simp
  then obtain m' where m': "test_run tests run startup m = Some (Inr m')"
    "tests_over (of_nat (length tests)) (of_nat (skipped_in result tests)) (of_nat (failed_in result tests))
       (console m @ concat (map (\<lambda>t. outp (test_func t)) tests)) m'"
    using runs_from [where run = run and outp = outp and result = result and startup = startup and k = 0, OF n startup run _ m1(2)] assms(3)
    by auto
  have "failed_in result tests < 2 ^ 31" using n length_filter_le [of "\<lambda>t. is_Fails (result (test_func t))" tests] by linarith
  then have "0 <s (of_nat (failed_in result tests) :: i32) \<longleftrightarrow> (\<exists>t \<in> set tests. is_Fails (result (test_func t)))"
    using sint_of_nat_32 [of "failed_in result tests"] by (auto simp: word_sless_alt filter_empty_conv)
  then show ?thesis using m' by (auto simp: tests_over_def)
qed

definition demo_tests :: "test list" where
  "demo_tests = [\<lparr>test_desc = 0, test_type = TEST_IN_MAIN_TASK, test_func = 0\<rparr>, \<lparr>test_desc = 0, test_type = TEST_AFTER_ARCH_EARLY_INIT, test_func = 1\<rparr>]"

definition demo_bodies :: test_bodies where
  "demo_bodies f m = Some (if f = 0 then Passes else Fails 0, m\<lparr>console := console m @ [of_nat f]\<rparr>)"

definition demo_image_mcu :: mcu where
  "demo_image_mcu = set_backend 3 (Flash (\<lambda>_. 1)) demo_mcu"

theorem tests_all_run_witness:
  "\<exists>m'. test_run demo_tests demo_bodies (\<lambda>_ m. m) demo_image_mcu = Some (Inr m') \<and> exited m' = Some (-1) \<and> console m' = [0, 1]"
proof -
  let ?u = "\<lparr>current_test = -1, total_tests = 0, tests_skipped = 0, tests_failed = 0, desc = None, status = 0, status_desc = None\<rparr>"
  have r: "test_ready 0x01010101 ?u demo_image_mcu" "console demo_image_mcu = []"
    by (simp_all add: test_ready_def demo_image_mcu_def demo_mcu_def mcu_zero_def set_backend_def test_device_def unittest_dev_create_def
        uart_dev_create_def reset_vector_def mem_defs in_window_def rd32_def rd16_def)
  have k: "keeps_tests [] m m" "mcu_fetch32 a (m\<lparr>console := x\<rparr>) = mcu_fetch32 a m" "test_device (m\<lparr>console := x\<rparr>) = test_device m" for m a x
    by (simp_all add: keeps_tests_def mcu_fetch32_def test_device_def cong: option.case_cong)
  show ?thesis
    using tests_all_run [OF r(1), of demo_tests "\<lambda>_ m. m" demo_bodies "\<lambda>f. if f = 0 then Passes else Fails 0" "\<lambda>f. [of_nat f]"] r(2)
    by (auto simp: demo_tests_def demo_bodies_def keeps_tests_def k)
qed

text \<open>
  \<open>unreachable()\<close> is justified: whatever its argument, each of the four functions that do not return stores to the device without
  fault, and the simulator then either has ended or stands at the reset vector in thread mode.
\<close>

theorem test_calls_do_not_return:
  assumes "test_ready pc u m"
  shows "\<exists>m'. arch_test_set_test_count n m = Inr m' \<and> at_reset pc m'"
    and "f \<in> {arch_test_pass, arch_test_fail, arch_test_skip, test_fail} \<Longrightarrow>
      \<exists>m'. f r m = Inr m' \<and> (exited m' \<noteq> None \<or> at_reset pc m')"
proof -
  have st: "stage pc (current_test u) (total_tests u) (tests_skipped u) (tests_failed u) (console m) m"
    using assms by (auto simp: stage_def)
  show "\<exists>m'. arch_test_set_test_count n m = Inr m' \<and> at_reset pc m'" using stage_count [OF st] by blast
  have fin: "\<exists>m'. (case unittest_store 0x16 r m of Inl e \<Rightarrow> Inl e | Inr m \<Rightarrow> unittest_store 0x12 v m) = Inr m' \<and> (exited m' \<noteq> None \<or> at_reset pc m')"
    if "v \<in> {STATUS_SKIPPED, STATUS_PASSED, STATUS_FAILED}" for v
  proof -
    obtain m1 where m1: "unittest_store 0x16 r m = Inr m1" "stage pc (current_test u) (total_tests u) (tests_skipped u) (tests_failed u) (console m) m1"
      using stage_store [OF st, of "0x16" r] by auto
    show ?thesis using stage_finish [OF m1(2) that refl refl] by (auto simp: m1(1) tests_over_def split: if_splits)
  qed
  show "\<exists>m'. f r m = Inr m' \<and> (exited m' \<noteq> None \<or> at_reset pc m')" if "f \<in> {arch_test_pass, arch_test_fail, arch_test_skip, test_fail}"
    using that fin [of STATUS_PASSED] fin [of STATUS_FAILED] fin [of STATUS_SKIPPED]
    by (auto simp: arch_test_pass_def arch_test_fail_def arch_test_skip_def test_fail_def)
qed

text \<open>With an empty table the first restart reads past its end: the device reports test 0 of 0.\<close>

theorem no_tests_reads_past_table:
  assumes "test_ready pc u m" "current_test u = -1" and startup: "\<And>i m. keeps_tests [] m (startup i m)"
  shows "test_run [] run startup m = Some (Inl Out_Of_Bounds)"
proof -
  have st: "stage pc (-1) (total_tests u) (tests_skipped u) (tests_failed u) (console m) (startup 0 m)"
    using stage_keeps [OF _ startup [of m 0], of pc "-1" "total_tests u" "tests_skipped u" "tests_failed u" "console m"] assms(1,2)
    by (auto simp: stage_def)
  obtain m1 where m1: "arch_test_set_test_count 0 (startup 0 m) = Inr m1" "stage pc 0 0 0 0 (console m) m1" using stage_count [OF st] by auto
  have st1: "stage pc 0 0 0 0 (console m) (startup 0 m1)" using stage_keeps [OF m1(2) startup] by simp
  have "bootstrap_tests [] run startup m = Leaves m1" "bootstrap_tests [] run startup m1 = Faults Out_Of_Bounds"
    using stage_current [OF st] stage_current [OF st1] m1(1) by (simp_all add: bootstrap_tests_def test_do_def word_sless_alt)
  moreover have "exited m1 = None" using m1(2) by (auto simp: stage_def test_ready_def)
  ultimately show ?thesis by (subst test_run.simps, simp, subst test_run.simps, simp)
qed

end
