(* ===== verification/Samd_Port.thy ===== *)
theory Samd_Port
  imports FW_Result Plat_Gpio
begin

text \<open>
  The pins of the SAMD20: \<^verbatim>\<open>src/platform/samd20/gpio.c\<close>, \<^verbatim>\<open>src/platform/samd20/pinmux.c\<close> and
  the LED of \<^verbatim>\<open>src/target/samd20_xplained/test_cmd.c\<close>.

  \<^item> The port controller has two groups of 32 pins (\<open>PORT_GROUPS\<close>), 0x80 bytes apart. A group is its
    direction and output registers and, per pin, the pin configuration and the multiplexer setting.
  \<^item> The write-only registers (\<open>DIRCLR\<close>, \<open>DIRSET\<close>, \<open>OUTCLR\<close>, \<open>OUTSET\<close>, \<open>WRCONFIG\<close>) are the effect that
    writing them has on a group, by the layout of \<^verbatim>\<open>component_port.h\<close>.
  \<^item> A shift into the sign bit of an \<open>int\<close> is the shift of the 32 bit word.

  Shown: \<open>pinmux_set_mux\<close> configures exactly the pin it is given, pins are independent, and the LED
  command drives the LED pin low for on.
\<close>

section \<open>Port groups\<close>

record pgroup =
  PDIR :: u32
  POUT :: u32
  PINCFG :: "nat \<Rightarrow> u8"
  PMUX :: "nat \<Rightarrow> u8"

definition PORT_GROUPS :: nat where "PORT_GROUPS = 2"

text \<open>A write of a direction or output register by its offset in the group.\<close>

definition port_write :: "nat \<Rightarrow> u32 \<Rightarrow> pgroup \<Rightarrow> pgroup" where
  "port_write offset v g =
     (if offset = 0x04 then g\<lparr>PDIR := PDIR g AND NOT v\<rparr>
      else if offset = 0x08 then g\<lparr>PDIR := PDIR g OR v\<rparr>
      else if offset = 0x14 then g\<lparr>POUT := POUT g AND NOT v\<rparr>
      else if offset = 0x18 then g\<lparr>POUT := POUT g OR v\<rparr>
      else g)"

text \<open>
  A write of \<open>WRCONFIG\<close>: the low 16 bits select pins of the half \<open>HWSEL\<close>; \<open>WRPINCFG\<close> gives each of
  them the bits 16 to 22 as its configuration and \<open>WRPMUX\<close> the bits 24 to 27 as its multiplexer
  setting.
\<close>

definition wr_selected :: "u32 \<Rightarrow> nat \<Rightarrow> bool" where
  "wr_selected w n = (n < 32 \<and> bit w 31 = (16 \<le> n) \<and> bit w (n mod 16))"

definition wrconfig :: "u32 \<Rightarrow> pgroup \<Rightarrow> pgroup" where
  "wrconfig w g = g\<lparr>
     PINCFG := (\<lambda>n. if wr_selected w n \<and> bit w 30 then ucast (drop_bit 16 w) AND 0x5F else PINCFG g n),
     PMUX := (\<lambda>n. if wr_selected w n \<and> bit w 28 then ucast (drop_bit 24 w) AND 0xF else PMUX g n)\<rparr>"

section \<open>gpio.c\<close>

definition samd_PIN :: "u32 \<Rightarrow> u32 \<Rightarrow> u32" where
  "samd_PIN port pin = push_bit 24 port OR pin"

definition kGPIORegDirClr :: u8 where "kGPIORegDirClr = 0x04"
definition kGPIORegDirSet :: u8 where "kGPIORegDirSet = 0x08"
definition kGPIORegDataClr :: u8 where "kGPIORegDataClr = 0x14"
definition kGPIORegDataSet :: u8 where "kGPIORegDataSet = 0x18"

text \<open>The offset of a register from \<open>kGPIORegBase\<close>.\<close>

definition gpio_reg :: "u32 \<Rightarrow> u8 \<Rightarrow> nat" where
  "gpio_reg pin reg_offset = (let port = ucast (drop_bit 24 pin) :: u8 in 0x80 * unat port + unat reg_offset)"

definition pin_get_bit :: "u32 \<Rightarrow> u8" where
  "pin_get_bit pin = ucast (pin AND 0x1F)"

text \<open>A store to the port controller; behind its last group there are no registers.\<close>

definition port_store :: "nat \<Rightarrow> u32 \<Rightarrow> pgroup list \<Rightarrow> fault + pgroup list" where
  "port_store addr v gs =
     (let i = addr div 0x80
      in if i \<ge> length gs then Inl Out_Of_Bounds
         else Inr (gs[i := port_write (addr mod 0x80) v (gs ! i)]))"

definition samd_gpio_set_direction :: "u32 \<Rightarrow> gpio_direction_t \<Rightarrow> pgroup list \<Rightarrow> fault + pgroup list" where
  "samd_gpio_set_direction pin direction gs =
     (case direction of
        GPIO_DIRECTION_IN \<Rightarrow> port_store (gpio_reg pin kGPIORegDirClr) (push_bit (unat (pin_get_bit pin)) 1) gs
      | GPIO_DIRECTION_OUT \<Rightarrow> port_store (gpio_reg pin kGPIORegDirSet) (push_bit (unat (pin_get_bit pin)) 1) gs)"

definition samd_gpio_set_pull :: "u32 \<Rightarrow> gpio_pull_t \<Rightarrow> pgroup list \<Rightarrow> fault + pgroup list" where
  "samd_gpio_set_pull pin pull gs = Inl Assert_Failed"

definition samd_gpio_set :: "u32 \<Rightarrow> bool \<Rightarrow> pgroup list \<Rightarrow> fault + pgroup list" where
  "samd_gpio_set pin on gs =
     (if on then port_store (gpio_reg pin kGPIORegDataSet) (push_bit (unat (pin_get_bit pin)) 1) gs
      else port_store (gpio_reg pin kGPIORegDataClr) (push_bit (unat (pin_get_bit pin)) 1) gs)"

definition samd_gpio_get :: "u32 \<Rightarrow> pgroup list \<Rightarrow> fault + bool" where
  "samd_gpio_get pin gs = Inl Assert_Failed"

definition samd_gpio_strobe :: "u32 \<Rightarrow> bool \<Rightarrow> int \<Rightarrow> pgroup list \<Rightarrow> fault + pgroup list" where
  "samd_gpio_strobe pin on time gs = Inl Assert_Failed"

section \<open>pinmux.c\<close>

datatype system_pinmux_pin_dir =
    SYSTEM_PINMUX_PIN_DIR_INPUT
  | SYSTEM_PINMUX_PIN_DIR_OUTPUT
  | SYSTEM_PINMUX_PIN_DIR_OUTPUT_WITH_READBACK

datatype system_pinmux_pin_pull =
    SYSTEM_PINMUX_PIN_PULL_NONE
  | SYSTEM_PINMUX_PIN_PULL_UP
  | SYSTEM_PINMUX_PIN_PULL_DOWN

record system_pinmux_config =
  mux_position :: u8
  direction :: system_pinmux_pin_dir
  input_pull :: system_pinmux_pin_pull
  powersave :: bool

definition SYSTEM_PINMUX_GPIO :: u8 where "SYSTEM_PINMUX_GPIO = push_bit 7 1"

definition PORT_WRCONFIG_PMUXEN :: u32 where "PORT_WRCONFIG_PMUXEN = push_bit 16 1"
definition PORT_WRCONFIG_INEN :: u32 where "PORT_WRCONFIG_INEN = push_bit 17 1"
definition PORT_WRCONFIG_PULLEN :: u32 where "PORT_WRCONFIG_PULLEN = push_bit 18 1"
definition PORT_WRCONFIG_WRPMUX :: u32 where "PORT_WRCONFIG_WRPMUX = push_bit 28 1"
definition PORT_WRCONFIG_WRPINCFG :: u32 where "PORT_WRCONFIG_WRPINCFG = push_bit 30 1"
definition PORT_WRCONFIG_HWSEL :: u32 where "PORT_WRCONFIG_HWSEL = push_bit 31 1"

text \<open>The index of the group; there is one port controller (\<open>PORT_INST_NUM\<close>).\<close>

definition system_pinmux_get_group_from_gpio_pin :: "u8 \<Rightarrow> nat option" where
  "system_pinmux_get_group_from_gpio_pin gpio_pin =
     (let port_index = unat gpio_pin div 128; group_index = unat gpio_pin div 32
      in if port_index < 1 then Some group_index else None)"

definition system_pinmux_config_apply :: "u32 \<Rightarrow> system_pinmux_config \<Rightarrow> pgroup \<Rightarrow> pgroup" where
  "system_pinmux_config_apply pin_mask config g =
     (let inp = (direction config = SYSTEM_PINMUX_PIN_DIR_INPUT \<or>
                 direction config = SYSTEM_PINMUX_PIN_DIR_OUTPUT_WITH_READBACK);
          outp = (direction config = SYSTEM_PINMUX_PIN_DIR_OUTPUT \<or>
                  direction config = SYSTEM_PINMUX_PIN_DIR_OUTPUT_WITH_READBACK);
          (pin_cfg, g) =
            (if \<not> powersave config then
               let pin_cfg = (if mux_position config \<noteq> SYSTEM_PINMUX_GPIO
                              then PORT_WRCONFIG_PMUXEN OR push_bit 24 (ucast (mux_position config)) else 0);
                   (pin_cfg, g) =
                     (if inp then
                        (pin_cfg OR PORT_WRCONFIG_INEN OR
                           (if input_pull config \<noteq> SYSTEM_PINMUX_PIN_PULL_NONE then PORT_WRCONFIG_PULLEN else 0),
                         port_write 0x04 pin_mask g)
                      else (pin_cfg, g))
               in (if outp then pin_cfg AND NOT PORT_WRCONFIG_PULLEN else pin_cfg, g)
             else (0, g));
          lower_pin_mask = pin_mask AND 0xFFFF;
          upper_pin_mask = drop_bit 16 pin_mask;
          g = wrconfig (lower_pin_mask OR pin_cfg OR PORT_WRCONFIG_WRPMUX OR PORT_WRCONFIG_WRPINCFG) g;
          g = wrconfig (upper_pin_mask OR pin_cfg OR PORT_WRCONFIG_WRPMUX OR PORT_WRCONFIG_WRPINCFG OR
                        PORT_WRCONFIG_HWSEL) g
      in if \<not> powersave config then
           let g = (if pin_cfg AND PORT_WRCONFIG_PULLEN \<noteq> 0 then
                      if input_pull config = SYSTEM_PINMUX_PIN_PULL_UP then port_write 0x18 pin_mask g
                      else port_write 0x14 pin_mask g
                    else g)
           in if outp then port_write 0x08 pin_mask g else g
         else g)"

definition system_pinmux_config_group :: "nat option \<Rightarrow> u32 \<Rightarrow> system_pinmux_config \<Rightarrow> pgroup list \<Rightarrow> fault + pgroup list" where
  "system_pinmux_config_group port pin_mask config gs =
     (case port of
        None \<Rightarrow> Inl Null_Deref
      | Some i \<Rightarrow> if i \<ge> length gs then Inl Out_Of_Bounds
                 else Inr (gs[i := system_pinmux_config_apply pin_mask config (gs ! i)]))"

definition pinmux_set_mux :: "u32 \<Rightarrow> pgroup list \<Rightarrow> fault + pgroup list" where
  "pinmux_set_mux mux gs =
     (let pin = drop_bit 16 mux;
          portGroup = system_pinmux_get_group_from_gpio_pin (ucast pin);
          pin_mask = push_bit (unat (pin mod 32)) 1;
          config = \<lparr>mux_position = ucast (mux AND 0xFFFF), direction = SYSTEM_PINMUX_PIN_DIR_INPUT,
                    input_pull = SYSTEM_PINMUX_PIN_PULL_NONE, powersave = False\<rparr>
      in system_pinmux_config_group portGroup pin_mask config gs)"

section \<open>test_cmd.c\<close>

definition kLEDPin :: u32 where "kLEDPin = samd_PIN 0 14"

text \<open>The command \<open>samd20\<close>; the result is 0 on every path.\<close>

definition samd20_test_cmd :: "string list \<Rightarrow> pgroup list \<Rightarrow> fault + (int \<times> pgroup list)" where
  "samd20_test_cmd argv gs =
     (if length argv = 3 \<and> argv ! 1 = ''led'' then
        case samd_gpio_set_direction kLEDPin GPIO_DIRECTION_OUT gs of
          Inl e \<Rightarrow> Inl e
        | Inr gs \<Rightarrow>
            map_sum id (\<lambda>gs. (0, gs))
              (if argv ! 2 = ''on'' then samd_gpio_set kLEDPin False gs
               else if argv ! 2 = ''off'' then samd_gpio_set kLEDPin True gs
               else Inr gs)
      else Inr (0, gs))"

section \<open>Pins\<close>

lemma unat_ucast_bit5: "unat (ucast (x AND 0x1F :: u32) :: u8) = unat x mod 32"
proof -
  have "x AND 0x1F = take_bit 5 x"
    by (simp add: take_bit_eq_mask mask_eq_exp_minus_1)
  then show ?thesis
    by (simp add: unsigned_ucast_eq unsigned_take_bit_eq take_bit_take_bit) (simp add: take_bit_eq_mod)
qed

lemma pin_get_bit_nat: "unat (pin_get_bit pin) = unat pin mod 32"
  by (simp add: pin_get_bit_def unat_ucast_bit5)

text \<open>The group of a pin.\<close>

definition pin_group :: "u32 \<Rightarrow> nat" where "pin_group pin = unat pin div 2 ^ 24"

lemma pin_port_nat: "unat (ucast (drop_bit 24 pin :: u32) :: u8) = pin_group pin"
proof -
  have "unat pin div 2 ^ 24 < 2 ^ 8"
    using unsigned_less [of pin, where 'a = nat] by (simp add: less_mult_imp_div_less)
  then show ?thesis
    by (simp add: pin_group_def unsigned_ucast_eq unsigned_drop_bit_eq) (simp add: drop_bit_eq_div take_bit_nat_eq_self)
qed

lemma gpio_reg_split:
  assumes "unat r < 0x80"
  shows "gpio_reg pin r div 0x80 = pin_group pin" "gpio_reg pin r mod 0x80 = unat r"
  using assms by (simp_all add: gpio_reg_def pin_port_nat)

lemma port_store_reg:
  assumes "unat r < 0x80" "pin_group pin < length gs"
  shows "port_store (gpio_reg pin r) v gs =
    Inr (gs[pin_group pin := port_write (unat r) v (gs ! (pin_group pin))])"
  using assms by (simp add: port_store_def gpio_reg_split Let_def)

text \<open>The value a pin drives, and whether it is an output.\<close>

definition pin_out :: "nat \<Rightarrow> nat \<Rightarrow> pgroup list \<Rightarrow> bool" where
  "pin_out i n gs = bit (POUT (gs ! i)) n"

definition pin_is_output :: "nat \<Rightarrow> nat \<Rightarrow> pgroup list \<Rightarrow> bool" where
  "pin_is_output i n gs = bit (PDIR (gs ! i)) n"

lemma bit_set_clear:
  fixes w :: u32
  assumes "m < 32" "n < 32"
  shows "bit (w OR 2 ^ m) n = (if n = m then True else bit w n)"
    "bit (w AND NOT (2 ^ m)) n = (if n = m then False else bit w n)"
  using assms by (auto simp: bit_simps)

lemma samd_gpio_set_spec:
  assumes "pin_group pin < length gs"
  shows "\<exists>gs'. samd_gpio_set pin on gs = Inr gs' \<and> length gs' = length gs \<and>
    (\<forall>i < length gs. \<forall>n < 32.
       pin_out i n gs' = (if (i, n) = (pin_group pin, unat pin mod 32) then on else pin_out i n gs) \<and>
       pin_is_output i n gs' = pin_is_output i n gs)"
  using assms
  by (auto simp: samd_gpio_set_def port_store_reg kGPIORegDataSet_def kGPIORegDataClr_def port_write_def
      pin_out_def pin_is_output_def nth_list_update pin_get_bit_nat bit_set_clear)

lemma samd_gpio_set_direction_spec:
  assumes "pin_group pin < length gs"
  shows "\<exists>gs'. samd_gpio_set_direction pin d gs = Inr gs' \<and> length gs' = length gs \<and>
    (\<forall>i < length gs. \<forall>n < 32.
       pin_is_output i n gs' = (if (i, n) = (pin_group pin, unat pin mod 32) then d = GPIO_DIRECTION_OUT
                                else pin_is_output i n gs) \<and>
       pin_out i n gs' = pin_out i n gs)"
  using assms
  by (cases d) (auto simp: samd_gpio_set_direction_def port_store_reg kGPIORegDirSet_def kGPIORegDirClr_def
      port_write_def pin_out_def pin_is_output_def nth_list_update pin_get_bit_nat bit_set_clear)

lemma samd_gpio_stubs:
  "samd_gpio_set_pull pin pull gs = Inl Assert_Failed"
  "samd_gpio_get pin gs = Inl Assert_Failed"
  "samd_gpio_strobe pin on t gs = Inl Assert_Failed"
  by (simp_all add: samd_gpio_set_pull_def samd_gpio_get_def samd_gpio_strobe_def)

section \<open>The LED command\<close>

lemma kLEDPin_pos [simp]: "pin_group kLEDPin = 0" "unat kLEDPin mod 32 = 14"
  by (simp_all add: kLEDPin_def samd_PIN_def pin_group_def)

text \<open>
  The LED of the board is lit by a low level. For the command \<open>samd20 led on\<close> or \<open>samd20 led off\<close> the pin
  becomes an output at the level that lights it or not, and no other pin is touched.
\<close>

theorem led_command:
  assumes "gs \<noteq> []"
  shows "\<exists>gs'. samd20_test_cmd [cmd, ''led'', if on then ''on'' else ''off''] gs = Inr (0, gs') \<and>
    length gs' = length gs \<and> pin_is_output 0 14 gs' \<and> pin_out 0 14 gs' = (\<not> on) \<and>
    (\<forall>i < length gs. \<forall>n < 32. (i, n) \<noteq> (0, 14) \<longrightarrow>
       pin_is_output i n gs' = pin_is_output i n gs \<and> pin_out i n gs' = pin_out i n gs)"
proof -
  from assms have len: "0 < length gs" by simp
  obtain gs1 where 1: "samd_gpio_set_direction kLEDPin GPIO_DIRECTION_OUT gs = Inr gs1" "length gs1 = length gs"
    "\<forall>i < length gs. \<forall>n < 32. pin_is_output i n gs1 = (if (i, n) = (0, 14) then True else pin_is_output i n gs) \<and>
       pin_out i n gs1 = pin_out i n gs"
    using samd_gpio_set_direction_spec [of kLEDPin gs GPIO_DIRECTION_OUT] len by auto
  obtain gs2 where 2: "samd_gpio_set kLEDPin (\<not> on) gs1 = Inr gs2" "length gs2 = length gs1"
    "\<forall>i < length gs1. \<forall>n < 32. pin_out i n gs2 = (if (i, n) = (0, 14) then \<not> on else pin_out i n gs1) \<and>
       pin_is_output i n gs2 = pin_is_output i n gs1"
    using samd_gpio_set_spec [of kLEDPin gs1 "\<not> on"] len 1(2) by auto
  have "samd20_test_cmd [cmd, ''led'', if on then ''on'' else ''off''] gs = Inr (0, gs2)"
    using 1(1) 2(1) by (cases on) (simp_all add: samd20_test_cmd_def)
  with 1(2,3) 2(2,3) len show ?thesis by (intro exI [of _ gs2]) auto
qed

section \<open>The multiplexer\<close>

text \<open>The configuration word of a peripheral pin, for the pins \<open>q\<close> of the lower or upper half.\<close>

definition mux_word :: "u8 \<Rightarrow> bool \<Rightarrow> u32 \<Rightarrow> u32" where
  "mux_word m upper q = q OR (PORT_WRCONFIG_PMUXEN OR push_bit 24 (ucast m) OR PORT_WRCONFIG_INEN) OR
     PORT_WRCONFIG_WRPMUX OR PORT_WRCONFIG_WRPINCFG OR (if upper then PORT_WRCONFIG_HWSEL else 0)"

lemma take_bit_4_self: "m < 16 \<Longrightarrow> take_bit 4 m = m" for m :: u8
  by (simp add: take_bit_eq_mod word_unat_eq_iff unat_mod word_less_nat_alt)

lemma wrconfig_bits:
  "bit PORT_WRCONFIG_PMUXEN n = (n = 16)" "bit PORT_WRCONFIG_INEN n = (n = 17)"
  "bit PORT_WRCONFIG_PULLEN n = (n = 18)" "bit PORT_WRCONFIG_WRPMUX n = (n = 28)"
  "bit PORT_WRCONFIG_WRPINCFG n = (n = 30)" "bit PORT_WRCONFIG_HWSEL n = (n = 31)"
  by (auto simp: PORT_WRCONFIG_PMUXEN_def PORT_WRCONFIG_INEN_def PORT_WRCONFIG_PULLEN_def
      PORT_WRCONFIG_WRPMUX_def PORT_WRCONFIG_WRPINCFG_def PORT_WRCONFIG_HWSEL_def bit_push_bit_iff bit_1_iff
      simp del: push_bit_of_1)

lemma mux_word_bit:
  assumes "m < 16" "n < 32" and q: "\<And>n. 16 \<le> n \<Longrightarrow> \<not> bit q n"
  shows "bit (mux_word m upper q) n =
    (if n < 16 then bit q n
     else n \<in> {16, 17, 28, 30} \<or> n = 31 \<and> upper \<or> 24 \<le> n \<and> n < 28 \<and> bit m (n - 24))"
proof -
  have "bit m (n - 24) = (n - 24 < 4 \<and> bit m (n - 24))"
    by (subst (1 2) take_bit_4_self [OF assms(1), symmetric]) (simp add: bit_take_bit_iff)
  then have "bit (push_bit 24 (ucast m) :: u32) n = (24 \<le> n \<and> n < 28 \<and> bit m (n - 24))"
    using assms(2) by (auto simp: bit_push_bit_iff bit_ucast_iff)
  with q [of n] show ?thesis
    by (simp add: mux_word_def bit_or_iff wrconfig_bits) auto
qed

lemma mux_word_fields:
  assumes m: "m < 16" and q: "\<And>n. 16 \<le> n \<Longrightarrow> \<not> bit q n"
  shows "ucast (drop_bit 16 (mux_word m upper q)) AND 0x5F = (0x03 :: u8)"
    and "ucast (drop_bit 24 (mux_word m upper q)) AND 0xF = m"
proof -
  have pos: "n < 8 \<Longrightarrow> n \<in> {0, 1, 2, 3, 4, 5, 6, 7}" for n :: nat by auto
  show "ucast (drop_bit 16 (mux_word m upper q)) AND 0x5F = (0x03 :: u8)"
  proof (rule bit_word_eqI)
    fix n assume "n < LENGTH(8)"
    with pos [of n] show "bit (ucast (drop_bit 16 (mux_word m upper q)) AND 0x5F :: u8) n = bit (0x03 :: u8) n"
      by (auto simp: bit_and_iff bit_ucast_iff bit_drop_bit_eq mux_word_bit [OF m _ q])
  qed
  show "ucast (drop_bit 24 (mux_word m upper q)) AND 0xF = m"
  proof (rule bit_word_eqI)
    fix n assume "n < LENGTH(8)"
    with pos [of n] show "bit (ucast (drop_bit 24 (mux_word m upper q)) AND 0xF :: u8) n = bit m n"
      by (subst (2) take_bit_4_self [OF m, symmetric]) (auto simp: bit_and_iff bit_take_bit_iff bit_ucast_iff bit_drop_bit_eq mux_word_bit [OF m _ q])
  qed
qed

lemma bit_low_half: "bit (2 ^ p AND 0xFFFF :: u32) n = (n = p \<and> p < 16)"
proof -
  have "(0xFFFF :: u32) = mask 16" by (simp add: mask_eq_exp_minus_1)
  then show ?thesis by (auto simp only: bit_and_iff bit_exp_iff bit_mask_iff possible_bit_word) auto
qed

lemma bit_high_half: "bit (drop_bit 16 (2 ^ p) :: u32) n = (n + 16 = p \<and> p < 32)"
  by (auto simp: bit_drop_bit_eq bit_exp_iff)

lemma mux_word_selected:
  assumes "m < 16" "p < 32" "n < 32"
  shows "wr_selected (mux_word m False (2 ^ p AND 0xFFFF)) n = (n = p \<and> p < 16)"
    and "wr_selected (mux_word m True (drop_bit 16 (2 ^ p))) n = (n = p \<and> 16 \<le> p)"
proof -
  have upper: "16 \<le> k \<Longrightarrow> k < 32 \<Longrightarrow> k mod 16 = k - 16" for k :: nat by presburger
  show "wr_selected (mux_word m False (2 ^ p AND 0xFFFF)) n = (n = p \<and> p < 16)"
    and "wr_selected (mux_word m True (drop_bit 16 (2 ^ p))) n = (n = p \<and> 16 \<le> p)"
    using assms by (auto simp: wr_selected_def mux_word_bit bit_low_half bit_high_half upper)
qed

text \<open>What \<open>pinmux_set_mux\<close> does to a group: pin \<open>p\<close> becomes an input of peripheral \<open>m\<close>.\<close>

definition mux_pin :: "u8 \<Rightarrow> nat \<Rightarrow> pgroup \<Rightarrow> pgroup" where
  "mux_pin m p g = g\<lparr>PDIR := PDIR g AND NOT (2 ^ p), PINCFG := (PINCFG g)(p := 0x03), PMUX := (PMUX g)(p := m)\<rparr>"

lemma wrconfig_mux:
  assumes "m < 16" "p < 32"
  shows "wrconfig (mux_word m True (drop_bit 16 (2 ^ p))) (wrconfig (mux_word m False (2 ^ p AND 0xFFFF)) g) =
    g\<lparr>PINCFG := (PINCFG g)(p := 0x03), PMUX := (PMUX g)(p := m)\<rparr>"
proof -
  have sel: "wr_selected (mux_word m False (2 ^ p AND 0xFFFF)) n = (n = p \<and> p < 16)"
    "wr_selected (mux_word m True (drop_bit 16 (2 ^ p))) n = (n = p \<and> 16 \<le> p)" for n
    using assms mux_word_selected by (cases "n < 32"; auto simp: wr_selected_def)+
  have low: "\<And>n. 16 \<le> n \<Longrightarrow> \<not> bit (2 ^ p AND 0xFFFF :: u32) n" "\<And>n. 16 \<le> n \<Longrightarrow> \<not> bit (drop_bit 16 (2 ^ p) :: u32) n"
    by (auto simp: bit_low_half bit_high_half)
  note fields = mux_word_fields [OF assms(1) low(1)] mux_word_fields [OF assms(1) low(2)]
  note bits = mux_word_bit [OF assms(1) _ low(1)] mux_word_bit [OF assms(1) _ low(2)]
  show ?thesis
    by (cases g) (auto simp: wrconfig_def sel fields bits fun_eq_iff)
qed

lemma config_apply_mux:
  assumes "m < 16" "p < 32"
  shows "system_pinmux_config_apply (2 ^ p) \<lparr>mux_position = m, direction = SYSTEM_PINMUX_PIN_DIR_INPUT,
      input_pull = SYSTEM_PINMUX_PIN_PULL_NONE, powersave = False\<rparr> g = mux_pin m p g"
proof -
  have "m \<noteq> SYSTEM_PINMUX_GPIO" using assms(1) by (auto simp: SYSTEM_PINMUX_GPIO_def)
  moreover have "(PORT_WRCONFIG_PMUXEN OR push_bit 24 (ucast m) OR PORT_WRCONFIG_INEN) AND PORT_WRCONFIG_PULLEN = 0"
    by (rule bit_word_eqI) (auto simp: bit_simps wrconfig_bits)
  ultimately show ?thesis
    using wrconfig_mux [OF assms, of "port_write 4 (2 ^ p) g"]
    by (simp add: system_pinmux_config_apply_def mux_word_def Let_def or.assoc mux_pin_def port_write_def)
qed

text \<open>The macros \<open>PINMUX_*\<close> put the pin above bit 16 and the multiplexer setting below.\<close>

definition PINMUX :: "nat \<Rightarrow> u8 \<Rightarrow> u32" where
  "PINMUX pin m = push_bit 16 (of_nat pin) OR ucast m"

lemma PINMUX_parts:
  assumes "pin < 2 ^ 16"
  shows "drop_bit 16 (PINMUX pin m) = of_nat pin" "ucast (PINMUX pin m AND 0xFFFF) = m"
proof -
  have pin: "n < 16" if "bit pin n" for n
    using assms that by (metis bit_take_bit_iff take_bit_nat_eq_self_iff)
  have high: "n < 8" if "bit m n" for n
    using bit_imp_le_length [OF that] by simp
  show "drop_bit 16 (PINMUX pin m) = of_nat pin"
    by (rule bit_word_eqI) (auto simp: PINMUX_def bit_simps dest: pin high)
  have "PINMUX pin m AND 0xFFFF = take_bit 16 (PINMUX pin m)"
    by (simp add: take_bit_eq_mask mask_eq_exp_minus_1)
  then show "ucast (PINMUX pin m AND 0xFFFF) = m"
    by (intro bit_word_eqI) (auto simp: PINMUX_def bit_simps dest: high)
qed

lemma pinmux_set_mux_pin:
  assumes "pin < 64" "length gs = PORT_GROUPS" "m < 16"
  shows "pinmux_set_mux (PINMUX pin m) gs =
    Inr (gs[pin div 32 := mux_pin m (pin mod 32) (gs ! (pin div 32))])"
proof -
  have u: "unat (of_nat pin :: u32) = pin" "unat (of_nat pin :: u8) = pin"
    using assms(1) by (simp_all add: unat_of_nat)
  have parts: "drop_bit 16 (PINMUX pin m) = of_nat pin" "ucast (PINMUX pin m AND 0xFFFF) = m"
    using PINMUX_parts [of pin m] assms(1) by simp_all
  have grp: "system_pinmux_get_group_from_gpio_pin (ucast (of_nat pin :: u32)) = Some (pin div 32)"
    using assms(1) u by (simp add: system_pinmux_get_group_from_gpio_pin_def unsigned_ucast_eq take_bit_nat_eq_self)
  have bitp: "unat (of_nat pin mod 32 :: u32) = pin mod 32"
    by (simp add: unat_mod u)
  have "pin div 32 < length gs" using assms(1,2) by (simp add: PORT_GROUPS_def)
  then show ?thesis
    using config_apply_mux [of m "pin mod 32"] assms(3)
    by (simp add: pinmux_set_mux_def parts grp bitp system_pinmux_config_group_def Let_def)
qed

text \<open>
  For a pin of the two groups and a multiplexer setting of the hardware, \<open>pinmux_set_mux\<close> makes
  exactly this pin an input of that peripheral, with its input buffer on and no pull resistor:
  every other pin keeps its direction, configuration and setting, and no output level changes.
\<close>

theorem pinmux_set_mux_exact:
  assumes "pin < 64" "length gs = PORT_GROUPS" "m < 16"
  shows "\<exists>gs'. pinmux_set_mux (PINMUX pin m) gs = Inr gs' \<and> length gs' = PORT_GROUPS \<and>
    (\<forall>i < PORT_GROUPS. \<forall>n < 32.
       (pin_is_output i n gs', PINCFG (gs' ! i) n, PMUX (gs' ! i) n) =
         (if 32 * i + n = pin then (False, 0x03, m) else (pin_is_output i n gs, PINCFG (gs ! i) n, PMUX (gs ! i) n)) \<and>
       pin_out i n gs' = pin_out i n gs)"
proof -
  have pos: "32 * i + n = pin \<longleftrightarrow> i = pin div 32 \<and> n = pin mod 32" if "n < 32" for i n
    using that by (auto simp: mult.commute [of 32])
  show ?thesis
    using assms(1,2) pinmux_set_mux_pin [OF assms]
    by (auto simp: mux_pin_def nth_list_update pin_is_output_def pin_out_def bit_set_clear pos PORT_GROUPS_def)
qed

theorem pinmux_set_mux_exact_witness:
  "\<exists>gs'. pinmux_set_mux (PINMUX 40 2) (replicate 2 \<lparr>PDIR = 0xFFF, POUT = 0, PINCFG = \<lambda>_. 4, PMUX = \<lambda>_. 5\<rparr>) = Inr gs' \<and>
     length gs' = 2 \<and> PMUX (gs' ! 1) 8 = 2 \<and> PINCFG (gs' ! 1) 8 = 3 \<and> PMUX (gs' ! 0) 8 = 5"
proof -
  let ?gs = "replicate 2 \<lparr>PDIR = 0xFFF, POUT = 0, PINCFG = \<lambda>_. 4, PMUX = \<lambda>_. 5\<rparr>"
  obtain gs' where gs': "pinmux_set_mux (PINMUX 40 2) ?gs = Inr gs'" "length gs' = 2"
    and pins: "\<forall>i < 2. \<forall>n < 32. (pin_is_output i n gs', PINCFG (gs' ! i) n, PMUX (gs' ! i) n) =
      (if 32 * i + n = 40 then (False, 3, 2) else (pin_is_output i n ?gs, PINCFG (?gs ! i) n, PMUX (?gs ! i) n))"
    using pinmux_set_mux_exact [of 40 ?gs 2] unfolding PORT_GROUPS_def by auto
  from gs' pins [rule_format, of 1 8] pins [rule_format, of 0 8] show ?thesis by auto
qed

text \<open>Numbers that name no pin: from 64 on there is no group, from 128 on no port.\<close>

lemma pinmux_no_such_pin:
  assumes "64 \<le> pin" "pin < 256" "length gs = PORT_GROUPS"
  shows "pinmux_set_mux (PINMUX pin m) gs = Inl (if pin < 128 then Out_Of_Bounds else Null_Deref)"
proof -
  have "drop_bit 16 (PINMUX pin m) = of_nat pin"
    using PINMUX_parts [of pin m] assms(2) by simp
  moreover have "unat (ucast (of_nat pin :: u32) :: u8) = pin"
    using assms(2) by (simp add: unsigned_ucast_eq unat_of_nat take_bit_nat_eq_self)
  ultimately show ?thesis
    using assms by (auto simp: pinmux_set_mux_def system_pinmux_get_group_from_gpio_pin_def
        system_pinmux_config_group_def PORT_GROUPS_def Let_def)
qed

end
