(* ===== verification/Lib_Log.thy ===== *)
theory Lib_Log
  imports Lib_Printf FW_Result
begin

text \<open>
  Files, the logger and failed assertions: \<^verbatim>\<open>src/core/file.c\<close>, \<open>fprintf\<close> of \<^verbatim>\<open>src/lib/printf/printf.c\<close>, \<^verbatim>\<open>src/lib/log/log.c\<close> and
  \<^verbatim>\<open>src/core/runtime.c\<close>.

  \<^item> The operations of a file are optional function pointers; \<open>'f\<close> is the state of the device behind the file.
  \<^item> Formats, names and the strings for the levels are read from memory. The literals of the logger are at
    addresses \<open>log_lits\<close>, and \<open>lits_at\<close> says what is there.
  \<^item> \<open>_log\<close> and \<open>_logv\<close> are \<open>log_msg\<close> and \<open>log_msgv\<close>. \<open>assert_handler\<close> returns the state in which the processor stops.
\<close>

section \<open>Files\<close>

record 'f file_operations =
  read_op :: "(nat \<Rightarrow> 'f \<Rightarrow> int \<times> u8 list \<times> 'f) option"
  write_op :: "(u8 list \<Rightarrow> 'f \<Rightarrow> int \<times> 'f) option"
  flush_op :: "('f \<Rightarrow> int \<times> 'f) option"

abbreviation ERR_NOT_SUPPORTED :: int where "ERR_NOT_SUPPORTED \<equiv> - 1"

definition read_file :: "'f file_operations \<Rightarrow> nat \<Rightarrow> 'f \<Rightarrow> int \<times> u8 list \<times> 'f" where
  "read_file ops nbytes f = (case read_op ops of Some r \<Rightarrow> r nbytes f | None \<Rightarrow> (ERR_NOT_SUPPORTED, [], f))"

definition write_file :: "'f file_operations \<Rightarrow> u8 list \<Rightarrow> 'f \<Rightarrow> int \<times> 'f" where
  "write_file ops buf f = (case write_op ops of Some w \<Rightarrow> w buf f | None \<Rightarrow> (ERR_NOT_SUPPORTED, f))"

definition flush_file :: "'f file_operations \<Rightarrow> 'f \<Rightarrow> int \<times> 'f" where
  "flush_file ops f = (case flush_op ops of Some g \<Rightarrow> g f | None \<Rightarrow> (0, f))"

definition fprintf :: "'f file_operations \<Rightarrow> cmem \<Rightarrow> 'f \<Rightarrow> u32 \<Rightarrow> u32 list \<Rightarrow> (u32 \<times> 'f) res" where
  "fprintf ops m f format args = vfprintf (write_file ops) m f format args"

text \<open>\<open>printk\<close> on the operations of \<open>debug_serial\<close>.\<close>

definition printk :: "'f file_operations \<Rightarrow> cmem \<Rightarrow> u32 \<Rightarrow> 'f \<Rightarrow> 'f option" where
  "printk debug_serial m str f =
     map_option (\<lambda>l. snd (write_file debug_serial (read_bytes m str (unat l)) f)) (strlen m str)"

section \<open>The logger\<close>

datatype log_level_t = LOG_LEVEL_DEBUG | LOG_LEVEL_VERBOSE | LOG_LEVEL_INFO | LOG_LEVEL_WARN | LOG_LEVEL_ERROR

fun level_number :: "log_level_t \<Rightarrow> nat" where
  "level_number LOG_LEVEL_DEBUG = 0"
| "level_number LOG_LEVEL_VERBOSE = 1"
| "level_number LOG_LEVEL_INFO = 2"
| "level_number LOG_LEVEL_WARN = 3"
| "level_number LOG_LEVEL_ERROR = 4"

instantiation log_level_t :: linorder
begin

definition less_eq_log_level_t :: "log_level_t \<Rightarrow> log_level_t \<Rightarrow> bool" where
  "less_eq_log_level_t a b \<longleftrightarrow> level_number a \<le> level_number b"

definition less_log_level_t :: "log_level_t \<Rightarrow> log_level_t \<Rightarrow> bool" where
  "less_log_level_t a b \<longleftrightarrow> level_number a < level_number b"

lemma level_number_inj: "level_number a = level_number b \<Longrightarrow> a = b"
  by (cases a; cases b) simp_all

instance
  by standard (auto simp: less_eq_log_level_t_def less_log_level_t_def dest: level_number_inj)

end

definition min_log_level :: log_level_t where
  "min_log_level = LOG_LEVEL_DEBUG"

record log_lits =
  lit_located :: u32
  lit_short :: u32
  lit_level :: "log_level_t \<Rightarrow> u32"
  lit_assertion :: u32

record 'f logger =
  log_file :: "'f file_operations option"
  log_dev :: 'f

definition log_set_file :: "'f file_operations option \<Rightarrow> 'f logger \<Rightarrow> 'f logger" where
  "log_set_file f x = x\<lparr>log_file := f\<rparr>"

definition log_msgv ::
    "log_lits \<Rightarrow> cmem \<Rightarrow> u32 \<Rightarrow> u32 \<Rightarrow> log_level_t \<Rightarrow> u32 \<Rightarrow> u32 list \<Rightarrow> 'f logger \<Rightarrow> 'f logger res" where
  "log_msgv L m source line log_level message args x =
     (case log_file x of
        None \<Rightarrow> ok x
      | Some ops \<Rightarrow>
          (let level_str = lit_level L log_level in
           rbind (if source \<noteq> 0 then fprintf ops m (log_dev x) (lit_located L) [source, line, level_str]
                  else fprintf ops m (log_dev x) (lit_short L) [level_str]) (\<lambda>(_, f).
           rbind (vfprintf (write_file ops) m f message args) (\<lambda>(_, f).
           let (_, f) = write_file ops [0x0D, 0x0A] f in ok (x\<lparr>log_dev := f\<rparr>)))))"

definition log_msg ::
    "log_lits \<Rightarrow> cmem \<Rightarrow> u32 \<Rightarrow> u32 \<Rightarrow> log_level_t \<Rightarrow> u32 \<Rightarrow> u32 list \<Rightarrow> 'f logger \<Rightarrow> 'f logger res" where
  "log_msg L m source line log_level message args x =
     (if min_log_level \<le> log_level then log_msgv L m source line log_level message args x else ok x)"

text \<open>\<open>function\<close> is not used. The processor stops at the breakpoint, or in the loop behind it.\<close>

definition assert_handler ::
    "log_lits \<Rightarrow> cmem \<Rightarrow> u32 \<Rightarrow> u32 \<Rightarrow> u32 \<Rightarrow> u32 \<Rightarrow> 'f logger \<Rightarrow> 'f logger res" where
  "assert_handler L m source line expr msg x =
     log_msg L m source line LOG_LEVEL_ERROR (lit_assertion L) [expr, msg] x"

section \<open>What is written\<close>

fun level_text :: "log_level_t \<Rightarrow> u8 list" where
  "level_text LOG_LEVEL_DEBUG = chars ''[D]''"
| "level_text LOG_LEVEL_VERBOSE = chars ''[V]''"
| "level_text LOG_LEVEL_INFO = chars ''[I]''"
| "level_text LOG_LEVEL_WARN = chars ''[W]''"
| "level_text LOG_LEVEL_ERROR = chars ''[E]''"

abbreviation located_pieces :: "piece list" where
  "located_pieces \<equiv> [pct Conv_s] @ lit '':'' @ [pct Conv_d] @ lit '' '' @ [pct Conv_s] @ lit '' ''"

abbreviation short_pieces :: "piece list" where
  "short_pieces \<equiv> [pct Conv_s] @ lit '' ''"

abbreviation assertion_pieces :: "piece list" where
  "assertion_pieces \<equiv> lit ''assertion '' @ [Plain 0x27, pct Conv_s, Plain 0x27] @ lit '' failed: '' @ [pct Conv_s]"

definition format_at :: "cmem \<Rightarrow> u32 \<Rightarrow> piece list \<Rightarrow> bool" where
  "format_at m p ps \<longleftrightarrow> cstr m p (concat (map piece_text ps)) \<and> p \<noteq> 0"

definition lits_at :: "log_lits \<Rightarrow> cmem \<Rightarrow> bool" where
  "lits_at L m \<longleftrightarrow> format_at m (lit_located L) located_pieces \<and> format_at m (lit_short L) short_pieces
     \<and> format_at m (lit_assertion L) assertion_pieces \<and> (\<forall>l. string_at m (lit_level L l) (level_text l))"

lemma fprintf_writes:
  assumes "accepts_all (write_file ops) contents" "list_all piece_ok ps" "format_at m p ps" "render m ps args = Some out"
  shows "\<exists>f'. fprintf ops m f p args = ok (of_nat (length out), f') \<and> contents f' = contents f @ out"
  using vfprintf_loop_renders [OF assms(1,2) _ assms(4), of p 0 f] assms(3) by (simp add: fprintf_def vfprintf_def format_at_def)

lemma printk_writes:
  assumes "accepts_all (write_file ops) contents" "string_at m str s"
  shows "\<exists>f'. printk ops m str f = Some f' \<and> contents f' = contents f @ s"
proof -
  have "unat (of_nat (length s) :: u32) = length s" using assms(2) by (simp add: string_at_def unat_of_nat)
  then have "printk ops m str f = Some (snd (write_file ops s f))"
    using assms(2) strlen_cstr [of m str s] read_bytes_cstr [of m str s] by (simp add: printk_def string_at_def)
  then show ?thesis using assms(1) by (simp add: accepts_all_def)
qed

definition decimal :: "u32 \<Rightarrow> u8 list" where
  "decimal v = (if sint v < 0 then 0x2D # number_text 10 0 True (- v) else number_text 10 0 True v)"

lemma render_d: "render m (pct Conv_d # ps) (v # args) = map_option ((@) (decimal v)) (render m ps args)"
  by (simp add: decimal_def width_def)

lemma pieces_ok: "list_all piece_ok located_pieces" "list_all piece_ok short_pieces" "list_all piece_ok assertion_pieces"
  by (simp_all add: lit_def width_def)

lemma log_msgv_line:
  assumes "accepts_all (write_file ops) contents" "log_file x = Some ops" "lits_at L m"
    and "source \<noteq> 0 \<Longrightarrow> string_at m source name" "list_all piece_ok ps" "format_at m message ps" "render m ps args = Some s"
  shows "\<exists>f'. log_msgv L m source line l message args x = ok (x\<lparr>log_dev := f'\<rparr>)
     \<and> contents f' = contents (log_dev x)
         @ (if source \<noteq> 0 then name @ chars '':'' @ decimal line @ chars '' '' else []) @ level_text l @ chars '' '' @ s @ [0x0D, 0x0A]"
proof -
  let ?loc = "if source \<noteq> 0 then name @ chars '':'' @ decimal line @ chars '' '' else []"
  have lvl: "string_at m (lit_level L l) (level_text l)" using assms(3) by (simp add: lits_at_def)
  have short: "render m short_pieces [lit_level L l] = Some (level_text l @ chars '' '')"
    using render_s [OF lvl, of "lit '' ''" "[]"] render_lit [of m "'' ''" "[]" "[]"] by simp
  have long: "render m located_pieces [source, line, lit_level L l] = Some (name @ chars '':'' @ decimal line @ chars '' '' @ level_text l @ chars '' '')"
    if "source \<noteq> 0"
    using render_s [OF assms(4) [OF that], of "lit '':'' @ [pct Conv_d] @ lit '' '' @ short_pieces" "[line, lit_level L l]"] short
    by (simp add: render_lit render_d del: render.simps(5))
  have "\<exists>f'. (if source \<noteq> 0 then fprintf ops m (log_dev x) (lit_located L) [source, line, lit_level L l]
        else fprintf ops m (log_dev x) (lit_short L) [lit_level L l]) = ok (of_nat (length (?loc @ level_text l @ chars '' '')), f')
      \<and> contents f' = contents (log_dev x) @ ?loc @ level_text l @ chars '' ''"
    using fprintf_writes [OF assms(1) pieces_ok(1) _ long, of "lit_located L" "log_dev x"]
      fprintf_writes [OF assms(1) pieces_ok(2) _ short, of "lit_short L" "log_dev x"] assms(3)
    by (auto simp: lits_at_def)
  then obtain f1 where f1: "(if source \<noteq> 0 then fprintf ops m (log_dev x) (lit_located L) [source, line, lit_level L l]
        else fprintf ops m (log_dev x) (lit_short L) [lit_level L l]) = ok (of_nat (length (?loc @ level_text l @ chars '' '')), f1)"
    "contents f1 = contents (log_dev x) @ ?loc @ level_text l @ chars '' ''" by blast
  obtain f2 where f2: "vfprintf (write_file ops) m f1 message args = ok (of_nat (length s), f2)" "contents f2 = contents f1 @ s"
    using fprintf_writes [OF assms(1,5,6,7), of f1] by (auto simp: fprintf_def)
  obtain f3 where "write_file ops [0x0D, 0x0A] f2 = (2, f3)" "contents f3 = contents f2 @ [0x0D, 0x0A]"
    using wr_accepts [OF assms(1), of "[0x0D, 0x0A]" f2] by auto
  then show ?thesis using f1(2) f2 by (intro exI [of _ f3]) (simp add: log_msgv_def assms(2) f1(1))
qed

lemma level_min: "min_log_level \<le> l"
  by (simp add: min_log_level_def less_eq_log_level_t_def)

text \<open>A string argument of \<open>%s\<close>: \<open>NULL\<close> is shown as \<open>(null)\<close>.\<close>

definition shown_at :: "cmem \<Rightarrow> u32 \<Rightarrow> u8 list \<Rightarrow> bool" where
  "shown_at m p s \<longleftrightarrow> (if p = 0 then s = nullString else string_at m p s)"

lemma render_shown:
  "shown_at m p s \<Longrightarrow> render m (pct Conv_s # ps) (p # args) = map_option ((@) s) (render m ps args)"
  using render_s [of m p s ps args] by (simp add: shown_at_def split: if_splits)

section \<open>Properties\<close>

text \<open>
  A message is one line: without a log file \<open>_log\<close> writes nothing; with a file that takes everything, it writes the source location if one is
  given, the level, the rendered message and the end of the line, and nothing else, for every level and every format of
  supported conversions.
\<close>

theorem log_line:
  assumes "lits_at L m" "source \<noteq> 0 \<longrightarrow> string_at m source name" "list_all piece_ok ps" "format_at m message ps" "render m ps args = Some s"
  shows "case log_file x of
      None \<Rightarrow> log_msg L m source line l message args x = ok x
    | Some ops \<Rightarrow> accepts_all (write_file ops) contents \<longrightarrow>
        (\<exists>f'. log_msg L m source line l message args x = ok (x\<lparr>log_dev := f'\<rparr>)
          \<and> contents f' = contents (log_dev x) @ (if source \<noteq> 0 then name @ chars '':'' @ decimal line @ chars '' '' else [])
              @ level_text l @ chars '' '' @ s @ [0x0D, 0x0A])"
proof (cases "log_file x")
  case None
  then show ?thesis by (simp add: log_msg_def log_msgv_def)
next
  case (Some ops)
  then show ?thesis using log_msgv_line [OF _ Some assms(1) _ assms(3-5), of contents source name line l] assms(2)
    by (simp add: log_msg_def level_min)
qed

definition demo_log_mem :: cmem where
  "demo_log_mem =
     store_bytes (store_bytes (store_bytes (store_bytes (store_bytes (store_bytes (store_bytes (store_bytes (store_bytes (\<lambda>_. 0)
       0x100 (concat (map piece_text located_pieces))) 0x120 (concat (map piece_text short_pieces)))
       0x140 (concat (map piece_text assertion_pieces))) 0x180 (level_text LOG_LEVEL_DEBUG)) 0x190 (level_text LOG_LEVEL_VERBOSE))
       0x1A0 (level_text LOG_LEVEL_INFO)) 0x1B0 (level_text LOG_LEVEL_WARN)) 0x1C0 (level_text LOG_LEVEL_ERROR)) 0x1D0 (chars ''up'')"

definition demo_lits :: log_lits where
  "demo_lits = \<lparr>lit_located = 0x100, lit_short = 0x120,
     lit_level = (\<lambda>l. 0x180 + 0x10 * of_nat (level_number l)), lit_assertion = 0x140\<rparr>"

definition demo_logger :: "u8 list logger" where
  "demo_logger = \<lparr>log_file = Some \<lparr>read_op = None, write_op = Some sink, flush_op = None\<rparr>, log_dev = []\<rparr>"

lemma demo_lits_at: "lits_at demo_lits demo_log_mem"
proof -
  have "string_at demo_log_mem (lit_level demo_lits l) (level_text l)" for l
    by (cases l) (simp_all add: demo_lits_def demo_log_mem_def string_at_def chars_def option_text_def digit_chars_def lit_def)
  then show ?thesis
    by (simp add: lits_at_def) (simp add: demo_lits_def demo_log_mem_def format_at_def chars_def option_text_def digit_chars_def lit_def)
qed

theorem log_line_witness:
  "\<exists>f'. log_msg demo_lits demo_log_mem 0 0 LOG_LEVEL_INFO 0x1D0 [] demo_logger = ok (demo_logger\<lparr>log_dev := f'\<rparr>)
     \<and> f' = chars ''[I] up'' @ [0x0D, 0x0A]"
proof -
  have "format_at demo_log_mem 0x1D0 (lit ''up'')" "list_all piece_ok (lit ''up'')"
    by (simp_all add: format_at_def demo_log_mem_def chars_def option_text_def digit_chars_def lit_def)
  moreover have "render demo_log_mem (lit ''up'') [] = Some (chars ''up'')" by (simp add: lit_def chars_def)
  moreover have "accepts_all (write_file \<lparr>read_op = None, write_op = Some sink, flush_op = None\<rparr>) id"
    by (simp add: accepts_all_def write_file_def sink_def)
  ultimately show ?thesis
    using log_line [OF demo_lits_at, where source = 0 and ps = "lit ''up''" and message = "0x1D0" and args = "[]" and s = "chars ''up''"
      and x = demo_logger and line = 0 and l = LOG_LEVEL_INFO and contents = id]
    by (simp add: demo_logger_def chars_def)
qed

text \<open>
  A failed assertion is reported before the processor stops: the line has the place, the expression and the message, also when the
  message or the expression is \<open>NULL\<close>.
\<close>

theorem assertion_reported:
  assumes "log_file x = Some ops" "accepts_all (write_file ops) contents" "lits_at L m"
    and "source \<noteq> 0 \<longrightarrow> string_at m source name" "shown_at m expr es" "shown_at m msg ms"
  shows "\<exists>f'. assert_handler L m source line expr msg x = ok (x\<lparr>log_dev := f'\<rparr>)
     \<and> contents f' = contents (log_dev x) @ (if source \<noteq> 0 then name @ chars '':'' @ decimal line @ chars '' '' else [])
         @ chars ''[E] assertion '' @ [0x27] @ es @ [0x27] @ chars '' failed: '' @ ms @ [0x0D, 0x0A]"
proof -
  have "render m assertion_pieces [expr, msg] = Some (chars ''assertion '' @ [0x27] @ es @ [0x27] @ chars '' failed: '' @ ms)"
    using render_shown [OF assms(6), of "[]" "[]"]
    by (simp add: render_lit render_shown [OF assms(5)] del: render.simps(5))
  then show ?thesis
    using log_msgv_line [OF assms(2,1,3) _ pieces_ok(3), of source name "lit_assertion L" "[expr, msg]" _ line LOG_LEVEL_ERROR] assms(3,4)
    by (simp add: assert_handler_def log_msg_def level_min lits_at_def chars_def)
qed

end
