(* ===== verification/Samd_Serial.thy ===== *)
theory Samd_Serial
  imports Samd_Port Lib_Log
begin

text \<open>
  Clocks and the serial line of the SAMD20: \<^verbatim>\<open>src/platform/samd20/clock.c\<close> and
  \<^verbatim>\<open>src/platform/samd20/printk.c\<close>.

  \<^item> \<open>GENCTRL\<close>, \<open>GENDIV\<close> and \<open>CLKCTRL\<close> of the clock controller are windows: an 8 bit write selects a
    generator or a channel, and the register then reads and writes the settings of that one. Each
    window has its own selection. A channel whose \<open>WRTLOCK\<close> bit is set ignores writes.
  \<^item> The busy bits that loops wait for are the sequence of values their next reads return; a wait
    for a value that is not in the sequence does not return (\<open>None\<close>).
  \<^item> Received characters wait as pairs of their error flags and their data. Reading \<open>DATA\<close> takes the
    first one, writing ones to \<open>STATUS\<close> clears its flags. Sent characters are collected in order.

  Shown: the baud rate register is within one step of the exact value, a write sends the bytes it
  is given and returns, a read stores the characters up to the first damaged one, and
  \<open>printk_init\<close> leaves the line configured.
\<close>

section \<open>Registers\<close>

record samd =
  gclk_busy :: "bool list"
  genctrl_id :: u8
  genctrl :: "u8 \<Rightarrow> u32"
  gendiv_id :: u8
  gendiv :: "u8 \<Rightarrow> u32"
  clkctrl_id :: u8
  clkctrl :: "u8 \<Rightarrow> u16"
  OSC8M :: u32
  CPUSEL :: u8
  APBCMASK :: u32
  pgroups :: "pgroup list"
  CTRLA :: u32
  CTRLB :: u32
  BAUD :: u16
  usart_busy :: "bool list"
  usart_txc :: "bool list"
  usart_rx :: "(u16 \<times> u8) list"
  usart_tx :: "u8 list"
  generator_is_set :: bool
  generator_source :: u8

fun wait_for :: "bool \<Rightarrow> bool list \<Rightarrow> bool list option" where
  "wait_for b [] = None"
| "wait_for b (x # xs) = (if x = b then Some xs else wait_for b xs)"

text \<open>Bit fields of a register: the field of a width at a position, and the register with it set.\<close>

definition get_field :: "nat \<Rightarrow> nat \<Rightarrow> 'a::len word \<Rightarrow> 'a word" where
  "get_field pos w r = take_bit w (drop_bit pos r)"

definition set_field :: "nat \<Rightarrow> nat \<Rightarrow> 'a::len word \<Rightarrow> 'a word \<Rightarrow> 'a word" where
  "set_field pos w v r = (r AND NOT (push_bit pos (mask w))) OR push_bit pos (take_bit w v)"

section \<open>clock.c\<close>

text \<open>The sources by their number in \<open>GENCTRL\<close>.\<close>

definition clock_get_source :: "u32 \<Rightarrow> samd \<Rightarrow> fault + u32" where
  "clock_get_source source s =
     (if source = 0 then Inl Assert_Failed
      else if source = 6 then Inr (drop_bit (unat (get_field 8 2 (OSC8M s))) 8000000)
      else if source = 4 then Inr 32768
      else if source = 3 then Inr 32768
      else if source = 5 then Inl Assert_Failed
      else if source = 7 then Inl Assert_Failed
      else Inl Assert_Failed)"

definition gclock_sync :: "samd \<Rightarrow> samd res" where
  "gclock_sync s = map_option (\<lambda>xs. Inr (s\<lparr>gclk_busy := xs\<rparr>)) (wait_for False (gclk_busy s))"

definition genctrl_select :: "u8 \<Rightarrow> samd \<Rightarrow> samd" where
  "genctrl_select gen s = s\<lparr>genctrl_id := gen AND 0xF\<rparr>"

definition gclock_get_generator :: "u8 \<Rightarrow> samd \<Rightarrow> (u32 \<times> samd) res" where
  "gclock_get_generator gen s =
     rbind (gclock_sync s) (\<lambda>s.
     rbind (gclock_sync (genctrl_select gen s)) (\<lambda>s.
     case clock_get_source (get_field 8 5 (genctrl s (genctrl_id s))) s of
       Inl e \<Rightarrow> Some (Inl e)
     | Inr input \<Rightarrow>
         rbind (gclock_sync (genctrl_select gen s)) (\<lambda>s.
         let divsel = get_field 20 1 (genctrl s (genctrl_id s))
         in rbind (gclock_sync (genctrl_select gen s)) (\<lambda>s.
         let divider = get_field 8 16 (gendiv s (gendiv_id s))
         in if divsel = 0 \<and> divider > 1 then ok (input div divider, s)
            else if divsel \<noteq> 0 then
              if unat divider + 1 \<ge> 32 then Some (Inl Undefined_Shift)
              else ok (drop_bit (unat divider + 1) input, s)
            else ok (input, s)))))"

definition samd_clock_get_main :: "samd \<Rightarrow> (u32 \<times> samd) res" where
  "samd_clock_get_main s =
     rbind (gclock_get_generator 0 s) (\<lambda>(hz, s).
       if unat (CPUSEL s) \<ge> 32 then Some (Inl Undefined_Shift) else ok (drop_bit (unat (CPUSEL s)) hz, s))"

definition samd_clock_systick_reference :: "samd \<Rightarrow> (u32 \<times> samd) res" where
  "samd_clock_systick_reference s = samd_clock_get_main s"

section \<open>Clock channels (printk.c)\<close>

record system_gclk_chan_config =
  source_generator :: u8
  write_lock :: bool

definition system_gclk_chan_get_config_defaults :: system_gclk_chan_config where
  "system_gclk_chan_get_config_defaults = \<lparr>source_generator = 0, write_lock = False\<rparr>"

definition clkctrl_select :: "u8 \<Rightarrow> samd \<Rightarrow> samd" where
  "clkctrl_select channel s = s\<lparr>clkctrl_id := channel AND 0x3F\<rparr>"

definition clkctrl_read :: "samd \<Rightarrow> u16" where
  "clkctrl_read s = ucast (clkctrl_id s) OR (clkctrl s (clkctrl_id s) AND 0xCF00)"

definition clkctrl_write :: "u16 \<Rightarrow> samd \<Rightarrow> samd" where
  "clkctrl_write v s =
     (let i = ucast v AND 0x3F; s = s\<lparr>clkctrl_id := i\<rparr>
      in if bit (clkctrl s i) 15 then s else s\<lparr>clkctrl := (clkctrl s)(i := v AND 0xCF00)\<rparr>)"

definition GCLK_CLKCTRL_CLKEN :: u16 where "GCLK_CLKCTRL_CLKEN = push_bit 14 1"
definition GCLK_CLKCTRL_WRTLOCK :: u16 where "GCLK_CLKCTRL_WRTLOCK = push_bit 15 1"

text \<open>The wait for the clock to stop ends only when the register reads as disabled.\<close>

definition system_gclk_chan_disable :: "u8 \<Rightarrow> samd \<Rightarrow> samd res" where
  "system_gclk_chan_disable channel s =
     (let s = clkctrl_select channel s;
          prev_gen_id = get_field 8 4 (clkctrl_read s);
          s = clkctrl_write (set_field 8 4 0 (clkctrl_read s)) s;
          s = clkctrl_write (clkctrl_read s AND NOT GCLK_CLKCTRL_CLKEN) s
      in if clkctrl_read s AND GCLK_CLKCTRL_CLKEN \<noteq> 0 then None
         else ok (clkctrl_write (set_field 8 4 prev_gen_id (clkctrl_read s)) s))"

definition system_gclk_chan_enable :: "u8 \<Rightarrow> samd \<Rightarrow> samd" where
  "system_gclk_chan_enable channel s =
     (let s = clkctrl_select channel s in clkctrl_write (clkctrl_read s OR GCLK_CLKCTRL_CLKEN) s)"

definition system_gclk_chan_set_config :: "u8 \<Rightarrow> system_gclk_chan_config \<Rightarrow> samd \<Rightarrow> samd res" where
  "system_gclk_chan_set_config channel config s =
     (let new_clkctrl_config = ucast channel :: u32;
          new_clkctrl_config = new_clkctrl_config OR push_bit 8 (ucast (source_generator config));
          new_clkctrl_config = (if write_lock config then new_clkctrl_config OR ucast GCLK_CLKCTRL_WRTLOCK
                                else new_clkctrl_config)
      in rbind (system_gclk_chan_disable channel s) (\<lambda>s. ok (clkctrl_write (ucast new_clkctrl_config) s)))"

definition system_gclk_chan_get_hz :: "u8 \<Rightarrow> samd \<Rightarrow> (u32 \<times> samd) res" where
  "system_gclk_chan_get_hz channel s =
     (let s = clkctrl_select channel s; gen_id = ucast (get_field 8 4 (clkctrl_read s))
      in gclock_get_generator gen_id s)"

definition SERCOM_GCLK_ID :: u8 where "SERCOM_GCLK_ID = 12"

definition sercom_set_gclk_generator :: "u8 \<Rightarrow> bool \<Rightarrow> samd \<Rightarrow> (int \<times> samd) res" where
  "sercom_set_gclk_generator gen force_change s =
     (if \<not> generator_is_set s \<or> force_change then
        let gclk_chan_conf = system_gclk_chan_get_config_defaults\<lparr>source_generator := gen\<rparr>
        in rbind (system_gclk_chan_set_config SERCOM_GCLK_ID gclk_chan_conf s) (\<lambda>s.
           let s = system_gclk_chan_enable SERCOM_GCLK_ID s
           in ok (0, s\<lparr>generator_source := gen, generator_is_set := True\<rparr>))
      else if gen = generator_source s then ok (0, s)
      else ok (1, s))"

section \<open>Baud rate\<close>

definition sercom_get_async_baud_val :: "u32 \<Rightarrow> u32 \<Rightarrow> int \<times> u16 option" where
  "sercom_get_async_baud_val baudrate peripheral_clock =
     (if baudrate * 16 \<ge> peripheral_clock then (1, None)
      else
        let ratio = push_bit 32 (16 * ucast baudrate) div ucast peripheral_clock :: 64 word;
            scale = push_bit 32 1 - ratio;
            baud_calculated = drop_bit 32 (65536 * scale)
        in (0, Some (ucast baud_calculated)))"

section \<open>The line\<close>

definition PINMUX_PA24C_SERCOM3_PAD2 :: u32 where "PINMUX_PA24C_SERCOM3_PAD2 = push_bit 16 24 OR 2"
definition PINMUX_PA25C_SERCOM3_PAD3 :: u32 where "PINMUX_PA25C_SERCOM3_PAD3 = push_bit 16 25 OR 2"

definition samd_pinmux :: "u32 \<Rightarrow> samd \<Rightarrow> samd res" where
  "samd_pinmux mux s = Some (map_sum id (\<lambda>gs. s\<lparr>pgroups := gs\<rparr>) (pinmux_set_mux mux (pgroups s)))"

definition samd_printk_init :: "u32 \<Rightarrow> samd \<Rightarrow> samd res" where
  "samd_printk_init baud s =
     (let pm_index = 3 + 2; gclk_index = 3 + 13;
          s = s\<lparr>APBCMASK := APBCMASK s OR push_bit pm_index 1\<rparr>
      in rbind (samd_pinmux PINMUX_PA24C_SERCOM3_PAD2 s) (\<lambda>s.
         rbind (samd_pinmux PINMUX_PA25C_SERCOM3_PAD3 s) (\<lambda>s.
         let gclk_chan_conf = system_gclk_chan_get_config_defaults\<lparr>source_generator := 0\<rparr>
         in rbind (system_gclk_chan_set_config gclk_index gclk_chan_conf s) (\<lambda>s.
         let s = system_gclk_chan_enable gclk_index s
         in rbind (sercom_set_gclk_generator 0 False s) (\<lambda>(_, s).
         let s = s\<lparr>CTRLA := set_field 2 3 1 (CTRLA s)\<rparr>;
             s = s\<lparr>CTRLA := set_field 20 2 3 (CTRLA s)\<rparr>;
             s = s\<lparr>CTRLA := set_field 16 1 1 (CTRLA s)\<rparr>;
             s = s\<lparr>CTRLB := CTRLB s OR 0\<rparr>;
             s = s\<lparr>CTRLA := CTRLA s OR push_bit 30 1\<rparr>;
             s = s\<lparr>CTRLA := CTRLA s OR 0\<rparr>
         in rbind (system_gclk_chan_get_hz gclk_index s) (\<lambda>(hz, s).
         let bval = (case snd (sercom_get_async_baud_val baud hz) of None \<Rightarrow> 0 | Some b \<Rightarrow> b);
             s = s\<lparr>BAUD := bval\<rparr>;
             s = s\<lparr>CTRLB := set_field 17 1 1 (CTRLB s)\<rparr>;
             s = s\<lparr>CTRLB := set_field 16 1 1 (CTRLB s)\<rparr>
         in ok (s\<lparr>CTRLA := set_field 1 1 1 (CTRLA s)\<rparr>)))))))"

definition usart_sync :: "samd \<Rightarrow> samd option" where
  "usart_sync s = map_option (\<lambda>xs. s\<lparr>usart_busy := xs\<rparr>) (wait_for False (usart_busy s))"

definition SERCOM_USART_STATUS_PERR :: u16 where "SERCOM_USART_STATUS_PERR = push_bit 0 1"
definition SERCOM_USART_STATUS_FERR :: u16 where "SERCOM_USART_STATUS_FERR = push_bit 1 1"
definition SERCOM_USART_STATUS_BUFOVF :: u16 where "SERCOM_USART_STATUS_BUFOVF = push_bit 2 1"

text \<open>Writing ones to \<open>STATUS\<close> clears the flags.\<close>

definition status_clear :: "u16 \<Rightarrow> samd \<Rightarrow> samd" where
  "status_clear v s =
     (case usart_rx s of [] \<Rightarrow> s | (st, d) # rx \<Rightarrow> s\<lparr>usart_rx := (st AND NOT v, d) # rx\<rparr>)"

text \<open>\<open>getchar\<close> returns the character it stores, or no character for the result -1.\<close>

definition samd_getchar :: "samd \<Rightarrow> (u8 option \<times> samd) option" where
  "samd_getchar s =
     (if usart_rx s = [] then None
      else case usart_sync s of
        None \<Rightarrow> None
      | Some s \<Rightarrow>
          let error_code = fst (hd (usart_rx s)) AND 0x7
          in if error_code \<noteq> 0 \<and> error_code AND SERCOM_USART_STATUS_FERR \<noteq> 0
             then Some (None, status_clear SERCOM_USART_STATUS_FERR s)
             else if error_code \<noteq> 0 \<and> error_code AND SERCOM_USART_STATUS_BUFOVF \<noteq> 0
             then Some (None, status_clear SERCOM_USART_STATUS_BUFOVF s)
             else if error_code \<noteq> 0 \<and> error_code AND SERCOM_USART_STATUS_PERR \<noteq> 0
             then Some (None, status_clear SERCOM_USART_STATUS_PERR s)
             else Some (Some (snd (hd (usart_rx s))), s\<lparr>usart_rx := tl (usart_rx s)\<rparr>))"

definition samd_putchar :: "u8 \<Rightarrow> samd \<Rightarrow> samd option" where
  "samd_putchar c s =
     (case usart_sync s of
        None \<Rightarrow> None
      | Some s \<Rightarrow>
          map_option (\<lambda>xs. s\<lparr>usart_tx := usart_tx s @ [c], usart_txc := xs\<rparr>) (wait_for True (usart_txc s)))"

text \<open>The characters stored; their number is the result.\<close>

fun samd_read_op :: "nat \<Rightarrow> samd \<Rightarrow> (u8 list \<times> samd) option" where
  "samd_read_op 0 s = Some ([], s)"
| "samd_read_op (Suc n) s =
     (case samd_getchar s of
        None \<Rightarrow> None
      | Some (None, s) \<Rightarrow> Some ([], s)
      | Some (Some c, s) \<Rightarrow> map_option (\<lambda>(cs, s). (c # cs, s)) (samd_read_op n s))"

fun samd_write_loop :: "u8 list \<Rightarrow> samd \<Rightarrow> samd option" where
  "samd_write_loop [] s = Some s"
| "samd_write_loop (c # buf) s = Option.bind (samd_putchar c s) (samd_write_loop buf)"

definition samd_write_op :: "u8 list \<Rightarrow> samd \<Rightarrow> (nat \<times> samd) option" where
  "samd_write_op buf s = map_option (Pair (length buf)) (samd_write_loop buf s)"

definition samd_printk :: "cmem \<Rightarrow> u32 \<Rightarrow> samd \<Rightarrow> samd option" where
  "samd_printk m str s =
     Option.bind (strlen m str) (\<lambda>l. map_option snd (samd_write_op (read_bytes m str (unat l)) s))"

text \<open>\<open>platform_early_init\<close>; that the log then writes to this line is \<open>log_set_file\<close> of the logger.\<close>

definition samd_platform_early_init :: "samd \<Rightarrow> samd res" where
  "samd_platform_early_init s = samd_printk_init 57600 s"

text \<open>
  The registers after a reset, by the values of the headers and the data sheet: generator 0 runs from
  the 8 MHz oscillator, whose prescaler divides by 8. The arguments are the reads of the busy and
  completion bits and the characters that will be received.
\<close>

definition samd_reset :: "bool list \<Rightarrow> bool list \<Rightarrow> bool list \<Rightarrow> (u16 \<times> u8) list \<Rightarrow> samd" where
  "samd_reset gbusy ubusy txc rx = \<lparr>gclk_busy = gbusy, genctrl_id = 0, genctrl = (\<lambda>_. 0)(0 := 0x00010600),
     gendiv_id = 0, gendiv = \<lambda>_. 0, clkctrl_id = 0, clkctrl = \<lambda>_. 0, OSC8M = 0x382, CPUSEL = 0,
     APBCMASK = 0x10000,
     pgroups = replicate PORT_GROUPS \<lparr>PDIR = 0, POUT = 0, PINCFG = \<lambda>_. 0, PMUX = \<lambda>_. 0\<rparr>,
     CTRLA = 0, CTRLB = 0, BAUD = 0, usart_busy = ubusy, usart_txc = txc, usart_rx = rx, usart_tx = [],
     generator_is_set = False, generator_source = 0\<rparr>"

section \<open>The baud rate value\<close>

text \<open>The computation on natural numbers, for a fixed point of \<open>A * A\<close> and a register of \<open>A\<close> values.\<close>

lemma baud_nat_bounds:
  fixes b c A r v :: nat
  assumes "0 < b" "16 * b < c" "c < A * A"
    and r: "r = (A * A * (16 * b)) div c" and v: "v = (A * (A * A - r)) div (A * A)"
  shows "r < A * A" "v < A" "c * (A - v - 1) < 16 * A * b" "16 * A * b < c * (A - v + 1)"
proof -
  have A: "0 < A" "0 < A * A" using assms(3) by (cases A; simp)+
  have c: "0 < c" using assms(2) by simp
  have r1: "r * c \<le> A * A * (16 * b)" unfolding r by (rule div_times_less_eq_dividend)
  have r2: "A * A * (16 * b) < c + r * c" unfolding r by (rule dividend_less_div_times [OF c])
  have v1: "v * (A * A) \<le> A * (A * A - r)" unfolding v by (rule div_times_less_eq_dividend)
  have v2: "A * (A * A - r) < A * A + v * (A * A)" unfolding v by (rule dividend_less_div_times [OF A(2)])
  have "r * c < A * A * c" using r1 mult_strict_left_mono [OF assms(2) A(2)] by (rule le_less_trans)
  then show rA: "r < A * A" by simp
  have r0: "0 < r"
  proof (rule ccontr)
    assume "\<not> 0 < r"
    with r2 have "A * A * (16 * b) < c" by simp
    moreover have "A * A \<le> A * A * (16 * b)" using assms(1) by simp
    ultimately show False using assms(3) by simp
  qed
  have "A * (v * A) \<le> A * (A * A - r)" using v1 by (simp add: ac_simps)
  then have v1': "v * A \<le> A * A - r" using A(1) by simp
  have "A * (A * A - r) < A * (A + v * A)" using v2 by (simp add: algebra_simps)
  then have v2': "A * A - r < A + v * A" by simp
  have "v * A < A * A" by (rule le_less_trans [OF v1' diff_less [OF r0 A(2)]])
  then show vA: "v < A" by simp
  then obtain k where k: "A = v + k" "0 < k" using less_imp_add_positive by blast
  have kA: "A * A = v * A + k * A" using k(1) by (simp flip: add_mult_distrib)
  have gap: "p \<le> s - r \<Longrightarrow> s - r < q + p \<Longrightarrow> s = p + t \<Longrightarrow> r < s \<Longrightarrow> r \<le> t \<and> t < q + r" for p q s t :: nat
    by linarith
  have k1: "r \<le> k * A" and k2: "k * A < A + r"
    using gap [OF v1' v2' kA rA] by blast+
  obtain j where j: "k = Suc j" using k(2) by (cases k) auto
  have "j * A < r" using k2 by (simp add: j)
  from mult_strict_right_mono [OF this c] have "A * (c * j) < r * c" by (simp only: ac_simps)
  from less_le_trans [OF this r1] have "A * (c * j) < A * (16 * A * b)" by (simp only: ac_simps)
  then have j1: "c * j < 16 * A * b" by simp
  have "A * (16 * A * b) < c + r * c" using r2 by (simp only: ac_simps)
  also have "\<dots> \<le> c + k * A * c" using k1 by simp
  also have "\<dots> \<le> A * c + k * A * c" using A(1) by simp
  also have "\<dots> = A * (c * (k + 1))" by (simp add: algebra_simps)
  finally have j2: "16 * A * b < c * (k + 1)" by simp
  have "A - v = k" using k(1) by simp
  with j1 j2 j show "c * (A - v - 1) < 16 * A * b" "16 * A * b < c * (A - v + 1)" by simp_all
qed

lemma baud_check_nat:
  "unat baud < 2 ^ 28 \<Longrightarrow> (baud * 16 \<ge> clk) = (unat clk \<le> 16 * unat baud)" for baud clk :: u32
  by (simp add: word_le_nat_alt unat_word_ariths mult.commute)

lemma baud_word_nat:
  assumes b: "0 < unat baud" "unat baud < 2 ^ 28" and c: "16 * unat baud < unat clk"
  defines "r \<equiv> (65536 * 65536 * (16 * unat baud)) div unat clk"
  defines "v \<equiv> (65536 * (65536 * 65536 - r)) div (65536 * 65536)"
  shows "sercom_get_async_baud_val baud clk = (0, Some (of_nat v))"
proof -
  have clk: "unat clk < 65536 * 65536" using unsigned_less [of clk, where 'a = nat] by simp
  note bounds = baud_nat_bounds [OF b(1) c this r_def [THEN meta_eq_to_obj_eq] v_def [THEN meta_eq_to_obj_eq]]
  let ?ratio = "push_bit 32 (16 * ucast baud) div ucast clk :: 64 word"
  have num: "unat (push_bit 32 (16 * ucast baud) :: 64 word) = 65536 * 65536 * (16 * unat baud)"
    using b(2) by (simp add: push_bit_eq_mult unat_word_ariths unsigned_ucast_eq take_bit_nat_eq_self)
  have ratio: "unat ?ratio = r"
    by (simp only: unat_div num r_def) (use clk in \<open>simp add: unsigned_ucast_eq take_bit_nat_eq_self\<close>)
  have scale: "unat (push_bit 32 1 - ?ratio) = 65536 * 65536 - r"
    using bounds(1) by (simp add: unat_sub word_le_nat_alt ratio)
  have prod: "unat (65536 * (push_bit 32 1 - ?ratio)) = 65536 * (65536 * 65536 - r)"
    by (simp only: unat_word_ariths scale) simp
  have calc: "unat (drop_bit 32 (65536 * (push_bit 32 1 - ?ratio))) = v"
    by (simp only: unsigned_drop_bit_eq prod v_def) (simp add: drop_bit_eq_div take_bit_nat_eq_self)
  have "(ucast (drop_bit 32 (65536 * (push_bit 32 1 - ?ratio))) :: u16) = of_nat v"
    by (simp only: calc [symmetric] of_nat_unat)
  then show ?thesis
    using baud_check_nat [OF b(2), of clk] c by (simp add: sercom_get_async_baud_val_def Let_def)
qed

text \<open>
  C34. The value of the baud register: for a rate that the check accepts, and that does not overflow it,
  the rate \<open>clock / 16 * (1 - v / 65536)\<close> of the value \<open>v\<close> is less than one step of the register from
  the requested rate.
\<close>

theorem baud_value_close:
  assumes "0 < unat baud" "unat baud < 2 ^ 28" "16 * unat baud < unat clk"
  shows "\<exists>v. sercom_get_async_baud_val baud clk = (0, Some v) \<and>
    unat clk * (65536 - unat v - 1) < 2 ^ 20 * unat baud \<and> 2 ^ 20 * unat baud < unat clk * (65536 - unat v + 1)"
proof -
  define r where "r = (65536 * 65536 * (16 * unat baud)) div unat clk"
  define v where "v = (65536 * (65536 * 65536 - r)) div (65536 * 65536)"
  have "unat clk < 65536 * 65536" using unsigned_less [of clk, where 'a = nat] by simp
  note bounds = baud_nat_bounds [OF assms(1,3) this r_def v_def]
  have "unat (of_nat v :: u16) = v" using bounds(2) by (simp add: unat_of_nat)
  with baud_word_nat [OF assms] bounds(3,4) show ?thesis
    unfolding r_def [symmetric] v_def [symmetric] by (intro exI [of _ "of_nat v"]) simp
qed

theorem baud_value_close_witness:
  "\<exists>v. sercom_get_async_baud_val 57600 1000000 = (0, Some v) \<and>
    1000000 * (65536 - unat v - 1) < (2 :: nat) ^ 20 * 57600 \<and> (2 :: nat) ^ 20 * 57600 < 1000000 * (65536 - unat v + 1)"
  using baud_value_close [of 57600 1000000] by simp

text \<open>A rate that the clock cannot give is refused, and no division by zero occurs.\<close>

lemma baud_value_refused:
  assumes "unat baud < 2 ^ 28" "unat clk \<le> 16 * unat baud"
  shows "sercom_get_async_baud_val baud clk = (1, None)"
  using assms baud_check_nat [of baud clk] by (simp add: sercom_get_async_baud_val_def)

lemma baud_clock_zero: "sercom_get_async_baud_val baud 0 = (1, None)"
  by (simp add: sercom_get_async_baud_val_def)

text \<open>The product of the check wraps: a rate of \<open>2 ^ 28\<close> is accepted for any clock.\<close>

lemma baud_check_wraps: "sercom_get_async_baud_val (2 ^ 28) 8000000 = (0, Some 0)"
  by (simp add: sercom_get_async_baud_val_def)

section \<open>Sending and receiving\<close>

lemma wait_for_count:
  "wait_for b xs = Some ys \<Longrightarrow> count_list xs b = Suc (count_list ys b)"
  by (induction xs) (auto split: if_splits)

lemma wait_for_returns: "0 < count_list xs b \<Longrightarrow> \<exists>ys. wait_for b xs = Some ys \<and> Suc (count_list ys b) = count_list xs b"
  by (induction xs) auto

lemma samd_putchar_sends:
  assumes "0 < count_list (usart_busy s) False" "0 < count_list (usart_txc s) True"
  shows "\<exists>s'. samd_putchar c s = Some s' \<and> usart_tx s' = usart_tx s @ [c] \<and> usart_rx s' = usart_rx s \<and>
    Suc (count_list (usart_busy s') False) = count_list (usart_busy s) False \<and>
    Suc (count_list (usart_txc s') True) = count_list (usart_txc s) True"
  using wait_for_returns [OF assms(1)] wait_for_returns [OF assms(2)]
  by (auto simp: samd_putchar_def usart_sync_def)

lemma samd_write_loop_sends:
  assumes "length buf \<le> count_list (usart_busy s) False" "length buf \<le> count_list (usart_txc s) True"
  shows "\<exists>s'. samd_write_loop buf s = Some s' \<and> usart_tx s' = usart_tx s @ buf \<and> usart_rx s' = usart_rx s"
  using assms
proof (induction buf arbitrary: s)
  case (Cons c buf)
  then obtain s1 where 1: "samd_putchar c s = Some s1" "usart_tx s1 = usart_tx s @ [c]" "usart_rx s1 = usart_rx s"
    "Suc (count_list (usart_busy s1) False) = count_list (usart_busy s) False"
    "Suc (count_list (usart_txc s1) True) = count_list (usart_txc s) True"
    using samd_putchar_sends [of s c] by auto
  with Cons.IH [of s1] Cons.prems show ?case by auto
qed auto

text \<open>
  When the hardware becomes ready and reports completion once per character, \<open>write_op\<close> returns the
  number of bytes and has sent exactly these bytes, in order, after what was sent before.
\<close>

theorem samd_write_sends:
  assumes "length buf \<le> count_list (usart_busy s) False" "length buf \<le> count_list (usart_txc s) True"
  shows "\<exists>s'. samd_write_op buf s = Some (length buf, s') \<and> usart_tx s' = usart_tx s @ buf \<and> usart_rx s' = usart_rx s"
  using samd_write_loop_sends [OF assms] by (auto simp: samd_write_op_def)

theorem samd_write_sends_witness:
  "\<exists>s'. samd_write_op [104, 105] (samd_reset [] [True, False, False] [False, True, True] [(0, 33)]) = Some (2, s') \<and>
     usart_tx s' = [104, 105] \<and> usart_rx s' = [(0, 33)]"
  using samd_write_sends [of "[104, 105]" "samd_reset [] [True, False, False] [False, True, True] [(0, 33)]"]
  by (simp add: samd_reset_def numeral_2_eq_2)

text \<open>The error flags of a received character.\<close>

definition damaged :: "u16 \<times> u8 \<Rightarrow> bool" where
  "damaged f = (fst f AND 0x7 \<noteq> 0)"

lemma samd_getchar_good:
  assumes "usart_rx s = f # rx" "\<not> damaged f" "0 < count_list (usart_busy s) False"
  shows "\<exists>s'. samd_getchar s = Some (Some (snd f), s') \<and> usart_rx s' = rx \<and> usart_tx s' = usart_tx s \<and>
    Suc (count_list (usart_busy s') False) = count_list (usart_busy s) False"
  using wait_for_returns [OF assms(3)] assms(1,2)
  by (auto simp: samd_getchar_def usart_sync_def damaged_def Let_def)

text \<open>The number of error flags of a character.\<close>

definition flags :: "u16 \<Rightarrow> nat" where
  "flags st = of_bool (bit st 0) + of_bool (bit st 1) + of_bool (bit st 2)"

lemma status_masks:
  "(st AND 0x7) AND SERCOM_USART_STATUS_FERR \<noteq> 0 \<longleftrightarrow> bit st 1"
  "(st AND 0x7) AND SERCOM_USART_STATUS_BUFOVF \<noteq> 0 \<longleftrightarrow> bit st 2"
  "(st AND 0x7) AND SERCOM_USART_STATUS_PERR \<noteq> 0 \<longleftrightarrow> bit st 0"
  "st AND 0x7 \<noteq> 0 \<longleftrightarrow> bit st 0 \<or> bit st 1 \<or> bit st 2"
proof -
  have 7: "st AND 0x7 = take_bit 3 st" by (simp add: take_bit_eq_mask mask_eq_exp_minus_1)
  show "(st AND 0x7) AND SERCOM_USART_STATUS_FERR \<noteq> 0 \<longleftrightarrow> bit st 1"
    "(st AND 0x7) AND SERCOM_USART_STATUS_BUFOVF \<noteq> 0 \<longleftrightarrow> bit st 2"
    "(st AND 0x7) AND SERCOM_USART_STATUS_PERR \<noteq> 0 \<longleftrightarrow> bit st 0"
    unfolding 7 SERCOM_USART_STATUS_FERR_def SERCOM_USART_STATUS_BUFOVF_def SERCOM_USART_STATUS_PERR_def
      bit_iff_and_push_bit_not_eq_0 [symmetric] by (simp_all add: bit_take_bit_iff)
  have "take_bit 3 st = 0 \<longleftrightarrow> (\<forall>n < 3. \<not> bit st n)"
    by (auto simp: bit_eq_iff bit_take_bit_iff dest: bit_imp_le_length)
  then show "st AND 0x7 \<noteq> 0 \<longleftrightarrow> bit st 0 \<or> bit st 1 \<or> bit st 2"
    unfolding 7 by (auto simp: numeral_3_eq_3 numeral_2_eq_2 All_less_Suc)
qed

lemma flags_clear:
  "bit st 1 \<Longrightarrow> Suc (flags (st AND NOT SERCOM_USART_STATUS_FERR)) = flags st"
  "bit st 2 \<Longrightarrow> Suc (flags (st AND NOT SERCOM_USART_STATUS_BUFOVF)) = flags st"
  "bit st 0 \<Longrightarrow> Suc (flags (st AND NOT SERCOM_USART_STATUS_PERR)) = flags st"
  by (simp_all add: flags_def SERCOM_USART_STATUS_FERR_def SERCOM_USART_STATUS_BUFOVF_def
      SERCOM_USART_STATUS_PERR_def bit_simps)

lemma samd_getchar_damaged:
  assumes "usart_rx s = (st, d) # rx" "damaged (st, d)" "0 < count_list (usart_busy s) False"
  shows "\<exists>s' st'. samd_getchar s = Some (None, s') \<and> usart_rx s' = (st', d) # rx \<and>
    Suc (flags st') = flags st \<and> usart_tx s' = usart_tx s \<and>
    Suc (count_list (usart_busy s') False) = count_list (usart_busy s) False"
  using wait_for_returns [OF assms(3)] assms(1,2)
  by (auto simp: samd_getchar_def usart_sync_def damaged_def Let_def status_masks status_clear_def flags_clear)

lemma samd_read_prefix:
  assumes "usart_rx s = good @ rest" "\<not> list_ex damaged good" "length good \<le> count_list (usart_busy s) False"
  shows "\<exists>s'. samd_read_op (length good + n) s = map_option (\<lambda>(cs, t). (map snd good @ cs, t)) (samd_read_op n s') \<and>
    usart_rx s' = rest \<and> usart_tx s' = usart_tx s \<and>
    count_list (usart_busy s') False + length good = count_list (usart_busy s) False"
  using assms
proof (induction good arbitrary: s)
  case Nil
  then show ?case by (intro exI [of _ s]) (simp add: option.map_ident split_def)
next
  case (Cons f good)
  then obtain s1 where 1: "samd_getchar s = Some (Some (snd f), s1)" "usart_rx s1 = good @ rest"
    "usart_tx s1 = usart_tx s" "Suc (count_list (usart_busy s1) False) = count_list (usart_busy s) False"
    using samd_getchar_good [of s f "good @ rest"] by auto
  with Cons.IH [of s1] Cons.prems obtain s2 where
    "samd_read_op (length good + n) s1 = map_option (\<lambda>(cs, t). (map snd good @ cs, t)) (samd_read_op n s2)"
    "usart_rx s2 = rest" "usart_tx s2 = usart_tx s1"
    "count_list (usart_busy s2) False + length good = count_list (usart_busy s1) False"
    by auto
  with 1 show ?case
    by (intro exI [of _ s2]) (simp add: option.map_comp o_def split_def)
qed

text \<open>
  A read of as many characters as were received without an error stores these characters in their order and
  leaves the others waiting.
\<close>

theorem samd_read_complete:
  assumes "usart_rx s = good @ rest" "\<not> list_ex damaged good" "length good \<le> count_list (usart_busy s) False"
  shows "\<exists>s'. samd_read_op (length good) s = Some (map snd good, s') \<and> usart_rx s' = rest"
  using samd_read_prefix [OF assms, of 0] by auto

text \<open>
  C19. A damaged character ends a read early: the read returns, stores exactly the characters before the damaged one
  and reports their number; one error flag of the damaged character is cleared, and it stays the first
  character that waits. The synchronisation bit must be read as clear once for each character.
\<close>

theorem samd_read_stops:
  assumes "usart_rx s = good @ (st, d) # rest" "\<not> list_ex damaged good" "damaged (st, d)"
    "length good < n" "length good < count_list (usart_busy s) False"
  shows "\<exists>s' st'. samd_read_op n s = Some (map snd good, s') \<and> usart_rx s' = (st', d) # rest \<and>
    Suc (flags st') = flags st"
proof -
  obtain k where n: "n = length good + Suc k" using assms(4) less_iff_Suc_add by auto
  obtain s1 where 1: "samd_read_op n s = map_option (\<lambda>(cs, t). (map snd good @ cs, t)) (samd_read_op (Suc k) s1)"
    "usart_rx s1 = (st, d) # rest" "count_list (usart_busy s1) False + length good = count_list (usart_busy s) False"
    using samd_read_prefix [OF assms(1,2), of "Suc k"] assms(5) n by auto
  with samd_getchar_damaged [OF 1(2) assms(3)] assms(5) show ?thesis by auto
qed

theorem samd_read_stops_witness:
  "\<exists>s' st'. samd_read_op 4 (samd_reset [] [True, False, False, True, False] [] [(0, 65), (0, 66), (2, 67), (0, 68)]) =
     Some ([65, 66], s') \<and> usart_rx s' = (st', 67) # [(0, 68)] \<and> Suc (flags st') = flags 2"
  using samd_read_stops [of "samd_reset [] [True, False, False, True, False] [] [(0, 65), (0, 66), (2, 67), (0, 68)]"
      "[(0, 65), (0, 66)]" 2 67 "[(0, 68)]" 4]
  by (simp add: samd_reset_def damaged_def)

text \<open>The damaged character is not discarded: the calls after the error deliver it as a good one.\<close>

lemma damaged_char_delivered:
  assumes "usart_rx s = (SERCOM_USART_STATUS_FERR, d) # rest" "1 < count_list (usart_busy s) False"
  shows "\<exists>s1 s2. samd_getchar s = Some (None, s1) \<and> samd_getchar s1 = Some (Some d, s2)"
proof -
  have fl: "flags SERCOM_USART_STATUS_FERR = 1" and dm: "damaged (SERCOM_USART_STATUS_FERR, d)"
    by (simp_all add: flags_def damaged_def SERCOM_USART_STATUS_FERR_def)
  obtain s1 st' where 1: "samd_getchar s = Some (None, s1)" "usart_rx s1 = (st', d) # rest" "flags st' = 0"
    "Suc (count_list (usart_busy s1) False) = count_list (usart_busy s) False"
    using samd_getchar_damaged [OF assms(1) dm] assms(2) fl by auto
  have "\<not> damaged (st', d)" using 1(3) by (auto simp: damaged_def status_masks flags_def)
  with samd_getchar_good [OF 1(2)] 1 assms(2) show ?thesis by auto
qed

section \<open>Start of the line\<close>

lemma sync4:
  assumes "4 \<le> count_list xs False"
  obtains a b c d where "wait_for False xs = Some a" "wait_for False a = Some b" "wait_for False b = Some c"
    "wait_for False c = Some d"
proof -
  obtain a where a: "wait_for False xs = Some a" "3 \<le> count_list a False"
    using wait_for_returns [of xs False] assms by auto
  obtain b where b: "wait_for False a = Some b" "2 \<le> count_list b False"
    using wait_for_returns [of a False] a(2) by auto
  obtain c where c: "wait_for False b = Some c" "1 \<le> count_list c False"
    using wait_for_returns [of b False] b(2) by auto
  obtain d where d: "wait_for False c = Some d"
    using wait_for_returns [of c False] c(2) by auto
  from that [OF a(1) b(1) c(1) d] show thesis .
qed

lemmas clkctrl_defs = clkctrl_select_def clkctrl_read_def clkctrl_write_def set_field_def get_field_def
  GCLK_CLKCTRL_CLKEN_def mask_eq_exp_minus_1 Let_def

lemma printk_init_pins:
  "samd_pinmux PINMUX_PA24C_SERCOM3_PAD2 s = Some (Inr (s\<lparr>pgroups := (pgroups s)[0 := mux_pin 2 24 (pgroups s ! 0)]\<rparr>))"
  "samd_pinmux PINMUX_PA25C_SERCOM3_PAD3 s = Some (Inr (s\<lparr>pgroups := (pgroups s)[0 := mux_pin 2 25 (pgroups s ! 0)]\<rparr>))"
  if "length (pgroups s) = PORT_GROUPS"
  using pinmux_set_mux_pin [of 24 "pgroups s" 2] pinmux_set_mux_pin [of 25 "pgroups s" 2] that
  by (simp_all add: samd_pinmux_def PINMUX_PA24C_SERCOM3_PAD2_def PINMUX_PA25C_SERCOM3_PAD3_def PINMUX_def)

text \<open>A channel that is free of settings is set up for generator 0 and started.\<close>

lemma chan_set_config_free:
  assumes "c = 16 \<or> c = 12" "clkctrl s c = 0"
  shows "system_gclk_chan_set_config c \<lparr>source_generator = 0, write_lock = False\<rparr> s =
    ok (s\<lparr>clkctrl_id := c, clkctrl := (clkctrl s)(c := 0)\<rparr>)"
  using assms(1)
proof
  assume "c = 16"
  with assms(2) show ?thesis
    by (simp add: system_gclk_chan_set_config_def system_gclk_chan_disable_def clkctrl_defs)
next
  assume "c = 12"
  with assms(2) show ?thesis
    by (simp add: system_gclk_chan_set_config_def system_gclk_chan_disable_def clkctrl_defs)
qed

lemma chan_enable_free:
  assumes "c = 16 \<or> c = 12" "clkctrl s c = 0"
  shows "system_gclk_chan_enable c s = s\<lparr>clkctrl := (clkctrl s)(c := 0x4000), clkctrl_id := c\<rparr>"
  using assms by (auto simp: system_gclk_chan_enable_def clkctrl_defs)

text \<open>The frequency of generator 0 as it is after a reset, read when channel 16 is set up for it.\<close>

lemma gclk_chan_hz_reset:
  assumes "4 \<le> count_list (gclk_busy s) False" "genctrl s 0 = 0x00010600" "gendiv s (gendiv_id s) = 0"
    "OSC8M s = 0x382" "clkctrl s 16 = 0x4000"
  shows "\<exists>xs. system_gclk_chan_get_hz 16 s = ok (1000000, s\<lparr>gclk_busy := xs, genctrl_id := 0, clkctrl_id := 16\<rparr>)"
proof -
  obtain a b c d where "wait_for False (gclk_busy s) = Some a" "wait_for False a = Some b"
    "wait_for False b = Some c" "wait_for False c = Some d" using sync4 [OF assms(1)] .
  with assms show ?thesis
    by (intro exI [of _ d]) (simp add: system_gclk_chan_get_hz_def gclock_get_generator_def gclock_sync_def genctrl_select_def
        clock_get_source_def clkctrl_defs get_field_def)
qed

text \<open>
  After a reset \<open>printk_init\<close> returns with the line ready: the pads are routed to it, its clock runs from
  generator 0, receiver and transmitter are on, and the baud register has the value for the rate
  at 1 MHz, or 0 when that clock cannot give the rate.
\<close>

theorem samd_printk_init_reset:
  assumes "4 \<le> count_list gb False"
  shows "\<exists>s. samd_printk_init baud (samd_reset gb ub txc rx) = ok s \<and>
    BAUD s = (case snd (sercom_get_async_baud_val baud 1000000) of None \<Rightarrow> 0 | Some b \<Rightarrow> b) \<and>
    CTRLA s = 0x40310006 \<and> CTRLB s = 0x30000 \<and> clkctrl s 16 = 0x4000 \<and> clkctrl s 12 = 0x4000 \<and>
    pgroups s ! 0 = mux_pin 2 25 (mux_pin 2 24 \<lparr>PDIR = 0, POUT = 0, PINCFG = \<lambda>_. 0, PMUX = \<lambda>_. 0\<rparr>)"
proof -
  obtain s1 where s1: "s1 = samd_reset gb ub txc rx" "gclk_busy s1 = gb" "genctrl s1 0 = 0x00010600" "gendiv s1 = (\<lambda>_. 0)"
    "OSC8M s1 = 0x382" "clkctrl s1 = (\<lambda>_. 0)" "CTRLA s1 = 0" "CTRLB s1 = 0" "\<not> generator_is_set s1"
    "pgroups s1 = replicate PORT_GROUPS \<lparr>PDIR = 0, POUT = 0, PINCFG = \<lambda>_. 0, PMUX = \<lambda>_. 0\<rparr>"
    by (simp add: samd_reset_def)
  show ?thesis
    unfolding s1(1) [symmetric]
    by (insert assms s1(2-), simp add: samd_printk_init_def Let_def printk_init_pins system_gclk_chan_get_config_defaults_def
      sercom_set_gclk_generator_def SERCOM_GCLK_ID_def chan_set_config_free chan_enable_free PORT_GROUPS_def,
        subst gclk_chan_hz_reset [THEN someI_ex], simp_all add: set_field_def mask_eq_exp_minus_1)
qed

theorem samd_printk_init_reset_witness:
  "\<exists>s. samd_printk_init 57600 (samd_reset [False, True, False, False, False] [] [] []) = ok s \<and>
    BAUD s = 5138 \<and> CTRLA s = 0x40310006 \<and> CTRLB s = 0x30000 \<and> clkctrl s 16 = 0x4000 \<and> clkctrl s 12 = 0x4000 \<and>
    pgroups s ! 0 = mux_pin 2 25 (mux_pin 2 24 \<lparr>PDIR = 0, POUT = 0, PINCFG = \<lambda>_. 0, PMUX = \<lambda>_. 0\<rparr>)"
  using samd_printk_init_reset [of "[False, True, False, False, False]" 57600 "[]" "[]" "[]"]
  by (simp add: sercom_get_async_baud_val_def)

text \<open>
  The divider that \<open>gclock_get_generator\<close> uses is the one \<open>GENDIV\<close> has selected, which it never sets: for
  a generator 1 that divides the oscillator by 4 it returns the rate without the division.
\<close>

lemma generator_wrong_divider:
  "\<exists>s'. gclock_get_generator 1 ((samd_reset [False, False, False, False] [] [] [])
     \<lparr>genctrl := \<lambda>_. 0x00010600, gendiv := (\<lambda>_. 0)(1 := 0x401)\<rparr>) = ok (1000000, s')"
  by (simp add: gclock_get_generator_def gclock_sync_def genctrl_select_def samd_reset_def clock_get_source_def
      get_field_def)

text \<open>The channel that a value written to \<open>CLKCTRL\<close> selects.\<close>

definition chan_of :: "u16 \<Rightarrow> u8" where "chan_of v = ucast v AND 0x3F"

lemma bit_chan_of: "bit (chan_of v) n = (n < 6 \<and> bit v n)"
proof -
  have "chan_of v = take_bit 6 (ucast v)" by (simp add: chan_of_def take_bit_eq_mask mask_eq_exp_minus_1)
  then show ?thesis by (auto simp: bit_take_bit_iff bit_ucast_iff dest: bit_imp_le_length)
qed

lemma chan_of_set_field: "chan_of (set_field 8 4 g v) = chan_of v"
  by (rule bit_word_eqI) (auto simp: bit_chan_of set_field_def bit_simps)

lemma chan_of_disable: "chan_of (v AND NOT GCLK_CLKCTRL_CLKEN) = chan_of v"
  by (rule bit_word_eqI) (auto simp: bit_chan_of GCLK_CLKCTRL_CLKEN_def bit_and_iff bit_not_iff bit_push_bit_iff bit_1_iff
      simp del: push_bit_of_1)

lemma chan_of_read: "clkctrl_id s AND 0x3F = clkctrl_id s \<Longrightarrow> chan_of (clkctrl_read s) = clkctrl_id s"
proof -
  assume "clkctrl_id s AND 0x3F = clkctrl_id s"
  then have "clkctrl_id s = take_bit 6 (clkctrl_id s)" by (simp add: take_bit_eq_mask mask_eq_exp_minus_1)
  then have id: "n < 6" if "bit (clkctrl_id s) n" for n using that by (metis bit_take_bit_iff)
  have "\<not> bit (0xCF00 :: u16) n" if "n < 6" for n
  proof -
    have "n \<in> {0, 1, 2, 3, 4, 5}" using that by auto
    then show ?thesis by auto
  qed
  then show ?thesis
    by (intro bit_word_eqI) (auto simp: bit_chan_of clkctrl_read_def bit_or_iff bit_and_iff bit_ucast_iff dest: id)
qed

text \<open>A channel with its write lock set and its clock running cannot be stopped: the wait for it does not end.\<close>

lemma locked_channel_hangs:
  assumes "bit (clkctrl s (channel AND 0x3F)) 15" "bit (clkctrl s (channel AND 0x3F)) 14"
  shows "system_gclk_chan_disable channel s = None"
proof -
  have wr: "clkctrl_write v t = t" if "bit (clkctrl t (clkctrl_id t)) 15" "chan_of v = clkctrl_id t" for v t
    using that by (simp add: clkctrl_write_def chan_of_def)
  let ?s = "clkctrl_select channel s"
  have sel: "clkctrl_id ?s = channel AND 0x3F" "clkctrl ?s = clkctrl s" by (simp_all add: clkctrl_select_def)
  have "channel AND 0x3F AND 0x3F = channel AND (0x3F :: u8)" by (simp add: and.assoc)
  then have rd: "chan_of (clkctrl_read ?s) = clkctrl_id ?s" by (simp add: chan_of_read sel)
  have "bit (clkctrl_read ?s AND GCLK_CLKCTRL_CLKEN) 14"
    using assms(2) by (simp add: clkctrl_read_def GCLK_CLKCTRL_CLKEN_def sel bit_simps)
  then have "clkctrl_read ?s AND GCLK_CLKCTRL_CLKEN \<noteq> 0" by auto
  with wr [of ?s] rd assms(1) show ?thesis
    by (simp add: system_gclk_chan_disable_def Let_def sel chan_of_set_field chan_of_disable)
qed

text \<open>
  A string printed before the kernel runs arrives byte by byte, up to its terminator.
\<close>

lemma samd_printk_sends:
  assumes "string_at m str t" "length t \<le> count_list (usart_busy s) False" "length t \<le> count_list (usart_txc s) True"
  shows "\<exists>s'. samd_printk m str s = Some s' \<and> usart_tx s' = usart_tx s @ t"
proof -
  have "unat (of_nat (length t) :: u32) = length t" using assms(1) by (simp add: string_at_def unat_of_nat)
  with assms(1) have "strlen m str = Some (of_nat (length t))" "read_bytes m str (unat (of_nat (length t) :: u32)) = t"
    using strlen_cstr [of m str t] read_bytes_cstr [of m str t] by (simp_all add: string_at_def)
  with samd_write_loop_sends [OF assms(2,3)] show ?thesis
    by (auto simp: samd_printk_def samd_write_op_def)
qed

end
