(* ===== verification/Repo_Tests.thy ===== *)
theory Repo_Tests
  imports Arch_Arm Lib_Log
begin

text \<open>
  The unit tests of the repository, run on the model: \<^verbatim>\<open>src/tests/list_tests.c\<close>,
  \<^verbatim>\<open>src/tests/vfs_tests.c\<close> and \<^verbatim>\<open>src/tests/irq_test.c\<close>. A test yields the message of its first
  failed assertion, or \<open>None\<close> when it passes.

  \<^item> A list test is the sequence of its calls and assertions; a call that dereferences \<open>NULL\<close> has no
    result. The entries are any three addresses, their memory holds anything before
    \<open>list_entry_init\<close>.
  \<^item> The operations of the file tests count their calls and compare what they are given.
  \<^item> The interrupt tests work on the table of handlers as \<open>bootstrap\<close> leaves it, with its handler of hard
    faults; the handler of the tests is at an address that is not 0.

  Shown: the tests of lists and files pass; of the interrupt tests all but one pass, and the one for
  missing handlers fails.
\<close>

section \<open>list_tests.c\<close>

datatype list_step =
    List_Append nat
  | List_Delete nat
  | Assert_List string "nat list"

text \<open>\<open>assert_list\<close> stops with a failure at the first entry that is not expected.\<close>

definition assert_list :: "nat list \<Rightarrow> list_t \<Rightarrow> lheap \<Rightarrow> bool" where
  "assert_list entries l h = (list_foreach (length entries) h l (head l) = Some entries)"

fun run_list :: "list_step list \<Rightarrow> list_t \<Rightarrow> lheap \<Rightarrow> string option option" where
  "run_list [] l h = Some None"
| "run_list (List_Append e # ss) l h =
     (case list_append l e h of None \<Rightarrow> None | Some (l, h) \<Rightarrow> run_list ss l h)"
| "run_list (List_Delete e # ss) l h = (case list_delete l e h of (l, h) \<Rightarrow> run_list ss l h)"
| "run_list (Assert_List msg entries # ss) l h =
     (if assert_list entries l h then run_list ss l h else Some (Some msg))"

text \<open>The start of each test: three entries and the list are initialised.\<close>

definition list_test :: "nat \<Rightarrow> nat \<Rightarrow> nat \<Rightarrow> list_step list \<Rightarrow> list_t \<Rightarrow> lheap \<Rightarrow> string option option" where
  "list_test a b c ss l h =
     run_list ss (list_init l) (list_entry_init c (list_entry_init b (list_entry_init a h)))"

definition test_list_add :: "nat \<Rightarrow> nat \<Rightarrow> nat \<Rightarrow> list_step list" where
  "test_list_add a b c =
     [Assert_List ''New list should be empty'' [],
      List_Append a, Assert_List ''List should be {a}'' [a],
      List_Append b, Assert_List ''List should be {a, b}'' [a, b],
      List_Append c, Assert_List ''List should be {a, b, c}'' [a, b, c]]"

definition test_list_delete :: "nat \<Rightarrow> nat \<Rightarrow> nat \<Rightarrow> list_step list" where
  "test_list_delete a b c =
     [List_Append a, List_Append b, List_Append c, Assert_List ''List should be {a, b, c}'' [a, b, c],
      List_Delete b, Assert_List ''List should be {a, c}'' [a, c],
      List_Delete c, Assert_List ''List should be {a}'' [a],
      List_Delete a, Assert_List ''List should be empty'' []]"

definition test_list_append_same :: "nat \<Rightarrow> nat \<Rightarrow> nat \<Rightarrow> list_step list" where
  "test_list_append_same a b c =
     [Assert_List ''New list should be empty'' [],
      List_Append a, Assert_List ''List should be {a}'' [a],
      List_Append a, Assert_List ''List should still be {a}'' [a],
      List_Append b, Assert_List ''List should be {a, b}'' [a, b],
      List_Append a, Assert_List ''List should now be {b, a} (append an existing element)'' [b, a],
      List_Append c, Assert_List ''List should be {b, a, c}'' [b, a, c],
      List_Append a, Assert_List ''List should now be {b, c, a} (append an existing element)'' [b, c, a]]"

section \<open>vfs_tests.c\<close>

record vfs_calls =
  write_calls :: nat
  read_calls :: nat
  flush_calls :: nat
  unexpected :: "string option"

definition test_assert :: "bool \<Rightarrow> string \<Rightarrow> string option \<Rightarrow> string option" where
  "test_assert expr desc r = (case r of Some d \<Rightarrow> Some d | None \<Rightarrow> if expr then None else Some desc)"

text \<open>The operations compare the buffer they are given with the one expected.\<close>

definition vt_write_op :: "u8 list \<Rightarrow> u8 list \<Rightarrow> vfs_calls \<Rightarrow> int \<times> vfs_calls" where
  "vt_write_op expected buf s =
     (0, s\<lparr>write_calls := write_calls s + 1,
           unexpected := test_assert (buf = expected) ''passed buf is not as expected'' (unexpected s)\<rparr>)"

definition vt_read_op :: "nat \<Rightarrow> nat \<Rightarrow> vfs_calls \<Rightarrow> int \<times> u8 list \<times> vfs_calls" where
  "vt_read_op expected nbytes s =
     (0, [], s\<lparr>read_calls := read_calls s + 1,
           unexpected := test_assert (nbytes = expected) ''passed nbytes i not as expected'' (unexpected s)\<rparr>)"

definition vt_flush_op :: "vfs_calls \<Rightarrow> int \<times> vfs_calls" where
  "vt_flush_op s = (0, s\<lparr>flush_calls := flush_calls s + 1\<rparr>)"

definition reset_calls :: vfs_calls where
  "reset_calls = \<lparr>write_calls = 0, read_calls = 0, flush_calls = 0, unexpected = None\<rparr>"

definition assert_calls :: "nat \<Rightarrow> nat \<Rightarrow> nat \<Rightarrow> vfs_calls \<Rightarrow> string option \<Rightarrow> string option" where
  "assert_calls nwrite nread nflush s r =
     test_assert (flush_calls s = nflush) ''flush calls not as expected''
     (test_assert (read_calls s = nread) ''read calls not as expected''
     (test_assert (write_calls s = nwrite) ''write calls not as expected'' r))"

definition test_write_op :: "u8 list \<Rightarrow> string option" where
  "test_write_op buf =
     (let (r, s) = write_file \<lparr>read_op = None, write_op = Some (vt_write_op buf), flush_op = None\<rparr> buf reset_calls
      in assert_calls 1 0 0 s (test_assert (r = 0) ''write did return non-zeror'' (unexpected s)))"

definition test_read_op :: "nat \<Rightarrow> string option" where
  "test_read_op nbytes =
     (let (r, _, s) = read_file \<lparr>read_op = Some (vt_read_op nbytes), write_op = None, flush_op = None\<rparr> nbytes reset_calls
      in assert_calls 0 1 0 s (test_assert (r = 0) ''read did return non-zeror'' (unexpected s)))"

definition test_flush_op :: "string option" where
  "test_flush_op =
     (let (r, s) = flush_file \<lparr>read_op = None, write_op = None, flush_op = Some vt_flush_op\<rparr> reset_calls
      in assert_calls 0 0 1 s (test_assert (r = 0) ''flush did return non-zeror'' (unexpected s)))"

definition test_unsupported_ops :: "u8 list \<Rightarrow> string option" where
  "test_unsupported_ops buf =
     (let ops = \<lparr>read_op = None, write_op = None, flush_op = None\<rparr> :: vfs_calls file_operations;
          s = reset_calls
      in test_assert (fst (read_file ops (length buf) s) < 0) ''flush did return >= 0''
        (test_assert (fst (write_file ops buf s) < 0) ''write did return >= 0''
        (test_assert (fst (flush_file ops s) = 0) ''flush did return != 0'' None)))"

section \<open>irq_test.c\<close>

text \<open>\<open>NUMBER_OF_IRQS\<close> is the length of the table; the state is the flag \<open>handler_called\<close>.\<close>

abbreviation IRQ0 :: u8 where "IRQ0 \<equiv> 7"
abbreviation IRQ1 :: u8 where "IRQ1 \<equiv> 8"

definition irq_code :: "nat \<Rightarrow> nat \<Rightarrow> bool \<Rightarrow> fault + bool" where
  "irq_code H f called = (if f = H then Inr True else Inl Assert_Failed)"

text \<open>A failed assertion does not return, so \<open>do_irq\<close> is only reached when the registration succeeds.\<close>

definition test_irq_register_handler :: "nat \<Rightarrow> irq_table \<Rightarrow> string option" where
  "test_irq_register_handler H t =
     test_assert (fst (irq_register IRQ0 H t)) ''IRQ handler registraion faild'' None"

definition test_irq_register_unkown_handler :: "nat \<Rightarrow> irq_table \<Rightarrow> string option" where
  "test_irq_register_unkown_handler H t =
     test_assert (\<not> fst (irq_register (of_nat (length t)) H t)) ''Could register irq=NUMBER_OF_IRQS'' None"

definition test_irq_handler_called :: "nat \<Rightarrow> irq_table \<Rightarrow> fault + string option" where
  "test_irq_handler_called H t =
     (let (r, t) = irq_register IRQ0 H t in
      if \<not> r then Inr (Some ''IRQ handler registraion faild'')
      else case do_irq (irq_code H) t IRQ0 False of
          Inl e \<Rightarrow> Inl e
        | Inr handler_called \<Rightarrow> Inr (test_assert handler_called ''IRQ handler was not called'' None))"

definition test_irq_unregister_handler :: "nat \<Rightarrow> irq_table \<Rightarrow> string option" where
  "test_irq_unregister_handler H t =
     (let (r, t) = irq_register IRQ0 H t
      in test_assert (fst (irq_unregister IRQ0 H t)) ''IRQ handler unregistraion faild''
           (test_assert r ''IRQ handler registraion faild'' None))"

definition test_irq_unregister_unkown_handler :: "nat \<Rightarrow> irq_table \<Rightarrow> string option" where
  "test_irq_unregister_unkown_handler H t =
     test_assert (\<not> fst (irq_unregister (of_nat (length t)) H t)) ''NUMBER_OF_IRQS IRQ handler unregistraion should not succeed''
       (test_assert (\<not> fst (irq_unregister IRQ1 H t)) ''IRQ handler unregistraion should not succeed'' None)"

definition test_irq_missing_handler :: "nat \<Rightarrow> irq_table \<Rightarrow> fault + string option" where
  "test_irq_missing_handler H t =
     (let (r, t) = irq_register IRQ_HANDLER_MISSING H t in
      if \<not> r then Inr (Some ''IRQ handler registraion faild'')
      else case do_irq (irq_code H) t IRQ0 False of
          Inl e \<Rightarrow> Inl e
        | Inr handler_called \<Rightarrow> Inr (test_assert handler_called ''missing IRQ handler was not called'' None))"

section \<open>The tests of lists follow the sequence\<close>

fun run_seq :: "list_step list \<Rightarrow> nat list \<Rightarrow> string option" where
  "run_seq [] xs = None"
| "run_seq (List_Append e # ss) xs = run_seq ss (remove1 e xs @ [e])"
| "run_seq (List_Delete e # ss) xs = run_seq ss (remove1 e xs)"
| "run_seq (Assert_List msg entries # ss) xs = (if xs = entries then run_seq ss xs else Some msg)"

fun step_entries :: "list_step \<Rightarrow> nat set" where
  "step_entries (List_Append e) = {e}"
| "step_entries (List_Delete e) = {e}"
| "step_entries (Assert_List msg es) = {}"

lemma list_foreach_short:
  "list_repr h l (as @ bs) \<Longrightarrow> n < length bs \<Longrightarrow>
     list_foreach n h l (case bs of [] \<Rightarrow> None | b # _ \<Rightarrow> Some b) = None"
proof (induction bs arbitrary: as n)
  case (Cons b bs)
  show ?case
  proof (cases n)
    case (Suc k)
    with Cons.IH [of "as @ [b]" k] Cons.prems show ?thesis by (simp add: list_next_repr)
  qed simp
qed simp

lemma assert_list_repr:
  assumes "list_repr h l xs"
  shows "assert_list es l h = (xs = es)"
proof (cases "length es < length xs")
  case True
  have "head l = (case xs of [] \<Rightarrow> None | x # _ \<Rightarrow> Some x)" using assms by (cases xs) (simp_all add: list_repr_def)
  with True list_foreach_short [of h l "[]" xs "length es"] assms show ?thesis by (auto simp: assert_list_def)
next
  case False
  then show ?thesis using list_foreach_repr [OF assms, of "length es"] by (simp add: assert_list_def)
qed

lemma run_list_seq:
  assumes "list_repr h l xs" "\<forall>e \<in> \<Union> (step_entries ` set ss). e \<in> set xs \<or> unlinked h e"
  shows "run_list ss l h = Some (run_seq ss xs)"
  using assms
proof (induction ss arbitrary: l h xs)
  case (Cons s ss)
  show ?case
  proof (cases s)
    case (List_Append e)
    then have "e \<in> set xs \<or> unlinked h e" using Cons.prems(2) by simp
    then obtain l' h' where r: "list_append l e h = Some (l', h')" "list_repr h' l' (remove1 e xs @ [e])"
      "\<And>y. y \<noteq> e \<Longrightarrow> y \<notin> set xs \<Longrightarrow> h' y = h y"
      by (cases "e \<in> set xs") (use Cons.prems(1) in \<open>auto simp: remove1_idem elim: list_append_again list_append_new\<close>)
    have "x \<in> set (remove1 e xs @ [e]) \<or> unlinked h' x" if "x \<in> \<Union> (step_entries ` set ss)" for x
    proof (cases "x \<in> set xs \<or> x = e")
      case False
      then have "unlinked h x" using that Cons.prems(2) by auto
      with False r(3) [of x] show ?thesis by (simp add: unlinked_def)
    qed (use Cons.prems(1) in \<open>auto simp: list_repr_def\<close>)
    then have "run_list ss l' h' = Some (run_seq ss (remove1 e xs @ [e]))" by (intro Cons.IH [OF r(2)] ballI)
    with r(1) List_Append show ?thesis by simp
  next
    case (List_Delete e)
    obtain l' h' where r: "list_delete l e h = (l', h')" by fastforce
    have "e \<in> set xs \<or> unlinked h e" using Cons.prems(2) List_Delete by simp
    then have d: "list_repr h' l' (remove1 e xs)" "unlinked h' e" "\<And>y. y \<notin> set xs \<Longrightarrow> h' y = h y"
      using list_delete_repr [OF Cons.prems(1) _ r] list_delete_unlinked [of h e l] Cons.prems(1) r
      by (cases "e \<in> set xs"; auto simp: remove1_idem)+
    have "x \<in> set (remove1 e xs) \<or> unlinked h' x" if "x \<in> \<Union> (step_entries ` set ss)" for x
    proof (cases "x \<in> set xs")
      case True
      then show ?thesis using d(2) by (cases "x = e") auto
    next
      case False
      then have "unlinked h x" using that Cons.prems(2) by auto
      with d(3) [OF False] show ?thesis by (simp add: unlinked_def)
    qed
    then have "run_list ss l' h' = Some (run_seq ss (remove1 e xs))" by (intro Cons.IH [OF d(1)] ballI)
    with r List_Delete show ?thesis by simp
  next
    case (Assert_List msg es)
    with Cons.IH [OF Cons.prems(1)] Cons.prems show ?thesis by (simp add: assert_list_repr)
  qed
qed simp

section \<open>Properties\<close>

text \<open>
  The tests of the repository for the lists pass on the model, for any three entries and whatever the
  memory holds before.
\<close>

theorem list_tests_pass:
  assumes "distinct [a, b, c]"
  shows "list_test a b c (test_list_add a b c) l h = Some None \<and>
    list_test a b c (test_list_delete a b c) l h = Some None \<and>
    list_test a b c (test_list_append_same a b c) l h = Some None"
proof -
  let ?h = "list_entry_init c (list_entry_init b (list_entry_init a h))"
  have "list_repr ?h (list_init l) []" by (simp add: list_repr_def list_init_def)
  moreover have "unlinked ?h a" "unlinked ?h b" "unlinked ?h c"
    using assms by (simp_all add: unlinked_def list_entry_init_def)
  ultimately have run: "\<forall>e \<in> \<Union> (step_entries ` set ss). e \<in> {a, b, c} \<Longrightarrow>
      list_test a b c ss l h = Some (run_seq ss [])" for ss
    unfolding list_test_def by (intro run_list_seq) auto
  show ?thesis
    using assms by (simp add: run test_list_add_def test_list_delete_def test_list_append_same_def)
qed

theorem list_tests_pass_witness:
  "list_test 1 2 3 (test_list_delete 1 2 3) \<lparr>head = Some 9\<rparr> heap3 = Some None"
  using list_tests_pass [of 1 2 3 "\<lparr>head = Some 9\<rparr>" heap3] by simp

text \<open>The tests of the file operations pass.\<close>

theorem vfs_tests_pass:
  "test_write_op buf = None \<and> test_read_op n = None \<and> test_flush_op = None \<and> test_unsupported_ops buf = None"
  by (simp add: test_write_op_def test_read_op_def test_flush_op_def test_unsupported_ops_def write_file_def read_file_def
      flush_file_def vt_write_op_def vt_read_op_def vt_flush_op_def assert_calls_def test_assert_def reset_calls_def)

text \<open>
  On a table whose only entries are those of start-up, five of the six interrupt tests pass. The one for missing handlers fails: the
  handler of hard faults, which stands in for missing ones, is already registered.
\<close>

theorem irq_tests_verdicts:
  assumes "length t = 39" "t ! 3 = E" "E \<noteq> 0" "t ! 7 = 0" "t ! 8 = 0" "H \<noteq> 0"
  shows "test_irq_register_handler H t = None \<and> test_irq_register_unkown_handler H t = None \<and>
    test_irq_handler_called H t = Inr None \<and> test_irq_unregister_handler H t = None \<and>
    test_irq_unregister_unkown_handler H t = None \<and>
    test_irq_missing_handler H t = Inr (Some ''IRQ handler registraion faild'')"
  using assms
  by (simp add: test_irq_register_handler_def test_irq_register_unkown_handler_def test_irq_handler_called_def
      test_irq_unregister_handler_def test_irq_unregister_unkown_handler_def test_irq_missing_handler_def
      irq_register_def irq_unregister_def test_assert_def irq_code_def do_irq.simps)

end
