(* ===== verification/Lib_Config_Cmd.thy ===== *)
theory Lib_Config_Cmd
  imports Lib_Config Lib_Can Lib_Printf FW_Result
begin

text \<open>
  The console command \<open>config\<close>, \<^verbatim>\<open>src/lib/config/config_cmd.c\<close>, on the descriptor tables of
  \<^verbatim>\<open>src/lib/can_node/can_node.c\<close> and \<^verbatim>\<open>src/lib/config/config.c\<close>.

  \<^item> A descriptor is a value of \<open>config_val_desc\<close>; its name is an address, 0 for \<open>NULL\<close>. The union
    of flags and element size and count is one word, read in both ways. The array
    \<open>subdescs\<close> is the list of its entries with the entry without a name that ends it; a loop that
    runs over its end is an access out of bounds.
  \<^item> A pointer into the configuration is its offset from \<open>&config\<close>, which has the address \<open>base\<close>:
    an access outside of the structure is out of bounds, one at an address that is not a multiple
    of its size is unaligned.
  \<^item> The strings are in the memory \<open>m\<close>. \<open>None\<close> is a loop over an unterminated string, or a transfer
    to the EEPROM, that does not end.
  \<^item> \<open>printf\<close> with a constant format appends what \<open>render\<close> yields for the pieces of the format;
    that \<open>vfprintf\<close> writes exactly this is shown in \<^verbatim>\<open>Lib_Printf\<close>.
\<close>

section \<open>Descriptors\<close>

datatype config_val_desc =
  Desc (dname: u32) (didx: u8) (doffset: u32) (dtype: u8) (dflags: u32) (subdescs: "config_val_desc list")

abbreviation kConfigValTypeStruct :: u8 where "kConfigValTypeStruct \<equiv> 0"
abbreviation kConfigValTypeArray :: u8 where "kConfigValTypeArray \<equiv> 1"
abbreviation kConfigValTypeUInt8 :: u8 where "kConfigValTypeUInt8 \<equiv> 2"
abbreviation kConfigValTypeUInt16 :: u8 where "kConfigValTypeUInt16 \<equiv> 3"
abbreviation kConfigValTypeUInt32 :: u8 where "kConfigValTypeUInt32 \<equiv> 4"
abbreviation kConfigValFlagConsoleHex :: u32 where "kConfigValFlagConsoleHex \<equiv> 1"

definition element_size :: "config_val_desc \<Rightarrow> u8" where
  "element_size d = ucast (dflags d)"

definition element_count :: "config_val_desc \<Rightarrow> u8" where
  "element_count d = ucast (drop_bit 8 (dflags d))"

definition array_flags :: "u8 \<Rightarrow> u8 \<Rightarrow> u32" where
  "array_flags esize ecount = ucast esize OR push_bit 8 (ucast ecount)"

text \<open>The descriptor that both functions make up for the element \<open>i\<close> of an array.\<close>

definition elem_desc :: "config_val_desc \<Rightarrow> nat \<Rightarrow> config_val_desc" where
  "elem_desc d i = Desc 0 (of_nat i) (of_nat i * ucast (element_size d)) kConfigValTypeStruct 0 (subdescs d)"

text \<open>A loop over an array that an entry without a name ends.\<close>

fun each_sub :: "(config_val_desc \<Rightarrow> 's \<Rightarrow> 's res) \<Rightarrow> config_val_desc list \<Rightarrow> 's \<Rightarrow> 's res" where
  "each_sub f [] x = Some (Inl Out_Of_Bounds)"
| "each_sub f (d # ds) x = (if dname d = 0 then ok x else rbind (f d x) (each_sub f ds))"

text \<open>A loop over a known range.\<close>

fun each :: "('a \<Rightarrow> 's \<Rightarrow> 's res) \<Rightarrow> 'a list \<Rightarrow> 's \<Rightarrow> 's res" where
  "each f [] x = ok x"
| "each f (i # is) x = rbind (f i x) (each f is)"

lemma each_sub_cong [fundef_cong]:
  "ds = ds' \<Longrightarrow> x = x' \<Longrightarrow> (\<And>d y. d \<in> set ds' \<Longrightarrow> f d y = g d y) \<Longrightarrow> each_sub f ds x = each_sub g ds' x'"
  by (induction ds arbitrary: ds' x x') (auto intro!: rbind_cong)

lemma each_cong [fundef_cong]:
  "is = is' \<Longrightarrow> x = x' \<Longrightarrow> (\<And>i y. i \<in> set is' \<Longrightarrow> f i y = g i y) \<Longrightarrow> each f is x = each g is' x'"
  by (induction "is" arbitrary: is' x x') (auto intro!: rbind_cong)

section \<open>The structure in memory\<close>

fun le_word :: "u8 list \<Rightarrow> u32" where
  "le_word [] = 0"
| "le_word (b # bs) = ucast b OR push_bit 8 (le_word bs)"

fun le_bytes :: "nat \<Rightarrow> u32 \<Rightarrow> u8 list" where
  "le_bytes 0 v = []"
| "le_bytes (Suc n) v = ucast v # le_bytes n (drop_bit 8 v)"

definition write_at :: "nat \<Rightarrow> 'a list \<Rightarrow> 'a list \<Rightarrow> 'a list" where
  "write_at i bs xs = take i xs @ bs @ drop (i + length bs) xs"

text \<open>The access to \<open>n\<close> bytes through a cast pointer.\<close>

definition conf_access :: "u32 \<Rightarrow> nat \<Rightarrow> u32 \<Rightarrow> u8 list \<Rightarrow> fault option" where
  "conf_access base n off c =
     (if \<not> n dvd unat (base + off) then Some Unaligned_Access
      else if length c < unat off + n then Some Out_Of_Bounds
      else None)"

definition conf_load :: "u32 \<Rightarrow> nat \<Rightarrow> u32 \<Rightarrow> u8 list \<Rightarrow> u32 res" where
  "conf_load base n off c =
     (case conf_access base n off c of Some e \<Rightarrow> Some (Inl e)
      | None \<Rightarrow> ok (le_word (take n (drop (unat off) c))))"

definition conf_store :: "u32 \<Rightarrow> nat \<Rightarrow> u32 \<Rightarrow> u32 \<Rightarrow> u8 list \<Rightarrow> u8 list res" where
  "conf_store base n off v c =
     (case conf_access base n off c of Some e \<Rightarrow> Some (Inl e)
      | None \<Rightarrow> ok (write_at (unat off) (le_bytes n v) c))"

section \<open>Output\<close>

record 'd cmdst =
  ccfg :: "'d cfg"
  cout :: "u8 list"

definition printf :: "cmem \<Rightarrow> piece list \<Rightarrow> u32 list \<Rightarrow> 'd cmdst \<Rightarrow> 'd cmdst res" where
  "printf m ps args x = map_option (\<lambda>s. Inr (x\<lparr>cout := cout x @ s\<rparr>)) (render m ps args)"

definition print_ident :: "cmem \<Rightarrow> u8 \<Rightarrow> 'd cmdst \<Rightarrow> 'd cmdst res" where
  "print_ident m ident = each (\<lambda>i. printf m (lit ''  '') []) [0..<unat ident]"

section \<open>Printing\<close>

text \<open>
  An element of an array has the entries of the array, an entry of a structure is one of the
  entries: the recursion ends, since the tables are finite.
\<close>

fun tree_size :: "config_val_desc \<Rightarrow> nat" where
  "tree_size (Desc n i off t f ds) = Suc (sum_list (map tree_size ds))"

definition desc_measure :: "config_val_desc \<Rightarrow> nat" where
  "desc_measure d = 2 * tree_size d + (if dtype d = kConfigValTypeArray then 1 else 0)"

lemma desc_measure_sub: "d \<in> set (subdescs desc) \<Longrightarrow> desc_measure d < desc_measure desc"
proof -
  assume "d \<in> set (subdescs desc)"
  then have "tree_size d \<le> sum_list (map tree_size (subdescs desc))" by (simp add: member_le_sum_list)
  then show ?thesis by (cases desc) (simp add: desc_measure_def)
qed

lemma desc_measure_elem: "dtype desc = kConfigValTypeArray \<Longrightarrow> desc_measure (elem_desc desc i) < desc_measure desc"
  by (cases desc) (simp add: desc_measure_def elem_desc_def)

function config_cmd_print_tree ::
    "cmem \<Rightarrow> u32 \<Rightarrow> config_val_desc \<Rightarrow> u8 \<Rightarrow> u32 \<Rightarrow> 'd cmdst \<Rightarrow> 'd cmdst res" where
  "config_cmd_print_tree m base desc ident conf x =
     rbind (print_ident m ident x) (\<lambda>x.
     rbind (if dname desc \<noteq> 0 then printf m (pct Conv_s # lit '' = '') [dname desc] x
            else printf m (pct Conv_i # lit '' = '') [ucast (didx desc)] x) (\<lambda>x.
     let fmt = (if dflags desc AND kConfigValFlagConsoleHex \<noteq> 0 then [pct Conv_x] else [pct Conv_d]) in
     rbind
      (if dtype desc = kConfigValTypeStruct
       then rbind (printf m (lit ''{'' @ crlf) [] x) (\<lambda>x.
            rbind (each_sub (\<lambda>d. config_cmd_print_tree m base d (ident + 1) (conf + doffset d))
                     (subdescs desc) x) (\<lambda>x.
            rbind (print_ident m ident x) (\<lambda>x.
            printf m (lit ''}'') [] x)))
       else if dtype desc = kConfigValTypeArray
       then rbind (printf m (lit ''['' @ crlf) [] x) (\<lambda>x.
            rbind (each (\<lambda>i. config_cmd_print_tree m base (elem_desc desc i) (ident + 1 + 1)
                               (conf + doffset (elem_desc desc i)))
                     [0..<unat (element_count desc)] x) (\<lambda>x.
            rbind (print_ident m (ident + 1 - 1) x) (\<lambda>x.
            printf m (lit '']'') [] x)))
       else if dtype desc = kConfigValTypeUInt8
       then rbind (conf_load base 1 conf (config (ccfg x))) (\<lambda>v. printf m fmt [v] x)
       else if dtype desc = kConfigValTypeUInt16
       then rbind (conf_load base 2 conf (config (ccfg x))) (\<lambda>v. printf m fmt [v] x)
       else if dtype desc = kConfigValTypeUInt32
       then rbind (conf_load base 4 conf (config (ccfg x))) (\<lambda>v. printf m fmt [v] x)
       else printf m (lit ''<unkown>'') [] x) (\<lambda>x.
     printf m crlf [] x)))"
  by auto

termination
  by (relation "measure (\<lambda>(m, base, desc, ident, conf, x). desc_measure desc)")
    (simp_all add: desc_measure_sub desc_measure_elem)

declare config_cmd_print_tree.simps [simp del]

section \<open>Setting and getting\<close>

text \<open>The length of the part of a path before its first dot, and what follows the dot, if any.\<close>

definition split_key :: "cmem \<Rightarrow> u32 \<Rightarrow> (nat \<times> u32) res" where
  "split_key m s =
     Option.bind (strchr m s 0x2E) (\<lambda>next.
       if next = 0 then map_option (\<lambda>l. Inr (unat l, 0)) (strlen m s)
       else ok (unat (next - s), next + 1))"

fun find_sub :: "cmem \<Rightarrow> u32 \<Rightarrow> nat \<Rightarrow> config_val_desc list \<Rightarrow> config_val_desc option res" where
  "find_sub m remaining len [] = Some (Inl Out_Of_Bounds)"
| "find_sub m remaining len (d # ds) =
     (if dname d = 0 then ok None
      else if strncmp m (dname d) remaining len = 0 then ok (Some d)
      else find_sub m remaining len ds)"

lemma find_sub_set: "find_sub m r n ds = ok (Some d) \<Longrightarrow> d \<in> set ds"
  by (induction ds) (auto split: if_splits)

definition set_leaf :: "cmem \<Rightarrow> u32 \<Rightarrow> nat \<Rightarrow> u32 \<Rightarrow> u32 \<Rightarrow> 'd cmdst \<Rightarrow> 'd cmdst res" where
  "set_leaf m base n arg conf x =
     (if arg \<noteq> 0
      then rbind (map_option Inr (strtol m arg 0)) (\<lambda>(_, v).
           rbind (conf_store base n conf v (config (ccfg x))) (\<lambda>c.
           ok (x\<lparr>ccfg := (ccfg x)\<lparr>config := c\<rparr>\<rparr>)))
      else ok x)"

function config_cmd_set_get ::
    "cmem \<Rightarrow> u32 \<Rightarrow> config_val_desc \<Rightarrow> u32 \<Rightarrow> u32 \<Rightarrow> u32 \<Rightarrow> u32 \<Rightarrow> 'd cmdst \<Rightarrow> 'd cmdst res" where
  "config_cmd_set_get m base desc remaining full arg conf x =
     (if remaining \<noteq> 0
      then if dtype desc = kConfigValTypeStruct
           then rbind (split_key m remaining) (\<lambda>(len, next).
                rbind (find_sub m remaining len (subdescs desc)) (\<lambda>found.
                case found of
                  Some d \<Rightarrow> config_cmd_set_get m base d next full arg (conf + doffset d) x
                | None \<Rightarrow> printf m (pct Conv_s # lit '' is unkown'' @ crlf) [remaining] x))
           else if dtype desc = kConfigValTypeArray
           then rbind (map_option Inr (strtol m remaining 0)) (\<lambda>(next, n).
                let idx = (ucast n :: u8) in
                if \<not> (m next \<noteq> 0x2E \<or> m next \<noteq> 0)
                then printf m (lit ''Expected an int not '' @ [pct Conv_s]) [remaining] x
                else let next = (if m next = 0 then 0 else next + 1) in
                     each (\<lambda>i x. if of_nat i = idx
                                 then config_cmd_set_get m base (elem_desc desc i) next full arg
                                        (conf + doffset (elem_desc desc i)) x
                                 else ok x) [0..<unat (element_count desc)] x)
           else printf m (pct Conv_s # lit '' is unkown'' @ crlf) [remaining] x
      else rbind
            (if dtype desc = kConfigValTypeUInt8 then set_leaf m base 1 arg conf x
             else if dtype desc = kConfigValTypeUInt16 then set_leaf m base 2 arg conf x
             else if dtype desc = kConfigValTypeUInt32 then set_leaf m base 4 arg conf x
             else if arg \<noteq> 0
             then printf m (pct Conv_s # lit '' is not a settable type'' @ crlf) [full] x
             else ok x) (\<lambda>x.
           config_cmd_print_tree m base desc 0 conf x))"
  by auto

termination
  by (relation "measure (\<lambda>(m, base, desc, remaining, full, arg, conf, x). desc_measure desc)")
    (auto simp: desc_measure_elem desc_measure_sub dest: find_sub_set)

declare config_cmd_set_get.simps [simp del]

section \<open>The command\<close>

fun find_decl :: "cmem \<Rightarrow> u32 \<Rightarrow> nat \<Rightarrow> config_val_desc list \<Rightarrow> config_val_desc option" where
  "find_decl m key len [] = None"
| "find_decl m key len (d # ds) = (if strncmp m (dname d) key len = 0 then Some d else find_decl m key len ds)"

text \<open>
  \<open>xfer\<close>, \<open>have_can\<close> and \<open>stale\<close> are the parameters of \<open>config_save\<close> and \<open>config_load\<close>, \<open>s_save\<close> and
  \<open>s_load\<close> the addresses of the two literals. The result is the exit code and the new state.
\<close>

definition config_cmd ::
    "'d xfer \<Rightarrow> bool \<Rightarrow> u8 \<Rightarrow> u32 \<Rightarrow> u32 \<Rightarrow> cmem \<Rightarrow> u32 \<Rightarrow> config_val_desc list \<Rightarrow> u32 list \<Rightarrow> 'd cmdst \<Rightarrow>
      (int \<times> 'd cmdst) res" where
  "config_cmd xfer have_can stale s_save s_load m base decls argv x =
     (if length argv < 2
      then rbind (each (\<lambda>d. config_cmd_print_tree m base d 0 (doffset d)) decls x) (\<lambda>x. ok (0, x))
      else if strcmp m s_save (argv ! 1) = 0
      then map_option (\<lambda>c. Inr (0, x\<lparr>ccfg := c\<rparr>)) (config_save xfer (ccfg x))
      else if strcmp m s_load (argv ! 1) = 0
      then ok (0, x\<lparr>ccfg := config_load xfer have_can stale (ccfg x)\<rparr>)
      else rbind (split_key m (argv ! 1)) (\<lambda>(len, next).
           case find_decl m (argv ! 1) len decls of
             None \<Rightarrow> rbind (printf m (pct Conv_s # lit '' is unkown'' @ crlf) [argv ! 1] x) (\<lambda>x. ok (- 1, x))
           | Some d \<Rightarrow>
               rbind (config_cmd_set_get m base d next (argv ! 1) (if length argv = 3 then argv ! 2 else 0)
                        (doffset d) x) (\<lambda>x. ok (0, x))))"

section \<open>The tables\<close>

text \<open>\<open>nm\<close> gives the address of each name; \<open>no\<close> and \<open>ns\<close> are \<open>CAN_NODE_NUM_OUTPUT\<close> and \<open>CAN_NODE_NUM_OUTPUT_SOURCE\<close>.\<close>

abbreviation leaf :: "u32 \<Rightarrow> u8 \<Rightarrow> u32 \<Rightarrow> u8 \<Rightarrow> u32 \<Rightarrow> config_val_desc" where
  "leaf n i off t f \<equiv> Desc n i off t f []"

abbreviation no_name :: config_val_desc where "no_name \<equiv> Desc 0 0 0 0 0 []"

definition can_config_desc_3 :: "(string \<Rightarrow> u32) \<Rightarrow> config_val_desc list" where
  "can_config_desc_3 nm =
     [leaf (nm ''node_id'') 1 0 kConfigValTypeUInt16 kConfigValFlagConsoleHex,
      leaf (nm ''sensor_type'') 2 2 kConfigValTypeUInt8 0,
      leaf (nm ''sensor_idx'') 2 3 kConfigValTypeUInt8 0,
      leaf (nm ''off_value'') 3 4 kConfigValTypeUInt32 0,
      leaf (nm ''on_value'') 4 8 kConfigValTypeUInt32 0,
      no_name]"

abbreviation src_size :: nat where "src_size \<equiv> 12"

definition output_size :: "nat \<Rightarrow> nat" where
  "output_size ns = 4 + src_size * ns"

definition can_config_desc_2 :: "(string \<Rightarrow> u32) \<Rightarrow> nat \<Rightarrow> config_val_desc list" where
  "can_config_desc_2 nm ns =
     leaf (nm ''mode'') 1 0 kConfigValTypeUInt8 kConfigValFlagConsoleHex
     # (if ns > 0 then [Desc (nm ''sources'') 2 4 kConfigValTypeArray
                          (array_flags (of_nat src_size) (of_nat ns)) (can_config_desc_3 nm)] else [])
     @ [no_name]"

definition can_config_desc_1 :: "(string \<Rightarrow> u32) \<Rightarrow> nat \<Rightarrow> nat \<Rightarrow> config_val_desc list" where
  "can_config_desc_1 nm no ns =
     [leaf (nm ''node_id'') 1 0 kConfigValTypeUInt16 kConfigValFlagConsoleHex,
      leaf (nm ''speed'') 2 4 kConfigValTypeUInt32 0,
      leaf (nm ''sensor_interval'') 3 8 kConfigValTypeUInt32 0]
     @ (if no > 0 then [Desc (nm ''output'') 4 12 kConfigValTypeArray
                          (array_flags (of_nat (output_size ns)) (of_nat no)) (can_config_desc_2 nm ns)] else [])
     @ [no_name]"

definition config_val_desc_can :: "(string \<Rightarrow> u32) \<Rightarrow> nat \<Rightarrow> nat \<Rightarrow> config_val_desc" where
  "config_val_desc_can nm no ns = Desc (nm ''can'') 10 4 kConfigValTypeStruct 0 (can_config_desc_1 nm no ns)"

definition config_val_desc_sn :: "(string \<Rightarrow> u32) \<Rightarrow> config_val_desc" where
  "config_val_desc_sn nm = leaf (nm ''sn'') 0 0 kConfigValTypeUInt32 0"

text \<open>The linker collects the root descriptors ordered by the names of their sections.\<close>

definition config_val_decls :: "(string \<Rightarrow> u32) \<Rightarrow> nat \<Rightarrow> nat \<Rightarrow> config_val_desc list" where
  "config_val_decls nm no ns = [config_val_desc_can nm no ns, config_val_desc_sn nm]"

section \<open>Descending a path\<close>

definition dec_text :: "nat \<Rightarrow> u8 list" where
  "dec_text n = digit_chars (num_digits 10 n)"

text \<open>What may follow the first part of a path: nothing, or a dot and more.\<close>

definition more_path :: "u8 list \<Rightarrow> bool" where
  "more_path r \<longleftrightarrow> r = [] \<or> hd r = 0x2E"

definition next_key :: "u32 \<Rightarrow> u8 list \<Rightarrow> u8 list \<Rightarrow> u32" where
  "next_key p k r = (if r = [] then 0 else p + of_nat (length k) + 1)"

lemma split_key_cstr:
  assumes "cstr m p (k @ r)" "0x2E \<notin> set k" "more_path r" "p \<noteq> 0" "unat p + length (k @ r) < 2 ^ 32"
  shows "split_key m p = ok (length k, next_key p k r)"
proof -
  have u: "unat (p + of_nat (length k)) = unat p + length k" using assms(5) by (intro unat_off) simp
  have w: "unat (of_nat (length k) :: u32) = length k" using assms(5) by (simp add: unat_of_nat)
  have c: "strchr m p 0x2E = Some (if 0x2E \<in> set (k @ r) then p + of_nat (length (takeWhile (\<lambda>y. y \<noteq> 0x2E) (k @ r))) else 0)"
    using strchr_char [OF assms(1), of "0x2E"] by simp
  show ?thesis
  proof (cases r)
    case Nil
    then show ?thesis using c assms(1,2) w strlen_cstr [OF assms(1)] by (simp add: split_key_def next_key_def)
  next
    case (Cons a t)
    then have "a = 0x2E" using assms(3) by (simp add: more_path_def)
    then have "takeWhile (\<lambda>y. y \<noteq> 0x2E) (k @ r) = k" using assms(2) Cons by (simp add: takeWhile_append)
    moreover have "p + of_nat (length k) \<noteq> 0" using u assms(4) by (metis add_is_0 unat_0 unat_eq_zero)
    ultimately show ?thesis using c w Cons \<open>a = 0x2E\<close> by (simp add: split_key_def next_key_def)
  qed
qed

lemma strncmp_key:
  assumes "cstr m p (k @ r)" "cstr m q s"
  shows "strncmp m q p (length k) = 0 \<longleftrightarrow> take (length k) s = k"
  using strncmp_cstr [OF assms(2,1), of "length k"] by (simp add: str_order_eq_0)

lemma dec_text_chars: "c \<in> set (dec_text n) \<Longrightarrow> isdigit (uint c)"
  using num_digits_less [of 10] digit_char_digit(1) by (force simp: dec_text_def digit_chars_def)

lemma num_digits_nonempty: "num_digits b n \<noteq> []"
  by (subst num_digits.simps) simp

lemma num_digits_zero: "num_digits 10 n = 0 # ds \<Longrightarrow> n = 0"
proof (induction n arbitrary: ds rule: less_induct)
  case (less n)
  show ?case
  proof (cases "n < 10")
    case True
    then show ?thesis using less.prems by (simp add: num_digits.simps [of 10 n])
  next
    case False
    then obtain es where "num_digits 10 (n div 10) = 0 # es"
      using less.prems num_digits_nonempty [of 10 "n div 10"]
      by (cases "num_digits 10 (n div 10)") (auto simp: num_digits.simps [of 10 n])
    then show ?thesis using less.IH [of "n div 10"] False by auto
  qed
qed

lemma strtol_dec:
  assumes "cstr m p (dec_text n @ r)" "more_path r"
  shows "strtol m p 0 = Some (p + of_nat (length (dec_text n)), of_nat n)"
proof -
  let ?ds = "num_digits 10 n"
  have lt: "\<forall>d \<in> set ?ds. d < 10" using num_digits_less [of 10] by simp
  have at: "m (p + of_nat i) = numberDefinitions ! (?ds ! i)" if "i < length ?ds" for i
    using assms(1) that unfolding cstr_append by (simp add: dec_text_def digit_chars_def)
  have e: "m (p + of_nat (length ?ds)) = (case r of [] \<Rightarrow> 0 | a # t \<Rightarrow> 0x2E)"
    using assms unfolding cstr_append by (auto simp: dec_text_def digit_chars_def more_path_def split: list.splits)
  have d: "\<forall>i < length (map of_nat ?ds :: u8 list). digit_val (m (p + of_nat i)) = Some (map of_nat ?ds ! i)
      \<and> map of_nat ?ds ! i \<le> (10 :: u8) \<and> m (p + of_nat i) \<noteq> 0"
  proof (intro allI impI)
    fix i assume i: "i < length (map of_nat ?ds :: u8 list)"
    then have l: "?ds ! i < 10" using lt by simp
    then have "(of_nat (?ds ! i) :: u8) \<le> 10" by (simp add: word_le_nat_alt unat_of_nat)
    then show "digit_val (m (p + of_nat i)) = Some (map of_nat ?ds ! i)
      \<and> map of_nat ?ds ! i \<le> (10 :: u8) \<and> m (p + of_nat i) \<noteq> 0"
      using at [of i] digit_val_char [of "?ds ! i"] i l by simp
  qed
  have "map (unat \<circ> (of_nat :: nat \<Rightarrow> u8)) ?ds = ?ds" using lt by (intro map_idI) (force simp: unat_of_nat)
  then have loop: "strtol_loop m 10 p 0 = Some (p + of_nat (length ?ds), of_nat n)"
    using strtol_loop_digits [OF d, of 0] e
    by (auto simp: digit_val_def horner_num_digits split: list.splits)
  have "\<not> (m p = 0x30 \<and> (m (p + 1) = 0x78 \<or> m (p + 1) = 0x58))" "\<not> (m p = 0x30 \<and> (m (p + 1) = 0x62 \<or> m (p + 1) = 0x42))"
  proof -
    obtain d0 ds where ds: "?ds = d0 # ds" using num_digits_nonempty [of 10 n] by (cases ?ds) auto
    have "m p = 0x30 \<Longrightarrow> ds = []"
      using at [of 0] ds lt digit_char_digit(3) [of d0] num_digits_zero [of n ds] by (auto simp: num_digits.simps [of 10 0])
    then have "m p = 0x30 \<Longrightarrow> m (p + 1) = 0 \<or> m (p + 1) = 0x2E" using e ds by (auto split: list.splits)
    then show "\<not> (m p = 0x30 \<and> (m (p + 1) = 0x78 \<or> m (p + 1) = 0x58))" "\<not> (m p = 0x30 \<and> (m (p + 1) = 0x62 \<or> m (p + 1) = 0x42))"
      by auto
  qed
  then show ?thesis using loop by (auto simp: strtol_def dec_text_def digit_chars_def)
qed

lemma set_get_struct:
  assumes "cstr m p (k @ r)" "0x2E \<notin> set k" "more_path r" "p \<noteq> 0" "unat p + length (k @ r) < 2 ^ 32"
    and "dtype desc = kConfigValTypeStruct" "find_sub m p (length k) (subdescs desc) = ok (Some d)"
  shows "config_cmd_set_get m base desc p full arg conf x =
     config_cmd_set_get m base d (next_key p k r) full arg (conf + doffset d) x"
  using assms(4,6,7) split_key_cstr [OF assms(1-5)] by (subst config_cmd_set_get.simps) simp

lemma each_skip: "(\<And>i y. i \<in> set is \<Longrightarrow> f i y = ok y) \<Longrightarrow> each f is x = ok x"
  by (induction "is" arbitrary: x) auto

lemma each_append: "each f (is @ js) x = rbind (each f is x) (each f js)"
  by (induction "is" arbitrary: x) (auto simp: rbind_def split: option.split sum.split)

lemma each_only:
  assumes "i < n" "\<And>j y. j < n \<Longrightarrow> j \<noteq> i \<Longrightarrow> f j y = ok y"
  shows "each f [0..<n] x = f i x"
proof -
  have "[0..<n] = [0..<i] @ i # [Suc i..<n]" using assms(1)
    upt_add_eq_append [of 0 i "n - i"] upt_conv_Cons [of i n] by simp
  moreover have "each f [0..<i] x = ok x" using assms by (intro each_skip) auto
  moreover have "each f [Suc i..<n] y = ok y" for y using assms by (intro each_skip) auto
  ultimately show ?thesis by (simp add: each_append) (simp add: rbind_def split: option.split sum.split)
qed

lemma of_nat_u8_eq: "i < 256 \<Longrightarrow> j < 256 \<Longrightarrow> (of_nat i :: u8) = of_nat j \<longleftrightarrow> i = j"
  by (simp add: word_of_nat_eq_iff take_bit_nat_eq_self)

lemma set_get_array:
  assumes "cstr m p (dec_text i @ r)" "more_path r" "p \<noteq> 0"
    and "dtype desc = kConfigValTypeArray" "i < unat (element_count desc)"
  shows "config_cmd_set_get m base desc p full arg conf x =
     config_cmd_set_get m base (elem_desc desc i) (next_key p (dec_text i) r) full arg
       (conf + doffset (elem_desc desc i)) x"
proof -
  have c: "unat (element_count desc) < 256" using unsigned_less [of "element_count desc", where 'a = nat] by simp
  have idx: "(ucast (of_nat i :: u32) :: u8) = of_nat i" by (rule bit_word_eqI) (simp add: bit_simps)
  have e: "m (p + of_nat (length (dec_text i))) = (case r of [] \<Rightarrow> 0 | a # t \<Rightarrow> 0x2E)"
    using assms(1,2) unfolding cstr_append by (auto simp: more_path_def split: list.splits)
  have only: "each (\<lambda>j x. if of_nat j = (ucast (of_nat i :: u32) :: u8) then F j x else ok x) [0..<unat (element_count desc)] x = F i x" for F
    using assms(5) c by (subst each_only [of i]) (auto simp: idx of_nat_u8_eq)
  show ?thesis using assms(3,4) strtol_dec [OF assms(1,2)] e only
    by (subst config_cmd_set_get.simps) (auto simp: next_key_def split: list.splits)
qed

end
