(* ===== verification/Lib_Config_Fields.thy ===== *)
theory Lib_Config_Fields
  imports Lib_Config_Cmd
begin

text \<open>
  What the \<open>config\<close> command does to the configuration: the bytes of \<open>struct config_t\<close> read as the
  records the CAN node uses (\<open>decode_config\<close>), the fields of the tables with their paths, offsets and
  widths, and the refinement of the command on a path by the update of the field.
\<close>

section \<open>Words as bytes\<close>

lemma length_le_bytes [simp]: "length (le_bytes n v) = n"
  by (induction n arbitrary: v) auto

lemma le_word_bytes: "le_word (le_bytes n v) = take_bit (8 * n) v"
proof (induction n arbitrary: v)
  case (Suc n)
  show ?case
  proof (rule bit_word_eqI)
    fix k assume "k < LENGTH(32)"
    then show "bit (le_word (le_bytes (Suc n) v)) k = bit (take_bit (8 * Suc n) v) k"
      by (cases "k < 8") (auto simp: Suc.IH bit_simps)
  qed
qed simp

definition window :: "nat \<Rightarrow> nat \<Rightarrow> 'a list \<Rightarrow> 'a list" where
  "window i n xs = take n (drop i xs)"

lemma length_write_at [simp]: "i + length bs \<le> length xs \<Longrightarrow> length (write_at i bs xs) = length xs"
  by (simp add: write_at_def)

lemma write_at_nth:
  "i + length bs \<le> length xs \<Longrightarrow> j < length xs \<Longrightarrow>
     write_at i bs xs ! j = (if i \<le> j \<and> j < i + length bs then bs ! (j - i) else xs ! j)"
  by (auto simp: write_at_def nth_append min_def)

lemma length_window: "length (window i n xs) = min n (length xs - i)"
  by (simp add: window_def)

lemma window_nth: "j < n \<Longrightarrow> i + j < length xs \<Longrightarrow> window i n xs ! j = xs ! (i + j)"
  by (simp add: window_def)

lemma window_write_in:
  assumes "i \<le> j" "j + length bs \<le> i + n" "i + n \<le> length xs"
  shows "window i n (write_at j bs xs) = write_at (j - i) bs (window i n xs)"
  using assms by (intro nth_equalityI) (auto simp: length_window window_nth write_at_nth add.commute)

lemma window_write_out:
  assumes "j + length bs \<le> i \<or> i + n \<le> j" "j + length bs \<le> length xs"
  shows "window i n (write_at j bs xs) = window i n xs"
  using assms by (intro nth_equalityI) (auto simp: length_window window_nth write_at_nth)

lemma write_at_all: "length xs = length bs \<Longrightarrow> write_at 0 bs xs = bs"
  by (simp add: write_at_def)

lemma window_write_same: "i + length bs \<le> length xs \<Longrightarrow> n = length bs \<Longrightarrow> window i n (write_at i bs xs) = bs"
  by (simp add: window_write_in write_at_all length_window)

section \<open>Reference: the structure as records\<close>

definition get8 :: "nat \<Rightarrow> u8 list \<Rightarrow> u8" where "get8 i bs = ucast (le_word (window i 1 bs))"
definition get16 :: "nat \<Rightarrow> u8 list \<Rightarrow> u16" where "get16 i bs = ucast (le_word (window i 2 bs))"
definition get32 :: "nat \<Rightarrow> u8 list \<Rightarrow> u32" where "get32 i bs = le_word (window i 4 bs)"

definition decode_src :: "u8 list \<Rightarrow> output_src_config" where
  "decode_src bs = \<lparr>src_node_id = get16 0 bs, sensor_type = get8 2 bs, sensor_idx = get8 3 bs,
     off_value = get32 4 bs, on_value = get32 8 bs\<rparr>"

definition decode_output :: "nat \<Rightarrow> u8 list \<Rightarrow> output_config" where
  "decode_output ns bs = \<lparr>omode = get8 0 bs,
     osources = map (\<lambda>j. decode_src (window (4 + j * src_size) src_size bs)) [0..<ns]\<rparr>"

text \<open>The serial number and the configuration of the node in the bytes of \<open>struct config_t\<close>.\<close>

definition decode_config :: "nat \<Rightarrow> nat \<Rightarrow> u8 list \<Rightarrow> u32 \<times> node_config" where
  "decode_config no ns bs = (get32 0 bs,
     \<lparr>cfg_node_id = get16 4 bs, cfg_speed = get32 8 bs, cfg_sensor_interval = get32 12 bs,
      cfg_outputs = map (\<lambda>i. decode_output ns (window (16 + i * output_size ns) (output_size ns) bs)) [0..<no]\<rparr>)"

definition config_size :: "nat \<Rightarrow> nat \<Rightarrow> nat" where
  "config_size no ns = 16 + no * output_size ns"

datatype src_field = S_node_id | S_sensor_type | S_sensor_idx | S_off_value | S_on_value
datatype cfield = F_sn | F_node_id | F_speed | F_sensor_interval | F_mode nat | F_source nat nat src_field

fun src_upd :: "src_field \<Rightarrow> u32 \<Rightarrow> output_src_config \<Rightarrow> output_src_config" where
  "src_upd S_node_id v s = s\<lparr>src_node_id := ucast v\<rparr>"
| "src_upd S_sensor_type v s = s\<lparr>sensor_type := ucast v\<rparr>"
| "src_upd S_sensor_idx v s = s\<lparr>sensor_idx := ucast v\<rparr>"
| "src_upd S_off_value v s = s\<lparr>off_value := v\<rparr>"
| "src_upd S_on_value v s = s\<lparr>on_value := v\<rparr>"

definition upd_output :: "nat \<Rightarrow> (output_config \<Rightarrow> output_config) \<Rightarrow> node_config \<Rightarrow> node_config" where
  "upd_output i f c = c\<lparr>cfg_outputs := (cfg_outputs c)[i := f (cfg_outputs c ! i)]\<rparr>"

definition upd_source :: "nat \<Rightarrow> (output_src_config \<Rightarrow> output_src_config) \<Rightarrow> output_config \<Rightarrow> output_config" where
  "upd_source j f o1 = o1\<lparr>osources := (osources o1)[j := f (osources o1 ! j)]\<rparr>"

fun field_upd :: "cfield \<Rightarrow> u32 \<Rightarrow> u32 \<times> node_config \<Rightarrow> u32 \<times> node_config" where
  "field_upd F_sn v (sn, c) = (v, c)"
| "field_upd F_node_id v (sn, c) = (sn, c\<lparr>cfg_node_id := ucast v\<rparr>)"
| "field_upd F_speed v (sn, c) = (sn, c\<lparr>cfg_speed := v\<rparr>)"
| "field_upd F_sensor_interval v (sn, c) = (sn, c\<lparr>cfg_sensor_interval := v\<rparr>)"
| "field_upd (F_mode i) v (sn, c) = (sn, upd_output i (\<lambda>o1. o1\<lparr>omode := ucast v\<rparr>) c)"
| "field_upd (F_source i j s) v (sn, c) = (sn, upd_output i (upd_source j (src_upd s v)) c)"

fun field_in :: "nat \<Rightarrow> nat \<Rightarrow> cfield \<Rightarrow> bool" where
  "field_in no ns (F_mode i) = (i < no)"
| "field_in no ns (F_source i j s) = (i < no \<and> j < ns)"
| "field_in no ns f = True"

fun src_off :: "src_field \<Rightarrow> nat" where
  "src_off S_node_id = 0" | "src_off S_sensor_type = 2" | "src_off S_sensor_idx = 3"
| "src_off S_off_value = 4" | "src_off S_on_value = 8"

fun src_width :: "src_field \<Rightarrow> nat" where
  "src_width S_node_id = 2" | "src_width S_sensor_type = 1" | "src_width S_sensor_idx = 1"
| "src_width S_off_value = 4" | "src_width S_on_value = 4"

fun field_off :: "nat \<Rightarrow> cfield \<Rightarrow> nat" where
  "field_off ns F_sn = 0" | "field_off ns F_node_id = 4" | "field_off ns F_speed = 8"
| "field_off ns F_sensor_interval = 12"
| "field_off ns (F_mode i) = 16 + i * output_size ns"
| "field_off ns (F_source i j s) = 16 + i * output_size ns + (4 + j * src_size + src_off s)"

fun field_width :: "cfield \<Rightarrow> nat" where
  "field_width F_node_id = 2" | "field_width (F_mode i) = 1"
| "field_width (F_source i j s) = src_width s" | "field_width f = 4"

lemma take_bit_8_32: "(ucast (take_bit 8 v) :: u8) = ucast v" "(ucast (take_bit 16 v) :: u16) = ucast v"
  "take_bit 32 v = v" for v :: u32
  by (rule bit_word_eqI; simp add: bit_simps)+

lemma get_write_same:
  "i < length bs \<Longrightarrow> get8 i (write_at i (le_bytes (Suc 0) v) bs) = ucast v"
  "i + 2 \<le> length bs \<Longrightarrow> get16 i (write_at i (le_bytes 2 v) bs) = ucast v"
  "i + 4 \<le> length bs \<Longrightarrow> get32 i (write_at i (le_bytes 4 v) bs) = v"
  using le_word_bytes [of "Suc 0" v] le_word_bytes [of 2 v] le_word_bytes [of 4 v]
  by (simp_all add: get8_def get16_def get32_def window_write_same take_bit_8_32 del: le_bytes.simps)

lemma get_write_other:
  "j + length w \<le> length bs \<Longrightarrow> j + length w \<le> i \<or> i + 1 \<le> j \<Longrightarrow> get8 i (write_at j w bs) = get8 i bs"
  "j + length w \<le> length bs \<Longrightarrow> j + length w \<le> i \<or> i + 2 \<le> j \<Longrightarrow> get16 i (write_at j w bs) = get16 i bs"
  "j + length w \<le> length bs \<Longrightarrow> j + length w \<le> i \<or> i + 4 \<le> j \<Longrightarrow> get32 i (write_at j w bs) = get32 i bs"
  by (simp_all add: get8_def get16_def get32_def window_write_out)

lemmas get_write = get_write_same get_write_other

lemma decode_src_write:
  "length bs = src_size \<Longrightarrow> decode_src (write_at (src_off s) (le_bytes (src_width s) v) bs) = src_upd s v (decode_src bs)"
  by (cases s) (simp_all add: decode_src_def get_write del: le_bytes.simps)

text \<open>Writing within one of \<open>n\<close> blocks of the same size changes this block only.\<close>

lemma blocks_disjoint: "i \<noteq> k \<Longrightarrow> o1 + l \<le> s \<Longrightarrow> b + k * s + o1 + l \<le> b + i * s \<or> b + i * s + s \<le> b + k * s + o1"
  for i k s :: nat
proof -
  assume "i \<noteq> k" "o1 + l \<le> s"
  then consider "Suc i \<le> k" | "Suc k \<le> i" by linarith
  then show ?thesis
  proof cases
    case 1
    then have "Suc i * s \<le> k * s" by (rule mult_le_mono1)
    then show ?thesis by simp
  next
    case 2
    then have "Suc k * s \<le> i * s" by (rule mult_le_mono1)
    then show ?thesis using \<open>o1 + l \<le> s\<close> by simp
  qed
qed

lemma block_bound: "k < n \<Longrightarrow> b + k * s + s \<le> b + n * s" for k n s :: nat
  using mult_le_mono1 [of "Suc k" n s] by simp

lemma map_window_write:
  assumes "k < n" "o1 + length w \<le> s" "b + n * s \<le> length xs"
  shows "map (\<lambda>i. g (window (b + i * s) s (write_at (b + k * s + o1) w xs))) [0..<n] =
     (map (\<lambda>i. g (window (b + i * s) s xs)) [0..<n])[k := g (write_at o1 w (window (b + k * s) s xs))]"
proof (rule nth_equalityI)
  fix i assume "i < length (map (\<lambda>i. g (window (b + i * s) s (write_at (b + k * s + o1) w xs))) [0..<n])"
  then have i: "i < n" by simp
  have kl: "b + k * s + s \<le> length xs" using block_bound [OF assms(1), of b s] assms(3) by simp
  show "map (\<lambda>i. g (window (b + i * s) s (write_at (b + k * s + o1) w xs))) [0..<n] ! i =
      (map (\<lambda>i. g (window (b + i * s) s xs)) [0..<n])[k := g (write_at o1 w (window (b + k * s) s xs))] ! i"
  proof (cases "i = k")
    case True
    then show ?thesis using i kl assms(2) by (simp add: window_write_in)
  next
    case False
    then show ?thesis using i kl assms(2) blocks_disjoint [OF False assms(2), of b] by (simp add: window_write_out)
  qed
qed simp

lemma output_size_pos: "Suc 0 \<le> output_size ns"
  by (simp add: output_size_def)

lemma decode_output_write_mode:
  assumes "length bs = output_size ns"
  shows "decode_output ns (write_at 0 (le_bytes 1 v) bs) = (decode_output ns bs)\<lparr>omode := ucast v\<rparr>"
  using assms by (simp add: decode_output_def get_write window_write_out output_size_def del: le_bytes.simps)

lemma src_field_fits: "src_off s + src_width s \<le> src_size"
  by (cases s) simp_all

lemma decode_output_write_source:
  assumes "length bs = output_size ns" "j < ns"
  shows "decode_output ns (write_at (4 + j * src_size + src_off s) (le_bytes (src_width s) v) bs) =
     upd_source j (src_upd s v) (decode_output ns bs)"
proof -
  have b: "4 + j * src_size + src_size \<le> length bs" using block_bound [OF assms(2), of 4 src_size] assms(1) by (simp add: output_size_def mult.commute)
  then have "length (window (4 + j * src_size) src_size bs) = src_size" by (simp add: length_window)
  then show ?thesis
    using assms src_field_fits [of s] b
    by (simp add: decode_output_def upd_source_def get_write map_window_write output_size_def decode_src_write del: le_bytes.simps)
qed

lemma field_fits: "field_in no ns f \<Longrightarrow> field_off ns f + field_width f \<le> config_size no ns"
proof (cases f)
  case (F_mode i)
  moreover assume "field_in no ns f"
  ultimately show ?thesis using block_bound [of i no 16 "output_size ns"] by (simp add: config_size_def output_size_def)
next
  case (F_source i j s)
  moreover assume "field_in no ns f"
  ultimately show ?thesis using block_bound [of i no 16 "output_size ns"] block_bound [of j ns 4 src_size] src_field_fits [of s]
    by (simp add: config_size_def output_size_def mult.commute)
qed (simp_all add: config_size_def)

lemma decode_config_write:
  assumes "field_in no ns f" "length bs = config_size no ns"
  shows "decode_config no ns (write_at (field_off ns f) (le_bytes (field_width f) v) bs) = field_upd f v (decode_config no ns bs)"
proof (cases f)
  case (F_mode i)
  have "length (window (16 + i * output_size ns) (output_size ns) bs) = output_size ns"
    using assms F_mode block_bound [of i no 16 "output_size ns"] by (simp add: length_window config_size_def)
  then show ?thesis
    using assms F_mode field_fits [OF assms(1)] map_window_write [of i no 0 "le_bytes (Suc 0) v" "output_size ns" 16 bs "decode_output ns"]
      decode_output_write_mode [of "window (16 + i * output_size ns) (output_size ns) bs" ns v]
      output_size_pos [of ns]
    by (simp add: decode_config_def upd_output_def get_write config_size_def del: le_bytes.simps)
next
  case (F_source i j s)
  have l: "length (window (16 + i * output_size ns) (output_size ns) bs) = output_size ns"
    using assms F_source block_bound [of i no 16 "output_size ns"] by (simp add: length_window config_size_def)
  have "4 + j * src_size + src_off s + src_width s \<le> output_size ns"
    using assms F_source block_bound [of j ns 4 src_size] src_field_fits [of s] by (simp add: output_size_def mult.commute)
  then show ?thesis
    using assms F_source field_fits [OF assms(1)] l
      map_window_write [of i no "4 + j * src_size + src_off s" "le_bytes (src_width s) v" "output_size ns" 16 bs "decode_output ns"]
      decode_output_write_source [OF l, of j s v]
    by (simp add: decode_config_def upd_output_def get_write config_size_def add.assoc del: le_bytes.simps)
qed (use assms in \<open>simp_all add: decode_config_def get_write window_write_out config_size_def del: le_bytes.simps\<close>)

section \<open>From a path to its field\<close>

abbreviation dot :: u8 where "dot \<equiv> 0x2E"

lemma string_at_next:
  assumes "string_at m p (k @ dot # t)"
  shows "string_at m (next_key p k (dot # t)) t"
proof -
  have u: "unat (p + of_nat (length k + 1)) = unat p + (length k + 1)"
    using assms by (intro unat_off) (simp add: string_at_def)
  have n: "next_key p k (dot # t) = p + of_nat (length k + 1)" by (simp add: next_key_def ac_simps)
  have "next_key p k (dot # t) \<noteq> 0" using u unfolding n by (metis add_is_0 one_neq_zero unat_0)
  moreover have "cstr m (next_key p k (dot # t)) t"
    using assms unfolding string_at_def cstr_append by (simp add: next_key_def)
  moreover have "unat (next_key p k (dot # t)) + length t < 2 ^ 32" using u assms unfolding n by (simp add: string_at_def)
  ultimately show ?thesis by (simp add: string_at_def)
qed

lemma strcmp_at: "string_at m p s \<Longrightarrow> string_at m q t \<Longrightarrow> strcmp m p q = 0 \<longleftrightarrow> s = t"
  using strcmp_cstr [of m p s q t] by (auto simp: string_at_def str_order_eq_0)

lemma inj_byte: "inj (of_nat \<circ> of_char :: char \<Rightarrow> u8)"
proof (rule injI)
  fix c d :: char
  assume "(of_nat \<circ> of_char) c = ((of_nat \<circ> of_char) d :: u8)"
  moreover have "of_char c < (256 :: nat)" "of_char d < (256 :: nat)" by (rule nat_of_char_less_256)+
  ultimately have "(of_char c :: nat) = of_char d" by (simp add: of_nat_u8_eq)
  then show "c = d" by simp
qed

lemma bytes_eq [simp]: "chars s = chars t \<longleftrightarrow> s = t"
  using inj_byte by (simp add: chars_def inj_map_eq_map)

lemma dot_byte: "dot = (of_nat \<circ> of_char) CHR ''.''"
  by code_simp

lemma dot_in_bytes: "dot \<in> set (chars s) \<longleftrightarrow> CHR ''.'' \<in> set s"
  unfolding dot_byte chars_def list.set_map by (rule inj_image_mem_iff [OF inj_byte])

text \<open>The names are strings in memory.\<close>

definition config_names :: "string list" where
  "config_names = [''sn'', ''can'', ''node_id'', ''speed'', ''sensor_interval'', ''output'', ''mode'', ''sources'',
     ''sensor_type'', ''sensor_idx'', ''off_value'', ''on_value'']"

definition names_at :: "cmem \<Rightarrow> (string \<Rightarrow> u32) \<Rightarrow> bool" where
  "names_at m nm \<longleftrightarrow> (\<forall>s \<in> set config_names. string_at m (nm s) (chars s))"

lemma strncmp_name:
  assumes "names_at m nm" "s \<in> set config_names" "string_at m p (chars k @ r)"
  shows "nm s \<noteq> 0" "strncmp m (nm s) p (length k) = 0 \<longleftrightarrow> take (length k) s = k"
  using assms strncmp_key [of m p "chars k" r "nm s" "chars s"]
  by (auto simp: names_at_def string_at_def)

lemma set_get_key:
  assumes "string_at m p (chars k @ r)" "CHR ''.'' \<notin> set k" "more_path r"
    and "dtype desc = kConfigValTypeStruct" "find_sub m p (length k) (subdescs desc) = ok (Some d)"
  shows "config_cmd_set_get m base desc p full arg conf x =
     config_cmd_set_get m base d (next_key p (chars k) r) full arg (conf + doffset d) x"
  using assms by (intro set_get_struct) (simp_all add: string_at_def dot_in_bytes)

lemma set_get_index:
  assumes "string_at m p (dec_text i @ r)" "more_path r" "dtype desc = kConfigValTypeArray" "i < unat (element_count desc)"
  shows "config_cmd_set_get m base desc p full arg conf x =
     config_cmd_set_get m base (elem_desc desc i) (next_key p (dec_text i) r) full arg
       (conf + doffset (elem_desc desc i)) x"
  using assms by (intro set_get_array) (simp_all add: string_at_def)

lemma array_flags_parts:
  "ucast (array_flags a b) = a" "ucast (drop_bit 8 (array_flags a b)) = b"
  by (rule bit_word_eqI; auto simp: array_flags_def bit_simps dest: bit_imp_le_length)+

fun src_name :: "src_field \<Rightarrow> string" where
  "src_name S_node_id = ''node_id''" | "src_name S_sensor_type = ''sensor_type''"
| "src_name S_sensor_idx = ''sensor_idx''" | "src_name S_off_value = ''off_value''"
| "src_name S_on_value = ''on_value''"

fun src_desc :: "(string \<Rightarrow> u32) \<Rightarrow> src_field \<Rightarrow> config_val_desc" where
  "src_desc nm S_node_id = leaf (nm ''node_id'') 1 0 kConfigValTypeUInt16 kConfigValFlagConsoleHex"
| "src_desc nm S_sensor_type = leaf (nm ''sensor_type'') 2 2 kConfigValTypeUInt8 0"
| "src_desc nm S_sensor_idx = leaf (nm ''sensor_idx'') 2 3 kConfigValTypeUInt8 0"
| "src_desc nm S_off_value = leaf (nm ''off_value'') 3 4 kConfigValTypeUInt32 0"
| "src_desc nm S_on_value = leaf (nm ''on_value'') 4 8 kConfigValTypeUInt32 0"

lemma find_sub_name:
  assumes "names_at m nm" "string_at m p (chars k @ r)" "s \<in> set config_names" "dname d = nm s"
  shows "find_sub m p (length k) (d # ds) =
     (if take (length k) s = k then ok (Some d) else find_sub m p (length k) ds)"
  using strncmp_name [OF assms(1,3,2)] assms(4) by simp

lemma find_desc_3:
  assumes "names_at m nm" "string_at m p (chars k @ r)"
  shows "find_sub m p (length k) (can_config_desc_3 nm) =
     (if take (length k) ''node_id'' = k then ok (Some (src_desc nm S_node_id))
      else if take (length k) ''sensor_type'' = k then ok (Some (src_desc nm S_sensor_type))
      else if take (length k) ''sensor_idx'' = k then ok (Some (src_desc nm S_sensor_idx))
      else if take (length k) ''off_value'' = k then ok (Some (src_desc nm S_off_value))
      else if take (length k) ''on_value'' = k then ok (Some (src_desc nm S_on_value))
      else ok None)"
  using find_sub_name [OF assms] by (simp add: can_config_desc_3_def config_names_def del: find_sub.simps) simp

lemma set_get_src:
  assumes "names_at m nm" "string_at m p (chars (src_name s))" "dtype desc = kConfigValTypeStruct"
    and "subdescs desc = can_config_desc_3 nm"
  shows "config_cmd_set_get m base desc p full arg conf x =
     config_cmd_set_get m base (src_desc nm s) 0 full arg (conf + of_nat (src_off s)) x"
proof -
  have p: "string_at m p (chars (src_name s) @ [])" using assms(2) by simp
  have "find_sub m p (length (src_name s)) (subdescs desc) = ok (Some (src_desc nm s))"
    unfolding assms(4) find_desc_3 [OF assms(1) p] by (cases s) simp_all
  moreover have "CHR ''.'' \<notin> set (src_name s)" by (cases s) simp_all
  moreover have "doffset (src_desc nm s) = of_nat (src_off s)" by (cases s) simp_all
  ultimately show ?thesis using set_get_key [OF p, of desc "src_desc nm s"] assms(3) by (simp add: more_path_def next_key_def)
qed

abbreviation mode_desc :: "(string \<Rightarrow> u32) \<Rightarrow> config_val_desc" where
  "mode_desc nm \<equiv> leaf (nm ''mode'') 1 0 kConfigValTypeUInt8 kConfigValFlagConsoleHex"

abbreviation sources_desc :: "(string \<Rightarrow> u32) \<Rightarrow> nat \<Rightarrow> config_val_desc" where
  "sources_desc nm ns \<equiv> Desc (nm ''sources'') 2 4 kConfigValTypeArray
     (array_flags (of_nat src_size) (of_nat ns)) (can_config_desc_3 nm)"

abbreviation output_desc :: "(string \<Rightarrow> u32) \<Rightarrow> nat \<Rightarrow> nat \<Rightarrow> config_val_desc" where
  "output_desc nm no ns \<equiv> Desc (nm ''output'') 4 12 kConfigValTypeArray
     (array_flags (of_nat (output_size ns)) (of_nat no)) (can_config_desc_2 nm ns)"

lemma find_desc_2:
  assumes "names_at m nm" "string_at m p (chars k @ r)"
  shows "find_sub m p (length k) (can_config_desc_2 nm ns) =
     (if take (length k) ''mode'' = k then ok (Some (mode_desc nm))
      else if ns > 0 \<and> take (length k) ''sources'' = k then ok (Some (sources_desc nm ns))
      else ok None)"
  using find_sub_name [OF assms] by (simp add: can_config_desc_2_def config_names_def del: find_sub.simps) simp

lemma find_desc_1:
  assumes "names_at m nm" "string_at m p (chars k @ r)"
  shows "find_sub m p (length k) (can_config_desc_1 nm no ns) =
     (if take (length k) ''node_id'' = k then ok (Some (leaf (nm ''node_id'') 1 0 kConfigValTypeUInt16 kConfigValFlagConsoleHex))
      else if take (length k) ''speed'' = k then ok (Some (leaf (nm ''speed'') 2 4 kConfigValTypeUInt32 0))
      else if take (length k) ''sensor_interval'' = k then ok (Some (leaf (nm ''sensor_interval'') 3 8 kConfigValTypeUInt32 0))
      else if no > 0 \<and> take (length k) ''output'' = k then ok (Some (output_desc nm no ns))
      else ok None)"
  using find_sub_name [OF assms] by (simp add: can_config_desc_1_def config_names_def del: find_sub.simps) simp

lemma find_root:
  assumes "names_at m nm" "string_at m p (chars k @ r)"
  shows "find_decl m p (length k) (config_val_decls nm no ns) =
     (if take (length k) ''can'' = k then Some (config_val_desc_can nm no ns)
      else if take (length k) ''sn'' = k then Some (config_val_desc_sn nm)
      else None)"
  using strncmp_name [OF assms(1) _ assms(2)]
  by (simp add: config_val_decls_def config_names_def config_val_desc_can_def config_val_desc_sn_def)

text \<open>The text of a field below \<open>can\<close>, its descriptor, and its whole path.\<close>

fun can_path :: "cfield \<Rightarrow> u8 list" where
  "can_path F_sn = []"
| "can_path F_node_id = chars ''node_id''"
| "can_path F_speed = chars ''speed''"
| "can_path F_sensor_interval = chars ''sensor_interval''"
| "can_path (F_mode i) = chars ''output'' @ dot # dec_text i @ dot # chars ''mode''"
| "can_path (F_source i j s) = chars ''output'' @ dot # dec_text i @ dot # chars ''sources'' @ dot # dec_text j
     @ dot # chars (src_name s)"

definition field_path :: "cfield \<Rightarrow> u8 list" where
  "field_path f = (if f = F_sn then chars ''sn'' else chars ''can'' @ dot # can_path f)"

fun field_desc :: "(string \<Rightarrow> u32) \<Rightarrow> cfield \<Rightarrow> config_val_desc" where
  "field_desc nm F_sn = config_val_desc_sn nm"
| "field_desc nm F_node_id = leaf (nm ''node_id'') 1 0 kConfigValTypeUInt16 kConfigValFlagConsoleHex"
| "field_desc nm F_speed = leaf (nm ''speed'') 2 4 kConfigValTypeUInt32 0"
| "field_desc nm F_sensor_interval = leaf (nm ''sensor_interval'') 3 8 kConfigValTypeUInt32 0"
| "field_desc nm (F_mode i) = mode_desc nm"
| "field_desc nm (F_source i j s) = src_desc nm s"

text \<open>One step at a key, at its end or before a dot.\<close>

lemma set_get_last:
  assumes "string_at m p (chars k)" "CHR ''.'' \<notin> set k" "dtype desc = kConfigValTypeStruct"
    and "find_sub m p (length k) (subdescs desc) = ok (Some d)"
  shows "config_cmd_set_get m base desc p full arg conf x = config_cmd_set_get m base d 0 full arg (conf + doffset d) x"
  using set_get_key [of m p k "[]"] assms by (simp add: more_path_def next_key_def)

lemma set_get_dot:
  assumes "string_at m p (chars k @ dot # t)" "CHR ''.'' \<notin> set k" "dtype desc = kConfigValTypeStruct"
    and "find_sub m p (length k) (subdescs desc) = ok (Some d)"
  shows "\<exists>q. string_at m q t \<and> config_cmd_set_get m base desc p full arg conf x =
     config_cmd_set_get m base d q full arg (conf + doffset d) x"
  using set_get_key [OF assms(1,2) _ assms(3,4)] string_at_next [OF assms(1)]
  by (intro exI [of _ "next_key p (chars k) (dot # t)"]) (simp add: more_path_def)

lemma set_get_elem:
  assumes "string_at m p (dec_text i @ dot # t)" "dtype desc = kConfigValTypeArray" "i < n" "n < 256" "s < 256"
    and "dflags desc = array_flags (of_nat s) (of_nat n)"
  shows "\<exists>q. string_at m q t \<and> config_cmd_set_get m base desc p full arg conf x =
     config_cmd_set_get m base (elem_desc desc i) q full arg (conf + of_nat (i * s)) x"
proof -
  have "i < unat (element_count desc)" using assms(3,4,6) by (simp add: element_count_def array_flags_parts unat_of_nat)
  moreover have "(ucast (of_nat s :: u8) :: u32) = of_nat s" using assms(5) by (simp add: unsigned_of_nat take_bit_nat_eq_self)
  then have "doffset (elem_desc desc i) = of_nat (i * s)" by (simp add: elem_desc_def element_size_def assms(6) array_flags_parts)
  ultimately show ?thesis
    using set_get_index [OF assms(1) _ assms(2)] string_at_next [OF assms(1)]
    by (intro exI [of _ "next_key p (dec_text i) (dot # t)"]) (simp add: more_path_def)
qed

lemma elem_desc_sel [simp]: "dtype (elem_desc d i) = kConfigValTypeStruct" "subdescs (elem_desc d i) = subdescs d"
  by (simp_all add: elem_desc_def)

lemma set_get_output:
  assumes "names_at m nm" "string_at m p (chars ''output'' @ dot # dec_text i @ dot # t)" "i < no" "no < 256" "output_size ns < 256"
  shows "\<exists>q. string_at m q t \<and> config_cmd_set_get m base (config_val_desc_can nm no ns) p full arg conf x =
     config_cmd_set_get m base (elem_desc (output_desc nm no ns) i) q full arg (conf + 12 + of_nat (i * output_size ns)) x"
proof -
  let ?r = "dec_text i @ dot # t"
  have "find_sub m p (length ''output'') (subdescs (config_val_desc_can nm no ns)) = ok (Some (output_desc nm no ns))"
    using assms(3) find_desc_1 [OF assms(1,2), of no ns] by (simp add: config_val_desc_can_def)
  then obtain q where q: "string_at m q ?r" "config_cmd_set_get m base (config_val_desc_can nm no ns) p full arg conf x =
      config_cmd_set_get m base (output_desc nm no ns) q full arg (conf + doffset (output_desc nm no ns)) x"
    using set_get_dot [OF assms(2), of "config_val_desc_can nm no ns" "output_desc nm no ns" base full arg conf x]
    by (auto simp: config_val_desc_can_def)
  show ?thesis
    using set_get_elem [OF q(1), of "output_desc nm no ns" no "output_size ns" base full arg "conf + 12" x] assms(3-) q(2)
    by auto
qed

lemma set_get_top:
  assumes "names_at m nm" "string_at m p (can_path f)" "f \<in> {F_node_id, F_speed, F_sensor_interval}"
  shows "config_cmd_set_get m base (config_val_desc_can nm no ns) p full arg 4 x =
     config_cmd_set_get m base (field_desc nm f) 0 full arg (of_nat (field_off ns f)) x"
proof -
  obtain k where k: "can_path f = chars k" "k \<in> {''node_id'', ''speed'', ''sensor_interval''}" "CHR ''.'' \<notin> set k"
    using assms(3) by auto
  then have p: "string_at m p (chars k)" using assms(2) by simp
  have "find_sub m p (length k) (can_config_desc_1 nm no ns) = ok (Some (field_desc nm f))"
    using find_desc_1 [OF assms(1), of p k "[]" no ns] p k(1,2) assms(3) by auto
  then show ?thesis using set_get_last [OF p k(3), of "config_val_desc_can nm no ns" "field_desc nm f" base full arg 4 x] assms(3)
    by (auto simp: config_val_desc_can_def)
qed

lemma set_get_can:
  assumes "names_at m nm" "string_at m p (can_path f)" "f \<noteq> F_sn" "field_in no ns f" "no < 256" "output_size ns < 256"
  shows "config_cmd_set_get m base (config_val_desc_can nm no ns) p full arg 4 x =
     config_cmd_set_get m base (field_desc nm f) 0 full arg (of_nat (field_off ns f)) x"
proof (cases f)
  case (F_mode i)
  then obtain q where q: "string_at m q (chars ''mode'')" "config_cmd_set_get m base (config_val_desc_can nm no ns) p full arg 4 x =
      config_cmd_set_get m base (elem_desc (output_desc nm no ns) i) q full arg (16 + of_nat (i * output_size ns)) x"
    using set_get_output [OF assms(1), of p i "chars ''mode''" no ns base full arg 4 x] assms by auto
  moreover have "find_sub m q (length ''mode'') (can_config_desc_2 nm ns) = ok (Some (mode_desc nm))"
    using find_desc_2 [OF assms(1), of q "''mode''" "[]"] q(1) by simp
  ultimately show ?thesis
    using set_get_last [OF q(1), of "elem_desc (output_desc nm no ns) i" "mode_desc nm"] F_mode by simp
next
  case (F_source i j s)
  let ?t = "dec_text j @ dot # chars (src_name s)"
  obtain q where q: "string_at m q (chars ''sources'' @ dot # ?t)" "config_cmd_set_get m base (config_val_desc_can nm no ns) p full arg 4 x =
      config_cmd_set_get m base (elem_desc (output_desc nm no ns) i) q full arg (16 + of_nat (i * output_size ns)) x"
    using set_get_output [OF assms(1), of p i "chars ''sources'' @ dot # ?t" no ns base full arg 4 x] assms F_source by auto
  have "find_sub m q (length ''sources'') (can_config_desc_2 nm ns) = ok (Some (sources_desc nm ns))"
    using find_desc_2 [OF assms(1) q(1)] assms(4) F_source by simp
  then obtain q1 where q1: "string_at m q1 ?t" "config_cmd_set_get m base (elem_desc (output_desc nm no ns) i) q full arg (16 + of_nat (i * output_size ns)) x =
      config_cmd_set_get m base (sources_desc nm ns) q1 full arg (16 + of_nat (i * output_size ns) + 4) x"
    using set_get_dot [OF q(1), of "elem_desc (output_desc nm no ns) i" "sources_desc nm ns" base full arg
        "16 + of_nat (i * output_size ns)" x] by auto
  have "ns < 256" using assms(6) by (simp add: output_size_def)
  then obtain q2 where q2: "string_at m q2 (chars (src_name s))" "config_cmd_set_get m base (sources_desc nm ns) q1 full arg (16 + of_nat (i * output_size ns) + 4) x =
      config_cmd_set_get m base (elem_desc (sources_desc nm ns) j) q2 full arg (16 + of_nat (i * output_size ns) + 4 + of_nat (j * src_size)) x"
    using set_get_elem [OF q1(1), of "sources_desc nm ns" ns src_size base full arg "16 + of_nat (i * output_size ns) + 4" x]
      assms(4) F_source by auto
  have "16 + of_nat (i * output_size ns) + 4 + of_nat (j * src_size) + of_nat (src_off s) = (of_nat (field_off ns f) :: u32)"
    using F_source by simp
  then show ?thesis
    unfolding q(2) q1(2) q2(2) using set_get_src [OF assms(1) q2(1), of "elem_desc (sources_desc nm ns) j" base full arg
        "16 + of_nat (i * output_size ns) + 4 + of_nat (j * src_size)" x] F_source by (simp add: add.assoc)
qed (use assms set_get_top [OF assms(1), of p f base no ns full arg x] in simp_all)

section \<open>At the field\<close>

definition value_text :: "bool \<Rightarrow> u32 \<Rightarrow> u8 list" where
  "value_text hex v = (if hex then 0x30 # 0x78 # number_text 16 0 True v
     else if sint v < 0 then 0x2D # number_text 10 0 True (- v) else number_text 10 0 True v)"

definition leaf_text :: "string \<Rightarrow> bool \<Rightarrow> u32 \<Rightarrow> u8 list" where
  "leaf_text name hex v = chars name @ chars '' = '' @ value_text hex v @ [0x0D, 0x0A]"

lemma printf_s:
  assumes "string_at m p s"
  shows "printf m (pct Conv_s # lit t @ ps) (p # args) x = map_option (\<lambda>o1. Inr (x\<lparr>cout := cout x @ s @ chars t @ o1\<rparr>)) (render m ps args)"
  by (simp only: printf_def render_s [OF assms] render_lit option.map_comp comp_def)

fun field_name :: "cfield \<Rightarrow> string" where
  "field_name F_sn = ''sn''" | "field_name F_node_id = ''node_id''" | "field_name F_speed = ''speed''"
| "field_name F_sensor_interval = ''sensor_interval''" | "field_name (F_mode i) = ''mode''"
| "field_name (F_source i j s) = src_name s"

text \<open>The node ids and the mode are shown in hexadecimal.\<close>

fun field_hex :: "cfield \<Rightarrow> bool" where
  "field_hex F_node_id = True" | "field_hex (F_mode i) = True" | "field_hex (F_source i j s) = (s = S_node_id)"
| "field_hex f = False"

definition type_of_width :: "nat \<Rightarrow> u8" where
  "type_of_width n = (if n = 1 then kConfigValTypeUInt8 else if n = 2 then kConfigValTypeUInt16 else kConfigValTypeUInt32)"

lemma field_desc_sel:
  "dname (field_desc nm f) = nm (field_name f)" "dtype (field_desc nm f) = type_of_width (field_width f)"
  "dflags (field_desc nm f) AND kConfigValFlagConsoleHex \<noteq> 0 \<longleftrightarrow> field_hex f"
  "field_name f \<in> set config_names" "field_width f \<in> {1, 2, 4}"
  by (cases f; (cases "case f of F_source i j s \<Rightarrow> s | _ \<Rightarrow> S_node_id")?;
      simp add: config_val_desc_sn_def type_of_width_def config_names_def)+

lemma printf_value:
  "printf m [pct Conv_x] [v] y = ok (y\<lparr>cout := cout y @ value_text True v\<rparr>)"
  "printf m [pct Conv_d] [v] y = ok (y\<lparr>cout := cout y @ value_text False v\<rparr>)"
  "printf m crlf [] y = ok (y\<lparr>cout := cout y @ [0x0D, 0x0A]\<rparr>)"
  by (simp_all add: printf_def value_text_def width_def)

lemma print_field:
  assumes "names_at m nm" "conf_access base (field_width f) conf (config (ccfg x)) = None"
    and "v = le_word (window (unat conf) (field_width f) (config (ccfg x)))"
  shows "config_cmd_print_tree m base (field_desc nm f) 0 conf x =
     ok (x\<lparr>cout := cout x @ leaf_text (field_name f) (field_hex f) v\<rparr>)"
proof -
  have n: "string_at m (nm (field_name f)) (chars (field_name f))" "nm (field_name f) \<noteq> 0"
    using assms(1) field_desc_sel(4) [of f] by (auto simp: names_at_def string_at_def)
  have l: "conf_load base (field_width f) conf (config (ccfg x)) = ok v"
    using assms(2,3) by (simp add: conf_load_def window_def)
  have p: "printf m (pct Conv_s # lit '' = '') [nm (field_name f)] y = ok (y\<lparr>cout := cout y @ chars (field_name f) @ chars '' = ''\<rparr>)" for y :: "'a cmdst"
    using printf_s [OF n(1), of "'' = ''" "[]" "[]" y] by simp
  show ?thesis using n(2) l field_desc_sel(5) [of f]
    by (subst config_cmd_print_tree.simps)
      (auto simp: print_ident_def field_desc_sel p type_of_width_def printf_value leaf_text_def)
qed

lemma set_get_field:
  assumes "names_at m nm" "conf_access base (field_width f) conf (config (ccfg x)) = None"
    and "arg \<noteq> 0 \<longrightarrow> strtol m arg 0 = Some (q, v)"
    and "c = (if arg = 0 then config (ccfg x) else write_at (unat conf) (le_bytes (field_width f) v) (config (ccfg x)))"
  shows "config_cmd_set_get m base (field_desc nm f) 0 full arg conf x =
     ok (x\<lparr>ccfg := (ccfg x)\<lparr>config := c\<rparr>,
           cout := cout x @ leaf_text (field_name f) (field_hex f) (le_word (window (unat conf) (field_width f) c))\<rparr>)"
proof -
  let ?x = "x\<lparr>ccfg := (ccfg x)\<lparr>config := c\<rparr>\<rparr>"
  have "unat conf + field_width f \<le> length (config (ccfg x))"
    using assms(2) by (auto simp: conf_access_def split: if_splits)
  then have "length c = length (config (ccfg x))" using assms(4) by simp
  then have a: "conf_access base (field_width f) conf (config (ccfg ?x)) = None"
    using assms(2) by (simp add: conf_access_def split: if_splits)
  have "set_leaf m base (field_width f) arg conf x = ok ?x"
    using assms(2-4) by (auto simp: set_leaf_def conf_store_def)
  then show ?thesis
    using print_field [OF assms(1) a refl] field_desc_sel(5) [of f]
    by (subst config_cmd_set_get.simps) (auto simp: field_desc_sel type_of_width_def)
qed

fun src_get :: "src_field \<Rightarrow> output_src_config \<Rightarrow> u32" where
  "src_get S_node_id s = ucast (src_node_id s)" | "src_get S_sensor_type s = ucast (sensor_type s)"
| "src_get S_sensor_idx s = ucast (sensor_idx s)" | "src_get S_off_value s = off_value s"
| "src_get S_on_value s = on_value s"

fun field_get :: "cfield \<Rightarrow> u32 \<times> node_config \<Rightarrow> u32" where
  "field_get F_sn (sn, c) = sn" | "field_get F_node_id (sn, c) = ucast (cfg_node_id c)"
| "field_get F_speed (sn, c) = cfg_speed c" | "field_get F_sensor_interval (sn, c) = cfg_sensor_interval c"
| "field_get (F_mode i) (sn, c) = ucast (omode (cfg_outputs c ! i))"
| "field_get (F_source i j s) (sn, c) = src_get s (osources (cfg_outputs c ! i) ! j)"

lemma le_word_small: "le_word bs = take_bit (8 * length bs) (le_word bs)"
proof (induction bs)
  case (Cons b bs)
  have "bit (le_word bs) k \<Longrightarrow> k < 8 * length bs" for k using Cons.IH by (metis bit_take_bit_iff)
  from this [of "_ - 8"] show ?case by (intro bit_word_eqI) (fastforce simp: bit_simps dest: bit_imp_le_length)
qed simp

lemma ucast_get:
  "i < length bs \<Longrightarrow> ucast (get8 i bs) = le_word (window i (Suc 0) bs)"
  "i + 2 \<le> length bs \<Longrightarrow> ucast (get16 i bs) = le_word (window i 2 bs)"
proof -
  assume "i < length bs"
  then have "le_word (window i (Suc 0) bs) = take_bit 8 (le_word (window i (Suc 0) bs))"
    using le_word_small [of "window i (Suc 0) bs"] by (simp add: length_window)
  moreover have "ucast (get8 i bs) = take_bit 8 (le_word (window i (Suc 0) bs))"
    by (rule bit_word_eqI) (auto simp: get8_def bit_simps)
  ultimately show "ucast (get8 i bs) = le_word (window i (Suc 0) bs)" by simp
next
  assume "i + 2 \<le> length bs"
  then have "le_word (window i 2 bs) = take_bit 16 (le_word (window i 2 bs))"
    using le_word_small [of "window i 2 bs"] by (simp add: length_window)
  moreover have "ucast (get16 i bs) = take_bit 16 (le_word (window i 2 bs))"
    by (rule bit_word_eqI) (auto simp: get16_def bit_simps)
  ultimately show "ucast (get16 i bs) = le_word (window i 2 bs)" by simp
qed

lemma window_window: "j + k \<le> n \<Longrightarrow> window j k (window i n xs) = window (i + j) k xs"
  by (simp add: window_def take_drop min_def ac_simps)

lemma src_get_decode:
  "length bs = src_size \<Longrightarrow> src_get s (decode_src bs) = le_word (window (src_off s) (src_width s) bs)"
  by (cases s) (simp_all add: decode_src_def ucast_get get32_def)

lemma field_get_decode:
  assumes "field_in no ns f" "length bs = config_size no ns"
  shows "field_get f (decode_config no ns bs) = le_word (window (field_off ns f) (field_width f) bs)"
proof (cases f)
  case (F_mode i)
  moreover have "16 + i * output_size ns < length bs" "length (window (16 + i * output_size ns) (output_size ns) bs) = output_size ns"
    using assms F_mode block_bound [of i no 16 "output_size ns"] output_size_pos [of ns] by (simp_all add: length_window config_size_def)
  ultimately show ?thesis using assms(1) output_size_pos [of ns]
    by (simp add: decode_config_def decode_output_def ucast_get window_window)
next
  case (F_source i j s)
  have o1: "16 + i * output_size ns + output_size ns \<le> length bs"
    using assms F_source block_bound [of i no 16 "output_size ns"] by (simp add: config_size_def)
  have s1: "4 + j * src_size + src_size \<le> output_size ns"
    using assms F_source block_bound [of j ns 4 src_size] by (simp add: output_size_def mult.commute)
  then have "length (window (16 + i * output_size ns + (4 + j * src_size)) src_size bs) = src_size"
    using o1 by (simp add: length_window)
  then show ?thesis using assms(1) F_source s1 src_field_fits [of s]
    by (simp add: decode_config_def decode_output_def window_window src_get_decode add.assoc)
qed (use assms in \<open>simp_all add: decode_config_def get32_def ucast_get config_size_def\<close>)

section \<open>The command on a field\<close>

lemma size_bound: "no < 256 \<Longrightarrow> output_size ns < 256 \<Longrightarrow> config_size no ns < 2 ^ 32"
proof -
  assume "no < 256" "output_size ns < 256"
  then have "no * output_size ns \<le> 255 * 255" by (intro mult_le_mono) simp_all
  then show ?thesis by (simp add: config_size_def)
qed

lemma field_aligned: "field_width f dvd field_off ns f"
proof -
  have o4: "4 dvd output_size ns" by (simp add: output_size_def)
  have s4: "src_width s dvd src_off s" "src_width s dvd 4" for s by (cases s; simp)+
  have a4: "4 dvd 16 + i * output_size ns + (4 + j * src_size)" for i j using o4 by (intro dvd_add dvd_mult) simp_all
  have "src_width s dvd 16 + i * output_size ns + (4 + j * src_size) + src_off s" for i j s
    by (rule dvd_add [OF dvd_trans [OF s4(2) a4] s4(1)])
  then show ?thesis by (cases f) (simp_all add: add.assoc)
qed

lemma field_access:
  assumes "field_in no ns f" "no < 256" "output_size ns < 256" "4 dvd unat base" "length c = config_size no ns"
  shows "conf_access base (field_width f) (of_nat (field_off ns f)) c = None" "unat (of_nat (field_off ns f) :: u32) = field_off ns f"
proof -
  have b: "field_off ns f + field_width f \<le> config_size no ns" "config_size no ns < 2 ^ 32"
    using field_fits [OF assms(1)] size_bound [OF assms(2,3)] by simp_all
  then show u: "unat (of_nat (field_off ns f) :: u32) = field_off ns f" by (simp add: unat_of_nat)
  have w: "field_width f dvd 4" using field_desc_sel(5) [of f] by auto
  have "field_width f dvd 2 ^ 32" using w by (rule dvd_trans) simp
  moreover have "field_width f dvd unat base + field_off ns f"
    using dvd_trans [OF w assms(4)] field_aligned [of f ns] by (rule dvd_add)
  ultimately have "field_width f dvd unat (base + of_nat (field_off ns f))"
    unfolding unat_word_ariths u by (simp add: dvd_mod)
  then show "conf_access base (field_width f) (of_nat (field_off ns f)) c = None"
    using b(1) u assms(5) by (simp add: conf_access_def)
qed

lemma more_dot: "more_path (dot # t)" "more_path []"
  by (simp_all add: more_path_def)

lemma field_path_not: "field_path f \<noteq> chars ''save''" "field_path f \<noteq> chars ''load''"
  by (auto simp: field_path_def chars_def)

lemma config_cmd_field:
  assumes "names_at m nm" "string_at m s_save (chars ''save'')" "string_at m s_load (chars ''load'')"
    and "string_at m p (field_path f)" "field_in no ns f" "no < 256" "output_size ns < 256"
    and "args = [] \<or> (\<exists>q. args = [q])" "arg = (case args of [] \<Rightarrow> 0 | q # _ \<Rightarrow> q)"
  shows "config_cmd xfer hc stale s_save s_load m base (config_val_decls nm no ns) (a # p # args) x =
     rbind (config_cmd_set_get m base (field_desc nm f) 0 p arg (of_nat (field_off ns f)) x) (\<lambda>x. ok (0, x))"
proof -
  have "strcmp m s_save p \<noteq> 0" "strcmp m s_load p \<noteq> 0"
    using strcmp_at [OF assms(2,4)] strcmp_at [OF assms(3,4)] field_path_not [of f] by auto
  moreover have "(if length (a # p # args) = 3 then (a # p # args) ! 2 else 0) = arg" using assms(8,9) by auto
  moreover have "(a # p # args) ! 1 = p" by simp
  ultimately have c: "config_cmd xfer hc stale s_save s_load m base (config_val_decls nm no ns) (a # p # args) x =
      rbind (split_key m p) (\<lambda>(len, next).
        case find_decl m p len (config_val_decls nm no ns) of
          None \<Rightarrow> rbind (printf m (pct Conv_s # lit '' is unkown'' @ crlf) [p] x) (\<lambda>x. ok (- 1, x))
        | Some d \<Rightarrow> rbind (config_cmd_set_get m base d next p arg (doffset d) x) (\<lambda>x. ok (0, x)))"
    unfolding config_cmd_def by (simp only:) simp
  show ?thesis
  proof (cases "f = F_sn")
    case True
    then have p: "string_at m p (chars ''sn'' @ [])" using assms(4) by (simp add: field_path_def)
    then have "split_key m p = ok (length ''sn'', 0)"
      using split_key_cstr [of m p "chars ''sn''" "[]"] by (simp add: string_at_def dot_in_bytes more_dot next_key_def)
    then show ?thesis unfolding c using find_root [OF assms(1) p, of no ns] True by (simp add: config_val_desc_sn_def)
  next
    case False
    then have p: "string_at m p (chars ''can'' @ dot # can_path f)" using assms(4) by (simp add: field_path_def)
    let ?q = "next_key p (chars ''can'') (dot # can_path f)"
    have "split_key m p = ok (length ''can'', ?q)"
      using p split_key_cstr [of m p "chars ''can''" "dot # can_path f"] by (simp add: string_at_def dot_in_bytes more_dot)
    moreover have "config_cmd_set_get m base (config_val_desc_can nm no ns) ?q p arg 4 x =
        config_cmd_set_get m base (field_desc nm f) 0 p arg (of_nat (field_off ns f)) x"
      using set_get_can [OF assms(1) string_at_next [OF p] False assms(5-7)] .
    ultimately show ?thesis unfolding c using find_root [OF assms(1) p, of no ns] by (simp add: config_val_desc_can_def)
  qed
qed

text \<open>The setting of the command: the strings are in memory, the configuration is aligned and has its size.\<close>

definition config_ready :: "cmem \<Rightarrow> (string \<Rightarrow> u32) \<Rightarrow> u32 \<Rightarrow> u32 \<Rightarrow> u32 \<Rightarrow> nat \<Rightarrow> nat \<Rightarrow> 'd cmdst \<Rightarrow> bool" where
  "config_ready m nm s_save s_load base no ns x \<longleftrightarrow>
     names_at m nm \<and> string_at m s_save (chars ''save'') \<and> string_at m s_load (chars ''load'')
     \<and> no < 256 \<and> output_size ns < 256 \<and> 4 dvd unat base \<and> length (config (ccfg x)) = config_size no ns"

lemma config_cmd_set:
  assumes "config_ready m nm s_save s_load base no ns x" "field_in no ns f"
    and "string_at m p (field_path f)" "string_at m q (dec_text (unat v))"
    and "c = write_at (field_off ns f) (le_bytes (field_width f) v) (config (ccfg x))"
  shows "config_cmd xfer hc stale s_save s_load m base (config_val_decls nm no ns) [a, p, q] x =
     ok (0, x\<lparr>ccfg := (ccfg x)\<lparr>config := c\<rparr>,
              cout := cout x @ leaf_text (field_name f) (field_hex f) (take_bit (8 * field_width f) v)\<rparr>)"
proof -
  have r: "names_at m nm" "string_at m s_save (chars ''save'')" "string_at m s_load (chars ''load'')" "no < 256"
    "output_size ns < 256" "4 dvd unat base" "length (config (ccfg x)) = config_size no ns"
    using assms(1) by (simp_all add: config_ready_def)
  note acc = field_access [OF assms(2) r(4-7)]
  have q: "q \<noteq> 0" "strtol m q 0 = Some (q + of_nat (length (dec_text (unat v))), v)"
    using assms(4) strtol_dec [of m q "unat v" "[]"] by (simp_all add: string_at_def more_dot)
  have "window (field_off ns f) (field_width f) c = le_bytes (field_width f) v"
    unfolding assms(5) using field_fits [OF assms(2)] r(7) by (simp add: window_write_same)
  then show ?thesis
    using config_cmd_field [OF r(1-3) assms(3,2) r(4,5), of "[q]" q xfer hc stale base a x]
      set_get_field [OF r(1) acc(1), of q "q + of_nat (length (dec_text (unat v)))" v c p] q assms(5) acc(2)
    by (simp add: le_word_bytes)
qed

lemma config_cmd_get:
  assumes "config_ready m nm s_save s_load base no ns x" "field_in no ns f" "string_at m p (field_path f)"
  shows "config_cmd xfer hc stale s_save s_load m base (config_val_decls nm no ns) [a, p] x =
     ok (0, x\<lparr>cout := cout x @ leaf_text (field_name f) (field_hex f) (field_get f (decode_config no ns (config (ccfg x))))\<rparr>)"
proof -
  have r: "names_at m nm" "string_at m s_save (chars ''save'')" "string_at m s_load (chars ''load'')" "no < 256"
    "output_size ns < 256" "4 dvd unat base" "length (config (ccfg x)) = config_size no ns"
    using assms(1) by (simp_all add: config_ready_def)
  note acc = field_access [OF assms(2) r(4-7)]
  show ?thesis
    using config_cmd_field [OF r(1-3) assms(3,2) r(4,5), of "[]" 0 xfer hc stale base a x]
      set_get_field [OF r(1) acc(1), of 0 0 0 "config (ccfg x)" p] acc(2) field_get_decode [OF assms(2) r(7)]
    by simp
qed

section \<open>Properties\<close>

text \<open>
  C9. Setting a field of the configuration: for every field of the tables, in every build with fewer
  than 256 outputs whose configuration fits the element size, \<open>config <path> <number>\<close> with the
  path of the field exits with 0 and changes the configuration, read as the structure the rest of the
  firmware uses, in exactly this field, to the number cut to the width of the field; it leaves the EEPROM alone
  and answers with the name and the new value.
\<close>

theorem config_sets_field:
  assumes "config_ready m nm s_save s_load base no ns x" "field_in no ns f"
    and "string_at m p (field_path f)" "string_at m q (dec_text (unat v))"
  shows "\<exists>y. config_cmd xfer hc stale s_save s_load m base (config_val_decls nm no ns) [a, p, q] x = ok (0, y)
     \<and> decode_config no ns (config (ccfg y)) = field_upd f v (decode_config no ns (config (ccfg x)))
     \<and> edev (ccfg y) = edev (ccfg x)
     \<and> cout y = cout x @ leaf_text (field_name f) (field_hex f) (take_bit (8 * field_width f) v)"
  using config_cmd_set [OF assms refl, of xfer hc stale a] decode_config_write [OF assms(2), of "config (ccfg x)" v] assms(1)
  by (simp add: config_ready_def)

text \<open>Getting a field prints its value and changes nothing.\<close>

theorem config_gets_field:
  assumes "config_ready m nm s_save s_load base no ns x" "field_in no ns f" "string_at m p (field_path f)"
  shows "config_cmd xfer hc stale s_save s_load m base (config_val_decls nm no ns) [a, p] x =
     ok (0, x\<lparr>cout := cout x @ leaf_text (field_name f) (field_hex f) (field_get f (decode_config no ns (config (ccfg x))))\<rparr>)"
  by (rule config_cmd_get [OF assms])

text \<open>
  C28. A setting survives a restart: after \<open>config <path> <number>\<close> and \<open>config save\<close>, with a chip as its
  data sheet describes it, \<open>config load\<close> from the same chip, on whatever the memory holds then, brings
  back the configuration with this field set.
\<close>

theorem setting_survives_restart:
  fixes hc :: bool and stale :: u8
  assumes "config_ready m nm s_save s_load base no ns x" "field_in no ns f" "config_size no ns < 8192"
    and "string_at m p (field_path f)" "string_at m q (dec_text (unat v))" "string_at m r (chars ''save'')" "string_at m l (chars ''load'')"
    and "chip_24xx64 xfer contents busy"
  defines "cmd \<equiv> config_cmd xfer hc stale s_save s_load m base (config_val_decls nm no ns)"
  shows "\<exists>y z. cmd [a, p, q] x = ok (0, y) \<and> cmd [a, r] y = ok (0, z)
     \<and> (\<forall>w. contents (edev (ccfg w)) = contents (edev (ccfg z)) \<and> busy (edev (ccfg w)) = 0
            \<and> length (config (ccfg w)) = config_size no ns \<longrightarrow>
          (\<exists>w'. cmd [a, l] w = ok (0, w')
             \<and> decode_config no ns (config (ccfg w')) = field_upd f v (decode_config no ns (config (ccfg x)))))"
proof -
  have cr: "length (config (ccfg x)) = config_size no ns" "string_at m s_save (chars ''save'')" "string_at m s_load (chars ''load'')"
    using assms(1) by (simp_all add: config_ready_def)
  have s: "strcmp m s_save r = 0" "strcmp m s_save l \<noteq> 0" "strcmp m s_load l = 0"
    using strcmp_at [OF cr(2) assms(6)] strcmp_at [OF cr(2) assms(7)] strcmp_at [OF cr(3) assms(7)] by simp_all
  define c where "c = write_at (field_off ns f) (le_bytes (field_width f) v) (config (ccfg x))"
  obtain y where y: "cmd [a, p, q] x = ok (0, y)" "config (ccfg y) = c"
    using config_cmd_set [OF assms(1,2,4,5) c_def, of xfer hc stale a] by (simp add: cmd_def)
  have lc: "length c = config_size no ns" using field_fits [OF assms(2)] cr(1) by (simp add: c_def)
  obtain d where d: "config_save xfer (ccfg y) = Some ((ccfg y)\<lparr>edev := d\<rparr>)"
    "contents d = store_at 0 (c @ [crc8_maxim c]) (contents (edev (ccfg y)))"
    using config_save_stores [OF assms(8), of "ccfg y"] y(2) lc assms(3) by auto
  have z: "cmd [a, r] y = ok (0, y\<lparr>ccfg := (ccfg y)\<lparr>edev := d\<rparr>\<rparr>)" using s(1) d(1) by (simp add: cmd_def config_cmd_def)
  have m: "map (contents d) [0..<config_size no ns] = c" "contents d (config_size no ns) = crc8_maxim c"
    unfolding d(2) using lc by (auto simp: store_at_def nth_append intro!: nth_equalityI)
  have dec: "decode_config no ns c = field_upd f v (decode_config no ns (config (ccfg x)))"
    unfolding c_def by (rule decode_config_write [OF assms(2) cr(1)])
  have "\<exists>w'. cmd [a, l] w = ok (0, w') \<and> decode_config no ns (config (ccfg w')) = field_upd f v (decode_config no ns (config (ccfg x)))"
    if "contents (edev (ccfg w)) = contents d" "busy (edev (ccfg w)) = 0" "length (config (ccfg w)) = config_size no ns" for w
    using config_load_reads [OF assms(8) that(3) assms(3) that(2) refl, of hc stale] that(1) m s(2,3) dec
    by (auto simp: cmd_def config_cmd_def)
  then show ?thesis using y(1) z by auto
qed

text \<open>
  A key that is the beginning of no root descriptor is refused: exit code -1, a message, and
  nothing changed.
\<close>

theorem config_unknown_key:
  assumes "config_ready m nm s_save s_load base no ns x" "string_at m p (chars k @ r)" "CHR ''.'' \<notin> set k" "more_path r"
    and "take (length k) ''can'' \<noteq> k" "take (length k) ''sn'' \<noteq> k" "chars k @ r \<noteq> chars ''save''" "chars k @ r \<noteq> chars ''load''"
  shows "config_cmd xfer hc stale s_save s_load m base (config_val_decls nm no ns) (a # p # args) x =
     ok (- 1, x\<lparr>cout := cout x @ (chars k @ r) @ chars '' is unkown'' @ [0x0D, 0x0A]\<rparr>)"
proof -
  have n: "names_at m nm" "string_at m s_save (chars ''save'')" "string_at m s_load (chars ''load'')"
    using assms(1) by (simp_all add: config_ready_def)
  have "strcmp m s_save p \<noteq> 0" "strcmp m s_load p \<noteq> 0"
    using strcmp_at [OF n(2) assms(2)] strcmp_at [OF n(3) assms(2)] assms(7,8) by auto
  moreover have "split_key m p = ok (length k, next_key p (chars k) r)"
    using split_key_cstr [of m p "chars k" r] assms(2-4) by (simp add: string_at_def dot_in_bytes)
  moreover have "find_decl m p (length k) (config_val_decls nm no ns) = None"
    using find_root [OF n(1) assms(2), of no ns] assms(5,6) by simp
  moreover have "printf m (pct Conv_s # lit '' is unkown'' @ crlf) [p] x =
      ok (x\<lparr>cout := cout x @ (chars k @ r) @ chars '' is unkown'' @ [0x0D, 0x0A]\<rparr>)"
    using printf_s [OF assms(2), of "'' is unkown''" crlf "[]" x] by simp
  ultimately show ?thesis by (simp add: config_cmd_def)
qed

text \<open>
  The index of an array is not checked: the guard of the message that an integer was expected is never
  true. An index that is no number is taken as 0, its first character is skipped, and the empty key
  that remains matches the first entry of the table: \<open>config can.output.x 1\<close> sets the mode of output 0.
\<close>

theorem array_index_unchecked:
  assumes "names_at m nm" "string_at m p [c]" "digit_val c = None" "0 < no" "no < 256" "output_size ns < 256"
  shows "config_cmd_set_get m base (output_desc nm no ns) p full arg conf x =
     config_cmd_set_get m base (mode_desc nm) 0 full arg conf x"
proof -
  let ?d = "output_desc nm no ns"
  have c: "m p = c" "c \<noteq> 0" "m (p + 1) = 0" "p \<noteq> 0" "unat p + 1 < 2 ^ 32" using assms(2) by (simp_all add: string_at_def)
  have c0: "c \<noteq> 0x30" using assms(3) by (auto simp: digit_val_def)
  have "strtol_loop m 10 p 0 = Some (p, 0)" using c assms(3) by (subst strtol_loop.simps) simp
  then have s: "strtol m p 0 = Some (p, 0)" using c(1) c0 by (simp add: strtol_def)
  have q: "string_at m (p + 1) (chars [] @ [])"
    using c unat_off [of p 1] by (auto simp: string_at_def)
  have e: "unat (element_count ?d) = no" using assms(5) by (simp add: element_count_def array_flags_parts unat_of_nat)
  have only: "each (\<lambda>j x. if of_nat j = (ucast (0 :: u32) :: u8) then F j x else ok x) [0..<unat (element_count ?d)] x = F 0 x" for F
    unfolding e using assms(4,5) of_nat_u8_eq [of _ 0] by (subst each_only [of 0]) auto
  have "config_cmd_set_get m base ?d p full arg conf x = config_cmd_set_get m base (elem_desc ?d 0) (p + 1) full arg conf x"
    using s c only by (subst config_cmd_set_get.simps) (simp add: elem_desc_def)
  also have "\<dots> = config_cmd_set_get m base (mode_desc nm) 0 full arg conf x"
    using set_get_key [OF q, of "elem_desc ?d 0" "mode_desc nm" base full arg conf x] find_desc_2 [OF assms(1) q, of ns] by (simp add: more_dot next_key_def)
  finally show ?thesis .
qed

text \<open>
  The defaults as the node reads them: node 0, 125 kBit/s, a sensor interval of 30 and every
  output automatic with cleared sources.
\<close>

lemma zero_window: "window i n (replicate k 0) = replicate (min n (k - i)) 0"
  by (simp add: window_def)

lemma le_word_zero: "le_word (replicate n 0) = 0"
  by (induction n) simp_all

lemma get_zero: "get8 i (replicate k 0) = 0" "get16 i (replicate k 0) = 0" "get32 i (replicate k 0) = 0"
  by (simp_all add: get8_def get16_def get32_def zero_window le_word_zero)

abbreviation zero_src :: output_src_config where
  "zero_src \<equiv> \<lparr>src_node_id = 0, sensor_type = 0, sensor_idx = 0, off_value = 0, on_value = 0\<rparr>"

theorem defaults_decoded:
  assumes "length c = config_size no ns"
  shows "decode_config no ns (config_load_defaults True c) =
     (0, \<lparr>cfg_node_id = 0, cfg_speed = 125000, cfg_sensor_interval = 30,
          cfg_outputs = replicate no \<lparr>omode = 0, osources = replicate ns zero_src\<rparr>\<rparr>)"
proof -
  let ?z = "replicate (length c) (0 :: u8)"
  have l: "16 \<le> length c" using assms by (simp add: config_size_def)
  have w: "config_load_defaults True c = write_at 12 (le_bytes 4 30) (write_at 8 (le_bytes 4 125000) ?z)"
  proof -
    obtain k where k: "length c = 16 + k" using l by (metis le_Suc_ex)
    have b: "le_bytes 4 30 = [30, 0, 0, 0]" "le_bytes 4 125000 = [0x48, 0xE8, 1, 0]" by code_simp+
    have z: "replicate 16 (0 :: u8) = [0, 0, 0, 0, 0, 0, 0, 0, 0, 0, 0, 0, 0, 0, 0, 0]" by code_simp
    show ?thesis unfolding config_load_defaults_def Let_def k replicate_add z b by (simp add: write_at_def)
  qed
  have "decode_config no ns (config_load_defaults True c) = field_upd F_sensor_interval 30 (field_upd F_speed 125000 (decode_config no ns ?z))"
    using decode_config_write [of no ns F_speed ?z 125000] decode_config_write [of no ns F_sensor_interval "write_at 8 (le_bytes 4 125000) ?z" 30] l assms
    unfolding w by simp
  then show ?thesis
    by (simp add: decode_config_def decode_output_def decode_src_def zero_window get_zero map_replicate_const)
qed

theorem defaults_decoded_witness:
  "cfg_speed (snd (decode_config 1 5 (config_load_defaults True (replicate 80 7)))) = 125000"
  using defaults_decoded [of "replicate 80 7" 1 5] by (simp add: config_size_def output_size_def)

section \<open>Examples\<close>

text \<open>A memory with the names, the literals, paths and numbers, one string every 64 bytes.\<close>

definition demo_strings :: "string list" where
  "demo_strings = config_names @ [''save'', ''load'', ''can.output.0.sources.1.sensor_idx'', ''300'', ''bus.id'', ''x'']"

definition demo_mem :: cmem where
  "demo_mem p = (let i = unat p div 64; j = unat p mod 64; s = demo_strings ! (i - 1)
     in if 0 < i \<and> i \<le> length demo_strings \<and> j < length s then chars s ! j else 0)"

definition demo_nm :: "string \<Rightarrow> u32" where
  "demo_nm s = of_nat (64 * Suc (length (takeWhile (\<lambda>t. t \<noteq> s) demo_strings)))"

lemma demo_strings_ok: "s \<in> set demo_strings \<Longrightarrow> length s < 64 \<and> CHR 0x00 \<notin> set s"
  by (auto simp: demo_strings_def config_names_def)

lemma zero_in_bytes: "0 \<in> set (chars s) \<longleftrightarrow> CHR 0x00 \<in> set s"
proof -
  have "(0 :: u8) = (of_nat \<circ> of_char) CHR 0x00" by code_simp
  then show ?thesis unfolding chars_def list.set_map by (metis inj_image_mem_iff [OF inj_byte])
qed

lemma demo_at: "s \<in> set demo_strings \<Longrightarrow> string_at demo_mem (demo_nm s) (chars s)"
proof -
  assume s: "s \<in> set demo_strings"
  define i where "i = length (takeWhile (\<lambda>t. t \<noteq> s) demo_strings)"
  have "takeWhile (\<lambda>t. t \<noteq> s) demo_strings \<noteq> demo_strings" using s by (auto simp: takeWhile_eq_all_conv)
  then have "i \<noteq> length demo_strings" unfolding i_def by (metis take_all order_refl takeWhile_eq_take)
  then have i: "i < length demo_strings" using length_takeWhile_le [of "\<lambda>t. t \<noteq> s" demo_strings] by (simp add: i_def)
  then have i_s: "demo_strings ! i = s" using nth_length_takeWhile [of "\<lambda>t. t \<noteq> s" demo_strings] by (simp add: i_def)
  have l: "length demo_strings = 18" by (simp add: demo_strings_def config_names_def)
  have ok: "length s < 64" "CHR 0x00 \<notin> set s" using demo_strings_ok [OF s] by simp_all
  have u: "unat (demo_nm s + of_nat j) = 64 * Suc i + j" if "j \<le> length s" for j
    using that i l ok(1) by (simp add: demo_nm_def i_def [symmetric] unat_word_ariths unat_of_nat)
  have "(64 * Suc i + j) div 64 = Suc i" "(64 * Suc i + j) mod 64 = j" if "j \<le> length s" for j
    using that ok(1) by (auto simp only: mod_mult_self4 div_mult_self4 mod_less div_less)
  then have "demo_mem (demo_nm s + of_nat j) = (if j < length s then chars s ! j else 0)" if "j \<le> length s" for j
    unfolding demo_mem_def u [OF that] Let_def using i i_s l that by simp
  then have "cstr demo_mem (demo_nm s) (chars s)" using ok(2) by (simp add: cstr_nth zero_in_bytes)
  moreover have "demo_nm s \<noteq> 0" "unat (demo_nm s) + length s < 2 ^ 32" using u [of 0] i l ok(1) by auto
  ultimately show ?thesis by (simp add: string_at_def)
qed

lemma demo_names: "names_at demo_mem demo_nm"
  unfolding names_at_def using demo_at by (simp add: demo_strings_def)

definition demo_cmdst :: "((nat \<Rightarrow> u8) \<times> nat) cmdst" where
  "demo_cmdst = \<lparr>ccfg = \<lparr>config = replicate 80 0, edev = (\<lambda>_. 0, 0)\<rparr>, cout = []\<rparr>"

lemma demo_ready: "config_ready demo_mem demo_nm (demo_nm ''save'') (demo_nm ''load'') 0x10000100 1 5 demo_cmdst"
  using demo_names demo_at [of "''save''"] demo_at [of "''load''"]
  by (simp add: config_ready_def demo_strings_def output_size_def config_size_def demo_cmdst_def)

lemma demo_path: "field_path (F_source 0 1 S_sensor_idx) = chars ''can.output.0.sources.1.sensor_idx''"
  "dec_text (unat (300 :: u32)) = chars ''300''"
  by code_simp+

theorem config_sets_field_witness:
  "\<exists>y. config_cmd demo_chip True 0 (demo_nm ''save'') (demo_nm ''load'') demo_mem 0x10000100 (config_val_decls demo_nm 1 5)
       [0, demo_nm ''can.output.0.sources.1.sensor_idx'', demo_nm ''300''] demo_cmdst = ok (0, y)
     \<and> sensor_idx (osources (cfg_outputs (snd (decode_config 1 5 (config (ccfg y)))) ! 0) ! 1) = 44"
proof -
  obtain y where y: "config_cmd demo_chip True 0 (demo_nm ''save'') (demo_nm ''load'') demo_mem 0x10000100 (config_val_decls demo_nm 1 5)
       [0, demo_nm ''can.output.0.sources.1.sensor_idx'', demo_nm ''300''] demo_cmdst = ok (0, y)"
    "decode_config 1 5 (config (ccfg y)) = field_upd (F_source 0 1 S_sensor_idx) 300 (decode_config 1 5 (config (ccfg demo_cmdst)))"
    using config_sets_field [OF demo_ready, of "F_source 0 1 S_sensor_idx" "demo_nm ''can.output.0.sources.1.sensor_idx''" "demo_nm ''300''" 300 demo_chip True 0 0]
      demo_at [of "''can.output.0.sources.1.sensor_idx''"] demo_at [of "''300''"] demo_path by (auto simp: demo_strings_def)
  have "snd (field_upd (F_source 0 1 S_sensor_idx) 300 (decode_config 1 5 bs)) = upd_output 0 (upd_source 1 (src_upd S_sensor_idx 300)) (snd (decode_config 1 5 bs))" for bs
    by (cases "decode_config 1 5 bs") simp
  then show ?thesis using y
    by (intro exI [of _ y]) (simp add: upd_output_def upd_source_def decode_config_def decode_output_def upt_rec)
qed

theorem config_gets_field_witness:
  "config_cmd demo_chip True 0 (demo_nm ''save'') (demo_nm ''load'') demo_mem 0x10000100 (config_val_decls demo_nm 1 5)
     [0, demo_nm ''sn''] demo_cmdst = ok (0, demo_cmdst\<lparr>cout := chars ''sn = 0'' @ [0x0D, 0x0A]\<rparr>)"
proof -
  have "leaf_text ''sn'' False 0 = chars ''sn = 0'' @ [0x0D, 0x0A]" by code_simp
  moreover have "get32 0 (replicate 80 0) = 0" by code_simp
  ultimately show ?thesis
    using config_gets_field [OF demo_ready, of F_sn "demo_nm ''sn''" demo_chip True 0 0] demo_at [of "''sn''"]
    by (simp add: field_path_def demo_strings_def config_names_def demo_cmdst_def decode_config_def)
qed

theorem setting_survives_restart_witness:
  "\<exists>y z. config_cmd demo_chip True 0 (demo_nm ''save'') (demo_nm ''load'') demo_mem 0x10000100 (config_val_decls demo_nm 1 5)
       [0, demo_nm ''can.output.0.sources.1.sensor_idx'', demo_nm ''300''] demo_cmdst = ok (0, y)
     \<and> config_cmd demo_chip True 0 (demo_nm ''save'') (demo_nm ''load'') demo_mem 0x10000100 (config_val_decls demo_nm 1 5)
       [0, demo_nm ''save''] y = ok (0, z)"
  using setting_survives_restart [OF demo_ready, of "F_source 0 1 S_sensor_idx" "demo_nm ''can.output.0.sources.1.sensor_idx''"
      "demo_nm ''300''" 300 "demo_nm ''save''" "demo_nm ''load''" demo_chip fst snd True 0 0] demo_chip_ok
    demo_at [of "''can.output.0.sources.1.sensor_idx''"] demo_at [of "''300''"] demo_at [of "''save''"] demo_at [of "''load''"] demo_path
  by (auto simp: demo_strings_def config_size_def output_size_def)

theorem config_unknown_key_witness:
  "config_cmd demo_chip True 0 (demo_nm ''save'') (demo_nm ''load'') demo_mem 0x10000100 (config_val_decls demo_nm 1 5)
     [0, demo_nm ''bus.id''] demo_cmdst = ok (- 1, demo_cmdst\<lparr>cout := chars ''bus.id is unkown'' @ [0x0D, 0x0A]\<rparr>)"
proof -
  have b: "chars ''bus.id'' = chars ''bus'' @ chars ''.id''" "chars ''bus.id is unkown'' = chars ''bus.id'' @ chars '' is unkown''"
    by (simp_all add: chars_def)
  have "more_path (chars ''.id'')" by code_simp
  then show ?thesis
    using config_unknown_key [OF demo_ready, of "demo_nm ''bus.id''" "''bus''" "chars ''.id''" demo_chip True 0 0 "[]"]
      demo_at [of "''bus.id''"] by (simp add: demo_strings_def b(1) [symmetric] b(2) demo_cmdst_def)
qed

theorem array_index_unchecked_witness:
  "config_cmd_set_get demo_mem 0x10000100 (output_desc demo_nm 1 5) (demo_nm ''x'') 0 0 16 demo_cmdst =
     config_cmd_set_get demo_mem 0x10000100 (mode_desc demo_nm) 0 0 0 16 demo_cmdst"
proof -
  have "chars ''x'' = [0x78]" by code_simp
  then show ?thesis
    using array_index_unchecked [OF demo_names, of "demo_nm ''x''" "0x78" 1 5] demo_at [of "''x''"]
    by (simp add: demo_strings_def digit_val_def output_size_def)
qed

end
