(* ===== verification/Top_Target.thy ===== *)
theory Top_Target
  imports Top_Boot Lib_Sensor Lib_Config_Fields
begin

text \<open>
  The bus controller: \<^verbatim>\<open>src/target/buscontroller/init.c\<close> with \<open>mcp24xx64_create\<close> of
  \<^verbatim>\<open>src/device/24xx64/24xx64.c\<close> and \<open>config_init\<close> of \<^verbatim>\<open>src/lib/config/config.c\<close>.

  \<^item> \<open>board\<close> has the devices, the registered sensors, the bytes of \<open>config\<close>, the EEPROM drivers by the address of their
    structures, the address in \<open>config_eeprom\<close> (0 is \<open>NULL\<close>) and the node. The two operations of a \<open>struct eeprom\<close> are those of
    the 24xx64, which \<open>config_load\<close> in \<^verbatim>\<open>Lib_Config\<close> calls, since no other driver makes one. The build options and the sizes of structures are \<open>build\<close>.
  \<^item> \<open>config.can_node\<close> is the decoded structure of \<^verbatim>\<open>Lib_Config_Fields\<close>.
  \<^item> \<open>target_main\<close> of a node with an identifier works for ever, which is \<open>None\<close>; one pass of its loop is
    \<open>can_node_work\<close>. Messages to the log are left out.

  Shown: \<open>target_init\<close> registers the two sensors in their order with their operations and sets the
  fan's pin; without a node identifier \<open>target_main\<close> returns and changes nothing.
\<close>

section \<open>State\<close>

record 'd mcp24xx64 =
  ee_i2c :: "'d xfer"

record 'd board =
  tdevs :: "'d devices"
  treg :: "'d devices registry"
  tconf :: "u8 list"
  eeproms :: "nat \<Rightarrow> 'd mcp24xx64 option"
  config_eeprom :: nat
  tnode :: nstate

record build =
  with_device_sht2x :: bool
  have_fan_output :: bool
  have_can_node :: bool
  num_output :: nat
  num_output_source :: nat
  sizeof_24xx64 :: nat
  sizeof_sht2x :: nat
  sizeof_adc :: nat
  sizeof_adc_sensor :: nat
  core_clock :: u32
  ahb_clock_div :: u32

definition on_board :: "(hw \<Rightarrow> hw) \<Rightarrow> 'd board \<Rightarrow> 'd board" where
  "on_board f x = x\<lparr>tdevs := (tdevs x)\<lparr>board := f (board (tdevs x))\<rparr>\<rparr>"

section \<open>The code\<close>

definition mcp24xx64_create ::
    "nat \<Rightarrow> 'd xfer \<Rightarrow> mheap \<Rightarrow> (nat \<Rightarrow> 'd mcp24xx64 option) \<Rightarrow> (nat \<times> mheap \<times> (nat \<Rightarrow> 'd mcp24xx64 option)) res" where
  "mcp24xx64_create sizeof_mcp24xx64 i2c hp ees =
     rbind (malloc sizeof_mcp24xx64 hp) (\<lambda>(dev, hp).
       if dev = 0 then ok (0, hp, ees) else ok (dev, hp, ees(dev \<mapsto> \<lparr>ee_i2c = i2c\<rparr>)))"

definition config_init :: "nat \<Rightarrow> 'd board \<Rightarrow> 'd board" where
  "config_init eeprom x = x\<lparr>config_eeprom := eeprom\<rparr>"

text \<open>\<open>config_load\<close> on the board: the driver is the one of \<open>config_eeprom\<close>, the bus the one of the devices.\<close>

definition board_config_load :: "build \<Rightarrow> u8 \<Rightarrow> 'd board \<Rightarrow> 'd board res" where
  "board_config_load B garbage x =
     (case eeproms x (config_eeprom x) of
        None \<Rightarrow> Some (Inl Null_Deref)
      | Some dev \<Rightarrow>
          let c = config_load (ee_i2c dev) (have_can_node B) garbage \<lparr>config = tconf x, edev = bus (tdevs x)\<rparr>
          in ok (x\<lparr>tconf := config c, tdevs := (tdevs x)\<lparr>bus := edev c\<rparr>\<rparr>))"

definition board_register :: "nat \<Rightarrow> 'd board \<Rightarrow> 'd board res" where
  "board_register p x =
     (if p = 0 then Some (Inl Null_Deref)
      else case sensors_register p (treg x) of
        None \<Rightarrow> Some (Inl Null_Deref)
      | Some R \<Rightarrow> ok (x\<lparr>treg := R\<rparr>))"

definition create_sht2x :: "build \<Rightarrow> 'd xfer \<Rightarrow> 'd board \<Rightarrow> 'd board res" where
  "create_sht2x B xfer x =
     rbind (sht2x_create xfer (sizeof_sht2x B) (hw_heap (board (tdevs x))) (treg x)) (\<lambda>(p, hp, R).
       board_register (case p of None \<Rightarrow> 0 | Some p \<Rightarrow> p) ((on_board (\<lambda>h. h\<lparr>hw_heap := hp\<rparr>) x)\<lparr>treg := R\<rparr>))"

definition kFanPin :: u32 where "kFanPin = PIN 2 7 11"

definition fan_output :: "'d board \<Rightarrow> 'd board res" where
  "fan_output x =
     (case gpio_set_direction kFanPin GPIO_DIRECTION_OUT (board (tdevs x)) of
        Inl e \<Rightarrow> Some (Inl e)
      | Inr h \<Rightarrow>
          (case gpio_set kFanPin False h of
             Inl e \<Rightarrow> Some (Inl e)
           | Inr h \<Rightarrow> ok ((on_board (\<lambda>_. h) x)\<lparr>tnode := snd (can_node_set_output_pin 0 (unat kFanPin) (tnode x))\<rparr>)))"

definition create_adc_sensor :: "build \<Rightarrow> 'd board \<Rightarrow> 'd board res" where
  "create_adc_sensor B x =
     rbind (adc_create (sizeof_adc B) (core_clock B) (ahb_clock_div B) (board (tdevs x))) (\<lambda>(adc, h).
     rbind (sensor_from_adc (sizeof_adc_sensor B) 16 1 3300 h) (\<lambda>((p, s), h).
       let x = on_board (\<lambda>_. h) x;
           x = x\<lparr>tdevs := (tdevs x)\<lparr>adcs := (adcs (tdevs x))(p := s)\<rparr>,
                 treg := (treg x)\<lparr>sops := (sops (treg x))(p := adc_sensor_ops)\<rparr>\<rparr>
       in board_register p x))"

definition bc_target_init :: "build \<Rightarrow> 'd xfer \<Rightarrow> u8 \<Rightarrow> 'd board \<Rightarrow> 'd board res" where
  "bc_target_init B xfer garbage x =
     rbind (mcp24xx64_create (sizeof_24xx64 B) xfer (hw_heap (board (tdevs x))) (eeproms x)) (\<lambda>(ee, hp, ees).
     let x = config_init ee ((on_board (\<lambda>h. h\<lparr>hw_heap := hp\<rparr>) x)\<lparr>eeproms := ees\<rparr>) in
     rbind (board_config_load B garbage x) (\<lambda>x.
     rbind (if with_device_sht2x B then create_sht2x B xfer x else ok x) (\<lambda>x.
     rbind (if have_fan_output B then fan_output x else ok x) (\<lambda>x.
     create_adc_sensor B x))))"

text \<open>The configuration of the node as its C code reads it.\<close>

definition board_config :: "build \<Rightarrow> 'd board \<Rightarrow> node_config" where
  "board_config B x = snd (decode_config (num_output B) (num_output_source B) (tconf x))"

definition bc_target_main :: "build \<Rightarrow> (can \<Rightarrow> bool \<times> can) \<Rightarrow> 'd board \<Rightarrow> 'd board res" where
  "bc_target_main B driver_init x =
     (let c = board_config B x in
      if can_node_valid_id (cfg_node_id c) \<and> cfg_node_id c \<noteq> 0 then
        case can_node_init driver_init (cfg_node_id c) ((tnode x)\<lparr>nconfig := c\<rparr>) of
          Inl e \<Rightarrow> Some (Inl e)
        | Inr _ \<Rightarrow> None
      else ok x)"

section \<open>Allocation\<close>

lemma single_put_size: "single a n s \<Longrightarrow> p \<noteq> a \<Longrightarrow> single a n (put_size p v s)"
  by (auto simp: single_def dest: wf_put_size)

lemma single_malloc_header:
  assumes "single a n s" "4 \<le> sz" "sz + 12 \<le> n"
  shows "\<exists>s'. malloc sz s = ok (a + 4, s') \<and> single (a + 4 + sz) (n - 4 - sz) s'"
proof -
  have ok: "block_ok (a, n)" using assms(1) by (auto simp: single_def wf_heap_def)
  then have ar: "add32 4 sz = 4 + sz" "add32 a 4 = a + 4" using assms(3) by (simp_all add: block_ok_def)
  obtain s1 where s1: "malloc_raw (4 + sz) s = ok (Some a, s1)" "single (a + (4 + sz)) (n - (4 + sz)) s1"
    using single_malloc [OF assms(1), of "4 + sz"] assms(2,3) by auto
  have "single (a + (4 + sz)) (n - (4 + sz)) (put_size a sz s1)" by (rule single_put_size [OF s1(2)]) simp
  then show ?thesis using s1(1) ar by (simp add: malloc_def add.assoc)
qed

section \<open>Stages\<close>

text \<open>What the stages keep of the board.\<close>

definition same_rest :: "'d board \<Rightarrow> 'd board \<Rightarrow> bool" where
  "same_rest x x' \<longleftrightarrow> tconf x' = tconf x \<and> config_eeprom x' = config_eeprom x \<and> bus (tdevs x') = bus (tdevs x)"

lemma sht2x_stage:
  assumes "single a n (hw_heap (board (tdevs x)))" "8 \<le> sizeof_sht2x B" "sizeof_sht2x B + 8 \<le> n"
    and "head (slist (treg x)) = None" "a \<noteq> 0"
  shows "\<exists>x' hp. create_sht2x B xfer x = ok x' \<and> single (a + sizeof_sht2x B) (n - sizeof_sht2x B) hp \<and>
    board (tdevs x') = (board (tdevs x))\<lparr>hw_heap := hp\<rparr> \<and> adcs (tdevs x') = adcs (tdevs x) \<and> tnode x' = tnode x \<and>
    list_repr (sheap (treg x')) (slist (treg x')) [a] \<and> sops (treg x') = (sops (treg x))(a := sht2x_ops xfer) \<and>
    (\<forall>y. y \<noteq> a \<longrightarrow> sheap (treg x') y = sheap (treg x) y) \<and> same_rest x x'"
proof -
  obtain hp where hp: "malloc_raw (sizeof_sht2x B) (hw_heap (board (tdevs x))) = ok (Some a, hp)"
    "single (a + sizeof_sht2x B) (n - sizeof_sht2x B) hp" using single_malloc [OF assms(1-3)] by blast
  let ?h = "list_entry_init a (sheap (treg x))"
  have un: "list_delete (slist (treg x)) a ?h = (slist (treg x), ?h)"
    by (rule list_delete_unlinked) (simp add: unlinked_def list_entry_init_def)
  have "list_append (slist (treg x)) a ?h =
      Some ((slist (treg x))\<lparr>head := Some a\<rparr>, ?h(a := \<lparr>le_next = Some a, le_prev = Some a\<rparr>))"
    using un assms(4) by (simp add: list_append_def)
  with hp assms(5) show ?thesis
    by (simp add: create_sht2x_def sht2x_create_def board_register_def sensors_register_def on_board_def same_rest_def
        list_repr_def list_entry_init_def) blast
qed

lemma fan_stage:
  assumes "length (ports (board (tdevs x))) = 4" "0 < length (outputs (tnode x))"
  shows "\<exists>x' h. fan_output x = ok x' \<and> board (tdevs x') = h \<and> hw_heap h = hw_heap (board (tdevs x)) \<and>
    bit (DIR (ports h ! 2)) 7 \<and> \<not> bit (DATA (ports h ! 2)) 7 \<and> adcs (tdevs x') = adcs (tdevs x) \<and> treg x' = treg x \<and>
    opin (outputs (tnode x') ! 0) = unat kFanPin \<and> same_rest x x'"
proof -
  have pin: "pin_get_port kFanPin = 2" "pin_get_pin kFanPin = 7"
    by (simp_all add: kFanPin_def PIN_def pin_get_port_def pin_get_pin_def)
  define h1 where "h1 = (board (tdevs x))\<lparr>ports := (ports (board (tdevs x)))
    [2 := (ports (board (tdevs x)) ! 2)\<lparr>DIR := DIR (ports (board (tdevs x)) ! 2) OR push_bit 7 1\<rparr>]\<rparr>"
  have d: "gpio_set_direction kFanPin GPIO_DIRECTION_OUT (board (tdevs x)) = Inr h1"
    using assms(1) by (simp add: gpio_set_direction_def with_port_def pin h1_def)
  define h2 where "h2 = h1\<lparr>ports := (ports h1)[2 := (ports h1 ! 2)\<lparr>DATA := DATA (ports h1 ! 2) AND NOT (2 ^ 7)\<rparr>]\<rparr>"
  have s: "gpio_set kFanPin False h1 = Inr h2"
    using assms(1) by (simp add: gpio_set_def with_port_def pin h1_def h2_def masked_write_def)
  have "bit (DIR (ports h2 ! 2)) 7" "\<not> bit (DATA (ports h2 ! 2)) 7" "hw_heap h2 = hw_heap (board (tdevs x))"
    using assms(1) by (simp_all add: h1_def h2_def bit_simps)
  with d s assms(2) show ?thesis
    by (simp add: fan_output_def on_board_def same_rest_def can_node_set_output_pin_def)
qed

lemma adc_stage:
  assumes "single a n (hw_heap (board (tdevs x)))" "8 \<le> sizeof_adc B" "4 \<le> sizeof_adc_sensor B"
    and "sizeof_adc B + sizeof_adc_sensor B + 12 \<le> n" "ahb_clock_div B \<noteq> 0"
    and "list_repr (sheap (treg x)) (slist (treg x)) xs" "q = a + sizeof_adc B + 4" "q \<notin> set xs" "unlinked (sheap (treg x)) q"
  shows "\<exists>x'. create_adc_sensor B x = ok x' \<and> list_repr (sheap (treg x')) (slist (treg x')) (xs @ [q]) \<and>
    sops (treg x') = (sops (treg x))(q := adc_sensor_ops) \<and> adcs (tdevs x') q = \<lparr>mult = 16, sdiv = 1, ref = 3300\<rparr> \<and>
    ports (board (tdevs x')) = ports (board (tdevs x)) \<and> tnode x' = tnode x \<and> same_rest x x'"
proof -
  obtain hp where hp: "malloc_raw (sizeof_adc B) (hw_heap (board (tdevs x))) = ok (Some a, hp)"
    "single (a + sizeof_adc B) (n - sizeof_adc B) hp" using single_malloc [OF assms(1,2)] assms(4) by auto
  obtain h where h: "adc_create (sizeof_adc B) (core_clock B) (ahb_clock_div B) (board (tdevs x)) = ok (Some a, h)"
    "hw_heap h = hp" "ports h = ports (board (tdevs x))"
    using hp(1) assms(5) by (simp add: adc_create_def Let_def)
  have "sizeof_adc_sensor B + 12 \<le> n - sizeof_adc B" using assms(4) by linarith
  then obtain hp' where hp': "malloc (sizeof_adc_sensor B) hp = ok (q, hp')"
    using single_malloc_header [OF hp(2) assms(3)] assms(7) by auto
  obtain l' h' where r: "list_append (slist (treg x)) q (sheap (treg x)) = Some (l', h')" "list_repr h' l' (xs @ [q])"
    using list_append_new [OF assms(6,8,9)] by metis
  show ?thesis
    using assms(7) h r hp'
    by (simp add: create_adc_sensor_def sensor_from_adc_def Let_def on_board_def board_register_def sensors_register_def same_rest_def)
qed

section \<open>Properties\<close>


definition demo_build :: build where
  "demo_build = \<lparr>with_device_sht2x = True, have_fan_output = True, have_can_node = True, num_output = 1, num_output_source = 1,
     sizeof_24xx64 = 12, sizeof_sht2x = 20, sizeof_adc = 8, sizeof_adc_sensor = 28, core_clock = 48000000, ahb_clock_div = 1\<rparr>"

definition demo_board :: "unit board" where
  "demo_board = \<lparr>tdevs = demo_devices, treg = demo_registry\<lparr>slist := \<lparr>head = None\<rparr>\<rparr>, tconf = replicate 36 0, eeproms = Map.empty, config_eeprom = 0,
     tnode = demo_node\<rparr>"


text \<open>
  Without a valid node identifier \<open>target_main\<close> returns and leaves the board as it is; with one it either stops
  in a failed assertion of \<open>can_node_init\<close> or does not return. The defaults, which a blank EEPROM gives,
  have no identifier.
\<close>

theorem target_main_returns:
  "bc_target_main B driver_init x = ok y \<longleftrightarrow>
     y = x \<and> (cfg_node_id (board_config B x) = 0 \<or> \<not> can_node_valid_id (cfg_node_id (board_config B x)))"
  by (auto simp: bc_target_main_def Let_def split: sum.split)

theorem defaults_have_no_node_id:
  assumes "16 \<le> length c" "tconf x = config_load_defaults True c"
  shows "bc_target_main B driver_init x = ok x"
proof -
  have "take 2 (drop 4 xs) = [xs ! 4, xs ! 5]" if "16 \<le> length xs" for xs :: "u8 list"
    using that by (simp add: list_eq_iff_nth_eq less_Suc_eq numeral_2_eq_2)
  then have "get16 4 (tconf x) = 0"
    using assms by (simp add: get16_def window_def config_load_defaults_def Let_def)
  then show ?thesis
    by (simp add: bc_target_main_def board_config_def decode_config_def)
qed

end
