(* ===== verification/Apps_Can.thy ===== *)
theory Apps_Can
  imports Lib_Can Lib_Printf FW_Result
begin

text \<open>
  The console applications \<^verbatim>\<open>src/apps/can/can.c\<close>, \<^verbatim>\<open>src/apps/can/can_node.c\<close> and \<^verbatim>\<open>src/apps/ls/ls.c\<close>.

  \<^item> The arguments are strings in the memory \<open>m\<close>, the literals of the source at the addresses \<open>L\<close>;
    \<open>printf\<close> appends what \<open>render\<close> yields. \<open>None\<close> is a string without an end.
  \<^item> The driver is the one of \<^verbatim>\<open>Plat_Can\<close>, with the table of handlers and the interrupt enable bits that \<open>can_init\<close>
    changes. \<open>garbage\<close> is what the variable \<open>frame\<close> has in the bytes that are not written.

  Shown: \<open>can send\<close> hands the first eight bytes of its argument to the driver for arguments of less
  than 256 characters, and what the receive callback prints.
\<close>

record capp =
  acan :: can
  atable :: irq_table
  aenabled :: u32
  aout :: "u8 list"

definition app_printf :: "cmem \<Rightarrow> piece list \<Rightarrow> u32 list \<Rightarrow> capp \<Rightarrow> capp res" where
  "app_printf m ps args x = map_option (\<lambda>s. Inr (x\<lparr>aout := aout x @ s\<rparr>)) (render m ps args)"

definition app_arg :: "cmem \<Rightarrow> (string \<Rightarrow> u32) \<Rightarrow> u32 \<Rightarrow> string \<Rightarrow> bool" where
  "app_arg m L p s = (strcmp m p (L s) = 0)"

section \<open>can.c\<close>

text \<open>
  The callback copies the data into nine characters and terminates it at \<open>data_length\<close>; what \<open>%s\<close> prints are the
  bytes before the first zero.
\<close>

definition can_cb :: "can_frame \<Rightarrow> capp \<Rightarrow> capp res" where
  "can_cb frame x =
     (if unat (data_length frame) > 8 then Some (Inl Out_Of_Bounds)
      else let message = takeWhile (\<lambda>c. c \<noteq> 0) (take (unat (data_length frame)) (fdata frame))
           in rbind (app_printf (\<lambda>_. 0) (lit ''Got message from '' @ [pct Conv_x] @ lit '' (len='' @ [pct Conv_d] @ lit ''): '')
                [fid frame, ucast (data_length frame)] x) (\<lambda>x.
              ok (x\<lparr>aout := aout x @ message @ chars [CHR 0x0D, CHR 0x0A]\<rparr>)))"

definition send_frame :: "u8 list \<Rightarrow> u8 list \<Rightarrow> nat \<Rightarrow> can_frame" where
  "send_frame garbage text len =
     (let n = of_nat len :: u8; n = (if n > 8 then 8 else n)
      in \<lparr>fid = 0x200, fflags = CAN_FRAME_FLAG_EXT, data_length = n,
          fdata = take (unat n) text @ drop (unat n) garbage\<rparr>)"

definition can_cmd ::
    "u8 list \<Rightarrow> nat \<Rightarrow> nat \<Rightarrow> u32 \<Rightarrow> cmem \<Rightarrow> (string \<Rightarrow> u32) \<Rightarrow> u32 list \<Rightarrow> capp \<Rightarrow> (int \<times> capp) res" where
  "can_cmd garbage isr cb clock m L argv x =
     (if length argv < 2 then rbind (app_printf m (lit ''To few arguments'' @ crlf) [] x) (\<lambda>x. ok (- 1, x))
      else if app_arg m L (argv ! 1) ''init'' then
        rbind (app_printf m (lit ''Initialize can...'') [] x) (\<lambda>x.
          case can_init isr clock 125000 (atable x) (aenabled x) (acan x) of
            Inl e \<Rightarrow> Some (Inl e)
          | Inr (t, en, c) \<Rightarrow>
              rbind (app_printf m (lit ''done.'' @ crlf) [] (x\<lparr>atable := t, aenabled := en, acan := c\<rparr>)) (\<lambda>x. ok (0, x)))
      else if app_arg m L (argv ! 1) ''bind'' then
        rbind (app_printf m (lit ''bind can...'') [] x) (\<lambda>x.
        rbind (app_printf m (lit ''done.'' @ crlf) []
          (x\<lparr>acan := snd (can_set_receive_callback 0 0 CAN_FRAME_FLAG_EXT cb 0 (acan x))\<rparr>)) (\<lambda>x. ok (0, x)))
      else if app_arg m L (argv ! 1) ''send'' then
        rbind (app_printf m (lit ''send can...'') [] x) (\<lambda>x.
        rbind (if length argv = 3 then
                 map_option (\<lambda>len. Inr (send_frame garbage (read_bytes m (argv ! 2) (unat len)) (unat len))) (strlen m (argv ! 2))
               else ok (send_frame garbage (chars ''Test'') 4)) (\<lambda>frame.
        rbind (app_printf m (lit ''done.'' @ crlf) [] (x\<lparr>acan := can_send frame 0 (acan x)\<rparr>)) (\<lambda>x. ok (0, x))))
      else ok (- 1, x))"

section \<open>can_node.c\<close>

record napp =
  anode :: nstate
  nout :: "u8 list"

definition node_printf :: "piece list \<Rightarrow> napp \<Rightarrow> napp res" where
  "node_printf ps x = map_option (\<lambda>s. Inr (x\<lparr>nout := nout x @ s\<rparr>)) (render (\<lambda>_. 0) ps [])"

text \<open>\<open>can_node_send\<close> returns the status of the driver, which is \<open>STATUS_OK\<close> or, without waiting, an error: \<open>sent_ok\<close>.\<close>

definition can_node_cmd ::
    "(can \<Rightarrow> bool \<times> can) \<Rightarrow> bool \<Rightarrow> cmem \<Rightarrow> (string \<Rightarrow> u32) \<Rightarrow> u32 list \<Rightarrow> napp \<Rightarrow> (int \<times> napp) res" where
  "can_node_cmd driver_init sent_ok m L argv x =
     (if length argv < 2 then rbind (node_printf (lit ''To few arguments'' @ crlf) x) (\<lambda>x. ok (- 1, x))
      else if app_arg m L (argv ! 1) ''init'' then
        rbind (node_printf (lit ''Initialize can node...'') x) (\<lambda>x.
          case can_node_init driver_init 0x278 (anode x) of
            Inl e \<Rightarrow> Some (Inl e)
          | Inr (good, n) \<Rightarrow>
              rbind (node_printf (lit (if good then ''done.'' else ''faild.'') @ crlf) (x\<lparr>anode := n\<rparr>)) (\<lambda>x. ok (0, x)))
      else if app_arg m L (argv ! 1) ''send'' then
        case can_node_send 20 0x2D9 (chars ''Hallo'') (anode x) of
          Inl e \<Rightarrow> Some (Inl e)
        | Inr n \<Rightarrow>
            rbind (if sent_ok then ok (x\<lparr>anode := n\<rparr>) else node_printf (lit ''failed.'' @ crlf) (x\<lparr>anode := n\<rparr>))
              (\<lambda>x. ok (- 1, x))
      else ok (- 1, x))"

section \<open>ls.c\<close>

definition ls_cmd :: "u32 list \<Rightarrow> 's \<Rightarrow> int \<times> 's" where
  "ls_cmd argv s = (0, s)"

section \<open>What is sent\<close>

lemma render_lit_only: "\<exists>s. render m (lit t @ crlf) [] = Some s" "\<exists>s. render m (lit t) [] = Some s"
  using render_lit [of m t crlf "[]"] render_lit [of m t "[]" "[]"] by simp_all

text \<open>
  The command \<open>can send\<close> with an argument of less than 256 characters hands one extended frame with
  the identifier 0x200 to the driver, whose data are the first eight bytes of the argument.
\<close>

theorem can_send_truncates:
  assumes "length argv = 3" "string_at m (argv ! 2) t" "length t < 256"
    and "app_arg m L (argv ! 1) ''send''" "\<not> app_arg m L (argv ! 1) ''init''" "\<not> app_arg m L (argv ! 1) ''bind''"
  shows "\<exists>x'. can_cmd garbage isr cb clock m L argv x = ok (0, x') \<and>
    acan x' = can_send \<lparr>fid = 0x200, fflags = CAN_FRAME_FLAG_EXT, data_length = of_nat (min 8 (length t)),
      fdata = take 8 t @ drop (min 8 (length t)) garbage\<rparr> 0 (acan x)"
proof -
  have len: "strlen m (argv ! 2) = Some (of_nat (length t))" "unat (of_nat (length t) :: u32) = length t"
    "read_bytes m (argv ! 2) (length t) = t"
    using assms(2) strlen_cstr [of m "argv ! 2" t] read_bytes_cstr [of m "argv ! 2" t] by (simp_all add: string_at_def unat_of_nat)
  have frame: "send_frame garbage t (length t) = \<lparr>fid = 0x200, fflags = CAN_FRAME_FLAG_EXT, data_length = of_nat (min 8 (length t)),
      fdata = take 8 t @ drop (min 8 (length t)) garbage\<rparr>"
    using assms(3) by (auto simp: send_frame_def Let_def word_less_nat_alt unat_of_nat min_def)
  obtain s1 s2 where "render m (lit ''send can...'') [] = Some s1" "render m (lit ''done.'' @ crlf) [] = Some s2"
    using render_lit_only by metis
  then show ?thesis
    using assms(1,4-6) len frame by (simp add: can_cmd_def app_printf_def)
qed

text \<open>The length is stored in 8 bits before it is limited: of 260 characters only four are sent.\<close>

lemma can_send_wraps: "data_length (send_frame garbage t 260) = 4"
  by (simp add: send_frame_def)

text \<open>\<open>can_node send\<close> reports failure to the console whether or not the frame was sent.\<close>

lemma can_node_send_result:
  assumes "2 \<le> length argv" "app_arg m L (argv ! 1) ''send''" "can_node_cmd d s m L argv x = ok (r, x')"
    "\<not> app_arg m L (argv ! 1) ''init''"
  shows "r = - 1"
  using assms by (auto simp: can_node_cmd_def rbind_eq_ok split: sum.splits if_splits)

end
