(* ===== verification/Spec2Isabelle.thy ===== *)
theory Spec2Isabelle
  imports Sim_Memory Sim_Machine Sim_Shift Sim_Options Core_Timer Lib_Console_Out Lib_Vfs_Dump Dev_Sht2x_Cmd
    Plat_I2c_Setup Plat_Uart Arch_Systick Arch_Vectors Core_Test Samd_Serial Repo_Tests Top_Target Apps_Can
begin

text \<open>
  A verification library for TheFirmware, the firmware of small CAN bus nodes on Cortex-M0
  microcontrollers, and for the simulator it is tested on. Paths are relative to \<^verbatim>\<open>src/\<close>.

  \<^bold>\<open>The program.\<close> The firmware has a kernel (\<^verbatim>\<open>core/\<close>: lists, allocator, threads, scheduler,
  semaphores, timers, strings), the processor's exceptions and system tick (\<^verbatim>\<open>arch/arm-m/\<close>), drivers
  (\<^verbatim>\<open>platform/\<close>, \<^verbatim>\<open>device/\<close>, \<^verbatim>\<open>peripheral/\<close>), libraries (\<^verbatim>\<open>lib/\<close>: checksum, formatted output, log, console,
  file system, configuration, sensors, the CAN node), the start-up (\<^verbatim>\<open>top/\<close>, \<^verbatim>\<open>target/\<close>) and console
  commands (\<^verbatim>\<open>apps/\<close>). A node measures with its sensors, publishes
  readings on the bus, switches outputs by readings and commands it receives, and keeps
  its configuration in an EEPROM. The simulator (\<^verbatim>\<open>tools/simulator/\<close>) loads the firmware
  from an ELF file, executes it instruction by instruction with memory and peripherals, and can be
  controlled by a debugger.

  \<^bold>\<open>Theories, in order of import.\<close>

  \<^item> \<^verbatim>\<open>FW_Prelude\<close>: machine integers, the faults in which a C function can end, list and word lemmas. \<^verbatim>\<open>FW_Result\<close>:
    results of functions that can fault or not return.
  \<^item> Simulator. \<^verbatim>\<open>Sim_Mcu\<close>: state, registers, memory devices and bus (\<^verbatim>\<open>core/mcu.c\<close>, \<^verbatim>\<open>peripherals/\<close>,
    parts of \<^verbatim>\<open>cortex-m0p/mcu.c\<close>). \<^verbatim>\<open>Sim_Instr\<close>, \<^verbatim>\<open>Sim_Exec\<close>: flags, every instruction, the two tables, decoder
    and step. \<^verbatim>\<open>Sim_Flags\<close>, \<^verbatim>\<open>Sim_Alu\<close>, \<^verbatim>\<open>Sim_Shift\<close>: results and flags against the architecture manual.
    \<^verbatim>\<open>Sim_Safety\<close>, \<^verbatim>\<open>Sim_Inv\<close>: when a step leaves defined behaviour, invariants of all runs through the locale of
    an invariant kept by every primitive. \<^verbatim>\<open>Sim_Memory\<close>: memory laws as a locale and its instances,
    stack instructions. \<^verbatim>\<open>Sim_Machine\<close>: decoding and run control. \<^verbatim>\<open>Sim_Gdb\<close>: the debugger stub
    (\<^verbatim>\<open>core/gdb.c\<close>). \<^verbatim>\<open>Sim_Elf\<close>, \<^verbatim>\<open>Sim_Options\<close>: loader, options and start (\<^verbatim>\<open>core/elf.c\<close>, \<^verbatim>\<open>simulator.c\<close>).
  \<^item> Kernel. \<^verbatim>\<open>Core_List\<close>: \<^verbatim>\<open>core/list.c\<close> on a heap of entries, refining sequences. \<^verbatim>\<open>Core_Malloc\<close>:
    \<^verbatim>\<open>core/malloc.c\<close> on a map of block headers. \<^verbatim>\<open>Core_Kernel\<close>: threads, scheduler, semaphores, and the
    system they form as a step relation. \<^verbatim>\<open>Core_Lock\<close>: semaphores as locks, the interface the drivers use.
    \<^verbatim>\<open>Core_Timer\<close>: managed timeouts and \<open>delay\<close>. \<^verbatim>\<open>Core_String\<close>:
    \<^verbatim>\<open>core/string.c\<close> on byte memory. \<^verbatim>\<open>Core_Test\<close>: unit tests on the simulator's device. \<^verbatim>\<open>Repo_Tests\<close>: the tests
    of \<^verbatim>\<open>tests/\<close> run on the model.
  \<^item> Processor. \<^verbatim>\<open>Arch_Arm\<close>: interrupt table and dispatch, the assembly of the exception handlers,
    start-up of memory (\<^verbatim>\<open>arch/arm-m/arch.c\<close>, \<^verbatim>\<open>platform/irq.c\<close>). \<^verbatim>\<open>Arch_Vectors\<close>: the vector table and the names of the
    interrupts. \<^verbatim>\<open>Arch_Systick\<close>: the timer hardware
    (\<^verbatim>\<open>arch/arm-m/systick.c\<close>), the interface of timer hardware as a locale, and its composition with
    \<^verbatim>\<open>Core_Timer\<close>.
  \<^item> Drivers. \<^verbatim>\<open>Plat_I2c\<close>, \<^verbatim>\<open>Plat_I2c_Setup\<close>: bus master as a state machine with the controller, and its set-up. \<^verbatim>\<open>Plat_Can\<close>: CAN driver and the
    interleavings of its sends. \<^verbatim>\<open>Plat_Gpio\<close>: pins, converter, voltage sensor, valves. \<^verbatim>\<open>Plat_Uart\<close>: serial port of
    the LPC11xx and the interleavings of its readers and writers. \<^verbatim>\<open>Samd_Port\<close>, \<^verbatim>\<open>Samd_Serial\<close>: pins, clocks and serial line
    of the SAMD20 (\<^verbatim>\<open>platform/samd20/\<close>). \<^verbatim>\<open>Dev_Sht2x\<close>, \<^verbatim>\<open>Dev_Sht2x_Cmd\<close>: humidity sensor and its command, thermometer.
    The EEPROM driver is in \<^verbatim>\<open>Lib_Config\<close>.
  \<^item> Libraries. \<^verbatim>\<open>Lib_Crc8\<close>, \<^verbatim>\<open>Lib_Printf\<close>, \<^verbatim>\<open>Lib_Log\<close> (with files and failed assertions), \<^verbatim>\<open>Lib_Console\<close> and
    \<^verbatim>\<open>Lib_Console_Out\<close> (\<open>help\<close> and messages), \<^verbatim>\<open>Lib_Vfs\<close> and \<^verbatim>\<open>Lib_Vfs_Dump\<close>, \<^verbatim>\<open>Lib_Config\<close>, \<^verbatim>\<open>Lib_Config_Cmd\<close> and
    \<^verbatim>\<open>Lib_Config_Fields\<close> (the command on its descriptor tables, and the fields they describe), \<^verbatim>\<open>Lib_Can\<close>,
    \<^verbatim>\<open>Lib_Sensor\<close> (sensors as objects in the list of sensors).
  \<^item> Whole firmware. \<^verbatim>\<open>Top_Init\<close>: start-up hooks. \<^verbatim>\<open>Top_Boot\<close>: \<open>firmware_main\<close> (\<^verbatim>\<open>top/\<close>). \<^verbatim>\<open>Top_Target\<close>: the bus
    controller (\<^verbatim>\<open>target/buscontroller/\<close>). \<^verbatim>\<open>Apps_Can\<close>: the commands of \<^verbatim>\<open>apps/\<close>.

  \<^bold>\<open>How code becomes definitions.\<close> A struct is a record, an enumeration a datatype or the number it is,
  an operation a function from state to state under its C name. Integers keep their width as words
  where they can wrap; \<open>millitime_t\<close> is an integer cut to 32 bits by \<open>ms\<close>. A failed assertion, a \<open>NULL\<close>
  dereference, an access outside an array, a division by zero are values of \<open>fault\<close>. Lists and the
  allocator work on explicit heaps; above them the run queue, the wait queues and the timeouts are sequences,
  as \<^verbatim>\<open>Core_List\<close> justifies. Code outside the repository is a parameter: callbacks, registers
  of the C calling convention, contents of uninitialised memory, outcomes of system calls, the calls of
  the CAN driver in ROM, reads of status bits. Tables of a data sheet (I2C status codes, EEPROM pages, acceptance filters) are
  predicates or functions of their own, named as such.

  \<^bold>\<open>Loops and fuel.\<close> Loops over data are structural recursion. A loop that need not end (allocator,
  strings without terminator, timeouts, polling) is a partial function with result \<open>None\<close>
  when it does not end, and each claim about it states that it does or when it does. Runs of the simulator are iterations of
  \<open>idle_cb\<close> for any number of steps. \<open>i2c_run\<close>, \<open>sys_step\<close>, \<open>can_step\<close> and \<open>uart_step\<close> are inductive; their
  invariants hold for runs of any length. Fuel is used for the loop of \<open>sht2x read\<close> and for the passes over the list of
  sensors; the claims give the amount that suffices, which is the number of readings or of sensors.

  \<^bold>\<open>What the lemmas show.\<close>

  \<^item> Simulator: arithmetic, comparisons and shifts agree with the manual; RAM is a memory; push and pop are
    inverse; locked flash never changes under execution; the debugger's packets survive the line, and whatever it sends
    within defined behaviour leaves the machine locked; the loader is exact; the machine starts with the given image.
  \<^item> Kernel: lists refine sequences; allocation is first fit, and safe unless the remainder of a split lies below the
    head of the list; run queue, wait queues and
    semaphore values agree in every reachable state, the values as long as they do not wrap; timeouts fire when due and
    reach the hardware in periods that add up to them and one tick each, and inserting one moves the others as stated; the context switch exchanges exactly the contexts, a
    new thread starts in its function, and an exception runs the handler registered under its name and is transparent to the
    interrupted thread; every unit test runs once and is reported as it ends, if \<^verbatim>\<open>core/bootstrap.c\<close> starts the firmware.
  \<^item> Drivers and libraries: transfers that write something end and report the truth; waiting sends never lose a frame; bytes of the serial port
    are neither lost nor mixed; frames
    reach their callback, readings switch outputs and commands reach pins; the checksum is its shift
    register and detects bursts; the \<open>config\<close> command sets exactly the field of its path, the configuration survives a restart
    and corruption is noticed; formatted output is
    the rendering of its format and parses back; lines that fit the buffer run their command; paths resolve; sensors are published in the order of
    their registration; baud registers are within one step of the rate.
  \<^item> Start-up: hooks run once each, by level and in order; \<open>firmware_main\<close> ends with the threads of the system; the
    bus controller has its sensors, its configuration and its output.
  \<^item> Where the code does something else than it means to, the lemma states what it does: releases below the
    head of the free list, a last one-shot timeout, starvation, lost wake-ups, interrupted signals, lines too long for the
    buffer, registers that do not exist, sends without waiting, empty transfers, valves, damaged characters, the commands without a device, and others.

  \<^bold>\<open>Not modelled.\<close> Vendored headers and code of the manufacturers (CMSIS, \<^verbatim>\<open>system_LPC11xx.c\<close>, the headers of \<^verbatim>\<open>platform/samd20/cmsis\<close>)
  and linker scripts; the registers they name are fields of the models. \<^verbatim>\<open>core/bootstrap.c\<close>, which the build does not
  contain and \<^verbatim>\<open>top/main.c\<close> replaces, except for its calls of the tests. \<^verbatim>\<open>target/valve-controller/main.c\<close>, one call of
  \<open>valve_create\<close>. The progress line of the simulator's unit test device and other output of the simulator on its terminal,
  its event loop and the set-up of its socket. The empty serial port of \<^verbatim>\<open>platform/sim\<close>. Messages to the log inside modelled functions. The
  C memory of structures is abstract except where aliasing matters (lists, allocator, strings, sensors).

  \<^bold>\<open>Idealised.\<close> An operation of a semaphore is one step, although \<open>semaphore_signal\<close> takes no lock. Headers of the allocator may
  be at any address, although the Cortex-M0 faults on unaligned ones. The time that a call takes is not counted in statements about
  timeouts. Where ISO C leaves a computation undefined that the compilers used define, the model has their result: left
  shifts of signed values in the simulator, and the wrap of \<open>-INT_MIN\<close> and of long precisions in \<open>vfprintf\<close>.
\<close>

end
